(* ===== verification/Prelude.thy ===== *)
theory Prelude
  imports Complex_Main "HOL-Library.Multiset"
begin

text \<open>
  What every component theory shares: the effect type of a request handler (a state that
  is threaded through and an exception that stops it), database transactions over it, and
  the tables of the database with the query shapes the services use.
\<close>

section \<open>Handlers: state and exceptions\<close>

text \<open>
  An asynchronous method of a service is a function from the state to its outcome
  (\<open>Inl\<close> the exception it throws, \<open>Inr\<close> its result) and the state it leaves.
  The state survives a throw: rows written before it stay, unless a
  \<open>transaction\<close> rolls them back.
\<close>

type_synonym ('s, 'e, 'a) op = "'s \<Rightarrow> ('e + 'a) \<times> 's"

named_theorems op_simps \<open>evaluation of handlers\<close>

definition ret :: "'a \<Rightarrow> ('s, 'e, 'a) op" where
  "ret a s = (Inr a, s)"

definition throw :: "'e \<Rightarrow> ('s, 'e, 'a) op" where
  "throw e s = (Inl e, s)"

definition bindM :: "('s, 'e, 'a) op \<Rightarrow> ('a \<Rightarrow> ('s, 'e, 'b) op) \<Rightarrow> ('s, 'e, 'b) op" where
  "bindM m f s = (case m s of (Inl e, t) \<Rightarrow> (Inl e, t) | (Inr a, t) \<Rightarrow> f a t)"

definition seqM :: "('s, 'e, 'a) op \<Rightarrow> ('s, 'e, 'b) op \<Rightarrow> ('s, 'e, 'b) op" where
  "seqM m n = bindM m (\<lambda>_. n)"

definition getsM :: "('s \<Rightarrow> 'a) \<Rightarrow> ('s, 'e, 'a) op" where
  "getsM f s = (Inr (f s), s)"

definition modifyM :: "('s \<Rightarrow> 's) \<Rightarrow> ('s, 'e, unit) op" where
  "modifyM f s = (Inr (), f s)"

definition guardM :: "bool \<Rightarrow> 'e \<Rightarrow> ('s, 'e, unit) op" where
  "guardM b e = (if b then ret () else throw e)"

definition someM :: "'e \<Rightarrow> 'a option \<Rightarrow> ('s, 'e, 'a) op" where
  "someM e x = (case x of None \<Rightarrow> throw e | Some a \<Rightarrow> ret a)"

text \<open>\<open>prisma.$transaction(f)\<close>: an exception leaves no trace of what \<open>f\<close> wrote.\<close>

definition transaction :: "('s, 'e, 'a) op \<Rightarrow> ('s, 'e, 'a) op" where
  "transaction m s = (case m s of (Inl e, _) \<Rightarrow> (Inl e, s) | (Inr a, t) \<Rightarrow> (Inr a, t))"

text \<open>\<open>try m catch (e) h(e)\<close>.\<close>

definition catchM :: "('s, 'e, 'a) op \<Rightarrow> ('e \<Rightarrow> ('s, 'e, 'a) op) \<Rightarrow> ('s, 'e, 'a) op" where
  "catchM m h s = (case m s of (Inl e, t) \<Rightarrow> h e t | (Inr a, t) \<Rightarrow> (Inr a, t))"

text \<open>\<open>for (const x of xs) await f(x)\<close>, and the same loop with an accumulator.\<close>

fun forM :: "'a list \<Rightarrow> ('a \<Rightarrow> ('s, 'e, unit) op) \<Rightarrow> ('s, 'e, unit) op" where
  "forM [] f = ret ()"
| "forM (x # xs) f = seqM (f x) (forM xs f)"

fun foldM :: "('b \<Rightarrow> 'a \<Rightarrow> ('s, 'e, 'b) op) \<Rightarrow> 'b \<Rightarrow> 'a list \<Rightarrow> ('s, 'e, 'b) op" where
  "foldM f b [] = ret b"
| "foldM f b (x # xs) = bindM (f b x) (\<lambda>b'. foldM f b' xs)"

lemma bindM_ret [op_simps]: "bindM (ret a) f s = f a s"
  by (simp add: bindM_def ret_def)

lemma bindM_throw [op_simps]: "bindM (throw e) f s = (Inl e, s)"
  by (simp add: bindM_def throw_def)

lemma bindM_gets [op_simps]: "bindM (getsM g) f s = f (g s) s"
  by (simp add: bindM_def getsM_def)

lemma bindM_modify [op_simps]: "bindM (modifyM g) f s = f () (g s)"
  by (simp add: bindM_def modifyM_def)

lemma bindM_guard [op_simps]: "bindM (guardM b e) f s = (if b then f () s else (Inl e, s))"
  by (simp add: bindM_def guardM_def ret_def throw_def)

lemma bindM_some [op_simps]:
  "bindM (someM e x) f s = (case x of None \<Rightarrow> (Inl e, s) | Some a \<Rightarrow> f a s)"
  by (simp add: bindM_def someM_def ret_def throw_def split: option.split)

lemma bindM_if [op_simps]: "bindM (if b then m else n) f s = (if b then bindM m f s else bindM n f s)"
  by simp

lemma bindM_bindM [op_simps]: "bindM (bindM m f) g s = bindM m (\<lambda>x. bindM (f x) g) s"
  by (simp add: bindM_def split: prod.split sum.split)

lemma seqM_apply [op_simps]: "seqM m n s = bindM m (\<lambda>_. n) s"
  by (simp add: seqM_def)

lemma bindM_seqM [op_simps]: "bindM (seqM m n) g s = bindM m (\<lambda>_. bindM n g) s"
  by (simp add: seqM_def bindM_bindM)

lemma gets_apply [op_simps]: "getsM f s = (Inr (f s), s)"
  by (simp add: getsM_def)

lemma modify_apply [op_simps]: "modifyM f s = (Inr (), f s)"
  by (simp add: modifyM_def)

lemma ret_apply [op_simps]: "ret a s = (Inr a, s)"
  by (simp add: ret_def)

lemma throw_apply [op_simps]: "throw e s = (Inl e, s)"
  by (simp add: throw_def)

lemma bindM_result: "m s = (Inr a, t) \<Longrightarrow> bindM m f s = f a t"
  by (simp add: bindM_def)

lemma bindM_error: "m s = (Inl e, t) \<Longrightarrow> bindM m f s = (Inl e, t)"
  by (simp add: bindM_def)

lemma bindM_InrE:
  assumes "bindM m f s = (Inr b, t)"
  obtains a u where "m s = (Inr a, u)" and "f a u = (Inr b, t)"
  using assms by (auto simp: bindM_def split: prod.splits sum.splits)

lemma transaction_error: "transaction m s = (Inl e, t) \<Longrightarrow> t = s"
  by (auto simp: transaction_def split: prod.splits sum.splits)

lemma transaction_Inr: "transaction m s = (Inr a, t) \<longleftrightarrow> m s = (Inr a, t)"
  by (auto simp: transaction_def split: prod.splits sum.splits)

lemma foldM_append: "foldM f b (xs @ ys) s = bindM (foldM f b xs) (\<lambda>c. foldM f c ys) s"
  by (induction xs arbitrary: b s) (simp_all add: op_simps, simp add: bindM_def split: prod.split sum.split)

text \<open>Preservation of a state invariant by a handler, whatever its outcome.\<close>

definition keeps :: "('s \<Rightarrow> bool) \<Rightarrow> ('s, 'e, 'a) op \<Rightarrow> bool" where
  "keeps P m \<longleftrightarrow> (\<forall>s. P s \<longrightarrow> P (snd (m s)))"

named_theorems keeps_intros \<open>rules that compose invariant preservation\<close>

lemma keepsI: "(\<And>s. P s \<Longrightarrow> P (snd (m s))) \<Longrightarrow> keeps P m"
  by (simp add: keeps_def)

lemma keepsD: "keeps P m \<Longrightarrow> P s \<Longrightarrow> P (snd (m s))"
  by (simp add: keeps_def)

lemma keeps_result: "keeps P m \<Longrightarrow> P s \<Longrightarrow> m s = (r, t) \<Longrightarrow> P t"
  using keepsD [of P m s] by simp

lemma keeps_ret [keeps_intros]: "keeps P (ret a)"
  by (simp add: keeps_def ret_def)

lemma keeps_throw [keeps_intros]: "keeps P (throw e)"
  by (simp add: keeps_def throw_def)

lemma keeps_gets [keeps_intros]: "keeps P (getsM f)"
  by (simp add: keeps_def getsM_def)

lemma keeps_guard [keeps_intros]: "keeps P (guardM b e)"
  by (simp add: keeps_def guardM_def ret_def throw_def)

lemma keeps_some [keeps_intros]: "keeps P (someM e x)"
  by (simp add: keeps_def someM_def ret_def throw_def split: option.split)

lemma keeps_bind [keeps_intros]: "keeps P m \<Longrightarrow> (\<And>a. keeps P (f a)) \<Longrightarrow> keeps P (bindM m f)"
  by (fastforce simp: keeps_def bindM_def split: prod.splits sum.splits)

lemma keeps_seq [keeps_intros]: "keeps P m \<Longrightarrow> keeps P n \<Longrightarrow> keeps P (seqM m n)"
  by (simp add: seqM_def keeps_bind)

lemma keeps_if [keeps_intros]: "keeps P m \<Longrightarrow> keeps P n \<Longrightarrow> keeps P (if b then m else n)"
  by simp

lemma keeps_transaction [keeps_intros]: "keeps P m \<Longrightarrow> keeps P (transaction m)"
  by (fastforce simp: keeps_def transaction_def split: prod.splits sum.splits)

lemma keeps_catch [keeps_intros]:
  "keeps P m \<Longrightarrow> (\<And>e. keeps P (h e)) \<Longrightarrow> keeps P (catchM m h)"
  by (fastforce simp: keeps_def catchM_def split: prod.splits sum.splits)

lemma keeps_forM [keeps_intros]: "(\<And>x. keeps P (f x)) \<Longrightarrow> keeps P (forM xs f)"
  by (induction xs) (simp_all add: keeps_ret keeps_seq)

lemma keeps_foldM [keeps_intros]: "(\<And>b x. keeps P (f b x)) \<Longrightarrow> keeps P (foldM f b xs)"
  by (induction xs arbitrary: b) (simp_all add: keeps_ret keeps_bind)

lemma keeps_modify: "(\<And>s. P s \<Longrightarrow> P (f s)) \<Longrightarrow> keeps P (modifyM f)"
  by (simp add: keeps_def modifyM_def)

section \<open>Tables\<close>

text \<open>
  A table is the list of its rows in insertion order. \<open>find_by\<close> is a
  \<open>findUnique\<close> or \<open>findFirst\<close>, \<open>rows_where\<close> a \<open>findMany\<close>,
  \<open>count_where\<close> a \<open>count\<close>, \<open>update_where\<close> an \<open>update\<close> or
  \<open>updateMany\<close>, whose affected row count is the \<open>count_where\<close> of the same condition.
\<close>

definition find_by :: "('r \<Rightarrow> bool) \<Rightarrow> 'r list \<Rightarrow> 'r option" where
  "find_by p t = List.find p t"

definition rows_where :: "('r \<Rightarrow> bool) \<Rightarrow> 'r list \<Rightarrow> 'r list" where
  "rows_where p t = filter p t"

definition count_where :: "('r \<Rightarrow> bool) \<Rightarrow> 'r list \<Rightarrow> nat" where
  "count_where p t = length (filter p t)"

definition update_where :: "('r \<Rightarrow> bool) \<Rightarrow> ('r \<Rightarrow> 'r) \<Rightarrow> 'r list \<Rightarrow> 'r list" where
  "update_where p f t = map (\<lambda>r. if p r then f r else r) t"

definition delete_where :: "('r \<Rightarrow> bool) \<Rightarrow> 'r list \<Rightarrow> 'r list" where
  "delete_where p t = filter (\<lambda>r. \<not> p r) t"

definition exists_by :: "('r \<Rightarrow> bool) \<Rightarrow> 'r list \<Rightarrow> bool" where
  "exists_by p t \<longleftrightarrow> list_ex p t"

lemma find_by_Nil [simp]: "find_by p [] = None"
  by (simp add: find_by_def)

lemma find_by_Cons [simp]: "find_by p (r # t) = (if p r then Some r else find_by p t)"
  by (simp add: find_by_def)

lemma find_by_append: "find_by p (t @ u) = (case find_by p t of None \<Rightarrow> find_by p u | Some r \<Rightarrow> Some r)"
  by (induction t) auto

lemma find_by_SomeD: "find_by p t = Some r \<Longrightarrow> p r \<and> r \<in> set t"
  by (induction t) (auto split: if_splits)

lemma find_by_None: "find_by p t = None \<longleftrightarrow> (\<forall>r \<in> set t. \<not> p r)"
  by (induction t) auto

lemma exists_by_iff: "exists_by p t \<longleftrightarrow> (\<exists>r \<in> set t. p r)"
  by (simp add: exists_by_def list_ex_iff)

lemma exists_by_simps [simp]:
  "exists_by p [] \<longleftrightarrow> False"
  "exists_by p (r # t) \<longleftrightarrow> p r \<or> exists_by p t"
  "exists_by p (t @ u) \<longleftrightarrow> exists_by p t \<or> exists_by p u"
  by (auto simp: exists_by_def)

lemma exists_by_find: "exists_by p t \<longleftrightarrow> find_by p t \<noteq> None"
  by (auto simp: exists_by_iff find_by_None)

lemma update_where_simps [simp]:
  "update_where p f [] = []"
  "update_where p f (r # t) = (if p r then f r else r) # update_where p f t"
  "update_where p f (t @ u) = update_where p f t @ update_where p f u"
  by (simp_all add: update_where_def)

lemma length_update_where [simp]: "length (update_where p f t) = length t"
  by (simp add: update_where_def)

lemma update_where_none: "\<forall>r \<in> set t. \<not> p r \<Longrightarrow> update_where p f t = t"
  by (induction t) auto

lemma map_update_where:
  "(\<And>r. g (f r) = g r) \<Longrightarrow> map g (update_where p f t) = map g t"
  by (induction t) auto

lemma find_by_update_where:
  "(\<And>r. q (f r) = q r) \<Longrightarrow>
   find_by q (update_where p f t) = map_option (\<lambda>r. if p r then f r else r) (find_by q t)"
  by (induction t) auto

lemma count_where_simps [simp]:
  "count_where p [] = 0"
  "count_where p (r # t) = (if p r then Suc (count_where p t) else count_where p t)"
  "count_where p (t @ u) = count_where p t + count_where p u"
  by (simp_all add: count_where_def)

lemma count_where_0: "count_where p t = 0 \<longleftrightarrow> \<not> exists_by p t"
  by (induction t) auto

lemma rows_where_simps [simp]:
  "rows_where p [] = []"
  "rows_where p (r # t) = (if p r then r # rows_where p t else rows_where p t)"
  "rows_where p (t @ u) = rows_where p t @ rows_where p u"
  by (simp_all add: rows_where_def)

lemma set_rows_where [simp]: "set (rows_where p t) = {r \<in> set t. p r}"
  by (auto simp: rows_where_def)

lemma rows_where_update_where:
  "(\<And>r. q (f r) = q r) \<Longrightarrow>
   rows_where q (update_where p f t) = update_where p f (rows_where q t)"
  by (induction t) auto

subsection \<open>Primary keys\<close>

text \<open>
  \<open>keyed k t\<close>: the column \<open>k\<close> is unique over the table. An insert that
  respects it and every update that leaves the key alone keep it, and then a lookup by key
  sees exactly the row that was written. The locale \<open>table\<close> of \<open>Database\<close>
  is the interface through which the components use their tables.
\<close>

definition keyed :: "('r \<Rightarrow> 'k) \<Rightarrow> 'r list \<Rightarrow> bool" where
  "keyed k t \<longleftrightarrow> distinct (map k t)"

lemma keyed_Nil [simp]: "keyed k []"
  by (simp add: keyed_def)

lemma keyed_append_one:
  "keyed k (t @ [r]) \<longleftrightarrow> keyed k t \<and> \<not> exists_by (\<lambda>x. k x = k r) t"
  by (auto simp: keyed_def exists_by_iff image_iff)

lemma keyed_update_where: "(\<And>r. k (f r) = k r) \<Longrightarrow> keyed k (update_where p f t) = keyed k t"
  by (simp add: keyed_def map_update_where)

lemma keyed_delete_where: "keyed k t \<Longrightarrow> keyed k (delete_where p t)"
  by (simp add: keyed_def delete_where_def distinct_map_filter)

lemma keyed_find: "keyed k t \<Longrightarrow> r \<in> set t \<Longrightarrow> find_by (\<lambda>x. k x = k r) t = Some r"
  by (induction t) (auto simp: keyed_def)

lemma keyed_unique: "keyed k t \<Longrightarrow> r \<in> set t \<Longrightarrow> u \<in> set t \<Longrightarrow> k r = k u \<Longrightarrow> r = u"
  by (auto simp: keyed_def distinct_map inj_on_def)

subsection \<open>Sums over tables\<close>

lemma sum_list_update_key:
  fixes g :: "'r \<Rightarrow> 'n::ab_group_add"
  assumes "keyed k t" and "find_by (\<lambda>x. k x = i) t = Some r"
  shows "sum_list (map g (update_where (\<lambda>x. k x = i) f t)) = sum_list (map g t) + (g (f r) - g r)"
  using assms
proof (induction t)
  case Nil
  then show ?case by simp
next
  case (Cons x t)
  show ?case
  proof (cases "k x = i")
    case True
    with Cons.prems have none: "\<forall>y \<in> set t. \<not> k y = i" and r: "r = x"
      by (auto simp: keyed_def image_iff)
    from none have "update_where (\<lambda>x. k x = i) f t = t"
      by (rule update_where_none)
    with True r show ?thesis by simp
  next
    case False
    with Cons show ?thesis by (simp add: keyed_def algebra_simps)
  qed
qed

lemma sum_list_map_filter_if:
  "sum_list (map g (filter p t)) = sum_list (map (\<lambda>r. if p r then g r else (0::'n::comm_monoid_add)) t)"
  by (induction t) auto

lemma sum_list_update_where_other:
  "(\<And>r. p r \<Longrightarrow> g (f r) = g r) \<Longrightarrow> sum_list (map g (update_where p f t)) = sum_list (map g t)"
  by (induction t) auto

end
