(* ===== verification/JsValue.thy ===== *)
theory JsValue
  imports Prelude
begin

text \<open>
  The values of the language the services compute with: strings, \<open>Decimal\<close> amounts,
  IEEE numbers and dates. A \<open>Decimal\<close> is a rational (sums, differences and products of
  ledger amounts stay far below the 20 significant digits the class carries, so they are
  exact); a \<open>Number\<close> is a rational rounded to 53 significant bits after each operation; a
  date is its epoch millisecond, read in UTC. Characters are ASCII.
\<close>

section \<open>Strings\<close>

definition is_space :: "char \<Rightarrow> bool" where
  "is_space c \<longleftrightarrow> c \<in> {CHR '' '', CHR 0x09, CHR 0x0A, CHR 0x0B, CHR 0x0C, CHR 0x0D}"

definition is_digit :: "char \<Rightarrow> bool" where
  "is_digit c \<longleftrightarrow> 48 \<le> (of_char c :: nat) \<and> (of_char c :: nat) \<le> 57"

definition is_lower :: "char \<Rightarrow> bool" where
  "is_lower c \<longleftrightarrow> 97 \<le> (of_char c :: nat) \<and> (of_char c :: nat) \<le> 122"

definition is_upper :: "char \<Rightarrow> bool" where
  "is_upper c \<longleftrightarrow> 65 \<le> (of_char c :: nat) \<and> (of_char c :: nat) \<le> 90"

definition upper_char :: "char \<Rightarrow> char" where
  "upper_char c = (if is_lower c then char_of ((of_char c :: nat) - 32) else c)"

definition lower_char :: "char \<Rightarrow> char" where
  "lower_char c = (if is_upper c then char_of ((of_char c :: nat) + 32) else c)"

definition to_upper :: "string \<Rightarrow> string" where
  "to_upper s = map upper_char s"

definition to_lower :: "string \<Rightarrow> string" where
  "to_lower s = map lower_char s"

definition trim_left :: "string \<Rightarrow> string" where
  "trim_left s = dropWhile is_space s"

definition trim :: "string \<Rightarrow> string" where
  "trim s = rev (trim_left (rev (trim_left s)))"

definition digit_char :: "nat \<Rightarrow> char" where
  "digit_char d = char_of (48 + d mod 10)"

definition digit_val :: "char \<Rightarrow> nat" where
  "digit_val c = (of_char c :: nat) - 48"

fun show_nat :: "nat \<Rightarrow> string" where
  "show_nat n = (if n < 10 then [digit_char n] else show_nat (n div 10) @ [digit_char (n mod 10)])"

declare show_nat.simps [simp del]

definition read_nat :: "string \<Rightarrow> nat" where
  "read_nat s = foldl (\<lambda>n c. 10 * n + digit_val c) 0 s"

definition pad_left :: "nat \<Rightarrow> char \<Rightarrow> string \<Rightarrow> string" where
  "pad_left k c s = replicate (k - length s) c @ s"

lemma of_char_digit_char: "(of_char (digit_char d) :: nat) = 48 + d mod 10"
proof -
  have "d mod 10 < 10" by simp
  then have "48 + d mod 10 < (256::nat)" by linarith
  then show ?thesis by (simp add: digit_char_def)
qed

lemma digit_val_digit_char [simp]: "digit_val (digit_char d) = d mod 10"
  by (simp add: digit_val_def of_char_digit_char)

lemma is_digit_digit_char [simp]: "is_digit (digit_char d)"
proof -
  have "d mod 10 < 10" by simp
  then show ?thesis unfolding is_digit_def of_char_digit_char by linarith
qed

lemma digit_val_less: "is_digit c \<Longrightarrow> digit_val c < 10"
  unfolding is_digit_def digit_val_def by linarith

lemma digit_char_digit_val: "is_digit c \<Longrightarrow> digit_char (digit_val c) = c"
  using digit_val_less [of c] by (simp add: is_digit_def digit_char_def digit_val_def)

lemma show_nat_digits: "\<forall>c \<in> set (show_nat n). is_digit c"
proof (induction n rule: show_nat.induct)
  case (1 n)
  then show ?case by (subst show_nat.simps) auto
qed

lemma show_nat_nonempty [simp]: "show_nat n \<noteq> []"
  by (subst show_nat.simps) simp

lemma read_nat_append: "read_nat (s @ t) = foldl (\<lambda>n c. 10 * n + digit_val c) (read_nat s) t"
  by (simp add: read_nat_def)

lemma read_show_nat: "read_nat (show_nat n) = n"
proof (induction n rule: show_nat.induct)
  case (1 n)
  show ?case
  proof (cases "n < 10")
    case True
    then show ?thesis by (subst show_nat.simps) (simp add: read_nat_def)
  next
    case False
    with 1 have "read_nat (show_nat (n div 10)) = n div 10" by simp
    with False show ?thesis by (subst show_nat.simps) (simp add: read_nat_append)
  qed
qed

lemma read_nat_pad [simp]: "read_nat (replicate k (CHR ''0'') @ s) = read_nat s"
proof -
  have "foldl (\<lambda>n c. 10 * n + digit_val c) 0 (replicate k (CHR ''0'')) = 0"
    by (induction k) (simp_all add: digit_val_def)
  then show ?thesis by (simp add: read_nat_def)
qed

lemma read_nat_pad_left: "read_nat (pad_left k (CHR ''0'') s) = read_nat s"
  by (simp add: pad_left_def)

lemma length_show_nat: "n < 10 ^ k \<Longrightarrow> 0 < k \<Longrightarrow> length (show_nat n) \<le> k"
proof (induction k arbitrary: n)
  case 0
  then show ?case by simp
next
  case (Suc k)
  show ?case
  proof (cases "n < 10")
    case True
    then show ?thesis by (subst show_nat.simps) simp
  next
    case False
    with Suc.prems have k: "0 < k" by (cases k) auto
    from Suc.prems have "n div 10 < 10 ^ k" by (simp add: less_mult_imp_div_less mult.commute)
    then have "length (show_nat (n div 10)) \<le> k" using k by (rule Suc.IH)
    with False show ?thesis by (subst show_nat.simps) simp
  qed
qed

lemma length_pad_left: "length s \<le> k \<Longrightarrow> length (pad_left k c s) = k"
  by (simp add: pad_left_def)

section \<open>Decimal amounts\<close>

type_synonym decimal = rat

definition pow10 :: "nat \<Rightarrow> rat" where
  "pow10 d = of_nat (10 ^ d)"

text \<open>\<open>ROUND_DOWN\<close> (towards zero) and \<open>ROUND_HALF_UP\<close> (halves away from zero) to an integer.\<close>

definition round_down :: "rat \<Rightarrow> int" where
  "round_down x = (if 0 \<le> x then \<lfloor>x\<rfloor> else - \<lfloor>- x\<rfloor>)"

definition round_half_up :: "rat \<Rightarrow> int" where
  "round_half_up x = (if 0 \<le> x then \<lfloor>x + 1 / 2\<rfloor> else - \<lfloor>- x + 1 / 2\<rfloor>)"

text \<open>\<open>toDecimalPlaces(d)\<close> rounds half up unless a mode is given.\<close>

definition to_dp :: "nat \<Rightarrow> decimal \<Rightarrow> decimal" where
  "to_dp d x = of_int (round_half_up (x * pow10 d)) / pow10 d"

definition to_dp_down :: "nat \<Rightarrow> decimal \<Rightarrow> decimal" where
  "to_dp_down d x = of_int (round_down (x * pow10 d)) / pow10 d"

text \<open>\<open>scaled d x\<close>: the amount has at most \<open>d\<close> decimal places.\<close>

definition scaled :: "nat \<Rightarrow> decimal \<Rightarrow> bool" where
  "scaled d x \<longleftrightarrow> of_int \<lfloor>x * pow10 d\<rfloor> = x * pow10 d"

text \<open>\<open>toFixed(d)\<close>: round half up and print with exactly \<open>d\<close> digits after the point.\<close>

definition to_fixed :: "nat \<Rightarrow> decimal \<Rightarrow> string" where
  "to_fixed d x =
     (let n = round_half_up (x * pow10 d); m = nat \<bar>n\<bar> in
      (if n < 0 then ''-'' else []) @ show_nat (m div 10 ^ d) @
      (if d = 0 then [] else CHR ''.'' # pad_left d (CHR ''0'') (show_nat (m mod 10 ^ d))))"

text \<open>\<open>decimalPlaces()\<close>: the least number of places that represents the amount, of the 20 the class keeps.\<close>

definition decimal_places :: "decimal \<Rightarrow> nat" where
  "decimal_places x = length (takeWhile (\<lambda>d. \<not> scaled d x) [0..<20])"

lemma pow10_pos [simp]: "0 < pow10 d"
  by (simp add: pow10_def)

lemma pow10_nonzero [simp]: "pow10 d \<noteq> 0"
  by (simp add: pow10_def)

lemma pow10_add: "pow10 (a + b) = pow10 a * pow10 b"
  by (simp add: pow10_def power_add)

lemma scaledE:
  assumes "scaled d x"
  obtains n :: int where "x = of_int n / pow10 d"
proof (rule that)
  from assms have "of_int \<lfloor>x * pow10 d\<rfloor> = x * pow10 d" by (simp add: scaled_def)
  then show "x = of_int \<lfloor>x * pow10 d\<rfloor> / pow10 d" by (metis nonzero_mult_div_cancel_right pow10_nonzero)
qed

lemma scaled_div [intro, simp]: "scaled d (of_int n / pow10 d)"
  by (simp add: scaled_def)

lemma scaled_iff: "scaled d x \<longleftrightarrow> (\<exists>n. x = of_int n / pow10 d)"
proof
  assume "scaled d x"
  then obtain n where "x = of_int n / pow10 d" by (rule scaledE)
  then show "\<exists>n. x = of_int n / pow10 d" ..
qed auto

lemma scaled_0 [simp]: "scaled d 0"
  by (simp add: scaled_def)

lemma scaled_add: "scaled d x \<Longrightarrow> scaled d y \<Longrightarrow> scaled d (x + y)"
  by (auto simp: scaled_iff simp flip: of_int_add add_divide_distrib)

lemma scaled_diff: "scaled d x \<Longrightarrow> scaled d y \<Longrightarrow> scaled d (x - y)"
  by (auto simp: scaled_iff simp flip: of_int_diff diff_divide_distrib)

lemma scaled_of_int [simp]: "scaled d (of_int n)"
proof -
  have "(of_int n :: rat) = of_int (n * 10 ^ d) / pow10 d" by (simp add: pow10_def)
  then show ?thesis unfolding scaled_iff by blast
qed

lemma scaled_mono:
  assumes "d \<le> e" and "scaled d x"
  shows "scaled e x"
proof -
  from assms(1) obtain k where e: "e = d + k" by (auto simp: le_iff_add)
  from assms(2) obtain n where n: "x = of_int n / pow10 d" by (rule scaledE)
  have "x = of_int (n * 10 ^ k) / pow10 e"
    by (simp add: n e pow10_def power_add)
  then show ?thesis unfolding scaled_iff by blast
qed

lemma scaled_to_dp [simp]: "scaled d (to_dp d x)"
  by (simp add: to_dp_def)

lemma scaled_to_dp_down [simp]: "scaled d (to_dp_down d x)"
  by (simp add: to_dp_down_def)

lemma round_half_up_of_int [simp]: "round_half_up (of_int n) = n"
proof -
  have "\<lfloor>of_int k + 1 / 2 :: rat\<rfloor> = k" for k :: int
    by (simp add: floor_eq_iff)
  from this [of n] this [of "- n"] show ?thesis
    by (simp add: round_half_up_def)
qed

lemma round_down_of_int [simp]: "round_down (of_int n) = n"
  by (simp add: round_down_def)

lemma to_dp_scaled: "scaled d x \<Longrightarrow> to_dp d x = x"
  by (auto simp: to_dp_def elim!: scaledE)

lemma to_dp_down_scaled: "scaled d x \<Longrightarrow> to_dp_down d x = x"
  by (auto simp: to_dp_down_def elim!: scaledE)

lemma round_down_le: "0 \<le> x \<Longrightarrow> of_int (round_down x) \<le> x"
  by (simp add: round_down_def)

lemma round_down_nonneg: "0 \<le> x \<Longrightarrow> 0 \<le> round_down x"
  by (simp add: round_down_def)

lemma to_dp_down_le: "0 \<le> x \<Longrightarrow> to_dp_down d x \<le> x"
  using round_down_le [of "x * pow10 d"] by (simp add: mult_nonneg_nonneg less_imp_le to_dp_down_def divide_le_eq)

lemma to_dp_down_nonneg: "0 \<le> x \<Longrightarrow> 0 \<le> to_dp_down d x"
  using round_down_nonneg [of "x * pow10 d"] by (simp add: mult_nonneg_nonneg less_imp_le to_dp_down_def)

lemma round_half_up_nonneg: "0 \<le> x \<Longrightarrow> 0 \<le> round_half_up x"
  by (simp add: round_half_up_def)

lemma to_dp_nonneg: "0 \<le> x \<Longrightarrow> 0 \<le> to_dp d x"
  using round_half_up_nonneg [of "x * pow10 d"] by (simp add: mult_nonneg_nonneg less_imp_le to_dp_def)

lemma to_dp_0 [simp]: "to_dp d 0 = 0"
  by (rule to_dp_scaled) simp

text \<open>
  Splitting a whole amount into two parts and rounding each half up keeps the sum, unless
  both parts sit exactly on a half.
\<close>

lemma round_half_up_split:
  fixes x :: rat and n :: int
  assumes "0 \<le> x" and "x \<le> of_int n" and "x - of_int \<lfloor>x\<rfloor> \<noteq> 1 / 2"
  shows "round_half_up x + round_half_up (of_int n - x) = n"
proof -
  define f where "f = \<lfloor>x\<rfloor>"
  define r where "r = x - of_int f"
  have r: "0 \<le> r" "r < 1" "r \<noteq> 1 / 2" and x: "x = of_int f + r"
    using assms(3) by (auto simp: r_def f_def) (linarith | simp)+
  have y: "0 \<le> of_int n - x" using assms(2) by simp
  show ?thesis
  proof (cases "r < 1 / 2")
    case True
    have "\<lfloor>x + 1 / 2\<rfloor> = f" using r True by (simp add: x floor_eq_iff)
    moreover have "\<lfloor>of_int n - x + 1 / 2\<rfloor> = n - f" using r True by (simp add: x floor_eq_iff)
    ultimately show ?thesis using assms(1) y by (simp add: round_half_up_def)
  next
    case False
    with r have h: "1 / 2 < r" by simp
    have "\<lfloor>x + 1 / 2\<rfloor> = f + 1" using r h by (simp add: x floor_eq_iff)
    moreover have "\<lfloor>of_int n - x + 1 / 2\<rfloor> = n - f - 1" using r h by (simp add: x floor_eq_iff)
    ultimately show ?thesis using assms(1) y by (simp add: round_half_up_def)
  qed
qed

lemma round_half_up_split_half:
  fixes x :: rat and n :: int
  assumes "0 \<le> x" and "x \<le> of_int n" and "x - of_int \<lfloor>x\<rfloor> = 1 / 2"
  shows "round_half_up x + round_half_up (of_int n - x) = n + 1"
proof -
  define f where "f = \<lfloor>x\<rfloor>"
  have x: "x = of_int f + 1 / 2" using assms(3) by (simp add: f_def)
  have "\<lfloor>x + 1 / 2\<rfloor> = f + 1" by (simp add: x floor_eq_iff)
  moreover have "\<lfloor>of_int n - x + 1 / 2\<rfloor> = n - f" by (simp add: x floor_eq_iff)
  ultimately show ?thesis using assms by (simp add: round_half_up_def)
qed

end
