(* ===== verification/JsNumber.thy ===== *)
theory JsNumber
  imports JsValue
begin

text \<open>
  IEEE double arithmetic as rationals rounded to 53 significant bits (round to nearest,
  ties to even). The services only multiply positive amounts between one ten-thousandth and
  a few hundred millions, so overflow and subnormal numbers do not occur and are not modelled.
  Dates are epoch milliseconds; the calendar is the proleptic Gregorian one, in UTC.
\<close>

section \<open>Double precision numbers\<close>

fun bits :: "nat \<Rightarrow> nat" where
  "bits n = (if n = 0 then 0 else Suc (bits (n div 2)))"

declare bits.simps [simp del]

definition pow2 :: "int \<Rightarrow> rat" where
  "pow2 e = (if 0 \<le> e then 2 ^ nat e else 1 / 2 ^ nat (- e))"

definition flog2 :: "rat \<Rightarrow> int" where
  "flog2 x = (case quotient_of x of (p, q) \<Rightarrow>
     let e = int (bits (nat p)) - int (bits (nat q)) in if pow2 e \<le> x then e else e - 1)"

definition round_half_even :: "rat \<Rightarrow> int" where
  "round_half_even x =
     (let f = \<lfloor>x\<rfloor>; d = x - of_int f in
      if d < 1 / 2 then f else if 1 / 2 < d then f + 1 else if even f then f else f + 1)"

text \<open>The nearest double of a rational: what \<open>Number(decimal)\<close> and each \<open>*\<close> return.\<close>

definition double :: "rat \<Rightarrow> rat" where
  "double x =
     (if x = 0 then 0
      else let u = pow2 (flog2 \<bar>x\<bar> - 52) in sgn x * of_int (round_half_even (\<bar>x\<bar> / u)) * u)"

definition num_mul :: "rat \<Rightarrow> rat \<Rightarrow> rat" where
  "num_mul a b = double (a * b)"

lemma bits_bounds: "0 < n \<Longrightarrow> 2 ^ (bits n - 1) \<le> n \<and> n < 2 ^ bits n \<and> 0 < bits n"
proof (induction n rule: bits.induct)
  case (1 n)
  show ?case
  proof (cases "n div 2 = 0")
    case True
    with 1 have n: "n = 1" by auto
    have "bits 0 = 0" by (subst bits.simps) simp
    then show ?thesis by (subst (1 2 3) bits.simps) (simp add: n)
  next
    case False
    with 1 have IH: "2 ^ (bits (n div 2) - 1) \<le> n div 2" "n div 2 < 2 ^ bits (n div 2)"
      "0 < bits (n div 2)" by auto
    have b: "bits n = Suc (bits (n div 2))" using 1 by (subst bits.simps) simp
    obtain k where k: "bits (n div 2) = Suc k" using IH(3) by (cases "bits (n div 2)") auto
    from IH k have "2 * 2 ^ k \<le> n" "n < 2 * (2 * 2 ^ k)" by auto
    then show ?thesis by (simp add: b k)
  qed
qed

lemma pow2_pos [simp]: "0 < pow2 e"
  by (simp add: pow2_def)

lemma pow2_nonzero [simp]: "pow2 e \<noteq> 0"
  using pow2_pos [of e] by linarith

lemma pow2_of_nat [simp]: "pow2 (int k) = 2 ^ k"
  by (simp add: pow2_def)

lemma pow2_powi: "pow2 e = 2 powi e"
  by (simp add: pow2_def power_int_def inverse_eq_divide power_one_over)

lemma pow2_add: "pow2 (a + b) = pow2 a * pow2 b"
  by (simp add: pow2_powi power_int_add)

lemma pow2_diff: "pow2 (a - b) = pow2 a / pow2 b"
  by (simp add: pow2_powi power_int_diff)

lemma pow2_mono: "a \<le> b \<Longrightarrow> pow2 a \<le> pow2 b"
  by (simp add: pow2_powi power_int_increasing)

lemma bits_of_int:
  assumes "0 < p" and "2 ^ i \<le> nat p" and "nat p < 2 ^ j"
  shows "(2::rat) ^ i \<le> of_int p \<and> of_int p < (2::rat) ^ j"
proof -
  from assms have "2 ^ i \<le> p" "p < 2 ^ j" by (simp_all add: le_nat_iff nat_less_iff)
  then have "of_int (2 ^ i) \<le> (of_int p :: rat)" "of_int p < (of_int (2 ^ j) :: rat)"
    by (simp_all only: of_int_le_iff of_int_less_iff)
  then show ?thesis by simp
qed

lemma flog2_bounds:
  assumes "0 < x"
  shows "pow2 (flog2 x) \<le> x \<and> x < pow2 (flog2 x + 1)"
proof -
  obtain p q where q: "quotient_of x = (p, q)" by (cases "quotient_of x")
  then have q0: "0 < q" and x: "x = of_int p / of_int q"
    by (auto simp: quotient_of_denom_pos quotient_of_div)
  with assms have p0: "0 < p" by (simp add: zero_less_divide_iff)
  define a b where "a = bits (nat p)" and "b = bits (nat q)"
  have a: "2 ^ (a - 1) \<le> nat p" "nat p < 2 ^ a" "0 < a"
    using bits_bounds [of "nat p"] p0 by (auto simp: a_def)
  have b: "2 ^ (b - 1) \<le> nat q" "nat q < 2 ^ b" "0 < b"
    using bits_bounds [of "nat q"] q0 by (auto simp: b_def)
  have P: "(2::rat) ^ (a - 1) \<le> of_int p" "of_int p < (2::rat) ^ a"
    using bits_of_int [of p "a - 1" a] a p0 by simp_all
  have Q: "(2::rat) ^ (b - 1) \<le> of_int q" "of_int q < (2::rat) ^ b"
    using bits_of_int [of q "b - 1" b] b q0 by simp_all
  define e where "e = int a - int b"
  have hi: "x < pow2 (e + 1)"
  proof -
    have "e + 1 = int a - int (b - 1)" using b(3) by (simp add: e_def)
    then have "pow2 (e + 1) = 2 ^ a / 2 ^ (b - 1)" by (simp only: pow2_diff pow2_of_nat)
    moreover have "x < 2 ^ a / 2 ^ (b - 1)"
      unfolding x using P(2) Q(1) p0 by (intro frac_less) simp_all
    ultimately show ?thesis by simp
  qed
  have lo: "pow2 (e - 1) \<le> x"
  proof -
    have "e - 1 = int (a - 1) - int b" using a(3) by (simp add: e_def)
    then have "pow2 (e - 1) = 2 ^ (a - 1) / 2 ^ b" by (simp only: pow2_diff pow2_of_nat)
    moreover have "2 ^ (a - 1) / 2 ^ b \<le> x"
      unfolding x using P(1) Q(2) p0 q0 by (intro frac_le) simp_all
    ultimately show ?thesis by simp
  qed
  have "flog2 x = (if pow2 e \<le> x then e else e - 1)"
    by (simp add: flog2_def q e_def a_def b_def Let_def)
  then show ?thesis using hi lo by auto
qed

lemma round_half_even_of_int [simp]: "round_half_even (of_int n) = n"
  by (simp add: round_half_even_def)

lemma round_half_even_error: "\<bar>of_int (round_half_even x) - x\<bar> \<le> 1 / 2"
proof -
  have "of_int \<lfloor>x\<rfloor> \<le> x" "x < of_int \<lfloor>x\<rfloor> + 1" by linarith+
  then show ?thesis by (auto simp: round_half_even_def Let_def abs_le_iff split: if_splits)
qed

text \<open>The exponent and the significand of a double from their defining inequalities.\<close>

lemma flog2_unique:
  assumes "pow2 e \<le> x" and "x < pow2 (e + 1)"
  shows "flog2 x = e"
proof -
  have "0 < x" using assms(1) pow2_pos [of e] by linarith
  note b = flog2_bounds [OF this]
  show ?thesis
  proof (rule ccontr)
    assume "flog2 x \<noteq> e"
    then consider "flog2 x + 1 \<le> e" | "e + 1 \<le> flog2 x" by linarith
    then show False
    proof cases
      case 1
      then have "pow2 (flog2 x + 1) \<le> pow2 e" by (rule pow2_mono)
      with b assms show False by linarith
    next
      case 2
      then have "pow2 (e + 1) \<le> pow2 (flog2 x)" by (rule pow2_mono)
      with b assms show False by linarith
    qed
  qed
qed

lemma round_half_even_unique:
  assumes "\<bar>of_int k - x\<bar> < 1 / 2"
  shows "round_half_even x = k"
proof -
  have "\<lfloor>x\<rfloor> = k \<or> \<lfloor>x\<rfloor> = k - 1" using assms unfolding floor_eq_iff of_int_diff of_int_1 by linarith
  then show ?thesis using assms by (auto simp: round_half_even_def Let_def)
qed

lemma double_eq:
  assumes "pow2 e \<le> x" and "x < pow2 (e + 1)" and "\<bar>of_int k - x / pow2 (e - 52)\<bar> < 1 / 2"
  shows "double x = of_int k * pow2 (e - 52)"
proof -
  have x: "0 < x" using assms(1) pow2_pos [of e] by linarith
  show ?thesis
    using x flog2_unique [OF assms(1,2)] round_half_even_unique [OF assms(3)]
    by (simp add: double_def Let_def)
qed

text \<open>Whole numbers up to \<open>2 ^ 53\<close> are doubles: arithmetic on whole riel is exact.\<close>

lemma double_of_int:
  assumes "\<bar>n\<bar> \<le> 2 ^ 53"
  shows "double (of_int n) = of_int n"
proof (cases "n = 0")
  case True
  then show ?thesis by (simp add: double_def)
next
  case False
  define a where "a = \<bar>n\<bar>"
  define e where "e = flog2 (of_int a)"
  from False have a: "0 < a" by (simp add: a_def)
  have e: "pow2 e \<le> of_int a" "of_int a < pow2 (e + 1)"
    using flog2_bounds [of "of_int a"] a by (simp_all add: e_def)
  have e0: "0 \<le> e"
  proof (rule ccontr)
    assume "\<not> 0 \<le> e"
    then have "pow2 (e + 1) \<le> pow2 0" by (intro pow2_mono) simp
    with e(2) a show False by (simp add: pow2_def)
  qed
  have e53: "e \<le> 53"
  proof (rule ccontr)
    assume "\<not> e \<le> 53"
    then have "pow2 54 \<le> pow2 e" by (intro pow2_mono) simp
    moreover have "of_int a \<le> (2 ^ 53 :: rat)" using assms by (simp add: a_def flip: of_int_le_iff)
    ultimately show False using e(1) by (simp add: pow2_def)
  qed
  have "\<exists>k. of_int a / pow2 (e - 52) = of_int k"
  proof (cases "e \<le> 52")
    case True
    then have "of_int a / pow2 (e - 52) = of_int (a * 2 ^ nat (52 - e))"
      by (cases "e = 52") (simp_all add: pow2_def)
    then show ?thesis ..
  next
    case False
    with e53 have e: "e = 53" by simp
    with \<open>pow2 e \<le> of_int a\<close> have "pow2 53 \<le> of_int a" by simp
    then have "2 ^ 53 \<le> a" by (simp add: pow2_def flip: of_int_le_iff)
    with assms have "a = 2 ^ 53" by (simp add: a_def)
    then have "of_int a / pow2 (e - 52) = of_int (2 ^ 52)" by (simp add: e pow2_def)
    then show ?thesis ..
  qed
  then obtain k where k: "of_int a / pow2 (e - 52) = of_int k" ..
  then have "of_int k * pow2 (e - 52) = of_int a" by (simp add: field_simps)
  moreover have "sgn (of_int n :: rat) * of_int a = of_int n"
    by (simp add: a_def sgn_if)
  ultimately show ?thesis
    using False k by (simp add: double_def Let_def e_def a_def mult.assoc)
qed

lemma double_nonneg: "0 \<le> x \<Longrightarrow> 0 \<le> double x"
proof -
  assume "0 \<le> x"
  moreover have "0 \<le> round_half_even y" if "0 \<le> y" for y
    using that by (simp add: round_half_even_def Let_def)
  ultimately show ?thesis by (auto simp: double_def Let_def sgn_if less_imp_le mult_nonneg_nonneg)
qed

lemma double_error: "\<bar>double x - x\<bar> \<le> \<bar>x\<bar> / 2 ^ 53"
proof (cases "x = 0")
  case True
  then show ?thesis by (simp add: double_def)
next
  case False
  define a u where "a = \<bar>x\<bar>" and "u = pow2 (flog2 \<bar>x\<bar> - 52)"
  have a: "0 < a" using False by (simp add: a_def)
  have u: "0 < u" by (simp add: u_def)
  have "u * 2 ^ 52 = pow2 (flog2 a)"
    using pow2_diff [of "flog2 a" 52] by (simp add: u_def a_def pow2_def [of 52])
  then have ua: "u * 2 ^ 52 \<le> a" using flog2_bounds [OF a] by simp
  define r where "r = round_half_even (a / u)"
  have "\<bar>of_int r - a / u\<bar> \<le> 1 / 2" unfolding r_def by (rule round_half_even_error)
  then have "\<bar>of_int r - a / u\<bar> * u \<le> 1 / 2 * u" using u by (intro mult_right_mono) auto
  moreover have "\<bar>of_int r - a / u\<bar> * u = \<bar>of_int r * u - a\<bar>"
  proof -
    have "(of_int r - a / u) * u = of_int r * u - a" using u by (simp add: left_diff_distrib)
    then show ?thesis using u by (metis abs_mult abs_of_pos)
  qed
  ultimately have "\<bar>of_int r * u - a\<bar> \<le> u / 2" by simp
  moreover have "u / 2 \<le> a / 2 ^ 53" using ua by simp
  moreover have "\<bar>double x - x\<bar> = \<bar>of_int r * u - a\<bar>"
  proof -
    have "double x = sgn x * (of_int r * u)" using False by (simp add: double_def Let_def r_def u_def a_def)
    moreover have "x = sgn x * a" by (simp add: a_def sgn_mult_abs)
    ultimately have "double x - x = sgn x * (of_int r * u - a)" by (simp add: right_diff_distrib)
    then show ?thesis using False by (simp add: abs_mult)
  qed
  ultimately show ?thesis by (simp add: a_def)
qed

section \<open>Dates\<close>

definition ms_day :: int where "ms_day = 86400000"

text \<open>Days since 1970-01-01 of a civil date, and back (months from 1).\<close>

definition days_from_civil :: "int \<Rightarrow> int \<Rightarrow> int \<Rightarrow> int" where
  "days_from_civil y m d =
     (let y' = (if m \<le> 2 then y - 1 else y); era = y' div 400; yoe = y' mod 400;
          doy = (153 * (if 2 < m then m - 3 else m + 9) + 2) div 5 + d - 1
      in era * 146097 + (yoe * 365 + yoe div 4 - yoe div 100 + doy) - 719468)"

definition civil_from_days :: "int \<Rightarrow> int \<times> int \<times> int" where
  "civil_from_days z =
     (let z' = z + 719468; era = z' div 146097; doe = z' mod 146097;
          yoe = (doe - doe div 1460 + doe div 36524 - doe div 146096) div 365;
          doy = doe - (365 * yoe + yoe div 4 - yoe div 100);
          mp = (5 * doy + 2) div 153; d = doy - (153 * mp + 2) div 5 + 1;
          m = (if mp < 10 then mp + 3 else mp - 9)
      in (if m \<le> 2 then yoe + era * 400 + 1 else yoe + era * 400, m, d))"

text \<open>
  \<open>make_day y m d\<close> for a month counted from 0 that may run over the year, and a day that
  may run over the month, as the \<open>Date\<close> setters normalise them.
\<close>

definition make_day :: "int \<Rightarrow> int \<Rightarrow> int \<Rightarrow> int" where
  "make_day y m d = days_from_civil (y + m div 12) (m mod 12 + 1) 1 + d - 1"

text \<open>\<open>d.setMonth(d.getMonth() + k)\<close>, \<open>d.setDate(d.getDate() + n)\<close>, \<open>d.setHours(0, 0, 0, 0)\<close>.\<close>

definition add_months :: "int \<Rightarrow> int \<Rightarrow> int" where
  "add_months t k = (case civil_from_days (t div ms_day) of (y, m, d) \<Rightarrow>
     make_day y (m - 1 + k) d * ms_day + t mod ms_day)"

definition add_days :: "int \<Rightarrow> int \<Rightarrow> int" where
  "add_days t n = t + n * ms_day"

definition start_of_day :: "int \<Rightarrow> int" where
  "start_of_day t = t - t mod ms_day"

definition start_of_month :: "int \<Rightarrow> int" where
  "start_of_month t = (case civil_from_days (t div ms_day) of (y, m, d) \<Rightarrow>
     make_day y (m - 1) 1 * ms_day)"

lemma start_of_day_le: "start_of_day t \<le> t"
  by (simp add: start_of_day_def ms_day_def)

end
