(* ===== verification/SharedTypes.thy ===== *)
theory SharedTypes
  imports JsNumber
begin

text \<open>
  \<open>packages/shared-types/src/index.ts\<close> and \<open>apps/api/src/common/api-error.ts\<close>:
  the status machines of payments and of value transactions with their transition tables,
  the currencies, key modes and roles, and the structured errors with their HTTP status.
\<close>

section \<open>Payment status\<close>

datatype payment_status = Pending | Scanned | Paid | Expired | Failed | Cancelled | Refunded

fun PAYMENT_TRANSITIONS :: "payment_status \<Rightarrow> payment_status list" where
  "PAYMENT_TRANSITIONS Pending = [Scanned, Paid, Expired, Failed, Cancelled]"
| "PAYMENT_TRANSITIONS Scanned = [Paid, Expired, Failed, Cancelled]"
| "PAYMENT_TRANSITIONS Paid = [Refunded]"
| "PAYMENT_TRANSITIONS Expired = [Paid]"
| "PAYMENT_TRANSITIONS Failed = []"
| "PAYMENT_TRANSITIONS Cancelled = []"
| "PAYMENT_TRANSITIONS Refunded = []"

definition canTransition :: "payment_status \<Rightarrow> payment_status \<Rightarrow> bool" where
  "canTransition from_st to_st = List.member (PAYMENT_TRANSITIONS from_st) to_st"

fun status_name :: "payment_status \<Rightarrow> string" where
  "status_name Pending = ''pending''"
| "status_name Scanned = ''scanned''"
| "status_name Paid = ''paid''"
| "status_name Expired = ''expired''"
| "status_name Failed = ''failed''"
| "status_name Cancelled = ''cancelled''"
| "status_name Refunded = ''refunded''"

datatype webhook_event_type =
  EvCreated | EvScanned | EvCompleted | EvExpired | EvFailed | EvCancelled | EvRefunded

fun event_name :: "webhook_event_type \<Rightarrow> string" where
  "event_name EvCreated = ''payment.created''"
| "event_name EvScanned = ''payment.scanned''"
| "event_name EvCompleted = ''payment.completed''"
| "event_name EvExpired = ''payment.expired''"
| "event_name EvFailed = ''payment.failed''"
| "event_name EvCancelled = ''payment.cancelled''"
| "event_name EvRefunded = ''payment.refunded''"

fun STATUS_TO_EVENT :: "payment_status \<Rightarrow> webhook_event_type option" where
  "STATUS_TO_EVENT Scanned = Some EvScanned"
| "STATUS_TO_EVENT Paid = Some EvCompleted"
| "STATUS_TO_EVENT Expired = Some EvExpired"
| "STATUS_TO_EVENT Failed = Some EvFailed"
| "STATUS_TO_EVENT Cancelled = Some EvCancelled"
| "STATUS_TO_EVENT Refunded = Some EvRefunded"
| "STATUS_TO_EVENT Pending = None"

text \<open>The table as a step relation, with its inversions.\<close>

inductive pay_step :: "payment_status \<Rightarrow> payment_status \<Rightarrow> bool" where
  allowed: "canTransition s t \<Longrightarrow> pay_step s t"

inductive_simps pay_step_iff: "pay_step s t"

lemma canTransition_simps [simp]:
  "canTransition Pending t \<longleftrightarrow> t \<in> {Scanned, Paid, Expired, Failed, Cancelled}"
  "canTransition Scanned t \<longleftrightarrow> t \<in> {Paid, Expired, Failed, Cancelled}"
  "canTransition Paid t \<longleftrightarrow> t = Refunded"
  "canTransition Expired t \<longleftrightarrow> t = Paid"
  "canTransition Failed t \<longleftrightarrow> False"
  "canTransition Cancelled t \<longleftrightarrow> False"
  "canTransition Refunded t \<longleftrightarrow> False"
  by (auto simp: canTransition_def)

lemma canTransition_to_paid: "canTransition s Paid \<longleftrightarrow> s \<in> {Pending, Scanned, Expired}"
  by (cases s) auto

lemma canTransition_to_refunded: "canTransition s Refunded \<longleftrightarrow> s = Paid"
  by (cases s) auto

lemma canTransition_irrefl: "\<not> canTransition s s"
  by (cases s) auto

text \<open>A run of statuses: each is an allowed successor of the one before.\<close>

fun pay_run :: "payment_status \<Rightarrow> payment_status list \<Rightarrow> bool" where
  "pay_run s [] \<longleftrightarrow> True"
| "pay_run s (t # ts) \<longleftrightarrow> pay_step s t \<and> pay_run t ts"

lemma pay_run_after_final: "s \<in> {Failed, Cancelled, Refunded} \<Longrightarrow> pay_run s ts \<Longrightarrow> ts = []"
  by (cases ts) (auto simp: pay_step_iff)

lemma pay_run_after_paid: "pay_run Paid ts \<Longrightarrow> ts = [] \<or> ts = [Refunded]"
  using pay_run_after_final [of Refunded] by (cases ts) (auto simp: pay_step_iff)

text \<open>
  A rank that every transition raises: the machine has no cycle, so a payment changes status
  at most four times.
\<close>

fun pay_rank :: "payment_status \<Rightarrow> nat" where
  "pay_rank Pending = 0"
| "pay_rank Scanned = 1"
| "pay_rank Expired = 2"
| "pay_rank Paid = 3"
| "pay_rank Failed = 4"
| "pay_rank Cancelled = 4"
| "pay_rank Refunded = 4"

lemma pay_step_rank: "pay_step s t \<Longrightarrow> pay_rank s < pay_rank t"
  by (cases s) (auto simp: pay_step_iff)

lemma pay_run_length_rank: "pay_run s ts \<Longrightarrow> pay_rank s + length ts \<le> 4"
proof (induction ts arbitrary: s)
  case Nil
  then show ?case by (cases s) auto
next
  case (Cons t ts)
  from Cons.prems have "pay_rank s < pay_rank t" by (simp add: pay_step_rank)
  moreover from Cons have "pay_rank t + length ts \<le> 4" by simp
  ultimately show ?case by simp
qed

section \<open>Digital value transactions\<close>

datatype value_status = VPending | VProcessing | VConfirmed | VFailed | VManualReview | VReversed

fun VALUE_TXN_TRANSITIONS :: "value_status \<Rightarrow> value_status list" where
  "VALUE_TXN_TRANSITIONS VPending = [VProcessing, VConfirmed, VFailed, VManualReview]"
| "VALUE_TXN_TRANSITIONS VProcessing = [VConfirmed, VFailed, VManualReview]"
| "VALUE_TXN_TRANSITIONS VConfirmed = [VReversed]"
| "VALUE_TXN_TRANSITIONS VFailed = [VManualReview]"
| "VALUE_TXN_TRANSITIONS VManualReview = [VConfirmed, VFailed, VReversed]"
| "VALUE_TXN_TRANSITIONS VReversed = []"

definition canTransitionValue :: "value_status \<Rightarrow> value_status \<Rightarrow> bool" where
  "canTransitionValue from_st to_st = List.member (VALUE_TXN_TRANSITIONS from_st) to_st"

definition SETTLED_VALUE_STATUSES :: "value_status list" where
  "SETTLED_VALUE_STATUSES = [VConfirmed]"

definition IN_FLIGHT_VALUE_STATUSES :: "value_status list" where
  "IN_FLIGHT_VALUE_STATUSES = [VPending, VProcessing, VManualReview]"

inductive value_reach :: "value_status \<Rightarrow> value_status \<Rightarrow> bool" where
  value_refl: "value_reach s s"
| value_step: "value_reach s t \<Longrightarrow> canTransitionValue t u \<Longrightarrow> value_reach s u"

lemma canTransitionValue_simps [simp]:
  "canTransitionValue VPending t \<longleftrightarrow> t \<in> {VProcessing, VConfirmed, VFailed, VManualReview}"
  "canTransitionValue VProcessing t \<longleftrightarrow> t \<in> {VConfirmed, VFailed, VManualReview}"
  "canTransitionValue VConfirmed t \<longleftrightarrow> t = VReversed"
  "canTransitionValue VFailed t \<longleftrightarrow> t = VManualReview"
  "canTransitionValue VManualReview t \<longleftrightarrow> t \<in> {VConfirmed, VFailed, VReversed}"
  "canTransitionValue VReversed t \<longleftrightarrow> False"
  by (auto simp: canTransitionValue_def)

lemma value_reach_confirmed_reversed:
  "value_reach s t \<Longrightarrow> s \<in> {VConfirmed, VReversed} \<Longrightarrow> t \<in> {VConfirmed, VReversed}"
  by (induction rule: value_reach.induct) auto

lemma value_reach_one: "canTransitionValue s t \<Longrightarrow> value_reach s t"
  by (rule value_step [OF value_refl])

lemma value_reach_reversed: "value_reach s t \<Longrightarrow> s = VReversed \<Longrightarrow> t = VReversed"
  by (induction rule: value_reach.induct) auto

lemma value_reach_confirmed_iff: "value_reach s VConfirmed \<longleftrightarrow> s \<noteq> VReversed"
proof
  assume "value_reach s VConfirmed"
  then show "s \<noteq> VReversed" using value_reach_reversed by blast
next
  assume s: "s \<noteq> VReversed"
  show "value_reach s VConfirmed"
  proof (cases s)
    case VFailed
    then have "value_reach s VManualReview" by (simp add: value_reach_one)
    then show ?thesis by (rule value_step) simp
  qed (use s in \<open>auto intro: value_refl value_reach_one\<close>)
qed

section \<open>Currencies, key modes, roles\<close>

datatype currency = USD | KHR

fun currency_name :: "currency \<Rightarrow> string" where
  "currency_name USD = ''USD''"
| "currency_name KHR = ''KHR''"

datatype key_mode = TestMode | LiveMode

fun mode_name :: "key_mode \<Rightarrow> string" where
  "mode_name TestMode = ''test''"
| "mode_name LiveMode = ''live''"

datatype member_role = Owner | Developer | Analyst | PlatformAdmin

fun role_name :: "member_role \<Rightarrow> string" where
  "role_name Owner = ''owner''"
| "role_name Developer = ''developer''"
| "role_name Analyst = ''analyst''"
| "role_name PlatformAdmin = ''platform_admin''"

lemma currency_name_inject: "currency_name a = currency_name b \<longleftrightarrow> a = b"
  by (cases a; cases b) auto

section \<open>Errors\<close>

datatype api_error_code =
  Unauthorized | Forbidden | EmailUnverified | InvalidRequest | AmountTooLow | AmountTooHigh
| PaymentNotFound | PaymentExpired | PaymentProviderError | QuotaExceeded | RateLimitExceeded
| IdempotencyConflict | InternalError

fun ERROR_HTTP_STATUS :: "api_error_code \<Rightarrow> nat" where
  "ERROR_HTTP_STATUS Unauthorized = 401"
| "ERROR_HTTP_STATUS Forbidden = 403"
| "ERROR_HTTP_STATUS EmailUnverified = 403"
| "ERROR_HTTP_STATUS InvalidRequest = 400"
| "ERROR_HTTP_STATUS AmountTooLow = 400"
| "ERROR_HTTP_STATUS AmountTooHigh = 400"
| "ERROR_HTTP_STATUS PaymentNotFound = 404"
| "ERROR_HTTP_STATUS PaymentExpired = 409"
| "ERROR_HTTP_STATUS PaymentProviderError = 502"
| "ERROR_HTTP_STATUS QuotaExceeded = 402"
| "ERROR_HTTP_STATUS RateLimitExceeded = 429"
| "ERROR_HTTP_STATUS IdempotencyConflict = 409"
| "ERROR_HTTP_STATUS InternalError = 500"

text \<open>
  What a handler may throw: an \<open>ApiError\<close> (its code and message), the database's
  unique violation \<open>P2002\<close> or missing row \<open>P2025\<close>, or a plain
  \<open>Error\<close> of the language.
\<close>

datatype exn = ApiError api_error_code string | P2002 | P2025 | JsError string

abbreviation forbidden :: "string \<Rightarrow> exn" where "forbidden \<equiv> ApiError Forbidden"
abbreviation invalidRequest :: "string \<Rightarrow> exn" where "invalidRequest \<equiv> ApiError InvalidRequest"
abbreviation amountTooLow :: "string \<Rightarrow> exn" where "amountTooLow \<equiv> ApiError AmountTooLow"
abbreviation amountTooHigh :: "string \<Rightarrow> exn" where "amountTooHigh \<equiv> ApiError AmountTooHigh"
abbreviation paymentNotFound :: "string \<Rightarrow> exn" where "paymentNotFound \<equiv> ApiError PaymentNotFound"
abbreviation providerError :: "string \<Rightarrow> exn" where "providerError \<equiv> ApiError PaymentProviderError"
abbreviation quotaExceeded :: "string \<Rightarrow> exn" where "quotaExceeded \<equiv> ApiError QuotaExceeded"
abbreviation idempotencyConflict :: "string \<Rightarrow> exn" where
  "idempotencyConflict \<equiv> ApiError IdempotencyConflict"
abbreviation internal :: "string \<Rightarrow> exn" where "internal \<equiv> ApiError InternalError"

fun http_status :: "exn \<Rightarrow> nat" where
  "http_status (ApiError c m) = ERROR_HTTP_STATUS c"
| "http_status P2002 = 500"
| "http_status P2025 = 500"
| "http_status (JsError m) = 500"

lemma ERROR_HTTP_STATUS_range: "400 \<le> ERROR_HTTP_STATUS c \<and> ERROR_HTTP_STATUS c < 600"
  by (cases c) auto

section \<open>Properties\<close>

lemma pay_run_rank: "pay_run s ts \<Longrightarrow> t \<in> set ts \<Longrightarrow> pay_rank s < pay_rank t"
proof (induction ts arbitrary: s)
  case (Cons u ts)
  then have "pay_rank s < pay_rank u" by (simp add: pay_step_rank)
  with Cons show ?case using order.strict_trans by (cases "t = u") auto
qed simp

lemma pay_run_distinct: "pay_run s ts \<Longrightarrow> distinct (s # ts)"
proof (induction ts arbitrary: s)
  case (Cons t ts)
  then show ?case using pay_run_rank [of s "t # ts"] by fastforce
qed simp

text \<open>However its status changes, a payment is never in the same status twice and changes
  at most four times; once paid it can only become refunded, and a failed, cancelled or refunded
  payment stays as it is.\<close>

theorem payment_lifecycle:
  assumes "pay_run s ts"
  shows "distinct (s # ts) \<and> pay_rank s + length ts \<le> 4 \<and> (s = Paid \<longrightarrow> ts = [] \<or> ts = [Refunded]) \<and>
    (s \<in> {Failed, Cancelled, Refunded} \<longrightarrow> ts = [])"
  using assms pay_run_distinct pay_run_length_rank pay_run_after_paid pay_run_after_final by blast

theorem payment_lifecycle_witness:
  "distinct [Pending, Scanned, Expired, Paid, Refunded] \<and> pay_rank Pending + length [Scanned, Expired, Paid, Refunded] \<le> 4"
  using payment_lifecycle [of Pending "[Scanned, Expired, Paid, Refunded]"] by (simp add: pay_step_iff)

text \<open>A value transaction can still become confirmed from every status but \<open>reversed\<close>,
  \<open>failed\<close> included, although it is not among the statuses called in flight; and from
  confirmed the only way on is a reversal.\<close>

theorem value_lifecycle:
  "(value_reach s VConfirmed \<longleftrightarrow> s \<noteq> VReversed) \<and> {t. value_reach VConfirmed t} = {VConfirmed, VReversed} \<and>
    VFailed \<notin> set IN_FLIGHT_VALUE_STATUSES \<and> value_reach VFailed VConfirmed"
proof -
  have "value_reach VConfirmed VReversed" by (rule value_reach_one) simp
  then have "{t. value_reach VConfirmed t} = {VConfirmed, VReversed}"
    using value_reach_confirmed_reversed [of VConfirmed] value_refl by blast
  then show ?thesis by (simp add: value_reach_confirmed_iff IN_FLIGHT_VALUE_STATUSES_def)
qed

end
