(* ===== verification/Amounts.thy ===== *)
theory Amounts
  imports SharedTypes
begin

text \<open>
  \<open>apps/api/src/payments/amount.util.ts\<close>: amounts arrive as decimal strings, are
  checked against the currency's precision and bounds, and are printed back with the
  currency's number of decimals.
\<close>

record bounds =
  b_min :: decimal
  b_max :: decimal
  b_decimals :: nat

fun BOUNDS :: "currency \<Rightarrow> bounds" where
  "BOUNDS USD = \<lparr>b_min = 1 / 100, b_max = 100000, b_decimals = 2\<rparr>"
| "BOUNDS KHR = \<lparr>b_min = 100, b_max = 400000000, b_decimals = 0\<rparr>"

text \<open>\<open>AMOUNT_RE\<close>: one to fifteen digits, then optionally a point and one to four digits.\<close>

definition parse_amount :: "string \<Rightarrow> decimal option" where
  "parse_amount s =
     (let i = takeWhile is_digit s; rest = dropWhile is_digit s in
      if i = [] \<or> 15 < length i then None
      else case rest of
        [] \<Rightarrow> Some (of_nat (read_nat i))
      | c # f \<Rightarrow>
          if c = CHR ''.'' \<and> f \<noteq> [] \<and> length f \<le> 4 \<and> list_all is_digit f
          then Some (of_nat (read_nat i) + of_nat (read_nat f) / pow10 (length f))
          else None)"

definition validateAmount :: "string \<Rightarrow> currency \<Rightarrow> exn + decimal" where
  "validateAmount amount cur =
     (case parse_amount amount of
        None \<Rightarrow> Inl (invalidRequest ''Amount must be a decimal string, e.g. 1.50'')
      | Some value \<Rightarrow>
          let bounds = BOUNDS cur in
          if b_decimals bounds < decimal_places value then
            Inl (invalidRequest
              (if b_decimals bounds = 0
               then currency_name cur @ '' amounts must be whole numbers (no decimals)''
               else ''Amount must not have more than '' @ show_nat (b_decimals bounds) @ '' decimal places''))
          else if value < b_min bounds then
            Inl (amountTooLow (''Amount must be at least '' @ to_fixed (b_decimals bounds) (b_min bounds) @
              '' '' @ currency_name cur))
          else if b_max bounds < value then
            Inl (amountTooHigh (''Amount must not exceed '' @ to_fixed (b_decimals bounds) (b_max bounds) @
              '' '' @ currency_name cur))
          else Inr value)"

definition formatAmount :: "decimal \<Rightarrow> currency \<Rightarrow> string" where
  "formatAmount value cur = to_fixed (b_decimals (BOUNDS cur)) value"

section \<open>Precision and bounds\<close>

lemma decimal_places_scaled:
  assumes "d < 20"
  shows "decimal_places x \<le> d \<longleftrightarrow> scaled d x"
proof
  define ps where "ps = takeWhile (\<lambda>e. \<not> scaled e x) [0..<20]"
  assume le: "decimal_places x \<le> d"
  then have l: "length ps \<le> d" by (simp add: decimal_places_def ps_def)
  have "ps = take (length ps) [0..<20]"
    unfolding ps_def by (rule takeWhile_eq_take)
  have "length ps < 20" using l assms by simp
  then have "\<not> (\<not> scaled ([0..<20] ! length ps) x)"
    unfolding ps_def by (intro nth_length_takeWhile) simp
  then have "scaled (length ps) x" using \<open>length ps < 20\<close> by (simp add: nth_upt)
  then show "scaled d x" using l by (rule scaled_mono [rotated])
next
  assume s: "scaled d x"
  show "decimal_places x \<le> d"
  proof (rule ccontr)
    assume "\<not> decimal_places x \<le> d"
    then have d: "d < length (takeWhile (\<lambda>e. \<not> scaled e x) [0..<20])"
      by (simp add: decimal_places_def)
    then have "takeWhile (\<lambda>e. \<not> scaled e x) [0..<20] ! d \<in> set (takeWhile (\<lambda>e. \<not> scaled e x) [0..<20])"
      by (rule nth_mem)
    moreover have "takeWhile (\<lambda>e. \<not> scaled e x) [0..<20] ! d = d"
      using d assms by (simp add: takeWhile_nth)
    ultimately have "\<not> scaled d x" using set_takeWhileD by metis
    with s show False by simp
  qed
qed

lemma BOUNDS_decimals: "b_decimals (BOUNDS cur) < 20"
  by (cases cur) auto

lemma precision_check: "b_decimals (BOUNDS cur) < decimal_places v \<longleftrightarrow> \<not> scaled (b_decimals (BOUNDS cur)) v"
  using decimal_places_scaled [OF BOUNDS_decimals [of cur], of v] by linarith

lemma validateAmount_Inr:
  "validateAmount s cur = Inr v \<longleftrightarrow>
     parse_amount s = Some v \<and> scaled (b_decimals (BOUNDS cur)) v \<and>
     b_min (BOUNDS cur) \<le> v \<and> v \<le> b_max (BOUNDS cur)"
  unfolding validateAmount_def Let_def precision_check by (auto split: option.split if_splits)

lemma validateAmount_pos: "validateAmount s cur = Inr v \<Longrightarrow> 0 < v"
  by (cases cur) (auto simp: validateAmount_Inr)

lemma validateAmount_error: "validateAmount s cur = Inl e \<Longrightarrow> http_status e = 400"
  by (auto simp: validateAmount_def Let_def split: option.splits if_splits)

section \<open>Printing and reading back\<close>

lemma takeWhile_digits: "list_all is_digit s \<Longrightarrow> \<not> is_digit c \<Longrightarrow> takeWhile is_digit (s @ c # t) = s"
  by (induction s) auto

lemma dropWhile_digits: "list_all is_digit s \<Longrightarrow> \<not> is_digit c \<Longrightarrow> dropWhile is_digit (s @ c # t) = c # t"
  by (induction s) auto

lemma takeWhile_all_digits: "list_all is_digit s \<Longrightarrow> takeWhile is_digit s = s"
  by (induction s) auto

lemma dropWhile_all_digits: "list_all is_digit s \<Longrightarrow> dropWhile is_digit s = []"
  by (induction s) auto

lemma show_nat_all_digits [simp]: "list_all is_digit (show_nat n)"
  using show_nat_digits by (simp add: list_all_iff)

lemma pad_left_all_digits [simp]: "list_all is_digit (pad_left k (CHR ''0'') (show_nat n))"
proof -
  have "is_digit (CHR ''0'')" by (simp add: is_digit_def)
  then show ?thesis by (auto simp: pad_left_def list_all_iff show_nat_digits)
qed

lemma parse_amount_whole:
  assumes "list_all is_digit i" and "i \<noteq> []" and "length i \<le> 15"
  shows "parse_amount i = Some (of_nat (read_nat i))"
  using assms by (simp add: parse_amount_def Let_def takeWhile_all_digits dropWhile_all_digits)

lemma parse_amount_point:
  assumes i: "list_all is_digit i" "i \<noteq> []" "length i \<le> 15"
    and f: "list_all is_digit f" "f \<noteq> []" "length f \<le> 4"
  shows "parse_amount (i @ CHR ''.'' # f) = Some (of_nat (read_nat i) + of_nat (read_nat f) / pow10 (length f))"
proof -
  have dot: "\<not> is_digit (CHR ''.'')" by (simp add: is_digit_def)
  note tw = takeWhile_digits [OF i(1) dot, of f] and dw = dropWhile_digits [OF i(1) dot, of f]
  show ?thesis unfolding parse_amount_def tw dw Let_def using i f by simp
qed

text \<open>An amount printed with its currency's decimals is the decimal string of the same amount.\<close>

lemma parse_to_fixed:
  assumes v: "0 \<le> v" "v < 10 ^ 15" "scaled d v" and d: "d \<le> 4"
  shows "parse_amount (to_fixed d v) = Some v"
proof -
  from v(3) obtain n where n: "v = of_int n / pow10 d" by (rule scaledE)
  then have "of_int n = v * pow10 d" by simp
  then have "0 \<le> (of_int n :: rat)" using v(1) by (simp add: less_imp_le)
  then have n0: "0 \<le> n" by simp
  define m where "m = nat n"
  have vm: "v = of_nat m / pow10 d" using n n0 by (simp add: m_def)
  have r: "round_half_up (v * pow10 d) = int m" using n n0 by (simp add: m_def)
  have "of_nat m < (10 ^ 15 * pow10 d :: rat)" using v(2) by (simp add: vm divide_less_eq)
  then have "of_nat m < (of_nat (10 ^ 15 * 10 ^ d) :: rat)" by (simp add: pow10_def)
  then have "m < 10 ^ 15 * 10 ^ d" by (rule of_nat_less_iff [THEN iffD1])
  then have ip: "m div 10 ^ d < 10 ^ 15" by (simp add: less_mult_imp_div_less)
  then have li: "length (show_nat (m div 10 ^ d)) \<le> 15" by (rule length_show_nat) simp
  show ?thesis
  proof (cases "d = 0")
    case True
    then have tf: "to_fixed d v = show_nat m" using r by (simp add: to_fixed_def Let_def)
    have "parse_amount (show_nat m) = Some (of_nat (read_nat (show_nat m)))"
      using li True by (intro parse_amount_whole) simp_all
    moreover have "v = of_nat m" using vm True by (simp add: pow10_def)
    ultimately show ?thesis unfolding tf by (simp add: read_show_nat)
  next
    case False
    define i f where "i = show_nat (m div 10 ^ d)" and "f = pad_left d (CHR ''0'') (show_nat (m mod 10 ^ d))"
    have lf: "length f = d"
      unfolding f_def using False by (intro length_pad_left length_show_nat) simp_all
    have tf: "to_fixed d v = i @ CHR ''.'' # f"
      using False r by (simp add: to_fixed_def Let_def i_def f_def)
    have ri: "read_nat i = m div 10 ^ d" and rf: "read_nat f = m mod 10 ^ d"
      by (simp_all add: i_def f_def read_show_nat read_nat_pad_left)
    have "list_all is_digit i" "i \<noteq> []" "length i \<le> 15" "list_all is_digit f" "f \<noteq> []"
      using li lf False by (auto simp: i_def f_def)
    then have "parse_amount (to_fixed d v) = Some (of_nat (read_nat i) + of_nat (read_nat f) / pow10 d)"
      unfolding tf using lf d parse_amount_point [of i f] by simp
    moreover have "(of_nat m :: rat) = of_nat (m div 10 ^ d) * pow10 d + of_nat (m mod 10 ^ d)"
      unfolding pow10_def by (metis div_mult_mod_eq of_nat_add of_nat_mult)
    then have "(of_nat (m div 10 ^ d) + of_nat (m mod 10 ^ d) / pow10 d :: rat) = v"
      by (simp add: vm add_divide_distrib)
    ultimately show ?thesis by (simp only: ri rf)
  qed
qed

lemma BOUNDS_range:
  "0 < b_min (BOUNDS cur)" "b_max (BOUNDS cur) < 10 ^ 15" "b_decimals (BOUNDS cur) \<le> 4"
  by (cases cur; simp)+

lemma validateAmount_formatAmount:
  assumes "scaled (b_decimals (BOUNDS cur)) v" and "b_min (BOUNDS cur) \<le> v" and "v \<le> b_max (BOUNDS cur)"
  shows "validateAmount (formatAmount v cur) cur = Inr v"
proof -
  have "0 \<le> v" "v < 10 ^ 15" using assms BOUNDS_range [of cur] by linarith+
  then have "parse_amount (formatAmount v cur) = Some v"
    unfolding formatAmount_def using assms(1) BOUNDS_range(3) by (rule parse_to_fixed)
  with assms show ?thesis by (simp add: validateAmount_Inr)
qed

section \<open>Properties\<close>

text \<open>An amount that is accepted is exactly one whose string denotes a number with no more
  decimals than the currency has, between the currency's bounds, and the value is that number.\<close>

theorem amount_accepted_iff:
  "validateAmount s cur = Inr v \<longleftrightarrow>
     parse_amount s = Some v \<and> scaled (b_decimals (BOUNDS cur)) v \<and>
     b_min (BOUNDS cur) \<le> v \<and> v \<le> b_max (BOUNDS cur)"
  by (rule validateAmount_Inr)

text \<open>An amount within the bounds and the precision of its currency survives being formatted
  and validated again: what the API prints, it accepts as the same amount.\<close>

theorem amount_format_round_trip:
  assumes "scaled (b_decimals (BOUNDS cur)) v" and "b_min (BOUNDS cur) \<le> v" and "v \<le> b_max (BOUNDS cur)"
  shows "validateAmount (formatAmount v cur) cur = Inr v"
  using assms by (rule validateAmount_formatAmount)

theorem amount_format_round_trip_witness: "validateAmount (formatAmount (3 / 2) USD) USD = Inr (3 / 2)"
proof (rule amount_format_round_trip)
  have "(3 / 2 :: rat) = of_int 150 / pow10 2" by (simp add: pow10_def)
  then show "scaled (b_decimals (BOUNDS USD)) (3 / 2)" by (metis BOUNDS.simps(1) bounds.select_convs(3) scaled_div)
qed simp_all

end
