(* ===== verification/Khqr.thy ===== *)
theory Khqr
  imports Amounts "HOL-Library.Word"
begin

unbundle bit_operations_syntax

text \<open>
  \<open>apps/api/src/providers/khqr.util.ts\<close>: the EMVCo tag-length-value encoding of a
  Bakong KHQR payload, its CRC16 trailer, the builders, and the parser of payloads a merchant
  imports. The MD5 digest is the hash function of the runtime and a parameter. The errors of the
  parser are the messages it throws.
\<close>

section \<open>Tag-length-value fields and the checksum\<close>

definition tlv :: "string \<Rightarrow> string \<Rightarrow> string" where
  "tlv tag v = tag @ pad_left 2 (CHR ''0'') (show_nat (length v)) @ v"

definition crc_bit :: "16 word \<Rightarrow> 16 word" where
  "crc_bit c = (if c AND 0x8000 \<noteq> 0 then push_bit 1 c XOR 0x1021 else push_bit 1 c)"

definition crc_char :: "16 word \<Rightarrow> char \<Rightarrow> 16 word" where
  "crc_char c x = (crc_bit ^^ 8) (c XOR push_bit 8 (of_nat (of_char x)))"

definition crc_word :: "string \<Rightarrow> 16 word" where
  "crc_word s = foldl crc_char 0xFFFF s"

definition hex_char :: "nat \<Rightarrow> char" where
  "hex_char d = (if d < 10 then char_of (48 + d) else char_of (55 + d))"

fun show_hex :: "nat \<Rightarrow> string" where
  "show_hex n = (if n < 16 then [hex_char n] else show_hex (n div 16) @ [hex_char (n mod 16)])"

declare show_hex.simps [simp del]

definition crc16 :: "string \<Rightarrow> string" where
  "crc16 s = pad_left 4 (CHR ''0'') (show_hex (unat (crc_word s)))"

section \<open>Building a payload\<close>

fun CURRENCY_CODE :: "currency \<Rightarrow> string" where
  "CURRENCY_CODE USD = ''840''"
| "CURRENCY_CODE KHR = ''116''"

record khqr_params =
  kp_merchant_name :: string
  kp_merchant_city :: string
  kp_amount :: string
  kp_currency :: currency
  kp_bill_number :: "string option"
  kp_store_label :: "string option"

record bakong_params =
  bp_account_id :: string
  bp_merchant_name :: string
  bp_merchant_city :: string
  bp_amount :: "string option"
  bp_currency :: currency
  bp_account_information :: "string option"
  bp_merchant_id :: "string option"
  bp_acquiring_bank :: "string option"
  bp_bill_number :: "string option"
  bp_mobile_number :: "string option"
  bp_store_label :: "string option"
  bp_is_merchant :: "bool option"
  bp_expires_at :: "nat option"
  bp_created_at_ms :: "nat option"

text \<open>\<open>x ? tlv(tag, x.slice(0, k)) : ''\<close>, where an empty string is falsy.\<close>

definition opt_field :: "string \<Rightarrow> string option \<Rightarrow> string" where
  "opt_field tag x = (case x of None \<Rightarrow> [] | Some v \<Rightarrow> if v = [] then [] else tlv tag v)"

definition slice_opt :: "nat \<Rightarrow> string option \<Rightarrow> string option" where
  "slice_opt k x = map_option (take k) x"

definition is_merchant :: "bakong_params \<Rightarrow> bool" where
  "is_merchant p = (case bp_is_merchant p of None \<Rightarrow> False | Some b \<Rightarrow> b)"

definition account_info :: "bakong_params \<Rightarrow> string" where
  "account_info p =
     tlv ''00'' (bp_account_id p) @
     (if is_merchant p then opt_field ''01'' (bp_merchant_id p)
      else opt_field ''01'' (bp_account_information p)) @
     opt_field ''02'' (bp_acquiring_bank p)"

definition additional_data :: "bakong_params \<Rightarrow> string" where
  "additional_data p =
     opt_field ''01'' (slice_opt 25 (bp_bill_number p)) @
     opt_field ''02'' (slice_opt 25 (bp_mobile_number p)) @
     opt_field ''03'' (slice_opt 25 (bp_store_label p))"

definition timestamps :: "nat \<Rightarrow> bakong_params \<Rightarrow> string" where
  "timestamps now p =
     (case (bp_amount p, bp_expires_at p) of
        (Some _, Some ex) \<Rightarrow>
          tlv ''99'' (tlv ''00'' (show_nat (case bp_created_at_ms p of None \<Rightarrow> now | Some c \<Rightarrow> c)) @
            tlv ''01'' (show_nat ex))
      | _ \<Rightarrow> [])"

definition bakong_body :: "nat \<Rightarrow> bakong_params \<Rightarrow> string" where
  "bakong_body now p =
     tlv ''00'' ''01'' @
     tlv ''01'' (if bp_amount p = None then ''11'' else ''12'') @
     tlv (if is_merchant p then ''30'' else ''29'') (account_info p) @
     tlv ''52'' ''5999'' @
     tlv ''53'' (CURRENCY_CODE (bp_currency p)) @
     (case bp_amount p of None \<Rightarrow> [] | Some a \<Rightarrow> tlv ''54'' a) @
     tlv ''58'' ''KH'' @
     tlv ''59'' (take 25 (bp_merchant_name p)) @
     tlv ''60'' (take 15 (bp_merchant_city p)) @
     (if additional_data p = [] then [] else tlv ''62'' (additional_data p)) @
     timestamps now p"

record khqr_result =
  qrString :: string
  qr_md5 :: string

definition with_crc :: "string \<Rightarrow> string" where
  "with_crc body = (body @ ''6304'') @ crc16 (body @ ''6304'')"

definition buildBakongKhqr :: "(string \<Rightarrow> string) \<Rightarrow> nat \<Rightarrow> bakong_params \<Rightarrow> khqr_result" where
  "buildBakongKhqr md5 now p =
     (let qr = with_crc (bakong_body now p) in \<lparr>qrString = qr, qr_md5 = md5 qr\<rparr>)"

definition mock_body :: "khqr_params \<Rightarrow> string" where
  "mock_body p =
     tlv ''00'' ''01'' @ tlv ''01'' ''12'' @
     tlv ''29'' (tlv ''00'' ''mock@paykh'' @ tlv ''01'' ''PayKH Mock Acquirer'') @
     tlv ''52'' ''5999'' @ tlv ''53'' (CURRENCY_CODE (kp_currency p)) @ tlv ''54'' (kp_amount p) @
     tlv ''58'' ''KH'' @ tlv ''59'' (take 25 (kp_merchant_name p)) @
     tlv ''60'' (take 15 (kp_merchant_city p)) @
     (let additional = opt_field ''01'' (slice_opt 25 (kp_bill_number p)) @
            opt_field ''03'' (slice_opt 25 (kp_store_label p))
      in if additional = [] then [] else tlv ''62'' additional)"

definition buildMockKhqr :: "(string \<Rightarrow> string) \<Rightarrow> khqr_params \<Rightarrow> khqr_result" where
  "buildMockKhqr md5 p =
     (let qr = with_crc (mock_body p) in \<lparr>qrString = qr, qr_md5 = md5 qr\<rparr>)"

section \<open>Parsing a payload\<close>

function parse_loop :: "string \<Rightarrow> (string \<rightharpoonup> string) \<Rightarrow> string + (string \<rightharpoonup> string)" where
  "parse_loop s out =
     (if s = [] then Inr out
      else if length s < 4 then Inl ''Truncated TLV: a tag/length header is incomplete''
      else let tag = take 2 s; lenRaw = take 2 (drop 2 s) in
        if \<not> list_all is_digit lenRaw then Inl (''Invalid length '' @ lenRaw @ '' for tag '' @ tag)
        else let len = read_nat lenRaw; value = take len (drop 4 s) in
          if length value \<noteq> len then Inl (''Tag '' @ tag @ '' claims more chars than remain'')
          else parse_loop (drop (4 + len) s) (out(tag \<mapsto> value)))"
  by pat_completeness auto
termination
  by (relation "measure (\<lambda>(s, out). length s)") auto

declare parse_loop.simps [simp del]

definition parseTlv :: "string \<Rightarrow> string + (string \<rightharpoonup> string)" where
  "parseTlv s = parse_loop s Map.empty"

definition CODE_TO_CURRENCY :: "string \<Rightarrow> currency option" where
  "CODE_TO_CURRENCY c = (if c = ''840'' then Some USD else if c = ''116'' then Some KHR else None)"

definition last_index_of :: "string \<Rightarrow> string \<Rightarrow> nat option" where
  "last_index_of pat s =
     (let hits = filter (\<lambda>i. take (length pat) (drop i s) = pat) [0..<length s]
      in if hits = [] then None else Some (last hits))"

text \<open>\<open>/^[^@\s]+@[^@\s]+$/\<close>.\<close>

definition is_account_id :: "string \<Rightarrow> bool" where
  "is_account_id s =
     (let l = takeWhile (\<lambda>c. c \<noteq> CHR ''@'') s; r = dropWhile (\<lambda>c. c \<noteq> CHR ''@'') s in
      l \<noteq> [] \<and> list_all (\<lambda>c. \<not> is_space c) l \<and>
      (case r of [] \<Rightarrow> False | _ # d \<Rightarrow> d \<noteq> [] \<and> list_all (\<lambda>c. c \<noteq> CHR ''@'' \<and> \<not> is_space c) d))"

record parsed_khqr =
  pk_is_static :: bool
  pk_is_merchant :: bool
  pk_account_id :: string
  pk_account_information :: "string option"
  pk_merchant_id :: "string option"
  pk_acquiring_bank :: "string option"
  pk_merchant_name :: "string option"
  pk_merchant_city :: "string option"
  pk_currency :: "currency option"
  pk_amount :: "string option"

definition truthy :: "string option \<Rightarrow> string option" where
  "truthy x = (case x of Some [] \<Rightarrow> None | _ \<Rightarrow> x)"

definition first_some :: "'a option \<Rightarrow> 'a option \<Rightarrow> 'a option" where
  "first_some x y = (case x of None \<Rightarrow> y | Some _ \<Rightarrow> x)"

text \<open>The fields of a payload whose checksum has been verified.\<close>

definition parse_fields :: "(string \<rightharpoonup> string) \<Rightarrow> string + parsed_khqr" where
  "parse_fields flds =
     (if flds ''00'' \<noteq> Some ''01'' then Inl ''Not a KHQR payload: unexpected payload format indicator''
      else let initiation = flds ''01'' in
      if initiation \<noteq> Some ''11'' \<and> initiation \<noteq> Some ''12''
      then Inl ''Not a KHQR payload: unexpected point-of-initiation''
      else let isMerchant = (flds ''30'' \<noteq> None) in
      case truthy (first_some (flds ''30'') (flds ''29'')) of
        None \<Rightarrow> Inl ''Not a Bakong KHQR: no individual (29) or merchant (30) account block''
      | Some accountBlock \<Rightarrow>
        (case parseTlv accountBlock of
           Inl e \<Rightarrow> Inl e
         | Inr acct \<Rightarrow>
           (case truthy (acct ''00'') of
              None \<Rightarrow> Inl ''KHQR is missing the Bakong account id''
            | Some bakongAccountId \<Rightarrow>
              if \<not> is_account_id bakongAccountId then Inl ''not a Bakong account id (expected name@bank)''
              else if (case truthy (flds ''58'') of None \<Rightarrow> False | Some country \<Rightarrow> to_upper country \<noteq> ''KH'')
              then Inl ''KHQR is for another country, not KH''
              else Inr
                \<lparr>pk_is_static = (initiation = Some ''11''),
                 pk_is_merchant = isMerchant,
                 pk_account_id = bakongAccountId,
                 pk_account_information = acct ''01'',
                 pk_merchant_id = (if isMerchant then acct ''01'' else None),
                 pk_acquiring_bank = acct ''02'',
                 pk_merchant_name = flds ''59'',
                 pk_merchant_city = flds ''60'',
                 pk_currency = (case truthy (flds ''53'') of None \<Rightarrow> None | Some c \<Rightarrow> CODE_TO_CURRENCY c),
                 pk_amount = flds ''54''\<rparr>)))"

definition parseKhqr :: "string \<Rightarrow> string + parsed_khqr" where
  "parseKhqr input =
     (let qr = trim input in
      if length qr < 12 then Inl ''Not a KHQR payload: too short''
      else case last_index_of ''6304'' qr of
        None \<Rightarrow> Inl ''Not a KHQR payload: missing the trailing CRC (tag 63)''
      | Some crcIdx \<Rightarrow>
        if crcIdx \<noteq> length qr - 8 then Inl ''Not a KHQR payload: missing the trailing CRC (tag 63)''
        else if crc16 (take (crcIdx + 4) qr) \<noteq> to_upper (drop (length qr - 4) qr)
        then Inl ''KHQR checksum mismatch: the code is corrupt or was retyped''
        else case parseTlv (take crcIdx qr) of
          Inl e \<Rightarrow> Inl e
        | Inr flds \<Rightarrow> parse_fields flds)"

section \<open>The encoding is parsed back\<close>

lemma length_len_field: "length v \<le> 99 \<Longrightarrow> length (pad_left 2 (CHR ''0'') (show_nat (length v))) = 2"
  by (intro length_pad_left length_show_nat) simp_all

lemma parse_loop_step:
  assumes "4 \<le> length s" and "list_all is_digit (take 2 (drop 2 s))"
    and "n = read_nat (take 2 (drop 2 s))" and "4 + n \<le> length s"
  shows "parse_loop s out = parse_loop (drop (4 + n) s) (out(take 2 s \<mapsto> take n (drop 4 s)))"
proof -
  have "s \<noteq> []" "\<not> length s < 4" "length (take n (drop 4 s)) = n" using assms(1,4) by auto
  then show ?thesis using assms(2,3) by (subst parse_loop.simps) (simp only: Let_def if_False simp_thms)
qed

lemma parse_loop_tlv:
  assumes "length tag = 2" and "length v \<le> 99"
  shows "parse_loop (tlv tag v @ rest) out = parse_loop rest (out(tag \<mapsto> v))"
proof -
  define l where "l = pad_left 2 (CHR ''0'') (show_nat (length v))"
  have l: "length l = 2" using assms(2) by (simp add: l_def length_len_field)
  have d: "list_all is_digit l" "read_nat l = length v"
    by (simp_all add: l_def read_nat_pad_left read_show_nat)
  have s: "tlv tag v @ rest = tag @ l @ v @ rest" by (simp add: tlv_def l_def)
  have parts: "take 2 (tag @ l @ v @ rest) = tag" "take 2 (drop 2 (tag @ l @ v @ rest)) = l"
    "take (length v) (drop 4 (tag @ l @ v @ rest)) = v"
    "drop (4 + length v) (tag @ l @ v @ rest) = rest" "4 + length v \<le> length (tag @ l @ v @ rest)"
    using assms(1) l by simp_all
  have "parse_loop (tag @ l @ v @ rest) out =
      parse_loop (drop (4 + length v) (tag @ l @ v @ rest))
        (out(take 2 (tag @ l @ v @ rest) \<mapsto> take (length v) (drop 4 (tag @ l @ v @ rest))))"
    by (rule parse_loop_step) (use assms(1) l d in \<open>simp_all only: parts\<close>, simp_all)
  then show ?thesis unfolding s parts .
qed

definition encode_fields :: "(string \<times> string) list \<Rightarrow> string" where
  "encode_fields fs = concat (map (\<lambda>(t, v). tlv t v) fs)"

definition valid_fields :: "(string \<times> string) list \<Rightarrow> bool" where
  "valid_fields fs \<longleftrightarrow> list_all (\<lambda>(t, v). length t = 2 \<and> length v \<le> 99) fs"

lemma parse_loop_fields:
  "valid_fields fs \<Longrightarrow> parse_loop (encode_fields fs @ rest) out = parse_loop rest (out ++ map_of (rev fs))"
proof (induction fs arbitrary: out)
  case Nil
  then show ?case by (simp add: encode_fields_def)
next
  case (Cons f fs)
  obtain t v where f: "f = (t, v)" by (cases f)
  from Cons.prems have v: "length t = 2" "length v \<le> 99" "valid_fields fs"
    by (simp_all add: f valid_fields_def)
  have "encode_fields (f # fs) @ rest = tlv t v @ encode_fields fs @ rest"
    by (simp add: encode_fields_def f)
  moreover have "out(t \<mapsto> v) ++ map_of (rev fs) = out ++ map_of (rev (f # fs))"
    by (simp add: f)
  ultimately show ?case using Cons.IH [OF v(3), of "out(t \<mapsto> v)"] v
    by (simp only: parse_loop_tlv append_assoc)
qed

lemma parse_loop_Nil [simp]: "parse_loop [] out = Inr out"
  by (subst parse_loop.simps) simp

theorem parse_encode_fields:
  "valid_fields fs \<Longrightarrow> parseTlv (encode_fields fs) = Inr (map_of (rev fs))"
  using parse_loop_fields [of fs "[]" Map.empty] by (simp add: parseTlv_def)

lemma encode_fields_simps [simp]:
  "encode_fields [] = []"
  "encode_fields ((t, v) # fs) = tlv t v @ encode_fields fs"
  "encode_fields (fs @ gs) = encode_fields fs @ encode_fields gs"
  by (simp_all add: encode_fields_def)

lemma valid_fields_simps [simp]:
  "valid_fields []"
  "valid_fields ((t, v) # fs) \<longleftrightarrow> length t = 2 \<and> length v \<le> 99 \<and> valid_fields fs"
  "valid_fields (fs @ gs) \<longleftrightarrow> valid_fields fs \<and> valid_fields gs"
  by (simp_all add: valid_fields_def)

section \<open>The checksum detects every single-character change\<close>

lemma push_bit_1_low: "\<not> bit (push_bit 1 (c :: 16 word)) 0"
  unfolding bit_push_bit_iff by simp

lemma crc_bit_low: "bit (crc_bit c) 0 \<longleftrightarrow> c AND 0x8000 \<noteq> 0"
proof -
  have "bit (0x1021 :: 16 word) 0" by simp
  then have x: "bit (push_bit 1 c XOR 0x1021) 0"
    unfolding bit_xor_iff using push_bit_1_low [of c] by blast
  show ?thesis
  proof (cases "c AND 0x8000 \<noteq> 0")
    case True
    then show ?thesis unfolding crc_bit_def if_P [OF True] using x by blast
  next
    case False
    then show ?thesis unfolding crc_bit_def if_not_P [OF False] using push_bit_1_low [of c] by blast
  qed
qed

lemma top_bit_iff: "(c :: 16 word) AND 0x8000 \<noteq> 0 \<longleftrightarrow> bit c 15"
proof -
  have "(0x8000 :: 16 word) = push_bit 15 1" by simp
  then show ?thesis by (simp add: bit_iff_and_push_bit_not_eq_0)
qed

lemma push_bit_1_inject:
  assumes "push_bit 1 (c :: 16 word) = push_bit 1 d" and "bit c 15 = bit d 15"
  shows "c = d"
proof (rule bit_word_eqI)
  fix n
  assume n: "n < LENGTH(16)"
  show "bit c n = bit d n"
  proof (cases "n = 15")
    case True
    then show ?thesis using assms(2) by simp
  next
    case False
    have "bit (push_bit 1 c) (Suc n) = bit (push_bit 1 d) (Suc n)" by (simp only: assms(1))
    then show ?thesis using n False unfolding bit_push_bit_iff by simp
  qed
qed

lemma xor_cancel:
  fixes c d x :: "16 word"
  assumes "c XOR x = d XOR x"
  shows "c = d"
proof -
  have "(c XOR x) XOR x = (d XOR x) XOR x" by (simp only: assms)
  then show ?thesis by (simp add: xor.assoc)
qed

lemma crc_bit_inject: "crc_bit c = crc_bit d \<Longrightarrow> c = d"
proof -
  assume eq: "crc_bit c = crc_bit d"
  then have hi: "(c AND 0x8000 \<noteq> 0) = (d AND 0x8000 \<noteq> 0)" by (metis crc_bit_low)
  have "push_bit 1 c = push_bit 1 d"
  proof (cases "c AND 0x8000 \<noteq> 0")
    case True
    with hi have "d AND 0x8000 \<noteq> 0" by blast
    with True eq have "push_bit 1 c XOR 0x1021 = push_bit 1 d XOR 0x1021"
      unfolding crc_bit_def by (simp only: if_True not_False_eq_True)
    then show ?thesis by (rule xor_cancel)
  next
    case False
    with hi have "\<not> d AND 0x8000 \<noteq> 0" by blast
    with False eq show ?thesis unfolding crc_bit_def by (simp only: if_False)
  qed
  moreover have "bit c 15 = bit d 15" using hi by (simp add: top_bit_iff)
  ultimately show "c = d" by (rule push_bit_1_inject)
qed

lemma inj_crc_bit_pow: "inj (crc_bit ^^ k)"
  by (induction k) (auto simp: inj_on_def dest: crc_bit_inject)

lemma crc_char_inject_state: "crc_char c x = crc_char d x \<Longrightarrow> c = d"
  using inj_crc_bit_pow [of 8] by (auto simp: crc_char_def dest!: injD xor_cancel)

lemma unat_char_high: "unat (push_bit 8 (of_nat (of_char z)) :: 16 word) = of_char z * 256"
proof -
  define k :: nat where "k = of_char z"
  have z: "k < 256" by (simp add: k_def)
  have "unat (push_bit 8 (of_nat k) :: 16 word) = (k mod 2 ^ 16) * 2 ^ 8 mod 2 ^ 16"
    unfolding push_bit_eq_mult unat_word_ariths unat_of_nat by (simp add: mod_mult_left_eq)
  also have "\<dots> = k * 256" using z by simp
  finally show ?thesis by (simp only: k_def)
qed

lemma crc_char_inject_char:
  assumes "crc_char c x = crc_char c y"
  shows "x = y"
proof -
  have "c XOR push_bit 8 (of_nat (of_char x)) = c XOR push_bit 8 (of_nat (of_char y))"
    using assms inj_crc_bit_pow [of 8] by (auto simp: crc_char_def dest: injD)
  then have eq: "push_bit 8 (of_nat (of_char x)) = (push_bit 8 (of_nat (of_char y)) :: 16 word)"
    by (metis xor.commute xor_cancel)
  then have "of_char x * 256 = (of_char y * 256 :: nat)" by (metis unat_char_high)
  then show ?thesis by simp
qed

lemma foldl_crc_inject: "foldl crc_char c s = foldl crc_char d s \<Longrightarrow> c = d"
  by (induction s arbitrary: c d) (auto dest: crc_char_inject_state)

theorem crc_word_detects:
  assumes "x \<noteq> y"
  shows "crc_word (s @ x # t) \<noteq> crc_word (s @ y # t)"
proof
  assume "crc_word (s @ x # t) = crc_word (s @ y # t)"
  then have "foldl crc_char (crc_char (crc_word s) x) t = foldl crc_char (crc_char (crc_word s) y) t"
    by (simp add: crc_word_def)
  then have "crc_char (crc_word s) x = crc_char (crc_word s) y" by (rule foldl_crc_inject)
  then have "x = y" by (rule crc_char_inject_char)
  with assms show False by simp
qed

section \<open>The checksum trailer\<close>

definition hex_val :: "char \<Rightarrow> nat" where
  "hex_val c = (if is_digit c then digit_val c else of_char c - 55)"

definition read_hex :: "string \<Rightarrow> nat" where
  "read_hex s = foldl (\<lambda>n c. 16 * n + hex_val c) 0 s"

lemma of_char_hex_char: "d < 16 \<Longrightarrow> (of_char (hex_char d) :: nat) = (if d < 10 then 48 + d else 55 + d)"
  by (auto simp: hex_char_def)

lemma hex_val_hex_char: "d < 16 \<Longrightarrow> hex_val (hex_char d) = d"
  by (auto simp: hex_val_def is_digit_def digit_val_def of_char_hex_char)

lemma read_hex_snoc: "read_hex (s @ [c]) = 16 * read_hex s + hex_val c"
  by (simp add: read_hex_def)

lemma read_show_hex: "read_hex (show_hex n) = n"
proof (induction n rule: show_hex.induct)
  case (1 n)
  show ?case
  proof (cases "n < 16")
    case True
    then show ?thesis by (subst show_hex.simps) (simp add: read_hex_def hex_val_hex_char)
  next
    case False
    with 1 have "read_hex (show_hex (n div 16)) = n div 16" by simp
    with False show ?thesis by (subst show_hex.simps) (simp add: read_hex_snoc hex_val_hex_char)
  qed
qed

lemma read_hex_pad: "read_hex (pad_left k (CHR ''0'') s) = read_hex s"
proof -
  have "hex_val (CHR ''0'') = 0" by (simp add: hex_val_def is_digit_def digit_val_def)
  then have "foldl (\<lambda>n c. 16 * n + hex_val c) 0 (replicate j (CHR ''0'')) = 0" for j
    by (induction j) simp_all
  then show ?thesis by (simp add: read_hex_def pad_left_def)
qed

lemma crc16_inject: "crc16 s = crc16 t \<longleftrightarrow> crc_word s = crc_word t"
proof
  assume "crc16 s = crc16 t"
  then have "read_hex (crc16 s) = read_hex (crc16 t)" by simp
  then show "crc_word s = crc_word t"
    by (simp add: crc16_def read_hex_pad read_show_hex word_unat_eq_iff)
qed (simp add: crc16_def)

lemma length_show_hex: "n < 16 ^ k \<Longrightarrow> 0 < k \<Longrightarrow> length (show_hex n) \<le> k"
proof (induction k arbitrary: n)
  case 0
  then show ?case by simp
next
  case (Suc k)
  show ?case
  proof (cases "n < 16")
    case True
    then show ?thesis by (subst show_hex.simps) simp
  next
    case False
    with Suc.prems have k: "0 < k" by (cases k) auto
    from Suc.prems have "n div 16 < 16 ^ k" by (simp add: less_mult_imp_div_less mult.commute)
    then have "length (show_hex (n div 16)) \<le> k" using k by (rule Suc.IH)
    with False show ?thesis by (subst show_hex.simps) simp
  qed
qed

lemma length_crc16 [simp]: "length (crc16 s) = 4"
proof -
  have "unat (crc_word s) < 16 ^ 4" using unsigned_less [of "crc_word s"] by simp
  then have "length (show_hex (unat (crc_word s))) \<le> 4" by (rule length_show_hex) simp
  then show ?thesis unfolding crc16_def by (rule length_pad_left)
qed

definition hex_digit :: "char \<Rightarrow> bool" where
  "hex_digit c \<longleftrightarrow> (\<exists>d<16. c = hex_char d)"

lemma show_hex_digits: "\<forall>c \<in> set (show_hex n). hex_digit c"
proof (induction n rule: show_hex.induct)
  case (1 n)
  have "n mod 16 < 16" by simp
  then have "hex_digit (hex_char (n mod 16))" unfolding hex_digit_def by blast
  moreover have "n < 16 \<Longrightarrow> hex_digit (hex_char n)" by (auto simp: hex_digit_def)
  ultimately show ?case using 1 by (subst show_hex.simps) auto
qed

lemma hex_digit_0: "hex_digit (CHR ''0'')"
proof -
  have "(of_char (CHR ''0'') :: nat) = of_char (hex_char 0)" by (simp add: of_char_hex_char)
  then have "CHR ''0'' = hex_char 0" by (simp only: of_char_eq_iff)
  then show ?thesis unfolding hex_digit_def by (intro exI [of _ 0]) simp
qed

lemma crc16_digits: "\<forall>c \<in> set (crc16 s). hex_digit c"
  using show_hex_digits hex_digit_0 by (auto simp: crc16_def pad_left_def)

lemma hex_digit_upper: "hex_digit c \<Longrightarrow> upper_char c = c"
  by (auto simp: hex_digit_def upper_char_def is_lower_def of_char_hex_char split: if_splits)

lemma hex_digit_not_space: "hex_digit c \<Longrightarrow> \<not> is_space c"
proof
  assume "hex_digit c" and "is_space c"
  from this(1) have "48 \<le> (of_char c :: nat)" by (auto simp: hex_digit_def of_char_hex_char)
  with \<open>is_space c\<close> show False by (auto simp: is_space_def)
qed

lemma to_upper_crc16 [simp]: "to_upper (crc16 s) = crc16 s"
  unfolding to_upper_def by (rule map_idI) (use crc16_digits hex_digit_upper in blast)

text \<open>\<open>trim\<close> leaves a string alone that neither starts nor ends with white space.\<close>

lemma trim_id: "s \<noteq> [] \<Longrightarrow> \<not> is_space (hd s) \<Longrightarrow> \<not> is_space (last s) \<Longrightarrow> trim s = s"
proof -
  assume s: "s \<noteq> []" "\<not> is_space (hd s)" "\<not> is_space (last s)"
  have "trim_left s = s" using s(1,2) by (cases s) (auto simp: trim_left_def)
  moreover have "trim_left (rev s) = rev s"
    using s(1,3) by (cases s rule: rev_cases) (auto simp: trim_left_def)
  ultimately show ?thesis by (simp add: trim_def)
qed

text \<open>Where the parser finds the checksum field.\<close>

lemma last_index_crc:
  assumes "length c = 4"
  shows "last_index_of ''6304'' (b @ ''6304'' @ c) = Some (if c = ''6304'' then length b + 4 else length b)"
proof -
  obtain c1 c2 c3 c4 where c: "c = [c1, c2, c3, c4]"
    using assms by (auto simp: numeral_eq_Suc length_Suc_conv)
  define hit where "hit i \<longleftrightarrow> take 4 (drop i (b @ ''6304'' @ c)) = ''6304''" for i
  have h: "hit (length b)" "\<not> hit (length b + 1)" "\<not> hit (length b + 2)" "\<not> hit (length b + 3)"
    "hit (length b + 4) \<longleftrightarrow> c = ''6304''"
    "\<not> hit (length b + 5)" "\<not> hit (length b + 6)" "\<not> hit (length b + 7)"
    by (simp_all add: hit_def c)
  have u: "[0..<length (b @ ''6304'' @ c)] = [0..<length b] @
     [length b, length b + 1, length b + 2, length b + 3, length b + 4, length b + 5, length b + 6, length b + 7]"
  proof -
    have n: "[n..<n + 8] = [n, n + 1, n + 2, n + 3, n + 4, n + 5, n + 6, n + 7]" for n :: nat
      by (simp add: upt_conv_Cons)
    have "length (b @ ''6304'' @ c) = length b + 8" by (simp add: c)
    then show ?thesis using upt_add_eq_append [of 0 "length b" 8] by (simp only: n)
  qed
  have "filter hit [0..<length (b @ ''6304'' @ c)] =
      filter hit [0..<length b] @ length b # (if c = ''6304'' then [length b + 4] else [])"
    unfolding u filter_append filter.simps using h by simp
  moreover have "last_index_of ''6304'' (b @ ''6304'' @ c) =
     (let hits = filter hit [0..<length (b @ ''6304'' @ c)] in if hits = [] then None else Some (last hits))"
  proof -
    have "length ''6304'' = 4" by simp
    then show ?thesis unfolding last_index_of_def hit_def [abs_def] by (simp only:)
  qed
  ultimately show ?thesis by (simp only: Let_def) (simp split: if_split)
qed

section \<open>What the parser accepts\<close>

lemma parseKhqr_checksum:
  assumes "parseKhqr qr = Inr r" and "trim qr = qr"
  shows "12 \<le> length qr" and "crc16 (take (length qr - 4) qr) = to_upper (drop (length qr - 4) qr)"
proof -
  show l: "12 \<le> length qr"
    using assms by (auto simp: parseKhqr_def Let_def split: if_splits)
  from assms obtain i where i: "i = length qr - 8"
      "crc16 (take (i + 4) qr) = to_upper (drop (length qr - 4) qr)"
    by (auto simp: parseKhqr_def Let_def split: option.splits if_splits)
  moreover have "length qr - 8 + 4 = length qr - 4" using l by simp
  ultimately show "crc16 (take (length qr - 4) qr) = to_upper (drop (length qr - 4) qr)" by simp
qed

lemma parseKhqr_with_crc:
  assumes body: "body \<noteq> []" "\<not> is_space (hd body)" "4 \<le> length body"
    and crc: "crc16 (body @ ''6304'') \<noteq> ''6304''"
  shows "parseKhqr (with_crc body) = (case parseTlv body of Inl e \<Rightarrow> Inl e | Inr flds \<Rightarrow> parse_fields flds)"
proof -
  define c where "c = crc16 (body @ ''6304'')"
  have lc: "length c = 4" and uc: "to_upper c = c" by (simp_all add: c_def)
  have w: "with_crc body = body @ ''6304'' @ c" by (simp add: with_crc_def c_def)
  have "c \<noteq> []" using lc by auto
  then have "last c \<in> set c" by simp
  then have "\<not> is_space (last c)" unfolding c_def using crc16_digits hex_digit_not_space by blast
  then have t: "trim (body @ ''6304'' @ c) = body @ ''6304'' @ c"
    using body \<open>c \<noteq> []\<close> by (intro trim_id) simp_all
  have li: "last_index_of ''6304'' (body @ ''6304'' @ c) = Some (length body)"
    using last_index_crc [OF lc, of body] crc by (simp add: c_def)
  have len: "length (body @ ''6304'' @ c) = length body + 8" using lc by simp
  have parts: "take (length body + 4) (body @ ''6304'' @ c) = body @ ''6304''"
    "drop (length body + 8 - 4) (body @ ''6304'' @ c) = c" "take (length body) (body @ ''6304'' @ c) = body"
    by simp_all
  have "\<not> length body + 8 < 12" using body by simp
  then show ?thesis
    unfolding w parseKhqr_def t Let_def li len option.case parts uc
    by (simp only: if_False if_True c_def [symmetric] diff_add_inverse2 simp_thms)
qed


section \<open>The builder's payload is read back\<close>

definition opt_pair :: "string \<Rightarrow> string option \<Rightarrow> (string \<times> string) list" where
  "opt_pair tag x = (case truthy x of None \<Rightarrow> [] | Some v \<Rightarrow> [(tag, v)])"

lemma opt_field_encode: "opt_field tag x = encode_fields (opt_pair tag x)"
  by (auto simp: opt_field_def opt_pair_def truthy_def split: option.split list.split)

definition account_tag1 :: "bakong_params \<Rightarrow> string option" where
  "account_tag1 p = (if is_merchant p then bp_merchant_id p else bp_account_information p)"

definition account_fields :: "bakong_params \<Rightarrow> (string \<times> string) list" where
  "account_fields p =
     (''00'', bp_account_id p) # opt_pair ''01'' (account_tag1 p) @ opt_pair ''02'' (bp_acquiring_bank p)"

lemma account_info_encode: "account_info p = encode_fields (account_fields p)"
  by (simp add: account_info_def account_fields_def account_tag1_def opt_field_encode)

definition bakong_fields :: "nat \<Rightarrow> bakong_params \<Rightarrow> (string \<times> string) list" where
  "bakong_fields now p =
     [(''00'', ''01''), (''01'', if bp_amount p = None then ''11'' else ''12''),
      (if is_merchant p then ''30'' else ''29'', account_info p), (''52'', ''5999''),
      (''53'', CURRENCY_CODE (bp_currency p))] @
     (case bp_amount p of None \<Rightarrow> [] | Some a \<Rightarrow> [(''54'', a)]) @
     [(''58'', ''KH''), (''59'', take 25 (bp_merchant_name p)), (''60'', take 15 (bp_merchant_city p))] @
     (if additional_data p = [] then [] else [(''62'', additional_data p)]) @
     (case (bp_amount p, bp_expires_at p) of
        (Some _, Some ex) \<Rightarrow>
          [(''99'', tlv ''00'' (show_nat (case bp_created_at_ms p of None \<Rightarrow> now | Some c \<Rightarrow> c)) @
             tlv ''01'' (show_nat ex))]
      | _ \<Rightarrow> [])"

lemma bakong_body_encode: "bakong_body now p = encode_fields (bakong_fields now p)"
  by (simp add: bakong_body_def bakong_fields_def timestamps_def split: option.split)

text \<open>What fits the two-digit lengths of the encoding.\<close>

definition fits :: "nat \<Rightarrow> bakong_params \<Rightarrow> bool" where
  "fits now p \<longleftrightarrow> length (account_info p) \<le> 99 \<and> length (additional_data p) \<le> 99 \<and>
     length (timestamps now p) \<le> 99 \<and> (case bp_amount p of None \<Rightarrow> True | Some a \<Rightarrow> length a \<le> 99)"

lemma length_tlv: "length tag = 2 \<Longrightarrow> length v + 4 \<le> length (tlv tag v)"
proof -
  assume tag: "length tag = 2"
  have "2 \<le> length (pad_left 2 (CHR ''0'') (show_nat (length v)))" by (simp add: pad_left_def)
  with tag show ?thesis by (simp add: tlv_def)
qed

lemma valid_opt_pair: "length tag = 2 \<Longrightarrow> length (opt_field tag x) \<le> 99 \<Longrightarrow> valid_fields (opt_pair tag x)"
proof -
  assume "length tag = 2" and "length (opt_field tag x) \<le> 99"
  moreover have "length (tlv tag v) \<le> 99 \<Longrightarrow> length v \<le> 99" for v
    using length_tlv [OF \<open>length tag = 2\<close>, of v] by simp
  from this [of "a # v" for a v] calculation show ?thesis
    by (auto simp: opt_field_def opt_pair_def truthy_def split: option.splits list.splits)
qed

lemma valid_account_fields: "length (account_info p) \<le> 99 \<Longrightarrow> valid_fields (account_fields p)"
  using length_tlv [of "''00''" "bp_account_id p"]
  by (auto simp: account_info_def account_fields_def account_tag1_def intro!: valid_opt_pair)

lemma valid_bakong_fields: "fits now p \<Longrightarrow> valid_fields (bakong_fields now p)"
proof -
  assume f: "fits now p"
  have code: "length (CURRENCY_CODE (bp_currency p)) \<le> 99" by (cases "bp_currency p") simp_all
  have ts: "length (tlv ''99'' v) \<le> 99 \<Longrightarrow> length v \<le> 99" for v
    using length_tlv [of "''99''" v] by simp
  show ?thesis using f code
    by (auto simp: bakong_fields_def fits_def timestamps_def split: option.splits dest!: ts)
qed

lemma parse_account_info:
  assumes "length (account_info p) \<le> 99"
  shows "parseTlv (account_info p) = Inr (map_of (rev (account_fields p)))"
  unfolding account_info_encode using assms by (intro parse_encode_fields valid_account_fields)

lemma account_fields_lookup:
  "map_of (rev (account_fields p)) ''00'' = Some (bp_account_id p)"
  "map_of (rev (account_fields p)) ''01'' = truthy (account_tag1 p)"
  "map_of (rev (account_fields p)) ''02'' = truthy (bp_acquiring_bank p)"
  by (auto simp: account_fields_def opt_pair_def map_add_def split: option.split)


lemma bakong_fields_lookup:
  "map_of (rev (bakong_fields now p)) ''00'' = Some ''01''"
  "map_of (rev (bakong_fields now p)) ''01'' = Some (if bp_amount p = None then ''11'' else ''12'')"
  "map_of (rev (bakong_fields now p)) ''30'' = (if is_merchant p then Some (account_info p) else None)"
  "map_of (rev (bakong_fields now p)) ''29'' = (if is_merchant p then None else Some (account_info p))"
  "map_of (rev (bakong_fields now p)) ''53'' = Some (CURRENCY_CODE (bp_currency p))"
  "map_of (rev (bakong_fields now p)) ''54'' = bp_amount p"
  "map_of (rev (bakong_fields now p)) ''58'' = Some ''KH''"
  "map_of (rev (bakong_fields now p)) ''59'' = Some (take 25 (bp_merchant_name p))"
  "map_of (rev (bakong_fields now p)) ''60'' = Some (take 15 (bp_merchant_city p))"
  by (simp_all add: bakong_fields_def map_add_def split: option.split)

text \<open>What the parser reports of a payload built from \<open>p\<close>.\<close>

definition parsed_of :: "bakong_params \<Rightarrow> parsed_khqr" where
  "parsed_of p =
     \<lparr>pk_is_static = (bp_amount p = None), pk_is_merchant = is_merchant p, pk_account_id = bp_account_id p,
      pk_account_information = truthy (account_tag1 p),
      pk_merchant_id = (if is_merchant p then truthy (account_tag1 p) else None),
      pk_acquiring_bank = truthy (bp_acquiring_bank p),
      pk_merchant_name = Some (take 25 (bp_merchant_name p)),
      pk_merchant_city = Some (take 15 (bp_merchant_city p)),
      pk_currency = Some (bp_currency p), pk_amount = bp_amount p\<rparr>"

lemma truthy_nonempty: "v \<noteq> [] \<Longrightarrow> truthy (Some v) = Some v"
  by (auto simp: truthy_def split: list.split)

lemma truthy_code: "truthy (Some (CURRENCY_CODE c)) = Some (CURRENCY_CODE c)"
  "CODE_TO_CURRENCY (CURRENCY_CODE c) = Some c"
  by (cases c; simp add: truthy_def CODE_TO_CURRENCY_def)+

lemma account_info_nonempty: "account_info p \<noteq> []"
  using length_tlv [of "''00''" "bp_account_id p"] by (auto simp: account_info_def)

lemma to_upper_KH: "to_upper ''KH'' = ''KH''"
  by (simp add: to_upper_def upper_char_def is_lower_def)

lemma parse_bakong_fields:
  assumes "fits now p" and "is_account_id (bp_account_id p)"
  shows "parse_fields (map_of (rev (bakong_fields now p))) = Inr (parsed_of p)"
proof -
  have id: "bp_account_id p \<noteq> []" using assms(2) by (auto simp: is_account_id_def)
  have acct: "truthy (first_some (if is_merchant p then Some (account_info p) else None)
      (if is_merchant p then None else Some (account_info p))) = Some (account_info p)"
    by (simp add: first_some_def truthy_nonempty account_info_nonempty)
  have parse: "parseTlv (account_info p) = Inr (map_of (rev (account_fields p)))"
    using assms(1) by (intro parse_account_info) (simp add: fits_def)
  have kh: "truthy (Some ''KH'') = Some ''KH''" by (simp add: truthy_nonempty)
  have init: "(if bp_amount p = None then ''11'' else ''12'') \<in> {''11'', ''12''}" by simp
  show ?thesis
    unfolding parse_fields_def bakong_fields_lookup Let_def acct option.case parse sum.case
      account_fields_lookup truthy_nonempty [OF id] kh to_upper_KH truthy_code parsed_of_def
    using init assms(2) by simp
qed

section \<open>Concrete payloads\<close>

text \<open>The checksum over natural numbers, to evaluate it on a literal payload.\<close>

definition crc_nat_bit :: "nat \<Rightarrow> nat" where
  "crc_nat_bit n = (if n < 32768 then 2 * n else (2 * n - 65536) XOR 4129)"

definition crc_nat_char :: "nat \<Rightarrow> char \<Rightarrow> nat" where
  "crc_nat_char n x =
     crc_nat_bit (crc_nat_bit (crc_nat_bit (crc_nat_bit (crc_nat_bit (crc_nat_bit (crc_nat_bit (crc_nat_bit
       (n XOR (256 * of_char x)))))))))"

lemma unat_crc_bit: "unat (crc_bit c) = crc_nat_bit (unat c)"
proof -
  have p: "unat (push_bit 1 c) = 2 * unat c mod 65536"
    unfolding push_bit_eq_mult unat_word_ariths by (simp add: mult.commute)
  have b: "c AND 0x8000 \<noteq> 0 \<longleftrightarrow> 32768 \<le> unat c"
  proof -
    have "bit (unat c) 15 \<longleftrightarrow> bit c 15" by (simp add: bit_unsigned_iff)
    then have "bit c 15 \<longleftrightarrow> odd (unat c div 2 ^ 15)" by (simp only: bit_iff_odd)
    moreover have "unat c < 65536" using unsigned_less [of c] by simp
    then have "unat c div 2 ^ 15 = (if 32768 \<le> unat c then 1 else 0)" by auto
    ultimately show ?thesis by (simp add: top_bit_iff)
  qed
  have l: "unat c < 65536" using unsigned_less [of c] by simp
  have x: "unat (push_bit 1 c XOR 0x1021) = unat (push_bit 1 c) XOR 4129"
    by (simp add: unsigned_xor_eq)
  show ?thesis
  proof (cases "32768 \<le> unat c")
    case True
    then have "2 * unat c mod 65536 = 2 * unat c - 65536" using l by (simp add: mod_if)
    then show ?thesis unfolding crc_bit_def crc_nat_bit_def using True b x p by (simp only: if_True not_less if_False) simp
  next
    case False
    then show ?thesis unfolding crc_bit_def crc_nat_bit_def using b p by (simp del: push_bit_Suc)
  qed
qed

lemma unat_crc_char: "unat (crc_char c x) = crc_nat_char (unat c) x"
proof -
  have "(f ^^ 8) y = f (f (f (f (f (f (f (f y)))))))" for f :: "16 word \<Rightarrow> 16 word" and y
    by (simp add: numeral_eq_Suc)
  moreover have "unat (c XOR push_bit 8 (of_nat (of_char x))) = unat c XOR (256 * of_char x)"
    unfolding unsigned_xor_eq unat_char_high by (simp add: mult.commute)
  ultimately show ?thesis by (simp only: crc_char_def crc_nat_char_def unat_crc_bit)
qed

lemma unat_crc_word: "unat (crc_word s) = foldl crc_nat_char 65535 s"
proof -
  have "unat (foldl crc_char c s) = foldl crc_nat_char (unat c) s" for c
    by (induction s arbitrary: c) (simp_all add: unat_crc_char)
  then show ?thesis by (simp add: crc_word_def)
qed

lemmas crc_eval = crc16_def unat_crc_word crc_nat_char_def crc_nat_bit_def

definition sample_params :: "string \<Rightarrow> bakong_params" where
  "sample_params name =
     \<lparr>bp_account_id = ''a@b'', bp_merchant_name = name, bp_merchant_city = ''PP'', bp_amount = None,
      bp_currency = KHR, bp_account_information = None, bp_merchant_id = None,
      bp_acquiring_bank = None, bp_bill_number = None, bp_mobile_number = None,
      bp_store_label = None, bp_is_merchant = None, bp_expires_at = None, bp_created_at_ms = None\<rparr>"

lemma sample_body:
  "bakong_body 0 (sample_params ''Shop'') = ''00020101021129070003a@b5204599953031165802KH5904Shop6002PP''"
  "bakong_body 0 (sample_params ''Dekiu'') = ''00020101021129070003a@b5204599953031165802KH5905Dekiu6002PP''"
  by code_simp+

lemma sample_fits: "fits 0 (sample_params ''Shop'')" "fits 0 (sample_params ''Dekiu'')"
  "is_account_id (bp_account_id (sample_params n))"
proof -
  show "fits 0 (sample_params ''Shop'')" by code_simp
  show "fits 0 (sample_params ''Dekiu'')" by code_simp
  have "is_account_id ''a@b''" by code_simp
  then show "is_account_id (bp_account_id (sample_params n))" by (simp add: sample_params_def)
qed

lemma hex_char_sample:
  "hex_char 6 = CHR ''6''" "hex_char 4 = CHR ''4''" "hex_char 0 = CHR ''0''" "hex_char 14 = CHR ''E''"
  "hex_char 3 = CHR ''3''"
proof -
  have eq: "(of_char (hex_char d) :: nat) = of_char c \<Longrightarrow> hex_char d = c" for d c
    by (simp only: of_char_eq_iff)
  show "hex_char 6 = CHR ''6''" "hex_char 4 = CHR ''4''" "hex_char 0 = CHR ''0''" "hex_char 14 = CHR ''E''"
    "hex_char 3 = CHR ''3''"
    by (intro eq; simp add: of_char_hex_char)+
qed

lemma show_hex_sample: "show_hex 25614 = ''640E''" "show_hex 25348 = ''6304''"
  by (simp_all add: show_hex.simps hex_char_sample)

lemma sample_crc16:
  "crc16 (bakong_body 0 (sample_params ''Shop'') @ ''6304'') = ''640E''"
  "crc16 (bakong_body 0 (sample_params ''Dekiu'') @ ''6304'') = ''6304''"
  unfolding sample_body by (simp_all add: crc_eval show_hex_sample pad_left_def)

section \<open>Properties\<close>

lemma bakong_body_start: "bakong_body now p \<noteq> []" "\<not> is_space (hd (bakong_body now p))"
  "4 \<le> length (bakong_body now p)"
proof -
  have h: "bakong_body now p = CHR ''0'' # tl (bakong_body now p)" "4 \<le> length (bakong_body now p)"
    by (simp_all add: bakong_body_def tlv_def)
  have hd: "hd (bakong_body now p) = CHR ''0''" by (subst h(1)) simp
  show "\<not> is_space (hd (bakong_body now p))" unfolding hd by (simp add: is_space_def)
  show "bakong_body now p \<noteq> []" using h(2) by auto
  show "4 \<le> length (bakong_body now p)" by (rule h(2))
qed

text \<open>C26: A payload that \<open>buildBakongKhqr\<close> produces from parameters that fit the
  two-digit lengths of the encoding is accepted by \<open>parseKhqr\<close>, which gives back the account,
  the account block, the (truncated) name and city, the currency and the amount, unless the
  checksum happens to be the text of its own tag header, \<open>6304\<close>.\<close>

theorem parse_bakong_khqr:
  assumes "fits now p" and "is_account_id (bp_account_id p)"
    and "crc16 (bakong_body now p @ ''6304'') \<noteq> ''6304''"
  shows "parseKhqr (qrString (buildBakongKhqr md5 now p)) = Inr (parsed_of p)"
proof -
  have "parseKhqr (qrString (buildBakongKhqr md5 now p)) =
      (case parseTlv (bakong_body now p) of Inl e \<Rightarrow> Inl e | Inr flds \<Rightarrow> parse_fields flds)"
    using parseKhqr_with_crc [OF bakong_body_start assms(3)] by (simp add: buildBakongKhqr_def Let_def)
  moreover have "parseTlv (bakong_body now p) = Inr (map_of (rev (bakong_fields now p)))"
    unfolding bakong_body_encode by (intro parse_encode_fields valid_bakong_fields assms(1))
  ultimately show ?thesis using parse_bakong_fields [OF assms(1,2)] by simp
qed

theorem parse_bakong_khqr_witness:
  "parseKhqr (qrString (buildBakongKhqr id 0 (sample_params ''Shop''))) = Inr (parsed_of (sample_params ''Shop''))"
  by (rule parse_bakong_khqr) (simp_all add: sample_fits sample_crc16)


lemma sample_qr: "with_crc (bakong_body 0 (sample_params ''Shop'')) =
    ''00020101021129070003a@b5204599953031165802KH5904Sh'' @ CHR ''o'' # ''p6002PP6304640E''"
  unfolding with_crc_def sample_crc16 unfolding sample_body by simp


text \<open>When the checksum of a payload is the string \<open>6304\<close>, the search for the last
  occurrence of the checksum header finds the checksum itself, and the parser rejects the valid
  payload as having no checksum.\<close>

theorem checksum_6304_rejected:
  assumes "crc16 (bakong_body now p @ ''6304'') = ''6304''"
  shows "parseKhqr (qrString (buildBakongKhqr md5 now p)) =
    Inl ''Not a KHQR payload: missing the trailing CRC (tag 63)''"
proof -
  let ?b = "bakong_body now p"
  have w: "qrString (buildBakongKhqr md5 now p) = ?b @ ''6304'' @ ''6304''"
    using assms by (simp add: buildBakongKhqr_def Let_def with_crc_def)
  have t: "trim (?b @ ''6304'' @ ''6304'') = ?b @ ''6304'' @ ''6304''"
    using bakong_body_start by (intro trim_id) (simp_all add: is_space_def)
  have li: "last_index_of ''6304'' (?b @ ''6304'' @ ''6304'') = Some (length ?b + 4)"
    using last_index_crc [of "''6304''" ?b] by simp
  have "\<not> length (?b @ ''6304'' @ ''6304'') < 12" "length ?b + 4 \<noteq> length (?b @ ''6304'' @ ''6304'') - 8"
    using bakong_body_start(3) [of now p] by simp_all
  then show ?thesis
    unfolding w parseKhqr_def t Let_def li option.case by (simp only: if_False if_True not_False_eq_True)
qed

theorem checksum_6304_rejected_witness:
  "parseKhqr (qrString (buildBakongKhqr id 0 (sample_params ''Dekiu''))) =
    Inl ''Not a KHQR payload: missing the trailing CRC (tag 63)''"
  by (rule checksum_6304_rejected) (rule sample_crc16)

end
