(* ===== verification/Schema.thy ===== *)
theory Schema
  imports SharedTypes
begin

text \<open>
  The database of \<open>apps/api/prisma/schema.prisma\<close>: one record per model, with the
  columns the modelled services read or write, and the state \<open>db\<close> that holds a table per
  model. A JSON column keeps the objects the services look into. Two columns are not tables: the
  clock that \<open>new Date()\<close> reads and the sequence of random strings that fresh identifiers
  are made of; \<open>outbox\<close> is the trace of what leaves the process (mails, live events).
\<close>

section \<open>Rows\<close>

record org_row =
  o_id :: string
  o_status_active :: bool
  o_plan :: "string option"
  o_grace :: "int option"

record org_member_row =
  om_org :: string
  om_email :: string
  om_owner :: bool

record plan_row =
  pl_id :: string
  pl_name :: string
  pl_quota :: int
  pl_fee_bps :: int
  pl_price :: int

record usage_row =
  u_org :: string
  u_period :: int
  u_paid :: int
  u_warned :: int

record store_row =
  s_id :: string
  s_org :: string
  s_name :: string
  s_fee_bps :: int
  s_display_name :: "string option"

record branch_row =
  b_id :: string
  b_store :: string
  b_active :: bool
  b_name :: string
  b_code :: "string option"
  b_address :: "string option"

record customer_row =
  c_id :: string
  c_store :: string
  c_name :: "string option"
  c_email :: "string option"
  c_phone :: "string option"
  c_points :: int
  c_lifetime :: int
  c_tier :: "string option"
  c_referral_code :: "string option"
  c_wallet :: "string option"
  c_referred_by :: "string option"
  c_created :: int
  c_external :: "string option"

text \<open>The communication channels a customer has opted in to or out of, and the trail of the changes.\<close>

record preference_row =
  cpf_id :: string
  cpf_customer :: string
  cpf_channel :: string
  cpf_opted :: bool

record consent_row =
  cl_id :: string
  cl_customer :: string
  cl_channel :: string
  cl_opted :: bool
  cl_source :: string
  cl_created :: int

record program_row =
  lp_store :: string
  lp_active :: bool
  lp_per_unit :: decimal
  lp_expiry_months :: "int option"
  lp_warn_days :: int

record tier_row =
  t_id :: string
  t_store :: string
  t_name :: string
  t_threshold :: int
  t_multiplier :: decimal

datatype points_type = EARN | REDEEM | ADJUST | EXPIRE

record points_row =
  pt_id :: string
  pt_store :: string
  pt_customer :: string
  pt_type :: points_type
  pt_points :: int
  pt_payment :: "string option"
  pt_reason :: "string option"
  pt_created :: int
  pt_status :: value_status
  pt_confirmed_at :: "int option"
  pt_paychain_tx :: "string option"
  pt_detail :: "string option"

record notice_row =
  n_id :: string
  n_customer :: string
  n_store :: string
  n_expires_on :: int
  n_points :: int

record reward_row =
  rw_id :: string
  rw_store :: string
  rw_name :: string
  rw_description :: "string option"
  rw_cost :: int
  rw_stock :: int
  rw_active :: bool

datatype redemption_status = Issued | Fulfilled | RCancelled | RExpired

record redemption_row =
  rd_id :: string
  rd_store :: string
  rd_customer :: string
  rd_reward :: string
  rd_spent :: int
  rd_code :: string
  rd_status :: redemption_status
  rd_created :: int
  rd_fulfilled_at :: "int option"

record segment_rules =
  sg_min_lifetime :: "int option"
  sg_min_points :: "int option"
  sg_tier :: "string option"
  sg_has_email :: bool
  sg_min_count :: "int option"
  sg_min_volume :: "decimal option"
  sg_within_days :: "int option"

record segment_row =
  sg_id :: string
  sg_store :: string
  sg_name :: string
  sg_description :: "string option"
  sg_rules :: segment_rules

datatype promotion_type = PointsMultiplier | BonusPoints
datatype promotion_status = Draft | ActiveP | Paused | Ended

record promo_config =
  cf_multiplier :: "decimal option"
  cf_bonus_points :: "decimal option"
  cf_min_amount :: "decimal option"

record promotion_row =
  pr_id :: string
  pr_store :: string
  pr_name :: string
  pr_type :: promotion_type
  pr_status :: promotion_status
  pr_segment :: "string option"
  pr_config :: promo_config
  pr_budget :: "int option"
  pr_spent :: int
  pr_start :: "int option"
  pr_end :: "int option"
  pr_submitted :: bool
  pr_approved :: bool
  pr_approved_by :: "string option"
  pr_note :: "string option"

record ref_program_row =
  rp_store :: string
  rp_active :: bool
  rp_referrer_points :: int
  rp_referee_points :: int
  rp_commission_bps :: int
  rp_duration_days :: "int option"

datatype referral_status = RefPending | RefQualified | RefRewarded

record referral_row =
  rf_id :: string
  rf_store :: string
  rf_referrer :: string
  rf_referee :: string
  rf_code :: string
  rf_status :: referral_status
  rf_points_referrer :: int
  rf_points_referee :: int
  rf_flagged :: bool
  rf_flags :: "string list"
  rf_reviewed_at :: "int option"
  rf_created :: int
  rf_rewarded_at :: "int option"

datatype commission_status = Accrued | Held | CPaid | CVoid

record commission_row =
  cm_id :: string
  cm_store :: string
  cm_referral :: string
  cm_referrer :: string
  cm_payment :: string
  cm_amount :: decimal
  cm_currency :: currency
  cm_bps :: int
  cm_status :: commission_status
  cm_created :: int
  cm_paid_at :: "int option"
  cm_payout_ref :: "string option"

datatype game_type = ScratchCard | SpinWheel | LuckyDraw
datatype prize_type = NoPrize | PointsPrize | RewardPrize | CustomPrize
datatype play_status = PlayIssued | PlayRevealed

record game_row =
  g_id :: string
  g_store :: string
  g_name :: string
  g_type :: game_type
  g_active :: bool
  g_auto_issue :: bool
  g_min_payment :: "decimal option"

record prize_row =
  pz_id :: string
  pz_game :: string
  pz_label :: string
  pz_type :: prize_type
  pz_points :: int
  pz_reward :: "string option"
  pz_weight :: int
  pz_stock :: int
  pz_awarded :: int

record play_row =
  gp_id :: string
  gp_game :: string
  gp_store :: string
  gp_customer :: "string option"
  gp_prize :: "string option"
  gp_status :: play_status
  gp_won :: bool
  gp_payment :: "string option"
  gp_revealed_at :: "int option"

datatype coupon_type = Percent | Fixed

record coupon_row =
  cp_id :: string
  cp_store :: string
  cp_code :: string
  cp_type :: coupon_type
  cp_value :: decimal
  cp_currency :: "currency option"
  cp_min_spend :: "decimal option"
  cp_max :: "int option"
  cp_per_customer :: "int option"
  cp_first_order :: bool
  cp_count :: int
  cp_active :: bool
  cp_starts :: "int option"
  cp_expires :: "int option"

record coupon_redemption_row =
  cr_id :: string
  cr_coupon :: string
  cr_store :: string
  cr_customer :: "string option"
  cr_payment :: string
  cr_before :: decimal
  cr_discount :: decimal
  cr_after :: decimal
  cr_currency :: currency

datatype gift_type = GIssue | GRedeem | GRefund | GAdjust

record gift_card_row =
  gc_id :: string
  gc_store :: string
  gc_code :: string
  gc_currency :: currency
  gc_initial :: decimal
  gc_balance :: decimal
  gc_customer :: "string option"
  gc_active :: bool
  gc_expires :: "int option"

record gift_txn_row =
  gt_id :: string
  gt_card :: string
  gt_type :: gift_type
  gt_amount :: decimal
  gt_balance :: decimal
  gt_payment :: "string option"
  gt_reason :: "string option"

text \<open>The parts of \<open>Payment.metadata\<close> that the services write and read back.\<close>

record coupon_meta =
  mc_id :: string
  mc_code :: string
  mc_discount :: decimal
  mc_amount_before :: decimal

record gift_meta =
  mg_id :: string
  mg_code :: string
  mg_applied :: decimal

record metadata =
  md_coupon :: "coupon_meta option"
  md_gift_card :: "gift_meta option"
  md_customer_email :: "string option"

record payment_row =
  p_id :: string
  p_store :: string
  p_api_key :: "string option"
  p_mode :: key_mode
  p_status :: payment_status
  p_amount :: decimal
  p_currency :: currency
  p_reference :: "string option"
  p_description :: "string option"
  p_metadata :: metadata
  p_qr :: string
  p_refunded :: decimal
  p_branch :: "string option"
  p_customer :: "string option"
  p_created :: int
  p_expires :: int
  p_paid_at :: "int option"
  p_settlement :: "string option"

record settlement_row =
  st_id :: string
  st_store :: string
  st_currency :: currency
  st_payout :: int
  st_gross :: decimal
  st_refunds :: decimal
  st_fee_bps :: int
  st_fee :: decimal
  st_net :: decimal
  st_count :: nat
  st_settled_at :: "int option"

record refund_row =
  r_id :: string
  r_payment :: string
  r_amount :: decimal
  r_currency :: currency
  r_reason :: "string option"
  r_provider_ref :: "string option"
  r_created :: int

record history_row =
  h_payment :: string
  h_from :: "payment_status option"
  h_to :: payment_status
  h_reason :: string

record provider_ref_row =
  pf_payment :: string
  pf_provider :: string
  pf_md5 :: "string option"
  pf_bill_number :: "string option"

text \<open>What a replayed request gets back: the response bodies of the value APIs.\<close>

record payment_resource =
  ps_id :: string
  ps_status :: payment_status
  ps_amount :: string
  ps_currency :: currency
  ps_reference :: "string option"
  ps_description :: "string option"
  ps_metadata :: metadata
  ps_qr :: string
  ps_checkout_url :: string
  ps_created :: int
  ps_expires :: int
  ps_paid_at :: "int option"
  ps_refunded :: string
  ps_branch :: "string option"
  ps_customer :: "string option"

record refund_resource =
  rr_id :: string
  rr_payment :: string
  rr_amount :: string
  rr_currency :: currency
  rr_reason :: "string option"
  rr_created :: int

record points_resource =
  po_customer :: string
  po_type :: points_type
  po_points :: int
  po_balance :: int

datatype resource =
  PaymentRes payment_resource | RefundRes refund_resource | PointsRes points_resource

record idem_row =
  ir_store :: string
  ir_endpoint :: string
  ir_key :: string
  ir_hash :: string
  ir_status :: nat
  ir_body :: resource
  ir_expires :: int

datatype direction = DEBIT | CREDIT

record journal_row =
  j_id :: string
  j_event :: string
  j_reference :: "string option"
  j_store :: "string option"
  j_currency :: string

record entry_row =
  e_id :: string
  e_journal :: string
  e_account :: string
  e_store :: "string option"
  e_customer :: "string option"
  e_direction :: direction
  e_amount :: decimal
  e_currency :: string

record endpoint_row =
  we_id :: string
  we_store :: string
  we_url :: string
  we_events :: "string list"
  we_disabled :: bool
  we_secrets :: "(string \<times> bool \<times> int option) list"

record payment_payload =
  pp_id :: string
  pp_status :: string
  pp_amount :: string
  pp_currency :: currency
  pp_reference :: "string option"
  pp_metadata :: metadata
  pp_approved :: "int option"
  pp_refunded :: "string option"

record webhook_payload =
  wp_id :: string
  wp_type :: string
  wp_created :: int
  wp_payment :: payment_payload

record event_row =
  ev_id :: string
  ev_store :: string
  ev_payment :: "string option"
  ev_type :: string
  ev_payload :: webhook_payload

datatype delivery_status = DPending | DSucceeded | DFailed

record delivery_row =
  dl_id :: string
  dl_endpoint :: string
  dl_event :: string
  dl_status :: delivery_status
  dl_attempt :: nat
  dl_response_status :: "int option"
  dl_response_body :: "string option"
  dl_error :: "string option"
  dl_next_attempt :: "int option"
  dl_created :: int

text \<open>The platform's own ledger: the subscription of an organisation and its invoices.\<close>

datatype subscription_status = SubActive | SubPastDue | SubCancelled

record subscription_row =
  sb_id :: string
  sb_org :: string
  sb_plan :: string
  sb_status :: subscription_status
  sb_start :: int
  sb_end :: int

datatype invoice_status = InvOpen | InvPaid

record invoice_row =
  iv_id :: string
  iv_org :: string
  iv_plan :: "string option"
  iv_cents :: int
  iv_status :: invoice_status
  iv_start :: int
  iv_end :: int
  iv_due :: "int option"
  iv_paid_at :: "int option"
  iv_qr :: "string option"
  iv_md5 :: "string option"

datatype case_status = CaseOpen | Investigating | Resolved | Escalated

record risk_case_row =
  rk_id :: string
  rk_store :: string
  rk_payment :: "string option"
  rk_customer :: "string option"
  rk_score :: int
  rk_reasons :: "string list"
  rk_status :: case_status
  rk_resolution :: "string option"

datatype effect =
  Email string string
| Published string payment_status
| QuotaWarning string int int int
| EndpointDisabled string string
| Notified string string
| Audited string string
| Enqueued string
| ProviderRefund string decimal
| Alerted string nat decimal

section \<open>The database\<close>

record db =
  orgs :: "org_row list"
  org_members :: "org_member_row list"
  plans :: "plan_row list"
  usages :: "usage_row list"
  invoices :: "invoice_row list"
  subscriptions :: "subscription_row list"
  stores :: "store_row list"
  branches :: "branch_row list"
  customers :: "customer_row list"
  preferences :: "preference_row list"
  consent_logs :: "consent_row list"
  programs :: "program_row list"
  tiers :: "tier_row list"
  points_txns :: "points_row list"
  notices :: "notice_row list"
  rewards :: "reward_row list"
  redemptions :: "redemption_row list"
  segments :: "segment_row list"
  promotions :: "promotion_row list"
  ref_programs :: "ref_program_row list"
  referrals :: "referral_row list"
  commissions :: "commission_row list"
  games :: "game_row list"
  prizes :: "prize_row list"
  plays :: "play_row list"
  coupons :: "coupon_row list"
  coupon_redemptions :: "coupon_redemption_row list"
  gift_cards :: "gift_card_row list"
  gift_txns :: "gift_txn_row list"
  payments :: "payment_row list"
  refunds :: "refund_row list"
  settlements :: "settlement_row list"
  history :: "history_row list"
  provider_refs :: "provider_ref_row list"
  idem_records :: "idem_row list"
  journals :: "journal_row list"
  entries :: "entry_row list"
  endpoints :: "endpoint_row list"
  events :: "event_row list"
  deliveries :: "delivery_row list"
  risk_cases :: "risk_case_row list"
  outbox :: "effect list"
  clock :: int
  rnd :: "nat \<Rightarrow> string"
  draws :: nat

end
