(* ===== verification/Database.thy ===== *)
theory Database
  imports Schema
begin

text \<open>
  The queries of the services, over the tables of \<open>Schema\<close>: a read, an insert that the
  unique indexes may refuse (\<open>P2002\<close>), an update of one row that must exist
  (\<open>P2025\<close>), an \<open>updateMany\<close> that counts what it changed, and the source of
  fresh identifiers (\<open>packages/security/src/ids.ts\<close>). The locale \<open>table\<close> states
  what a component may rely on; it is interpreted for the tables of the schema.
\<close>

type_synonym 'a handler = "(db, exn, 'a) op"

section \<open>Queries\<close>

definition findM :: "(db \<Rightarrow> 'r list) \<Rightarrow> ('r \<Rightarrow> bool) \<Rightarrow> 'r option handler" where
  "findM get p = getsM (\<lambda>s. find_by p (get s))"

definition manyM :: "(db \<Rightarrow> 'r list) \<Rightarrow> ('r \<Rightarrow> bool) \<Rightarrow> 'r list handler" where
  "manyM get p = getsM (\<lambda>s. rows_where p (get s))"

definition createM ::
    "(db \<Rightarrow> 'r list) \<Rightarrow> (('r list \<Rightarrow> 'r list) \<Rightarrow> db \<Rightarrow> db) \<Rightarrow> ('r \<Rightarrow> 'r \<Rightarrow> bool) \<Rightarrow> 'r \<Rightarrow> unit handler" where
  "createM get upd clash r s =
     (if exists_by (clash r) (get s) then (Inl P2002, s) else (Inr (), upd (\<lambda>_. get s @ [r]) s))"

definition updateM ::
    "(db \<Rightarrow> 'r list) \<Rightarrow> (('r list \<Rightarrow> 'r list) \<Rightarrow> db \<Rightarrow> db) \<Rightarrow> ('r \<Rightarrow> bool) \<Rightarrow> ('r \<Rightarrow> 'r) \<Rightarrow> unit handler" where
  "updateM get upd p f s =
     (if exists_by p (get s) then (Inr (), upd (\<lambda>_. update_where p f (get s)) s) else (Inl P2025, s))"

definition update_manyM ::
    "(db \<Rightarrow> 'r list) \<Rightarrow> (('r list \<Rightarrow> 'r list) \<Rightarrow> db \<Rightarrow> db) \<Rightarrow> ('r \<Rightarrow> bool) \<Rightarrow> ('r \<Rightarrow> 'r) \<Rightarrow> nat handler" where
  "update_manyM get upd p f s = (Inr (count_where p (get s)), upd (\<lambda>_. update_where p f (get s)) s)"

definition deleteM ::
    "(db \<Rightarrow> 'r list) \<Rightarrow> (('r list \<Rightarrow> 'r list) \<Rightarrow> db \<Rightarrow> db) \<Rightarrow> ('r \<Rightarrow> bool) \<Rightarrow> unit handler" where
  "deleteM get upd p s = (Inr (), upd (\<lambda>_. delete_where p (get s)) s)"

text \<open>\<open>prefixedId(prefix)\<close>: the prefix and the next random string.\<close>

definition prefixedId :: "string \<Rightarrow> string handler" where
  "prefixedId prefix s = (Inr (prefix @ ''_'' @ rnd s (draws s)), s\<lparr>draws := Suc (draws s)\<rparr>)"

definition randomBase58 :: "string handler" where
  "randomBase58 s = (Inr (rnd s (draws s)), s\<lparr>draws := Suc (draws s)\<rparr>)"

definition emit :: "effect \<Rightarrow> unit handler" where
  "emit e s = (Inr (), s\<lparr>outbox := outbox s @ [e]\<rparr>)"

lemmas query_defs = findM_def manyM_def createM_def updateM_def update_manyM_def deleteM_def
  prefixedId_def randomBase58_def emit_def

lemma bindM_find [op_simps]: "bindM (findM get p) f s = f (find_by p (get s)) s"
  by (simp add: findM_def op_simps)

lemma bindM_many [op_simps]: "bindM (manyM get p) f s = f (rows_where p (get s)) s"
  by (simp add: manyM_def op_simps)

lemma bindM_create [op_simps]: "bindM (createM get upd clash r) f s =
    (if exists_by (clash r) (get s) then (Inl P2002, s) else f () (upd (\<lambda>_. get s @ [r]) s))"
  by (simp add: bindM_def createM_def)

lemma bindM_update [op_simps]: "bindM (updateM get upd p g) f s =
    (if exists_by p (get s) then f () (upd (\<lambda>_. update_where p g (get s)) s) else (Inl P2025, s))"
  by (simp add: bindM_def updateM_def)

lemma bindM_update_many [op_simps]: "bindM (update_manyM get upd p g) f s =
    f (count_where p (get s)) (upd (\<lambda>_. update_where p g (get s)) s)"
  by (simp add: bindM_def update_manyM_def)

lemma bindM_delete [op_simps]: "bindM (deleteM get upd p) f s = f () (upd (\<lambda>_. delete_where p (get s)) s)"
  by (simp add: bindM_def deleteM_def)

lemma bindM_prefixedId [op_simps]: "bindM (prefixedId prefix) f s =
    f (prefix @ ''_'' @ rnd s (draws s)) (s\<lparr>draws := Suc (draws s)\<rparr>)"
  by (simp add: bindM_def prefixedId_def)

lemma bindM_randomBase58 [op_simps]: "bindM randomBase58 f s =
    f (rnd s (draws s)) (s\<lparr>draws := Suc (draws s)\<rparr>)"
  by (simp add: bindM_def randomBase58_def)

lemma bindM_emit [op_simps]: "bindM (emit e) f s = f () (s\<lparr>outbox := outbox s @ [e]\<rparr>)"
  by (simp add: bindM_def emit_def)

lemma find_apply [op_simps]: "findM get p s = (Inr (find_by p (get s)), s)"
  by (simp add: findM_def op_simps)

lemma emit_apply [op_simps]: "emit e s = (Inr (), s\<lparr>outbox := outbox s @ [e]\<rparr>)"
  by (simp add: emit_def)

lemma forM_emit: "forM xs (\<lambda>x. emit (f x)) s = (Inr (), s\<lparr>outbox := outbox s @ map f xs\<rparr>)"
  by (induction xs arbitrary: s) (simp_all add: op_simps)

text \<open>Invariants through the queries: only the writes leave something to prove.\<close>

lemma keeps_find [keeps_intros]: "keeps P (findM get p)"
  by (simp add: findM_def keeps_gets)

lemma keeps_many [keeps_intros]: "keeps P (manyM get p)"
  by (simp add: manyM_def keeps_gets)

lemma keeps_create:
  "(\<And>s. P s \<Longrightarrow> \<not> exists_by (clash r) (get s) \<Longrightarrow> P (upd (\<lambda>_. get s @ [r]) s)) \<Longrightarrow> keeps P (createM get upd clash r)"
  by (simp add: keeps_def createM_def)

lemma keeps_update:
  "(\<And>s. P s \<Longrightarrow> exists_by p (get s) \<Longrightarrow> P (upd (\<lambda>_. update_where p f (get s)) s)) \<Longrightarrow> keeps P (updateM get upd p f)"
  by (simp add: keeps_def updateM_def)

lemma keeps_update_many:
  "(\<And>s. P s \<Longrightarrow> P (upd (\<lambda>_. update_where p f (get s)) s)) \<Longrightarrow> keeps P (update_manyM get upd p f)"
  by (simp add: keeps_def update_manyM_def)

lemma keeps_delete:
  "(\<And>s. P s \<Longrightarrow> P (upd (\<lambda>_. delete_where p (get s)) s)) \<Longrightarrow> keeps P (deleteM get upd p)"
  by (simp add: keeps_def deleteM_def)

lemma keeps_prefixedId: "(\<And>s n. P s \<Longrightarrow> P (s\<lparr>draws := n\<rparr>)) \<Longrightarrow> keeps P (prefixedId prefix)"
  by (simp add: keeps_def prefixedId_def)

lemma keeps_randomBase58: "(\<And>s n. P s \<Longrightarrow> P (s\<lparr>draws := n\<rparr>)) \<Longrightarrow> keeps P randomBase58"
  by (simp add: keeps_def randomBase58_def)

lemma keeps_emit: "(\<And>s es. P s \<Longrightarrow> P (s\<lparr>outbox := es\<rparr>)) \<Longrightarrow> keeps P (emit e)"
  by (simp add: emit_def keeps_def)

section \<open>The interface of a table\<close>

text \<open>
  A table is a field of the state with a primary key; its unique indexes refuse a row that
  collides with one that is there, in particular on the key.
\<close>

locale table =
  fixes get :: "db \<Rightarrow> 'r list"
    and upd :: "('r list \<Rightarrow> 'r list) \<Rightarrow> db \<Rightarrow> db"
    and key :: "'r \<Rightarrow> string"
    and clash :: "'r \<Rightarrow> 'r \<Rightarrow> bool"
  assumes get_upd: "get (upd f s) = f (get s)"
    and clash_key: "key r = key u \<Longrightarrow> clash r u"
begin

lemma create_keyed: "keyed key (get s) \<Longrightarrow> keyed key (get (snd (createM get upd clash r s)))"
  using clash_key by (fastforce simp: createM_def get_upd keyed_append_one exists_by_iff)

lemma create_lookup:
  assumes "createM get upd clash r s = (Inr (), t)"
  shows "find_by (\<lambda>x. key x = key r) (get t) = Some r"
    and "i \<noteq> key r \<Longrightarrow> find_by (\<lambda>x. key x = i) (get t) = find_by (\<lambda>x. key x = i) (get s)"
proof -
  from assms have fresh: "\<not> exists_by (clash r) (get s)" and t: "get t = get s @ [r]"
    by (auto simp: createM_def get_upd split: if_splits)
  from fresh clash_key have "find_by (\<lambda>x. key x = key r) (get s) = None"
    by (force simp: find_by_None exists_by_iff)
  then show "find_by (\<lambda>x. key x = key r) (get t) = Some r" by (simp add: t find_by_append)
  show "i \<noteq> key r \<Longrightarrow> find_by (\<lambda>x. key x = i) (get t) = find_by (\<lambda>x. key x = i) (get s)"
    by (auto simp: t find_by_append split: option.split)
qed

lemma update_keyed:
  "(\<And>r. key (f r) = key r) \<Longrightarrow> keyed key (get s) \<Longrightarrow> keyed key (get (snd (updateM get upd p f s)))"
  by (simp add: updateM_def get_upd keyed_update_where)

lemma update_lookup:
  assumes "\<And>r. key (f r) = key r" and "updateM get upd (\<lambda>x. key x = i) f s = (Inr (), t)"
  shows "find_by (\<lambda>x. key x = j) (get t) =
    (if j = i then map_option f else id) (find_by (\<lambda>x. key x = j) (get s))"
proof -
  from assms(2) have t: "get t = update_where (\<lambda>x. key x = i) f (get s)"
    by (auto simp: updateM_def get_upd split: if_splits)
  show ?thesis
  proof (cases "find_by (\<lambda>x. key x = j) (get s)")
    case None
    then show ?thesis using assms(1) by (simp add: t find_by_update_where)
  next
    case (Some r)
    from find_by_SomeD [OF Some] have "key r = j" by simp
    with Some show ?thesis using assms(1) by (simp add: t find_by_update_where)
  qed
qed

lemma lookup_in_table: "keyed key (get s) \<Longrightarrow> r \<in> set (get s) \<longleftrightarrow> find_by (\<lambda>x. key x = key r) (get s) = Some r"
  using keyed_find find_by_SomeD by metis

end

section \<open>The unique indexes of the schema\<close>

definition customer_clash :: "customer_row \<Rightarrow> customer_row \<Rightarrow> bool" where
  "customer_clash r u \<longleftrightarrow> c_id r = c_id u \<or>
     c_store r = c_store u \<and> c_external r \<noteq> None \<and> c_external r = c_external u \<or>
     c_store r = c_store u \<and> c_referral_code r \<noteq> None \<and> c_referral_code r = c_referral_code u"

definition branch_clash :: "branch_row \<Rightarrow> branch_row \<Rightarrow> bool" where
  "branch_clash r u \<longleftrightarrow> b_id r = b_id u \<or> b_store r = b_store u \<and> b_code r \<noteq> None \<and> b_code r = b_code u"

definition settlement_clash :: "settlement_row \<Rightarrow> settlement_row \<Rightarrow> bool" where
  "settlement_clash r u \<longleftrightarrow> st_id r = st_id u \<or>
     st_store r = st_store u \<and> st_currency r = st_currency u \<and> st_payout r = st_payout u"

definition delivery_clash :: "delivery_row \<Rightarrow> delivery_row \<Rightarrow> bool" where
  "delivery_clash r u \<longleftrightarrow> dl_id r = dl_id u"

definition event_clash :: "event_row \<Rightarrow> event_row \<Rightarrow> bool" where
  "event_clash r u \<longleftrightarrow> ev_id r = ev_id u"

definition endpoint_clash :: "endpoint_row \<Rightarrow> endpoint_row \<Rightarrow> bool" where
  "endpoint_clash r u \<longleftrightarrow> we_id r = we_id u"

definition invoice_clash :: "invoice_row \<Rightarrow> invoice_row \<Rightarrow> bool" where
  "invoice_clash r u \<longleftrightarrow> iv_id r = iv_id u"

definition risk_clash :: "risk_case_row \<Rightarrow> risk_case_row \<Rightarrow> bool" where
  "risk_clash r u \<longleftrightarrow> rk_id r = rk_id u"

definition points_clash :: "points_row \<Rightarrow> points_row \<Rightarrow> bool" where
  "points_clash r u \<longleftrightarrow> pt_id r = pt_id u"

definition notice_clash :: "notice_row \<Rightarrow> notice_row \<Rightarrow> bool" where
  "notice_clash r u \<longleftrightarrow> n_id r = n_id u \<or> n_customer r = n_customer u \<and> n_expires_on r = n_expires_on u"

definition reward_clash :: "reward_row \<Rightarrow> reward_row \<Rightarrow> bool" where
  "reward_clash r u \<longleftrightarrow> rw_id r = rw_id u"

definition redemption_clash :: "redemption_row \<Rightarrow> redemption_row \<Rightarrow> bool" where
  "redemption_clash r u \<longleftrightarrow> rd_id r = rd_id u \<or> rd_code r = rd_code u"

definition referral_clash :: "referral_row \<Rightarrow> referral_row \<Rightarrow> bool" where
  "referral_clash r u \<longleftrightarrow> rf_id r = rf_id u \<or> rf_referee r = rf_referee u"

definition commission_clash :: "commission_row \<Rightarrow> commission_row \<Rightarrow> bool" where
  "commission_clash r u \<longleftrightarrow> cm_id r = cm_id u \<or> cm_payment r = cm_payment u"

definition play_clash :: "play_row \<Rightarrow> play_row \<Rightarrow> bool" where
  "play_clash r u \<longleftrightarrow> gp_id r = gp_id u \<or>
     gp_game r = gp_game u \<and> gp_payment r \<noteq> None \<and> gp_payment r = gp_payment u"

definition coupon_clash :: "coupon_row \<Rightarrow> coupon_row \<Rightarrow> bool" where
  "coupon_clash r u \<longleftrightarrow> cp_id r = cp_id u \<or> cp_store r = cp_store u \<and> cp_code r = cp_code u"

definition coupon_redemption_clash :: "coupon_redemption_row \<Rightarrow> coupon_redemption_row \<Rightarrow> bool" where
  "coupon_redemption_clash r u \<longleftrightarrow> cr_id r = cr_id u \<or> cr_payment r = cr_payment u"

definition gift_card_clash :: "gift_card_row \<Rightarrow> gift_card_row \<Rightarrow> bool" where
  "gift_card_clash r u \<longleftrightarrow> gc_id r = gc_id u \<or> gc_store r = gc_store u \<and> gc_code r = gc_code u"

definition gift_txn_clash :: "gift_txn_row \<Rightarrow> gift_txn_row \<Rightarrow> bool" where
  "gift_txn_clash r u \<longleftrightarrow> gt_id r = gt_id u"

definition payment_clash :: "payment_row \<Rightarrow> payment_row \<Rightarrow> bool" where
  "payment_clash r u \<longleftrightarrow> p_id r = p_id u"

definition refund_clash :: "refund_row \<Rightarrow> refund_row \<Rightarrow> bool" where
  "refund_clash r u \<longleftrightarrow> r_id r = r_id u"

definition idem_clash :: "idem_row \<Rightarrow> idem_row \<Rightarrow> bool" where
  "idem_clash r u \<longleftrightarrow> ir_store r = ir_store u \<and> ir_endpoint r = ir_endpoint u \<and> ir_key r = ir_key u"

definition journal_clash :: "journal_row \<Rightarrow> journal_row \<Rightarrow> bool" where
  "journal_clash r u \<longleftrightarrow> j_id r = j_id u \<or>
     j_event r = j_event u \<and> j_reference r \<noteq> None \<and> j_reference r = j_reference u"

lemmas clash_defs = customer_clash_def points_clash_def notice_clash_def reward_clash_def
  redemption_clash_def referral_clash_def commission_clash_def play_clash_def coupon_clash_def
  coupon_redemption_clash_def gift_card_clash_def gift_txn_clash_def payment_clash_def
  refund_clash_def idem_clash_def journal_clash_def branch_clash_def settlement_clash_def
  delivery_clash_def event_clash_def endpoint_clash_def invoice_clash_def risk_clash_def

interpretation customers_table: table customers customers_update c_id customer_clash
  by unfold_locales (simp_all add: clash_defs)

interpretation points_table: table points_txns points_txns_update pt_id points_clash
  by unfold_locales (simp_all add: clash_defs)

interpretation notices_table: table notices notices_update n_id notice_clash
  by unfold_locales (simp_all add: clash_defs)

interpretation rewards_table: table rewards rewards_update rw_id reward_clash
  by unfold_locales (simp_all add: clash_defs)

interpretation redemptions_table: table redemptions redemptions_update rd_id redemption_clash
  by unfold_locales (simp_all add: clash_defs)

interpretation referrals_table: table referrals referrals_update rf_id referral_clash
  by unfold_locales (simp_all add: clash_defs)

interpretation commissions_table: table commissions commissions_update cm_id commission_clash
  by unfold_locales (simp_all add: clash_defs)

interpretation plays_table: table plays plays_update gp_id play_clash
  by unfold_locales (simp_all add: clash_defs)

interpretation coupons_table: table coupons coupons_update cp_id coupon_clash
  by unfold_locales (simp_all add: clash_defs)

interpretation gift_cards_table: table gift_cards gift_cards_update gc_id gift_card_clash
  by unfold_locales (simp_all add: clash_defs)

interpretation payments_table: table payments payments_update p_id payment_clash
  by unfold_locales (simp_all add: clash_defs)

interpretation refunds_table: table refunds refunds_update r_id refund_clash
  by unfold_locales (simp_all add: clash_defs)

interpretation journals_table: table journals journals_update j_id journal_clash
  by unfold_locales (simp_all add: clash_defs)

interpretation settlements_table: table settlements settlements_update st_id settlement_clash
  by unfold_locales (simp_all add: clash_defs)

interpretation branches_table: table branches branches_update b_id branch_clash
  by unfold_locales (simp_all add: clash_defs)

interpretation deliveries_table: table deliveries deliveries_update dl_id delivery_clash
  by unfold_locales (simp_all add: clash_defs)

interpretation invoices_table: table invoices invoices_update iv_id invoice_clash
  by unfold_locales (simp_all add: clash_defs)

section \<open>Sample rows\<close>

text \<open>An empty database and a paid payment, for concrete instances.\<close>

definition empty_db :: db where
  "empty_db =
     \<lparr>orgs = [], org_members = [], plans = [], usages = [], invoices = [], subscriptions = [], stores = [], branches = [], customers = [], preferences = [], consent_logs = [], programs = [],
      tiers = [], points_txns = [], notices = [], rewards = [], redemptions = [], segments = [],
      promotions = [], ref_programs = [], referrals = [], commissions = [], games = [], prizes = [],
      plays = [], coupons = [], coupon_redemptions = [], gift_cards = [], gift_txns = [],
      payments = [], refunds = [], settlements = [], history = [], provider_refs = [], idem_records = [],
      journals = [], entries = [], endpoints = [], events = [], deliveries = [], risk_cases = [],
      outbox = [], clock = 0, rnd = show_nat, draws = 0\<rparr>"

definition no_metadata :: metadata where
  "no_metadata = \<lparr>md_coupon = None, md_gift_card = None, md_customer_email = None\<rparr>"

definition sample_payment :: "decimal \<Rightarrow> currency \<Rightarrow> payment_row" where
  "sample_payment amount cur =
     \<lparr>p_id = ''pay_1'', p_store = ''store_1'', p_api_key = None, p_mode = TestMode, p_status = Paid,
      p_amount = amount, p_currency = cur, p_reference = None, p_description = None,
      p_metadata = no_metadata, p_qr = [], p_refunded = 0, p_branch = None, p_customer = None,
      p_created = 0, p_expires = 300000, p_paid_at = Some 0, p_settlement = None\<rparr>"

end
