(* ===== verification/Ledger.thy ===== *)
theory Ledger
  imports Database
begin

text \<open>
  \<open>apps/api/src/ledger/ledger.service.ts\<close>: the double-entry ledger. \<open>post\<close> is
  its only write: it rounds the lines, refuses a journal that does not balance, and absorbs the
  second posting of an event. The other operations are the journals of the business events and
  the points balances read back from the entries.
\<close>

section \<open>Accounts and lines\<close>

datatype account_type = ASSET | LIABILITY | REVENUE | EXPENSE | EQUITY

definition CHART_OF_ACCOUNTS :: "(string \<times> account_type) list" where
  "CHART_OF_ACCOUNTS =
     [(''settlement_clearing'', ASSET), (''merchant_payable'', LIABILITY), (''fee_revenue'', REVENUE),
      (''subscription_revenue'', REVENUE), (''commission_expense'', EXPENSE),
      (''commission_payable'', LIABILITY), (''points_liability'', LIABILITY),
      (''points_expense'', EXPENSE), (''points_settled'', REVENUE), (''points_breakage'', REVENUE)]"

definition POINTS_CURRENCY :: string where
  "POINTS_CURRENCY = ''PTS''"

definition REDEMPTION_CANCELLED_REASON :: string where
  "REDEMPTION_CANCELLED_REASON = ''redemption cancelled''"

record line =
  ln_account :: string
  ln_direction :: direction
  ln_amount :: decimal
  ln_customer :: "string option"

definition line_of :: "string \<Rightarrow> direction \<Rightarrow> decimal \<Rightarrow> line" where
  "line_of account dir amount =
     \<lparr>ln_account = account, ln_direction = dir, ln_amount = amount, ln_customer = None\<rparr>"

definition line_sum :: "direction \<Rightarrow> line list \<Rightarrow> decimal" where
  "line_sum d ls = sum_list (map ln_amount (filter (\<lambda>l. ln_direction l = d) ls))"

definition round_line :: "line \<Rightarrow> line" where
  "round_line l = l\<lparr>ln_amount := to_dp 4 (ln_amount l)\<rparr>"

section \<open>Posting\<close>

definition entry_clash :: "entry_row \<Rightarrow> entry_row \<Rightarrow> bool" where
  "entry_clash r u \<longleftrightarrow> e_id r = e_id u"

definition create_line :: "string \<Rightarrow> string option \<Rightarrow> string \<Rightarrow> line \<Rightarrow> unit handler" where
  "create_line journal store cur l =
     bindM (prefixedId ''led'') (\<lambda>i. createM entries entries_update entry_clash
       \<lparr>e_id = i, e_journal = journal, e_account = ln_account l, e_store = store,
        e_customer = ln_customer l, e_direction = ln_direction l, e_amount = ln_amount l,
        e_currency = cur\<rparr>)"

definition create_journal ::
    "string \<Rightarrow> string option \<Rightarrow> string option \<Rightarrow> string \<Rightarrow> line list \<Rightarrow> unit handler" where
  "create_journal event reference store cur ls =
     transaction (bindM (prefixedId ''jrn'') (\<lambda>i.
       seqM (createM journals journals_update journal_clash
         \<lparr>j_id = i, j_event = event, j_reference = reference, j_store = store, j_currency = cur\<rparr>)
       (forM ls (create_line i store cur))))"

definition post :: "string \<Rightarrow> string option \<Rightarrow> string option \<Rightarrow> string \<Rightarrow> line list \<Rightarrow> unit handler" where
  "post event reference store cur lines =
     (let rounded = map round_line lines;
          debits = line_sum DEBIT rounded;
          credits = line_sum CREDIT rounded
      in if debits \<noteq> credits
         then throw (internal (''Unbalanced journal '' @ event @ ''/'' @
           (case reference of None \<Rightarrow> ''null'' | Some r \<Rightarrow> r) @
           '': DR '' @ to_fixed 4 debits @ '' != CR '' @ to_fixed 4 credits))
         else if debits \<le> 0 then ret ()
         else catchM (create_journal event reference store cur rounded)
           (\<lambda>e. if e = P2002 then ret () else throw e))"

section \<open>The journals of the business events\<close>

definition fee_of :: "decimal \<Rightarrow> int \<Rightarrow> decimal" where
  "fee_of gross feeBps = gross * of_int feeBps / 10000"

definition captured_lines :: "decimal \<Rightarrow> int \<Rightarrow> line list" where
  "captured_lines gross feeBps =
     (let fee = fee_of gross feeBps; net = gross - fee in
      [line_of ''settlement_clearing'' DEBIT gross, line_of ''merchant_payable'' CREDIT net,
       line_of ''fee_revenue'' CREDIT fee])"

definition postPaymentCaptured :: "payment_row \<Rightarrow> int \<Rightarrow> unit handler" where
  "postPaymentCaptured payment feeBps =
     post ''payment.captured'' (Some (p_id payment)) (Some (p_store payment))
       (currency_name (p_currency payment)) (captured_lines (p_amount payment) feeBps)"

definition refund_lines :: "decimal \<Rightarrow> int \<Rightarrow> line list" where
  "refund_lines r feeBps =
     (let feePortion = fee_of r feeBps; netPortion = r - feePortion in
      [line_of ''merchant_payable'' DEBIT netPortion, line_of ''fee_revenue'' DEBIT feePortion,
       line_of ''settlement_clearing'' CREDIT r])"

definition postRefund :: "payment_row \<Rightarrow> decimal \<Rightarrow> int \<Rightarrow> string \<Rightarrow> unit handler" where
  "postRefund payment refundAmount feeBps refundRef =
     post ''payment.refunded'' (Some (p_id payment @ '':'' @ refundRef)) (Some (p_store payment))
       (currency_name (p_currency payment)) (refund_lines refundAmount feeBps)"

definition postSubscriptionCollected :: "string \<Rightarrow> string \<Rightarrow> decimal \<Rightarrow> unit handler" where
  "postSubscriptionCollected invoiceId cur amount =
     post ''subscription.collected'' (Some invoiceId) None cur
       [line_of ''settlement_clearing'' DEBIT amount, line_of ''subscription_revenue'' CREDIT amount]"

definition postCommissionAccrued :: "string \<Rightarrow> string \<Rightarrow> string \<Rightarrow> decimal \<Rightarrow> unit handler" where
  "postCommissionAccrued commissionId storeId cur amount =
     post ''commission.accrued'' (Some commissionId) (Some storeId) cur
       [line_of ''commission_expense'' DEBIT amount, line_of ''commission_payable'' CREDIT amount]"

definition postPayout :: "string \<Rightarrow> string \<Rightarrow> decimal \<Rightarrow> string \<Rightarrow> unit handler" where
  "postPayout storeId cur amount payoutRef =
     post ''payout'' (Some (storeId @ '':'' @ payoutRef)) (Some storeId) cur
       [line_of ''merchant_payable'' DEBIT amount, line_of ''settlement_clearing'' CREDIT amount]"

definition postCommissionPaid :: "string \<Rightarrow> string \<Rightarrow> string \<Rightarrow> decimal \<Rightarrow> unit handler" where
  "postCommissionPaid commissionId storeId cur amount =
     post ''commission.paid'' (Some commissionId) (Some storeId) cur
       [line_of ''commission_payable'' DEBIT amount, line_of ''settlement_clearing'' CREDIT amount]"

datatype movement = MEarn | MRedeem | MAdjust | MExpire | MRedeemReversal

fun movement_name :: "movement \<Rightarrow> string" where
  "movement_name MEarn = ''earn''"
| "movement_name MRedeem = ''redeem''"
| "movement_name MAdjust = ''adjust''"
| "movement_name MExpire = ''expire''"
| "movement_name MRedeemReversal = ''redeem_reversal''"

definition points_contra :: "movement \<Rightarrow> int \<Rightarrow> string" where
  "points_contra ty points =
     (if points > 0
      then (if ty = MRedeemReversal then ''points_settled'' else ''points_expense'')
      else (if ty = MRedeem then ''points_settled'' else ''points_breakage''))"

definition points_lines :: "movement \<Rightarrow> string \<Rightarrow> int \<Rightarrow> line list" where
  "points_lines ty customerId points =
     (let magnitude = of_int \<bar>points\<bar>; increasesBalance = points > 0 in
      [\<lparr>ln_account = ''points_liability'', ln_direction = (if increasesBalance then CREDIT else DEBIT),
        ln_amount = magnitude, ln_customer = Some customerId\<rparr>,
       line_of (points_contra ty points) (if increasesBalance then DEBIT else CREDIT) magnitude])"

definition postPointsMovement :: "movement \<Rightarrow> string \<Rightarrow> string \<Rightarrow> string \<Rightarrow> int \<Rightarrow> unit handler" where
  "postPointsMovement ty pointsTxnId storeId customerId points =
     (if points = 0 then ret ()
      else post (''points.'' @ movement_name ty) (Some pointsTxnId) (Some storeId) POINTS_CURRENCY
        (points_lines ty customerId points))"

section \<open>Balances read from the entries\<close>

definition creditsMinusDebits :: "entry_row list \<Rightarrow> decimal" where
  "creditsMinusDebits es =
     sum_list (map e_amount (filter (\<lambda>e. e_direction e = CREDIT) es)) -
     sum_list (map e_amount (filter (\<lambda>e. e_direction e = DEBIT) es))"

definition is_liability :: "entry_row \<Rightarrow> bool" where
  "is_liability e \<longleftrightarrow> e_account e = ''points_liability'' \<and> e_currency e = POINTS_CURRENCY"

definition pointsBalanceFor :: "string \<Rightarrow> db \<Rightarrow> decimal" where
  "pointsBalanceFor customerId s =
     creditsMinusDebits (rows_where (\<lambda>e. e_customer e = Some customerId \<and> is_liability e) (entries s))"

definition pointsLiabilityFor :: "string option \<Rightarrow> db \<Rightarrow> decimal" where
  "pointsLiabilityFor storeId s =
     creditsMinusDebits (rows_where (\<lambda>e. is_liability e \<and>
       (case storeId of None \<Rightarrow> True | Some st \<Rightarrow> e_store e = Some st)) (entries s))"

section \<open>What a posting writes\<close>

definition entry_of :: "string \<Rightarrow> string option \<Rightarrow> string \<Rightarrow> string \<Rightarrow> line \<Rightarrow> entry_row" where
  "entry_of journal store cur i l =
     \<lparr>e_id = i, e_journal = journal, e_account = ln_account l, e_store = store,
      e_customer = ln_customer l, e_direction = ln_direction l, e_amount = ln_amount l, e_currency = cur\<rparr>"

lemma entry_of_fields [simp]:
  "e_id (entry_of j st cur i l) = i" "e_journal (entry_of j st cur i l) = j"
  "e_account (entry_of j st cur i l) = ln_account l" "e_store (entry_of j st cur i l) = st"
  "e_customer (entry_of j st cur i l) = ln_customer l"
  "e_direction (entry_of j st cur i l) = ln_direction l"
  "e_amount (entry_of j st cur i l) = ln_amount l" "e_currency (entry_of j st cur i l) = cur"
  by (simp_all add: entry_of_def)

lemma bindM_create_line [op_simps]: "bindM (create_line j st cur l) f s =
    (let i = ''led_'' @ rnd s (draws s); u = s\<lparr>draws := Suc (draws s)\<rparr> in
     if exists_by (entry_clash (entry_of j st cur i l)) (entries s) then (Inl P2002, u)
     else f () (u\<lparr>entries := entries s @ [entry_of j st cur i l]\<rparr>))"
  by (simp add: create_line_def op_simps entry_of_def Let_def)

lemma create_lines:
  "forM ls (create_line j st cur) s = (Inr (), t) \<Longrightarrow>
   \<exists>ids n. length ids = length ls \<and>
     t = s\<lparr>entries := entries s @ map2 (entry_of j st cur) ids ls, draws := n\<rparr>"
proof (induction ls arbitrary: s)
  case Nil
  then have "t = s" by (simp add: op_simps)
  then show ?case by (intro exI [of _ "[]"] exI [of _ "draws s"]) simp
next
  case (Cons l ls)
  let ?i = "''led_'' @ rnd s (draws s)"
  let ?u = "s\<lparr>draws := Suc (draws s), entries := entries s @ [entry_of j st cur ?i l]\<rparr>"
  have "forM ls (create_line j st cur) ?u = (Inr (), t)"
    using Cons.prems by (simp add: op_simps Let_def split: if_splits)
  from Cons.IH [OF this] obtain ids n where ih: "length ids = length ls"
      "t = ?u\<lparr>entries := entries ?u @ map2 (entry_of j st cur) ids ls, draws := n\<rparr>"
    by blast
  then have "length (?i # ids) = length (l # ls) \<and>
      t = s\<lparr>entries := entries s @ map2 (entry_of j st cur) (?i # ids) (l # ls), draws := n\<rparr>"
    by simp
  then show ?case by blast
qed

definition journal_of :: "string \<Rightarrow> string option \<Rightarrow> string option \<Rightarrow> string \<Rightarrow> string \<Rightarrow> journal_row" where
  "journal_of event reference store cur i =
     \<lparr>j_id = i, j_event = event, j_reference = reference, j_store = store, j_currency = cur\<rparr>"

lemma journal_of_fields [simp]:
  "j_id (journal_of ev ref st cur i) = i" "j_event (journal_of ev ref st cur i) = ev"
  "j_reference (journal_of ev ref st cur i) = ref" "j_store (journal_of ev ref st cur i) = st"
  "j_currency (journal_of ev ref st cur i) = cur"
  by (simp_all add: journal_of_def)

text \<open>The state after a journal is created.\<close>

definition with_journal :: "journal_row \<Rightarrow> string list \<Rightarrow> line list \<Rightarrow> nat \<Rightarrow> db \<Rightarrow> db" where
  "with_journal j ids ls n s =
     s\<lparr>journals := journals s @ [j],
       entries := entries s @ map2 (entry_of (j_id j) (j_store j) (j_currency j)) ids ls, draws := n\<rparr>"

lemma create_journal_Inr:
  assumes "create_journal ev ref st cur ls s = (Inr (), t)"
  obtains i ids n where "length ids = length ls"
    and "\<not> exists_by (journal_clash (journal_of ev ref st cur i)) (journals s)"
    and "t = with_journal (journal_of ev ref st cur i) ids ls n s"
proof -
  let ?i = "''jrn_'' @ rnd s (draws s)"
  let ?j = "journal_of ev ref st cur ?i"
  let ?u = "s\<lparr>draws := Suc (draws s), journals := journals s @ [?j]\<rparr>"
  have fresh: "\<not> exists_by (journal_clash ?j) (journals s)"
    and lines: "forM ls (create_line ?i st cur) ?u = (Inr (), t)"
    using assms by (auto simp: create_journal_def transaction_Inr op_simps journal_of_def split: if_splits)
  from create_lines [OF lines] obtain ids n where "length ids = length ls"
      "t = ?u\<lparr>entries := entries ?u @ map2 (entry_of ?i st cur) ids ls, draws := n\<rparr>"
    by blast
  then show ?thesis using that [of ids ?i n] fresh by (simp add: with_journal_def)
qed

lemma create_journal_error: "create_journal ev ref st cur ls s = (Inl e, t) \<Longrightarrow> t = s"
  unfolding create_journal_def by (rule transaction_error)

lemma forM_create_line_P2002: "forM ls (create_line j st cur) s = (Inl e, t) \<Longrightarrow> e = P2002"
  by (induction ls arbitrary: s) (auto simp: op_simps Let_def split: if_splits)

lemma create_journal_P2002: "create_journal ev ref st cur ls s = (Inl e, t) \<Longrightarrow> e = P2002"
  by (auto simp: create_journal_def transaction_def op_simps split: if_splits prod.splits sum.splits
      dest: forM_create_line_P2002)

text \<open>A posting either leaves the database as it is, or adds one journal with its lines.\<close>

lemma post_cases:
  assumes "post ev ref st cur ls s = (r, t)"
  obtains (refused) m where "line_sum DEBIT (map round_line ls) \<noteq> line_sum CREDIT (map round_line ls)"
      and "r = Inl (internal m)" and "t = s"
    | (skipped) "line_sum DEBIT (map round_line ls) = line_sum CREDIT (map round_line ls)"
      and "r = Inr ()" and "t = s"
    | (posted) i ids n where "line_sum DEBIT (map round_line ls) = line_sum CREDIT (map round_line ls)"
      and "0 < line_sum DEBIT (map round_line ls)" and "r = Inr ()" and "length ids = length ls"
      and "\<not> exists_by (journal_clash (journal_of ev ref st cur i)) (journals s)"
      and "t = with_journal (journal_of ev ref st cur i) ids (map round_line ls) n s"
proof (cases "line_sum DEBIT (map round_line ls) = line_sum CREDIT (map round_line ls)")
  case False
  then show ?thesis using assms refused by (auto simp: post_def Let_def op_simps)
next
  case bal: True
  show ?thesis
  proof (cases "line_sum DEBIT (map round_line ls) \<le> 0")
    case True
    then have "(r, t) = (Inr (), s)" using assms bal by (simp add: post_def Let_def op_simps)
    then have "r = Inr ()" "t = s" by simp_all
    then show ?thesis using bal skipped by blast
  next
    case pos: False
    obtain r' u where c: "create_journal ev ref st cur (map round_line ls) s = (r', u)"
      by (cases "create_journal ev ref st cur (map round_line ls) s")
    have p: "post ev ref st cur ls s = (case r' of Inl e \<Rightarrow> (if e = P2002 then ret () else throw e) u | Inr a \<Rightarrow> (Inr a, u))"
      using bal pos c by (simp add: post_def Let_def catchM_def)
    show ?thesis
    proof (cases r')
      case (Inl e)
      with c have "u = s" "e = P2002" by (auto dest: create_journal_error create_journal_P2002)
      with p Inl assms have "r = Inr ()" "t = s" by (simp_all add: op_simps)
      then show ?thesis using bal skipped by blast
    next
      case (Inr a)
      with c have "create_journal ev ref st cur (map round_line ls) s = (Inr (), u)" by simp
      then obtain i ids n where "length ids = length (map round_line ls)"
        "\<not> exists_by (journal_clash (journal_of ev ref st cur i)) (journals s)"
        "u = with_journal (journal_of ev ref st cur i) ids (map round_line ls) n s"
        by (rule create_journal_Inr)
      moreover have "r = Inr ()" "t = u" using p Inr assms by simp_all
      ultimately show ?thesis using posted bal pos by simp
    qed
  qed
qed

lemma post_other_tables:
  "post ev ref st cur ls s = (r, t) \<Longrightarrow> \<exists>js es n. t = s\<lparr>journals := js, entries := es, draws := n\<rparr>"
proof (erule post_cases)
  assume "t = s"
  then show ?thesis by (intro exI [of _ "journals s"] exI [of _ "entries s"] exI [of _ "draws s"]) simp
next
  assume "t = s"
  then show ?thesis by (intro exI [of _ "journals s"] exI [of _ "entries s"] exI [of _ "draws s"]) simp
qed (auto simp: with_journal_def)

lemma keeps_post:
  assumes "\<And>s js es n. P s \<Longrightarrow> P (s\<lparr>journals := js, entries := es, draws := n\<rparr>)"
  shows "keeps P (post ev ref st cur ls)"
proof (rule keepsI)
  fix s assume "P s"
  obtain r t where p: "post ev ref st cur ls s = (r, t)" by (cases "post ev ref st cur ls s")
  then show "P (snd (post ev ref st cur ls s))" using assms [OF \<open>P s\<close>] post_other_tables [OF p] by auto
qed


section \<open>Every journal balances\<close>

text \<open>The signed amount of an entry, and the entries of a journal.\<close>

definition signed :: "entry_row \<Rightarrow> decimal" where
  "signed e = (if e_direction e = CREDIT then e_amount e else - e_amount e)"

definition entry_total :: "(entry_row \<Rightarrow> bool) \<Rightarrow> entry_row list \<Rightarrow> decimal" where
  "entry_total p es = sum_list (map signed (filter p es))"

lemma entry_total_simps [simp]:
  "entry_total p [] = 0"
  "entry_total p (e # es) = (if p e then signed e else 0) + entry_total p es"
  "entry_total p (es @ fs) = entry_total p es + entry_total p fs"
  by (simp_all add: entry_total_def)

lemma entry_total_none: "\<forall>e \<in> set es. \<not> p e \<Longrightarrow> entry_total p es = 0"
  by (induction es) auto

lemma entry_total_cong: "(\<And>e. e \<in> set es \<Longrightarrow> p e = q e) \<Longrightarrow> entry_total p es = entry_total q es"
  by (induction es) auto

lemma creditsMinusDebits_signed: "creditsMinusDebits es = sum_list (map signed es)"
proof (induction es)
  case Nil
  then show ?case by (simp add: creditsMinusDebits_def)
next
  case (Cons e es)
  then show ?case by (cases "e_direction e") (simp_all add: creditsMinusDebits_def signed_def)
qed

lemma creditsMinusDebits_rows: "creditsMinusDebits (rows_where p es) = entry_total p es"
  by (simp add: creditsMinusDebits_signed rows_where_def entry_total_def)

lemma entries_of_lines:
  "length ids = length ls \<Longrightarrow>
   entry_total (\<lambda>_. True) (map2 (entry_of j st cur) ids ls) = line_sum CREDIT ls - line_sum DEBIT ls"
proof (induction ids ls rule: list_induct2)
  case Nil
  then show ?case by (simp add: line_sum_def)
next
  case (Cons i ids l ls)
  then show ?case by (cases "ln_direction l") (simp_all add: line_sum_def signed_def)
qed

definition journal_balanced :: "db \<Rightarrow> journal_row \<Rightarrow> bool" where
  "journal_balanced s j \<longleftrightarrow> entry_total (\<lambda>e. e_journal e = j_id j) (entries s) = 0"

definition heads :: "entry_row \<Rightarrow> journal_row \<Rightarrow> bool" where
  "heads e j \<longleftrightarrow> j_id j = e_journal e \<and> j_store j = e_store e \<and> j_currency j = e_currency e"

definition books_ok :: "db \<Rightarrow> bool" where
  "books_ok s \<longleftrightarrow> keyed j_id (journals s) \<and>
     list_all (\<lambda>e. exists_by (heads e) (journals s) \<and> scaled 4 (e_amount e)) (entries s) \<and>
     list_all (journal_balanced s) (journals s)"

lemma map2_all: "length ids = length ls \<Longrightarrow> (\<And>i l. l \<in> set ls \<Longrightarrow> P (f i l)) \<Longrightarrow> list_all P (map2 f ids ls)"
  by (induction ids ls rule: list_induct2) auto

lemma books_ok_with_journal:
  assumes ok: "books_ok s" and ids: "length ids = length ls"
    and fresh: "\<not> exists_by (journal_clash j) (journals s)"
    and bal: "line_sum DEBIT ls = line_sum CREDIT ls" and sc: "\<And>l. l \<in> set ls \<Longrightarrow> scaled 4 (ln_amount l)"
  shows "books_ok (with_journal j ids ls n s)"
proof -
  let ?t = "with_journal j ids ls n s"
  let ?new = "map2 (entry_of (j_id j) (j_store j) (j_currency j)) ids ls"
  have js: "journals ?t = journals s @ [j]" and es: "entries ?t = entries s @ ?new"
    by (simp_all add: with_journal_def)
  have newj: "\<forall>x \<in> set (journals s). j_id x \<noteq> j_id j"
    using fresh by (auto simp: exists_by_iff journal_clash_def)
  have new: "list_all (\<lambda>e. e_journal e = j_id j \<and> heads e j \<and> scaled 4 (e_amount e)) ?new"
    using sc by (intro map2_all ids) (simp add: heads_def)
  have old: "\<forall>e \<in> set (entries s). e_journal e \<noteq> j_id j"
    using ok newj by (fastforce simp: books_ok_def list_all_iff exists_by_iff heads_def)
  have k: "keyed j_id (journals ?t)"
    using ok newj by (auto simp: js books_ok_def keyed_append_one exists_by_iff)
  have e: "list_all (\<lambda>e. exists_by (heads e) (journals ?t) \<and> scaled 4 (e_amount e)) (entries ?t)"
    using ok new by (auto simp: js es books_ok_def list_all_iff)
  have "journal_balanced ?t j"
  proof -
    have "entry_total (\<lambda>e. e_journal e = j_id j) ?new = entry_total (\<lambda>_. True) ?new"
      by (rule entry_total_cong) (use new in \<open>unfold list_all_iff, blast\<close>)
    then show ?thesis using old ids bal
      by (simp add: journal_balanced_def es entry_total_none entries_of_lines)
  qed
  moreover have "journal_balanced ?t x" if "x \<in> set (journals s)" for x
  proof -
    have "\<forall>e \<in> set ?new. e_journal e \<noteq> j_id x" using new newj that by (auto simp: list_all_iff)
    then show ?thesis using ok that
      by (simp add: journal_balanced_def es entry_total_none books_ok_def list_all_iff)
  qed
  ultimately have "list_all (journal_balanced ?t) (journals ?t)" by (auto simp: js list_all_iff)
  with k e show ?thesis unfolding books_ok_def by blast
qed

lemma round_line_scaled: "l \<in> set (map round_line ls) \<Longrightarrow> scaled 4 (ln_amount l)"
  by (auto simp: round_line_def)

lemma post_keeps_books: "keeps books_ok (post ev ref st cur ls)"
proof (rule keepsI)
  fix s assume ok: "books_ok s"
  obtain r t where p: "post ev ref st cur ls s = (r, t)" by (cases "post ev ref st cur ls s")
  then show "books_ok (snd (post ev ref st cur ls s))"
  proof (cases rule: post_cases)
    case (posted i ids n)
    then show ?thesis using ok p round_line_scaled
      by (simp only: snd_conv) (intro books_ok_with_journal, simp_all)
  qed (use ok p in simp_all)
qed

section \<open>Each event is posted once\<close>

text \<open>
  The random strings of the sequence are distinct and not used as an identifier yet: what the
  services rely on for the identifiers they draw.
\<close>

definition fresh_ids :: "db \<Rightarrow> bool" where
  "fresh_ids s \<longleftrightarrow> inj (rnd s) \<and>
     (\<forall>n \<ge> draws s.
        (\<forall>j \<in> set (journals s). j_id j \<noteq> ''jrn_'' @ rnd s n \<and> j_reference j \<noteq> Some (''pts_'' @ rnd s n)) \<and>
        (\<forall>e \<in> set (entries s). e_id e \<noteq> ''led_'' @ rnd s n) \<and>
        (\<forall>t \<in> set (points_txns s). pt_id t \<noteq> ''pts_'' @ rnd s n))"

lemma fresh_idsD:
  assumes "fresh_ids s" and "draws s \<le> n"
  shows "j \<in> set (journals s) \<Longrightarrow> j_id j \<noteq> ''jrn_'' @ rnd s n"
    and "j \<in> set (journals s) \<Longrightarrow> j_reference j \<noteq> Some (''pts_'' @ rnd s n)"
    and "e \<in> set (entries s) \<Longrightarrow> e_id e \<noteq> ''led_'' @ rnd s n"
    and "x \<in> set (points_txns s) \<Longrightarrow> pt_id x \<noteq> ''pts_'' @ rnd s n"
  using assms unfolding fresh_ids_def by blast+

lemma fresh_ids_later: "fresh_ids s \<Longrightarrow> Suc m \<le> n \<Longrightarrow> rnd s m \<noteq> rnd s n"
  unfolding fresh_ids_def inj_def by (metis Suc_n_not_le_n)

lemma fresh_ids_draws: "fresh_ids s \<Longrightarrow> draws s \<le> n \<Longrightarrow> fresh_ids (s\<lparr>draws := n\<rparr>)"
  by (auto simp: fresh_ids_def)

lemma create_lines_fresh:
  assumes "fresh_ids s"
  shows "\<exists>ids n. forM ls (create_line j st cur) s =
      (Inr (), s\<lparr>entries := entries s @ map2 (entry_of j st cur) ids ls, draws := n\<rparr>) \<and>
      length ids = length ls \<and>
      fresh_ids (s\<lparr>entries := entries s @ map2 (entry_of j st cur) ids ls, draws := n\<rparr>)"
  using assms
proof (induction ls arbitrary: s)
  case Nil
  then show ?case by (intro exI [of _ "[]"] exI [of _ "draws s"]) (simp add: op_simps)
next
  case (Cons l ls)
  let ?i = "''led_'' @ rnd s (draws s)"
  let ?u = "s\<lparr>draws := Suc (draws s), entries := entries s @ [entry_of j st cur ?i l]\<rparr>"
  have no: "\<not> exists_by (entry_clash (entry_of j st cur ?i l)) (entries s)"
    unfolding exists_by_iff entry_clash_def entry_of_fields
    using fresh_idsD(3) [OF Cons.prems order_refl] by metis
  have "fresh_ids ?u" using Cons.prems fresh_ids_later [OF Cons.prems]
    by (auto simp: fresh_ids_def)
  from Cons.IH [OF this] obtain ids n where ih:
      "forM ls (create_line j st cur) ?u =
        (Inr (), ?u\<lparr>entries := entries ?u @ map2 (entry_of j st cur) ids ls, draws := n\<rparr>)"
      "length ids = length ls"
      "fresh_ids (?u\<lparr>entries := entries ?u @ map2 (entry_of j st cur) ids ls, draws := n\<rparr>)"
    by blast
  have st: "?u\<lparr>entries := entries ?u @ map2 (entry_of j st cur) ids ls, draws := n\<rparr> =
      s\<lparr>entries := entries s @ map2 (entry_of j st cur) (?i # ids) (l # ls), draws := n\<rparr>"
    by simp
  have "forM (l # ls) (create_line j st cur) s = forM ls (create_line j st cur) ?u"
    using no by (simp add: op_simps Let_def)
  then show ?case using ih unfolding st
    by (intro exI [of _ "?i # ids"] exI [of _ n]) simp
qed

text \<open>With fresh identifiers, an event that has no journal yet and balances is journaled.\<close>

lemma post_fresh:
  assumes f: "fresh_ids s"
    and bal: "line_sum DEBIT (map round_line ls) = line_sum CREDIT (map round_line ls)"
    and pos: "0 < line_sum DEBIT (map round_line ls)"
    and new: "\<not> exists_by (\<lambda>j. j_event j = ev \<and> j_reference j = Some ref) (journals s)"
    and ref: "\<And>n. draws s \<le> n \<Longrightarrow> ref \<noteq> ''pts_'' @ rnd s n"
  obtains i ids n where
    "post ev (Some ref) st cur ls s =
       (Inr (), with_journal (journal_of ev (Some ref) st cur i) ids (map round_line ls) n s)"
    "length ids = length ls"
    "fresh_ids (with_journal (journal_of ev (Some ref) st cur i) ids (map round_line ls) n s)"
proof -
  let ?i = "''jrn_'' @ rnd s (draws s)"
  let ?j = "journal_of ev (Some ref) st cur ?i"
  let ?u = "s\<lparr>draws := Suc (draws s), journals := journals s @ [?j]\<rparr>"
  have no: "\<not> exists_by (journal_clash ?j) (journals s)"
    using new fresh_idsD(1) [OF f order_refl]
    unfolding exists_by_iff journal_clash_def journal_of_fields by metis
  have "fresh_ids ?u" using f ref fresh_ids_later [OF f] by (auto simp: fresh_ids_def)
  from create_lines_fresh [OF this, of "map round_line ls" ?i st cur] obtain ids n where c:
      "forM (map round_line ls) (create_line ?i st cur) ?u =
        (Inr (), ?u\<lparr>entries := entries ?u @ map2 (entry_of ?i st cur) ids (map round_line ls), draws := n\<rparr>)"
      "length ids = length (map round_line ls)"
      "fresh_ids (?u\<lparr>entries := entries ?u @ map2 (entry_of ?i st cur) ids (map round_line ls), draws := n\<rparr>)"
    by blast
  have w: "?u\<lparr>entries := entries ?u @ map2 (entry_of ?i st cur) ids (map round_line ls), draws := n\<rparr> =
      with_journal ?j ids (map round_line ls) n s"
    by (simp add: with_journal_def)
  have "create_journal ev (Some ref) st cur (map round_line ls) s = (Inr (), with_journal ?j ids (map round_line ls) n s)"
  proof -
    have "create_journal ev (Some ref) st cur (map round_line ls) s = (Inr (), x) \<longleftrightarrow>
        forM (map round_line ls) (create_line ?i st cur) ?u = (Inr (), x)" for x
      unfolding create_journal_def transaction_Inr using no by (simp add: op_simps journal_of_def)
    then show ?thesis using c(1) unfolding w by blast
  qed
  then have "post ev (Some ref) st cur ls s = (Inr (), with_journal ?j ids (map round_line ls) n s)"
    using bal pos by (simp add: post_def Let_def catchM_def)
  then show ?thesis using that c(2,3) unfolding w by simp
qed

lemma post_repeated:
  assumes "exists_by (\<lambda>j. j_event j = ev \<and> j_reference j = Some ref) (journals s)"
  shows "snd (post ev (Some ref) st cur ls s) = s"
proof -
  obtain r t where p: "post ev (Some ref) st cur ls s = (r, t)"
    by (cases "post ev (Some ref) st cur ls s")
  then show ?thesis
  proof (cases rule: post_cases)
    case (posted i ids n)
    then show ?thesis using assms by (auto simp: journal_clash_def exists_by_iff)
  qed (use p in simp_all)
qed

section \<open>When the journal of a payment balances\<close>

definition half_unit :: "decimal \<Rightarrow> bool" where
  "half_unit x \<longleftrightarrow> x * pow10 4 - of_int \<lfloor>x * pow10 4\<rfloor> = 1 / 2"

lemma split_rounding:
  assumes "scaled 4 g" and "0 \<le> x" and "x \<le> g"
  shows "to_dp 4 x + to_dp 4 (g - x) = (if half_unit x then g + 1 / pow10 4 else g)"
proof -
  from assms(1) obtain n where g: "g = of_int n / pow10 4" by (rule scaledE)
  have x: "0 \<le> x * pow10 4" "x * pow10 4 \<le> of_int n"
    using assms(2,3) by (simp_all add: g pos_le_divide_eq less_imp_le)
  have gx: "(g - x) * pow10 4 = of_int n - x * pow10 4"
    by (simp add: g left_diff_distrib)
  have "to_dp 4 x + to_dp 4 (g - x) =
      of_int (round_half_up (x * pow10 4) + round_half_up (of_int n - x * pow10 4)) / pow10 4"
    unfolding to_dp_def gx by (simp add: add_divide_distrib)
  moreover have "round_half_up (x * pow10 4) + round_half_up (of_int n - x * pow10 4) =
      (if half_unit x then n + 1 else n)"
    using round_half_up_split [OF x] round_half_up_split_half [OF x] by (simp add: half_unit_def)
  ultimately show ?thesis by (simp only:) (simp add: g add_divide_distrib)
qed

lemma fee_of_bounds: "0 \<le> g \<Longrightarrow> 0 \<le> bps \<Longrightarrow> bps \<le> 10000 \<Longrightarrow> 0 \<le> fee_of g bps \<and> fee_of g bps \<le> g"
proof -
  assume g: "0 \<le> g" and b: "0 \<le> bps" "bps \<le> 10000"
  have "(of_int bps :: rat) \<le> of_int 10000" using b(2) by (simp only: of_int_le_iff)
  then have "g * of_int bps \<le> g * 10000" using g by (intro mult_left_mono) simp_all
  then show ?thesis using g b(1) by (simp add: fee_of_def)
qed

lemma captured_sums:
  assumes "scaled 4 g" and "0 \<le> g" and "0 \<le> bps" and "bps \<le> 10000"
  shows "line_sum DEBIT (map round_line (captured_lines g bps)) = g"
    and "line_sum CREDIT (map round_line (captured_lines g bps)) =
      (if half_unit (fee_of g bps) then g + 1 / pow10 4 else g)"
  using split_rounding [OF assms(1), of "fee_of g bps"] fee_of_bounds [OF assms(2-4)] to_dp_scaled [OF assms(1)]
  by (simp_all add: captured_lines_def Let_def line_sum_def line_of_def round_line_def add.commute)

lemma refund_sums:
  assumes "scaled 4 g" and "0 \<le> g" and "0 \<le> bps" and "bps \<le> 10000"
  shows "line_sum CREDIT (map round_line (refund_lines g bps)) = g"
    and "line_sum DEBIT (map round_line (refund_lines g bps)) =
      (if half_unit (fee_of g bps) then g + 1 / pow10 4 else g)"
  using split_rounding [OF assms(1), of "fee_of g bps"] fee_of_bounds [OF assms(2-4)] to_dp_scaled [OF assms(1)]
  by (simp_all add: refund_lines_def Let_def line_sum_def line_of_def round_line_def add.commute)

lemma post_refused_iff:
  "(\<exists>m. post ev ref st cur ls s = (Inl (internal m), s)) \<longleftrightarrow>
   line_sum DEBIT (map round_line ls) \<noteq> line_sum CREDIT (map round_line ls)"
proof -
  obtain r t where p: "post ev ref st cur ls s = (r, t)" by (cases "post ev ref st cur ls s")
  then show ?thesis by (cases rule: post_cases) (use p in simp_all)
qed

section \<open>The points ledger\<close>

lemma points_lines_rounded:
  "map round_line (points_lines ty c n) = points_lines ty c n"
  "line_sum DEBIT (points_lines ty c n) = of_int \<bar>n\<bar>"
  "line_sum CREDIT (points_lines ty c n) = of_int \<bar>n\<bar>"
proof -
  have "to_dp 4 (of_int \<bar>n\<bar>) = of_int \<bar>n\<bar>" by (rule to_dp_scaled) (rule scaled_of_int)
  then show "map round_line (points_lines ty c n) = points_lines ty c n"
    by (simp add: points_lines_def Let_def round_line_def line_of_def)
qed (simp_all add: points_lines_def Let_def line_sum_def line_of_def)

lemma pointsBalanceFor_total:
  "pointsBalanceFor c s = entry_total (\<lambda>e. e_customer e = Some c \<and> is_liability e) (entries s)"
  by (simp add: pointsBalanceFor_def creditsMinusDebits_rows)

lemma pointsLiabilityFor_total:
  "pointsLiabilityFor st s = entry_total (\<lambda>e. is_liability e \<and>
     (case st of None \<Rightarrow> True | Some x \<Rightarrow> e_store e = Some x)) (entries s)"
  by (simp add: pointsLiabilityFor_def creditsMinusDebits_rows)

lemma points_entries_total:
  assumes "length ids = length (points_lines ty c n)"
  shows "entry_total (\<lambda>e. e_customer e = Some d \<and> is_liability e)
      (map2 (entry_of j st POINTS_CURRENCY) ids (points_lines ty c n)) = (if d = c then of_int n else 0)"
proof -
  from assms obtain i k where ids: "ids = [i, k]"
    by (auto simp: points_lines_def Let_def numeral_eq_Suc length_Suc_conv)
  show ?thesis
    by (auto simp: ids points_lines_def Let_def is_liability_def signed_def line_of_def POINTS_CURRENCY_def)
qed

lemma points_contra_not_liability: "points_contra ty n \<noteq> ''points_liability''"
  by (simp add: points_contra_def)

lemma points_movement_fresh:
  assumes "fresh_ids s" and "n \<noteq> 0"
    and "\<not> exists_by (\<lambda>j. j_event j = ''points.'' @ movement_name ty \<and> j_reference j = Some x) (journals s)"
    and "\<And>k. draws s \<le> k \<Longrightarrow> x \<noteq> ''pts_'' @ rnd s k"
  obtains js es k where
    "postPointsMovement ty x st c n s = (Inr (), s\<lparr>journals := js, entries := es, draws := k\<rparr>)"
    "\<And>d. pointsBalanceFor d (s\<lparr>journals := js, entries := es, draws := k\<rparr>) =
       pointsBalanceFor d s + (if d = c then of_int n else 0)"
    "fresh_ids (s\<lparr>journals := js, entries := es, draws := k\<rparr>)"
proof -
  have "line_sum DEBIT (map round_line (points_lines ty c n)) = line_sum CREDIT (map round_line (points_lines ty c n))"
    "0 < line_sum DEBIT (map round_line (points_lines ty c n))"
    using assms(2) by (simp_all add: points_lines_rounded)
  from post_fresh [OF assms(1) this assms(3,4), of "Some st" POINTS_CURRENCY] obtain i ids k where p:
    "post (''points.'' @ movement_name ty) (Some x) (Some st) POINTS_CURRENCY (points_lines ty c n) s =
      (Inr (), with_journal (journal_of (''points.'' @ movement_name ty) (Some x) (Some st) POINTS_CURRENCY i)
        ids (points_lines ty c n) k s)"
    "length ids = length (points_lines ty c n)"
    "fresh_ids (with_journal (journal_of (''points.'' @ movement_name ty) (Some x) (Some st) POINTS_CURRENCY i)
        ids (points_lines ty c n) k s)"
    unfolding points_lines_rounded(1) by blast
  show ?thesis
  proof (rule that)
    show "postPointsMovement ty x st c n s =
        (Inr (), s\<lparr>journals := journals s @ [journal_of (''points.'' @ movement_name ty) (Some x) (Some st) POINTS_CURRENCY i],
          entries := entries s @ map2 (entry_of i (Some st) POINTS_CURRENCY) ids (points_lines ty c n), draws := k\<rparr>)"
      using p(1) assms(2) by (simp add: postPointsMovement_def with_journal_def)
  next
    show "pointsBalanceFor d (s\<lparr>journals := journals s @ [journal_of (''points.'' @ movement_name ty) (Some x) (Some st) POINTS_CURRENCY i],
          entries := entries s @ map2 (entry_of i (Some st) POINTS_CURRENCY) ids (points_lines ty c n), draws := k\<rparr>) =
        pointsBalanceFor d s + (if d = c then of_int n else 0)" for d
      using points_entries_total [OF p(2)] by (simp add: pointsBalanceFor_total)
  next
    show "fresh_ids (s\<lparr>journals := journals s @ [journal_of (''points.'' @ movement_name ty) (Some x) (Some st) POINTS_CURRENCY i],
          entries := entries s @ map2 (entry_of i (Some st) POINTS_CURRENCY) ids (points_lines ty c n), draws := k\<rparr>)"
      using p(3) by (simp add: with_journal_def)
  qed
qed

text \<open>Every entry on the liability names its customer, so the account is the sum of its holders.\<close>

definition liability_tagged :: "db \<Rightarrow> bool" where
  "liability_tagged s \<longleftrightarrow> list_all (\<lambda>e. is_liability e \<longrightarrow> e_customer e \<noteq> None) (entries s)"

definition holders :: "db \<Rightarrow> string list" where
  "holders s = remdups (map (\<lambda>e. the (e_customer e)) (filter (\<lambda>e. e_customer e \<noteq> None) (entries s)))"

lemma sum_list_indicator:
  "distinct cs \<Longrightarrow> c \<in> set cs \<Longrightarrow> sum_list (map (\<lambda>d. if d = c then x else 0) cs) = (x :: rat)"
proof (induction cs)
  case (Cons d cs)
  have "c \<notin> set ds \<Longrightarrow> sum_list (map (\<lambda>d. if d = c then x else 0) ds) = 0" for ds
    by (induction ds) auto
  with Cons show ?case by (cases "d = c") simp_all
qed simp

lemma entry_total_by_key:
  assumes "distinct ks" and "list_all (\<lambda>e. p e \<longrightarrow> k e \<in> set ks) es"
  shows "entry_total p es = sum_list (map (\<lambda>x. entry_total (\<lambda>e. k e = x \<and> p e) es) ks)"
  using assms(2)
proof (induction es)
  case Nil
  then show ?case by simp
next
  case (Cons e es)
  have "sum_list (map (\<lambda>x. if k e = x \<and> p e then signed e else 0) ks) = (if p e then signed e else 0)"
  proof (cases "p e")
    case True
    with Cons.prems have "sum_list (map (\<lambda>x. if x = k e then signed e else 0) ks) = signed e"
      using assms(1) by (intro sum_list_indicator) simp_all
    moreover have "(\<lambda>x. if k e = x \<and> p e then signed e else 0) = (\<lambda>x. if x = k e then signed e else 0)"
      using True by auto
    ultimately show ?thesis using True by simp
  qed simp
  with Cons show ?case by (simp add: sum_list_addf)
qed

lemma holders_cover: "liability_tagged s \<Longrightarrow>
    list_all (\<lambda>e. is_liability e \<longrightarrow> e_customer e \<in> set (map Some (holders s))) (entries s)"
proof -
  have "e_customer e \<in> set (map Some (holders s))" if "e \<in> set (entries s)" "e_customer e \<noteq> None" for e
    using that by (force simp: holders_def)
  then show "liability_tagged s \<Longrightarrow> ?thesis" unfolding liability_tagged_def list_all_iff by blast
qed

lemma points_movement_tagged: "liability_tagged s \<Longrightarrow> liability_tagged (snd (postPointsMovement ty x st c n s))"
proof -
  assume t: "liability_tagged s"
  obtain r u where p: "post (''points.'' @ movement_name ty) (Some x) (Some st) POINTS_CURRENCY (points_lines ty c n) s = (r, u)"
    by (cases "post (''points.'' @ movement_name ty) (Some x) (Some st) POINTS_CURRENCY (points_lines ty c n) s")
  then have "liability_tagged u"
  proof (cases rule: post_cases)
    case (posted i ids k)
    have "list_all (\<lambda>e. is_liability e \<longrightarrow> e_customer e \<noteq> None)
        (map2 (entry_of i (Some st) POINTS_CURRENCY) ids (points_lines ty c n))"
      using posted(4) points_contra_not_liability [of ty n]
      by (intro map2_all) (auto simp: points_lines_def Let_def is_liability_def line_of_def)
    then show ?thesis using t posted(6) by (simp add: liability_tagged_def with_journal_def points_lines_rounded(1))
  qed (use t in simp_all)
  then show ?thesis using t p by (simp add: postPointsMovement_def op_simps)
qed

section \<open>Properties\<close>

text \<open>C5: \<open>post\<close> keeps the books: whatever the lines and whatever the outcome, journal
  identifiers stay unique, every entry belongs to a journal of its store and currency and has at
  most four decimals, and in every journal the debits equal the credits exactly.\<close>

theorem post_balanced_books:
  assumes "books_ok s"
  shows "books_ok (snd (post event reference store cur lines s))"
  by (rule keepsD [OF post_keeps_books assms])

lemma books_ok_empty: "books_ok empty_db"
  by (simp add: books_ok_def empty_db_def)

lemma fresh_ids_empty: "fresh_ids empty_db"
proof -
  have "inj show_nat" by (metis injI read_show_nat)
  then show ?thesis by (simp add: fresh_ids_def empty_db_def)
qed

theorem post_balanced_books_witness:
  "books_ok (snd (post ''payment.captured'' (Some ''p'') (Some ''s'') ''USD'' (captured_lines 1 50) empty_db))"
  by (rule post_balanced_books) (rule books_ok_empty)

text \<open>An event is posted at most once: when a journal for the event and its reference is
  already there, posting it again, with any lines, changes nothing.\<close>

theorem post_idempotent:
  assumes "exists_by (\<lambda>j. j_event j = event \<and> j_reference j = Some ref) (journals s)"
  shows "snd (post event (Some ref) store cur lines s) = s"
  using assms by (rule post_repeated)

theorem post_idempotent_witness:
  "snd (post ''payout'' (Some ''x'') (Some ''s'') ''USD'' (captured_lines 1 50)
     (empty_db\<lparr>journals := [journal_of ''payout'' (Some ''x'') (Some ''s'') ''USD'' ''j'']\<rparr>)) =
   empty_db\<lparr>journals := [journal_of ''payout'' (Some ''x'') (Some ''s'') ''USD'' ''j'']\<rparr>"
  by (rule post_idempotent) simp

text \<open>The journal of a captured payment, and likewise that of a refund, is refused as
  unbalanced exactly when the fee has its fifth decimal on a half: both credit lines then round
  up, although every line is rounded before the balance is checked.\<close>

theorem captured_refused_iff:
  assumes "scaled 4 (p_amount p)" and "0 \<le> p_amount p" and "0 \<le> bps" and "bps \<le> 10000"
  shows "(\<exists>m. postPaymentCaptured p bps s = (Inl (internal m), s)) \<longleftrightarrow> half_unit (fee_of (p_amount p) bps)"
  unfolding postPaymentCaptured_def post_refused_iff captured_sums [OF assms] by simp

theorem captured_refused_iff_witness:
  "\<exists>m. postPaymentCaptured (sample_payment (101 / 100) USD) 50 empty_db = (Inl (internal m), empty_db)"
proof -
  have "(101 / 100 :: rat) = of_int 10100 / pow10 4" by (simp add: pow10_def)
  then have "scaled 4 (101 / 100)" by (metis scaled_div)
  moreover have "half_unit (fee_of (101 / 100) 50)"
    by (simp add: half_unit_def fee_of_def pow10_def floor_eq_iff)
  ultimately show ?thesis
    using captured_refused_iff [of "sample_payment (101 / 100) USD" 50 empty_db] by (simp add: sample_payment_def)
qed

text \<open>A points movement that has not been journaled yet is posted, moves the ledger balance of
  exactly that customer by exactly its signed points, and touches no table but the ledger's.\<close>

theorem points_movement_balance:
  assumes "fresh_ids s" and "points \<noteq> 0"
    and "\<not> exists_by (\<lambda>j. j_event j = ''points.'' @ movement_name ty \<and> j_reference j = Some txn) (journals s)"
    and "\<And>k. draws s \<le> k \<Longrightarrow> txn \<noteq> ''pts_'' @ rnd s k"
  shows "\<exists>js es k. postPointsMovement ty txn store c points s =
           (Inr (), s\<lparr>journals := js, entries := es, draws := k\<rparr>) \<and>
         (\<forall>d. pointsBalanceFor d (s\<lparr>journals := js, entries := es, draws := k\<rparr>) =
           pointsBalanceFor d s + (if d = c then of_int points else 0))"
  using points_movement_fresh [OF assms] by metis

theorem points_movement_balance_witness:
  "\<exists>js es k. postPointsMovement MEarn ''t1'' ''s1'' ''c1'' 5 empty_db =
      (Inr (), empty_db\<lparr>journals := js, entries := es, draws := k\<rparr>) \<and>
    (\<forall>d. pointsBalanceFor d (empty_db\<lparr>journals := js, entries := es, draws := k\<rparr>) =
      pointsBalanceFor d empty_db + (if d = ''c1'' then of_int 5 else 0))"
  by (rule points_movement_balance) (simp_all add: fresh_ids_empty, simp_all add: empty_db_def)

text \<open>The points liability of the platform is the sum of the ledger balances of its holders, as
  long as every entry on the liability account names a customer, which points movements keep.\<close>

theorem points_liability_sum:
  assumes "liability_tagged s"
  shows "pointsLiabilityFor None s = sum_list (map (\<lambda>c. pointsBalanceFor c s) (holders s)) \<and>
    liability_tagged (snd (postPointsMovement ty txn store c points s))"
proof
  have "distinct (map Some (holders s))" by (simp add: holders_def distinct_map)
  then show "pointsLiabilityFor None s = sum_list (map (\<lambda>c. pointsBalanceFor c s) (holders s))"
    using entry_total_by_key [OF _ holders_cover [OF assms]]
    by (simp add: pointsLiabilityFor_total pointsBalanceFor_total o_def)
  show "liability_tagged (snd (postPointsMovement ty txn store c points s))"
    using assms by (rule points_movement_tagged)
qed

theorem points_liability_sum_witness:
  "pointsLiabilityFor None empty_db = sum_list (map (\<lambda>c. pointsBalanceFor c empty_db) (holders empty_db)) \<and>
    liability_tagged (snd (postPointsMovement MEarn ''t1'' ''s1'' ''c1'' 5 empty_db))"
  by (rule points_liability_sum) (simp add: liability_tagged_def empty_db_def)

end
