(* ===== verification/Access.thy ===== *)
theory Access
  imports SharedTypes
begin

text \<open>
  Authorisation: the role matrix of \<open>apps/api/src/auth/rbac.ts\<close> and the deny-wins
  attribute policies of \<open>apps/api/src/auth/abac.ts\<close>.
\<close>

section \<open>Role-based permissions\<close>

datatype permission =
  StoreRead | StoreWrite | ApikeyRead | ApikeyWrite | PaymentRead | PaymentWrite
| WebhookWrite | BrandingWrite | TeamManage | BillingManage | CouponRead | CouponWrite
| GiftcardRead | GiftcardWrite | PaychainRead | PaychainWrite

fun perm_name :: "permission \<Rightarrow> string" where
  "perm_name StoreRead = ''store:read''"
| "perm_name StoreWrite = ''store:write''"
| "perm_name ApikeyRead = ''apikey:read''"
| "perm_name ApikeyWrite = ''apikey:write''"
| "perm_name PaymentRead = ''payment:read''"
| "perm_name PaymentWrite = ''payment:write''"
| "perm_name WebhookWrite = ''webhook:write''"
| "perm_name BrandingWrite = ''branding:write''"
| "perm_name TeamManage = ''team:manage''"
| "perm_name BillingManage = ''billing:manage''"
| "perm_name CouponRead = ''coupon:read''"
| "perm_name CouponWrite = ''coupon:write''"
| "perm_name GiftcardRead = ''giftcard:read''"
| "perm_name GiftcardWrite = ''giftcard:write''"
| "perm_name PaychainRead = ''paychain:read''"
| "perm_name PaychainWrite = ''paychain:write''"

record membership =
  m_org :: string
  m_role :: member_role

record auth_user =
  user_id :: string
  user_email :: string
  memberships :: "membership list"

fun ROLE_PERMISSIONS :: "member_role \<Rightarrow> permission list" where
  "ROLE_PERMISSIONS Owner =
     [StoreRead, StoreWrite, ApikeyRead, ApikeyWrite, PaymentRead, PaymentWrite, WebhookWrite,
      BrandingWrite, TeamManage, BillingManage, CouponRead, CouponWrite, GiftcardRead,
      GiftcardWrite, PaychainRead, PaychainWrite]"
| "ROLE_PERMISSIONS Developer =
     [StoreRead, ApikeyRead, ApikeyWrite, PaymentRead, PaymentWrite, WebhookWrite, CouponRead,
      CouponWrite, GiftcardRead, GiftcardWrite]"
| "ROLE_PERMISSIONS Analyst = [StoreRead, PaymentRead, CouponRead, GiftcardRead]"
| "ROLE_PERMISSIONS PlatformAdmin =
     [StoreRead, StoreWrite, ApikeyRead, PaymentRead, TeamManage, BillingManage, CouponRead,
      GiftcardRead]"

definition roleForOrg :: "auth_user \<Rightarrow> string \<Rightarrow> member_role option" where
  "roleForOrg u org = map_option m_role (find_by (\<lambda>m. m_org m = org) (memberships u))"

definition requireMembership :: "auth_user \<Rightarrow> string \<Rightarrow> exn + member_role" where
  "requireMembership u org =
     (case roleForOrg u org of
        None \<Rightarrow> Inl (forbidden ''You are not a member of this organization'')
      | Some role \<Rightarrow> Inr role)"

definition requirePermission :: "auth_user \<Rightarrow> string \<Rightarrow> permission \<Rightarrow> exn + unit" where
  "requirePermission u org p =
     (case requireMembership u org of
        Inl e \<Rightarrow> Inl e
      | Inr role \<Rightarrow>
          if List.member (ROLE_PERMISSIONS role) p then Inr ()
          else Inl (forbidden (''Your role ('' @ role_name role @ '') cannot perform: '' @ perm_name p)))"

lemma roleForOrg_member: "roleForOrg u org = Some r \<Longrightarrow> \<exists>m \<in> set (memberships u). m_org m = org \<and> m_role m = r"
  by (auto simp: roleForOrg_def dest: find_by_SomeD)

lemma requirePermission_ok:
  "requirePermission u org p = Inr () \<longleftrightarrow>
     (\<exists>r. roleForOrg u org = Some r \<and> p \<in> set (ROLE_PERMISSIONS r))"
  by (auto simp: requirePermission_def requireMembership_def split: option.split)

lemma requirePermission_error:
  "requirePermission u org p = Inl e \<Longrightarrow> http_status e = 403"
  by (auto simp: requirePermission_def requireMembership_def split: option.splits if_splits)

lemma role_permissions_owner: "set (ROLE_PERMISSIONS r) \<subseteq> set (ROLE_PERMISSIONS Owner)"
  by (cases r) auto

section \<open>Attribute-based policies\<close>

record abac_subject =
  s_user :: string
  s_role :: "member_role option"
  s_mfa :: bool

datatype resource_type = RPayment | RApiKey | RStore | RSettlement

record abac_resource =
  ar_type :: resource_type
  ar_live :: "bool option"
  ar_amount :: "rat option"
  ar_currency :: "string option"
  ar_mode :: "key_mode option"

record abac_request =
  a_subject :: abac_subject
  a_action :: string
  a_resource :: abac_resource

datatype policy_decision = Allow | Deny string string

definition HIGH_VALUE_REFUND_THRESHOLD :: rat where
  "HIGH_VALUE_REFUND_THRESHOLD = 500"

definition ends_with :: "string \<Rightarrow> string \<Rightarrow> bool" where
  "ends_with s suf \<longleftrightarrow> length suf \<le> length s \<and> drop (length s - length suf) s = suf"

definition resource_amount :: "abac_request \<Rightarrow> rat" where
  "resource_amount r = (case ar_amount (a_resource r) of None \<Rightarrow> 0 | Some a \<Rightarrow> a)"

record policy =
  pol_id :: string
  pol_applies :: "abac_request \<Rightarrow> bool"
  pol_deny :: "abac_request \<Rightarrow> string option"

definition POLICIES :: "policy list" where
  "POLICIES =
    [\<lparr>pol_id = ''high-value-refund-requires-owner'',
      pol_applies = (\<lambda>r. a_action r = ''payment:refund'' \<and> HIGH_VALUE_REFUND_THRESHOLD \<le> resource_amount r),
      pol_deny = (\<lambda>r. if s_role (a_subject r) = Some Owner then None
        else Some (''High-value refund requires the owner role; your role is '' @
          (case s_role (a_subject r) of None \<Rightarrow> ''none'' | Some role \<Rightarrow> role_name role)))\<rparr>,
     \<lparr>pol_id = ''live-store-write-excludes-analyst'',
      pol_applies = (\<lambda>r. ar_live (a_resource r) = Some True \<and>
        (ends_with (a_action r) '':write'' \<or> a_action r = ''payment:refund'')),
      pol_deny = (\<lambda>r. if s_role (a_subject r) = Some Analyst \<or> s_role (a_subject r) = None
        then Some ''Analysts cannot perform write actions on a live store.'' else None)\<rparr>,
     \<lparr>pol_id = ''live-api-key-requires-owner'',
      pol_applies = (\<lambda>r. a_action r = ''apikey:create'' \<and> ar_mode (a_resource r) = Some LiveMode),
      pol_deny = (\<lambda>r. if s_role (a_subject r) = Some Owner then None
        else Some ''Creating a live API key requires the owner role.'')\<rparr>,
     \<lparr>pol_id = ''high-value-refund-requires-mfa'',
      pol_applies = (\<lambda>r. a_action r = ''payment:refund'' \<and> ar_live (a_resource r) = Some True \<and>
        HIGH_VALUE_REFUND_THRESHOLD \<le> resource_amount r),
      pol_deny = (\<lambda>r. if s_mfa (a_subject r) then None
        else Some ''MFA must be enabled to issue high-value refunds on a live store.'')\<rparr>]"

fun evaluate_policies :: "policy list \<Rightarrow> abac_request \<Rightarrow> policy_decision" where
  "evaluate_policies [] r = Allow"
| "evaluate_policies (p # ps) r =
     (if \<not> pol_applies p r then evaluate_policies ps r
      else case pol_deny p r of
        Some reason \<Rightarrow> Deny (pol_id p) reason
      | None \<Rightarrow> evaluate_policies ps r)"

definition evaluate :: "abac_request \<Rightarrow> policy_decision" where
  "evaluate r = evaluate_policies POLICIES r"

text \<open>Deny wins: a request is allowed exactly when no applicable policy denies it.\<close>

lemma evaluate_policies_Allow:
  "evaluate_policies ps r = Allow \<longleftrightarrow> (\<forall>p \<in> set ps. pol_applies p r \<longrightarrow> pol_deny p r = None)"
  by (induction ps) (auto split: option.split)

lemma evaluate_policies_append:
  "evaluate_policies (ps @ qs) r =
     (case evaluate_policies ps r of Allow \<Rightarrow> evaluate_policies qs r | d \<Rightarrow> d)"
  by (induction ps) (auto split: option.split)

lemma high_value_refund_allowed:
  assumes "a_action r = ''payment:refund''" and "HIGH_VALUE_REFUND_THRESHOLD \<le> resource_amount r"
  shows "evaluate r = Allow \<longleftrightarrow>
     s_role (a_subject r) = Some Owner \<and> (ar_live (a_resource r) = Some True \<longrightarrow> s_mfa (a_subject r))"
  using assms by (auto simp: evaluate_def evaluate_policies_Allow POLICIES_def)

lemma live_write_role:
  assumes "evaluate r = Allow" and "ar_live (a_resource r) = Some True"
    and "ends_with (a_action r) '':write''"
  shows "s_role (a_subject r) \<noteq> Some Analyst \<and> s_role (a_subject r) \<noteq> None"
proof -
  define p where "p = POLICIES ! 1"
  have "p \<in> set POLICIES" by (simp add: p_def POLICIES_def)
  with assms(1) have "pol_applies p r \<longrightarrow> pol_deny p r = None"
    by (simp add: evaluate_def evaluate_policies_Allow)
  with assms(2,3) show ?thesis by (auto simp: p_def POLICIES_def split: if_splits)
qed

section \<open>Properties\<close>

text \<open>A permission is granted exactly to a caller whose membership of that organisation has
  a role that carries it; no other membership counts, and every refusal is a 403.\<close>

theorem permission_granted_iff:
  "(requirePermission u org p = Inr () \<longleftrightarrow>
     (\<exists>m. find_by (\<lambda>m. m_org m = org) (memberships u) = Some m \<and> p \<in> set (ROLE_PERMISSIONS (m_role m)))) \<and>
   (case requirePermission u org p of Inl e \<Rightarrow> http_status e = 403 | Inr _ \<Rightarrow> True)"
  by (auto simp: requirePermission_ok roleForOrg_def split: sum.split dest: requirePermission_error)

text \<open>A refund at or above the threshold is allowed exactly to an owner, who on a live store
  must have a second factor enabled.\<close>

theorem high_value_refund_iff:
  assumes "a_action r = ''payment:refund''" and "HIGH_VALUE_REFUND_THRESHOLD \<le> resource_amount r"
  shows "evaluate r = Allow \<longleftrightarrow>
     s_role (a_subject r) = Some Owner \<and> (ar_live (a_resource r) = Some True \<longrightarrow> s_mfa (a_subject r))"
  using assms by (rule high_value_refund_allowed)

definition sample_request :: "member_role \<Rightarrow> bool \<Rightarrow> string \<Rightarrow> abac_request" where
  "sample_request role mfa action =
     \<lparr>a_subject = \<lparr>s_user = ''u_1'', s_role = Some role, s_mfa = mfa\<rparr>, a_action = action,
      a_resource = \<lparr>ar_type = RPayment, ar_live = Some True, ar_amount = Some 500, ar_currency = Some ''KHR'',
        ar_mode = Some LiveMode\<rparr>\<rparr>"

theorem high_value_refund_iff_witness:
  "evaluate (sample_request Developer True ''payment:refund'') \<noteq> Allow"
  using high_value_refund_iff [of "sample_request Developer True ''payment:refund''"]
  by (simp add: sample_request_def resource_amount_def HIGH_VALUE_REFUND_THRESHOLD_def)

text \<open>
  The description of the second policy asks for an owner or a developer; a platform administrator
  gets past it.
\<close>

lemma platform_admin_writes_live: "evaluate (sample_request PlatformAdmin True ''store:write'') = Allow"
  by (simp add: evaluate_def evaluate_policies_Allow POLICIES_def sample_request_def ends_with_def)

end
