(* ===== verification/Reconcile.thy ===== *)
theory Reconcile
  imports Ledger Access "HOL-Library.List_Lexorder" "HOL-Library.Char_ord"
begin

text \<open>
  \<open>apps/api/src/ledger/reconciliation.service.ts\<close>: the trial balance, the checks of the
  ledger against the payments, the comparison of the points balances with the ledger, and the two
  backfills that post what the live paths did not. The caller's authorization is the result of
  the user lookup, an argument.
\<close>

definition TOL :: decimal where
  "TOL = 5 / 1000"

definition assertAdmin :: "bool \<Rightarrow> unit handler" where
  "assertAdmin isPlatformAdmin = guardM isPlatformAdmin (forbidden ''Platform admin access required'')"

definition in_scope :: "string option \<Rightarrow> string option \<Rightarrow> bool" where
  "in_scope storeId x \<longleftrightarrow> (case storeId of None \<Rightarrow> True | Some st \<Rightarrow> x = Some st)"

definition dir_total :: "direction \<Rightarrow> (entry_row \<Rightarrow> bool) \<Rightarrow> entry_row list \<Rightarrow> decimal" where
  "dir_total d p es = sum_list (map e_amount (filter (\<lambda>e. e_direction e = d \<and> p e) es))"

section \<open>Trial balance\<close>

record account_balance =
  ab_account :: string
  ab_type :: "account_type option"
  ab_currency :: string
  ab_debit :: string
  ab_credit :: string
  ab_balance :: string

record currency_total =
  ct_currency :: string
  ct_debit :: string
  ct_credit :: string
  ct_balanced :: bool

record trial_balance =
  tb_accounts :: "account_balance list"
  tb_totals :: "currency_total list"
  tb_in_balance :: bool

definition scope_entries :: "string option \<Rightarrow> db \<Rightarrow> entry_row list" where
  "scope_entries storeId s = filter (\<lambda>e. in_scope storeId (e_store e)) (entries s)"

definition account_row :: "entry_row list \<Rightarrow> string \<times> string \<Rightarrow> account_balance" where
  "account_row es k =
     (let p = (\<lambda>e. e_account e = fst k \<and> e_currency e = snd k);
          debit = dir_total DEBIT p es; credit = dir_total CREDIT p es;
          ty = map_of CHART_OF_ACCOUNTS (fst k);
          debitNormal = (ty = Some ASSET \<or> ty = Some EXPENSE);
          balance = (if debitNormal then debit - credit else credit - debit)
      in \<lparr>ab_account = fst k, ab_type = ty, ab_currency = snd k, ab_debit = to_fixed 2 debit,
          ab_credit = to_fixed 2 credit, ab_balance = to_fixed 2 balance\<rparr>)"

definition currency_row :: "entry_row list \<Rightarrow> string \<Rightarrow> currency_total" where
  "currency_row es cur =
     (let debit = dir_total DEBIT (\<lambda>e. e_currency e = cur) es;
          credit = dir_total CREDIT (\<lambda>e. e_currency e = cur) es
      in \<lparr>ct_currency = cur, ct_debit = to_fixed 2 debit, ct_credit = to_fixed 2 credit,
          ct_balanced = (\<bar>debit - credit\<bar> \<le> TOL)\<rparr>)"

definition trialBalance :: "string option \<Rightarrow> db \<Rightarrow> trial_balance" where
  "trialBalance storeId s =
     (let es = scope_entries storeId s;
          totals = map (currency_row es) (remdups (map e_currency es))
      in \<lparr>tb_accounts = map (account_row es) (remdups (map (\<lambda>e. (e_account e, e_currency e)) es)),
          tb_totals = totals, tb_in_balance = list_all ct_balanced totals\<rparr>)"

section \<open>Reconciliation with the payments\<close>

record break =
  bk_check :: string
  bk_currency :: "string option"
  bk_expected :: string
  bk_ledger :: string
  bk_delta :: string

record reconciliation =
  rc_journal_integrity :: bool
  rc_trial_balance :: bool
  rc_coverage :: bool
  rc_gross :: bool
  rc_balanced :: bool
  rc_breaks :: "break list"

definition journal_off :: "db \<Rightarrow> journal_row \<Rightarrow> bool" where
  "journal_off s j =
     (let p = (\<lambda>e. e_journal e = j_id j);
          dr = dir_total DEBIT p (entries s); cr = dir_total CREDIT p (entries s)
      in TOL < \<bar>dr - cr\<bar>)"

definition captured_refs :: "string option \<Rightarrow> db \<Rightarrow> string list" where
  "captured_refs storeId s =
     List.map_filter j_reference
       (filter (\<lambda>j. j_event j = ''payment.captured'' \<and> in_scope storeId (j_store j)) (journals s))"

definition paid_ids :: "string option \<Rightarrow> db \<Rightarrow> string list" where
  "paid_ids storeId s =
     map p_id (filter (\<lambda>p. in_scope storeId (Some (p_store p)) \<and> p_status p = Paid) (payments s))"

definition captured_gross :: "string option \<Rightarrow> db \<Rightarrow> string \<Rightarrow> decimal" where
  "captured_gross storeId s cur =
     sum_list (map p_amount (filter (\<lambda>p. p_id p \<in> set (captured_refs storeId s) \<and>
       currency_name (p_currency p) = cur) (payments s)))"

definition is_capture_debit :: "db \<Rightarrow> entry_row \<Rightarrow> bool" where
  "is_capture_debit s e \<longleftrightarrow> e_account e = ''settlement_clearing'' \<and> e_direction e = DEBIT \<and>
     exists_by (\<lambda>j. j_id j = e_journal e \<and> j_event j = ''payment.captured'') (journals s)"

definition ledger_gross :: "string option \<Rightarrow> db \<Rightarrow> string \<Rightarrow> decimal" where
  "ledger_gross storeId s cur =
     dir_total DEBIT (\<lambda>e. is_capture_debit s e \<and> e_currency e = cur) (scope_entries storeId s)"

definition gross_currencies :: "string option \<Rightarrow> db \<Rightarrow> string list" where
  "gross_currencies storeId s =
     remdups (map (\<lambda>p. currency_name (p_currency p))
         (filter (\<lambda>p. p_id p \<in> set (captured_refs storeId s)) (payments s)) @
       map e_currency (filter (is_capture_debit s) (scope_entries storeId s)))"

definition reconcile :: "string option \<Rightarrow> db \<Rightarrow> reconciliation" where
  "reconcile storeId s =
     (let js = filter (\<lambda>j. in_scope storeId (j_store j)) (journals s);
          unbalanced = length (filter (journal_off s) js);
          tb = trialBalance storeId s; es = scope_entries storeId s;
          tbBreaks = map (\<lambda>c. \<lparr>bk_check = ''trial_balance'', bk_currency = Some (ct_currency c),
              bk_expected = ct_debit c, bk_ledger = ct_credit c,
              bk_delta = to_fixed 2 (to_dp 2 (dir_total DEBIT (\<lambda>e. e_currency e = ct_currency c) es) -
                to_dp 2 (dir_total CREDIT (\<lambda>e. e_currency e = ct_currency c) es))\<rparr>)
            (filter (\<lambda>c. \<not> ct_balanced c) (tb_totals tb));
          paid = paid_ids storeId s;
          missing = length (filter (\<lambda>i. i \<notin> set (captured_refs storeId s)) paid);
          covBreaks = (if missing > 0 then [\<lparr>bk_check = ''coverage'', bk_currency = None,
              bk_expected = show_nat (length paid), bk_ledger = show_nat (length paid - missing),
              bk_delta = show_nat missing\<rparr>] else []);
          off = filter (\<lambda>cur. TOL < \<bar>captured_gross storeId s cur - ledger_gross storeId s cur\<bar>)
            (gross_currencies storeId s);
          grossBreaks = map (\<lambda>cur. \<lparr>bk_check = ''gross_captured'', bk_currency = Some cur,
              bk_expected = to_fixed 2 (captured_gross storeId s cur),
              bk_ledger = to_fixed 2 (ledger_gross storeId s cur),
              bk_delta = to_fixed 2 (captured_gross storeId s cur - ledger_gross storeId s cur)\<rparr>) off
      in \<lparr>rc_journal_integrity = (unbalanced = 0), rc_trial_balance = tb_in_balance tb,
          rc_coverage = (missing = 0), rc_gross = (off = []),
          rc_balanced = (unbalanced = 0 \<and> tb_in_balance tb \<and> missing = 0 \<and> off = []),
          rc_breaks = tbBreaks @ covBreaks @ grossBreaks\<rparr>)"

section \<open>Points drift\<close>

record drift =
  dr_ok :: bool
  dr_checked :: nat
  dr_column :: decimal
  dr_ledger :: decimal
  dr_delta :: decimal
  dr_drifted :: "(string \<times> int \<times> decimal) list"
  dr_count :: nat

definition drift_keys :: "string option \<Rightarrow> db \<Rightarrow> string list" where
  "drift_keys storeId s =
     remdups (List.map_filter e_customer (filter is_liability (scope_entries storeId s)))"

definition ledgerByCustomer :: "string option \<Rightarrow> db \<Rightarrow> string \<Rightarrow> decimal" where
  "ledgerByCustomer storeId s c =
     entry_total (\<lambda>e. e_customer e = Some c \<and> is_liability e) (scope_entries storeId s)"

definition drift_customers :: "string option \<Rightarrow> db \<Rightarrow> customer_row list" where
  "drift_customers storeId s =
     filter (\<lambda>c. in_scope storeId (Some (c_store c)) \<and>
       (c_points c \<noteq> 0 \<or> c_id c \<in> set (drift_keys storeId s))) (customers s)"

definition pointsDrift :: "string option \<Rightarrow> db \<Rightarrow> drift" where
  "pointsDrift storeId s =
     (let cs = drift_customers storeId s;
          drifted = filter (\<lambda>c. ledgerByCustomer storeId s (c_id c) \<noteq> of_int (c_points c)) cs;
          columnTotal = sum_list (map (\<lambda>c. of_int (c_points c)) cs);
          ledgerTotal = pointsLiabilityFor storeId s
      in \<lparr>dr_ok = (drifted = [] \<and> columnTotal = ledgerTotal), dr_checked = length cs,
          dr_column = columnTotal, dr_ledger = ledgerTotal, dr_delta = ledgerTotal - columnTotal,
          dr_drifted = take 50 (map (\<lambda>c. (c_id c, c_points c, ledgerByCustomer storeId s (c_id c))) drifted),
          dr_count = length drifted\<rparr>)"

section \<open>Backfills\<close>

text \<open>
  The commissions and the refunded total are posted from the rows as they are now. Invoices are
  not in the modelled schema: their identifiers and amounts in cents are an argument.
\<close>

definition store_fee :: "db \<Rightarrow> string \<Rightarrow> int" where
  "store_fee s storeId = (case find_by (\<lambda>x. s_id x = storeId) (stores s) of None \<Rightarrow> 0 | Some x \<Rightarrow> s_fee_bps x)"

definition backfill_payment :: "payment_row \<Rightarrow> unit handler" where
  "backfill_payment p = bindM (getsM (\<lambda>s. store_fee s (p_store p))) (\<lambda>feeBps.
     seqM (postPaymentCaptured p feeBps)
       (if p_refunded p > 0 then postRefund p (p_refunded p) feeBps ''backfill'' else ret ()))"

definition backfill_commission :: "commission_row \<Rightarrow> unit handler" where
  "backfill_commission c =
     seqM (postCommissionAccrued (cm_id c) (cm_store c) (currency_name (cm_currency c)) (cm_amount c))
       (if cm_status c = CPaid
        then postCommissionPaid (cm_id c) (cm_store c) (currency_name (cm_currency c)) (cm_amount c)
        else ret ())"

definition backfill :: "bool \<Rightarrow> (string \<times> int) list \<Rightarrow> unit handler" where
  "backfill isPlatformAdmin paidInvoices =
     seqM (assertAdmin isPlatformAdmin)
     (bindM (manyM payments (\<lambda>p. p_status p = Paid)) (\<lambda>paid. seqM (forM paid backfill_payment)
     (bindM (manyM commissions (\<lambda>_. True)) (\<lambda>comm. seqM (forM comm backfill_commission)
     (forM paidInvoices (\<lambda>i. postSubscriptionCollected (fst i) ''USD'' (of_int (snd i) / 100)))))))"

text \<open>
  \<open>backfillPoints\<close> reads the confirmed rows in the order of their identifiers, five hundred
  at a time after the last one seen. The rows do not change meanwhile, so the pages are the
  successive segments of the sorted list.
\<close>

definition row_movement :: "points_row \<Rightarrow> movement" where
  "row_movement r =
     (if pt_points r > 0 \<and> pt_type r = ADJUST \<and> pt_reason r = Some REDEMPTION_CANCELLED_REASON
      then MRedeemReversal
      else case pt_type r of EARN \<Rightarrow> MEarn | REDEEM \<Rightarrow> MRedeem | ADJUST \<Rightarrow> MAdjust | EXPIRE \<Rightarrow> MExpire)"

record tally =
  ta_scanned :: nat
  ta_posted :: nat
  ta_skipped :: nat

definition backfill_row :: "tally \<Rightarrow> points_row \<Rightarrow> tally handler" where
  "backfill_row t r =
     (let t1 = t\<lparr>ta_scanned := Suc (ta_scanned t)\<rparr>;
          skip = t1\<lparr>ta_skipped := Suc (ta_skipped t)\<rparr>
      in if pt_points r = 0 then ret skip
         else catchM (seqM (postPointsMovement (row_movement r) (pt_id r) (pt_store r) (pt_customer r) (pt_points r))
             (ret (t1\<lparr>ta_posted := Suc (ta_posted t)\<rparr>)))
           (\<lambda>e. ret skip))"

definition BATCH :: nat where
  "BATCH = 500"

function backfill_pages :: "tally \<Rightarrow> points_row list \<Rightarrow> tally handler" where
  "backfill_pages t rows =
     (if rows = [] then ret t
      else bindM (foldM backfill_row t (take BATCH rows)) (\<lambda>t'.
        if length rows < BATCH then ret t' else backfill_pages t' (drop BATCH rows)))"
  by pat_completeness auto
termination
  by (relation "measure (\<lambda>(t, rows). length rows)") (auto simp: BATCH_def)

declare backfill_pages.simps [simp del]

definition confirmed_rows :: "db \<Rightarrow> points_row list" where
  "confirmed_rows s = sort_key pt_id (rows_where (\<lambda>r. pt_status r = VConfirmed) (points_txns s))"

definition backfillPoints :: "bool \<Rightarrow> (tally \<times> drift) handler" where
  "backfillPoints isPlatformAdmin =
     seqM (assertAdmin isPlatformAdmin)
     (bindM (getsM confirmed_rows) (\<lambda>rows.
      bindM (backfill_pages \<lparr>ta_scanned = 0, ta_posted = 0, ta_skipped = 0\<rparr> rows) (\<lambda>t.
      bindM (getsM (pointsDrift None)) (\<lambda>d. ret (t, d)))))"

section \<open>Balanced books reconcile\<close>

lemma entry_total_dir: "entry_total p es = dir_total CREDIT p es - dir_total DEBIT p es"
proof (induction es)
  case Nil
  then show ?case by (simp add: dir_total_def)
next
  case (Cons e es)
  then show ?case by (cases "e_direction e") (simp_all add: dir_total_def signed_def)
qed

lemma entry_total_scope:
  "entry_total p (scope_entries st s) = entry_total (\<lambda>e. in_scope st (e_store e) \<and> p e) (entries s)"
  by (simp add: entry_total_def scope_entries_def conj_commute)

lemma books_ok_journal:
  assumes "books_ok s" and "e \<in> set (entries s)" and "j \<in> set (journals s)" and "e_journal e = j_id j"
  shows "heads e j"
proof -
  from assms obtain i where i: "i \<in> set (journals s)" "heads e i"
    by (auto simp: books_ok_def list_all_iff exists_by_iff)
  then have "j_id i = j_id j" using assms(4) by (simp add: heads_def)
  then have "i = j" using assms(1,3) i(1) by (auto simp: books_ok_def dest: keyed_unique)
  with i show ?thesis by simp
qed

text \<open>A condition that depends on the journal only: the entries that satisfy it cancel out.\<close>

lemma books_ok_total:
  assumes ok: "books_ok s" and pq: "\<And>e j. heads e j \<Longrightarrow> p e = q j"
  shows "entry_total p (entries s) = 0"
proof -
  have "list_all (\<lambda>e. p e \<longrightarrow> e_journal e \<in> set (map j_id (journals s))) (entries s)"
    using ok by (force simp: books_ok_def list_all_iff exists_by_iff heads_def)
  moreover have "distinct (map j_id (journals s))" using ok by (simp add: books_ok_def keyed_def)
  ultimately have "entry_total p (entries s) =
      sum_list (map (\<lambda>x. entry_total (\<lambda>e. e_journal e = x \<and> p e) (entries s)) (map j_id (journals s)))"
    by (intro entry_total_by_key)
  also have "\<dots> = sum_list (map (\<lambda>j. 0) (journals s))"
    unfolding map_map o_def
  proof (intro arg_cong [of _ _ sum_list] map_cong refl)
    fix j assume j: "j \<in> set (journals s)"
    show "entry_total (\<lambda>e. e_journal e = j_id j \<and> p e) (entries s) = 0"
    proof (cases "q j")
      case True
      have "entry_total (\<lambda>e. e_journal e = j_id j \<and> p e) (entries s) =
          entry_total (\<lambda>e. e_journal e = j_id j) (entries s)"
        using books_ok_journal [OF ok _ j] pq True by (intro entry_total_cong) blast
      then show ?thesis using ok j by (simp add: books_ok_def journal_balanced_def list_all_iff)
    next
      case False
      then have "\<forall>e \<in> set (entries s). \<not> (e_journal e = j_id j \<and> p e)"
        using books_ok_journal [OF ok _ j] pq by blast
      then show ?thesis by (rule entry_total_none)
    qed
  qed
  finally show ?thesis by simp
qed

lemma trial_balance_ok: "books_ok s \<Longrightarrow> tb_in_balance (trialBalance st s)"
proof -
  assume ok: "books_ok s"
  have "dir_total DEBIT (\<lambda>e. e_currency e = cur) (scope_entries st s) =
      dir_total CREDIT (\<lambda>e. e_currency e = cur) (scope_entries st s)" for cur
  proof -
    have "entry_total (\<lambda>e. in_scope st (e_store e) \<and> e_currency e = cur) (entries s) = 0"
      by (rule books_ok_total [OF ok, where q = "\<lambda>j. in_scope st (j_store j) \<and> j_currency j = cur"])
        (simp add: heads_def)
    then have "entry_total (\<lambda>e. e_currency e = cur) (scope_entries st s) = 0"
      by (simp add: entry_total_scope)
    then show ?thesis by (simp add: entry_total_dir)
  qed
  then show ?thesis by (simp add: trialBalance_def Let_def currency_row_def list_all_iff TOL_def)
qed

lemma journal_integrity_ok: "books_ok s \<Longrightarrow> j \<in> set (journals s) \<Longrightarrow> \<not> journal_off s j"
  by (simp add: books_ok_def list_all_iff journal_balanced_def entry_total_dir journal_off_def TOL_def)

section \<open>The drift report\<close>

definition known_holders :: "db \<Rightarrow> bool" where
  "known_holders s \<longleftrightarrow> keyed c_id (customers s) \<and>
     list_all (\<lambda>e. is_liability e \<longrightarrow> e_customer e \<in> set (map (\<lambda>c. Some (c_id c)) (customers s))) (entries s)"

definition mirrored :: "db \<Rightarrow> bool" where
  "mirrored s \<longleftrightarrow> list_all (\<lambda>c. pointsBalanceFor (c_id c) s = of_int (c_points c)) (customers s)"

lemma ledgerByCustomer_platform: "ledgerByCustomer None s c = pointsBalanceFor c s"
  by (simp add: ledgerByCustomer_def pointsBalanceFor_total scope_entries_def in_scope_def)

lemma drift_keys_platform: "set (drift_keys None s) = {c. \<exists>e \<in> set (entries s). is_liability e \<and> e_customer e = Some c}"
  by (force simp: drift_keys_def scope_entries_def in_scope_def List.map_filter_def)

lemma drift_ok_iff:
  assumes kh: "known_holders s"
  shows "dr_ok (pointsDrift None s) \<longleftrightarrow> mirrored s"
proof
  assume ok: "dr_ok (pointsDrift None s)"
  show "mirrored s" unfolding mirrored_def list_all_iff
  proof
    fix c assume c: "c \<in> set (customers s)"
    show "pointsBalanceFor (c_id c) s = of_int (c_points c)"
    proof (cases "c \<in> set (drift_customers None s)")
      case True
      with ok show ?thesis
        by (auto simp: pointsDrift_def Let_def filter_empty_conv ledgerByCustomer_platform)
    next
      case False
      with c have z: "c_points c = 0" "c_id c \<notin> set (drift_keys None s)"
        by (auto simp: drift_customers_def in_scope_def)
      then have "\<forall>e \<in> set (entries s). \<not> (e_customer e = Some (c_id c) \<and> is_liability e)"
        by (auto simp: drift_keys_platform)
      then show ?thesis using z(1) by (simp add: pointsBalanceFor_total entry_total_none)
    qed
  qed
next
  assume m: "mirrored s"
  let ?cs = "drift_customers None s"
  have sub: "set ?cs \<subseteq> set (customers s)" by (auto simp: drift_customers_def)
  have d: "filter (\<lambda>c. ledgerByCustomer None s (c_id c) \<noteq> of_int (c_points c)) ?cs = []"
    using m sub by (auto simp: filter_empty_conv mirrored_def list_all_iff ledgerByCustomer_platform)
  have "e_customer e \<in> set (map (\<lambda>c. Some (c_id c)) ?cs)" if "e \<in> set (entries s)" "is_liability e" for e
  proof -
    from kh that obtain c where c: "c \<in> set (customers s)" "e_customer e = Some (c_id c)"
      by (auto simp: known_holders_def list_all_iff)
    then have "c_id c \<in> set (drift_keys None s)" using that by (auto simp: drift_keys_platform)
    then have "c \<in> set ?cs" using c by (auto simp: drift_customers_def in_scope_def)
    with c show ?thesis by auto
  qed
  moreover have "distinct (map (\<lambda>c. Some (c_id c)) ?cs)"
    using kh by (auto simp: known_holders_def keyed_def drift_customers_def distinct_map inj_on_def)
  ultimately have "pointsLiabilityFor None s = sum_list (map (\<lambda>c. pointsBalanceFor (c_id c) s) ?cs)"
    using entry_total_by_key [of "map (\<lambda>c. Some (c_id c)) ?cs" is_liability e_customer "entries s"]
    by (simp add: pointsLiabilityFor_total pointsBalanceFor_total o_def list_all_iff)
  also have "\<dots> = sum_list (map (\<lambda>c. of_int (c_points c)) ?cs)"
    using m sub by (intro arg_cong [of _ _ sum_list] map_cong refl) (auto simp: mirrored_def list_all_iff)
  finally show "dr_ok (pointsDrift None s)" using d by (simp add: pointsDrift_def Let_def)
qed

section \<open>What the points backfill posts\<close>

definition posted :: "db \<Rightarrow> points_row \<Rightarrow> bool" where
  "posted s r \<longleftrightarrow> exists_by (\<lambda>j. j_event j = ''points.'' @ movement_name (row_movement r) \<and>
     j_reference j = Some (pt_id r)) (journals s)"

lemma posted_append: "posted s r \<Longrightarrow> posted (s\<lparr>journals := journals s @ js, entries := es, draws := n\<rparr>) r"
  by (simp add: posted_def)

lemma movement_repeated:
  assumes "posted s r"
  shows "postPointsMovement (row_movement r) (pt_id r) st c n s = (Inr (), s)"
proof (cases "n = 0")
  case True
  then show ?thesis by (simp add: postPointsMovement_def op_simps)
next
  case False
  obtain q u where p: "post (''points.'' @ movement_name (row_movement r)) (Some (pt_id r)) (Some st)
      POINTS_CURRENCY (points_lines (row_movement r) c n) s = (q, u)"
    by (rule prod.exhaust)
  have "u = s" using post_repeated [OF assms [unfolded posted_def]] p by (metis snd_conv)
  moreover have "q = Inr ()"
    using p by (cases rule: post_cases) (simp_all add: points_lines_rounded)
  ultimately show ?thesis using p False by (simp add: postPointsMovement_def)
qed

lemma movement_posts:
  assumes f: "fresh_ids s" and r: "r \<in> set (points_txns s)" and nz: "pt_points r \<noteq> 0"
  shows "\<exists>js es n. postPointsMovement (row_movement r) (pt_id r) (pt_store r) (pt_customer r) (pt_points r) s =
      (Inr (), s\<lparr>journals := journals s @ js, entries := es, draws := n\<rparr>) \<and>
    fresh_ids (s\<lparr>journals := journals s @ js, entries := es, draws := n\<rparr>) \<and>
    posted (s\<lparr>journals := journals s @ js, entries := es, draws := n\<rparr>) r"
proof (cases "posted s r")
  case True
  moreover have "s\<lparr>journals := journals s @ [], entries := entries s, draws := draws s\<rparr> = s" by simp
  ultimately show ?thesis using f movement_repeated by metis
next
  case False
  let ?ls = "points_lines (row_movement r) (pt_customer r) (pt_points r)"
  let ?ev = "''points.'' @ movement_name (row_movement r)"
  have ref: "pt_id r \<noteq> ''pts_'' @ rnd s k" if "draws s \<le> k" for k
    using fresh_idsD(4) [OF f that r] .
  have sums: "line_sum DEBIT (map round_line ?ls) = line_sum CREDIT (map round_line ?ls)"
    "0 < line_sum DEBIT (map round_line ?ls)"
    using nz by (simp_all add: points_lines_rounded)
  from post_fresh [OF f sums False [unfolded posted_def] ref, of "Some (pt_store r)" POINTS_CURRENCY]
  obtain i ids k where p:
    "post ?ev (Some (pt_id r)) (Some (pt_store r)) POINTS_CURRENCY ?ls s =
      (Inr (), with_journal (journal_of ?ev (Some (pt_id r)) (Some (pt_store r)) POINTS_CURRENCY i)
        ids (map round_line ?ls) k s)"
    "fresh_ids (with_journal (journal_of ?ev (Some (pt_id r)) (Some (pt_store r)) POINTS_CURRENCY i)
        ids (map round_line ?ls) k s)"
    by blast
  let ?js = "[journal_of ?ev (Some (pt_id r)) (Some (pt_store r)) POINTS_CURRENCY i]"
  let ?es = "entries s @ map2 (entry_of i (Some (pt_store r)) POINTS_CURRENCY) ids (map round_line ?ls)"
  have "with_journal (journal_of ?ev (Some (pt_id r)) (Some (pt_store r)) POINTS_CURRENCY i) ids (map round_line ?ls) k s =
      s\<lparr>journals := journals s @ ?js, entries := ?es, draws := k\<rparr>"
    by (simp add: with_journal_def)
  moreover have "posted (s\<lparr>journals := journals s @ ?js, entries := ?es, draws := k\<rparr>) r"
    by (simp add: posted_def)
  ultimately show ?thesis using p nz by (auto simp: postPointsMovement_def)
qed

lemma backfill_row_posted: "posted s r \<or> pt_points r = 0 \<Longrightarrow> \<exists>t'. backfill_row t r s = (Inr t', s)"
  by (auto simp: backfill_row_def Let_def op_simps catchM_def movement_repeated bindM_def)

lemma backfill_row_posts:
  assumes "fresh_ids s" and "r \<in> set (points_txns s)"
  shows "\<exists>t' js es n. backfill_row t r s = (Inr t', s\<lparr>journals := journals s @ js, entries := es, draws := n\<rparr>) \<and>
    fresh_ids (s\<lparr>journals := journals s @ js, entries := es, draws := n\<rparr>) \<and>
    (pt_points r = 0 \<or> posted (s\<lparr>journals := journals s @ js, entries := es, draws := n\<rparr>) r)"
proof (cases "pt_points r = 0")
  case True
  then obtain t' where "backfill_row t r s = (Inr t', s)" using backfill_row_posted by blast
  moreover have "s\<lparr>journals := journals s @ [], entries := entries s, draws := draws s\<rparr> = s" by simp
  ultimately show ?thesis using True assms(1) by metis
next
  case False
  from movement_posts [OF assms False] obtain js es n where m:
    "postPointsMovement (row_movement r) (pt_id r) (pt_store r) (pt_customer r) (pt_points r) s =
      (Inr (), s\<lparr>journals := journals s @ js, entries := es, draws := n\<rparr>)"
    "fresh_ids (s\<lparr>journals := journals s @ js, entries := es, draws := n\<rparr>)"
    "posted (s\<lparr>journals := journals s @ js, entries := es, draws := n\<rparr>) r"
    by blast
  then have "\<exists>t'. backfill_row t r s = (Inr t', s\<lparr>journals := journals s @ js, entries := es, draws := n\<rparr>)"
    using False by (simp add: backfill_row_def Let_def catchM_def op_simps bindM_def)
  with m show ?thesis by blast
qed

lemma backfill_rows_posted:
  "\<forall>r \<in> set rows. posted s r \<or> pt_points r = 0 \<Longrightarrow> \<exists>t'. foldM backfill_row t rows s = (Inr t', s)"
proof (induction rows arbitrary: t)
  case Nil
  then show ?case by (simp add: op_simps)
next
  case (Cons r rows)
  then obtain t1 where "backfill_row t r s = (Inr t1, s)" using backfill_row_posted by fastforce
  with Cons show ?case by (simp add: bindM_def)
qed

lemma backfill_rows_posts:
  assumes "fresh_ids s" and "set rows \<subseteq> set (points_txns s)"
  shows "\<exists>t' js es n. foldM backfill_row t rows s = (Inr t', s\<lparr>journals := journals s @ js, entries := es, draws := n\<rparr>) \<and>
    fresh_ids (s\<lparr>journals := journals s @ js, entries := es, draws := n\<rparr>) \<and>
    (\<forall>r \<in> set rows. posted (s\<lparr>journals := journals s @ js, entries := es, draws := n\<rparr>) r \<or> pt_points r = 0)"
  using assms
proof (induction rows arbitrary: s t)
  case Nil
  have "s\<lparr>journals := journals s @ [], entries := entries s, draws := draws s\<rparr> = s" by simp
  then show ?case using Nil by (metis foldM.simps(1) ret_apply empty_iff empty_set)
next
  case (Cons r rows)
  have r: "r \<in> set (points_txns s)" and rs: "set rows \<subseteq> set (points_txns s)"
    using Cons.prems(2) by auto
  from backfill_row_posts [OF Cons.prems(1) r, of t] obtain t1 js es n where one:
    "backfill_row t r s = (Inr t1, s\<lparr>journals := journals s @ js, entries := es, draws := n\<rparr>)"
    "fresh_ids (s\<lparr>journals := journals s @ js, entries := es, draws := n\<rparr>)"
    "pt_points r = 0 \<or> posted (s\<lparr>journals := journals s @ js, entries := es, draws := n\<rparr>) r"
    by blast
  let ?u = "s\<lparr>journals := journals s @ js, entries := es, draws := n\<rparr>"
  have "set rows \<subseteq> set (points_txns ?u)" using rs by simp
  from Cons.IH [OF one(2) this, of t1] obtain t2 js2 es2 n2 where rest:
    "foldM backfill_row t1 rows ?u = (Inr t2, ?u\<lparr>journals := journals ?u @ js2, entries := es2, draws := n2\<rparr>)"
    "fresh_ids (?u\<lparr>journals := journals ?u @ js2, entries := es2, draws := n2\<rparr>)"
    "\<forall>q \<in> set rows. posted (?u\<lparr>journals := journals ?u @ js2, entries := es2, draws := n2\<rparr>) q \<or> pt_points q = 0"
    by blast
  have r2: "pt_points r = 0 \<or> posted (?u\<lparr>journals := journals ?u @ js2, entries := es2, draws := n2\<rparr>) r"
    using one(3) posted_append by blast
  have st: "?u\<lparr>journals := journals ?u @ js2, entries := es2, draws := n2\<rparr> =
      s\<lparr>journals := journals s @ (js @ js2), entries := es2, draws := n2\<rparr>"
    by simp
  have "foldM backfill_row t (r # rows) s = foldM backfill_row t1 rows ?u"
    using one(1) by (simp add: bindM_def)
  then have "foldM backfill_row t (r # rows) s = (Inr t2, s\<lparr>journals := journals s @ (js @ js2), entries := es2, draws := n2\<rparr>)"
    using rest(1) unfolding st by (rule trans)
  moreover have "\<forall>q \<in> set (r # rows). posted (s\<lparr>journals := journals s @ (js @ js2), entries := es2, draws := n2\<rparr>) q \<or> pt_points q = 0"
    using rest(3) r2 unfolding st by auto
  ultimately show ?case using rest(2) unfolding st by blast
qed

lemma backfill_pages_fold: "backfill_pages t rows s = foldM backfill_row t rows s"
proof (induction t rows arbitrary: s rule: backfill_pages.induct)
  case (1 t rows)
  show ?case
  proof (cases "rows = []")
    case True
    then show ?thesis by (subst backfill_pages.simps) simp
  next
    case False
    have "foldM backfill_row t rows s = bindM (foldM backfill_row t (take BATCH rows)) (\<lambda>t'. foldM backfill_row t' (drop BATCH rows)) s"
      using foldM_append [of backfill_row t "take BATCH rows" "drop BATCH rows" s] by simp
    moreover have "(if length rows < BATCH then ret t' else backfill_pages t' (drop BATCH rows)) u =
        foldM backfill_row t' (drop BATCH rows) u" for t' u
      using 1 False by simp
    ultimately show ?thesis using False by (subst backfill_pages.simps) (simp add: bindM_def split: prod.split sum.split)
  qed
qed

lemma confirmed_rows_set: "set (confirmed_rows s) = {r \<in> set (points_txns s). pt_status r = VConfirmed}"
  by (simp add: confirmed_rows_def)

lemma backfillPoints_run:
  "backfillPoints True s =
     bindM (foldM backfill_row \<lparr>ta_scanned = 0, ta_posted = 0, ta_skipped = 0\<rparr> (confirmed_rows s))
       (\<lambda>t. bindM (getsM (pointsDrift None)) (\<lambda>d. ret (t, d))) s"
  by (simp add: backfillPoints_def assertAdmin_def op_simps) (simp add: bindM_def backfill_pages_fold)

lemma post_repeated_balanced:
  assumes "exists_by (\<lambda>j. j_event j = ev \<and> j_reference j = Some ref) (journals s)"
    and "line_sum DEBIT (map round_line ls) = line_sum CREDIT (map round_line ls)"
  shows "post ev (Some ref) st cur ls s = (Inr (), s)"
proof -
  obtain r t where p: "post ev (Some ref) st cur ls s = (r, t)"
    by (rule prod.exhaust)
  moreover have "t = s" using post_repeated [OF assms(1)] p by (metis snd_conv)
  moreover have "r = Inr ()" using p by (cases rule: post_cases) (use assms(2) in simp_all)
  ultimately show ?thesis by simp
qed

section \<open>Properties\<close>

text \<open>Over books in which every journal balances, the trial balance of the platform and of
  every store is in balance and the reconciliation finds no unbalanced journal.\<close>

theorem reconciliation_in_balance:
  assumes "books_ok s"
  shows "tb_in_balance (trialBalance storeId s) \<and> rc_trial_balance (reconcile storeId s) \<and>
    rc_journal_integrity (reconcile storeId s)"
  using trial_balance_ok [OF assms] journal_integrity_ok [OF assms]
  by (auto simp: reconcile_def Let_def filter_empty_conv)

theorem reconciliation_in_balance_witness:
  "tb_in_balance (trialBalance None (snd (post ''payout'' (Some ''x'') (Some ''s'') ''USD''
      [line_of ''merchant_payable'' DEBIT 1, line_of ''settlement_clearing'' CREDIT 1] empty_db))) \<and>
   rc_trial_balance (reconcile None (snd (post ''payout'' (Some ''x'') (Some ''s'') ''USD''
      [line_of ''merchant_payable'' DEBIT 1, line_of ''settlement_clearing'' CREDIT 1] empty_db))) \<and>
   rc_journal_integrity (reconcile None (snd (post ''payout'' (Some ''x'') (Some ''s'') ''USD''
      [line_of ''merchant_payable'' DEBIT 1, line_of ''settlement_clearing'' CREDIT 1] empty_db)))"
  by (rule reconciliation_in_balance) (rule keepsD [OF post_keeps_books books_ok_empty])




definition sample_points :: points_row where
  "sample_points = \<lparr>pt_id = ''pts_a'', pt_store = ''store_1'', pt_customer = ''c_1'', pt_type = EARN, pt_points = 7,
     pt_payment = None, pt_reason = None, pt_created = 0, pt_status = VConfirmed, pt_confirmed_at = Some 0,
     pt_paychain_tx = None, pt_detail = None\<rparr>"


text \<open>The cash on the clearing account, as the ledger has it.\<close>

definition clearing_total :: "db \<Rightarrow> decimal" where
  "clearing_total s = entry_total (\<lambda>e. e_account e = ''settlement_clearing'') (entries s)"

lemma refund_entries_clearing:
  assumes "length ids = length (refund_lines g bps)" and "scaled 4 g"
  shows "entry_total (\<lambda>e. e_account e = ''settlement_clearing'')
    (map2 (entry_of j st cur) ids (map round_line (refund_lines g bps))) = g"
proof -
  from assms(1) obtain i k l where "ids = [i, k, l]"
    by (auto simp: refund_lines_def Let_def numeral_eq_Suc length_Suc_conv)
  then show ?thesis using to_dp_scaled [OF assms(2)]
    by (simp add: refund_lines_def Let_def line_of_def round_line_def signed_def)
qed

text \<open>The ledger backfill posts the whole refunded amount of a paid payment once more when its
  refunds were already posted live: the live journals are keyed by the refund, the backfill's by
  the word \<open>backfill\<close>.\<close>

theorem backfill_reposts_refunds:
  assumes "fresh_ids s" and "p_id p = ''pay_'' @ x"
    and "scaled 4 (p_amount p)" and "0 \<le> p_amount p" and "scaled 4 (p_refunded p)" and "0 < p_refunded p"
    and "0 \<le> store_fee s (p_store p)" and "store_fee s (p_store p) \<le> 10000"
    and "\<not> half_unit (fee_of (p_amount p) (store_fee s (p_store p)))"
    and "\<not> half_unit (fee_of (p_refunded p) (store_fee s (p_store p)))"
    and "exists_by (\<lambda>j. j_event j = ''payment.captured'' \<and> j_reference j = Some (p_id p)) (journals s)"
    and "exists_by (\<lambda>j. j_event j = ''payment.refunded'' \<and> j_reference j = Some (p_id p @ '':'' @ refundId)) (journals s)"
    and "\<not> exists_by (\<lambda>j. j_event j = ''payment.refunded'' \<and> j_reference j = Some (p_id p @ '':'' @ ''backfill'')) (journals s)"
  shows "\<exists>u. backfill_payment p s = (Inr (), u) \<and> clearing_total u = clearing_total s + p_refunded p"
proof -
  let ?fee = "store_fee s (p_store p)"
  let ?ls = "refund_lines (p_refunded p) ?fee"
  let ?ref = "p_id p @ '':'' @ ''backfill''"
  have cap: "postPaymentCaptured p ?fee s = (Inr (), s)"
    unfolding postPaymentCaptured_def using assms(11) captured_sums [OF assms(3,4,7,8)] assms(9)
    by (intro post_repeated_balanced) simp_all
  have sums: "line_sum DEBIT (map round_line ?ls) = line_sum CREDIT (map round_line ?ls)"
    "0 < line_sum DEBIT (map round_line ?ls)"
    using refund_sums [OF assms(5) _ assms(7,8)] assms(6,10) by simp_all
  have "?ref \<noteq> ''pts_'' @ rnd s k" for k
    using assms(2) by simp
  from post_fresh [OF assms(1) sums assms(13) this, of "Some (p_store p)" "currency_name (p_currency p)"]
  obtain i ids n where p: "post ''payment.refunded'' (Some ?ref) (Some (p_store p)) (currency_name (p_currency p)) ?ls s =
      (Inr (), with_journal (journal_of ''payment.refunded'' (Some ?ref) (Some (p_store p))
        (currency_name (p_currency p)) i) ids (map round_line ?ls) n s)" "length ids = length ?ls"
    by blast
  have "clearing_total (with_journal (journal_of ''payment.refunded'' (Some ?ref) (Some (p_store p))
        (currency_name (p_currency p)) i) ids (map round_line ?ls) n s) = clearing_total s + p_refunded p"
    using refund_entries_clearing [OF p(2) assms(5)] by (simp add: clearing_total_def with_journal_def)
  moreover have "backfill_payment p s = post ''payment.refunded'' (Some ?ref) (Some (p_store p)) (currency_name (p_currency p)) ?ls s"
    using assms(6) by (simp add: backfill_payment_def op_simps) (simp add: bindM_def cap postRefund_def)
  ultimately show ?thesis using p(1) by auto
qed


definition refunded_payment :: payment_row where
  "refunded_payment = (sample_payment 10 USD)\<lparr>p_refunded := 4\<rparr>"

definition refunded_db :: db where
  "refunded_db = empty_db\<lparr>payments := [refunded_payment], journals :=
     [journal_of ''payment.captured'' (Some ''pay_1'') (Some ''store_1'') ''USD'' ''jrn_a'',
      journal_of ''payment.refunded'' (Some ''pay_1:rf_1'') (Some ''store_1'') ''USD'' ''jrn_b'']\<rparr>"

lemma fresh_ids_refunded_db: "fresh_ids refunded_db"
proof -
  have "inj show_nat" by (metis injI read_show_nat)
  moreover have "show_nat n \<noteq> ''a''" "show_nat n \<noteq> ''b''" for n
    using show_nat_digits [of n] by (auto simp: is_digit_def)
  then have "''a'' \<noteq> show_nat n" "''b'' \<noteq> show_nat n" for n by metis+
  ultimately show ?thesis by (simp add: fresh_ids_def refunded_db_def empty_db_def)
qed

theorem backfill_reposts_refunds_witness:
  "\<exists>u. backfill_payment refunded_payment refunded_db = (Inr (), u) \<and>
    clearing_total u = clearing_total refunded_db + p_refunded refunded_payment"
proof (rule backfill_reposts_refunds [where x = "''1''" and refundId = "''rf_1''"])
  show "scaled 4 (p_amount refunded_payment)" "scaled 4 (p_refunded refunded_payment)"
    using scaled_of_int [of 4 10] scaled_of_int [of 4 4] by (simp_all add: refunded_payment_def sample_payment_def)
qed (simp_all add: fresh_ids_refunded_db, simp_all add: refunded_payment_def sample_payment_def
    refunded_db_def empty_db_def store_fee_def half_unit_def fee_of_def)

end
