(* ===== verification/Stores.thy ===== *)
theory Stores
  imports Database Access
begin

text \<open>
  What every dashboard operation starts with: the \<open>assertStore\<close> of the services, which
  resolves the store and checks the caller's role in its organisation.
\<close>

definition liftE :: "exn + 'a \<Rightarrow> 'a handler" where
  "liftE r s = (r, s)"

lemma bindM_liftE [op_simps]: "bindM (liftE r) f s = (case r of Inl e \<Rightarrow> (Inl e, s) | Inr a \<Rightarrow> f a s)"
  by (simp add: bindM_def liftE_def split: sum.split)

lemma keeps_liftE [keeps_intros]: "keeps P (liftE r)"
  by (simp add: keeps_def liftE_def)

lemma set_delete_where [simp]: "set (delete_where p t) = {x \<in> set t. \<not> p x}"
  by (auto simp: delete_where_def)

definition assertStore :: "auth_user \<Rightarrow> string \<Rightarrow> permission \<Rightarrow> store_row handler" where
  "assertStore u storeId perm =
     bindM (findM stores (\<lambda>x. s_id x = storeId)) (\<lambda>store.
     bindM (someM (paymentNotFound ''Store not found'') store) (\<lambda>store.
     bindM (liftE (requirePermission u (s_org store) perm)) (\<lambda>_. ret store)))"

lemma assertStore_Inr: "assertStore u st perm s = (Inr x, t) \<longleftrightarrow>
    t = s \<and> find_by (\<lambda>y. s_id y = st) (stores s) = Some x \<and> requirePermission u (s_org x) perm = Inr ()"
  by (auto simp: assertStore_def op_simps split: option.splits sum.splits)

lemma bindM_assertStore [op_simps]: "bindM (assertStore u st perm) f s =
    (case fst (assertStore u st perm s) of Inl e \<Rightarrow> (Inl e, s) | Inr x \<Rightarrow> f x s)"
proof -
  have "snd (assertStore u st perm s) = s"
    by (simp add: assertStore_def op_simps split: option.split sum.split)
  then show ?thesis
    by (cases "assertStore u st perm s") (auto simp: bindM_def split: sum.split)
qed

lemma keeps_assertStore [keeps_intros]: "keeps P (assertStore u st perm)"
  unfolding assertStore_def by (intro keeps_intros)

text \<open>
  No permission is granted outside the organisation of the store: only a member whose role has
  the permission gets past the guard, and nothing is written before it.
\<close>

lemma assertStore_denied:
  assumes "find_by (\<lambda>y. s_id y = st) (stores s) = Some x"
    and "\<And>r. roleForOrg u (s_org x) = Some r \<Longrightarrow> perm \<notin> set (ROLE_PERMISSIONS r)"
  shows "\<exists>m. assertStore u st perm s = (Inl (forbidden m), s)"
  using assms by (auto simp: assertStore_def op_simps requirePermission_def requireMembership_def
      split: option.split sum.split)

text \<open>
  The same for a row that names its store: it is looked up by its identifier first, and only
  then the caller's role in the organisation of its store is checked.
\<close>

definition ownedM ::
    "(db \<Rightarrow> 'r list) \<Rightarrow> ('r \<Rightarrow> bool) \<Rightarrow> ('r \<Rightarrow> string) \<Rightarrow> string \<Rightarrow> auth_user \<Rightarrow> permission \<Rightarrow> 'r handler" where
  "ownedM get p store msg u perm =
     bindM (findM get p) (\<lambda>row.
     bindM (someM (paymentNotFound msg) row) (\<lambda>row.
     bindM (assertStore u (store row) perm) (\<lambda>_. ret row)))"

lemma ownedM_Inr: "ownedM get p store msg u perm s = (Inr r, t) \<longleftrightarrow>
    t = s \<and> find_by p (get s) = Some r \<and> (\<exists>x. assertStore u (store r) perm s = (Inr x, s))"
proof (cases "find_by p (get s)")
  case (Some x)
  have "assertStore u (store x) perm s = (fst (assertStore u (store x) perm s), s)"
    by (simp add: assertStore_def op_simps split: option.split sum.split)
  then show ?thesis using Some by (cases "fst (assertStore u (store x) perm s)") (auto simp: ownedM_def op_simps)
qed (simp add: ownedM_def op_simps)

lemma bindM_ownedM [op_simps]: "bindM (ownedM get p store msg u perm) f s =
    (case fst (ownedM get p store msg u perm s) of Inl e \<Rightarrow> (Inl e, s) | Inr r \<Rightarrow> f r s)"
proof -
  have "snd (ownedM get p store msg u perm s) = s"
    by (simp add: ownedM_def op_simps split: option.split sum.split)
  then show ?thesis
    by (cases "ownedM get p store msg u perm s") (auto simp: bindM_def split: sum.split)
qed

lemma keeps_ownedM [keeps_intros]: "keeps P (ownedM get p store msg u perm)"
  unfolding ownedM_def by (intro keeps_intros)

text \<open>An owner, for concrete instances.\<close>

definition sample_user :: auth_user where
  "sample_user = \<lparr>user_id = ''u_1'', user_email = ''o@shop'', memberships = [\<lparr>m_org = ''org_1'', m_role = Owner\<rparr>]\<rparr>"

definition sample_store :: store_row where
  "sample_store = \<lparr>s_id = ''store_1'', s_org = ''org_1'', s_name = ''Shop'', s_fee_bps = 50, s_display_name = None\<rparr>"

end
