(* ===== verification/Coupons.thy ===== *)
theory Coupons
  imports Stores
begin

text \<open>
  \<open>apps/api/src/coupons/coupons.module.ts\<close>: discount codes. \<open>quote\<close> is the
  authority on whether a code applies and for how much; the redemption is counted when the
  payment is captured. Amounts that the code prints with the decimals of their currency and
  parses back are the decimals they denote.
\<close>

fun DECIMALS :: "currency \<Rightarrow> nat" where
  "DECIMALS USD = 2"
| "DECIMALS KHR = 0"

text \<open>\<open>Decimal.toString()\<close>.\<close>

definition decimal_string :: "decimal \<Rightarrow> string" where
  "decimal_string x = to_fixed (decimal_places x) x"

section \<open>Dashboard operations\<close>

record create_coupon =
  cc_code :: string
  cc_type :: coupon_type
  cc_value :: decimal
  cc_currency :: "currency option"
  cc_min_spend :: "decimal option"
  cc_max :: "int option"
  cc_per_customer :: "int option"
  cc_first_order :: bool
  cc_starts :: "int option"
  cc_expires :: "int option"

definition is_code_char :: "char \<Rightarrow> bool" where
  "is_code_char c \<longleftrightarrow> is_upper c \<or> is_digit c \<or> c = CHR ''_'' \<or> c = CHR ''-''"

definition valid_coupon_code :: "string \<Rightarrow> bool" where
  "valid_coupon_code code \<longleftrightarrow> list_all is_code_char code \<and> 3 \<le> length code \<and> length code \<le> 40"

definition list_coupons :: "auth_user \<Rightarrow> string \<Rightarrow> coupon_row list handler" where
  "list_coupons u storeId =
     bindM (assertStore u storeId CouponRead) (\<lambda>_.
     bindM (manyM coupons (\<lambda>c. cp_store c = storeId)) (\<lambda>rows. ret (take 200 (rev rows))))"

definition create_coupon :: "auth_user \<Rightarrow> string \<Rightarrow> create_coupon \<Rightarrow> coupon_row handler" where
  "create_coupon u storeId dto =
     bindM (assertStore u storeId CouponWrite) (\<lambda>_.
     (let code = to_upper (trim (cc_code dto)); value = cc_value dto in
      seqM (guardM (valid_coupon_code code) (invalidRequest ''Code must be 3-40 chars: letters, numbers, - or _''))
      (seqM (case cc_type dto of
           Percent \<Rightarrow> guardM (\<not> (value \<le> 0 \<or> value > 100)) (invalidRequest ''Percent must be between 1 and 100'')
         | Fixed \<Rightarrow> seqM (guardM (\<not> value \<le> 0) (invalidRequest ''Fixed amount must be greater than 0''))
             (guardM (cc_currency dto \<noteq> None) (invalidRequest ''A fixed-amount code needs a currency'')))
      (catchM
        (bindM (prefixedId ''cpn'') (\<lambda>i.
          let row = \<lparr>cp_id = i, cp_store = storeId, cp_code = code, cp_type = cc_type dto,
              cp_value = to_dp 2 value, cp_currency = cc_currency dto,
              cp_min_spend = map_option (to_dp 2) (cc_min_spend dto), cp_max = cc_max dto,
              cp_per_customer = cc_per_customer dto, cp_first_order = cc_first_order dto,
              cp_count = 0, cp_active = True, cp_starts = cc_starts dto, cp_expires = cc_expires dto\<rparr>
          in seqM (createM coupons coupons_update coupon_clash row) (ret row)))
        (\<lambda>e. if e = P2002
          then throw (invalidRequest (''A coupon with code '' @ code @ '' already exists''))
          else throw e)))))"

record update_coupon =
  uc_active :: "bool option"
  uc_max :: "int option"
  uc_expires :: "int option option"

definition edit_coupon :: "update_coupon \<Rightarrow> coupon_row \<Rightarrow> coupon_row" where
  "edit_coupon dto c =
     c\<lparr>cp_active := (case uc_active dto of None \<Rightarrow> cp_active c | Some b \<Rightarrow> b),
       cp_max := (case uc_max dto of None \<Rightarrow> cp_max c | Some m \<Rightarrow> Some m),
       cp_expires := (case uc_expires dto of None \<Rightarrow> cp_expires c | Some x \<Rightarrow> x)\<rparr>"

definition update_coupon :: "auth_user \<Rightarrow> string \<Rightarrow> update_coupon \<Rightarrow> unit handler" where
  "update_coupon u couponId dto =
     bindM (findM coupons (\<lambda>c. cp_id c = couponId)) (\<lambda>coupon.
     bindM (someM (paymentNotFound ''Coupon not found'') coupon) (\<lambda>coupon.
     bindM (assertStore u (cp_store coupon) CouponWrite) (\<lambda>_.
     updateM coupons coupons_update (\<lambda>c. cp_id c = couponId) (edit_coupon dto))))"

text \<open>Deleting a coupon deletes its redemptions with it.\<close>

definition remove_coupon :: "auth_user \<Rightarrow> string \<Rightarrow> unit handler" where
  "remove_coupon u couponId =
     bindM (findM coupons (\<lambda>c. cp_id c = couponId)) (\<lambda>coupon.
     bindM (someM (paymentNotFound ''Coupon not found'') coupon) (\<lambda>coupon.
     bindM (assertStore u (cp_store coupon) CouponWrite) (\<lambda>_.
     seqM (deleteM coupons coupons_update (\<lambda>c. cp_id c = couponId))
       (deleteM coupon_redemptions coupon_redemptions_update (\<lambda>r. cr_coupon r = couponId)))))"

section \<open>Quotes\<close>

record coupon_quote =
  cq_id :: string
  cq_code :: string
  cq_type :: coupon_type
  cq_discount :: decimal
  cq_before :: decimal
  cq_after :: decimal
  cq_currency :: currency

definition coupon_discount :: "coupon_row \<Rightarrow> decimal \<Rightarrow> nat \<Rightarrow> decimal" where
  "coupon_discount coupon amount dp =
     (let discount = (case cp_type coupon of
          Percent \<Rightarrow> amount * cp_value coupon / 100
        | Fixed \<Rightarrow> min (cp_value coupon) amount);
          rounded = to_dp_down dp discount
      in if rounded > amount then amount else rounded)"

definition quote_coupon ::
    "string \<Rightarrow> string \<Rightarrow> decimal \<Rightarrow> currency \<Rightarrow> string option \<Rightarrow> db \<Rightarrow> exn + coupon_quote" where
  "quote_coupon storeId rawCode amount cur customerId s =
     (let code = to_upper (trim rawCode) in
      if code = [] then Inl (invalidRequest ''Enter a discount code'')
      else case find_by (\<lambda>c. cp_store c = storeId \<and> cp_code c = code) (coupons s) of
        None \<Rightarrow> Inl (invalidRequest ''That code is not valid'')
      | Some coupon \<Rightarrow>
        if \<not> cp_active coupon then Inl (invalidRequest ''That code is not valid'')
        else if (case cp_starts coupon of None \<Rightarrow> False | Some t \<Rightarrow> t > clock s)
        then Inl (invalidRequest ''That code is not active yet'')
        else if (case cp_expires coupon of None \<Rightarrow> False | Some t \<Rightarrow> t \<le> clock s)
        then Inl (invalidRequest ''That code has expired'')
        else if cp_type coupon = Fixed \<and> (case cp_currency coupon of None \<Rightarrow> False | Some k \<Rightarrow> k \<noteq> cur)
        then Inl (invalidRequest (''That code only applies to '' @
          (case cp_currency coupon of None \<Rightarrow> [] | Some k \<Rightarrow> currency_name k) @ '' orders''))
        else if (case cp_max coupon of None \<Rightarrow> False | Some m \<Rightarrow> cp_count coupon \<ge> m)
        then Inl (invalidRequest ''That code has reached its redemption limit'')
        else if (case cp_min_spend coupon of None \<Rightarrow> False | Some m \<Rightarrow> amount < m)
        then Inl (invalidRequest (''Spend at least '' @
          (case cp_min_spend coupon of None \<Rightarrow> [] | Some m \<Rightarrow> decimal_string m) @ '' '' @
          currency_name cur @ '' to use this code''))
        else if cp_first_order coupon \<and> customerId = None
        then Inl (invalidRequest ''Add your phone to use this first-order code'')
        else if cp_first_order coupon \<and>
          count_where (\<lambda>p. p_store p = storeId \<and> p_customer p = customerId \<and> p_status p = Paid) (payments s) > 0
        then Inl (invalidRequest ''That code is for first orders only'')
        else if (case (cp_per_customer coupon, customerId) of
            (Some l, Some c) \<Rightarrow>
              int (count_where (\<lambda>r. cr_coupon r = cp_id coupon \<and> cr_customer r = Some c) (coupon_redemptions s)) \<ge> l
          | _ \<Rightarrow> False)
        then Inl (invalidRequest ''You have already used that code'')
        else
          let dp = DECIMALS cur; discount = coupon_discount coupon amount dp; after = amount - discount in
          if after \<le> 0 then Inl (invalidRequest ''That code covers the whole order - nothing left to pay'')
          else Inr \<lparr>cq_id = cp_id coupon, cq_code = cp_code coupon, cq_type = cp_type coupon,
            cq_discount = to_dp dp discount, cq_before = to_dp dp amount, cq_after = to_dp dp after,
            cq_currency = cur\<rparr>)"

text \<open>\<open>quotePublic\<close>: the customer is the one found by contact, an argument here.\<close>

definition quotePublic :: "(db \<Rightarrow> string option) \<Rightarrow> string \<Rightarrow> string \<Rightarrow> decimal \<Rightarrow> currency \<Rightarrow> coupon_quote handler" where
  "quotePublic findByContact storeId code amount cur =
     (\<lambda>s. (quote_coupon storeId code amount cur (findByContact s) s, s))"

section \<open>Capture\<close>

definition coupons_onPaid :: "payment_row \<Rightarrow> unit handler" where
  "coupons_onPaid payment =
     (case md_coupon (p_metadata payment) of
        None \<Rightarrow> ret ()
      | Some c \<Rightarrow>
        if mc_id c = [] then ret ()
        else catchM
          (transaction
            (bindM (prefixedId ''crd'') (\<lambda>i.
             seqM (createM coupon_redemptions coupon_redemptions_update coupon_redemption_clash
               \<lparr>cr_id = i, cr_coupon = mc_id c, cr_store = p_store payment, cr_customer = p_customer payment,
                cr_payment = p_id payment, cr_before = mc_amount_before c, cr_discount = mc_discount c,
                cr_after = p_amount payment, cr_currency = p_currency payment\<rparr>)
             (updateM coupons coupons_update (\<lambda>x. cp_id x = mc_id c) (\<lambda>x. x\<lparr>cp_count := cp_count x + 1\<rparr>)))))
          (\<lambda>e. ret ()))"

section \<open>What a quote promises\<close>

definition coupon_valid :: "coupon_row \<Rightarrow> bool" where
  "coupon_valid c \<longleftrightarrow> 0 \<le> cp_value c"

definition quotable :: "string \<Rightarrow> db \<Rightarrow> coupon_row \<Rightarrow> bool" where
  "quotable storeId s c \<longleftrightarrow> c \<in> set (coupons s) \<and> cp_store c = storeId \<and> cp_active c \<and>
     (\<forall>t. cp_starts c = Some t \<longrightarrow> t \<le> clock s) \<and> (\<forall>t. cp_expires c = Some t \<longrightarrow> clock s < t) \<and>
     (\<forall>m. cp_max c = Some m \<longrightarrow> cp_count c < m)"

lemma coupon_discount_bounds:
  assumes "0 \<le> cp_value c" and "0 \<le> a" and "scaled dp a"
  shows "0 \<le> coupon_discount c a dp" and "coupon_discount c a dp \<le> a" and "scaled dp (coupon_discount c a dp)"
proof -
  have "0 \<le> (case cp_type c of Percent \<Rightarrow> a * cp_value c / 100 | Fixed \<Rightarrow> min (cp_value c) a)"
    using assms(1,2) by (cases "cp_type c") simp_all
  then show "0 \<le> coupon_discount c a dp"
    using assms(2) by (simp add: coupon_discount_def Let_def to_dp_down_nonneg)
  show "coupon_discount c a dp \<le> a" by (simp add: coupon_discount_def Let_def)
  show "scaled dp (coupon_discount c a dp)" using assms(3) by (simp add: coupon_discount_def Let_def)
qed

lemma quote_coupon_Inr:
  assumes "quote_coupon storeId code a cur who s = Inr q"
  obtains c where "quotable storeId s c" and "cq_id q = cp_id c" and "cq_code q = cp_code c"
    and "cq_currency q = cur" and "0 < a - coupon_discount c a (DECIMALS cur)"
    and "cq_discount q = to_dp (DECIMALS cur) (coupon_discount c a (DECIMALS cur))"
    and "cq_before q = to_dp (DECIMALS cur) a"
    and "cq_after q = to_dp (DECIMALS cur) (a - coupon_discount c a (DECIMALS cur))"
proof -
  from assms obtain c where f: "find_by (\<lambda>c. cp_store c = storeId \<and> cp_code c = to_upper (trim code)) (coupons s) = Some c"
    by (auto simp: quote_coupon_def Let_def split: option.splits if_splits)
  from find_by_SomeD [OF f] have c: "c \<in> set (coupons s)" "cp_store c = storeId" by auto
  note cond = assms [unfolded quote_coupon_def Let_def f option.case]
  have "cp_active c" using cond by (simp split: if_splits)
  moreover have "\<not> (case cp_starts c of None \<Rightarrow> False | Some t \<Rightarrow> clock s < t)"
    "\<not> (case cp_expires c of None \<Rightarrow> False | Some t \<Rightarrow> t \<le> clock s)"
    "\<not> (case cp_max c of None \<Rightarrow> False | Some m \<Rightarrow> m \<le> cp_count c)"
    using cond by (auto split: if_splits)
  ultimately have "quotable storeId s c" using c by (auto simp: quotable_def)
  moreover have "\<not> a - coupon_discount c a (DECIMALS cur) \<le> 0" using cond by (auto split: if_splits)
  moreover have "Inr q = (Inr \<lparr>cq_id = cp_id c, cq_code = cp_code c, cq_type = cp_type c,
      cq_discount = to_dp (DECIMALS cur) (coupon_discount c a (DECIMALS cur)),
      cq_before = to_dp (DECIMALS cur) a, cq_after = to_dp (DECIMALS cur) (a - coupon_discount c a (DECIMALS cur)),
      cq_currency = cur\<rparr> :: exn + coupon_quote)"
    using cond by (auto split: if_splits)
  ultimately show ?thesis using that by simp
qed

section \<open>The redemption count\<close>

definition redeemed_count :: "string \<Rightarrow> db \<Rightarrow> nat" where
  "redeemed_count i s = count_where (\<lambda>r. cr_coupon r = i) (coupon_redemptions s)"

definition counts :: "(string \<Rightarrow> int) \<Rightarrow> coupon_row list \<Rightarrow> bool" where
  "counts h t \<longleftrightarrow> (\<forall>c \<in> set t. cp_count c = h (cp_id c))"

definition coupons_counted :: "db \<Rightarrow> bool" where
  "coupons_counted s \<longleftrightarrow> keyed cp_id (coupons s) \<and>
     counts (\<lambda>i. int (redeemed_count i s)) (coupons s) \<and>
     (\<forall>r \<in> set (coupon_redemptions s). exists_by (\<lambda>c. cp_id c = cr_coupon r) (coupons s))"

lemma exists_id_update: "(\<And>c. cp_id (f c) = cp_id c) \<Longrightarrow>
    exists_by (\<lambda>c. cp_id c = i) (update_where p f t) = exists_by (\<lambda>c. cp_id c = i) t"
  by (induction t) auto

lemma counts_update:
  assumes "counts h t" and "\<And>c. cp_id (f c) = cp_id c"
    and "\<And>c. (if p c then cp_count (f c) else cp_count c) = cp_count c + (k (cp_id c) - h (cp_id c))"
  shows "counts k (update_where p f t)"
proof -
  have "cp_count x = k (cp_id x)" if "x \<in> set (update_where p f t)" for x
  proof -
    from that obtain c where c: "c \<in> set t" "x = (if p c then f c else c)"
      by (auto simp: update_where_def)
    then show ?thesis using assms(1) assms(2) [of c] assms(3) [of c]
      by (cases "p c") (auto simp: counts_def)
  qed
  then show ?thesis by (simp add: counts_def)
qed

lemma coupons_counted_frame:
  "coupons s = coupons t \<Longrightarrow> coupon_redemptions s = coupon_redemptions t \<Longrightarrow> coupons_counted s = coupons_counted t"
  by (simp add: coupons_counted_def redeemed_count_def)

lemma counted_insert:
  assumes "coupons_counted s" and "\<not> exists_by (coupon_clash r) (coupons s)" and "cp_count r = 0"
  shows "coupons_counted (s\<lparr>coupons := coupons s @ [r]\<rparr>)"
proof -
  have new: "\<forall>c \<in> set (coupons s). cp_id c \<noteq> cp_id r"
    using assms(2) by (auto simp: exists_by_iff coupon_clash_def)
  then have "\<not> exists_by (\<lambda>x. cr_coupon x = cp_id r) (coupon_redemptions s)"
    using assms(1) by (fastforce simp: coupons_counted_def exists_by_iff)
  then have "redeemed_count (cp_id r) s = 0" by (simp add: redeemed_count_def count_where_0)
  then show ?thesis using assms(1,3) new
    by (auto simp: coupons_counted_def counts_def keyed_append_one exists_by_iff redeemed_count_def)
qed

lemma counted_redeem:
  assumes "coupons_counted s" and "exists_by (\<lambda>c. cp_id c = cr_coupon r) (coupons s)"
  shows "coupons_counted (s\<lparr>coupon_redemptions := coupon_redemptions s @ [r],
    coupons := update_where (\<lambda>c. cp_id c = cr_coupon r) (\<lambda>c. c\<lparr>cp_count := cp_count c + 1\<rparr>) (coupons s)\<rparr>)"
proof -
  let ?t = "s\<lparr>coupon_redemptions := coupon_redemptions s @ [r],
    coupons := update_where (\<lambda>c. cp_id c = cr_coupon r) (\<lambda>c. c\<lparr>cp_count := cp_count c + 1\<rparr>) (coupons s)\<rparr>"
  have "counts (\<lambda>i. int (redeemed_count i ?t))
      (update_where (\<lambda>c. cp_id c = cr_coupon r) (\<lambda>c. c\<lparr>cp_count := cp_count c + 1\<rparr>) (coupons s))"
    by (rule counts_update [where h = "\<lambda>i. int (redeemed_count i s)"])
      (use assms in \<open>auto simp: coupons_counted_def redeemed_count_def\<close>)
  then show ?thesis using assms
    by (auto simp: coupons_counted_def keyed_update_where exists_id_update)
qed

lemma counted_remove:
  assumes "coupons_counted s"
  shows "coupons_counted (s\<lparr>coupons := delete_where (\<lambda>c. cp_id c = i) (coupons s),
    coupon_redemptions := delete_where (\<lambda>r. cr_coupon r = i) (coupon_redemptions s)\<rparr>)"
proof -
  have n: "count_where (\<lambda>r. cr_coupon r = k) (delete_where (\<lambda>r. cr_coupon r = i) t) = count_where (\<lambda>r. cr_coupon r = k) t"
    if "k \<noteq> i" for k t
    using that by (induction t) (auto simp: delete_where_def)
  show ?thesis using assms
    by (auto simp: coupons_counted_def counts_def redeemed_count_def exists_by_iff n intro: keyed_delete_where) metis
qed

lemma counted_edit:
  assumes "coupons_counted s"
  shows "coupons_counted (s\<lparr>coupons := update_where p (edit_coupon dto) (coupons s)\<rparr>)"
proof -
  have f: "cp_id (edit_coupon dto c) = cp_id c" "cp_count (edit_coupon dto c) = cp_count c" for c
    by (simp_all add: edit_coupon_def)
  have "counts h t \<Longrightarrow> counts h (update_where p (edit_coupon dto) t)" for h t
    by (rule counts_update) (simp_all add: f)
  then show ?thesis using assms
    by (simp add: coupons_counted_def keyed_update_where exists_id_update f redeemed_count_def)
qed

lemma counted_draws: "coupons_counted (s\<lparr>draws := n\<rparr>) = coupons_counted s"
  by (rule coupons_counted_frame) simp_all

lemma create_coupon_counted: "keeps coupons_counted (create_coupon u st dto)"
  unfolding create_coupon_def Let_def
  by (intro keeps_intros keeps_prefixedId keeps_create) (auto simp: counted_draws intro: counted_insert keeps_intros split: coupon_type.split)

lemma update_coupon_counted: "keeps coupons_counted (update_coupon u i dto)"
  unfolding update_coupon_def by (intro keeps_intros keeps_update counted_edit)

lemma remove_coupon_counted: "keeps coupons_counted (remove_coupon u i)"
proof (rule keepsI)
  fix s assume s: "coupons_counted s"
  then show "coupons_counted (snd (remove_coupon u i s))"
    using counted_remove [OF s, of i] by (auto simp: remove_coupon_def op_simps deleteM_def split: option.split sum.split)
qed

lemma onPaid_cases:
  assumes "coupons_onPaid p s = (r, t)"
  obtains (none) "r = Inr ()" and "t = s"
    | (counted) m i where "r = Inr ()" and "md_coupon (p_metadata p) = Some m"
      and "exists_by (\<lambda>c. cp_id c = mc_id m) (coupons s)"
      and "\<not> exists_by (\<lambda>x. cr_payment x = p_id p) (coupon_redemptions s)"
      and "t = s\<lparr>draws := Suc (draws s), coupon_redemptions := coupon_redemptions s @
          [\<lparr>cr_id = i, cr_coupon = mc_id m, cr_store = p_store p, cr_customer = p_customer p,
            cr_payment = p_id p, cr_before = mc_amount_before m, cr_discount = mc_discount m,
            cr_after = p_amount p, cr_currency = p_currency p\<rparr>],
          coupons := update_where (\<lambda>x. cp_id x = mc_id m) (\<lambda>x. x\<lparr>cp_count := cp_count x + 1\<rparr>) (coupons s)\<rparr>"
proof (cases "md_coupon (p_metadata p)")
  case None
  then show ?thesis using assms none by (simp add: coupons_onPaid_def op_simps)
next
  case (Some m)
  let ?row = "\<lparr>cr_id = ''crd_'' @ rnd s (draws s), cr_coupon = mc_id m, cr_store = p_store p, cr_customer = p_customer p,
            cr_payment = p_id p, cr_before = mc_amount_before m, cr_discount = mc_discount m,
            cr_after = p_amount p, cr_currency = p_currency p\<rparr>"
  consider (empty) "mc_id m = []" | (clash) "mc_id m \<noteq> []" "exists_by (coupon_redemption_clash ?row) (coupon_redemptions s)"
    | (missing) "mc_id m \<noteq> []" "\<not> exists_by (coupon_redemption_clash ?row) (coupon_redemptions s)"
        "\<not> exists_by (\<lambda>c. cp_id c = mc_id m) (coupons s)"
    | (ok) "mc_id m \<noteq> []" "\<not> exists_by (coupon_redemption_clash ?row) (coupon_redemptions s)"
        "exists_by (\<lambda>c. cp_id c = mc_id m) (coupons s)"
    by blast
  then show ?thesis
  proof cases
    case empty
    then show ?thesis using assms Some none by (simp add: coupons_onPaid_def op_simps)
  next
    case clash
    then show ?thesis using assms Some none
      by (simp add: coupons_onPaid_def op_simps catchM_def transaction_def)
  next
    case missing
    then show ?thesis using assms Some none
      by (simp add: coupons_onPaid_def op_simps catchM_def transaction_def updateM_def)
  next
    case ok
    then have "\<not> exists_by (\<lambda>x. cr_payment x = p_id p) (coupon_redemptions s)"
      by (auto simp: exists_by_iff coupon_redemption_clash_def)
    then show ?thesis using assms Some counted [of m "''crd_'' @ rnd s (draws s)"] ok
      by (simp add: coupons_onPaid_def op_simps catchM_def transaction_def updateM_def)
  qed
qed

lemma onPaid_coupons_counted: "keeps coupons_counted (coupons_onPaid p)"
proof (rule keepsI)
  fix s assume s: "coupons_counted s"
  obtain r t where o: "coupons_onPaid p s = (r, t)" by (rule prod.exhaust)
  then show "coupons_counted (snd (coupons_onPaid p s))"
  proof (cases rule: onPaid_cases)
    case none
    then show ?thesis using s o by simp
  next
    case (counted m i)
    have "coupons_counted (s\<lparr>draws := Suc (draws s)\<rparr>)" using s by (simp only: counted_draws)
    from counted_redeem [OF this, of "\<lparr>cr_id = i, cr_coupon = mc_id m, cr_store = p_store p, cr_customer = p_customer p,
            cr_payment = p_id p, cr_before = mc_amount_before m, cr_discount = mc_discount m,
            cr_after = p_amount p, cr_currency = p_currency p\<rparr>"] counted(3)
    show ?thesis unfolding o snd_conv counted(5) by simp
  qed
qed

lemma onPaid_repeated:
  assumes "exists_by (\<lambda>x. cr_payment x = p_id p) (coupon_redemptions s)"
  shows "snd (coupons_onPaid p s) = s"
proof -
  obtain r t where o: "coupons_onPaid p s = (r, t)" by (rule prod.exhaust)
  then show ?thesis by (cases rule: onPaid_cases) (use o assms in simp_all)
qed


section \<open>Properties\<close>

text \<open>A quote that is granted is for a coupon of the store that is active, inside its window
  and under its redemption limit; discount and amount due add up to the amount, the discount is
  not negative and something is left to pay.\<close>

theorem quote_coupon_sound:
  assumes "quote_coupon storeId code amount cur who s = Inr q"
    and "\<forall>c \<in> set (coupons s). coupon_valid c" and "scaled (DECIMALS cur) amount" and "0 \<le> amount"
  shows "cq_discount q + cq_after q = amount \<and> cq_before q = amount \<and> 0 \<le> cq_discount q \<and> 0 < cq_after q \<and>
    (\<exists>c. quotable storeId s c \<and> cq_id q = cp_id c \<and> cq_code q = cp_code c)"
proof -
  from assms(1) obtain c where c: "quotable storeId s c" "cq_id q = cp_id c" "cq_code q = cp_code c"
    "0 < amount - coupon_discount c amount (DECIMALS cur)"
    "cq_discount q = to_dp (DECIMALS cur) (coupon_discount c amount (DECIMALS cur))"
    "cq_before q = to_dp (DECIMALS cur) amount"
    "cq_after q = to_dp (DECIMALS cur) (amount - coupon_discount c amount (DECIMALS cur))"
    by (rule quote_coupon_Inr)
  have "0 \<le> cp_value c" using c(1) assms(2) by (auto simp: quotable_def coupon_valid_def)
  note b = coupon_discount_bounds [OF this assms(4,3)]
  show ?thesis using c b assms(3) by (auto simp: to_dp_scaled scaled_diff)
qed

definition sample_coupon :: coupon_row where
  "sample_coupon = \<lparr>cp_id = ''cpn_1'', cp_store = ''store_1'', cp_code = ''TEN'', cp_type = Percent, cp_value = 10,
     cp_currency = None, cp_min_spend = None, cp_max = Some 1, cp_per_customer = None, cp_first_order = False,
     cp_count = 0, cp_active = True, cp_starts = None, cp_expires = None\<rparr>"

definition coupon_db :: db where
  "coupon_db = empty_db\<lparr>stores := [sample_store], coupons := [sample_coupon]\<rparr>"

definition coupon_payment :: "string \<Rightarrow> payment_row" where
  "coupon_payment i = (sample_payment 9 USD)\<lparr>p_id := i, p_metadata :=
     no_metadata\<lparr>md_coupon := Some \<lparr>mc_id = ''cpn_1'', mc_code = ''TEN'', mc_discount = 1, mc_amount_before = 10\<rparr>\<rparr>\<rparr>"

lemma sample_quote: "quote_coupon ''store_1'' ''TEN'' 10 USD None coupon_db =
    Inr \<lparr>cq_id = ''cpn_1'', cq_code = ''TEN'', cq_type = Percent, cq_discount = 1, cq_before = 10, cq_after = 9,
      cq_currency = USD\<rparr>"
proof -
  have t: "to_upper (trim ''TEN'') = ''TEN''" by code_simp
  have i: "to_dp 2 (of_int k) = of_int k" "to_dp_down 2 (of_int k) = of_int k" for k
    by (rule to_dp_scaled to_dp_down_scaled, rule scaled_of_int)+
  have d: "coupon_discount sample_coupon 10 2 = 1"
    using i(2) [of 1] by (simp add: coupon_discount_def sample_coupon_def)
  show ?thesis using i(1) [of 1] i(1) [of 10] i(1) [of 9]
    by (simp add: quote_coupon_def Let_def t coupon_db_def d) (simp add: sample_coupon_def)
qed

theorem quote_coupon_sound_witness:
  "1 + 9 = (10 :: decimal) \<and> (\<exists>c. quotable ''store_1'' coupon_db c \<and> ''cpn_1'' = cp_id c \<and> ''TEN'' = cp_code c)"
  using quote_coupon_sound [OF sample_quote] scaled_of_int [of 2 10]
  by (simp add: coupon_db_def coupon_valid_def sample_coupon_def)

text \<open>C30: The redemption count of every coupon is the number of its redemptions, which all refer
  to a coupon that exists: creating, editing and deleting coupons and capturing payments keep it.\<close>

theorem coupon_counts_kept:
  assumes "coupons_counted s"
  shows "coupons_counted (snd (create_coupon u storeId c s)) \<and> coupons_counted (snd (update_coupon u i d s)) \<and>
    coupons_counted (snd (remove_coupon u i s)) \<and> coupons_counted (snd (coupons_onPaid p s))"
  using assms create_coupon_counted update_coupon_counted remove_coupon_counted onPaid_coupons_counted
  by (blast intro: keepsD)

definition sample_create_coupon :: create_coupon where
  "sample_create_coupon = \<lparr>cc_code = ''five'', cc_type = Fixed, cc_value = 5, cc_currency = Some USD,
     cc_min_spend = None, cc_max = None, cc_per_customer = None, cc_first_order = False, cc_starts = None,
     cc_expires = None\<rparr>"

definition sample_edit_coupon :: update_coupon where
  "sample_edit_coupon = \<lparr>uc_active = Some False, uc_max = None, uc_expires = None\<rparr>"

theorem coupon_counts_kept_witness:
  "coupons_counted (snd (create_coupon sample_user ''store_1'' sample_create_coupon coupon_db)) \<and>
   coupons_counted (snd (update_coupon sample_user ''cpn_1'' sample_edit_coupon coupon_db)) \<and>
   coupons_counted (snd (remove_coupon sample_user ''cpn_1'' coupon_db)) \<and>
   coupons_counted (snd (coupons_onPaid (coupon_payment ''pay_1'') coupon_db))"
  by (rule coupon_counts_kept)
    (simp add: coupons_counted_def counts_def redeemed_count_def coupon_db_def empty_db_def sample_coupon_def keyed_def)

text \<open>A replayed \<open>paid\<close> event does not count a coupon twice: handling it again leaves
  the database as the first handling left it.\<close>

theorem coupon_counted_once:
  "snd (coupons_onPaid p (snd (coupons_onPaid p s))) = snd (coupons_onPaid p s)"
proof -
  obtain r t where o: "coupons_onPaid p s = (r, t)" by (rule prod.exhaust)
  then show ?thesis
  proof (cases rule: onPaid_cases)
    case none
    then show ?thesis using o by simp
  next
    case (counted m i)
    have "exists_by (\<lambda>x. cr_payment x = p_id p) (coupon_redemptions t)"
      unfolding counted(5) by simp
    then show ?thesis using o onPaid_repeated by simp
  qed
qed

text \<open>The redemption limit is checked when a code is quoted only: a payment captured when the
  limit has been reached meanwhile is counted beyond it.\<close>

theorem coupon_limit_exceeded:
  assumes "md_coupon (p_metadata p) = Some m" and "mc_id m = cp_id c" and "cp_id c \<noteq> []"
    and "find_by (\<lambda>x. cp_id x = cp_id c) (coupons s) = Some c" and "cp_max c = Some (cp_count c)"
    and "\<not> exists_by (\<lambda>r. cr_payment r = p_id p \<or> cr_id r = ''crd_'' @ rnd s (draws s)) (coupon_redemptions s)"
  shows "\<exists>d. find_by (\<lambda>x. cp_id x = cp_id c) (coupons (snd (coupons_onPaid p s))) = Some d \<and>
    cp_max d = cp_max c \<and> the (cp_max d) < cp_count d"
proof -
  have ex: "exists_by (\<lambda>x. cp_id x = cp_id c) (coupons s)" using assms(4) by (simp add: exists_by_find)
  have "\<not> exists_by (coupon_redemption_clash \<lparr>cr_id = ''crd_'' @ rnd s (draws s), cr_coupon = cp_id c,
      cr_store = p_store p, cr_customer = p_customer p, cr_payment = p_id p, cr_before = mc_amount_before m,
      cr_discount = mc_discount m, cr_after = p_amount p, cr_currency = p_currency p\<rparr>) (coupon_redemptions s)"
    using assms(6) by (auto simp: exists_by_iff coupon_redemption_clash_def)
  then have "coupons (snd (coupons_onPaid p s)) =
      update_where (\<lambda>x. cp_id x = cp_id c) (\<lambda>x. x\<lparr>cp_count := cp_count x + 1\<rparr>) (coupons s)"
    using assms(1,2,3) ex by (simp add: coupons_onPaid_def op_simps catchM_def transaction_def updateM_def)
  then show ?thesis using assms(4,5) by (simp add: find_by_update_where)
qed

theorem coupon_limit_exceeded_witness:
  "\<exists>d. find_by (\<lambda>x. cp_id x = ''cpn_1'') (coupons (snd (coupons_onPaid (coupon_payment ''pay_2'')
      (coupon_db\<lparr>coupons := [sample_coupon\<lparr>cp_count := 1\<rparr>]\<rparr>)))) = Some d \<and>
    cp_max d = Some 1 \<and> the (cp_max d) < cp_count d"
  using coupon_limit_exceeded [of "coupon_payment ''pay_2''"
      "\<lparr>mc_id = ''cpn_1'', mc_code = ''TEN'', mc_discount = 1, mc_amount_before = 10\<rparr>" "sample_coupon\<lparr>cp_count := 1\<rparr>"
      "coupon_db\<lparr>coupons := [sample_coupon\<lparr>cp_count := 1\<rparr>]\<rparr>"]
  by (simp add: coupon_payment_def sample_coupon_def coupon_db_def empty_db_def)

end
