(* ===== verification/GiftCards.thy ===== *)
theory GiftCards
  imports Coupons
begin

text \<open>
  \<open>apps/api/src/giftcards/giftcards.module.ts\<close>: prepaid balances spent at checkout. A card
  is quoted when the payment is created and debited when it is captured. The mirror of the value
  on the PayChain rail is best effort behind a feature flag and not modelled.
\<close>

section \<open>Issuing\<close>

record issue_dto =
  id_amount :: decimal
  id_currency :: currency
  id_customer :: "string option"
  id_expires :: "int option"

definition issue_card :: "auth_user \<Rightarrow> string \<Rightarrow> issue_dto \<Rightarrow> gift_card_row handler" where
  "issue_card u storeId dto =
     bindM (assertStore u storeId GiftcardWrite) (\<lambda>_.
     seqM (guardM (\<not> id_amount dto \<le> 0) (invalidRequest ''Amount must be greater than 0''))
     (bindM randomBase58 (\<lambda>c. bindM (prefixedId ''gc'') (\<lambda>i. bindM (prefixedId ''gctx'') (\<lambda>t.
       let amount = to_dp 2 (id_amount dto);
           gcard = \<lparr>gc_id = i, gc_store = storeId, gc_code = ''GC'' @ to_upper c, gc_currency = id_currency dto,
             gc_initial = amount, gc_balance = amount, gc_customer = id_customer dto, gc_active = True,
             gc_expires = id_expires dto\<rparr>
       in transaction
         (seqM (createM gift_cards gift_cards_update gift_card_clash gcard)
         (seqM (createM gift_txns gift_txns_update gift_txn_clash
           \<lparr>gt_id = t, gt_card = i, gt_type = GIssue, gt_amount = amount, gt_balance = amount,
            gt_payment = None, gt_reason = Some ''issued''\<rparr>)
         (ret gcard))))))))"

definition list_cards :: "auth_user \<Rightarrow> string \<Rightarrow> gift_card_row list handler" where
  "list_cards u storeId =
     bindM (assertStore u storeId GiftcardRead) (\<lambda>_.
     bindM (manyM gift_cards (\<lambda>c. gc_store c = storeId)) (\<lambda>rows. ret (take 200 (rev rows))))"

definition find_card :: "string \<Rightarrow> string \<Rightarrow> db \<Rightarrow> gift_card_row option" where
  "find_card storeId code s = find_by (\<lambda>c. gc_store c = storeId \<and> gc_code c = code) (gift_cards s)"

definition card_live :: "gift_card_row \<Rightarrow> int \<Rightarrow> bool" where
  "card_live c t \<longleftrightarrow> (case gc_expires c of None \<Rightarrow> True | Some x \<Rightarrow> x > t)"

definition publicBalance :: "string \<Rightarrow> string \<Rightarrow> db \<Rightarrow> exn + (string \<times> currency \<times> decimal \<times> bool)" where
  "publicBalance storeId code s =
     (case find_card storeId (to_upper (trim code)) s of
        None \<Rightarrow> Inl (paymentNotFound ''No gift card with that code'')
      | Some c \<Rightarrow> Inr (gc_code c, gc_currency c, gc_balance c, gc_active c \<and> card_live c (clock s)))"

section \<open>Quotes and capture\<close>

record gift_quote =
  gq_id :: string
  gq_code :: string
  gq_applied :: decimal
  gq_remaining :: decimal
  gq_currency :: currency

definition quote_card :: "string \<Rightarrow> string \<Rightarrow> decimal \<Rightarrow> currency \<Rightarrow> db \<Rightarrow> exn + gift_quote" where
  "quote_card storeId rawCode amount cur s =
     (let code = to_upper (trim rawCode) in
      if code = [] then Inl (invalidRequest ''Enter a gift card code'')
      else case find_card storeId code s of
        None \<Rightarrow> Inl (invalidRequest ''That gift card is not valid'')
      | Some gcard \<Rightarrow>
        if \<not> gc_active gcard then Inl (invalidRequest ''That gift card is not valid'')
        else if \<not> card_live gcard (clock s) then Inl (invalidRequest ''That gift card has expired'')
        else if gc_currency gcard \<noteq> cur then Inl (invalidRequest (''That gift card is in '' @
          currency_name (gc_currency gcard) @ '', not '' @ currency_name cur))
        else if gc_balance gcard \<le> 0 then Inl (invalidRequest ''That gift card has no balance left'')
        else
          let dp = DECIMALS cur; applied = to_dp_down dp (min (gc_balance gcard) amount);
              remaining = amount - applied
          in Inr \<lparr>gq_id = gc_id gcard, gq_code = gc_code gcard, gq_applied = to_dp dp applied,
            gq_remaining = to_dp dp remaining, gq_currency = cur\<rparr>)"

definition gift_debit :: "payment_row \<Rightarrow> gift_meta \<Rightarrow> unit handler" where
  "gift_debit payment g =
     bindM (findM gift_txns (\<lambda>t. gt_card t = mg_id g \<and> gt_payment t = Some (p_id payment) \<and> gt_type t = GRedeem)) (\<lambda>already.
     if already \<noteq> None then ret ()
     else bindM (findM gift_cards (\<lambda>c. gc_id c = mg_id g)) (\<lambda>gcard.
       case gcard of
         None \<Rightarrow> ret ()
       | Some gcard \<Rightarrow>
         let diff = gc_balance gcard - mg_applied g; newBalance = (if diff < 0 then 0 else diff) in
         bindM (update_manyM gift_cards gift_cards_update
             (\<lambda>c. gc_id c = mg_id g \<and> gc_balance c = gc_balance gcard) (\<lambda>c. c\<lparr>gc_balance := newBalance\<rparr>)) (\<lambda>count.
         if count \<noteq> 1 then ret ()
         else bindM (prefixedId ''gctx'') (\<lambda>i.
           createM gift_txns gift_txns_update gift_txn_clash
             \<lparr>gt_id = i, gt_card = mg_id g, gt_type = GRedeem, gt_amount = - mg_applied g, gt_balance = newBalance,
              gt_payment = Some (p_id payment), gt_reason = Some ''redeemed at checkout''\<rparr>))))"

definition giftcards_onPaid :: "payment_row \<Rightarrow> unit handler" where
  "giftcards_onPaid payment =
     (case md_gift_card (p_metadata payment) of
        None \<Rightarrow> ret ()
      | Some g \<Rightarrow>
        if mg_id g = [] \<or> mg_applied g \<le> 0 then ret ()
        else catchM (transaction (gift_debit payment g)) (\<lambda>e. ret ()))"

section \<open>Balances and their journal\<close>

definition card_txns :: "string \<Rightarrow> db \<Rightarrow> decimal" where
  "card_txns i s = sum_list (map gt_amount (filter (\<lambda>t. gt_card t = i) (gift_txns s)))"

definition cards_ok :: "db \<Rightarrow> bool" where
  "cards_ok s \<longleftrightarrow> keyed gc_id (gift_cards s) \<and> (\<forall>c \<in> set (gift_cards s). 0 \<le> gc_balance c) \<and>
     (\<forall>t \<in> set (gift_txns s). exists_by (\<lambda>c. gc_id c = gt_card t) (gift_cards s))"

definition cards_journaled :: "db \<Rightarrow> bool" where
  "cards_journaled s \<longleftrightarrow> (\<forall>c \<in> set (gift_cards s). gc_balance c = card_txns (gc_id c) s)"

definition redeemed_for :: "payment_row \<Rightarrow> string \<Rightarrow> db \<Rightarrow> bool" where
  "redeemed_for p i s \<longleftrightarrow>
     exists_by (\<lambda>t. gt_card t = i \<and> gt_payment t = Some (p_id p) \<and> gt_type t = GRedeem) (gift_txns s)"

definition clamp0 :: "decimal \<Rightarrow> decimal" where
  "clamp0 x = (if x < 0 then 0 else x)"

definition redeem_row :: "payment_row \<Rightarrow> gift_meta \<Rightarrow> string \<Rightarrow> decimal \<Rightarrow> gift_txn_row" where
  "redeem_row p g i b = \<lparr>gt_id = i, gt_card = mg_id g, gt_type = GRedeem, gt_amount = - mg_applied g, gt_balance = b,
     gt_payment = Some (p_id p), gt_reason = Some ''redeemed at checkout''\<rparr>"

definition debited :: "payment_row \<Rightarrow> gift_meta \<Rightarrow> gift_card_row \<Rightarrow> string \<Rightarrow> db \<Rightarrow> db" where
  "debited p g c i s = s\<lparr>draws := Suc (draws s),
     gift_cards := update_where (\<lambda>x. gc_id x = gc_id c) (\<lambda>x. x\<lparr>gc_balance := clamp0 (gc_balance c - mg_applied g)\<rparr>) (gift_cards s),
     gift_txns := gift_txns s @ [redeem_row p g i (clamp0 (gc_balance c - mg_applied g))]\<rparr>"

lemma cas_count:
  assumes "keyed gc_id t" and "find_by (\<lambda>c. gc_id c = i) t = Some c"
  shows "count_where (\<lambda>x. gc_id x = i \<and> gc_balance x = gc_balance c) t = 1"
    and "update_where (\<lambda>x. gc_id x = i \<and> gc_balance x = gc_balance c) f t = update_where (\<lambda>x. gc_id x = i) f t"
  using assms
proof (induction t)
  case (Cons x t)
  {
    case 1
    have "gc_id x = i \<Longrightarrow> \<not> exists_by (\<lambda>y. gc_id y = i \<and> gc_balance y = gc_balance x) t"
      using 1 by (auto simp: keyed_def exists_by_iff image_iff)
    then show ?case using 1 Cons.IH(1) by (auto simp: keyed_def count_where_0 split: if_splits)
  next
    case 2
    have "gc_id x = i \<Longrightarrow> \<forall>y \<in> set t. gc_id y \<noteq> i" using 2 by (auto simp: keyed_def image_iff)
    then have "gc_id x = i \<Longrightarrow> update_where (\<lambda>y. gc_id y = i \<and> gc_balance y = gc_balance c) f t = update_where (\<lambda>y. gc_id y = i) f t"
      by (simp add: update_where_none)
    then show ?case using 2 Cons.IH(2) by (auto simp: keyed_def split: if_splits)
  }
qed simp_all

lemma giftcards_onPaid_cases:
  assumes "giftcards_onPaid p s = (r, t)" and "keyed gc_id (gift_cards s)"
  obtains (none) "r = Inr ()" and "t = s"
    | (debit) g c i where "r = Inr ()" and "md_gift_card (p_metadata p) = Some g" and "0 < mg_applied g"
      and "find_by (\<lambda>x. gc_id x = mg_id g) (gift_cards s) = Some c" and "\<not> redeemed_for p (mg_id g) s"
      and "t = debited p g c i s"
proof (cases "md_gift_card (p_metadata p)")
  case None
  then show ?thesis using assms none by (simp add: giftcards_onPaid_def op_simps)
next
  case (Some g)
  show ?thesis
  proof (cases "mg_id g = [] \<or> mg_applied g \<le> 0")
    case True
    then have "(r, t) = (Inr (), s)" using assms(1) Some by (simp add: giftcards_onPaid_def op_simps)
    then show ?thesis using none by simp
  next
    case applied: False
    show ?thesis
    proof (cases "redeemed_for p (mg_id g) s \<or> find_by (\<lambda>x. gc_id x = mg_id g) (gift_cards s) = None")
      case True
      then have "gift_debit p g s = (Inr (), s)"
        by (auto simp: gift_debit_def op_simps redeemed_for_def exists_by_find)
      then have "(r, t) = (Inr (), s)"
        using assms(1) Some applied by (simp add: giftcards_onPaid_def catchM_def transaction_def)
      then show ?thesis using none by simp
    next
      case False
      then obtain c where c: "find_by (\<lambda>x. gc_id x = mg_id g) (gift_cards s) = Some c" by auto
      then have id: "gc_id c = mg_id g" by (auto dest: find_by_SomeD)
      let ?i = "''gctx_'' @ rnd s (draws s)"
      let ?row = "redeem_row p g ?i (clamp0 (gc_balance c - mg_applied g))"
      have new: "find_by (\<lambda>t. gt_card t = mg_id g \<and> gt_payment t = Some (p_id p) \<and> gt_type t = GRedeem) (gift_txns s) = None"
        using False by (simp add: redeemed_for_def exists_by_find)
      have run: "gift_debit p g s = (if exists_by (gift_txn_clash ?row) (gift_txns s)
          then (Inl P2002, (debited p g c ?i s)\<lparr>gift_txns := gift_txns s\<rparr>) else (Inr (), debited p g c ?i s))"
        using new c cas_count [OF assms(2) c]
        by (simp add: gift_debit_def op_simps Let_def createM_def redeem_row_def debited_def clamp0_def id)
      show ?thesis
      proof (cases "exists_by (gift_txn_clash ?row) (gift_txns s)")
        case True
        then have "(r, t) = (Inr (), s)" using assms(1) Some applied run
          by (simp add: giftcards_onPaid_def catchM_def transaction_def op_simps)
        then show ?thesis using none by simp
      next
        case False
        then have "(r, t) = (Inr (), debited p g c ?i s)" using assms(1) Some applied run
          by (simp add: giftcards_onPaid_def catchM_def transaction_def)
        then show ?thesis using debit Some applied c \<open>\<not> (redeemed_for p (mg_id g) s \<or> _)\<close> by auto
      qed
    qed
  qed
qed

lemma debited_fields [simp]:
  "gift_txns (debited p g c i s) = gift_txns s @ [redeem_row p g i (clamp0 (gc_balance c - mg_applied g))]"
  "gift_cards (debited p g c i s) =
     update_where (\<lambda>x. gc_id x = gc_id c) (\<lambda>x. x\<lparr>gc_balance := clamp0 (gc_balance c - mg_applied g)\<rparr>) (gift_cards s)"
  by (simp_all add: debited_def)

lemma exists_card_update: "(\<And>c. gc_id (f c) = gc_id c) \<Longrightarrow>
    exists_by (\<lambda>c. gc_id c = i) (update_where p f t) = exists_by (\<lambda>c. gc_id c = i) t"
  by (induction t) auto

lemma debited_ok:
  assumes "cards_ok s" and "find_by (\<lambda>x. gc_id x = mg_id g) (gift_cards s) = Some c"
  shows "cards_ok (debited p g c i s)"
proof -
  have "exists_by (\<lambda>x. gc_id x = mg_id g) (gift_cards s)" using assms(2) by (simp add: exists_by_find)
  moreover have "0 \<le> gc_balance x" if "x \<in> set (gift_cards (debited p g c i s))" for x
    using that assms(1) by (auto simp: cards_ok_def update_where_def clamp0_def)
  ultimately show ?thesis using assms(1)
    by (auto simp: cards_ok_def keyed_update_where exists_card_update redeem_row_def)
qed

lemma card_txns_debited: "card_txns k (debited p g c i s) = card_txns k s - (if k = mg_id g then mg_applied g else 0)"
  by (simp add: card_txns_def redeem_row_def)

lemma debited_balance:
  assumes "find_by (\<lambda>x. gc_id x = mg_id g) (gift_cards s) = Some c"
  shows "find_by (\<lambda>x. gc_id x = mg_id g) (gift_cards (debited p g c i s)) =
    Some (c\<lparr>gc_balance := clamp0 (gc_balance c - mg_applied g)\<rparr>)"
  using assms find_by_SomeD [OF assms] by (simp add: find_by_update_where)

lemma debited_journaled:
  assumes ok: "cards_ok s" and j: "cards_journaled s"
    and c: "find_by (\<lambda>x. gc_id x = mg_id g) (gift_cards s) = Some c" and le: "mg_applied g \<le> gc_balance c"
  shows "cards_journaled (debited p g c i s)"
  unfolding cards_journaled_def
proof
  fix x assume x: "x \<in> set (gift_cards (debited p g c i s))"
  from find_by_SomeD [OF c] have cid: "gc_id c = mg_id g" "c \<in> set (gift_cards s)" by auto
  from x obtain y where y: "y \<in> set (gift_cards s)"
    "x = (if gc_id y = gc_id c then y\<lparr>gc_balance := clamp0 (gc_balance c - mg_applied g)\<rparr> else y)"
    by (auto simp: update_where_def)
  show "gc_balance x = card_txns (gc_id x) (debited p g c i s)"
  proof (cases "gc_id y = gc_id c")
    case True
    then have "y = c" using ok y(1) cid(2) by (auto simp: cards_ok_def dest: keyed_unique)
    then show ?thesis using y(2) j cid le
      by (simp add: card_txns_debited cards_journaled_def clamp0_def)
  next
    case False
    then show ?thesis using y j cid by (simp add: card_txns_debited cards_journaled_def)
  qed
qed

definition new_card :: "string \<Rightarrow> issue_dto \<Rightarrow> db \<Rightarrow> gift_card_row" where
  "new_card storeId dto s = \<lparr>gc_id = ''gc_'' @ rnd s (Suc (draws s)), gc_store = storeId,
     gc_code = ''GC'' @ to_upper (rnd s (draws s)), gc_currency = id_currency dto,
     gc_initial = to_dp 2 (id_amount dto), gc_balance = to_dp 2 (id_amount dto), gc_customer = id_customer dto,
     gc_active = True, gc_expires = id_expires dto\<rparr>"

definition issue_row :: "gift_card_row \<Rightarrow> string \<Rightarrow> gift_txn_row" where
  "issue_row gcard i = \<lparr>gt_id = i, gt_card = gc_id gcard, gt_type = GIssue, gt_amount = gc_balance gcard,
     gt_balance = gc_balance gcard, gt_payment = None, gt_reason = Some ''issued''\<rparr>"

lemma issue_card_unfold: "issue_card u st dto s =
    (case fst (assertStore u st GiftcardWrite s) of Inl e \<Rightarrow> (Inl e, s)
     | Inr x \<Rightarrow>
       if id_amount dto \<le> 0 then (Inl (invalidRequest ''Amount must be greater than 0''), s)
       else let gcard = new_card st dto s; row = issue_row gcard (''gctx_'' @ rnd s (Suc (Suc (draws s))));
                v = s\<lparr>draws := Suc (Suc (Suc (draws s)))\<rparr> in
         if exists_by (gift_card_clash gcard) (gift_cards s) \<or> exists_by (gift_txn_clash row) (gift_txns s)
         then (Inl P2002, v)
         else (Inr gcard, v\<lparr>gift_cards := gift_cards s @ [gcard], gift_txns := gift_txns s @ [row]\<rparr>))"
  by (simp add: issue_card_def op_simps transaction_def Let_def new_card_def issue_row_def split: sum.split)

lemma issue_card_cases:
  assumes "issue_card u st dto s = (r, t)"
  obtains (refused) "gift_cards t = gift_cards s" and "gift_txns t = gift_txns s"
    | (issued) gc i where "r = Inr gc" and "0 < id_amount dto" and "gc_balance gc = to_dp 2 (id_amount dto)"
      and "\<not> exists_by (gift_card_clash gc) (gift_cards s)"
      and "gift_cards t = gift_cards s @ [gc]" and "gift_txns t = gift_txns s @ [issue_row gc i]"
proof -
  note run = assms [unfolded issue_card_unfold Let_def]
  show ?thesis
  proof (cases "fst (assertStore u st GiftcardWrite s)")
    case (Inl e)
    with run have "t = s" by simp
    then show ?thesis using refused by simp
  next
    case (Inr x)
    let ?c = "new_card st dto s"
    let ?row = "issue_row ?c (''gctx_'' @ rnd s (Suc (Suc (draws s))))"
    consider (no) "id_amount dto \<le> 0"
      | (clash) "0 < id_amount dto" "exists_by (gift_card_clash ?c) (gift_cards s) \<or> exists_by (gift_txn_clash ?row) (gift_txns s)"
      | (yes) "0 < id_amount dto" "\<not> exists_by (gift_card_clash ?c) (gift_cards s)" "\<not> exists_by (gift_txn_clash ?row) (gift_txns s)"
      by linarith
    then show ?thesis
    proof cases
      case no
      with run Inr have "t = s" by simp
      then show ?thesis using refused by simp
    next
      case clash
      with run Inr have "t = s\<lparr>draws := Suc (Suc (Suc (draws s)))\<rparr>" by simp
      then show ?thesis using refused by simp
    next
      case yes
      with run Inr have "r = Inr ?c" "gift_cards t = gift_cards s @ [?c]" "gift_txns t = gift_txns s @ [?row]"
        by auto
      then show ?thesis using issued yes by (simp add: new_card_def)
    qed
  qed
qed

lemma issue_card_ok:
  assumes "cards_ok s" and "cards_journaled s"
  shows "cards_ok (snd (issue_card u st dto s)) \<and> cards_journaled (snd (issue_card u st dto s))"
proof -
  obtain r t where o: "issue_card u st dto s = (r, t)" by (rule prod.exhaust)
  then show ?thesis
  proof (cases rule: issue_card_cases)
    case refused
    then show ?thesis using assms o by (simp add: cards_ok_def cards_journaled_def card_txns_def)
  next
    case (issued gc i)
    have new: "\<forall>x \<in> set (gift_cards s). gc_id x \<noteq> gc_id gc"
      using issued(4) by (auto simp: exists_by_iff gift_card_clash_def)
    have zero: "filter (\<lambda>t. gt_card t = gc_id gc) (gift_txns s) = []"
      using assms(1) new by (auto simp: cards_ok_def exists_by_iff filter_empty_conv)
    have "0 \<le> gc_balance gc" using issued(2,3) by (simp add: to_dp_nonneg)
    then show ?thesis using assms issued new zero o
      by (auto simp: cards_ok_def cards_journaled_def card_txns_def keyed_append_one exists_by_iff issue_row_def)
  qed
qed

lemma quote_card_parts:
  assumes "quote_card storeId code amount cur s = Inr q" and "scaled (DECIMALS cur) amount" and "0 \<le> amount"
  shows "gq_applied q + gq_remaining q = amount \<and> 0 \<le> gq_applied q \<and> 0 \<le> gq_remaining q \<and>
    (\<exists>c \<in> set (gift_cards s). gc_id c = gq_id q \<and> gc_store c = storeId \<and> gc_active c \<and>
      card_live c (clock s) \<and> gc_currency c = cur \<and> gq_applied q \<le> gc_balance c)"
proof -
  from assms(1) obtain c where f: "find_card storeId (to_upper (trim code)) s = Some c"
    and c: "gc_active c" "card_live c (clock s)" "gc_currency c = cur" "\<not> gc_balance c \<le> 0"
    and q: "q = \<lparr>gq_id = gc_id c, gq_code = gc_code c,
        gq_applied = to_dp (DECIMALS cur) (to_dp_down (DECIMALS cur) (min (gc_balance c) amount)),
        gq_remaining = to_dp (DECIMALS cur) (amount - to_dp_down (DECIMALS cur) (min (gc_balance c) amount)),
        gq_currency = cur\<rparr>"
    by (auto simp: quote_card_def Let_def split: option.splits if_splits)
  have m: "0 \<le> min (gc_balance c) amount" using c(4) assms(3) by simp
  have d: "0 \<le> to_dp_down (DECIMALS cur) (min (gc_balance c) amount)"
    "to_dp_down (DECIMALS cur) (min (gc_balance c) amount) \<le> min (gc_balance c) amount"
    using m by (rule to_dp_down_nonneg to_dp_down_le)+
  from f have "c \<in> set (gift_cards s)" "gc_store c = storeId"
    by (auto simp: find_card_def dest: find_by_SomeD)
  then show ?thesis using q c d assms(2) by (auto simp: to_dp_scaled scaled_diff)
qed

section \<open>Properties\<close>

text \<open>A granted quote is for a live card of the store in the currency of the order; what it
  applies and what remains add up to the amount, and it applies no more than the card holds.\<close>

theorem quote_card_sound:
  assumes "quote_card storeId code amount cur s = Inr q" and "scaled (DECIMALS cur) amount" and "0 \<le> amount"
  shows "gq_applied q + gq_remaining q = amount \<and> 0 \<le> gq_applied q \<and> 0 \<le> gq_remaining q \<and>
    (\<exists>c \<in> set (gift_cards s). gc_id c = gq_id q \<and> gc_store c = storeId \<and> gc_active c \<and>
      card_live c (clock s) \<and> gc_currency c = cur \<and> gq_applied q \<le> gc_balance c)"
  using assms by (rule quote_card_parts)

definition sample_card :: gift_card_row where
  "sample_card = \<lparr>gc_id = ''gc_1'', gc_store = ''store_1'', gc_code = ''GIFT'', gc_currency = USD, gc_initial = 5,
     gc_balance = 5, gc_customer = None, gc_active = True, gc_expires = None\<rparr>"

definition card_db :: db where
  "card_db = empty_db\<lparr>gift_cards := [sample_card], gift_txns := [\<lparr>gt_id = ''gctx_a'', gt_card = ''gc_1'',
     gt_type = GIssue, gt_amount = 5, gt_balance = 5, gt_payment = None, gt_reason = Some ''issued''\<rparr>]\<rparr>"

definition card_payment :: "string \<Rightarrow> decimal \<Rightarrow> payment_row" where
  "card_payment i x = (sample_payment 3 USD)\<lparr>p_id := i, p_metadata :=
     no_metadata\<lparr>md_gift_card := Some \<lparr>mg_id = ''gc_1'', mg_code = ''GIFT'', mg_applied = x\<rparr>\<rparr>\<rparr>"

lemma card_db_ok: "cards_ok card_db" "cards_journaled card_db"
  by (simp_all add: cards_ok_def cards_journaled_def card_txns_def card_db_def empty_db_def sample_card_def keyed_def)

lemma sample_card_quote: "quote_card ''store_1'' ''gift'' 8 USD card_db =
    Inr \<lparr>gq_id = ''gc_1'', gq_code = ''GIFT'', gq_applied = 5, gq_remaining = 3, gq_currency = USD\<rparr>"
proof -
  have t: "to_upper (trim ''gift'') = ''GIFT''" by code_simp
  have i: "to_dp 2 (of_int k) = of_int k" "to_dp_down 2 (of_int k) = of_int k" for k
    by (rule to_dp_scaled to_dp_down_scaled, rule scaled_of_int)+
  show ?thesis using i(1) [of 5] i(1) [of 3] i(2) [of 5]
    by (simp add: quote_card_def find_card_def card_live_def Let_def t card_db_def sample_card_def)
qed

theorem quote_card_sound_witness:
  "5 + 3 = (8 :: decimal) \<and> (\<exists>c \<in> set (gift_cards card_db). gc_id c = ''gc_1'' \<and> (5 :: decimal) \<le> gc_balance c)"
  using quote_card_sound [OF sample_card_quote] scaled_of_int [of 2 8] by auto

text \<open>No balance ever goes below zero and identifiers stay unique, whatever is issued and
  captured; and as long as a capture applies no more than the card holds, every balance remains the
  sum of the card's transactions.\<close>

theorem gift_card_journal_kept:
  assumes "cards_ok s" and "cards_journaled s"
  shows "cards_ok (snd (giftcards_onPaid p s)) \<and> cards_ok (snd (issue_card u storeId dto s)) \<and>
    cards_journaled (snd (issue_card u storeId dto s)) \<and>
    ((\<forall>g c. md_gift_card (p_metadata p) = Some g \<and> find_by (\<lambda>x. gc_id x = mg_id g) (gift_cards s) = Some c \<longrightarrow>
        mg_applied g \<le> gc_balance c) \<longrightarrow> cards_journaled (snd (giftcards_onPaid p s)))"
proof -
  obtain r t where o: "giftcards_onPaid p s = (r, t)" by (rule prod.exhaust)
  have k: "keyed gc_id (gift_cards s)" using assms(1) by (simp add: cards_ok_def)
  from o k have "cards_ok t \<and> ((\<forall>g c. md_gift_card (p_metadata p) = Some g \<and>
      find_by (\<lambda>x. gc_id x = mg_id g) (gift_cards s) = Some c \<longrightarrow> mg_applied g \<le> gc_balance c) \<longrightarrow> cards_journaled t)"
  proof (cases rule: giftcards_onPaid_cases)
    case none
    then show ?thesis using assms by simp
  next
    case (debit g c i)
    then show ?thesis using assms by (simp add: debited_ok debited_journaled)
  qed
  with o issue_card_ok [OF assms, of u storeId dto] show ?thesis by simp
qed

definition sample_issue :: issue_dto where
  "sample_issue = \<lparr>id_amount = 20, id_currency = USD, id_customer = None, id_expires = None\<rparr>"

theorem gift_card_journal_kept_witness:
  "cards_ok (snd (giftcards_onPaid (card_payment ''pay_1'' 5) card_db)) \<and>
   cards_journaled (snd (issue_card sample_user ''store_1'' sample_issue card_db)) \<and>
   cards_journaled (snd (giftcards_onPaid (card_payment ''pay_1'' 5) card_db))"
proof -
  have "mg_applied g \<le> gc_balance c"
    if "md_gift_card (p_metadata (card_payment ''pay_1'' 5)) = Some g"
      "find_by (\<lambda>x. gc_id x = mg_id g) (gift_cards card_db) = Some c" for g c
  proof -
    from that(1) have "mg_applied g = 5" "mg_id g = ''gc_1''" by (auto simp: card_payment_def)
    with that(2) show ?thesis by (auto simp: card_db_def sample_card_def)
  qed
  then show ?thesis
    using gift_card_journal_kept [OF card_db_ok, of "card_payment ''pay_1'' 5" sample_user "''store_1''" sample_issue]
    by blast
qed

text \<open>A card is debited at most once per payment: handling a replayed \<open>paid\<close> event again
  changes nothing.\<close>

theorem gift_card_debited_once:
  assumes "keyed gc_id (gift_cards s)"
  shows "snd (giftcards_onPaid p (snd (giftcards_onPaid p s))) = snd (giftcards_onPaid p s)"
proof -
  obtain r t where o: "giftcards_onPaid p s = (r, t)" by (rule prod.exhaust)
  from o assms show ?thesis
  proof (cases rule: giftcards_onPaid_cases)
    case none
    then show ?thesis using o by simp
  next
    case (debit g c i)
    have k: "keyed gc_id (gift_cards t)" using assms debit(6) by (simp add: keyed_update_where)
    have red: "redeemed_for p (mg_id g) t" using debit(6) by (simp add: redeemed_for_def redeem_row_def)
    obtain q v where a: "giftcards_onPaid p t = (q, v)" by (rule prod.exhaust)
    from a k have "v = t"
      by (cases rule: giftcards_onPaid_cases) (use debit(2) red in auto)
    then show ?thesis using o a by simp
  qed
qed

theorem gift_card_debited_once_witness:
  "snd (giftcards_onPaid (card_payment ''pay_1'' 5) (snd (giftcards_onPaid (card_payment ''pay_1'' 5) card_db))) =
    snd (giftcards_onPaid (card_payment ''pay_1'' 5) card_db)"
  by (rule gift_card_debited_once) (use card_db_ok in \<open>simp add: cards_ok_def\<close>)

text \<open>Two payments quoted against the same full balance are both captured in full: each is
  recorded as redeeming all of it, the balance stops at zero, and the transactions of the card no
  longer add up to its balance.\<close>

theorem gift_card_overspent:
  assumes "cards_ok s" and "cards_journaled s" and "find_by (\<lambda>x. gc_id x = mg_id g) (gift_cards s) = Some c"
    and "mg_applied g = gc_balance c" and "0 < gc_balance c" and "mg_id g \<noteq> []"
    and "md_gift_card (p_metadata p) = Some g" and "md_gift_card (p_metadata q) = Some g" and "p_id p \<noteq> p_id q"
    and "\<not> redeemed_for p (mg_id g) s" and "\<not> redeemed_for q (mg_id g) s" and "inj (rnd s)"
    and "\<forall>n. \<forall>t \<in> set (gift_txns s). draws s \<le> n \<longrightarrow> gt_id t \<noteq> ''gctx_'' @ rnd s n"
  shows "\<exists>d. let t = snd (giftcards_onPaid q (snd (giftcards_onPaid p s))) in
    redeemed_for p (mg_id g) t \<and> redeemed_for q (mg_id g) t \<and>
    find_by (\<lambda>x. gc_id x = mg_id g) (gift_cards t) = Some d \<and> gc_balance d = 0 \<and>
    card_txns (mg_id g) t = - gc_balance c"
proof -
  have run: "giftcards_onPaid v t = (Inr (), debited v g x (''gctx_'' @ rnd t (draws t)) t)"
    if "keyed gc_id (gift_cards t)" "md_gift_card (p_metadata v) = Some g" "\<not> redeemed_for v (mg_id g) t"
      "find_by (\<lambda>x. gc_id x = mg_id g) (gift_cards t) = Some x"
      "\<forall>y \<in> set (gift_txns t). gt_id y \<noteq> ''gctx_'' @ rnd t (draws t)" for v t x
  proof -
    have new: "find_by (\<lambda>y. gt_card y = mg_id g \<and> gt_payment y = Some (p_id v) \<and> gt_type y = GRedeem) (gift_txns t) = None"
      using that(3) by (simp add: redeemed_for_def exists_by_find)
    have id: "gc_id x = mg_id g" using find_by_SomeD [OF that(4)] by simp
    have "\<not> exists_by (gift_txn_clash (redeem_row v g (''gctx_'' @ rnd t (draws t)) b)) (gift_txns t)" for b
      using that(5) unfolding exists_by_iff gift_txn_clash_def redeem_row_def by fastforce
    then have "gift_debit v g t = (Inr (), debited v g x (''gctx_'' @ rnd t (draws t)) t)"
      using new that(4) cas_count [OF that(1,4)]
      by (simp add: gift_debit_def op_simps Let_def createM_def redeem_row_def debited_def clamp0_def id)
    then show ?thesis using that(2) assms(3-6)
      by (simp add: giftcards_onPaid_def catchM_def transaction_def)
  qed
  have k: "keyed gc_id (gift_cards s)" using assms(1) by (simp add: cards_ok_def)
  define u where "u = debited p g c (''gctx_'' @ rnd s (draws s)) s"
  have p: "giftcards_onPaid p s = (Inr (), u)"
    unfolding u_def by (rule run [OF k assms(7,10,3)]) (use assms(13) in blast)
  let ?c = "c\<lparr>gc_balance := clamp0 (gc_balance c - mg_applied g)\<rparr>"
  have cu: "find_by (\<lambda>x. gc_id x = mg_id g) (gift_cards u) = Some ?c"
    unfolding u_def by (rule debited_balance) (rule assms(3))
  have ku: "keyed gc_id (gift_cards u)" using k by (simp add: u_def keyed_update_where)
  have du: "draws u = Suc (draws s)" "rnd u = rnd s" by (simp_all add: u_def debited_def)
  have nu: "\<not> redeemed_for q (mg_id g) u"
    using assms(9,11) by (simp add: u_def redeemed_for_def redeem_row_def)
  have "rnd s (draws s) \<noteq> rnd s (Suc (draws s))" using assms(12) by (metis injD n_not_Suc_n)
  then have fu: "\<forall>y \<in> set (gift_txns u). gt_id y \<noteq> ''gctx_'' @ rnd u (draws u)"
    using assms(13) unfolding du by (auto simp: u_def redeem_row_def)
  define t where "t = debited q g ?c (''gctx_'' @ rnd u (draws u)) u"
  have q: "giftcards_onPaid q u = (Inr (), t)"
    unfolding t_def by (rule run [OF ku assms(8) nu cu fu])
  have txns: "card_txns (mg_id g) s = gc_balance c"
    using assms(2) find_by_SomeD [OF assms(3)] by (auto simp: cards_journaled_def)
  have "redeemed_for p (mg_id g) t" "redeemed_for q (mg_id g) t"
    by (simp_all add: t_def u_def redeemed_for_def redeem_row_def)
  moreover have "find_by (\<lambda>x. gc_id x = mg_id g) (gift_cards t) = Some (?c\<lparr>gc_balance := clamp0 (gc_balance ?c - mg_applied g)\<rparr>)"
    unfolding t_def by (rule debited_balance) (rule cu)
  moreover have "clamp0 (gc_balance ?c - mg_applied g) = 0"
    using assms(4,5) by (simp add: clamp0_def)
  moreover have "card_txns (mg_id g) t = - gc_balance c"
    using txns assms(4) by (simp add: t_def u_def card_txns_debited)
  ultimately show ?thesis using p q by (simp add: Let_def)
qed


theorem gift_card_overspent_witness:
  "\<exists>d. let t = snd (giftcards_onPaid (card_payment ''pay_2'' 5) (snd (giftcards_onPaid (card_payment ''pay_1'' 5) card_db))) in
    redeemed_for (card_payment ''pay_1'' 5) ''gc_1'' t \<and> redeemed_for (card_payment ''pay_2'' 5) ''gc_1'' t \<and>
    find_by (\<lambda>x. gc_id x = ''gc_1'') (gift_cards t) = Some d \<and> gc_balance d = 0 \<and>
    card_txns ''gc_1'' t = - 5"
proof -
  let ?g = "\<lparr>mg_id = ''gc_1'', mg_code = ''GIFT'', mg_applied = 5\<rparr>"
  have "inj show_nat" by (metis injI read_show_nat)
  moreover have "show_nat n \<noteq> ''a''" for n
    using show_nat_digits [of n] by (auto simp: is_digit_def)
  then have "''a'' \<noteq> show_nat n" for n by metis
  ultimately show ?thesis
    using gift_card_overspent [OF card_db_ok, of ?g sample_card "card_payment ''pay_1'' 5" "card_payment ''pay_2'' 5"]
    by (simp add: card_db_def empty_db_def sample_card_def card_payment_def redeemed_for_def)
qed

end
