(* ===== verification/Segments.thy ===== *)
theory Segments
  imports Stores
begin

text \<open>
  \<open>apps/api/src/segments/segments.service.ts\<close> and \<open>segment-rules.ts\<close>: customer
  segments, evaluated in bulk for a preview and for one customer when a campaign asks.
\<close>

section \<open>Rules over payment aggregates\<close>

definition needsPaymentAggregates :: "segment_rules \<Rightarrow> bool" where
  "needsPaymentAggregates rules \<longleftrightarrow>
     sg_min_count rules \<noteq> None \<or> sg_min_volume rules \<noteq> None \<or> sg_within_days rules \<noteq> None"

record customer_agg =
  ag_count :: int
  ag_volume :: decimal
  ag_last :: "int option"

definition no_agg :: customer_agg where
  "no_agg = \<lparr>ag_count = 0, ag_volume = 0, ag_last = None\<rparr>"

definition matchesAggregates :: "customer_agg option \<Rightarrow> segment_rules \<Rightarrow> int \<Rightarrow> bool" where
  "matchesAggregates agg rules now =
     (let a = (case agg of None \<Rightarrow> no_agg | Some a \<Rightarrow> a) in
      if (case sg_min_count rules of None \<Rightarrow> False | Some n \<Rightarrow> ag_count a < n) then False
      else if (case sg_min_volume rules of None \<Rightarrow> False | Some v \<Rightarrow> ag_volume a < v) then False
      else case sg_within_days rules of
        None \<Rightarrow> True
      | Some d \<Rightarrow> (case ag_last a of None \<Rightarrow> False
          | Some l \<Rightarrow> let cutoff = now - d * 24 * 3600 * 1000 in if l < cutoff then False else True))"

section \<open>The service\<close>

definition create_segment :: "auth_user \<Rightarrow> string \<Rightarrow> string \<Rightarrow> string option \<Rightarrow> segment_rules \<Rightarrow> segment_row handler" where
  "create_segment u storeId name description rules =
     bindM (assertStore u storeId StoreWrite) (\<lambda>_.
     bindM (prefixedId ''seg'') (\<lambda>i.
     (let row = \<lparr>sg_id = i, sg_store = storeId, sg_name = name, sg_description = description, sg_rules = rules\<rparr>
      in seqM (createM segments segments_update (\<lambda>r x. sg_id r = sg_id x) row) (ret row))))"

definition list_segments :: "auth_user \<Rightarrow> string \<Rightarrow> segment_row list handler" where
  "list_segments u storeId =
     bindM (assertStore u storeId PaymentRead) (\<lambda>_.
     bindM (manyM segments (\<lambda>x. sg_store x = storeId)) (\<lambda>rows. ret (rev rows)))"

definition segment_owned :: "auth_user \<Rightarrow> string \<Rightarrow> permission \<Rightarrow> segment_row handler" where
  "segment_owned u i perm = ownedM segments (\<lambda>x. sg_id x = i) sg_store ''Segment not found'' u perm"

definition update_segment ::
    "auth_user \<Rightarrow> string \<Rightarrow> string option \<Rightarrow> string option \<Rightarrow> segment_rules option \<Rightarrow> unit handler" where
  "update_segment u i name description rules =
     bindM (segment_owned u i StoreWrite) (\<lambda>_.
     updateM segments segments_update (\<lambda>x. sg_id x = i)
       (\<lambda>x. x\<lparr>sg_name := (case name of None \<Rightarrow> sg_name x | Some n \<Rightarrow> n),
         sg_description := (case description of None \<Rightarrow> sg_description x | Some d \<Rightarrow> Some d),
         sg_rules := (case rules of None \<Rightarrow> sg_rules x | Some r \<Rightarrow> r)\<rparr>))"

definition remove_segment :: "auth_user \<Rightarrow> string \<Rightarrow> unit handler" where
  "remove_segment u i =
     bindM (segment_owned u i StoreWrite) (\<lambda>_.
     deleteM segments segments_update (\<lambda>x. sg_id x = i))"

section \<open>Evaluation\<close>

definition MAX_CANDIDATES :: nat where
  "MAX_CANDIDATES = 10000"

text \<open>The part of the rules that the database filters: the \<open>where\<close> of the query.\<close>

definition direct_match :: "string \<Rightarrow> segment_rules \<Rightarrow> customer_row \<Rightarrow> bool" where
  "direct_match storeId rules c \<longleftrightarrow>
     c_store c = storeId \<and>
     (case sg_min_lifetime rules of None \<Rightarrow> True | Some n \<Rightarrow> n \<le> c_lifetime c) \<and>
     (case sg_min_points rules of None \<Rightarrow> True | Some n \<Rightarrow> n \<le> c_points c) \<and>
     (case sg_tier rules of None \<Rightarrow> True | Some t \<Rightarrow> t = [] \<or> c_tier c = Some t) \<and>
     (sg_has_email rules \<longrightarrow> c_email c \<noteq> None)"

definition max_date :: "int option \<Rightarrow> int option \<Rightarrow> int option" where
  "max_date a b = (case a of None \<Rightarrow> b | Some x \<Rightarrow> (case b of None \<Rightarrow> a | Some y \<Rightarrow> Some (max x y)))"

text \<open>The group of a customer in the \<open>groupBy\<close> over the paid payments, absent when empty.\<close>

definition group_of :: "string \<Rightarrow> string list \<Rightarrow> string \<Rightarrow> db \<Rightarrow> customer_agg option" where
  "group_of storeId ids c s =
     (case rows_where (\<lambda>p. p_store p = storeId \<and> p_status p = Paid \<and> p_customer p = Some c \<and> List.member ids c) (payments s) of
        [] \<Rightarrow> None
      | g \<Rightarrow> Some \<lparr>ag_count = int (length g), ag_volume = sum_list (map p_amount g),
          ag_last = foldr max_date (map p_paid_at g) None\<rparr>)"

definition evaluate_segment :: "string \<Rightarrow> segment_rules \<Rightarrow> db \<Rightarrow> string list" where
  "evaluate_segment storeId rules s =
     (let ids = map c_id (take MAX_CANDIDATES (rows_where (direct_match storeId rules) (customers s)))
      in if ids = [] \<or> \<not> needsPaymentAggregates rules then ids
         else filter (\<lambda>i. matchesAggregates (group_of storeId ids i s) rules (clock s)) ids)"

definition customerMatches :: "string \<Rightarrow> string \<Rightarrow> db \<Rightarrow> bool" where
  "customerMatches segmentId customerId s =
     (case find_by (\<lambda>x. sg_id x = segmentId) (segments s) of
        None \<Rightarrow> False
      | Some seg \<Rightarrow>
          let rules = sg_rules seg;
              direct = count_where (\<lambda>c. c_id c = customerId \<and> direct_match (sg_store seg) rules c) (customers s)
          in if direct = 0 then False
             else if \<not> needsPaymentAggregates rules then True
             else matchesAggregates (group_of (sg_store seg) [customerId] customerId s) rules (clock s))"

definition preview_segment :: "auth_user \<Rightarrow> string \<Rightarrow> (nat \<times> customer_row list) handler" where
  "preview_segment u i =
     bindM (segment_owned u i PaymentRead) (\<lambda>seg.
     bindM (getsM (evaluate_segment (sg_store seg) (sg_rules seg))) (\<lambda>ids.
     bindM (manyM customers (\<lambda>c. List.member (take 20 ids) (c_id c))) (\<lambda>sample. ret (length ids, sample))))"

definition preview_rules :: "auth_user \<Rightarrow> string \<Rightarrow> segment_rules \<Rightarrow> nat handler" where
  "preview_rules u storeId rules =
     bindM (assertStore u storeId PaymentRead) (\<lambda>_.
     bindM (getsM (evaluate_segment storeId rules)) (\<lambda>ids. ret (length ids)))"

section \<open>Bulk and single evaluation\<close>

lemma group_of_member: "c \<in> set ids \<Longrightarrow> group_of st ids c s = group_of st [c] c s"
  by (simp add: group_of_def)

lemma rows_where_take: "length (rows_where p t) \<le> n \<Longrightarrow> take n (rows_where p t) = rows_where p t"
  by simp

text \<open>
  The aggregates of a customer are what the rules mean: the number of paid payments, their total,
  and whether one was paid since the cutoff.
\<close>

definition since :: "int \<Rightarrow> int option \<Rightarrow> bool" where
  "since k d \<longleftrightarrow> (case d of None \<Rightarrow> False | Some l \<Rightarrow> k \<le> l)"

lemma since_max: "since k (max_date a b) \<longleftrightarrow> since k a \<or> since k b"
  by (auto simp: since_def max_date_def le_max_iff_disj split: option.split)

lemma since_foldr: "since k (foldr max_date xs None) \<longleftrightarrow> (\<exists>d \<in> set xs. since k d)"
  by (induction xs) (auto simp: since_max, simp add: since_def)

definition paid_of :: "string \<Rightarrow> string \<Rightarrow> db \<Rightarrow> payment_row list" where
  "paid_of st c s = rows_where (\<lambda>p. p_store p = st \<and> p_status p = Paid \<and> p_customer p = Some c) (payments s)"

lemma group_of_single: "group_of st [c] c s =
    (if paid_of st c s = [] then None
     else Some \<lparr>ag_count = int (length (paid_of st c s)), ag_volume = sum_list (map p_amount (paid_of st c s)),
       ag_last = foldr max_date (map p_paid_at (paid_of st c s)) None\<rparr>)"
  by (simp add: group_of_def paid_of_def split: list.split)

lemma matches_group: "matchesAggregates (group_of st [c] c s) rules now \<longleftrightarrow>
    (\<forall>n. sg_min_count rules = Some n \<longrightarrow> n \<le> int (length (paid_of st c s))) \<and>
    (\<forall>v. sg_min_volume rules = Some v \<longrightarrow> v \<le> sum_list (map p_amount (paid_of st c s))) \<and>
    (\<forall>d. sg_within_days rules = Some d \<longrightarrow>
       (\<exists>p \<in> set (paid_of st c s). \<exists>x. p_paid_at p = Some x \<and> now - d * 24 * 3600 * 1000 \<le> x))"
proof -
  have last: "since k (foldr max_date (map p_paid_at (paid_of st c s)) None) \<longleftrightarrow>
      (\<exists>p \<in> set (paid_of st c s). \<exists>x. p_paid_at p = Some x \<and> k \<le> x)" for k
    unfolding since_foldr by (auto simp: since_def split: option.splits)
  show ?thesis
  proof (cases "paid_of st c s = []")
    case True
    then show ?thesis
      by (auto simp: group_of_single matchesAggregates_def no_agg_def Let_def not_less split: option.split)
  next
    case False
    have neg: "(case x of None \<Rightarrow> False | Some l \<Rightarrow> if l < k then False else True) = since k x" for x and k :: int
      by (simp add: since_def not_less split: option.split)
    from False show ?thesis
      unfolding group_of_single matchesAggregates_def Let_def neg
      by (simp add: last not_less split: option.split)
  qed
qed

lemma evaluate_iff:
  assumes "length (rows_where (direct_match st rules) (customers s)) \<le> MAX_CANDIDATES"
  shows "c \<in> set (evaluate_segment st rules s) \<longleftrightarrow>
    exists_by (\<lambda>x. c_id x = c \<and> direct_match st rules x) (customers s) \<and>
    (needsPaymentAggregates rules \<longrightarrow> matchesAggregates (group_of st [c] c s) rules (clock s))"
proof -
  let ?ids = "map c_id (rows_where (direct_match st rules) (customers s))"
  have ids: "map c_id (take MAX_CANDIDATES (rows_where (direct_match st rules) (customers s))) = ?ids"
    using assms by simp
  have mem: "c \<in> set ?ids \<longleftrightarrow> exists_by (\<lambda>x. c_id x = c \<and> direct_match st rules x) (customers s)"
    by (auto simp: exists_by_iff)
  show ?thesis
  proof (cases "?ids = [] \<or> \<not> needsPaymentAggregates rules")
    case True
    then have "evaluate_segment st rules s = ?ids" by (auto simp: evaluate_segment_def Let_def ids)
    with mem True show ?thesis by (metis empty_iff list.set(1))
  next
    case False
    then have "evaluate_segment st rules s = filter (\<lambda>i. matchesAggregates (group_of st ?ids i s) rules (clock s)) ?ids"
      unfolding evaluate_segment_def Let_def ids by simp
    moreover have "c \<in> set ?ids \<Longrightarrow> group_of st ?ids c s = group_of st [c] c s" by (rule group_of_member)
    ultimately show ?thesis using mem False by auto
  qed
qed

lemma customerMatches_iff:
  assumes "find_by (\<lambda>x. sg_id x = i) (segments s) = Some seg"
  shows "customerMatches i c s \<longleftrightarrow>
    exists_by (\<lambda>x. c_id x = c \<and> direct_match (sg_store seg) (sg_rules seg) x) (customers s) \<and>
    (needsPaymentAggregates (sg_rules seg) \<longrightarrow>
      matchesAggregates (group_of (sg_store seg) [c] c s) (sg_rules seg) (clock s))"
  using assms by (simp add: customerMatches_def Let_def count_where_0)

section \<open>Properties\<close>

text \<open>Asking whether one customer is in a segment, as campaigns do, agrees with the list that
  the preview evaluates, as long as no more candidates than its limit pass the direct rules; and the
  payment rules count that customer's paid payments of the store, their total and their last date.\<close>

theorem segment_evaluations_agree:
  assumes "find_by (\<lambda>x. sg_id x = i) (segments s) = Some seg"
    and "length (rows_where (direct_match (sg_store seg) (sg_rules seg)) (customers s)) \<le> MAX_CANDIDATES"
  shows "(customerMatches i c s \<longleftrightarrow> c \<in> set (evaluate_segment (sg_store seg) (sg_rules seg) s)) \<and>
    (customerMatches i c s \<longrightarrow>
      (\<exists>x \<in> set (customers s). c_id x = c \<and> c_store x = sg_store seg) \<and>
      (\<forall>n. sg_min_count (sg_rules seg) = Some n \<longrightarrow> n \<le> int (length (paid_of (sg_store seg) c s))) \<and>
      (\<forall>v. sg_min_volume (sg_rules seg) = Some v \<longrightarrow> v \<le> sum_list (map p_amount (paid_of (sg_store seg) c s))))"
  unfolding customerMatches_iff [OF assms(1)] evaluate_iff [OF assms(2)]
  by (auto simp: matches_group exists_by_iff direct_match_def needsPaymentAggregates_def)

definition sample_customer :: customer_row where
  "sample_customer = \<lparr>c_id = ''cus_1'', c_store = ''store_1'', c_name = None, c_email = None, c_phone = None,
     c_points = 0, c_lifetime = 0, c_tier = None, c_referral_code = None, c_wallet = None,
     c_referred_by = None, c_created = 0, c_external = None\<rparr>"

definition no_rules :: segment_rules where
  "no_rules = \<lparr>sg_min_lifetime = None, sg_min_points = None, sg_tier = None, sg_has_email = False,
     sg_min_count = None, sg_min_volume = None, sg_within_days = None\<rparr>"

definition segment_db :: db where
  "segment_db = empty_db\<lparr>customers := [sample_customer],
     payments := [(sample_payment 5 USD)\<lparr>p_customer := Some ''cus_1''\<rparr>],
     segments := [\<lparr>sg_id = ''seg_1'', sg_store = ''store_1'', sg_name = ''Spent'', sg_description = None,
       sg_rules = no_rules\<lparr>sg_min_volume := Some 3\<rparr>\<rparr>]\<rparr>"

theorem segment_evaluations_agree_witness:
  "customerMatches ''seg_1'' ''cus_1'' segment_db \<and>
   ''cus_1'' \<in> set (evaluate_segment ''store_1'' (no_rules\<lparr>sg_min_volume := Some 3\<rparr>) segment_db)"
proof -
  have m: "customerMatches ''seg_1'' ''cus_1'' segment_db"
    by (simp add: customerMatches_def segment_db_def Let_def direct_match_def no_rules_def sample_customer_def
        needsPaymentAggregates_def group_of_def matchesAggregates_def sample_payment_def empty_db_def)
  moreover have "length (rows_where (direct_match ''store_1'' (no_rules\<lparr>sg_min_volume := Some 3\<rparr>)) (customers segment_db)) \<le> MAX_CANDIDATES"
    by (simp add: segment_db_def MAX_CANDIDATES_def)
  ultimately show ?thesis
    using segment_evaluations_agree [of "''seg_1''" segment_db
      "\<lparr>sg_id = ''seg_1'', sg_store = ''store_1'', sg_name = ''Spent'', sg_description = None,
        sg_rules = no_rules\<lparr>sg_min_volume := Some 3\<rparr>\<rparr>" "''cus_1''"]
    by (simp add: segment_db_def)
qed

end
