(* ===== verification/Points.thy ===== *)
theory Points
  imports Reconcile
begin

text \<open>
  The points movement that the loyalty, campaign, referral and game services all make inside
  their transactions: a row of the sub-ledger, the denormalised balance of the customer, and the
  journal. The invariant that ties the three together is stated and proved here once.
\<close>

section \<open>The three writes\<close>

definition points_entry ::
    "string \<Rightarrow> string \<Rightarrow> string \<Rightarrow> points_type \<Rightarrow> int \<Rightarrow> string option \<Rightarrow> string option \<Rightarrow> int \<Rightarrow> int option \<Rightarrow> points_row" where
  "points_entry i store customer ty points payment reason now confirmed =
     \<lparr>pt_id = i, pt_store = store, pt_customer = customer, pt_type = ty, pt_points = points,
      pt_payment = payment, pt_reason = reason, pt_created = now, pt_status = VConfirmed,
      pt_confirmed_at = confirmed, pt_paychain_tx = None, pt_detail = None\<rparr>"

definition record_points :: "points_row \<Rightarrow> (customer_row \<Rightarrow> customer_row) \<Rightarrow> unit handler" where
  "record_points row f =
     seqM (createM points_txns points_txns_update points_clash row)
       (updateM customers customers_update (\<lambda>c. c_id c = pt_customer row) f)"

definition journal_points :: "movement \<Rightarrow> points_row \<Rightarrow> unit handler" where
  "journal_points ty row =
     postPointsMovement ty (pt_id row) (pt_store row) (pt_customer row) (pt_points row)"

text \<open>\<open>data: { pointsBalance: { increment: n } }\<close>, and with \<open>lifetimePoints\<close>.\<close>

definition add_points :: "int \<Rightarrow> customer_row \<Rightarrow> customer_row" where
  "add_points n c = c\<lparr>c_points := c_points c + n\<rparr>"

definition add_earned :: "int \<Rightarrow> customer_row \<Rightarrow> customer_row" where
  "add_earned n c = c\<lparr>c_points := c_points c + n, c_lifetime := c_lifetime c + n\<rparr>"

lemma points_entry_fields [simp]:
  "pt_id (points_entry i st c ty n p r now cf) = i" "pt_store (points_entry i st c ty n p r now cf) = st"
  "pt_customer (points_entry i st c ty n p r now cf) = c" "pt_type (points_entry i st c ty n p r now cf) = ty"
  "pt_points (points_entry i st c ty n p r now cf) = n" "pt_payment (points_entry i st c ty n p r now cf) = p"
  "pt_reason (points_entry i st c ty n p r now cf) = r" "pt_created (points_entry i st c ty n p r now cf) = now"
  "pt_status (points_entry i st c ty n p r now cf) = VConfirmed"
  by (simp_all add: points_entry_def)

lemma add_points_fields [simp]:
  "c_id (add_points n c) = c_id c" "c_points (add_points n c) = c_points c + n"
  "c_lifetime (add_points n c) = c_lifetime c" "c_store (add_points n c) = c_store c"
  "c_id (add_earned n c) = c_id c" "c_points (add_earned n c) = c_points c + n"
  "c_lifetime (add_earned n c) = c_lifetime c + n" "c_store (add_earned n c) = c_store c"
  by (simp_all add: add_points_def add_earned_def)

section \<open>The invariant\<close>

text \<open>
  Identifiers are fresh and unique, and every customer's balance is the position of the ledger.
  \<open>ahead row\<close> is the state between the second and the third write: the balance has moved
  and the journal is to follow.
\<close>

definition points_sound :: "db \<Rightarrow> bool" where
  "points_sound s \<longleftrightarrow> fresh_ids s \<and> keyed c_id (customers s) \<and> mirrored s"

definition fresh_txn :: "string \<Rightarrow> db \<Rightarrow> bool" where
  "fresh_txn i s \<longleftrightarrow> (\<forall>t \<in> set (points_txns s). pt_id t \<noteq> i) \<and>
     (\<forall>j \<in> set (journals s). j_reference j \<noteq> Some i) \<and> (\<forall>k \<ge> draws s. i \<noteq> ''pts_'' @ rnd s k)"

definition ahead :: "points_row \<Rightarrow> db \<Rightarrow> bool" where
  "ahead row s \<longleftrightarrow> fresh_ids s \<and> keyed c_id (customers s) \<and>
     (\<forall>j \<in> set (journals s). j_reference j \<noteq> Some (pt_id row)) \<and> (\<forall>k \<ge> draws s. pt_id row \<noteq> ''pts_'' @ rnd s k) \<and>
     (\<forall>c \<in> set (customers s). pointsBalanceFor (c_id c) s + (if c_id c = pt_customer row then of_int (pt_points row) else 0)
        = of_int (c_points c))"

text \<open>Neither looks at the tables of the other services.\<close>

named_theorems points_frame \<open>what the points invariant does not depend on\<close>

lemma pointsBalanceFor_cong: "entries t = entries s \<Longrightarrow> pointsBalanceFor c t = pointsBalanceFor c s"
  by (simp add: pointsBalanceFor_def)

lemma points_sound_cong:
  assumes "customers t = customers s" and "points_txns t = points_txns s" and "journals t = journals s"
    and "entries t = entries s" and "rnd t = rnd s" and "draws s \<le> draws t" and "points_sound s"
  shows "points_sound t"
  using assms by (auto simp: points_sound_def fresh_ids_def mirrored_def pointsBalanceFor_cong [of t s])

lemma ahead_cong:
  assumes "customers t = customers s" and "points_txns t = points_txns s" and "journals t = journals s"
    and "entries t = entries s" and "rnd t = rnd s" and "draws s \<le> draws t" and "ahead row s"
  shows "ahead row t"
  using assms by (auto simp: ahead_def fresh_ids_def pointsBalanceFor_cong [of t s])

lemma points_sound_eq:
  assumes "customers t = customers s" and "points_txns t = points_txns s" and "journals t = journals s"
    and "entries t = entries s" and "rnd t = rnd s" and "draws t = draws s"
  shows "points_sound t = points_sound s"
proof
  show "points_sound t \<Longrightarrow> points_sound s" by (rule points_sound_cong [of s t]) (simp_all add: assms)
  show "points_sound s \<Longrightarrow> points_sound t" by (rule points_sound_cong [of t s]) (simp_all add: assms)
qed

lemma points_sound_fields [simp]:
  "points_sound (s\<lparr>promotions := a\<rparr>) = points_sound s" "points_sound (s\<lparr>rewards := b\<rparr>) = points_sound s"
  "points_sound (s\<lparr>redemptions := c\<rparr>) = points_sound s" "points_sound (s\<lparr>referrals := d\<rparr>) = points_sound s"
  "points_sound (s\<lparr>commissions := e\<rparr>) = points_sound s" "points_sound (s\<lparr>prizes := f\<rparr>) = points_sound s"
  "points_sound (s\<lparr>plays := g\<rparr>) = points_sound s" "points_sound (s\<lparr>notices := h\<rparr>) = points_sound s"
  "points_sound (s\<lparr>outbox := i\<rparr>) = points_sound s" "points_sound (s\<lparr>payments := k\<rparr>) = points_sound s"
  "points_sound (s\<lparr>programs := l\<rparr>) = points_sound s" "points_sound (s\<lparr>tiers := m\<rparr>) = points_sound s"
  "points_sound (s\<lparr>idem_records := n\<rparr>) = points_sound s" "points_sound (s\<lparr>games := q\<rparr>) = points_sound s"
  by (rule points_sound_eq; simp)+

lemma points_sound_draws: "points_sound s \<Longrightarrow> draws s \<le> n \<Longrightarrow> points_sound (s\<lparr>draws := n\<rparr>)"
  by (rule points_sound_cong [of _ s]) simp_all

lemma ahead_promotions: "ahead row s \<Longrightarrow> ahead row (s\<lparr>promotions := a\<rparr>)"
  by (rule ahead_cong [of _ s]) simp_all

lemma fresh_txn_drawn: "fresh_ids s \<Longrightarrow> draws s < n \<Longrightarrow> fresh_txn (''pts_'' @ rnd s (draws s)) (s\<lparr>draws := n\<rparr>)"
proof -
  assume f: "fresh_ids s" and n: "draws s < n"
  have "pt_id t \<noteq> ''pts_'' @ rnd s (draws s)" if "t \<in> set (points_txns s)" for t
    using fresh_idsD(4) [OF f order_refl that] .
  moreover have "j_reference j \<noteq> Some (''pts_'' @ rnd s (draws s))" if "j \<in> set (journals s)" for j
    using fresh_idsD(2) [OF f order_refl that] .
  moreover have "rnd s (draws s) \<noteq> rnd s k" if "n \<le> k" for k
    using fresh_ids_later [OF f, of "draws s" k] n that by simp
  ultimately show ?thesis by (simp add: fresh_txn_def)
qed

section \<open>A movement keeps it\<close>

text \<open>The update writes the balance that the movement announces, for the customer it finds.\<close>

definition moves :: "points_row \<Rightarrow> (customer_row \<Rightarrow> customer_row) \<Rightarrow> db \<Rightarrow> bool" where
  "moves row f s \<longleftrightarrow> (\<forall>c. c_id (f c) = c_id c) \<and>
     (case find_by (\<lambda>c. c_id c = pt_customer row) (customers s) of None \<Rightarrow> True
      | Some c \<Rightarrow> c_points (f c) = c_points c + pt_points row)"

lemma moves_increment [simp]:
  "pt_points row = n \<Longrightarrow> moves row (add_points n) s" "pt_points row = n \<Longrightarrow> moves row (add_earned n) s"
  by (simp_all add: moves_def split: option.split)

lemma find_customer_unique:
  "keyed c_id t \<Longrightarrow> find_by (\<lambda>c. c_id c = i) t = Some c \<Longrightarrow> x \<in> set t \<Longrightarrow> c_id x = i \<Longrightarrow> x = c"
  using keyed_find [of c_id t x] by auto

lemma record_points_cases:
  assumes "record_points row f s = (r, t)" and "points_sound s" and "fresh_txn (pt_id row) s"
    and "moves row f s"
  obtains (missing) "r = Inl P2025" and "find_by (\<lambda>c. c_id c = pt_customer row) (customers s) = None"
    | (recorded) "r = Inr ()" and "find_by (\<lambda>c. c_id c = pt_customer row) (customers s) \<noteq> None"
      and "t = s\<lparr>points_txns := points_txns s @ [row],
        customers := update_where (\<lambda>c. c_id c = pt_customer row) f (customers s)\<rparr>"
      and "ahead row t"
proof (cases "find_by (\<lambda>c. c_id c = pt_customer row) (customers s)")
  case None
  have new: "\<not> exists_by (points_clash row) (points_txns s)"
    using assms(3) by (auto simp: exists_by_iff points_clash_def fresh_txn_def)
  show ?thesis using missing None new assms(1)
    by (auto simp: record_points_def op_simps createM_def updateM_def exists_by_find)
next
  case (Some c)
  have new: "\<not> exists_by (points_clash row) (points_txns s)"
    using assms(3) by (auto simp: exists_by_iff points_clash_def fresh_txn_def)
  let ?t = "s\<lparr>points_txns := points_txns s @ [row],
    customers := update_where (\<lambda>c. c_id c = pt_customer row) f (customers s)\<rparr>"
  have r: "r = Inr ()" "t = ?t" using Some new assms(1)
    by (auto simp: record_points_def op_simps createM_def updateM_def exists_by_find)
  have k: "keyed c_id (customers s)" and m: "mirrored s" and fi: "fresh_ids s"
    using assms(2) by (simp_all add: points_sound_def)
  have "fresh_ids ?t" using fi assms(3) by (auto simp: fresh_ids_def fresh_txn_def)
  moreover have "keyed c_id (customers ?t)" using k assms(4) by (simp add: keyed_update_where moves_def)
  moreover have "pointsBalanceFor (c_id x) ?t + (if c_id x = pt_customer row then of_int (pt_points row) else 0) = of_int (c_points x)"
    if "x \<in> set (customers ?t)" for x
  proof -
    from that obtain y where y: "y \<in> set (customers s)" "x = (if c_id y = pt_customer row then f y else y)"
      by (auto simp: update_where_def)
    have b: "pointsBalanceFor (c_id y) s = of_int (c_points y)" using m y(1) by (simp add: mirrored_def list_all_iff)
    show ?thesis
    proof (cases "c_id y = pt_customer row")
      case True
      then have "y = c" using find_customer_unique [OF k Some y(1)] by simp
      then show ?thesis using y(2) b True assms(4) Some by (simp add: pointsBalanceFor_def moves_def)
    next
      case False
      then show ?thesis using y(2) b by (simp add: pointsBalanceFor_def)
    qed
  qed
  ultimately have "ahead row ?t" using assms(3) by (simp add: ahead_def fresh_txn_def)
  then show ?thesis using recorded r Some by simp
qed

lemma journal_points_ahead:
  assumes "ahead row s"
  obtains js es k where "journal_points ty row s = (Inr (), s\<lparr>journals := js, entries := es, draws := k\<rparr>)"
    and "points_sound (s\<lparr>journals := js, entries := es, draws := k\<rparr>)"
proof (cases "pt_points row = 0")
  case True
  have "(s\<lparr>journals := journals s, entries := entries s, draws := draws s\<rparr>) = s" by simp
  moreover have "(if b then of_int (pt_points row) else 0 :: rat) = 0" for b by (simp add: True)
  then have "points_sound s" using assms by (simp add: points_sound_def ahead_def mirrored_def list_all_iff)
  ultimately show ?thesis using that [where js = "journals s" and es = "entries s" and k = "draws s"] True
    by (simp add: journal_points_def postPointsMovement_def op_simps)
next
  case False
  have fi: "fresh_ids s" using assms by (simp add: ahead_def)
  have free: "\<not> exists_by (\<lambda>j. j_event j = ''points.'' @ movement_name ty \<and> j_reference j = Some (pt_id row)) (journals s)"
    using assms by (auto simp: exists_by_iff ahead_def)
  have later: "draws s \<le> k \<Longrightarrow> pt_id row \<noteq> ''pts_'' @ rnd s k" for k using assms by (simp add: ahead_def)
  from points_movement_fresh [OF fi False free later, of "pt_store row" "pt_customer row"]
  obtain js es k where p:
    "postPointsMovement ty (pt_id row) (pt_store row) (pt_customer row) (pt_points row) s =
       (Inr (), s\<lparr>journals := js, entries := es, draws := k\<rparr>)"
    "\<And>d. pointsBalanceFor d (s\<lparr>journals := js, entries := es, draws := k\<rparr>) =
       pointsBalanceFor d s + (if d = pt_customer row then of_int (pt_points row) else 0)"
    "fresh_ids (s\<lparr>journals := js, entries := es, draws := k\<rparr>)"
    by metis
  have "points_sound (s\<lparr>journals := js, entries := es, draws := k\<rparr>)"
    using assms p(2,3) by (simp add: points_sound_def ahead_def mirrored_def list_all_iff)
  then show ?thesis using that p(1) by (simp add: journal_points_def)
qed

definition book_points :: "movement \<Rightarrow> points_row \<Rightarrow> (customer_row \<Rightarrow> customer_row) \<Rightarrow> unit handler" where
  "book_points ty row f = seqM (record_points row f) (journal_points ty row)"

lemma book_points_cases:
  assumes "book_points ty row f s = (r, t)" and "points_sound s" and "fresh_txn (pt_id row) s"
    and "moves row f s"
  obtains (missing) "r = Inl P2025" and "find_by (\<lambda>c. c_id c = pt_customer row) (customers s) = None"
    | (booked) js es k where "r = Inr ()" and "find_by (\<lambda>c. c_id c = pt_customer row) (customers s) \<noteq> None"
      and "t = s\<lparr>points_txns := points_txns s @ [row],
        customers := update_where (\<lambda>c. c_id c = pt_customer row) f (customers s),
        journals := js, entries := es, draws := k\<rparr>"
      and "points_sound t"
proof -
  obtain r1 u where u: "record_points row f s = (r1, u)" by (rule prod.exhaust)
  from u assms(2-4) show ?thesis
  proof (cases rule: record_points_cases)
    case missing
    with u assms(1) have "r = Inl P2025" by (simp add: book_points_def op_simps bindM_def)
    with missing show ?thesis by (intro that(1))
  next
    case recorded
    from journal_points_ahead [OF recorded(4), of ty] obtain js es k where j:
      "journal_points ty row u = (Inr (), u\<lparr>journals := js, entries := es, draws := k\<rparr>)"
      "points_sound (u\<lparr>journals := js, entries := es, draws := k\<rparr>)" by metis
    have "r = Inr ()" "t = u\<lparr>journals := js, entries := es, draws := k\<rparr>"
      using assms(1) u recorded(1) j(1) by (auto simp: book_points_def op_simps bindM_def)
    with recorded j show ?thesis by (intro that(2) [where js = js and es = es and k = k]) simp_all
  qed
qed

text \<open>On its own in a transaction it keeps the invariant whether it succeeds or not.\<close>

lemma transaction_book_sound:
  assumes "points_sound s" and "fresh_txn (pt_id row) s" and "moves row f s"
  shows "points_sound (snd (transaction (book_points ty row f) s))"
proof -
  obtain r t where o: "book_points ty row f s = (r, t)" by (rule prod.exhaust)
  from o assms show ?thesis
    by (cases rule: book_points_cases) (use assms o in \<open>simp_all add: transaction_def\<close>)
qed

text \<open>The identifier is drawn first: the invariant through \<open>prefixedId('pts')\<close>.\<close>

lemma drawn_txn:
  assumes "points_sound s"
  shows "points_sound (s\<lparr>draws := Suc (draws s)\<rparr>)"
    and "fresh_txn (''pts_'' @ rnd s (draws s)) (s\<lparr>draws := Suc (draws s)\<rparr>)"
proof -
  show "points_sound (s\<lparr>draws := Suc (draws s)\<rparr>)" using assms by (rule points_sound_draws) simp
  have "fresh_ids s" using assms by (simp add: points_sound_def)
  then show "fresh_txn (''pts_'' @ rnd s (draws s)) (s\<lparr>draws := Suc (draws s)\<rparr>)" by (rule fresh_txn_drawn) simp
qed

lemma points_sound_empty: "points_sound empty_db"
  using fresh_ids_empty by (simp add: points_sound_def mirrored_def empty_db_def)

end
