(* ===== verification/Campaigns.thy ===== *)
theory Campaigns
  imports Segments Points
begin

text \<open>
  \<open>apps/api/src/campaigns/campaigns.service.ts\<close>: promotions with their approval flow,
  the dry run, and the bonus points that active promotions add to a payment.
\<close>

section \<open>Promotions\<close>

record create_promotion_dto =
  cd_name :: string
  cd_type :: promotion_type
  cd_segment :: "string option"
  cd_config :: promo_config
  cd_budget :: "int option"
  cd_start :: "int option"
  cd_end :: "int option"

record update_promotion_dto =
  ud_name :: "string option"
  ud_config :: "promo_config option"
  ud_budget :: "int option"
  ud_start :: "int option"
  ud_end :: "int option"

definition unless_none :: "'a \<Rightarrow> 'a option \<Rightarrow> 'a" where
  "unless_none old new = (case new of None \<Rightarrow> old | Some x \<Rightarrow> x)"

definition promotion_clash :: "promotion_row \<Rightarrow> promotion_row \<Rightarrow> bool" where
  "promotion_clash r u \<longleftrightarrow> pr_id r = pr_id u"

interpretation promotions_table: table promotions promotions_update pr_id promotion_clash
  by unfold_locales (simp_all add: promotion_clash_def)

definition promotion_owned :: "auth_user \<Rightarrow> string \<Rightarrow> permission \<Rightarrow> promotion_row handler" where
  "promotion_owned u i perm = ownedM promotions (\<lambda>x. pr_id x = i) pr_store ''Promotion not found'' u perm"

definition create_promotion :: "auth_user \<Rightarrow> string \<Rightarrow> create_promotion_dto \<Rightarrow> promotion_row handler" where
  "create_promotion u storeId dto =
     bindM (assertStore u storeId StoreWrite) (\<lambda>_.
     bindM (case cd_segment dto of
         None \<Rightarrow> ret ()
       | Some g \<Rightarrow> if g = [] then ret ()
           else bindM (findM segments (\<lambda>x. sg_id x = g)) (\<lambda>seg.
             guardM (case seg of None \<Rightarrow> False | Some x \<Rightarrow> sg_store x = storeId)
               (invalidRequest ''Unknown segment for this store''))) (\<lambda>_.
     bindM (prefixedId ''promo'') (\<lambda>i.
     (let row = \<lparr>pr_id = i, pr_store = storeId, pr_name = cd_name dto, pr_type = cd_type dto, pr_status = Draft,
          pr_segment = cd_segment dto, pr_config = cd_config dto, pr_budget = cd_budget dto, pr_spent = 0,
          pr_start = cd_start dto, pr_end = cd_end dto, pr_submitted = False, pr_approved = False,
          pr_approved_by = None, pr_note = None\<rparr>
      in seqM (createM promotions promotions_update promotion_clash row) (ret row)))))"

definition list_promotions :: "auth_user \<Rightarrow> string \<Rightarrow> promotion_row list handler" where
  "list_promotions u storeId =
     bindM (assertStore u storeId PaymentRead) (\<lambda>_.
     bindM (manyM promotions (\<lambda>x. pr_store x = storeId)) (\<lambda>rows. ret (rev rows)))"

definition edit_promotion :: "update_promotion_dto \<Rightarrow> promotion_row \<Rightarrow> promotion_row" where
  "edit_promotion dto x = x\<lparr>pr_name := unless_none (pr_name x) (ud_name dto),
     pr_config := unless_none (pr_config x) (ud_config dto),
     pr_budget := (case ud_budget dto of None \<Rightarrow> pr_budget x | Some b \<Rightarrow> Some b),
     pr_start := (case ud_start dto of None \<Rightarrow> pr_start x | Some d \<Rightarrow> Some d),
     pr_end := (case ud_end dto of None \<Rightarrow> pr_end x | Some d \<Rightarrow> Some d)\<rparr>"

definition change_promotion :: "auth_user \<Rightarrow> string \<Rightarrow> permission \<Rightarrow> (promotion_row \<Rightarrow> promotion_row) \<Rightarrow> unit handler" where
  "change_promotion u i perm f =
     bindM (promotion_owned u i perm) (\<lambda>_. updateM promotions promotions_update (\<lambda>x. pr_id x = i) f)"

definition update_promotion :: "auth_user \<Rightarrow> string \<Rightarrow> update_promotion_dto \<Rightarrow> unit handler" where
  "update_promotion u i dto = change_promotion u i StoreWrite (edit_promotion dto)"

definition set_status :: "auth_user \<Rightarrow> string \<Rightarrow> promotion_status \<Rightarrow> unit handler" where
  "set_status u i status =
     bindM (promotion_owned u i StoreWrite) (\<lambda>promo.
     if status = ActiveP \<and> \<not> pr_approved promo
     then throw (forbidden ''Promotion must be approved before activation'')
     else updateM promotions promotions_update (\<lambda>x. pr_id x = i) (\<lambda>x. x\<lparr>pr_status := status\<rparr>))"

definition submit :: "auth_user \<Rightarrow> string \<Rightarrow> unit handler" where
  "submit u i = change_promotion u i StoreWrite (\<lambda>x. x\<lparr>pr_submitted := True\<rparr>)"

definition approve :: "auth_user \<Rightarrow> string \<Rightarrow> unit handler" where
  "approve u i = change_promotion u i BillingManage
     (\<lambda>x. x\<lparr>pr_approved := True, pr_approved_by := Some (user_id u), pr_note := None\<rparr>)"

definition reject :: "auth_user \<Rightarrow> string \<Rightarrow> string option \<Rightarrow> unit handler" where
  "reject u i note = change_promotion u i BillingManage
     (\<lambda>x. x\<lparr>pr_submitted := False, pr_approved := False, pr_approved_by := Some (user_id u),
       pr_note := Some (unless_none ''Rejected'' note)\<rparr>)"

definition remove_promotion :: "auth_user \<Rightarrow> string \<Rightarrow> unit handler" where
  "remove_promotion u i =
     bindM (promotion_owned u i StoreWrite) (\<lambda>_. deleteM promotions promotions_update (\<lambda>x. pr_id x = i))"

section \<open>Bonus points\<close>

text \<open>
  \<open>basePoints * ((config.multiplier ?? 1) - 1)\<close> on doubles; the multiplier is the number
  that the JSON column holds.
\<close>

definition promo_bonus :: "promotion_row \<Rightarrow> int \<Rightarrow> int" where
  "promo_bonus promo base =
     (case pr_type promo of
        PointsMultiplier \<Rightarrow> \<lfloor>num_mul (of_int base) (double (unless_none 1 (cf_multiplier (pr_config promo)) - 1))\<rfloor>
      | BonusPoints \<Rightarrow> \<lfloor>unless_none 0 (cf_bonus_points (pr_config promo))\<rfloor>)"

definition below_minimum :: "promotion_row \<Rightarrow> decimal \<Rightarrow> bool" where
  "below_minimum promo amount \<longleftrightarrow>
     (case cf_min_amount (pr_config promo) of None \<Rightarrow> False | Some m \<Rightarrow> amount < m)"

definition live_promotion :: "string \<Rightarrow> int \<Rightarrow> promotion_row \<Rightarrow> bool" where
  "live_promotion storeId now x \<longleftrightarrow> pr_store x = storeId \<and> pr_status x = ActiveP \<and>
     (case pr_start x of None \<Rightarrow> True | Some d \<Rightarrow> d \<le> now) \<and> (case pr_end x of None \<Rightarrow> True | Some d \<Rightarrow> now \<le> d)"

definition spend :: "promotion_row \<Rightarrow> int \<Rightarrow> promotion_row \<Rightarrow> promotion_row" where
  "spend promo awarded x = x\<lparr>pr_status := (case pr_budget promo of
       None \<Rightarrow> pr_status x | Some b \<Rightarrow> if b \<le> pr_spent promo + awarded then Ended else pr_status x),
     pr_spent := pr_spent x + awarded\<rparr>"

definition award_bonus :: "payment_row \<Rightarrow> string \<Rightarrow> promotion_row \<Rightarrow> int \<Rightarrow> unit handler" where
  "award_bonus payment customerId promo awarded =
     bindM (prefixedId ''pts'') (\<lambda>i. bindM (getsM clock) (\<lambda>now.
       (let row = points_entry i (p_store payment) customerId EARN awarded (Some (p_id payment))
            (Some (''promo:'' @ pr_name promo)) now None
        in transaction
          (seqM (record_points row (add_earned awarded))
          (seqM (updateM promotions promotions_update (\<lambda>x. pr_id x = pr_id promo) (spend promo awarded))
            (journal_points MEarn row))))))"

text \<open>What is left of the budget of the promotion as it was read, if it has one.\<close>

definition budget_cut :: "promotion_row \<Rightarrow> int \<Rightarrow> int option" where
  "budget_cut promo bonus =
     (if bonus \<le> 0 then None
      else case pr_budget promo of
        None \<Rightarrow> Some bonus
      | Some b \<Rightarrow> let remaining = b - pr_spent promo in if remaining \<le> 0 then None else Some (min bonus remaining))"

definition apply_promo :: "payment_row \<Rightarrow> string \<Rightarrow> int \<Rightarrow> int \<Rightarrow> promotion_row \<Rightarrow> int handler" where
  "apply_promo payment customerId base bonuses promo =
     (if below_minimum promo (p_amount payment) then ret bonuses
      else bindM (getsM (\<lambda>s. case pr_segment promo of None \<Rightarrow> True
          | Some g \<Rightarrow> g = [] \<or> customerMatches g customerId s)) (\<lambda>targeted.
        if \<not> targeted then ret bonuses
        else case budget_cut promo (promo_bonus promo base) of
          None \<Rightarrow> ret bonuses
        | Some bonus \<Rightarrow> seqM (award_bonus payment customerId promo bonus) (ret (bonuses + bonus))))"

definition applyToPayment :: "payment_row \<Rightarrow> int \<Rightarrow> int handler" where
  "applyToPayment payment base =
     (case p_customer payment of
        None \<Rightarrow> ret 0
      | Some customerId \<Rightarrow>
        if customerId = [] then ret 0
        else bindM (getsM (\<lambda>s. rows_where (live_promotion (p_store payment) (clock s)) (promotions s))) (\<lambda>promos.
          foldM (apply_promo payment customerId base) 0 promos))"

section \<open>The dry run\<close>

record simulation =
  sm_targets :: nat
  sm_qualifying :: nat
  sm_estimated :: int
  sm_raw :: int
  sm_budget :: "int option"
  sm_within :: bool

definition simulate_targets :: "promotion_row \<Rightarrow> db \<Rightarrow> string list" where
  "simulate_targets promo s =
     (case pr_segment promo of
        Some g \<Rightarrow> if g = [] then map c_id (take 10000 (rows_where (\<lambda>c. c_store c = pr_store promo) (customers s)))
          else (case find_by (\<lambda>x. sg_id x = g) (segments s) of
            None \<Rightarrow> [] | Some seg \<Rightarrow> evaluate_segment (pr_store promo) (sg_rules seg) s)
      | None \<Rightarrow> map c_id (take 10000 (rows_where (\<lambda>c. c_store c = pr_store promo) (customers s))))"

definition simulate_bonuses :: "promotion_row \<Rightarrow> rat \<Rightarrow> payment_row list \<Rightarrow> int list" where
  "simulate_bonuses promo ppu rows =
     filter (\<lambda>b. 0 < b) (map (\<lambda>p. promo_bonus promo \<lfloor>num_mul (double (p_amount p)) ppu\<rfloor>)
       (filter (\<lambda>p. \<not> below_minimum promo (p_amount p)) rows))"

text \<open>
  A promotion whose segment is gone has no rules to evaluate: the code throws there.
\<close>

definition simulate_promotion :: "auth_user \<Rightarrow> string \<Rightarrow> simulation handler" where
  "simulate_promotion u i =
     bindM (promotion_owned u i PaymentRead) (\<lambda>promo.
     bindM (getsM (\<lambda>s. case pr_segment promo of None \<Rightarrow> True
         | Some g \<Rightarrow> g = [] \<or> find_by (\<lambda>x. sg_id x = g) (segments s) \<noteq> None)) (\<lambda>known.
     seqM (guardM known (JsError ''Cannot read properties of undefined''))
     (bindM (getsM (simulate_targets promo)) (\<lambda>targets.
     bindM (findM programs (\<lambda>x. lp_store x = pr_store promo)) (\<lambda>program.
     bindM (getsM clock) (\<lambda>now.
     (let ppu = (case program of None \<Rightarrow> 0 | Some x \<Rightarrow> double (lp_per_unit x)) in
      bindM (manyM payments (\<lambda>p. targets \<noteq> [] \<and> 0 < ppu \<and> p_store p = pr_store promo \<and> p_status p = Paid \<and>
          (case p_customer p of None \<Rightarrow> False | Some c \<Rightarrow> List.member targets c) \<and>
          (case p_paid_at p of None \<Rightarrow> False | Some d \<Rightarrow> now - 30 * 24 * 3600 * 1000 \<le> d))) (\<lambda>rows.
      (let bonuses = simulate_bonuses promo ppu (take 20000 rows); raw = sum_list bonuses in
       ret \<lparr>sm_targets = length targets, sm_qualifying = length bonuses,
         sm_estimated = (case pr_budget promo of None \<Rightarrow> raw | Some b \<Rightarrow> min raw b), sm_raw = raw,
         sm_budget = pr_budget promo,
         sm_within = (case pr_budget promo of None \<Rightarrow> True | Some b \<Rightarrow> raw \<le> b)\<rparr>)))))))))"

section \<open>What an award does\<close>

definition awarded_state ::
    "payment_row \<Rightarrow> string \<Rightarrow> promotion_row \<Rightarrow> int \<Rightarrow> journal_row list \<Rightarrow> entry_row list \<Rightarrow> nat \<Rightarrow> db \<Rightarrow> db" where
  "awarded_state payment customerId promo n js es k s =
     s\<lparr>points_txns := points_txns s @ [points_entry (''pts_'' @ rnd s (draws s)) (p_store payment) customerId EARN n
         (Some (p_id payment)) (Some (''promo:'' @ pr_name promo)) (clock s) None],
       customers := update_where (\<lambda>c. c_id c = customerId) (add_earned n) (customers s),
       promotions := update_where (\<lambda>x. pr_id x = pr_id promo) (spend promo n) (promotions s),
       journals := js, entries := es, draws := k\<rparr>"

lemma awarded_fields [simp]:
  "promotions (awarded_state p c promo n js es k s) =
     update_where (\<lambda>x. pr_id x = pr_id promo) (spend promo n) (promotions s)"
  "customers (awarded_state p c promo n js es k s) = update_where (\<lambda>x. c_id x = c) (add_earned n) (customers s)"
  by (simp_all add: awarded_state_def)

lemma award_bonus_cases:
  assumes "award_bonus payment c promo n s = (r, t)" and "points_sound s"
  obtains (missing) "r = Inl P2025" and "t = s\<lparr>draws := Suc (draws s)\<rparr>" and "points_sound t"
      and "find_by (\<lambda>x. c_id x = c) (customers s) = None \<or> \<not> exists_by (\<lambda>x. pr_id x = pr_id promo) (promotions s)"
    | (awarded) js es k where "r = Inr ()" and "t = awarded_state payment c promo n js es k s" and "points_sound t"
      and "find_by (\<lambda>x. c_id x = c) (customers s) \<noteq> None"
proof -
  let ?i = "''pts_'' @ rnd s (draws s)"
  let ?row = "points_entry ?i (p_store payment) c EARN n (Some (p_id payment)) (Some (''promo:'' @ pr_name promo)) (clock s) None"
  let ?u = "s\<lparr>draws := Suc (draws s)\<rparr>"
  let ?rest = "seqM (updateM promotions promotions_update (\<lambda>x. pr_id x = pr_id promo) (spend promo n)) (journal_points MEarn ?row)"
  have run: "transaction (seqM (record_points ?row (add_earned n)) ?rest) ?u = (r, t)"
    using assms(1) by (simp add: award_bonus_def op_simps Let_def)
  note u = drawn_txn [OF assms(2)]
  obtain r1 v where v: "record_points ?row (add_earned n) ?u = (r1, v)" by (rule prod.exhaust)
  have fresh: "fresh_txn (pt_id ?row) ?u" using u(2) by simp
  have mv: "moves ?row (add_earned n) ?u" by simp
  from v u(1) fresh mv show ?thesis
  proof (cases rule: record_points_cases)
    case missing
    with run v have "r = Inl P2025" "t = ?u" by (auto simp: transaction_def seqM_def bindM_def)
    with u(1) missing(2) show ?thesis by (intro that(1)) simp_all
  next
    case recorded
    show ?thesis
    proof (cases "exists_by (\<lambda>x. pr_id x = pr_id promo) (promotions v)")
      case False
      with run v recorded(1) have "r = Inl P2025" "t = ?u"
        by (auto simp: transaction_def seqM_def bindM_def updateM_def)
      with u(1) False recorded(3) show ?thesis by (intro that(1)) simp_all
    next
      case True
      let ?w = "v\<lparr>promotions := update_where (\<lambda>x. pr_id x = pr_id promo) (spend promo n) (promotions v)\<rparr>"
      from ahead_promotions [OF recorded(4)] have "ahead ?row ?w" .
      from journal_points_ahead [OF this, of MEarn] obtain js es k where j:
        "journal_points MEarn ?row ?w = (Inr (), ?w\<lparr>journals := js, entries := es, draws := k\<rparr>)"
        "points_sound (?w\<lparr>journals := js, entries := es, draws := k\<rparr>)" by metis
      have "r = Inr ()" "t = ?w\<lparr>journals := js, entries := es, draws := k\<rparr>"
        using run v recorded(1) True j(1) by (auto simp: transaction_def seqM_def bindM_def updateM_def)
      moreover have "?w\<lparr>journals := js, entries := es, draws := k\<rparr> = awarded_state payment c promo n js es k s"
        using recorded(3) by (simp add: awarded_state_def)
      ultimately show ?thesis using j(2) recorded(2) by (intro that(2) [where js = js and es = es and k = k]) simp_all
    qed
  qed
qed

text \<open>One promotion: either it does not apply, or the award is made, or the transaction is lost.\<close>

lemma apply_promo_cases:
  assumes "apply_promo payment c base n promo s = (r, t)" and "points_sound s"
  obtains (skipped) "r = Inr n" and "t = s"
    | (lost) "r = Inl P2025" and "t = s\<lparr>draws := Suc (draws s)\<rparr>"
    | (awarded) b js es k where "r = Inr (n + b)" and "budget_cut promo (promo_bonus promo base) = Some b"
      and "t = awarded_state payment c promo b js es k s" and "points_sound t"
      and "find_by (\<lambda>x. c_id x = c) (customers s) \<noteq> None"
proof (cases "below_minimum promo (p_amount payment) \<or> budget_cut promo (promo_bonus promo base) = None \<or>
    \<not> (case pr_segment promo of None \<Rightarrow> True | Some g \<Rightarrow> g = [] \<or> customerMatches g c s)")
  case True
  then have "apply_promo payment c base n promo s = (Inr n, s)"
    by (cases "below_minimum promo (p_amount payment)";
      cases "case pr_segment promo of None \<Rightarrow> True | Some g \<Rightarrow> g = [] \<or> customerMatches g c s")
      (simp_all add: apply_promo_def op_simps)
  then have "(r, t) = (Inr n, s)" using assms(1) by simp
  then show ?thesis using skipped by simp
next
  case False
  then obtain b where b: "budget_cut promo (promo_bonus promo base) = Some b" by auto
  obtain r1 u where u: "award_bonus payment c promo b s = (r1, u)" by (rule prod.exhaust)
  have run: "apply_promo payment c base n promo s = (case r1 of Inl e \<Rightarrow> (Inl e, u) | Inr _ \<Rightarrow> (Inr (n + b), u))"
    using False b u by (simp add: apply_promo_def if_distribR op_simps bindM_def split: sum.split)
  from u assms(2) show ?thesis
  proof (cases rule: award_bonus_cases)
    case missing
    with run assms(1) show ?thesis by (intro that(2)) simp_all
  next
    case (awarded js es k)
    with run assms(1) b show ?thesis by (intro that(3) [where b = b and js = js and es = es and k = k]) simp_all
  qed
qed

lemma budget_cut_pos: "budget_cut promo b = Some x \<Longrightarrow> 0 < x \<and> x \<le> b"
  by (auto simp: budget_cut_def Let_def split: if_splits option.splits)

lemma budget_cut_within: "budget_cut promo b = Some x \<Longrightarrow> pr_budget promo = Some m \<Longrightarrow> pr_spent promo + x \<le> m"
  by (auto simp: budget_cut_def Let_def split: if_splits)

lemma keeps_apply_promo: "keeps points_sound (apply_promo payment c base n promo)"
proof (rule keepsI)
  fix s assume "points_sound s"
  obtain r t where o: "apply_promo payment c base n promo s = (r, t)" by (rule prod.exhaust)
  from o \<open>points_sound s\<close> have "points_sound t"
    by (cases rule: apply_promo_cases) (use \<open>points_sound s\<close> in \<open>simp_all add: points_sound_draws\<close>)
  then show "points_sound (snd (apply_promo payment c base n promo s))" by (simp add: o)
qed

lemma keeps_applyToPayment: "keeps points_sound (applyToPayment payment base)"
  unfolding applyToPayment_def
  by (cases "p_customer payment") (auto intro!: keeps_intros keeps_apply_promo)

section \<open>The balance and the total bonus\<close>

definition points_of :: "string \<Rightarrow> db \<Rightarrow> int option" where
  "points_of c s = map_option c_points (find_by (\<lambda>x. c_id x = c) (customers s))"

lemma points_of_update:
  assumes "customers t = update_where (\<lambda>x. c_id x = c) f (customers s)" and "\<And>x. c_id (f x) = c_id x"
    and "\<And>x. c_points (f x) = c_points x + n"
  shows "points_of d t = map_option (\<lambda>b. if d = c then b + n else b) (points_of d s)"
proof -
  have "find_by (\<lambda>x. c_id x = d) (customers t) =
      map_option (\<lambda>x. if c_id x = c then f x else x) (find_by (\<lambda>x. c_id x = d) (customers s))"
    unfolding assms(1) by (rule find_by_update_where) (simp add: assms(2))
  then show ?thesis
    by (cases "find_by (\<lambda>x. c_id x = d) (customers s)") (auto simp: points_of_def assms dest: find_by_SomeD)
qed

lemma apply_promo_points:
  assumes "apply_promo payment c base n promo s = (Inr m, t)" and "points_sound s"
  shows "points_sound t \<and> points_of d t = map_option (\<lambda>b. if d = c then b + (m - n) else b) (points_of d s) \<and> n \<le> m"
  using assms
proof (cases rule: apply_promo_cases)
  case skipped
  then show ?thesis using assms(2) by (cases "points_of d s") auto
next
  case lost
  then show ?thesis by simp
next
  case (awarded b js es k)
  have "points_of d t = map_option (\<lambda>x. if d = c then x + b else x) (points_of d s)"
    by (rule points_of_update [of _ c "add_earned b"]) (simp_all add: awarded(3))
  moreover have "b = m - n" using awarded(1) by simp
  ultimately have "points_of d t = map_option (\<lambda>x. if d = c then x + (m - n) else x) (points_of d s)" by (simp only:)
  then show ?thesis using awarded(1,4) budget_cut_pos [OF awarded(2)] by simp
qed

lemma apply_promos_points:
  assumes "foldM (apply_promo payment c base) n promos s = (Inr m, t)" and "points_sound s"
  shows "points_sound t \<and> points_of d t = map_option (\<lambda>b. if d = c then b + (m - n) else b) (points_of d s) \<and> n \<le> m"
  using assms
proof (induction promos arbitrary: n s)
  case Nil
  then show ?case by (cases "points_of d s") (auto simp: op_simps)
next
  case (Cons promo promos)
  from Cons.prems(1) obtain k u where a: "apply_promo payment c base n promo s = (Inr k, u)"
    "foldM (apply_promo payment c base) k promos u = (Inr m, t)"
    by (auto elim: bindM_InrE)
  have first: "points_sound u" "points_of d u = map_option (\<lambda>b. if d = c then b + (k - n) else b) (points_of d s)" "n \<le> k"
    using apply_promo_points [OF a(1) Cons.prems(2)] by blast+
  from Cons.IH [OF a(2) first(1)] first(2,3) show ?case by (cases "points_of d s") auto
qed

lemma apply_promo_awards:
  assumes "points_sound s" and "find_by (\<lambda>x. c_id x = c) (customers s) \<noteq> None"
    and "exists_by (\<lambda>x. pr_id x = pr_id promo) (promotions s)" and "pr_segment promo = None"
    and "\<not> below_minimum promo (p_amount payment)" and "budget_cut promo (promo_bonus promo base) = Some b"
  obtains js es k where "apply_promo payment c base n promo s = (Inr (n + b), awarded_state payment c promo b js es k s)"
    and "points_sound (awarded_state payment c promo b js es k s)"
proof -
  obtain r1 u where u: "award_bonus payment c promo b s = (r1, u)" by (rule prod.exhaust)
  have run: "apply_promo payment c base n promo s = (case r1 of Inl e \<Rightarrow> (Inl e, u) | Inr _ \<Rightarrow> (Inr (n + b), u))"
    using assms(4-6) u by (simp add: apply_promo_def if_distribR op_simps bindM_def split: sum.split)
  from u assms(1) show ?thesis
  proof (cases rule: award_bonus_cases)
    case missing
    with assms(2,3) show ?thesis by simp
  next
    case (awarded js es k)
    with run show ?thesis by (intro that [where js = js and es = es and k = k]) simp_all
  qed
qed

section \<open>Budgets\<close>

definition within_budget :: "promotion_row \<Rightarrow> bool" where
  "within_budget p \<longleftrightarrow> (case pr_budget p of None \<Rightarrow> True | Some b \<Rightarrow> pr_spent p \<le> b)"

definition budgets_ok :: "db \<Rightarrow> bool" where
  "budgets_ok s \<longleftrightarrow> points_sound s \<and> keyed pr_id (promotions s) \<and> list_all within_budget (promotions s)"

lemma spend_fields [simp]: "pr_id (spend promo n x) = pr_id x" "pr_spent (spend promo n x) = pr_spent x + n"
  "pr_budget (spend promo n x) = pr_budget x"
  by (simp_all add: spend_def)

lemma apply_promo_budgets:
  assumes "apply_promo payment c base n promo s = (r, t)" and "budgets_ok s" and "promo \<in> set (promotions s)"
  shows "budgets_ok t \<and> (\<forall>q \<in> set (promotions s). pr_id q \<noteq> pr_id promo \<longrightarrow> q \<in> set (promotions t))"
proof -
  have ps: "points_sound s" and k: "keyed pr_id (promotions s)" and w: "list_all within_budget (promotions s)"
    using assms(2) by (simp_all add: budgets_ok_def)
  from assms(1) ps show ?thesis
  proof (cases rule: apply_promo_cases)
    case skipped
    then show ?thesis using assms(2) by simp
  next
    case lost
    then show ?thesis using assms(2) ps by (simp add: budgets_ok_def points_sound_draws)
  next
    case (awarded b js es i)
    let ?f = "spend promo b"
    have t: "promotions t = update_where (\<lambda>x. pr_id x = pr_id promo) ?f (promotions s)" using awarded(3) by simp
    have "within_budget x" if x: "x \<in> set (promotions t)" for x
    proof -
      from x obtain y where y: "y \<in> set (promotions s)" "x = (if pr_id y = pr_id promo then ?f y else y)"
        by (auto simp: t update_where_def)
      show ?thesis
      proof (cases "pr_id y = pr_id promo")
        case True
        then have "y = promo" using keyed_unique [OF k y(1) assms(3)] by simp
        then show ?thesis using y(2) awarded(2) by (auto simp: within_budget_def budget_cut_within split: option.split)
      next
        case False
        then show ?thesis using y w by (simp add: list_all_iff)
      qed
    qed
    moreover have "keyed pr_id (promotions t)" using k by (simp add: t keyed_update_where)
    moreover have "\<forall>q \<in> set (promotions s). pr_id q \<noteq> pr_id promo \<longrightarrow> q \<in> set (promotions t)"
      by (auto simp: t update_where_def)
    ultimately show ?thesis using awarded(4) by (simp add: budgets_ok_def list_all_iff)
  qed
qed

lemma apply_promos_budgets:
  assumes "budgets_ok s" and "distinct (map pr_id promos)" and "set promos \<subseteq> set (promotions s)"
  shows "budgets_ok (snd (foldM (apply_promo payment c base) n promos s))"
  using assms
proof (induction promos arbitrary: n s)
  case Nil
  then show ?case by (simp add: op_simps)
next
  case (Cons promo promos)
  obtain r u where u: "apply_promo payment c base n promo s = (r, u)" by (rule prod.exhaust)
  from apply_promo_budgets [OF u Cons.prems(1)] Cons.prems(3)
  have step: "budgets_ok u" "\<forall>q \<in> set (promotions s). pr_id q \<noteq> pr_id promo \<longrightarrow> q \<in> set (promotions u)" by simp_all
  have "set promos \<subseteq> set (promotions u)"
  proof
    fix q assume q: "q \<in> set promos"
    then have i: "pr_id q \<in> pr_id ` set promos" by (rule imageI)
    have "pr_id promo \<notin> pr_id ` set promos" using Cons.prems(2) by simp
    with i have "pr_id q \<noteq> pr_id promo" by metis
    moreover have "q \<in> set (promotions s)" using q Cons.prems(3) by auto
    ultimately show "q \<in> set (promotions u)" using step(2) by blast
  qed
  then have "budgets_ok (snd (foldM (apply_promo payment c base) k promos u))" for k
    using Cons.IH [OF step(1)] Cons.prems(2) by simp
  then show ?case using step(1) u by (cases r) (simp_all add: bindM_def)
qed

lemma distinct_rows_where: "keyed k t \<Longrightarrow> distinct (map k (rows_where p t))"
  by (simp add: keyed_def rows_where_def distinct_map_filter)

lemma applyToPayment_budgets: "budgets_ok s \<Longrightarrow> budgets_ok (snd (applyToPayment payment base s))"
proof (cases "p_customer payment")
  case (Some c)
  assume b: "budgets_ok s"
  let ?ps = "rows_where (live_promotion (p_store payment) (clock s)) (promotions s)"
  have "budgets_ok (snd (foldM (apply_promo payment c base) 0 ?ps s))"
    using b by (intro apply_promos_budgets distinct_rows_where) (auto simp: budgets_ok_def)
  then show ?thesis using b Some by (simp add: applyToPayment_def op_simps)
qed (simp add: applyToPayment_def op_simps)

section \<open>Approval\<close>

text \<open>What the status of a promotion can become through the approval operations.\<close>

lemma set_status_active:
  assumes "set_status u i ActiveP s = (Inr (), t)"
  shows "\<exists>x. find_by (\<lambda>x. pr_id x = i) (promotions s) = Some x \<and> pr_approved x"
proof -
  obtain r where "ownedM promotions (\<lambda>x. pr_id x = i) pr_store ''Promotion not found'' u StoreWrite s = (r, s)"
    using assms unfolding set_status_def promotion_owned_def
    by (cases "ownedM promotions (\<lambda>x. pr_id x = i) pr_store ''Promotion not found'' u StoreWrite s")
      (auto simp: bindM_def ownedM_Inr split: sum.splits)
  with assms show ?thesis
    by (cases r) (auto simp: set_status_def promotion_owned_def bindM_def ownedM_Inr op_simps split: if_splits)
qed

lemma change_promotion_effect:
  assumes "change_promotion u i perm f s = (Inr (), t)"
  shows "t = s\<lparr>promotions := update_where (\<lambda>x. pr_id x = i) f (promotions s)\<rparr>"
proof -
  from assms obtain x v where v: "promotion_owned u i perm s = (Inr x, v)"
    and w: "updateM promotions promotions_update (\<lambda>x. pr_id x = i) f v = (Inr (), t)"
    unfolding change_promotion_def by (rule bindM_InrE)
  from v have "v = s" by (simp add: promotion_owned_def ownedM_Inr)
  with w show ?thesis by (auto simp: updateM_def split: if_splits)
qed

section \<open>Properties\<close>

text \<open>Whatever promotions apply to a payment, the balances stay what the ledger says, and when the
  call succeeds it reports exactly the points by which it raised the balance of the payer, and no other
  customer's balance moves.\<close>

theorem bonus_total:
  assumes "points_sound s" and "applyToPayment payment base s = (Inr bonus, t)"
  shows "points_sound t \<and> 0 \<le> bonus \<and>
    (\<forall>d. points_of d t = map_option (\<lambda>b. if p_customer payment = Some d then b + bonus else b) (points_of d s))"
proof (cases "p_customer payment = None \<or> p_customer payment = Some []")
  case True
  then have "t = s" "bonus = 0" using assms(2) by (auto simp: applyToPayment_def op_simps)
  then show ?thesis using assms(1) by (simp add: map_option_idI)
next
  case False
  then obtain c where c: "p_customer payment = Some c" "c \<noteq> []" by auto
  then have run: "foldM (apply_promo payment c base) 0
      (rows_where (live_promotion (p_store payment) (clock s)) (promotions s)) s = (Inr bonus, t)"
    using assms(2) by (simp add: applyToPayment_def op_simps)
  have "points_of d t = map_option (\<lambda>b. if d = c then b + bonus else b) (points_of d s)" for d
    using apply_promos_points [OF run assms(1), unfolded diff_zero] by blast
  moreover have "points_sound t" "0 \<le> bonus" using apply_promos_points [OF run assms(1)] by blast+
  ultimately show ?thesis by (simp add: c(1) eq_commute [of c])
qed

definition bonus_promotion :: promotion_row where
  "bonus_promotion = \<lparr>pr_id = ''promo_1'', pr_store = ''store_1'', pr_name = ''Launch'', pr_type = BonusPoints,
     pr_status = ActiveP, pr_segment = None,
     pr_config = \<lparr>cf_multiplier = None, cf_bonus_points = Some 10, cf_min_amount = None\<rparr>, pr_budget = Some 10,
     pr_spent = 0, pr_start = None, pr_end = None, pr_submitted = True, pr_approved = True,
     pr_approved_by = Some ''u_1'', pr_note = None\<rparr>"

definition bonus_db :: db where
  "bonus_db = empty_db\<lparr>customers := [sample_customer], promotions := [bonus_promotion]\<rparr>"

definition bonus_payment :: "string \<Rightarrow> payment_row" where
  "bonus_payment i = (sample_payment 5 USD)\<lparr>p_id := i, p_customer := Some ''cus_1''\<rparr>"

lemma bonus_db_ok: "points_sound bonus_db" "budgets_ok bonus_db"
proof -
  have "fresh_ids bonus_db" using fresh_ids_empty by (simp add: fresh_ids_def bonus_db_def)
  then show "points_sound bonus_db"
    by (simp add: points_sound_def bonus_db_def mirrored_def pointsBalanceFor_def creditsMinusDebits_def
        sample_customer_def empty_db_def keyed_def)
  then show "budgets_ok bonus_db"
    by (simp add: budgets_ok_def bonus_db_def keyed_def within_budget_def bonus_promotion_def)
qed

lemma bonus_promotion_cut: "budget_cut bonus_promotion (promo_bonus bonus_promotion base) = Some 10"
  "\<not> below_minimum bonus_promotion x" "pr_segment bonus_promotion = None"
  by (simp_all add: budget_cut_def promo_bonus_def bonus_promotion_def unless_none_def below_minimum_def)

lemma bonus_db_live: "rows_where (live_promotion ''store_1'' (clock bonus_db)) (promotions bonus_db) = [bonus_promotion]"
  by (simp add: bonus_db_def live_promotion_def bonus_promotion_def)

lemma bonus_applied: "\<exists>js es k. applyToPayment (bonus_payment i) base bonus_db =
    (Inr 10, awarded_state (bonus_payment i) ''cus_1'' bonus_promotion 10 js es k bonus_db)"
proof -
  have p: "find_by (\<lambda>x. c_id x = ''cus_1'') (customers bonus_db) \<noteq> None"
    "exists_by (\<lambda>x. pr_id x = pr_id bonus_promotion) (promotions bonus_db)"
    by (simp_all add: bonus_db_def sample_customer_def)
  obtain js es k where "apply_promo (bonus_payment i) ''cus_1'' base 0 bonus_promotion bonus_db =
      (Inr (0 + 10), awarded_state (bonus_payment i) ''cus_1'' bonus_promotion 10 js es k bonus_db)"
    by (rule apply_promo_awards [OF bonus_db_ok(1) p bonus_promotion_cut(3,2,1)])
  then show ?thesis
    by (auto simp: applyToPayment_def bonus_payment_def sample_payment_def op_simps bonus_db_live bindM_def)
qed

theorem bonus_total_witness:
  "\<exists>t. applyToPayment (bonus_payment ''pay_1'') 5 bonus_db = (Inr 10, t) \<and> points_of ''cus_1'' t = Some 10"
proof -
  obtain js es k where a: "applyToPayment (bonus_payment ''pay_1'') 5 bonus_db =
      (Inr 10, awarded_state (bonus_payment ''pay_1'') ''cus_1'' bonus_promotion 10 js es k bonus_db)"
    using bonus_applied by metis
  have "points_of ''cus_1'' bonus_db = Some 0" by (simp add: points_of_def bonus_db_def sample_customer_def)
  with bonus_total [OF bonus_db_ok(1) a] a show ?thesis by (auto simp: bonus_payment_def)
qed

text \<open>No promotion spends more than its budget, whatever payment it is applied to, as long as
  payments are handled one after the other.\<close>

theorem budget_respected:
  assumes "budgets_ok s"
  shows "budgets_ok (snd (applyToPayment payment base s))"
  using assms by (rule applyToPayment_budgets)

theorem budget_respected_witness: "budgets_ok (snd (applyToPayment (bonus_payment ''pay_1'') 5 bonus_db))"
  by (rule budget_respected [OF bonus_db_ok(2)])

text \<open>Two payments that read the promotion before either award is written both spend the same
  remainder: a promotion with a budget of 10 points has then given 20, and its status is ended twice.\<close>

theorem budget_overspent_by_race:
  "\<exists>t u. apply_promo (bonus_payment ''pay_1'') ''cus_1'' 5 0 bonus_promotion bonus_db = (Inr 10, t) \<and>
     apply_promo (bonus_payment ''pay_2'') ''cus_1'' 5 0 bonus_promotion t = (Inr 10, u) \<and>
     map pr_spent (promotions u) = [20] \<and> map pr_budget (promotions u) = [Some 10]"
proof -
  have p: "find_by (\<lambda>x. c_id x = ''cus_1'') (customers bonus_db) \<noteq> None"
    "exists_by (\<lambda>x. pr_id x = pr_id bonus_promotion) (promotions bonus_db)"
    by (simp_all add: bonus_db_def sample_customer_def)
  obtain js es k where t: "apply_promo (bonus_payment ''pay_1'') ''cus_1'' 5 0 bonus_promotion bonus_db =
      (Inr (0 + 10), awarded_state (bonus_payment ''pay_1'') ''cus_1'' bonus_promotion 10 js es k bonus_db)"
    and ps: "points_sound (awarded_state (bonus_payment ''pay_1'') ''cus_1'' bonus_promotion 10 js es k bonus_db)"
    by (rule apply_promo_awards [OF bonus_db_ok(1) p bonus_promotion_cut(3,2,1)])
  let ?t = "awarded_state (bonus_payment ''pay_1'') ''cus_1'' bonus_promotion 10 js es k bonus_db"
  have q: "find_by (\<lambda>x. c_id x = ''cus_1'') (customers ?t) \<noteq> None"
    "exists_by (\<lambda>x. pr_id x = pr_id bonus_promotion) (promotions ?t)"
    by (simp_all add: bonus_db_def sample_customer_def)
  obtain js' es' k' where u: "apply_promo (bonus_payment ''pay_2'') ''cus_1'' 5 0 bonus_promotion ?t =
      (Inr (0 + 10), awarded_state (bonus_payment ''pay_2'') ''cus_1'' bonus_promotion 10 js' es' k' ?t)"
    by (rule apply_promo_awards [OF ps q bonus_promotion_cut(3,2,1)])
  show ?thesis
    by (rule exI [of _ ?t], rule exI [of _ "awarded_state (bonus_payment ''pay_2'') ''cus_1'' bonus_promotion 10 js' es' k' ?t"])
      (use t u in \<open>simp add: bonus_db_def bonus_promotion_def\<close>)
qed

text \<open>A promotion goes live only once approved, but the approval is no separate authority and does
  not bind: every role that may build a promotion may approve it, an edit keeps the approval whatever it
  changes, and rejecting a live promotion leaves it live.\<close>

theorem approval_gate:
  "(set_status u i ActiveP s = (Inr (), t) \<longrightarrow>
      (\<exists>x. find_by (\<lambda>x. pr_id x = i) (promotions s) = Some x \<and> pr_approved x)) \<and>
   (StoreWrite \<in> set (ROLE_PERMISSIONS r) \<longrightarrow> BillingManage \<in> set (ROLE_PERMISSIONS r)) \<and>
   (update_promotion u i dto s = (Inr (), t) \<longrightarrow> map pr_approved (promotions t) = map pr_approved (promotions s)) \<and>
   (reject u i note s = (Inr (), t) \<longrightarrow> map pr_status (promotions t) = map pr_status (promotions s))"
proof (intro conjI impI)
  show "set_status u i ActiveP s = (Inr (), t) \<Longrightarrow> \<exists>x. find_by (\<lambda>x. pr_id x = i) (promotions s) = Some x \<and> pr_approved x"
    by (rule set_status_active)
  show "StoreWrite \<in> set (ROLE_PERMISSIONS r) \<Longrightarrow> BillingManage \<in> set (ROLE_PERMISSIONS r)" by (cases r) auto
  show "update_promotion u i dto s = (Inr (), t) \<Longrightarrow> map pr_approved (promotions t) = map pr_approved (promotions s)"
    unfolding update_promotion_def by (drule change_promotion_effect) (simp add: map_update_where edit_promotion_def)
  show "reject u i note s = (Inr (), t) \<Longrightarrow> map pr_status (promotions t) = map pr_status (promotions s)"
    unfolding reject_def by (drule change_promotion_effect) (simp add: map_update_where)
qed

end
