(* ===== verification/Idempotency.thy ===== *)
theory Idempotency
  imports Database
begin

text \<open>
  \<open>apps/api/src/idempotency/idempotency.module.ts\<close>: the replay protection of the
  write APIs. The record of a key is written in the transaction of the work it protects, so
  both commit or neither does. SHA-256 is the argument \<open>sha256\<close> of the model; nothing
  is assumed of it but that it is a function.
\<close>

section \<open>The service\<close>

record idem_request =
  iq_scope :: string
  iq_endpoint :: string
  iq_key :: "string option"
  iq_body :: string
  iq_ttl :: "int option"

definition DEFAULT_TTL_MS :: int where
  "DEFAULT_TTL_MS = 24 * 60 * 60 * 1000"

definition hashBody :: "(string \<Rightarrow> string) \<Rightarrow> string \<Rightarrow> string" where
  "hashBody sha256 rawBody = sha256 (if rawBody = [] then ''{}'' else rawBody)"

definition find_record :: "string \<Rightarrow> string \<Rightarrow> string \<Rightarrow> db \<Rightarrow> idem_row option" where
  "find_record scope ep k s =
     find_by (\<lambda>x. ir_store x = scope \<and> ir_endpoint x = ep \<and> ir_key x = k) (idem_records s)"

definition replay :: "idem_row \<Rightarrow> string \<Rightarrow> (resource \<times> nat) handler" where
  "replay rec requestHash =
     (if ir_hash rec \<noteq> requestHash
      then throw (idempotencyConflict ''Idempotency-Key already used with a different request body'')
      else ret (ir_body rec, ir_status rec))"

definition new_record :: "(string \<Rightarrow> string) \<Rightarrow> idem_request \<Rightarrow> string \<Rightarrow> resource \<times> nat \<Rightarrow> int \<Rightarrow> idem_row" where
  "new_record sha256 rq k r now =
     \<lparr>ir_store = iq_scope rq, ir_endpoint = iq_endpoint rq, ir_key = k, ir_hash = hashBody sha256 (iq_body rq),
      ir_status = snd r, ir_body = fst r,
      ir_expires = now + (case iq_ttl rq of None \<Rightarrow> DEFAULT_TTL_MS | Some x \<Rightarrow> x)\<rparr>"

definition run_recorded ::
    "(string \<Rightarrow> string) \<Rightarrow> idem_request \<Rightarrow> string \<Rightarrow> (resource \<times> nat) handler \<Rightarrow> (resource \<times> nat) handler" where
  "run_recorded sha256 rq k run =
     transaction (bindM run (\<lambda>r. bindM (getsM clock) (\<lambda>now.
       seqM (createM idem_records idem_records_update idem_clash (new_record sha256 rq k r now)) (ret r))))"

text \<open>
  \<open>execute\<close>, with the writes \<open>others\<close> that other requests commit between the
  pre-check (or the call, when there is no key) and this request's own transaction. A request that meets no one is
  \<open>execute\<close> with the identity.
\<close>

definition execute_racing ::
    "(string \<Rightarrow> string) \<Rightarrow> (db \<Rightarrow> db) \<Rightarrow> idem_request \<Rightarrow> (resource \<times> nat) handler \<Rightarrow> ((resource \<times> nat) \<times> bool) handler" where
  "execute_racing sha256 others rq run =
     (case iq_key rq of
        None \<Rightarrow> seqM (modifyM others) (bindM (transaction run) (\<lambda>r. ret (r, False)))
      | Some k \<Rightarrow>
        if k = [] then seqM (modifyM others) (bindM (transaction run) (\<lambda>r. ret (r, False)))
        else bindM (getsM (find_record (iq_scope rq) (iq_endpoint rq) k)) (\<lambda>prior.
          (let requestHash = hashBody sha256 (iq_body rq) in
           case prior of
             Some p \<Rightarrow> bindM (replay p requestHash) (\<lambda>r. ret (r, True))
           | None \<Rightarrow>
             seqM (modifyM others)
               (catchM (bindM (run_recorded sha256 rq k run) (\<lambda>r. ret (r, False)))
                  (\<lambda>e. if e = P2002
                       then bindM (getsM (find_record (iq_scope rq) (iq_endpoint rq) k)) (\<lambda>winner.
                         case winner of
                           Some w \<Rightarrow> bindM (replay w requestHash) (\<lambda>r. ret (r, True))
                         | None \<Rightarrow> throw e)
                       else throw e)))))"

definition execute :: "(string \<Rightarrow> string) \<Rightarrow> idem_request \<Rightarrow> (resource \<times> nat) handler \<Rightarrow> ((resource \<times> nat) \<times> bool) handler" where
  "execute sha256 = execute_racing sha256 id"

section \<open>The contract, for any work that leaves the records alone\<close>

abbreviation stored :: "idem_request \<Rightarrow> db \<Rightarrow> idem_row option" where
  "stored rq s \<equiv> find_record (iq_scope rq) (iq_endpoint rq) (the (iq_key rq)) s"

definition keyed_request :: "idem_request \<Rightarrow> bool" where
  "keyed_request rq \<longleftrightarrow> iq_key rq \<noteq> None \<and> iq_key rq \<noteq> Some []"

lemma keyed_requestE:
  assumes "keyed_request rq" obtains k where "iq_key rq = Some k" and "k \<noteq> []"
  using assms by (auto simp: keyed_request_def)

lemma find_record_iff:
  "find_record scope ep k s = None \<longleftrightarrow>
   \<not> exists_by (\<lambda>x. ir_store x = scope \<and> ir_endpoint x = ep \<and> ir_key x = k) (idem_records s)"
  by (simp add: find_record_def exists_by_find)

lemma execute_stored:
  assumes "keyed_request rq" and "stored rq s = Some p"
  shows "execute_racing sha256 others rq run s =
    (if ir_hash p = hashBody sha256 (iq_body rq) then Inr ((ir_body p, ir_status p), True)
     else Inl (idempotencyConflict ''Idempotency-Key already used with a different request body''), s)"
  using assms by (auto elim!: keyed_requestE simp: execute_racing_def op_simps replay_def Let_def)

lemma execute_unkeyed:
  "\<not> keyed_request rq \<Longrightarrow> execute_racing sha256 others rq run s = seqM (modifyM others) (bindM (transaction run) (\<lambda>r. ret (r, False))) s"
  by (auto simp: execute_racing_def keyed_request_def split: option.split)

lemma new_record_clash:
  "exists_by (idem_clash (new_record sha256 rq k r n)) (idem_records s) \<longleftrightarrow>
   find_record (iq_scope rq) (iq_endpoint rq) k s \<noteq> None"
proof -
  have "idem_clash (new_record sha256 rq k r n) = (\<lambda>x. ir_store x = iq_scope rq \<and> ir_endpoint x = iq_endpoint rq \<and> ir_key x = k)"
    by (auto simp: fun_eq_iff idem_clash_def new_record_def)
  then show ?thesis by (simp only: find_record_def exists_by_find)
qed

lemma find_record_cong: "idem_records t = idem_records s \<Longrightarrow> find_record sc ep k t = find_record sc ep k s"
  by (simp add: find_record_def)

locale idempotent_run =
  fixes run :: "(resource \<times> nat) handler"
  assumes run_records: "run s = (r, t) \<Longrightarrow> idem_records t = idem_records s"
begin

lemma run_recorded_ok:
  assumes "run s = (Inr r, t)" and "find_record (iq_scope rq) (iq_endpoint rq) k s = None"
  shows "run_recorded sha256 rq k run s =
    (Inr r, t\<lparr>idem_records := idem_records t @ [new_record sha256 rq k r (clock t)]\<rparr>)"
  using assms(2) find_record_cong [OF run_records [OF assms(1)]]
  by (simp add: run_recorded_def transaction_def bindM_result [where m = run, OF assms(1)] op_simps new_record_clash)

lemma run_recorded_taken:
  assumes "run s = (Inr r, t)" and "find_record (iq_scope rq) (iq_endpoint rq) k s = Some w"
  shows "run_recorded sha256 rq k run s = (Inl P2002, s)"
  using assms(2) find_record_cong [OF run_records [OF assms(1)]]
  by (simp add: run_recorded_def transaction_def bindM_result [where m = run, OF assms(1)] op_simps new_record_clash)

lemma run_recorded_fails: "run s = (Inl e, t) \<Longrightarrow> run_recorded sha256 rq k run s = (Inl e, s)"
  by (simp add: run_recorded_def transaction_def bindM_error [where m = run])

lemma execute_first:
  assumes "keyed_request rq" and "stored rq s = None" and "run s = (Inr r, t)"
  shows "execute sha256 rq run s = (Inr (r, False),
    t\<lparr>idem_records := idem_records t @ [new_record sha256 rq (the (iq_key rq)) r (clock t)]\<rparr>)"
proof -
  from assms(1) obtain k where k: "iq_key rq = Some k" "k \<noteq> []" by (rule keyed_requestE)
  with assms(2) have none: "find_record (iq_scope rq) (iq_endpoint rq) k s = None" by simp
  show ?thesis using k none
    by (simp add: execute_def execute_racing_def op_simps Let_def catchM_def
        bindM_result [where m = "run_recorded sha256 rq k run", OF run_recorded_ok [OF assms(3) none]])
qed

lemma execute_first_stores:
  assumes "keyed_request rq" and "stored rq s = None" and "run s = (Inr r, t)"
  shows "stored rq (snd (execute sha256 rq run s)) = Some (new_record sha256 rq (the (iq_key rq)) r (clock t))"
  using assms(2) run_records [OF assms(3)]
  by (simp add: execute_first [OF assms] find_record_def find_by_append new_record_def)

lemma execute_failed:
  assumes "keyed_request rq" and "stored rq s = None" and "run s = (Inl e, t)"
  shows "execute sha256 rq run s = (Inl e, s)"
proof -
  from assms(1) obtain k where k: "iq_key rq = Some k" "k \<noteq> []" by (rule keyed_requestE)
  with assms(2) have none: "find_record (iq_scope rq) (iq_endpoint rq) k s = None" by simp
  show ?thesis using k none
    by (simp add: execute_def execute_racing_def op_simps Let_def catchM_def
        run_recorded_fails [OF assms(3)]
        bindM_error [where m = "run_recorded sha256 rq k run", OF run_recorded_fails [OF assms(3)]])
qed

text \<open>The loser of a race leaves nothing but the winner's writes.\<close>

lemma execute_lost_race:
  assumes "keyed_request rq" and "stored rq s = None" and "stored rq (others s) = Some w"
    and "run (others s) = (Inr r, t)"
  shows "execute_racing sha256 others rq run s =
    (if ir_hash w = hashBody sha256 (iq_body rq) then Inr ((ir_body w, ir_status w), True)
     else Inl (idempotencyConflict ''Idempotency-Key already used with a different request body''), others s)"
proof -
  from assms(1) obtain k where k: "iq_key rq = Some k" "k \<noteq> []" by (rule keyed_requestE)
  with assms(2,3) have f: "find_record (iq_scope rq) (iq_endpoint rq) k s = None"
    "find_record (iq_scope rq) (iq_endpoint rq) k (others s) = Some w" by simp_all
  show ?thesis using k f
    by (simp add: execute_racing_def op_simps Let_def catchM_def replay_def
        bindM_error [where m = "run_recorded sha256 rq k run", OF run_recorded_taken [OF assms(4) f(2)]])
qed

text \<open>
  A retry of a request that went through: the same answer, marked as a replay, and the same
  state, as long as the record is there, whatever else has happened in between.
\<close>

lemma execute_retry:
  assumes "keyed_request rq" and "stored rq s = None" and "run s = (Inr r, t)"
    and "stored rq u = stored rq (snd (execute sha256 rq run s))"
  shows "execute sha256 (rq\<lparr>iq_body := b\<rparr>) other u =
    (if hashBody sha256 b = hashBody sha256 (iq_body rq) then Inr (r, True)
     else Inl (idempotencyConflict ''Idempotency-Key already used with a different request body''), u)"
proof -
  have "stored (rq\<lparr>iq_body := b\<rparr>) u = Some (new_record sha256 rq (the (iq_key rq)) r (clock t))"
    using assms(4) execute_first_stores [OF assms(1-3)] by simp
  moreover have "keyed_request (rq\<lparr>iq_body := b\<rparr>)" using assms(1) by (simp add: keyed_request_def)
  ultimately show ?thesis
    by (auto simp: execute_def execute_stored new_record_def)
qed

text \<open>Whatever the request and the race, a state property of the work survives.\<close>

lemma execute_keeps:
  assumes "keeps P run" and "\<And>s. P s \<Longrightarrow> P (others s)"
    and "\<And>s rs. P s \<Longrightarrow> P (s\<lparr>idem_records := rs\<rparr>)"
  shows "keeps P (execute_racing sha256 others rq run)"
proof -
  have rec: "keeps P (run_recorded sha256 rq k run)" for k
    unfolding run_recorded_def using assms(1,3) by (intro keeps_intros keeps_create) auto
  have rep: "keeps P (replay w h)" for w h
    unfolding replay_def by (intro keeps_intros)
  show ?thesis
    unfolding execute_racing_def Let_def
    by (cases "iq_key rq") (auto intro!: keeps_intros keeps_modify assms rec rep split: option.split)
qed

end

end
