(* ===== verification/Loyalty.thy ===== *)
theory Loyalty
  imports Campaigns Idempotency
begin

text \<open>
  \<open>apps/api/src/loyalty/loyalty.service.ts\<close>, first part: the program, the award of points
  for a paid payment, their expiry and its warnings, redemption and adjustment, and the tiers.
  The tenant's PayChain connection is an argument: whether an organisation has one, and
  what its two calls return.
\<close>

section \<open>The program\<close>

definition getProgram :: "auth_user \<Rightarrow> string \<Rightarrow> (bool \<times> decimal \<times> int option) handler" where
  "getProgram u storeId =
     bindM (assertStore u storeId StoreRead) (\<lambda>_.
     bindM (findM programs (\<lambda>x. lp_store x = storeId)) (\<lambda>p.
     ret (case p of None \<Rightarrow> (False, 1, None) | Some x \<Rightarrow> (lp_active x, lp_per_unit x, lp_expiry_months x))))"

record program_update =
  up_active :: "bool option"
  up_per_unit :: "decimal option"
  up_expiry :: "int option option"

definition edit_program :: "program_update \<Rightarrow> program_row \<Rightarrow> program_row" where
  "edit_program dto x = x\<lparr>lp_active := unless_none (lp_active x) (up_active dto),
     lp_per_unit := unless_none (lp_per_unit x) (up_per_unit dto),
     lp_expiry_months := unless_none (lp_expiry_months x) (up_expiry dto)\<rparr>"

definition updateProgram :: "auth_user \<Rightarrow> string \<Rightarrow> program_update \<Rightarrow> unit handler" where
  "updateProgram u storeId dto =
     bindM (assertStore u storeId StoreWrite) (\<lambda>_.
     bindM (findM programs (\<lambda>x. lp_store x = storeId)) (\<lambda>p.
     case p of
       Some _ \<Rightarrow> updateM programs programs_update (\<lambda>x. lp_store x = storeId) (edit_program dto)
     | None \<Rightarrow> createM programs programs_update (\<lambda>r x. lp_store r = lp_store x)
         \<lparr>lp_store = storeId, lp_active = unless_none False (up_active dto),
          lp_per_unit = unless_none 1 (up_per_unit dto), lp_expiry_months = unless_none None (up_expiry dto),
          lp_warn_days = 14\<rparr>))"

record loyalty_summary_view =
  ls_active :: bool
  ls_outstanding :: int
  ls_members :: nat
  ls_rewards :: nat
  ls_to_fulfil :: nat

definition loyalty_summary :: "auth_user \<Rightarrow> string \<Rightarrow> loyalty_summary_view handler" where
  "loyalty_summary u storeId =
     bindM (assertStore u storeId PaymentRead) (\<lambda>_. getsM (\<lambda>s.
       \<lparr>ls_active = (case find_by (\<lambda>x. lp_store x = storeId) (programs s) of None \<Rightarrow> False | Some p \<Rightarrow> lp_active p),
        ls_outstanding = sum_list (map c_points (rows_where (\<lambda>c. c_store c = storeId) (customers s))),
        ls_members = count_where (\<lambda>c. c_store c = storeId \<and> 0 < c_points c) (customers s),
        ls_rewards = count_where (\<lambda>r. rw_store r = storeId \<and> rw_active r) (rewards s),
        ls_to_fulfil = count_where (\<lambda>r. rd_store r = storeId \<and> rd_status r = Issued) (redemptions s)\<rparr>))"

record liability_report =
  lr_outstanding :: int
  lr_estimate :: string
  lr_holders :: nat
  lr_earned :: int
  lr_redeemed :: int
  lr_rate :: rat
  lr_top :: "(string \<times> string \<times> int \<times> string) list"

definition points_value :: "int \<Rightarrow> rat \<Rightarrow> string" where
  "points_value points pointValue = to_fixed 2 (num_mul (of_int points) pointValue)"

definition liability :: "auth_user \<Rightarrow> string \<Rightarrow> rat \<Rightarrow> liability_report handler" where
  "liability u storeId pointValue =
     bindM (assertStore u storeId PaymentRead) (\<lambda>_. getsM (\<lambda>s.
       let outstanding = sum_list (map c_points (rows_where (\<lambda>c. c_store c = storeId) (customers s)));
           totalEarned = sum_list (map pt_points (rows_where (\<lambda>t. pt_store t = storeId \<and> pt_type t = EARN) (points_txns s)));
           totalRedeemed = \<bar>sum_list (map pt_points (rows_where (\<lambda>t. pt_store t = storeId \<and> pt_type t = REDEEM) (points_txns s)))\<bar>;
           holders = rows_where (\<lambda>c. c_store c = storeId \<and> 0 < c_points c) (customers s)
       in \<lparr>lr_outstanding = outstanding, lr_estimate = points_value outstanding pointValue,
           lr_holders = length holders, lr_earned = totalEarned, lr_redeemed = totalRedeemed,
           lr_rate = (if 0 < totalEarned then double (to_dp 4 (double (of_int totalRedeemed / of_int totalEarned))) else 0),
           lr_top = map (\<lambda>c. (c_id c, unless_none (unless_none (c_id c) (c_email c)) (c_name c), c_points c,
               points_value (c_points c) pointValue)) (take 10 (sort_key (\<lambda>c. - c_points c) holders))\<rparr>))"

section \<open>Tiers\<close>

definition computeTierId :: "string \<Rightarrow> int \<Rightarrow> db \<Rightarrow> string option" where
  "computeTierId storeId lifetimePoints s =
     (case sort_key (\<lambda>t. - t_threshold t) (rows_where (\<lambda>t. t_store t = storeId \<and> t_threshold t \<le> lifetimePoints) (tiers s)) of
        [] \<Rightarrow> None | t # _ \<Rightarrow> Some (t_id t))"

definition tier_owned :: "auth_user \<Rightarrow> string \<Rightarrow> tier_row handler" where
  "tier_owned u i = ownedM tiers (\<lambda>x. t_id x = i) t_store ''Tier not found'' u StoreWrite"

definition listTiers :: "auth_user \<Rightarrow> string \<Rightarrow> tier_row list handler" where
  "listTiers u storeId =
     bindM (assertStore u storeId StoreRead) (\<lambda>_.
     bindM (manyM tiers (\<lambda>t. t_store t = storeId)) (\<lambda>rows. ret (sort_key t_threshold rows)))"

definition createTier :: "auth_user \<Rightarrow> string \<Rightarrow> string \<Rightarrow> int \<Rightarrow> decimal option \<Rightarrow> tier_row handler" where
  "createTier u storeId name threshold multiplier =
     bindM (assertStore u storeId StoreWrite) (\<lambda>_.
     bindM (prefixedId ''tier'') (\<lambda>i.
     (let row = \<lparr>t_id = i, t_store = storeId, t_name = name, t_threshold = threshold,
          t_multiplier = unless_none 1 multiplier\<rparr>
      in seqM (createM tiers tiers_update (\<lambda>r x. t_id r = t_id x) row) (ret row))))"

definition updateTier :: "auth_user \<Rightarrow> string \<Rightarrow> string option \<Rightarrow> int option \<Rightarrow> decimal option \<Rightarrow> unit handler" where
  "updateTier u i name threshold multiplier =
     bindM (tier_owned u i) (\<lambda>_. updateM tiers tiers_update (\<lambda>x. t_id x = i)
       (\<lambda>x. x\<lparr>t_name := unless_none (t_name x) name, t_threshold := unless_none (t_threshold x) threshold,
         t_multiplier := unless_none (t_multiplier x) multiplier\<rparr>))"

definition deleteTier :: "auth_user \<Rightarrow> string \<Rightarrow> unit handler" where
  "deleteTier u i =
     bindM (tier_owned u i) (\<lambda>_.
     bindM (update_manyM customers customers_update (\<lambda>c. c_tier c = Some i) (\<lambda>c. c\<lparr>c_tier := None\<rparr>)) (\<lambda>_.
     deleteM tiers tiers_update (\<lambda>x. t_id x = i)))"

section \<open>Earning\<close>

record paychain =
  pc_connected :: "string \<Rightarrow> bool"
  pc_wallet :: "string \<Rightarrow> string \<Rightarrow> exn + string"
  pc_earn :: "string \<Rightarrow> decimal \<Rightarrow> currency \<Rightarrow> string \<Rightarrow> string \<Rightarrow> exn + string"
  pc_message :: "exn \<Rightarrow> string"

definition mirror_call :: "paychain \<Rightarrow> payment_row \<Rightarrow> string \<Rightarrow> string \<Rightarrow> unit handler" where
  "mirror_call pc payment customerId txnId =
     bindM (findM customers (\<lambda>c. c_id c = customerId)) (\<lambda>customer.
     bindM (case Option.bind customer c_wallet of
         Some w \<Rightarrow> ret w
       | None \<Rightarrow> bindM (liftE (pc_wallet pc customerId (p_store payment))) (\<lambda>w.
           seqM (updateM customers customers_update (\<lambda>c. c_id c = customerId) (\<lambda>c. c\<lparr>c_wallet := Some w\<rparr>)) (ret w))) (\<lambda>w.
     bindM (liftE (pc_earn pc w (p_amount payment) (p_currency payment) (p_store payment) txnId)) (\<lambda>tx.
     updateM points_txns points_txns_update (\<lambda>t. pt_id t = txnId)
       (\<lambda>t. t\<lparr>pt_paychain_tx := Some tx, pt_detail := None\<rparr>))))"

definition mirrorEarnToPayChain :: "paychain \<Rightarrow> payment_row \<Rightarrow> string \<Rightarrow> string \<Rightarrow> unit handler" where
  "mirrorEarnToPayChain pc payment customerId txnId =
     bindM (findM stores (\<lambda>x. s_id x = p_store payment)) (\<lambda>store.
     case store of
       None \<Rightarrow> ret ()
     | Some st \<Rightarrow> if \<not> pc_connected pc (s_org st) then ret ()
         else catchM (mirror_call pc payment customerId txnId) (\<lambda>e.
           catchM (updateM points_txns points_txns_update (\<lambda>t. pt_id t = txnId)
               (\<lambda>t. t\<lparr>pt_detail := Some (''paychain: '' @ pc_message pc e)\<rparr>))
             (\<lambda>_. ret ())))"

definition award_base :: "payment_row \<Rightarrow> program_row \<Rightarrow> int" where
  "award_base payment program = \<lfloor>num_mul (double (p_amount payment)) (double (lp_per_unit program))\<rfloor>"

definition award_earned :: "int \<Rightarrow> decimal \<Rightarrow> int" where
  "award_earned base multiplier = \<lfloor>num_mul (of_int base) (double multiplier)\<rfloor>"

definition award_reason :: "decimal \<Rightarrow> string" where
  "award_reason m = (if m \<noteq> 1 then ''payment (x'' @ to_fixed (decimal_places m) m @ '')'' else ''payment'')"

definition award_customer :: "int \<Rightarrow> int \<Rightarrow> string option \<Rightarrow> customer_row \<Rightarrow> customer_row" where
  "award_customer earned newLifetime newTierId c =
     c\<lparr>c_points := c_points c + earned, c_lifetime := newLifetime, c_tier := newTierId\<rparr>"

definition tier_multiplier :: "customer_row \<Rightarrow> db \<Rightarrow> decimal" where
  "tier_multiplier c s = (case c_tier c of None \<Rightarrow> 1
     | Some t \<Rightarrow> (case find_by (\<lambda>x. t_id x = t) (tiers s) of None \<Rightarrow> 1 | Some x \<Rightarrow> t_multiplier x))"

definition already_awarded :: "string \<Rightarrow> db \<Rightarrow> bool" where
  "already_awarded paymentId s \<longleftrightarrow>
     exists_by (\<lambda>t. pt_payment t = Some paymentId \<and> pt_type t = EARN) (points_txns s)"

definition award_points ::
    "paychain \<Rightarrow> payment_row \<Rightarrow> string \<Rightarrow> int \<Rightarrow> decimal \<Rightarrow> int \<Rightarrow> int \<Rightarrow> string option \<Rightarrow> unit handler" where
  "award_points pc payment customerId base multiplier earned newLifetime newTierId =
     bindM (prefixedId ''pts'') (\<lambda>txnId. bindM (getsM clock) (\<lambda>now.
     seqM (transaction (book_points MEarn
         (points_entry txnId (p_store payment) customerId EARN earned (Some (p_id payment))
            (Some (award_reason multiplier)) now (Some now))
         (award_customer earned newLifetime newTierId)))
     (seqM (mirrorEarnToPayChain pc payment customerId txnId)
     (bindM (applyToPayment payment base) (\<lambda>_. ret ())))))"

definition awardForPayment :: "paychain \<Rightarrow> payment_row \<Rightarrow> unit handler" where
  "awardForPayment pc payment =
     (case p_customer payment of None \<Rightarrow> ret () | Some customerId \<Rightarrow>
      if customerId = [] then ret ()
      else bindM (findM programs (\<lambda>x. lp_store x = p_store payment)) (\<lambda>program.
      case program of None \<Rightarrow> ret () | Some prog \<Rightarrow>
      if \<not> lp_active prog then ret ()
      else let base = award_base payment prog in
      if base \<le> 0 then ret ()
      else bindM (getsM (already_awarded (p_id payment))) (\<lambda>existing.
      if existing then ret ()
      else bindM (findM customers (\<lambda>c. c_id c = customerId)) (\<lambda>customer.
      case customer of None \<Rightarrow> ret () | Some c \<Rightarrow>
      bindM (getsM (tier_multiplier c)) (\<lambda>multiplier.
      let earned = award_earned base multiplier in
      if earned \<le> 0 then ret ()
      else let newLifetime = c_lifetime c + earned in
      bindM (getsM (computeTierId (p_store payment) newLifetime)) (\<lambda>newTierId.
      award_points pc payment customerId base multiplier earned newLifetime newTierId))))))"

section \<open>Expiry\<close>

text \<open>A movement as the expiry reads it: its points and when it was made.\<close>

definition atRiskBefore :: "(int \<times> int) list \<Rightarrow> int \<Rightarrow> int \<Rightarrow> int" where
  "atRiskBefore txns balance cutoff =
     (let earnedBeforeCutoff = sum_list (map fst (filter (\<lambda>t. 0 < fst t \<and> snd t < cutoff) txns));
          consumed = sum_list (map (\<lambda>t. \<bar>fst t\<bar>) (filter (\<lambda>t. fst t < 0) txns))
      in max 0 (min (max 0 (earnedBeforeCutoff - consumed)) balance))"

definition confirmed_txns :: "string \<Rightarrow> db \<Rightarrow> (int \<times> int) list" where
  "confirmed_txns customerId s =
     map (\<lambda>t. (pt_points t, pt_created t))
       (rows_where (\<lambda>t. pt_customer t = customerId \<and> pt_status t = VConfirmed) (points_txns s))"

definition expiry_reason :: "int \<Rightarrow> string" where
  "expiry_reason months = ''expired (earned over '' @ show_nat (nat months) @ '' month(s) ago)''"

definition expireCustomer :: "string \<Rightarrow> string \<Rightarrow> int \<Rightarrow> int \<Rightarrow> int handler" where
  "expireCustomer storeId customerId cutoff months =
     transaction
       (bindM (findM customers (\<lambda>c. c_id c = customerId)) (\<lambda>customer.
        case customer of None \<Rightarrow> ret 0 | Some c \<Rightarrow>
        if c_points c \<le> 0 then ret 0
        else bindM (getsM (confirmed_txns customerId)) (\<lambda>txns.
        let expirable = atRiskBefore txns (c_points c) cutoff in
        if expirable \<le> 0 then ret 0
        else bindM (prefixedId ''pts'') (\<lambda>txnId.
        bindM (getsM clock) (\<lambda>now.
        seqM (book_points MExpire
            (points_entry txnId storeId customerId EXPIRE (- expirable) None (Some (expiry_reason months)) now (Some now))
            (\<lambda>x. x\<lparr>c_points := c_points c - expirable\<rparr>))
          (ret expirable))))))"

definition expiry_window :: "program_row option \<Rightarrow> int option" where
  "expiry_window p = (case p of None \<Rightarrow> None | Some prog \<Rightarrow>
     if \<not> lp_active prog then None
     else case lp_expiry_months prog of None \<Rightarrow> None | Some m \<Rightarrow> if m = 0 then None else Some m)"

definition expire_one :: "string \<Rightarrow> int \<Rightarrow> int \<Rightarrow> nat \<times> int \<Rightarrow> customer_row \<Rightarrow> (nat \<times> int) handler" where
  "expire_one storeId cutoff months acc c =
     catchM (bindM (expireCustomer storeId (c_id c) cutoff months) (\<lambda>n.
         ret (if 0 < n then (Suc (fst acc), snd acc + n) else acc)))
       (\<lambda>e. ret acc)"

definition expireForStore :: "string \<Rightarrow> (nat \<times> int) handler" where
  "expireForStore storeId =
     bindM (findM programs (\<lambda>x. lp_store x = storeId)) (\<lambda>program.
     case expiry_window program of None \<Rightarrow> ret (0, 0) | Some months \<Rightarrow>
     bindM (getsM clock) (\<lambda>now.
     let cutoff = add_months now (- months) in
     bindM (manyM customers (\<lambda>c. c_store c = storeId \<and> 0 < c_points c)) (\<lambda>cs.
     foldM (expire_one storeId cutoff months) (0, 0) cs)))"

definition iso_date :: "int \<Rightarrow> string" where
  "iso_date t = (case civil_from_days (t div ms_day) of (y, m, d) \<Rightarrow>
     pad_left 4 (CHR ''0'') (show_nat (nat y)) @ ''-'' @ pad_left 2 (CHR ''0'') (show_nat (nat m)) @ ''-'' @
     pad_left 2 (CHR ''0'') (show_nat (nat d)))"

definition notify_customer ::
    "string \<Rightarrow> int \<Rightarrow> int \<Rightarrow> int \<Rightarrow> nat \<times> int \<Rightarrow> customer_row \<Rightarrow> (nat \<times> int) handler" where
  "notify_customer storeId months cutoff warnCutoff acc c =
     bindM (getsM (confirmed_txns (c_id c))) (\<lambda>txns.
     let alreadyDue = atRiskBefore txns (c_points c) cutoff;
         atRisk = atRiskBefore txns (c_points c) warnCutoff - alreadyDue
     in if atRisk \<le> 0 then ret acc
        else case sort_key snd (filter (\<lambda>t. 0 < fst t \<and> cutoff \<le> snd t \<and> snd t < warnCutoff) txns) of
          [] \<Rightarrow> ret acc
        | oldest # _ \<Rightarrow>
          let expiresOn = start_of_day (add_months (snd oldest) months) in
          bindM (catchM
              (bindM (prefixedId ''pen'') (\<lambda>i. seqM (createM notices notices_update notice_clash
                 \<lparr>n_id = i, n_customer = c_id c, n_store = storeId, n_expires_on = expiresOn, n_points = atRisk\<rparr>) (ret True)))
              (\<lambda>e. if e = P2002 then ret False else throw e)) (\<lambda>claimed.
          if \<not> claimed then ret acc
          else seqM (emit (Email (unless_none [] (c_email c))
              (show_nat (nat atRisk) @ '' points expiring on '' @ iso_date expiresOn)))
            (ret (Suc (fst acc), snd acc + atRisk))))"

definition notifyExpiringForStore :: "string \<Rightarrow> (nat \<times> int) handler" where
  "notifyExpiringForStore storeId =
     bindM (findM programs (\<lambda>x. lp_store x = storeId)) (\<lambda>program.
     case expiry_window program of None \<Rightarrow> ret (0, 0) | Some months \<Rightarrow>
     bindM (getsM clock) (\<lambda>now.
     let cutoff = add_months now (- months);
         warnCutoff = add_days cutoff (case program of None \<Rightarrow> 0 | Some p \<Rightarrow> lp_warn_days p) in
     bindM (manyM customers (\<lambda>c. c_store c = storeId \<and> 0 < c_points c \<and> c_email c \<noteq> None)) (\<lambda>cs.
     foldM (\<lambda>acc c. catchM (notify_customer storeId months cutoff warnCutoff acc c) (\<lambda>e. ret acc)) (0, 0) cs)))"

record expiry_preview =
  ep_immediate :: "nat \<times> int"
  ep_soon :: "nat \<times> int"
  ep_sample :: "(string \<times> int) list"

definition due_of :: "int \<Rightarrow> db \<Rightarrow> customer_row \<Rightarrow> int" where
  "due_of cutoff s c = atRiskBefore (confirmed_txns (c_id c) s) (c_points c) cutoff"

definition expiryPreview :: "auth_user \<Rightarrow> string \<Rightarrow> int \<Rightarrow> int \<Rightarrow> expiry_preview handler" where
  "expiryPreview u storeId months warnDays =
     bindM (assertStore u storeId StoreRead) (\<lambda>_.
     seqM (guardM (\<not> months < 1) (invalidRequest ''months must be a positive integer''))
     (bindM (getsM clock) (\<lambda>now.
      let cutoff = add_months now (- months); warnCutoff = add_days cutoff warnDays in
      bindM (manyM customers (\<lambda>c. c_store c = storeId \<and> 0 < c_points c)) (\<lambda>cs.
      getsM (\<lambda>s.
        let due = map (\<lambda>c. (c, due_of cutoff s c)) cs;
            soon = map (\<lambda>c. due_of warnCutoff s c - due_of cutoff s c) cs;
            dead = filter (\<lambda>x. 0 < snd x) due;
            dying = filter (\<lambda>n. 0 < n) soon
        in \<lparr>ep_immediate = (length dead, sum_list (map snd dead)), ep_soon = (length dying, sum_list dying),
            ep_sample = map (\<lambda>x. (unless_none (unless_none (c_id (fst x)) (c_email (fst x))) (c_name (fst x)), snd x)) (take 10 dead)\<rparr>)))))"

section \<open>Redeem and adjust\<close>

definition movement_of :: "points_type \<Rightarrow> movement" where
  "movement_of ty = (case ty of EARN \<Rightarrow> MEarn | REDEEM \<Rightarrow> MRedeem | ADJUST \<Rightarrow> MAdjust | EXPIRE \<Rightarrow> MExpire)"

definition mutateIn :: "string \<Rightarrow> string \<Rightarrow> points_type \<Rightarrow> int \<Rightarrow> string option \<Rightarrow> points_resource handler" where
  "mutateIn storeId customerId ty delta reason =
     bindM (findM customers (\<lambda>c. c_id c = customerId)) (\<lambda>customer.
     case customer of None \<Rightarrow> throw (invalidRequest ''Unknown customer for this store'') | Some c \<Rightarrow>
     if c_store c \<noteq> storeId then throw (invalidRequest ''Unknown customer for this store'')
     else let newBalance = c_points c + delta in
     if newBalance < 0 then throw (invalidRequest ''Insufficient points balance'')
     else bindM (prefixedId ''pts'') (\<lambda>txnId.
     bindM (getsM clock) (\<lambda>now.
     seqM (book_points (movement_of ty) (points_entry txnId storeId customerId ty delta None reason now (Some now))
         (\<lambda>x. x\<lparr>c_points := newBalance\<rparr>))
       (ret \<lparr>po_customer = customerId, po_type = ty, po_points = delta, po_balance = newBalance\<rparr>))))"

definition mutate :: "string \<Rightarrow> string \<Rightarrow> points_type \<Rightarrow> int \<Rightarrow> string option \<Rightarrow> points_resource handler" where
  "mutate storeId customerId ty delta reason = transaction (mutateIn storeId customerId ty delta reason)"

definition redeem :: "string \<Rightarrow> string \<Rightarrow> int \<Rightarrow> string option \<Rightarrow> points_resource handler" where
  "redeem storeId customerId points reason = mutate storeId customerId REDEEM (- \<bar>points\<bar>) reason"

definition adjust :: "auth_user \<Rightarrow> string \<Rightarrow> int \<Rightarrow> string option \<Rightarrow> points_resource handler" where
  "adjust u customerId points reason =
     bindM (ownedM customers (\<lambda>c. c_id c = customerId) c_store ''Customer not found'' u StoreWrite) (\<lambda>c.
     mutate (c_store c) customerId ADJUST points reason)"

definition redeem_request :: "string \<Rightarrow> key_mode \<Rightarrow> string option \<Rightarrow> string \<Rightarrow> idem_request" where
  "redeem_request storeId mode key rawBody =
     \<lparr>iq_scope = storeId, iq_endpoint = ''POST /v1/loyalty/redeem:'' @ mode_name mode, iq_key = key,
      iq_body = rawBody, iq_ttl = None\<rparr>"

definition redeem_run :: "string \<Rightarrow> string \<Rightarrow> int \<Rightarrow> string option \<Rightarrow> (resource \<times> nat) handler" where
  "redeem_run storeId customerId points reason =
     bindM (mutateIn storeId customerId REDEEM (- \<bar>points\<bar>) reason) (\<lambda>r. ret (PointsRes r, 200))"

definition redeemIdempotent ::
    "(string \<Rightarrow> string) \<Rightarrow> string \<Rightarrow> key_mode \<Rightarrow> string \<Rightarrow> int \<Rightarrow> string option \<Rightarrow> string \<Rightarrow> string option \<Rightarrow>
     ((resource \<times> nat) \<times> bool) handler" where
  "redeemIdempotent sha256 storeId mode customerId points key rawBody reason =
     execute sha256 (redeem_request storeId mode key rawBody) (redeem_run storeId customerId points reason)"

definition points_history :: "auth_user \<Rightarrow> string \<Rightarrow> (int \<times> points_row list) handler" where
  "points_history u customerId =
     bindM (ownedM customers (\<lambda>c. c_id c = customerId) c_store ''Customer not found'' u PaymentRead) (\<lambda>c.
     bindM (manyM points_txns (\<lambda>t. pt_customer t = customerId)) (\<lambda>rows.
     ret (c_points c, take 100 (rev rows))))"

section \<open>The points invariant\<close>

lemma points_sound_customers:
  assumes "points_sound s" and "\<And>c. c_id (f c) = c_id c" and "\<And>c. c_points (f c) = c_points c"
  shows "points_sound (s\<lparr>customers := update_where p f (customers s)\<rparr>)"
proof -
  have "mirrored (s\<lparr>customers := update_where p f (customers s)\<rparr>)"
    using assms by (auto simp: points_sound_def mirrored_def list_all_iff update_where_def pointsBalanceFor_def)
  then show ?thesis using assms by (simp add: points_sound_def keyed_update_where fresh_ids_def)
qed

lemma points_sound_txns:
  assumes "points_sound s" and "\<And>t. pt_id (f t) = pt_id t"
  shows "points_sound (s\<lparr>points_txns := update_where p f (points_txns s)\<rparr>)"
  using assms by (auto simp: points_sound_def fresh_ids_def update_where_def mirrored_def pointsBalanceFor_def)

lemma keeps_mirror: "keeps points_sound (mirrorEarnToPayChain pc payment c i)"
proof -
  have wallet: "keeps points_sound (updateM customers customers_update p (\<lambda>c. c\<lparr>c_wallet := Some w\<rparr>))" for p w
    by (rule keeps_update, rule points_sound_customers) simp_all
  have txn: "keeps points_sound (updateM points_txns points_txns_update p (\<lambda>t. t\<lparr>pt_detail := d\<rparr>))" for p d
    by (rule keeps_update, rule points_sound_txns) simp_all
  have txn': "keeps points_sound (updateM points_txns points_txns_update p (\<lambda>t. t\<lparr>pt_paychain_tx := x, pt_detail := d\<rparr>))" for p x d
    by (rule keeps_update, rule points_sound_txns) simp_all
  have call: "keeps points_sound (mirror_call pc payment c i)"
    unfolding mirror_call_def
    by (intro keeps_intros txn') (auto split: option.split intro!: keeps_intros wallet)
  show ?thesis unfolding mirrorEarnToPayChain_def
    by (intro keeps_intros) (auto split: option.split intro!: keeps_intros call txn)
qed

lemmas bindM_book = bindM_def [where m = "book_points ty row f" for ty row f]

lemmas bindM_transaction = bindM_def [where m = "transaction m" for m]

text \<open>Drawing an identifier and booking an increment under it, in a transaction.\<close>

lemma keeps_drawn_book:
  assumes "\<And>c. c_id (f c) = c_id c" and "\<And>c. c_points (f c) = c_points c + n" and "\<And>i. keeps points_sound (rest i)"
  shows "keeps points_sound (bindM (prefixedId ''pts'') (\<lambda>i. bindM (getsM clock) (\<lambda>now.
    seqM (transaction (book_points ty (points_entry i st cu pty n p r now (cf now)) f)) (rest i))))"
proof (rule keepsI)
  fix s assume s: "points_sound s"
  let ?i = "''pts_'' @ rnd s (draws s)" and ?u = "s\<lparr>draws := Suc (draws s)\<rparr>"
  let ?m = "transaction (book_points ty (points_entry ?i st cu pty n p r (clock s) (cf (clock s))) f)"
  have "points_sound (snd (?m ?u))"
    using drawn_txn [OF s] assms(1,2) by (intro transaction_book_sound) (simp_all add: moves_def split: option.split)
  moreover have "fst (?m ?u) = Inr () \<Longrightarrow> points_sound (snd (rest ?i (snd (?m ?u))))"
    using assms(3) [of ?i] calculation by (rule keepsD)
  ultimately show "points_sound (snd (bindM (prefixedId ''pts'') (\<lambda>i. bindM (getsM clock) (\<lambda>now.
      seqM (transaction (book_points ty (points_entry i st cu pty n p r now (cf now)) f)) (rest i))) s))"
    by (cases "?m ?u"; cases "fst (?m ?u)") (auto simp: op_simps bindM_transaction)
qed

text \<open>The same inside a transaction, with what follows it.\<close>

lemma drawn_book:
  assumes "points_sound s" and "find_by (\<lambda>x. c_id x = cu) (customers s) = Some c"
    and "\<And>x. c_id (f x) = c_id x" and "c_points (f c) = c_points c + n"
  obtains js es k where
    "bindM (prefixedId ''pts'') (\<lambda>i. bindM (getsM clock) (\<lambda>now.
        seqM (book_points ty (points_entry i st cu pty n p r now (cf now)) f) (rest i))) s =
      rest (''pts_'' @ rnd s (draws s)) (s\<lparr>points_txns := points_txns s @
          [points_entry (''pts_'' @ rnd s (draws s)) st cu pty n p r (clock s) (cf (clock s))],
        customers := update_where (\<lambda>x. c_id x = cu) f (customers s), journals := js, entries := es, draws := k\<rparr>)"
    and "points_sound (s\<lparr>points_txns := points_txns s @
          [points_entry (''pts_'' @ rnd s (draws s)) st cu pty n p r (clock s) (cf (clock s))],
        customers := update_where (\<lambda>x. c_id x = cu) f (customers s), journals := js, entries := es, draws := k\<rparr>)"
proof -
  let ?i = "''pts_'' @ rnd s (draws s)" and ?u = "s\<lparr>draws := Suc (draws s)\<rparr>"
  let ?row = "points_entry ?i st cu pty n p r (clock s) (cf (clock s))"
  obtain r1 v where v: "book_points ty ?row f ?u = (r1, v)" by (rule prod.exhaust)
  have u: "points_sound ?u" "fresh_txn (pt_id ?row) ?u" using drawn_txn [OF assms(1)] by simp_all
  have mv: "moves ?row f ?u" using assms(2-4) by (simp add: moves_def)
  from v u mv show ?thesis
  proof (cases rule: book_points_cases)
    case missing
    with assms(2) show ?thesis by simp
  next
    case (booked js es k)
    have t: "v = s\<lparr>points_txns := points_txns s @ [?row], customers := update_where (\<lambda>x. c_id x = cu) f (customers s),
        journals := js, entries := es, draws := k\<rparr>"
      using booked(3) by simp
    have run: "bindM (prefixedId ''pts'') (\<lambda>i. bindM (getsM clock) (\<lambda>now.
        seqM (book_points ty (points_entry i st cu pty n p r now (cf now)) f) (rest i))) s =
      bindM (book_points ty ?row f) (\<lambda>_. rest ?i) ?u"
      by (simp add: op_simps)
    show ?thesis
      by (rule that [where js = js and es = es and k = k], unfold run t [symmetric])
        (simp_all only: bindM_book v booked(1,4) prod.case sum.case)
  qed
qed

lemma keeps_award: "keeps points_sound (awardForPayment pc payment)"
proof -
  have points: "keeps points_sound (award_points pc payment c base m earned life tier)" for c base m earned life tier
    unfolding award_points_def
    by (rule keeps_drawn_book) (auto simp: award_customer_def intro!: keeps_intros keeps_mirror keeps_applyToPayment)
  show ?thesis unfolding awardForPayment_def Let_def
    by (auto intro!: keeps_intros points split: option.split)
qed

text \<open>A redemption or an adjustment: every outcome.\<close>

lemma mutateIn_cases:
  assumes "mutateIn storeId customerId ty delta reason s = (r, t)" and "points_sound s"
  obtains (unknown) "r = Inl (invalidRequest ''Unknown customer for this store'')" and "t = s"
      and "\<not> exists_by (\<lambda>c. c_id c = customerId \<and> c_store c = storeId) (customers s)"
    | (insufficient) c where "r = Inl (invalidRequest ''Insufficient points balance'')" and "t = s"
      and "find_by (\<lambda>c. c_id c = customerId) (customers s) = Some c" and "c_points c + delta < 0"
    | (moved) c js es k where "find_by (\<lambda>c. c_id c = customerId) (customers s) = Some c" and "c_store c = storeId"
      and "0 \<le> c_points c + delta"
      and "r = Inr \<lparr>po_customer = customerId, po_type = ty, po_points = delta, po_balance = c_points c + delta\<rparr>"
      and "t = s\<lparr>points_txns := points_txns s @
          [points_entry (''pts_'' @ rnd s (draws s)) storeId customerId ty delta None reason (clock s) (Some (clock s))],
        customers := update_where (\<lambda>x. c_id x = customerId) (\<lambda>x. x\<lparr>c_points := c_points c + delta\<rparr>) (customers s),
        journals := js, entries := es, draws := k\<rparr>"
      and "points_sound t"
proof (cases "find_by (\<lambda>c. c_id c = customerId) (customers s)")
  case None
  then have "(r, t) = (Inl (invalidRequest ''Unknown customer for this store''), s)"
    using assms(1) by (simp add: mutateIn_def op_simps)
  with None show ?thesis by (intro that(1)) (auto simp: find_by_None exists_by_iff)
next
  case (Some c)
  then have id: "c_id c = customerId" by (auto dest: find_by_SomeD)
  have keyed: "keyed c_id (customers s)" using assms(2) by (simp add: points_sound_def)
  consider (a) "c_store c \<noteq> storeId" | (b) "c_store c = storeId" "c_points c + delta < 0"
    | (d) "c_store c = storeId" "0 \<le> c_points c + delta" by linarith
  then show ?thesis
  proof cases
    case a
    then have "(r, t) = (Inl (invalidRequest ''Unknown customer for this store''), s)"
      using assms(1) Some by (simp add: mutateIn_def op_simps)
    moreover have "\<not> exists_by (\<lambda>c. c_id c = customerId \<and> c_store c = storeId) (customers s)"
      using a find_customer_unique [OF keyed Some] by (auto simp: exists_by_iff)
    ultimately show ?thesis by (intro that(1)) simp_all
  next
    case b
    then have "(r, t) = (Inl (invalidRequest ''Insufficient points balance''), s)"
      using assms(1) Some by (simp add: mutateIn_def op_simps Let_def)
    with Some b show ?thesis by (intro that(2)) simp_all
  next
    case d
    let ?i = "''pts_'' @ rnd s (draws s)" and ?u = "s\<lparr>draws := Suc (draws s)\<rparr>"
    let ?row = "points_entry ?i storeId customerId ty delta None reason (clock s) (Some (clock s))"
    let ?f = "\<lambda>x. x\<lparr>c_points := c_points c + delta\<rparr>"
    obtain r1 v where v: "book_points (movement_of ty) ?row ?f ?u = (r1, v)" by (rule prod.exhaust)
    have run: "(r, t) = (case r1 of Inl e \<Rightarrow> (Inl e, v)
        | Inr _ \<Rightarrow> (Inr \<lparr>po_customer = customerId, po_type = ty, po_points = delta, po_balance = c_points c + delta\<rparr>, v))"
      using assms(1) Some d v
      by (cases r1) (simp_all add: mutateIn_def op_simps Let_def bindM_book)
    have fresh: "fresh_txn (pt_id ?row) ?u" and u: "points_sound ?u" using drawn_txn [OF assms(2)] by simp_all
    have mv: "moves ?row ?f ?u" using Some by (simp add: moves_def)
    from v u fresh mv show ?thesis
    proof (cases rule: book_points_cases)
      case missing
      with Some show ?thesis by simp
    next
      case (booked js es k)
      have "r = Inr \<lparr>po_customer = customerId, po_type = ty, po_points = delta, po_balance = c_points c + delta\<rparr>" "t = v"
        using run booked(1) by simp_all
      with Some d booked(3,4) show ?thesis by (intro that(3) [where js = js and es = es and k = k and c = c]) simp_all
    qed
  qed
qed

lemma keeps_mutateIn: "keeps points_sound (mutateIn storeId customerId ty delta reason)"
proof (rule keepsI)
  fix s assume s: "points_sound s"
  obtain r t where o: "mutateIn storeId customerId ty delta reason s = (r, t)" by (rule prod.exhaust)
  from o s show "points_sound (snd (mutateIn storeId customerId ty delta reason s))"
    by (cases rule: mutateIn_cases) (use s o in simp_all)
qed

lemma keeps_mutate: "keeps points_sound (mutate storeId customerId ty delta reason)"
  unfolding mutate_def by (intro keeps_intros keeps_mutateIn)

lemma mutate_eq: "mutateIn storeId customerId ty delta reason s = (Inr a, t) \<Longrightarrow> mutate storeId customerId ty delta reason s = (Inr a, t)"
  by (simp add: mutate_def transaction_Inr)

section \<open>Expiry takes what it must and no more\<close>

definition earned_before :: "(int \<times> int) list \<Rightarrow> int \<Rightarrow> int" where
  "earned_before txns cutoff = sum_list (map fst (filter (\<lambda>t. 0 < fst t \<and> snd t < cutoff) txns))"

definition consumed :: "(int \<times> int) list \<Rightarrow> int" where
  "consumed txns = sum_list (map (\<lambda>t. \<bar>fst t\<bar>) (filter (\<lambda>t. fst t < 0) txns))"

lemma atRiskBefore_eq:
  "atRiskBefore txns balance cutoff = max 0 (min (max 0 (earned_before txns cutoff - consumed txns)) balance)"
  by (simp add: atRiskBefore_def Let_def earned_before_def consumed_def)

lemma atRiskBefore_bounds: "0 \<le> atRiskBefore txns balance cutoff" "0 < atRiskBefore txns balance cutoff \<Longrightarrow> atRiskBefore txns balance cutoff \<le> balance"
  unfolding atRiskBefore_eq by (simp_all add: max_def min_def split: if_splits)

lemma consume_cases: "(0 :: int) \<le> b \<Longrightarrow> n = max 0 (min (max 0 x) b) \<Longrightarrow> x - n \<le> 0 \<or> b - n \<le> 0"
  by (simp add: min_def max_def split: if_splits)

lemma atRiskBefore_again:
  assumes "n = atRiskBefore txns balance cutoff" and "0 \<le> balance"
  shows "atRiskBefore (txns @ [(- n, d)]) (balance - n) cutoff = 0"
proof -
  have n: "0 \<le> n" using assms(1) atRiskBefore_bounds(1) by simp
  have "earned_before (txns @ [(- n, d)]) cutoff = earned_before txns cutoff" using n by (simp add: earned_before_def)
  moreover have "consumed (txns @ [(- n, d)]) = consumed txns + n" using n by (simp add: consumed_def)
  moreover have "earned_before txns cutoff - consumed txns - n \<le> 0 \<or> balance - n \<le> 0"
    using consume_cases [OF assms(2) assms(1) [unfolded atRiskBefore_eq]] .
  ultimately show ?thesis unfolding atRiskBefore_eq by (auto simp: min_def max_def)
qed

lemma expireCustomer_cases:
  assumes "expireCustomer storeId customerId cutoff months s = (r, t)" and "points_sound s"
  obtains (kept) "r = Inr 0" and "t = s"
      and "\<And>c. find_by (\<lambda>c. c_id c = customerId) (customers s) = Some c \<Longrightarrow> due_of cutoff s c \<le> 0 \<or> c_points c \<le> 0"
    | (expired) c n js es k where "find_by (\<lambda>c. c_id c = customerId) (customers s) = Some c"
      and "n = due_of cutoff s c" and "0 < n" and "n \<le> c_points c" and "r = Inr n"
      and "t = s\<lparr>points_txns := points_txns s @
          [points_entry (''pts_'' @ rnd s (draws s)) storeId customerId EXPIRE (- n) None (Some (expiry_reason months)) (clock s) (Some (clock s))],
        customers := update_where (\<lambda>x. c_id x = customerId) (\<lambda>x. x\<lparr>c_points := c_points c - n\<rparr>) (customers s),
        journals := js, entries := es, draws := k\<rparr>"
      and "points_sound t"
proof (cases "find_by (\<lambda>c. c_id c = customerId) (customers s)")
  case None
  then have "(r, t) = (Inr 0, s)" using assms(1) by (simp add: expireCustomer_def transaction_def op_simps)
  with None show ?thesis by (intro that(1)) simp_all
next
  case (Some c)
  have id: "c_id c = customerId" using Some by (auto dest: find_by_SomeD)
  let ?n = "atRiskBefore (confirmed_txns customerId s) (c_points c) cutoff"
  have due: "due_of cutoff s c = ?n" by (simp add: due_of_def id)
  consider (a) "c_points c \<le> 0" | (b) "0 < c_points c" "?n \<le> 0" | (d) "0 < c_points c" "0 < ?n" by linarith
  then show ?thesis
  proof cases
    case a
    then have "(r, t) = (Inr 0, s)" using assms(1) Some by (simp add: expireCustomer_def transaction_def op_simps)
    with a Some show ?thesis by (intro that(1)) simp_all
  next
    case b
    then have "(r, t) = (Inr 0, s)" using assms(1) Some by (simp add: expireCustomer_def transaction_def op_simps Let_def)
    with b Some show ?thesis by (intro that(1)) (simp_all add: due)
  next
    case d
    let ?i = "''pts_'' @ rnd s (draws s)" and ?u = "s\<lparr>draws := Suc (draws s)\<rparr>"
    let ?row = "points_entry ?i storeId customerId EXPIRE (- ?n) None (Some (expiry_reason months)) (clock s) (Some (clock s))"
    let ?f = "\<lambda>x. x\<lparr>c_points := c_points c - ?n\<rparr>"
    obtain r1 v where v: "book_points MExpire ?row ?f ?u = (r1, v)" by (rule prod.exhaust)
    have fresh: "fresh_txn (pt_id ?row) ?u" and u: "points_sound ?u" using drawn_txn [OF assms(2)] by simp_all
    have mv: "moves ?row ?f ?u" using Some by (simp add: moves_def)
    from v u fresh mv show ?thesis
    proof (cases rule: book_points_cases)
      case missing
      with Some show ?thesis by simp
    next
      case (booked js es k)
      have "(r, t) = (Inr ?n, v)"
        using assms(1) Some d v booked(1)
        by (simp add: expireCustomer_def transaction_def op_simps Let_def bindM_book)
      then have "r = Inr ?n" "t = v" by simp_all
      with booked(3,4) d Some show ?thesis
        by (intro that(2) [where js = js and es = es and k = k and c = c and n = ?n]) (simp_all add: due atRiskBefore_bounds)
    qed
  qed
qed

lemma keeps_expireCustomer: "keeps points_sound (expireCustomer storeId customerId cutoff months)"
proof (rule keepsI)
  fix s assume s: "points_sound s"
  obtain r t where o: "expireCustomer storeId customerId cutoff months s = (r, t)" by (rule prod.exhaust)
  from o s show "points_sound (snd (expireCustomer storeId customerId cutoff months s))"
    by (cases rule: expireCustomer_cases) (use s o in simp_all)
qed

lemma keeps_expireForStore: "keeps points_sound (expireForStore storeId)"
  unfolding expireForStore_def expire_one_def Let_def
  by (auto intro!: keeps_intros keeps_expireCustomer split: option.split)

end
