(* ===== verification/Expiry.thy ===== *)
theory Expiry
  imports Loyalty
begin

text \<open>
  The expiry rule of \<open>loyalty.service.ts\<close> against the model its comment replaces: a
  ledger of lots from which every consumption takes the oldest points first. And the dry run against
  the sweep that it announces.
\<close>

section \<open>Lots\<close>

text \<open>A lot is what is left of an earning, with its date; the list is oldest first.\<close>

type_synonym lots = "(int \<times> int) list"

fun consume_lots :: "int \<Rightarrow> lots \<Rightarrow> lots" where
  "consume_lots n [] = []"
| "consume_lots n ((p, d) # ls) =
     (if n \<le> 0 then (p, d) # ls else if p \<le> n then consume_lots (n - p) ls else (p - n, d) # ls)"

definition lots_step :: "lots \<Rightarrow> int \<times> int \<Rightarrow> lots" where
  "lots_step ls t = (if 0 < fst t then ls @ [t] else consume_lots (- fst t) ls)"

definition lots_of :: "(int \<times> int) list \<Rightarrow> lots" where
  "lots_of txns = foldl lots_step [] txns"

definition lots_before :: "int \<Rightarrow> lots \<Rightarrow> int" where
  "lots_before cutoff ls = sum_list (map fst (filter (\<lambda>l. snd l < cutoff) ls))"

lemma consume_lots_le0 [simp]: "n \<le> 0 \<Longrightarrow> consume_lots n ls = ls"
  by (cases ls) auto

lemma consume_lots_add:
  "0 \<le> m \<Longrightarrow> 0 \<le> n \<Longrightarrow> list_all (\<lambda>l. 0 < fst l) ls \<Longrightarrow>
   consume_lots n (consume_lots m ls) = consume_lots (m + n) ls"
  by (induction m ls rule: consume_lots.induct) (auto simp: algebra_simps)

lemma consume_lots_append:
  "list_all (\<lambda>l. 0 < fst l) ls \<Longrightarrow> n \<le> sum_list (map fst ls) \<Longrightarrow> consume_lots n (ls @ [l]) = consume_lots n ls @ [l]"
  by (induction n ls rule: consume_lots.induct) auto

lemma lots_before_consume:
  "0 \<le> n \<Longrightarrow> list_all (\<lambda>l. 0 < fst l) old \<Longrightarrow> list_all (\<lambda>l. 0 < fst l) new \<Longrightarrow>
   list_all (\<lambda>l. snd l < cutoff) old \<Longrightarrow> list_all (\<lambda>l. cutoff \<le> snd l) new \<Longrightarrow>
   lots_before cutoff (consume_lots n (old @ new)) = max 0 (sum_list (map fst old) - n)"
proof (induction n old rule: consume_lots.induct)
  case (1 n)
  have "lots_before cutoff (consume_lots k ls) = 0" if "list_all (\<lambda>l. cutoff \<le> snd l) ls" for k ls
    using that
  proof (induction k ls rule: consume_lots.induct)
    case (2 k p d ls)
    then have "filter (\<lambda>l. snd l < cutoff) ls = []" by (auto simp: list_all_iff filter_empty_conv)
    with 2 show ?case by (auto simp: lots_before_def)
  qed (simp add: lots_before_def)
  with 1 show ?case by simp
next
  case (2 n p d old)
  have all: "lots_before cutoff (old @ new) = sum_list (map fst old)"
  proof -
    have "filter (\<lambda>l. snd l < cutoff) new = []" "filter (\<lambda>l. snd l < cutoff) old = old"
      using 2 by (auto simp: list_all_iff filter_empty_conv intro: filter_True)
    then show ?thesis by (simp add: lots_before_def)
  qed
  have pos: "0 \<le> sum_list (map fst old)" using 2 by (intro sum_list_nonneg) (force simp: list_all_iff)
  consider (a) "n \<le> 0" | (b) "0 < n" "p \<le> n" | (c) "0 < n" "n < p" by linarith
  then show ?case
  proof cases
    case a
    with 2 all pos show ?thesis by (simp add: lots_before_def)
  next
    case b
    with 2 have "lots_before cutoff (consume_lots (n - p) (old @ new)) = max 0 (sum_list (map fst old) - (n - p))" by simp
    with b show ?thesis by (simp add: algebra_simps)
  next
    case c
    with 2 all pos show ?thesis by (simp add: lots_before_def)
  qed
qed

section \<open>The arithmetic of the service computes the lots\<close>

definition earnings :: "(int \<times> int) list \<Rightarrow> lots" where
  "earnings txns = filter (\<lambda>t. 0 < fst t) txns"

fun never_negative :: "int \<Rightarrow> (int \<times> int) list \<Rightarrow> bool" where
  "never_negative b [] \<longleftrightarrow> 0 \<le> b"
| "never_negative b (t # txns) \<longleftrightarrow> 0 \<le> b \<and> never_negative (b + fst t) txns"

lemma never_negative_snoc:
  "never_negative b (txns @ [t]) \<longleftrightarrow> never_negative b txns \<and> 0 \<le> b + sum_list (map fst txns) + fst t"
  by (induction txns arbitrary: b) (auto simp: algebra_simps)

lemma never_negative_total: "never_negative b txns \<Longrightarrow> 0 \<le> b + sum_list (map fst txns)"
proof (induction txns arbitrary: b)
  case (Cons t txns)
  then have "0 \<le> b + fst t + sum_list (map fst txns)" by simp
  then show ?case by (simp add: add.assoc)
qed simp

lemma earnings_consumed: "sum_list (map fst txns) = sum_list (map fst (earnings txns)) - consumed txns"
  by (induction txns) (auto simp: earnings_def consumed_def)

lemma consumed_nonneg: "0 \<le> consumed txns"
  unfolding consumed_def by (rule sum_list_nonneg) auto

lemma lots_of_consume: "never_negative 0 txns \<Longrightarrow> lots_of txns = consume_lots (consumed txns) (earnings txns)"
proof (induction txns rule: rev_induct)
  case Nil
  then show ?case by (simp add: lots_of_def earnings_def)
next
  case (snoc t txns)
  then have IH: "lots_of txns = consume_lots (consumed txns) (earnings txns)"
    and nn: "never_negative 0 txns" by (simp_all add: never_negative_snoc)
  have pos: "list_all (\<lambda>l. 0 < fst l) (earnings txns)" by (simp add: earnings_def list_all_iff)
  have step: "lots_of (txns @ [t]) = lots_step (lots_of txns) t" by (simp add: lots_of_def)
  show ?case
  proof (cases "0 < fst t")
    case True
    then have "consumed (txns @ [t]) = consumed txns" "earnings (txns @ [t]) = earnings txns @ [t]"
      by (simp_all add: consumed_def earnings_def)
    moreover have "consumed txns \<le> sum_list (map fst (earnings txns))"
      using never_negative_total [OF nn] earnings_consumed [of txns] by linarith
    ultimately show ?thesis using True by (simp add: step IH lots_step_def consume_lots_append [OF pos])
  next
    case False
    then have "consumed (txns @ [t]) = consumed txns + - fst t" "earnings (txns @ [t]) = earnings txns"
      by (auto simp: consumed_def earnings_def)
    with False show ?thesis by (simp add: step IH lots_step_def consume_lots_add [OF consumed_nonneg _ pos])
  qed
qed

lemma sorted_split_filter:
  assumes "sorted (map snd ls)"
  shows "ls = filter (\<lambda>l. snd l < c) ls @ filter (\<lambda>l. c \<le> snd l) ls"
  using assms
proof (induction ls)
  case (Cons l ls)
  then have IH: "ls = filter (\<lambda>l. snd l < c) ls @ filter (\<lambda>l. c \<le> snd l) ls" by simp
  show ?case
  proof (cases "snd l < c")
    case True
    with IH show ?thesis by simp
  next
    case False
    with Cons.prems have "\<forall>x \<in> set ls. c \<le> snd x" by auto
    then have "filter (\<lambda>l. snd l < c) ls = []" "filter (\<lambda>l. c \<le> snd l) ls = ls"
      by (auto simp: filter_empty_conv filter_id_conv)
    with False show ?thesis by simp
  qed
qed simp

lemma sorted_map_filter: "sorted (map f xs) \<Longrightarrow> sorted (map f (filter p xs))"
  by (induction xs) auto

section \<open>The sweep\<close>

lemma confirmed_other:
  "confirmed_txns c (s\<lparr>points_txns := points_txns s @ [row], customers := cs, journals := js, entries := es, draws := k\<rparr>) =
   confirmed_txns c s @ (if pt_customer row = c \<and> pt_status row = VConfirmed then [(pt_points row, pt_created row)] else [])"
  by (simp add: confirmed_txns_def)

lemma expire_one_step:
  assumes "points_sound s" and "find_by (\<lambda>x. c_id x = c_id c) (customers s) = Some c" and "0 < c_points c"
  obtains t where "expire_one storeId cutoff months acc c s =
      (Inr (if 0 < due_of cutoff s c then (Suc (fst acc), snd acc + due_of cutoff s c) else acc), t)"
    and "points_sound t"
    and "\<forall>d. c_id d \<noteq> c_id c \<longrightarrow> due_of cutoff t d = due_of cutoff s d \<and>
      find_by (\<lambda>x. c_id x = c_id d) (customers t) = find_by (\<lambda>x. c_id x = c_id d) (customers s)"
proof -
  obtain r t where o: "expireCustomer storeId (c_id c) cutoff months s = (r, t)" by (rule prod.exhaust)
  from o assms(1) show ?thesis
  proof (cases rule: expireCustomer_cases)
    case kept
    from kept(3) [OF assms(2)] assms(3) have "\<not> 0 < due_of cutoff s c" by linarith
    with kept o assms(1) show ?thesis
      by (intro that [of s]) (simp_all add: expire_one_def catchM_def bindM_def ret_def)
  next
    case (expired c' n js es k)
    have c': "c' = c" using expired(1) assms(2) by simp
    have run: "expire_one storeId cutoff months acc c s = (Inr (Suc (fst acc), snd acc + n), t)"
      using o expired(3,5) by (simp add: expire_one_def catchM_def bindM_def ret_def)
    have due: "due_of cutoff t d = due_of cutoff s d" if "c_id d \<noteq> c_id c" for d
      unfolding due_of_def expired(6) confirmed_other using that by simp
    have look: "find_by (\<lambda>x. c_id x = c_id d) (customers t) = find_by (\<lambda>x. c_id x = c_id d) (customers s)"
      if "c_id d \<noteq> c_id c" for d
    proof -
      have "find_by (\<lambda>x. c_id x = c_id d) (customers t) =
          map_option (\<lambda>x. if c_id x = c_id c then x\<lparr>c_points := c_points c' - n\<rparr> else x) (find_by (\<lambda>x. c_id x = c_id d) (customers s))"
        unfolding expired(6) by (simp add: find_by_update_where)
      then show ?thesis using that
        by (cases "find_by (\<lambda>x. c_id x = c_id d) (customers s)") (auto dest: find_by_SomeD)
    qed
    have "\<forall>d. c_id d \<noteq> c_id c \<longrightarrow> due_of cutoff t d = due_of cutoff s d \<and>
        find_by (\<lambda>x. c_id x = c_id d) (customers t) = find_by (\<lambda>x. c_id x = c_id d) (customers s)"
      using due look by blast
    then show ?thesis by (intro that [of t]) (use run expired(2,3,7) c' in simp_all)
  qed
qed

lemma expire_all:
  assumes "points_sound s" and "distinct (map c_id cs)"
    and "\<And>c. c \<in> set cs \<Longrightarrow> find_by (\<lambda>x. c_id x = c_id c) (customers s) = Some c \<and> 0 < c_points c"
  shows "\<exists>t. foldM (expire_one storeId cutoff months) acc cs s =
    (Inr (fst acc + length (filter (\<lambda>c. 0 < due_of cutoff s c) cs),
          snd acc + sum_list (map (due_of cutoff s) (filter (\<lambda>c. 0 < due_of cutoff s c) cs))), t)"
  using assms
proof (induction cs arbitrary: s acc)
  case Nil
  then show ?case by (simp add: ret_def)
next
  case (Cons c cs)
  let ?acc = "if 0 < due_of cutoff s c then (Suc (fst acc), snd acc + due_of cutoff s c) else acc"
  have c: "find_by (\<lambda>x. c_id x = c_id c) (customers s) = Some c" "0 < c_points c" using Cons.prems(3) by simp_all
  obtain t where t: "expire_one storeId cutoff months acc c s = (Inr ?acc, t)" "points_sound t"
    "\<forall>d. c_id d \<noteq> c_id c \<longrightarrow> due_of cutoff t d = due_of cutoff s d \<and>
      find_by (\<lambda>x. c_id x = c_id d) (customers t) = find_by (\<lambda>x. c_id x = c_id d) (customers s)"
    by (rule expire_one_step [OF Cons.prems(1) c, where storeId = storeId and cutoff = cutoff and months = months and acc = acc])
  have other: "d \<in> set cs \<Longrightarrow> c_id d \<noteq> c_id c" for d using Cons.prems(2) by (auto simp: image_iff)
  have "\<And>d. d \<in> set cs \<Longrightarrow> find_by (\<lambda>x. c_id x = c_id d) (customers t) = Some d \<and> 0 < c_points d"
    using Cons.prems(3) t(3) other by simp
  with Cons.IH [OF t(2)] Cons.prems(2) obtain u where u:
    "foldM (expire_one storeId cutoff months) ?acc cs t =
      (Inr (fst ?acc + length (filter (\<lambda>c. 0 < due_of cutoff t c) cs),
        snd ?acc + sum_list (map (due_of cutoff t) (filter (\<lambda>c. 0 < due_of cutoff t c) cs))), u)"
    by fastforce
  have same: "filter (\<lambda>c. 0 < due_of cutoff t c) cs = filter (\<lambda>c. 0 < due_of cutoff s c) cs"
    using t(3) other by (intro filter_cong refl) simp
  have mp: "map (due_of cutoff t) (filter (\<lambda>c. 0 < due_of cutoff s c) cs) = map (due_of cutoff s) (filter (\<lambda>c. 0 < due_of cutoff s c) cs)"
    using t(3) other by (intro map_cong refl) simp
  have run: "foldM (expire_one storeId cutoff months) acc (c # cs) s = foldM (expire_one storeId cutoff months) ?acc cs t"
    by (simp add: bindM_def t(1))
  show ?case unfolding run u same mp by simp
qed

section \<open>Properties\<close>

text \<open>C18: The closed formula by which points expire computes what a ledger of lots would: for a
  history in order of time whose balance never went below zero, the points at risk before a date are
  what is left of the earnings before it when every consumption has taken the oldest points first.\<close>

theorem expiry_is_fifo:
  assumes "never_negative 0 txns" and "sorted (map snd txns)"
  shows "atRiskBefore txns (sum_list (map fst txns)) cutoff = lots_before cutoff (lots_of txns)"
proof -
  let ?E = "earnings txns" and ?old = "filter (\<lambda>l. snd l < cutoff) (earnings txns)"
    and ?new = "filter (\<lambda>l. cutoff \<le> snd l) (earnings txns)"
  have split: "?E = ?old @ ?new"
    using assms(2) by (intro sorted_split_filter) (simp add: earnings_def sorted_map_filter)
  have pos: "list_all (\<lambda>l. 0 < fst l) ?old" "list_all (\<lambda>l. 0 < fst l) ?new"
    by (simp_all add: earnings_def list_all_iff)
  have old: "sum_list (map fst ?old) = earned_before txns cutoff"
    by (simp add: earnings_def earned_before_def conj_commute)
  have new: "0 \<le> sum_list (map fst ?new)" using pos(2) by (intro sum_list_nonneg) (force simp: list_all_iff)
  have "lots_before cutoff (lots_of txns) = lots_before cutoff (consume_lots (consumed txns) (?old @ ?new))"
    by (subst split [symmetric]) (simp add: lots_of_consume [OF assms(1)])
  also have "\<dots> = max 0 (earned_before txns cutoff - consumed txns)"
    using pos by (subst lots_before_consume) (simp_all add: consumed_nonneg list_all_iff old [symmetric])
  also have "\<dots> = atRiskBefore txns (sum_list (map fst txns)) cutoff"
  proof -
    have "sum_list (map fst ?E) = sum_list (map fst ?old) + sum_list (map fst ?new)"
      by (subst split) simp
    then have "earned_before txns cutoff - consumed txns \<le> sum_list (map fst txns)"
      using old new earnings_consumed [of txns] by linarith
    then show ?thesis
      using never_negative_total [OF assms(1)] by (simp add: atRiskBefore_eq min_def max_def)
  qed
  finally show ?thesis by simp
qed

theorem expiry_is_fifo_witness:
  "atRiskBefore [(100, 1), (- 30, 2), (50, 3), (- 90, 4)] 30 3 = lots_before 3 (lots_of [(100, 1), (- 30, 2), (50, 3), (- 90, 4)]) \<and>
   atRiskBefore [(100, 1), (- 30, 2), (50, 3)] 120 3 = 70"
  using expiry_is_fifo [of "[(100, 1), (- 30, 2), (50, 3), (- 90, 4)]" 3]
  by (simp add: atRiskBefore_def Let_def)

text \<open>Expiring a customer's points takes exactly what is at risk and never more than the balance,
  and running it again at once takes nothing, since the expiry is itself a consumption.\<close>

theorem expire_twice:
  assumes "points_sound s" and "expireCustomer storeId customerId cutoff months s = (Inr n, t)"
  shows "0 \<le> n \<and> (\<forall>b. points_of customerId s = Some b \<longrightarrow> points_of customerId t = Some (b - n) \<and> (0 < n \<longrightarrow> n \<le> b)) \<and>
    expireCustomer storeId customerId cutoff months t = (Inr 0, t)"
  using assms(2,1)
proof (cases rule: expireCustomer_cases)
  case kept
  then show ?thesis using assms(2) by simp
next
  case (expired c m js es k)
  have id: "c_id c = customerId" using expired(1) by (auto dest: find_by_SomeD)
  have c: "find_by (\<lambda>x. c_id x = customerId) (customers t) = Some (c\<lparr>c_points := c_points c - m\<rparr>)"
    using expired(1) id by (simp add: expired(6) find_by_update_where)
  have "confirmed_txns customerId t = confirmed_txns customerId s @ [(- m, clock s)]"
    unfolding expired(6) confirmed_other by simp
  then have "due_of cutoff t (c\<lparr>c_points := c_points c - m\<rparr>) = 0"
    using atRiskBefore_again [of m "confirmed_txns customerId s" "c_points c" cutoff "clock s"] expired(2-4) id
    by (simp add: due_of_def)
  moreover obtain r u where u: "expireCustomer storeId customerId cutoff months t = (r, u)" by (rule prod.exhaust)
  ultimately have "(r, u) = (Inr 0, t)"
    using expired(7) c by (cases rule: expireCustomer_cases [OF u]) auto
  moreover have "n = m" using expired(5) by simp
  ultimately show ?thesis using c u expired(1,3,4) by (simp add: points_of_def)
qed

text \<open>A store with a program, an owner, and a customer who was granted 100 points at time 0.\<close>

definition shop_db :: db where
  "shop_db = empty_db\<lparr>stores := [sample_store], customers := [sample_customer],
     programs := [\<lparr>lp_store = ''store_1'', lp_active = True, lp_per_unit = 1, lp_expiry_months = Some 1, lp_warn_days = 14\<rparr>]\<rparr>"

lemma shop_db_sound: "points_sound shop_db"
proof -
  have "fresh_ids shop_db" using fresh_ids_empty by (simp add: fresh_ids_def shop_db_def)
  then show ?thesis
    by (simp add: points_sound_def shop_db_def mirrored_def pointsBalanceFor_def creditsMinusDebits_def
        sample_customer_def empty_db_def keyed_def)
qed

lemma shop_db_fields:
  "points_txns shop_db = []" "customers shop_db = [sample_customer]" "clock shop_db = 0" "draws shop_db = 0"
  by (simp_all add: shop_db_def empty_db_def)

definition granted_db :: db where
  "granted_db = snd (mutateIn ''store_1'' ''cus_1'' ADJUST 100 None shop_db)"

lemma granted_db_eq:
  obtains js es k where "granted_db = shop_db\<lparr>points_txns := [points_entry (''pts_'' @ rnd shop_db 0) ''store_1'' ''cus_1'' ADJUST 100 None None 0 (Some 0)],
      customers := [sample_customer\<lparr>c_points := 100\<rparr>], journals := js, entries := es, draws := k\<rparr>"
    and "points_sound granted_db"
proof -
  obtain r t where o: "mutateIn ''store_1'' ''cus_1'' ADJUST 100 None shop_db = (r, t)" by (rule prod.exhaust)
  from o shop_db_sound show ?thesis
  proof (cases rule: mutateIn_cases)
    case unknown
    then show ?thesis by (simp add: shop_db_def sample_customer_def)
  next
    case (insufficient c)
    then show ?thesis by (auto simp: shop_db_def sample_customer_def)
  next
    case (moved c js es k)
    then have "c = sample_customer" by (simp add: shop_db_def sample_customer_def)
    have t: "granted_db = t" by (simp add: granted_db_def o)
    show ?thesis
    proof (rule that)
      show "granted_db = shop_db\<lparr>points_txns := [points_entry (''pts_'' @ rnd shop_db 0) ''store_1'' ''cus_1'' ADJUST 100 None None 0 (Some 0)],
          customers := [sample_customer\<lparr>c_points := 100\<rparr>], journals := js, entries := es, draws := k\<rparr>"
        unfolding t moved(5) shop_db_fields \<open>c = sample_customer\<close> by (simp add: sample_customer_def)
      show "points_sound granted_db" unfolding t by (rule moved(6))
    qed
  qed
qed

theorem expire_twice_witness:
  "\<exists>t. expireCustomer ''store_1'' ''cus_1'' 10 1 granted_db = (Inr 100, t) \<and> points_of ''cus_1'' t = Some 0 \<and>
     expireCustomer ''store_1'' ''cus_1'' 10 1 t = (Inr 0, t)"
proof -
  obtain js es k where g: "granted_db = shop_db\<lparr>points_txns := [points_entry (''pts_'' @ rnd shop_db 0) ''store_1'' ''cus_1'' ADJUST 100 None None 0 (Some 0)],
      customers := [sample_customer\<lparr>c_points := 100\<rparr>], journals := js, entries := es, draws := k\<rparr>"
    and ps: "points_sound granted_db" by (rule granted_db_eq)
  have c: "find_by (\<lambda>x. c_id x = ''cus_1'') (customers granted_db) = Some (sample_customer\<lparr>c_points := 100\<rparr>)"
    by (simp add: g sample_customer_def)
  have due: "due_of 10 granted_db (sample_customer\<lparr>c_points := 100\<rparr>) = 100"
    by (simp add: due_of_def confirmed_txns_def g sample_customer_def atRiskBefore_def)
  obtain r t where o: "expireCustomer ''store_1'' ''cus_1'' 10 1 granted_db = (r, t)" by (rule prod.exhaust)
  have r: "r = Inr 100" using ps c due by (cases rule: expireCustomer_cases [OF o]) auto
  have "points_of ''cus_1'' granted_db = Some 100" using c by (simp add: points_of_def)
  with expire_twice [OF ps o [unfolded r]] o r show ?thesis by auto
qed

text \<open>The dry run announces exactly what the next sweep takes: the number of customers and the points
  that the preview reports as expiring immediately are the result of the sweep in the same state.\<close>

theorem preview_is_sweep:
  assumes "points_sound s" and "find_by (\<lambda>x. lp_store x = storeId) (programs s) = Some p"
    and "expiry_window (Some p) = Some months"
    and "expiryPreview u storeId months warnDays s = (Inr preview, s')"
  shows "\<exists>t. expireForStore storeId s = (Inr (ep_immediate preview), t)"
proof -
  let ?cutoff = "add_months (clock s) (- months)"
  let ?cs = "rows_where (\<lambda>c. c_store c = storeId \<and> 0 < c_points c) (customers s)"
  have keyed: "keyed c_id (customers s)" using assms(1) by (simp add: points_sound_def)
  have "\<exists>t. foldM (expire_one storeId ?cutoff months) (0, 0) ?cs s =
      (Inr (length (filter (\<lambda>c. 0 < due_of ?cutoff s c) ?cs),
        sum_list (map (due_of ?cutoff s) (filter (\<lambda>c. 0 < due_of ?cutoff s c) ?cs))), t)"
    using expire_all [OF assms(1) distinct_rows_where [OF keyed], of "\<lambda>c. c_store c = storeId \<and> 0 < c_points c"
        storeId ?cutoff months "(0, 0)"] keyed_find [OF keyed] by simp
  moreover have "ep_immediate preview = (length (filter (\<lambda>c. 0 < due_of ?cutoff s c) ?cs),
      sum_list (map (due_of ?cutoff s) (filter (\<lambda>c. 0 < due_of ?cutoff s c) ?cs)))"
    using assms(4)
    by (auto simp: expiryPreview_def op_simps Let_def filter_map o_def split: sum.splits if_splits)
  ultimately show ?thesis using assms(2,3) by (simp add: expireForStore_def op_simps Let_def)
qed

theorem preview_is_sweep_witness:
  "\<exists>t. expireForStore ''store_1'' (granted_db\<lparr>clock := 100 * ms_day\<rparr>) = (Inr (1, 100), t)"
proof -
  obtain js es k where g: "granted_db = shop_db\<lparr>points_txns := [points_entry (''pts_'' @ rnd shop_db 0) ''store_1'' ''cus_1'' ADJUST 100 None None 0 (Some 0)],
      customers := [sample_customer\<lparr>c_points := 100\<rparr>], journals := js, entries := es, draws := k\<rparr>"
    and ps: "points_sound granted_db" by (rule granted_db_eq)
  let ?s = "granted_db\<lparr>clock := 100 * ms_day\<rparr>"
  have s: "points_sound ?s" by (rule points_sound_cong [of _ granted_db]) (simp_all add: ps)
  have p: "find_by (\<lambda>x. lp_store x = ''store_1'') (programs ?s) =
      Some \<lparr>lp_store = ''store_1'', lp_active = True, lp_per_unit = 1, lp_expiry_months = Some 1, lp_warn_days = 14\<rparr>"
    by (simp add: g shop_db_def)
  have w: "expiry_window (Some \<lparr>lp_store = ''store_1'', lp_active = True, lp_per_unit = 1, lp_expiry_months = Some 1, lp_warn_days = 14\<rparr>) = Some 1"
    by (simp add: expiry_window_def)
  have cut: "add_months (100 * ms_day) (- 1) = 69 * ms_day"
    by code_simp
  have a: "fst (assertStore sample_user ''store_1'' StoreRead ?s) = Inr sample_store"
    by (simp add: assertStore_def op_simps g shop_db_def sample_store_def sample_user_def requirePermission_def
        requireMembership_def roleForOrg_def)
  have "\<exists>preview. expiryPreview sample_user ''store_1'' 1 14 ?s = (Inr preview, ?s) \<and> ep_immediate preview = (1, 100)"
    by (simp add: expiryPreview_def op_simps a Let_def cut)
      (simp add: g due_of_def confirmed_txns_def atRiskBefore_def sample_customer_def ms_day_def)
  then obtain preview where "expiryPreview sample_user ''store_1'' 1 14 ?s = (Inr preview, ?s)" "ep_immediate preview = (1, 100)"
    by blast
  from preview_is_sweep [OF s p w this(1)] this(2) show ?thesis by simp
qed

end
