(* ===== verification/Awards.thy ===== *)
theory Awards
  imports Expiry
begin

text \<open>
  What the award of points and the redemption through the public API promise: one award per
  payment, the points that it is worth, and one redemption per idempotency key.
\<close>

section \<open>Frames\<close>

lemma keeps_book:
  assumes "\<And>s a. P s \<Longrightarrow> P (s\<lparr>points_txns := points_txns s @ [row]\<rparr>)"
    and "\<And>s a. P s \<Longrightarrow> P (s\<lparr>customers := a\<rparr>)"
    and "\<And>s js es n. P s \<Longrightarrow> P (s\<lparr>journals := js, entries := es, draws := n\<rparr>)"
  shows "keeps P (book_points ty row f)"
proof -
  have j: "keeps P (journal_points ty row)"
    unfolding journal_points_def postPointsMovement_def using assms(3) by (intro keeps_intros keeps_post)
  have "keeps P (createM points_txns points_txns_update points_clash row)"
    by (rule keeps_create) (simp add: assms(1))
  moreover have "keeps P (updateM customers customers_update (\<lambda>c. c_id c = pt_customer row) f)"
    by (rule keeps_update) (simp add: assms(2))
  ultimately show ?thesis unfolding book_points_def record_points_def using j by (intro keeps_intros)
qed

lemma keeps_mutateIn_frame:
  assumes "\<And>s a. P s \<Longrightarrow> P (s\<lparr>points_txns := a\<rparr>)" and "\<And>s a. P s \<Longrightarrow> P (s\<lparr>customers := a\<rparr>)"
    and "\<And>s js es n. P s \<Longrightarrow> P (s\<lparr>journals := js, entries := es, draws := n\<rparr>)" and "\<And>s n. P s \<Longrightarrow> P (s\<lparr>draws := n\<rparr>)"
  shows "keeps P (mutateIn storeId customerId ty delta reason)"
  unfolding mutateIn_def Let_def
  by (auto intro!: keeps_intros keeps_book keeps_prefixedId intro: assms split: option.split)

interpretation redeem_idem: idempotent_run "redeem_run storeId customerId points reason" for storeId customerId points reason
proof unfold_locales
  fix s r t assume r: "redeem_run storeId customerId points reason s = (r, t)"
  have "keeps (\<lambda>u. idem_records u = idem_records s) (redeem_run storeId customerId points reason)"
    unfolding redeem_run_def by (intro keeps_intros keeps_mutateIn_frame) simp_all
  from keeps_result [OF this _ r] show "idem_records t = idem_records s" by simp
qed

lemma redeem_request_fields:
  "iq_body (redeem_request storeId mode key body) = body" "iq_key (redeem_request storeId mode key body) = key"
  by (simp_all add: redeem_request_def)

lemma redeem_run_result:
  "redeem_run storeId c points reason s = (case mutateIn storeId c REDEEM (- \<bar>points\<bar>) reason s of
     (Inl e, t) \<Rightarrow> (Inl e, t) | (Inr r, t) \<Rightarrow> (Inr (PointsRes r, 200), t))"
  by (simp add: redeem_run_def bindM_def ret_def split: prod.split sum.split)

lemma keeps_redeemIdempotent: "keeps points_sound (redeemIdempotent sha256 storeId mode c points key rawBody reason)"
  unfolding redeemIdempotent_def execute_def
  by (rule redeem_idem.execute_keeps) (auto simp: redeem_run_def intro!: keeps_intros keeps_mutateIn)

section \<open>Tiers\<close>

lemma sort_key_hd: "sort_key f xs = x # ys \<Longrightarrow> x \<in> set xs \<and> (\<forall>y \<in> set xs. f x \<le> f y)"
proof -
  assume s: "sort_key f xs = x # ys"
  have "sorted (map f (sort_key f xs))" by simp
  then have "\<forall>y \<in> set (x # ys). f x \<le> f y" unfolding s by auto
  moreover have "set (x # ys) = set xs" unfolding s [symmetric] by simp
  ultimately show ?thesis by auto
qed

lemma computeTierId_highest:
  "case computeTierId storeId n s of
     None \<Rightarrow> \<forall>t \<in> set (tiers s). t_store t = storeId \<longrightarrow> n < t_threshold t
   | Some i \<Rightarrow> \<exists>t \<in> set (tiers s). t_id t = i \<and> t_store t = storeId \<and> t_threshold t \<le> n \<and>
       (\<forall>u \<in> set (tiers s). t_store u = storeId \<longrightarrow> t_threshold u \<le> n \<longrightarrow> t_threshold u \<le> t_threshold t)"
proof -
  let ?l = "sort_key (\<lambda>t. - t_threshold t) (rows_where (\<lambda>t. t_store t = storeId \<and> t_threshold t \<le> n) (tiers s))"
  show ?thesis
  proof (cases ?l)
    case Nil
    then have "set (rows_where (\<lambda>t. t_store t = storeId \<and> t_threshold t \<le> n) (tiers s)) = {}"
      by (metis set_sort list.set(1))
    then show ?thesis using Nil by (auto simp: computeTierId_def not_le)
  next
    case (Cons t ys)
    from sort_key_hd [OF Cons] show ?thesis using Cons by (auto simp: computeTierId_def)
  qed
qed

section \<open>One award per payment\<close>

lemma exists_update_where:
  "(\<And>r. q (f r) = q r) \<Longrightarrow> exists_by q (update_where p f t) = exists_by q t"
  by (induction t) auto

lemma keeps_awarded_mirror: "keeps (already_awarded i) (mirrorEarnToPayChain pc payment c j)"
proof -
  have upd: "already_awarded i s \<Longrightarrow> already_awarded i (s\<lparr>points_txns := update_where p f (points_txns s)\<rparr>)"
    if "\<And>t. pt_payment (f t) = pt_payment t" "\<And>t. pt_type (f t) = pt_type t" for s p f
    by (simp add: already_awarded_def exists_update_where that)
  have wallet: "keeps (already_awarded i) (updateM customers customers_update p f)" for p f
    by (rule keeps_update) (simp add: already_awarded_def)
  have txn: "keeps (already_awarded i) (updateM points_txns points_txns_update p (\<lambda>t. t\<lparr>pt_detail := d\<rparr>))" for p d
    by (rule keeps_update, rule upd) simp_all
  have txn': "keeps (already_awarded i) (updateM points_txns points_txns_update p (\<lambda>t. t\<lparr>pt_paychain_tx := x, pt_detail := d\<rparr>))" for p x d
    by (rule keeps_update, rule upd) simp_all
  have call: "keeps (already_awarded i) (mirror_call pc payment c j)"
    unfolding mirror_call_def
    by (intro keeps_intros txn') (auto split: option.split intro!: keeps_intros wallet)
  show ?thesis unfolding mirrorEarnToPayChain_def
    by (intro keeps_intros) (auto split: option.split intro!: keeps_intros call txn)
qed

lemma keeps_awarded_campaigns: "keeps (already_awarded i) (applyToPayment payment base)"
proof -
  have post: "keeps (already_awarded i) (journal_points ty row)" for ty row
    unfolding journal_points_def postPointsMovement_def
    by (intro keeps_intros keeps_post) (simp add: already_awarded_def)
  have recd: "keeps (already_awarded i) (record_points row f)" for row f
    unfolding record_points_def
    by (intro keeps_intros keeps_create keeps_update) (simp_all add: already_awarded_def)
  have promo: "keeps (already_awarded i) (updateM promotions promotions_update p f)" for p f
    by (rule keeps_update) (simp add: already_awarded_def)
  have award: "keeps (already_awarded i) (award_bonus payment c promo b)" for c promo b
    unfolding award_bonus_def Let_def
    by (intro keeps_intros keeps_prefixedId post recd promo) (simp add: already_awarded_def)
  have "keeps (already_awarded i) (apply_promo payment c base n promo)" for c n promo
    unfolding apply_promo_def by (auto intro!: keeps_intros award split: option.split)
  then show ?thesis unfolding applyToPayment_def
    by (auto intro!: keeps_intros split: option.split)
qed

lemma book_points_awarded:
  assumes "book_points ty row f s = (Inr (), t)" and "pt_payment row = Some i" and "pt_type row = EARN"
  shows "already_awarded i t"
proof -
  have rec: "record_points row f s = (Inr (), u) \<Longrightarrow> already_awarded i u" for u
    using assms(2,3) by (auto simp: record_points_def op_simps updateM_def already_awarded_def split: if_splits)
  have post: "keeps (already_awarded i) (journal_points ty row)"
    unfolding journal_points_def postPointsMovement_def
    by (intro keeps_intros keeps_post) (simp add: already_awarded_def)
  from assms(1) obtain u where "record_points row f s = (Inr (), u)" "journal_points ty row u = (Inr (), t)"
    unfolding book_points_def seqM_def by (rule bindM_InrE) (metis (full_types) old.unit.exhaust)
  with rec keeps_result [OF post] show ?thesis by blast
qed

lemma award_points_awarded:
  assumes "award_points pc payment c base m earned life tier s = (Inr (), t)"
  shows "already_awarded (p_id payment) t"
proof -
  let ?i = "''pts_'' @ rnd s (draws s)" and ?u = "s\<lparr>draws := Suc (draws s)\<rparr>"
  let ?row = "points_entry ?i (p_store payment) c EARN earned (Some (p_id payment)) (Some (award_reason m)) (clock s) (Some (clock s))"
  let ?b = "book_points MEarn ?row (award_customer earned life tier)"
  from assms have "bindM (transaction ?b) (\<lambda>_. seqM (mirrorEarnToPayChain pc payment c ?i)
      (bindM (applyToPayment payment base) (\<lambda>_. ret ()))) ?u = (Inr (), t)"
    by (simp add: award_points_def op_simps)
  then obtain x v where v: "transaction ?b ?u = (Inr x, v)"
    and w: "seqM (mirrorEarnToPayChain pc payment c ?i) (bindM (applyToPayment payment base) (\<lambda>_. ret ())) v = (Inr (), t)"
    by (rule bindM_InrE)
  have a: "already_awarded (p_id payment) v"
  proof (rule book_points_awarded)
    show "book_points MEarn ?row (award_customer earned life tier) ?u = (Inr (), v)" using v unfolding transaction_Inr by simp
  qed simp_all
  have k: "keeps (already_awarded (p_id payment))
      (seqM (mirrorEarnToPayChain pc payment c ?i) (bindM (applyToPayment payment base) (\<lambda>_. ret ())))"
    by (intro keeps_intros keeps_awarded_mirror keeps_awarded_campaigns)
  show ?thesis by (rule keeps_result [OF k a w])
qed

lemma award_when_awarded: "already_awarded (p_id payment) s \<Longrightarrow> awardForPayment pc payment s = (Inr (), s)"
  by (auto simp: awardForPayment_def op_simps Let_def if_distribR split: option.split)

text \<open>Either nothing happens, or the points of the payment are awarded.\<close>

lemma award_cases:
  assumes "awardForPayment pc payment s = (r, t)"
  obtains (skipped) "r = Inr ()" and "t = s"
    | (awarded) customerId prog c where "p_customer payment = Some customerId"
      and "find_by (\<lambda>x. lp_store x = p_store payment) (programs s) = Some prog" and "lp_active prog"
      and "\<not> already_awarded (p_id payment) s"
      and "find_by (\<lambda>x. c_id x = customerId) (customers s) = Some c"
      and "0 < award_base payment prog"
      and "0 < award_earned (award_base payment prog) (tier_multiplier c s)"
      and "award_points pc payment customerId (award_base payment prog) (tier_multiplier c s)
        (award_earned (award_base payment prog) (tier_multiplier c s))
        (c_lifetime c + award_earned (award_base payment prog) (tier_multiplier c s))
        (computeTierId (p_store payment) (c_lifetime c + award_earned (award_base payment prog) (tier_multiplier c s)) s) s = (r, t)"
proof (cases "p_customer payment")
  case None
  then show ?thesis using assms skipped by (simp add: awardForPayment_def op_simps)
next
  case cust: (Some i)
  show ?thesis
  proof (cases "i = [] \<or> find_by (\<lambda>x. lp_store x = p_store payment) (programs s) = None \<or> already_awarded (p_id payment) s
      \<or> find_by (\<lambda>x. c_id x = i) (customers s) = None")
    case True
    then have "awardForPayment pc payment s = (Inr (), s)"
      using cust by (auto simp: awardForPayment_def op_simps Let_def if_distribR split: option.split)
    then show ?thesis using assms skipped by simp
  next
    case False
    then obtain prog c where pc: "find_by (\<lambda>x. lp_store x = p_store payment) (programs s) = Some prog"
      "find_by (\<lambda>x. c_id x = i) (customers s) = Some c" by auto
    let ?base = "award_base payment prog" and ?m = "tier_multiplier c s"
    consider (a) "\<not> lp_active prog \<or> ?base \<le> 0 \<or> award_earned ?base ?m \<le> 0"
      | (b) "lp_active prog" "0 < ?base" "0 < award_earned ?base ?m" by linarith
    then show ?thesis
    proof cases
      case a
      then have "awardForPayment pc payment s = (Inr (), s)"
        using cust False pc by (auto simp: awardForPayment_def op_simps Let_def if_distribR)
      then show ?thesis using assms skipped by simp
    next
      case b
      then have "awardForPayment pc payment s = award_points pc payment i ?base ?m (award_earned ?base ?m)
          (c_lifetime c + award_earned ?base ?m) (computeTierId (p_store payment) (c_lifetime c + award_earned ?base ?m) s) s"
        using cust False pc by (simp add: awardForPayment_def op_simps Let_def if_distribR)
      then show ?thesis using assms awarded cust False pc b by simp
    qed
  qed
qed

section \<open>What an award is worth\<close>

lemma keeps_points_of_mirror:
  "keeps (\<lambda>u. points_of d u = b) (mirrorEarnToPayChain pc payment c i)"
proof -
  have wallet: "keeps (\<lambda>u. points_of d u = b) (updateM customers customers_update p (\<lambda>c. c\<lparr>c_wallet := Some w\<rparr>))" for p w
    by (rule keeps_update)
      (auto simp: points_of_def find_by_update_where map_option.compositionality intro!: map_option_cong)
  have txn: "keeps (\<lambda>u. points_of d u = b) (updateM points_txns points_txns_update p f)" for p f
    by (rule keeps_update) (simp add: points_of_def)
  have call: "keeps (\<lambda>u. points_of d u = b) (mirror_call pc payment c i)"
    unfolding mirror_call_def
    by (intro keeps_intros txn) (auto split: option.split intro!: keeps_intros wallet)
  show ?thesis unfolding mirrorEarnToPayChain_def
    by (intro keeps_intros) (auto split: option.split intro!: keeps_intros call txn)
qed

lemma bonus_points:
  assumes "points_sound s" and "applyToPayment payment base s = (Inr bonus, t)" and "p_customer payment = Some c" and "c \<noteq> []"
  shows "0 \<le> bonus" and "points_of d t = map_option (\<lambda>b. if d = c then b + bonus else b) (points_of d s)"
    and "points_sound t"
proof -
  have run: "foldM (apply_promo payment c base) 0
      (rows_where (live_promotion (p_store payment) (clock s)) (promotions s)) s = (Inr bonus, t)"
    using assms(2-4) by (simp add: applyToPayment_def op_simps)
  show "0 \<le> bonus" "points_of d t = map_option (\<lambda>b. if d = c then b + bonus else b) (points_of d s)" "points_sound t"
    using apply_promos_points [OF run assms(1), unfolded diff_zero] by blast+
qed

lemma award_points_worth:
  assumes "award_points pc payment c base m earned life tier s = (Inr (), t)" and "points_sound s"
    and "p_customer payment = Some c" and "c \<noteq> []"
  obtains bonus where "0 \<le> bonus"
    and "\<forall>d. points_of d t = map_option (\<lambda>b. if d = c then b + earned + bonus else b) (points_of d s)" and "points_sound t"
proof -
  let ?i = "''pts_'' @ rnd s (draws s)" and ?u = "s\<lparr>draws := Suc (draws s)\<rparr>"
  let ?row = "points_entry ?i (p_store payment) c EARN earned (Some (p_id payment)) (Some (award_reason m)) (clock s) (Some (clock s))"
  let ?f = "award_customer earned life tier"
  let ?b = "book_points MEarn ?row ?f"
  from assms(1) have "bindM (transaction ?b) (\<lambda>_. seqM (mirrorEarnToPayChain pc payment c ?i)
      (bindM (applyToPayment payment base) (\<lambda>_. ret ()))) ?u = (Inr (), t)"
    by (simp add: award_points_def op_simps)
  then obtain x v where v: "transaction ?b ?u = (Inr x, v)"
    and v': "seqM (mirrorEarnToPayChain pc payment c ?i) (bindM (applyToPayment payment base) (\<lambda>_. ret ())) v = (Inr (), t)"
    by (rule bindM_InrE)
  from v' [unfolded seqM_def] obtain y w where w: "mirrorEarnToPayChain pc payment c ?i v = (Inr y, w)"
    and w': "bindM (applyToPayment payment base) (\<lambda>_. ret ()) w = (Inr (), t)"
    by (rule bindM_InrE)
  from w' obtain bonus where bonus: "applyToPayment payment base w = (Inr bonus, t)"
    by (rule bindM_InrE) (auto simp: ret_def)
  have b: "?b ?u = (Inr x, v)" using v unfolding transaction_Inr .
  have u: "points_sound ?u" "fresh_txn (pt_id ?row) ?u" using drawn_txn [OF assms(2)] by simp_all
  have mv: "moves ?row ?f ?u" by (simp add: moves_def award_customer_def split: option.split)
  from b u mv have first: "points_sound v \<and> points_of d v = map_option (\<lambda>b. if d = c then b + earned else b) (points_of d s)" for d
  proof (cases rule: book_points_cases)
    case (booked js es k)
    have "points_of d v = map_option (\<lambda>b. if d = c then b + earned else b) (points_of d ?u)"
      by (rule points_of_update [where f = ?f]) (simp_all add: booked(3) award_customer_def)
    then show ?thesis using booked(4) by (simp add: points_of_def)
  qed simp
  have "points_of d w = points_of d v" for d
    using keeps_result [OF keeps_points_of_mirror _ w, of d "points_of d v"] by simp
  moreover have "points_sound w" using first w keeps_result [OF keeps_mirror] by blast
  ultimately have "0 \<le> bonus" "points_sound t" "points_of d t = map_option (\<lambda>b. if d = c then b + bonus else b) (points_of d v)" for d
    using bonus_points [OF _ bonus assms(3,4)] by simp_all
  then show ?thesis using first by (intro that [of bonus]) (auto simp: option.map_comp o_def intro!: map_option_cong)
qed

lemma map_option_other: "\<forall>d. d = c \<or> map_option (\<lambda>x. if d = c then f x else x) (g d) = g d"
proof
  fix d show "d = c \<or> map_option (\<lambda>x. if d = c then f x else x) (g d) = g d" by (cases "g d") simp_all
qed

section \<open>Properties\<close>



text \<open>A payment of 5 dollars by the sample customer, at a store that gives a point per dollar.\<close>

definition no_paychain :: paychain where
  "no_paychain = \<lparr>pc_connected = \<lambda>_. False, pc_wallet = \<lambda>_ _. Inl P2025, pc_earn = \<lambda>_ _ _ _ _. Inl P2025, pc_message = \<lambda>_. []\<rparr>"

lemma one_point_per_dollar: "num_mul (double 5) (double 1) = 5" "num_mul 5 (double 1) = 5"
proof -
  have "double 5 = 5" "double 1 = 1" using double_of_int [of 5] double_of_int [of 1] by simp_all
  then show "num_mul (double 5) (double 1) = 5" "num_mul 5 (double 1) = 5" by (simp_all add: num_mul_def)
qed

lemma award_five: "fst (awardForPayment no_paychain (bonus_payment ''pay_1'') shop_db) = Inr ()"
  "points_of ''cus_1'' shop_db = Some 0"
proof -
  show "points_of ''cus_1'' shop_db = Some 0" by (simp add: points_of_def shop_db_def sample_customer_def)
  let ?p = "bonus_payment ''pay_1''"
  let ?row = "points_entry (''pts_'' @ rnd shop_db 0) ''store_1'' ''cus_1'' EARN 5 (Some ''pay_1'') (Some (award_reason 1)) 0 (Some 0)"
  let ?u = "shop_db\<lparr>draws := Suc 0\<rparr>" and ?f = "award_customer 5 5 None"
  have run: "awardForPayment no_paychain ?p shop_db = bindM (transaction (book_points MEarn ?row ?f))
      (\<lambda>_. seqM (mirrorEarnToPayChain no_paychain ?p ''cus_1'' (''pts_'' @ rnd shop_db 0))
        (bindM (applyToPayment ?p 5) (\<lambda>_. ret ()))) ?u"
    by (simp add: awardForPayment_def op_simps Let_def bonus_payment_def sample_payment_def shop_db_def empty_db_def
        already_awarded_def sample_customer_def tier_multiplier_def award_earned_def award_base_def
        one_point_per_dollar computeTierId_def award_points_def)
  obtain r v where v: "book_points MEarn ?row ?f ?u = (r, v)" by (rule prod.exhaust)
  have u: "points_sound ?u" "fresh_txn (pt_id ?row) ?u"
    using drawn_txn [OF shop_db_sound] by (simp_all add: shop_db_fields)
  have mv: "moves ?row ?f ?u" by (simp add: moves_def award_customer_def split: option.split)
  from v u mv show "fst (awardForPayment no_paychain ?p shop_db) = Inr ()"
  proof (cases rule: book_points_cases)
    case missing
    then show ?thesis by (simp add: shop_db_def sample_customer_def)
  next
    case (booked js es k)
    have live: "promotions v = []" "stores v = [sample_store]" by (simp_all add: booked(3) shop_db_def empty_db_def)
    have rest: "fst (seqM (mirrorEarnToPayChain no_paychain ?p ''cus_1'' i) (bindM (applyToPayment ?p 5) (\<lambda>_. ret ())) v) = Inr ()" for i
      by (simp add: op_simps mirrorEarnToPayChain_def live no_paychain_def bonus_payment_def sample_payment_def
          sample_store_def applyToPayment_def)
    have tr: "transaction (book_points MEarn ?row ?f) ?u = (Inr (), v)"
      unfolding transaction_Inr v booked(1) ..
    show ?thesis unfolding run bindM_result [where m = "transaction (book_points MEarn ?row ?f)", OF tr] by (rule rest)
  qed
qed


text \<open>The points of an amount are the floor of a product of doubles, so a customer can get one point
  less than the exact product: 0.29 dollars at 100 points per dollar earn 28 points, not 29.\<close>

theorem award_floors_below:
  "award_base (sample_payment (29/100) USD)
     \<lparr>lp_store = ''store_1'', lp_active = True, lp_per_unit = 100, lp_expiry_months = None, lp_warn_days = 14\<rparr> = 28 \<and>
   29 \<le> (29/100 :: decimal) * 100"
proof -
  have d: "double (29/100) = of_int 5224175567749775 * pow2 (-2 - 52)"
    by (rule double_eq) (simp_all add: pow2_def)
  have m: "double (double (29/100) * 100) = of_int 8162774324609023 * pow2 (4 - 52)"
    by (rule double_eq) (simp_all add: d pow2_def)
  have "double 100 = 100" using double_of_int [of 100] by simp
  then have "\<lfloor>num_mul (double (29/100)) (double 100)\<rfloor> = 28"
    using m by (simp add: num_mul_def pow2_def floor_eq_iff)
  then show ?thesis by (simp add: award_base_def sample_payment_def)
qed

text \<open>C17: A redemption under an idempotency key happens once: the first request takes the points, every
  later request with that key and the same body gets the same answer and moves nothing, in whatever
  state the store has got to meanwhile, and a different body under the key is refused.\<close>

theorem redeem_once:
  assumes "key \<noteq> []" and "find_record storeId (''POST /v1/loyalty/redeem:'' @ mode_name mode) key s = None"
    and "redeemIdempotent sha256 storeId mode c points (Some key) body reason s = (Inr (r, b), t)"
    and "idem_records u = idem_records t"
  shows "b = False \<and>
    (\<exists>v. redeem_run storeId c points reason s = (Inr r, v) \<and> customers t = customers v) \<and>
    redeemIdempotent sha256 storeId mode c points (Some key) body reason u = (Inr (r, True), u) \<and>
    (hashBody sha256 other = hashBody sha256 body \<or>
     redeemIdempotent sha256 storeId mode c' points' (Some key) other reason' u =
       (Inl (idempotencyConflict ''Idempotency-Key already used with a different request body''), u))"
proof -
  let ?rq = "redeem_request storeId mode (Some key) body" and ?run = "redeem_run storeId c points reason"
  have k: "keyed_request ?rq" using assms(1) by (simp add: keyed_request_def redeem_request_def)
  have none: "stored ?rq s = None" using assms(2) by (simp add: redeem_request_def)
  obtain r1 v where v: "?run s = (r1, v)" by (rule prod.exhaust)
  show ?thesis
  proof (cases r1)
    case (Inl e)
    have "execute sha256 ?rq ?run s = (Inl e, s)" by (rule redeem_idem.execute_failed [OF k none v [unfolded Inl]])
    then show ?thesis using assms(3) by (simp add: redeemIdempotent_def)
  next
    case (Inr a)
    note w = v [unfolded Inr]
    have first: "execute sha256 ?rq ?run s = (Inr (r, b), t)" using assms(3) by (simp add: redeemIdempotent_def)
    from trans [OF first [symmetric] redeem_idem.execute_first [OF k none w]] have t: "a = r" "b = False" "t = v\<lparr>idem_records := idem_records v @ [new_record sha256 ?rq (the (iq_key ?rq)) a (clock v)]\<rparr>"
      by blast+
    have same: "stored ?rq u = stored ?rq (snd (execute sha256 ?rq ?run s))"
      using first assms(4) by (simp add: find_record_def)
    have body: "?rq\<lparr>iq_body := x\<rparr> = redeem_request storeId mode (Some key) x" for x
      by (simp add: redeem_request_def)
    show ?thesis
      using redeem_idem.execute_retry [OF k none w same, where b = body and other = ?run]
        redeem_idem.execute_retry [OF k none w same, where b = other and other = "redeem_run storeId c' points' reason'"]
      by (simp add: body w t redeemIdempotent_def redeem_request_fields)
  qed
qed

theorem redeem_once_witness:
  "\<exists>r t. redeemIdempotent id ''store_1'' LiveMode ''cus_1'' 40 (Some ''k'') ''{}'' None granted_db = (Inr (r, False), t) \<and>
     redeemIdempotent id ''store_1'' LiveMode ''cus_1'' 40 (Some ''k'') ''{}'' None t = (Inr (r, True), t)"
proof -
  obtain js es k where g: "granted_db = shop_db\<lparr>points_txns := [points_entry (''pts_'' @ rnd shop_db 0) ''store_1'' ''cus_1'' ADJUST 100 None None 0 (Some 0)],
      customers := [sample_customer\<lparr>c_points := 100\<rparr>], journals := js, entries := es, draws := k\<rparr>"
    and ps: "points_sound granted_db" by (rule granted_db_eq)
  have c: "find_by (\<lambda>x. c_id x = ''cus_1'') (customers granted_db) = Some (sample_customer\<lparr>c_points := 100\<rparr>)"
    "exists_by (\<lambda>x. c_id x = ''cus_1'' \<and> c_store x = ''store_1'') (customers granted_db)"
    by (simp_all add: g sample_customer_def)
  obtain r t where m: "mutateIn ''store_1'' ''cus_1'' REDEEM (- 40) None granted_db = (r, t)" by (rule prod.exhaust)
  obtain a where "r = Inr a" using ps c by (cases rule: mutateIn_cases [OF m]) auto
  with m have run: "redeem_run ''store_1'' ''cus_1'' 40 None granted_db = (Inr (PointsRes a, 200), t)"
    by (simp add: redeem_run_result)
  have none: "find_record sc ep k granted_db = None" for sc ep k
    by (simp add: find_record_def g shop_db_def empty_db_def)
  let ?rq = "redeem_request ''store_1'' LiveMode (Some ''k'') ''{}''"
  have "keyed_request ?rq" by (simp add: keyed_request_def redeem_request_def)
  from redeem_idem.execute_first [OF this none run, of id]
  obtain t where t: "redeemIdempotent id ''store_1'' LiveMode ''cus_1'' 40 (Some ''k'') ''{}'' None granted_db =
      (Inr ((PointsRes a, 200), False), t)"
    by (simp add: redeemIdempotent_def)
  from redeem_once [OF _ none t refl] t show ?thesis by simp
qed

end
