(* ===== verification/Rewards.thy ===== *)
theory Rewards
  imports Awards
begin

text \<open>
  \<open>apps/api/src/loyalty/loyalty.service.ts\<close>, second part: the reward catalogue and the
  redemption of points for its vouchers, with their fulfilment and cancellation.
\<close>

section \<open>The catalogue\<close>

record reward_update =
  ur_name :: "string option"
  ur_description :: "string option"
  ur_cost :: "int option"
  ur_stock :: "int option"
  ur_active :: "bool option"

definition createReward :: "auth_user \<Rightarrow> string \<Rightarrow> string \<Rightarrow> string option \<Rightarrow> int \<Rightarrow> int option \<Rightarrow> reward_row handler" where
  "createReward u storeId name description cost stock =
     bindM (assertStore u storeId StoreWrite) (\<lambda>_.
     bindM (prefixedId ''rwd'') (\<lambda>i.
     let reward = \<lparr>rw_id = i, rw_store = storeId, rw_name = name, rw_description = description, rw_cost = cost,
         rw_stock = unless_none (- 1) stock, rw_active = True\<rparr>
     in seqM (createM rewards rewards_update reward_clash reward) (ret reward)))"

definition edit_reward :: "reward_update \<Rightarrow> reward_row \<Rightarrow> reward_row" where
  "edit_reward dto x = x\<lparr>rw_name := unless_none (rw_name x) (ur_name dto),
     rw_description := (case ur_description dto of None \<Rightarrow> rw_description x | d \<Rightarrow> d),
     rw_cost := unless_none (rw_cost x) (ur_cost dto), rw_stock := unless_none (rw_stock x) (ur_stock dto),
     rw_active := unless_none (rw_active x) (ur_active dto)\<rparr>"

definition reward_owned :: "auth_user \<Rightarrow> string \<Rightarrow> reward_row handler" where
  "reward_owned u i = ownedM rewards (\<lambda>x. rw_id x = i) rw_store ''Reward not found'' u StoreWrite"

definition updateReward :: "auth_user \<Rightarrow> string \<Rightarrow> reward_update \<Rightarrow> unit handler" where
  "updateReward u i dto =
     bindM (reward_owned u i) (\<lambda>_. updateM rewards rewards_update (\<lambda>x. rw_id x = i) (edit_reward dto))"

text \<open>The answer: whether the row is gone, or only deactivated.\<close>

definition deleteReward :: "auth_user \<Rightarrow> string \<Rightarrow> bool handler" where
  "deleteReward u i =
     bindM (reward_owned u i) (\<lambda>_.
     bindM (getsM (\<lambda>s. count_where (\<lambda>r. rd_reward r = i) (redemptions s))) (\<lambda>used.
     if 0 < used
     then seqM (updateM rewards rewards_update (\<lambda>x. rw_id x = i) (\<lambda>x. x\<lparr>rw_active := False\<rparr>)) (ret False)
     else seqM (deleteM rewards rewards_update (\<lambda>x. rw_id x = i)) (ret True)))"

definition listRewards :: "string \<Rightarrow> bool \<Rightarrow> reward_row list handler" where
  "listRewards storeId activeOnly =
     bindM (manyM rewards (\<lambda>x. rw_store x = storeId \<and> (activeOnly \<longrightarrow> rw_active x))) (\<lambda>rows. ret (sort_key rw_cost rows))"

definition listRewardsForUser :: "auth_user \<Rightarrow> string \<Rightarrow> reward_row list handler" where
  "listRewardsForUser u storeId = bindM (assertStore u storeId StoreRead) (\<lambda>_. listRewards storeId False)"

section \<open>Redemption\<close>

record redemption_view =
  rv_id :: string
  rv_customer :: string
  rv_reward :: string
  rv_reward_name :: "string option"
  rv_spent :: int
  rv_code :: string
  rv_status :: redemption_status
  rv_created :: int
  rv_fulfilled_at :: "int option"

definition serializeRedemption :: "redemption_row \<Rightarrow> reward_row option \<Rightarrow> redemption_view" where
  "serializeRedemption r reward =
     \<lparr>rv_id = rd_id r, rv_customer = rd_customer r, rv_reward = rd_reward r, rv_reward_name = map_option rw_name reward,
      rv_spent = rd_spent r, rv_code = rd_code r, rv_status = rd_status r, rv_created = rd_created r,
      rv_fulfilled_at = rd_fulfilled_at r\<rparr>"

definition take_stock :: "reward_row \<Rightarrow> unit handler" where
  "take_stock reward =
     (if 0 < rw_stock reward
      then updateM rewards rewards_update (\<lambda>x. rw_id x = rw_id reward) (\<lambda>x. x\<lparr>rw_stock := rw_stock reward - 1\<rparr>)
      else ret ())"

definition issue_voucher :: "string \<Rightarrow> string \<Rightarrow> reward_row \<Rightarrow> redemption_view handler" where
  "issue_voucher storeId customerId reward =
     bindM (prefixedId ''rdm'') (\<lambda>i. bindM randomBase58 (\<lambda>code. bindM (getsM clock) (\<lambda>now.
     let redemption = \<lparr>rd_id = i, rd_store = storeId, rd_customer = customerId, rd_reward = rw_id reward,
         rd_spent = rw_cost reward, rd_code = ''R'' @ to_upper code, rd_status = Issued, rd_created = now,
         rd_fulfilled_at = None\<rparr>
     in seqM (createM redemptions redemptions_update redemption_clash redemption)
          (ret (serializeRedemption redemption (Some reward))))))"

definition redeem_writes :: "string \<Rightarrow> customer_row \<Rightarrow> reward_row \<Rightarrow> redemption_view handler" where
  "redeem_writes storeId customer reward =
     bindM (prefixedId ''pts'') (\<lambda>txnId. bindM (getsM clock) (\<lambda>now.
     seqM (book_points MRedeem
         (points_entry txnId storeId (c_id customer) REDEEM (- rw_cost reward) None (Some (''reward:'' @ rw_name reward)) now (Some now))
         (\<lambda>x. x\<lparr>c_points := c_points customer - rw_cost reward\<rparr>))
     (seqM (take_stock reward) (issue_voucher storeId (c_id customer) reward))))"

definition redeemReward :: "string \<Rightarrow> string \<Rightarrow> string \<Rightarrow> redemption_view handler" where
  "redeemReward storeId customerId rewardId =
     transaction
       (bindM (findM rewards (\<lambda>x. rw_id x = rewardId)) (\<lambda>reward.
        case reward of None \<Rightarrow> throw (invalidRequest ''Unknown reward for this store'') | Some w \<Rightarrow>
        if rw_store w \<noteq> storeId then throw (invalidRequest ''Unknown reward for this store'')
        else if \<not> rw_active w then throw (invalidRequest ''Reward is not available'')
        else if rw_stock w = 0 then throw (invalidRequest ''Reward is out of stock'')
        else bindM (findM customers (\<lambda>c. c_id c = customerId)) (\<lambda>customer.
        case customer of None \<Rightarrow> throw (invalidRequest ''Unknown customer for this store'') | Some c \<Rightarrow>
        if c_store c \<noteq> storeId then throw (invalidRequest ''Unknown customer for this store'')
        else if c_points c < rw_cost w then throw (invalidRequest ''Insufficient points balance'')
        else redeem_writes storeId c w)))"

section \<open>Vouchers\<close>

definition with_reward :: "redemption_row \<Rightarrow> db \<Rightarrow> redemption_view" where
  "with_reward r s = serializeRedemption r (find_by (\<lambda>x. rw_id x = rd_reward r) (rewards s))"

definition getRedemption :: "auth_user \<Rightarrow> string \<Rightarrow> redemption_view handler" where
  "getRedemption u i =
     bindM (ownedM redemptions (\<lambda>x. rd_id x = i) rd_store ''Redemption not found'' u PaymentRead) (\<lambda>r.
     getsM (with_reward r))"

definition redemptionForStore :: "string \<Rightarrow> string \<Rightarrow> redemption_view handler" where
  "redemptionForStore storeId i =
     bindM (findM redemptions (\<lambda>x. rd_id x = i)) (\<lambda>r.
     case r of None \<Rightarrow> throw (paymentNotFound ''Redemption not found'') | Some x \<Rightarrow>
     if rd_store x \<noteq> storeId then throw (paymentNotFound ''Redemption not found'') else getsM (with_reward x))"

definition with_customer :: "redemption_row \<Rightarrow> db \<Rightarrow> redemption_view \<times> string option \<times> string option" where
  "with_customer r s = (with_reward r s,
     (case find_by (\<lambda>c. c_id c = rd_customer r) (customers s) of None \<Rightarrow> (None, None) | Some c \<Rightarrow> (c_name c, c_email c)))"

definition lookupByCode :: "auth_user \<Rightarrow> string \<Rightarrow> string \<Rightarrow> (redemption_view \<times> string option \<times> string option) handler" where
  "lookupByCode u storeId code =
     bindM (assertStore u storeId PaymentRead) (\<lambda>_.
     let normalized = to_upper (trim code) in
     seqM (guardM (normalized \<noteq> []) (invalidRequest ''Enter a voucher code''))
     (bindM (findM redemptions (\<lambda>x. rd_store x = storeId \<and> rd_code x = normalized)) (\<lambda>r.
      bindM (someM (paymentNotFound ''No voucher with that code in this store'') r) (\<lambda>x. getsM (with_customer x)))))"

definition listRedemptions :: "auth_user \<Rightarrow> string \<Rightarrow> (redemption_view \<times> string option \<times> string option) list handler" where
  "listRedemptions u storeId =
     bindM (assertStore u storeId PaymentRead) (\<lambda>_.
     getsM (\<lambda>s. map (\<lambda>r. with_customer r s)
       (take 100 (sort_key (\<lambda>r. - rd_created r) (rows_where (\<lambda>r. rd_store r = storeId) (redemptions s))))))"

fun redemption_status_name :: "redemption_status \<Rightarrow> string" where
  "redemption_status_name Issued = ''issued''"
| "redemption_status_name Fulfilled = ''fulfilled''"
| "redemption_status_name RCancelled = ''cancelled''"
| "redemption_status_name RExpired = ''expired''"

definition redemption_owned :: "auth_user \<Rightarrow> string \<Rightarrow> redemption_row handler" where
  "redemption_owned u i = ownedM redemptions (\<lambda>x. rd_id x = i) rd_store ''Redemption not found'' u StoreWrite"

definition fulfill :: "auth_user \<Rightarrow> string \<Rightarrow> unit handler" where
  "fulfill u i =
     bindM (redemption_owned u i) (\<lambda>r.
     seqM (guardM (rd_status r = Issued)
       (invalidRequest (''Cannot fulfill a '' @ redemption_status_name (rd_status r) @ '' redemption'')))
     (bindM (getsM clock) (\<lambda>now.
      updateM redemptions redemptions_update (\<lambda>x. rd_id x = i)
        (\<lambda>x. x\<lparr>rd_status := Fulfilled, rd_fulfilled_at := Some now\<rparr>))))"

text \<open>What is written once the status has been read: the check is not repeated in the transaction.\<close>

definition cancel_writes :: "redemption_row \<Rightarrow> unit handler" where
  "cancel_writes r =
     transaction
       (bindM (prefixedId ''pts'') (\<lambda>txnId. bindM (getsM clock) (\<lambda>now.
        seqM (book_points MRedeemReversal
            (points_entry txnId (rd_store r) (rd_customer r) ADJUST (rd_spent r) None (Some REDEMPTION_CANCELLED_REASON) now (Some now))
            (add_points (rd_spent r)))
        (bindM (update_manyM rewards rewards_update (\<lambda>x. rw_id x = rd_reward r \<and> 0 \<le> rw_stock x)
            (\<lambda>x. x\<lparr>rw_stock := rw_stock x + 1\<rparr>)) (\<lambda>_.
         updateM redemptions redemptions_update (\<lambda>x. rd_id x = rd_id r) (\<lambda>x. x\<lparr>rd_status := RCancelled\<rparr>))))))"

definition cancel :: "auth_user \<Rightarrow> string \<Rightarrow> int handler" where
  "cancel u i =
     bindM (redemption_owned u i) (\<lambda>r.
     seqM (guardM (rd_status r = Issued)
       (invalidRequest (''Cannot cancel a '' @ redemption_status_name (rd_status r) @ '' redemption'')))
     (seqM (cancel_writes r) (ret (rd_spent r))))"

section \<open>Redemptions and the points invariant\<close>

definition voucher_of :: "redemption_row \<Rightarrow> string \<Rightarrow> string \<Rightarrow> reward_row \<Rightarrow> bool" where
  "voucher_of row storeId customerId w \<longleftrightarrow> rd_store row = storeId \<and> rd_customer row = customerId \<and>
     rd_reward row = rw_id w \<and> rd_spent row = rw_cost w \<and> rd_status row = Issued"

definition less_stock :: "reward_row \<Rightarrow> reward_row list \<Rightarrow> reward_row list" where
  "less_stock w ws = (if 0 < rw_stock w
     then update_where (\<lambda>x. rw_id x = rw_id w) (\<lambda>x. x\<lparr>rw_stock := rw_stock w - 1\<rparr>) ws else ws)"

lemma redeem_writes_cases:
  assumes "redeem_writes storeId c w s = (r, t)" and "points_sound s"
    and "find_by (\<lambda>x. c_id x = c_id c) (customers s) = Some c"
    and "find_by (\<lambda>x. rw_id x = rw_id w) (rewards s) = Some w"
  obtains (taken) "r = Inl P2002" and "redemptions s \<noteq> []"
    | (issued) row where "r = Inr (serializeRedemption row (Some w))" and "voucher_of row storeId (c_id c) w"
      and "\<not> exists_by (redemption_clash row) (redemptions s)" and "redemptions t = redemptions s @ [row]"
      and "customers t = update_where (\<lambda>x. c_id x = c_id c) (\<lambda>x. x\<lparr>c_points := c_points c - rw_cost w\<rparr>) (customers s)"
      and "rewards t = less_stock w (rewards s)" and "stores t = stores s" and "points_sound t"
proof -
  let ?f = "\<lambda>x. x\<lparr>c_points := c_points c - rw_cost w\<rparr>"
  let ?rest = "\<lambda>i :: string. seqM (take_stock w) (issue_voucher storeId (c_id c) w)"
  have f: "c_id (?f x) = c_id x" "c_points (?f c) = c_points c + - rw_cost w" for x by simp_all
  let ?txn = "points_entry (''pts_'' @ rnd s (draws s)) storeId (c_id c) REDEEM (- rw_cost w) None
    (Some (''reward:'' @ rw_name w)) (clock s) (Some (clock s))"
  obtain js es k where run: "redeem_writes storeId c w s = ?rest (''pts_'' @ rnd s (draws s))
      (s\<lparr>points_txns := points_txns s @ [?txn],
        customers := update_where (\<lambda>x. c_id x = c_id c) ?f (customers s), journals := js, entries := es, draws := k\<rparr>)"
    and v: "points_sound (s\<lparr>points_txns := points_txns s @ [?txn],
        customers := update_where (\<lambda>x. c_id x = c_id c) ?f (customers s), journals := js, entries := es, draws := k\<rparr>)"
    unfolding redeem_writes_def
    by (rule drawn_book [OF assms(2,3) f, where ty = MRedeem and st = storeId and pty = REDEEM and p = None and cf = Some
      and r = "Some (''reward:'' @ rw_name w)" and rest = ?rest])
  let ?v = "s\<lparr>points_txns := points_txns s @ [?txn],
    customers := update_where (\<lambda>x. c_id x = c_id c) ?f (customers s), journals := js, entries := es, draws := k\<rparr>"
  let ?row = "\<lparr>rd_id = ''rdm_'' @ rnd s k, rd_store = storeId, rd_customer = c_id c, rd_reward = rw_id w,
    rd_spent = rw_cost w, rd_code = ''R'' @ to_upper (rnd s (Suc k)), rd_status = Issued, rd_created = clock s, rd_fulfilled_at = None\<rparr>"
  let ?u = "?v\<lparr>rewards := less_stock w (rewards s), draws := Suc (Suc k)\<rparr>"
  have ex: "exists_by (\<lambda>x. rw_id x = rw_id w) (rewards s)" by (simp add: exists_by_find assms(4))
  have out: "(r, t) = (if exists_by (redemption_clash ?row) (redemptions s) then (Inl P2002, ?u)
      else (Inr (serializeRedemption ?row (Some w)), ?u\<lparr>redemptions := redemptions s @ [?row]\<rparr>))"
    using assms(1) ex unfolding run
    by (auto simp: issue_voucher_def take_stock_def less_stock_def op_simps Let_def)
  show ?thesis
  proof (cases "exists_by (redemption_clash ?row) (redemptions s)")
    case True
    with out show ?thesis by (intro taken) auto
  next
    case False
    have "points_sound (?v\<lparr>rewards := less_stock w (rewards s)\<rparr>)" using v by simp
    then have "points_sound (?v\<lparr>rewards := less_stock w (rewards s), draws := Suc (Suc k)\<rparr>)" by (rule points_sound_draws) simp
    then have "points_sound (?u\<lparr>redemptions := redemptions s @ [?row]\<rparr>)" by simp
    with out False show ?thesis
      by (intro issued [of ?row]) (simp_all add: voucher_of_def)
  qed
qed

text \<open>The whole redemption: refused without a trace, or issued.\<close>

lemma redeemReward_cases:
  assumes "redeemReward storeId customerId rewardId s = (r, t)" and "points_sound s"
  obtains (refused) e where "r = Inl e" and "t = s"
    | (issued) c w row where "find_by (\<lambda>x. rw_id x = rewardId) (rewards s) = Some w" and "rw_store w = storeId"
      and "rw_active w" and "rw_stock w \<noteq> 0"
      and "find_by (\<lambda>x. c_id x = customerId) (customers s) = Some c" and "c_store c = storeId" and "rw_cost w \<le> c_points c"
      and "r = Inr (serializeRedemption row (Some w))" and "voucher_of row storeId customerId w"
      and "\<not> exists_by (redemption_clash row) (redemptions s)" and "redemptions t = redemptions s @ [row]"
      and "customers t = update_where (\<lambda>x. c_id x = customerId) (\<lambda>x. x\<lparr>c_points := c_points c - rw_cost w\<rparr>) (customers s)"
      and "rewards t = less_stock w (rewards s)" and "stores t = stores s" and "points_sound t"
proof (cases r)
  case (Inl e)
  moreover have "t = s" using assms(1) transaction_error unfolding Inl redeemReward_def by fastforce
  ultimately show ?thesis by (rule refused)
next
  case (Inr v)
  note run = assms(1) [unfolded redeemReward_def Inr transaction_Inr]
  obtain w where w: "find_by (\<lambda>x. rw_id x = rewardId) (rewards s) = Some w"
    using run by (cases "find_by (\<lambda>x. rw_id x = rewardId) (rewards s)") (simp_all add: op_simps)
  have ok: "rw_store w = storeId" "rw_active w" "rw_stock w \<noteq> 0"
    using run w by (auto simp: op_simps split: if_splits)
  obtain c where c: "find_by (\<lambda>x. c_id x = customerId) (customers s) = Some c"
    using run w ok by (cases "find_by (\<lambda>x. c_id x = customerId) (customers s)") (simp_all add: op_simps)
  have okc: "c_store c = storeId" "rw_cost w \<le> c_points c"
    using run w ok c by (auto simp: op_simps split: if_splits)
  have id: "c_id c = customerId" "rw_id w = rewardId" using c w by (auto dest: find_by_SomeD)
  have writes: "redeem_writes storeId c w s = (Inr v, t)" using run w ok c okc by (simp add: op_simps)
  have keys: "find_by (\<lambda>x. c_id x = c_id c) (customers s) = Some c" "find_by (\<lambda>x. rw_id x = rw_id w) (rewards s) = Some w"
    using c w id by simp_all
  from writes assms(2) keys show ?thesis
  proof (cases rule: redeem_writes_cases)
    case taken
    then show ?thesis by simp
  next
    case (issued row)
    from issued(1) have "r = Inr (serializeRedemption row (Some w))" by (simp add: Inr)
    then show ?thesis
      by (rule that(2) [OF w ok c okc _ issued(2) [unfolded id] issued(3,4) issued(5) [unfolded id] issued(6-8)])
  qed
qed

lemma keeps_redeemReward: "keeps points_sound (redeemReward storeId customerId rewardId)"
proof (rule keepsI)
  fix s assume s: "points_sound s"
  obtain r t where o: "redeemReward storeId customerId rewardId s = (r, t)" by (rule prod.exhaust)
  from o s show "points_sound (snd (redeemReward storeId customerId rewardId s))"
    by (cases rule: redeemReward_cases) (use s o in simp_all)
qed

definition restocked :: "string \<Rightarrow> reward_row list \<Rightarrow> reward_row list" where
  "restocked i ws = update_where (\<lambda>x. rw_id x = i \<and> 0 \<le> rw_stock x) (\<lambda>x. x\<lparr>rw_stock := rw_stock x + 1\<rparr>) ws"

lemma cancel_writes_cases:
  assumes "cancel_writes r s = (res, t)" and "points_sound s" and "exists_by (\<lambda>x. rd_id x = rd_id r) (redemptions s)"
  obtains (stranger) e where "res = Inl e" and "t = s" and "find_by (\<lambda>x. c_id x = rd_customer r) (customers s) = None"
    | (refunded) c where "res = Inr ()" and "find_by (\<lambda>x. c_id x = rd_customer r) (customers s) = Some c"
      and "customers t = update_where (\<lambda>x. c_id x = rd_customer r) (add_points (rd_spent r)) (customers s)"
      and "rewards t = restocked (rd_reward r) (rewards s)"
      and "redemptions t = update_where (\<lambda>x. rd_id x = rd_id r) (\<lambda>x. x\<lparr>rd_status := RCancelled\<rparr>) (redemptions s)"
      and "stores t = stores s" and "points_sound t"
proof (cases "find_by (\<lambda>x. c_id x = rd_customer r) (customers s)")
  case None
  then have "fst (cancel_writes r s) \<noteq> Inr ()"
    by (auto simp: cancel_writes_def transaction_def op_simps bindM_book book_points_def record_points_def
        createM_def updateM_def exists_by_find split: prod.splits sum.splits if_splits)
  then obtain e where e: "res = Inl e" using assms(1) by (cases res) auto
  moreover have "t = s" using assms(1) transaction_error unfolding e cancel_writes_def by fastforce
  ultimately show ?thesis using None by (rule stranger)
next
  case (Some c)
  let ?f = "add_points (rd_spent r)"
  let ?rest = "\<lambda>i :: string. bindM (update_manyM rewards rewards_update (\<lambda>x. rw_id x = rd_reward r \<and> 0 \<le> rw_stock x)
      (\<lambda>x. x\<lparr>rw_stock := rw_stock x + 1\<rparr>)) (\<lambda>_. updateM redemptions redemptions_update (\<lambda>x. rd_id x = rd_id r) (\<lambda>x. x\<lparr>rd_status := RCancelled\<rparr>))"
  let ?txn = "points_entry (''pts_'' @ rnd s (draws s)) (rd_store r) (rd_customer r) ADJUST (rd_spent r) None
    (Some REDEMPTION_CANCELLED_REASON) (clock s) (Some (clock s))"
  have f: "c_id (?f x) = c_id x" "c_points (?f c) = c_points c + rd_spent r" for x by simp_all
  obtain js es k where run: "bindM (prefixedId ''pts'') (\<lambda>i. bindM (getsM clock) (\<lambda>now.
        seqM (book_points MRedeemReversal (points_entry i (rd_store r) (rd_customer r) ADJUST (rd_spent r) None
          (Some REDEMPTION_CANCELLED_REASON) now (Some now)) ?f) (?rest i))) s =
      ?rest (''pts_'' @ rnd s (draws s)) (s\<lparr>points_txns := points_txns s @ [?txn],
        customers := update_where (\<lambda>x. c_id x = rd_customer r) ?f (customers s), journals := js, entries := es, draws := k\<rparr>)"
    and v: "points_sound (s\<lparr>points_txns := points_txns s @ [?txn],
        customers := update_where (\<lambda>x. c_id x = rd_customer r) ?f (customers s), journals := js, entries := es, draws := k\<rparr>)"
    by (rule drawn_book [OF assms(2) Some f, where ty = MRedeemReversal and st = "rd_store r" and pty = ADJUST and p = None
      and cf = Some and r = "Some REDEMPTION_CANCELLED_REASON" and rest = ?rest])
  let ?t = "s\<lparr>points_txns := points_txns s @ [?txn],
        customers := update_where (\<lambda>x. c_id x = rd_customer r) ?f (customers s), journals := js, entries := es, draws := k,
        rewards := restocked (rd_reward r) (rewards s),
        redemptions := update_where (\<lambda>x. rd_id x = rd_id r) (\<lambda>x. x\<lparr>rd_status := RCancelled\<rparr>) (redemptions s)\<rparr>"
  have "cancel_writes r s = (Inr (), ?t)"
    unfolding cancel_writes_def transaction_Inr run
    using assms(3) by (simp add: op_simps updateM_def restocked_def)
  then have "res = Inr ()" "t = ?t" using assms(1) by simp_all
  moreover have "points_sound ?t" using v by simp
  ultimately show ?thesis using Some by (intro refunded) simp_all
qed

lemma redeemReward_granted:
  assumes "points_sound s" and "find_by (\<lambda>x. rw_id x = rewardId) (rewards s) = Some w" and "rw_store w = storeId"
    and "rw_active w" and "rw_stock w \<noteq> 0" and "find_by (\<lambda>x. c_id x = customerId) (customers s) = Some c"
    and "c_store c = storeId" and "rw_cost w \<le> c_points c" and "redemptions s = []"
  shows "\<exists>v t. redeemReward storeId customerId rewardId s = (Inr v, t)"
proof -
  have id: "c_id c = customerId" "rw_id w = rewardId" using assms(2,6) by (auto dest: find_by_SomeD)
  have run: "redeemReward storeId customerId rewardId s = transaction (redeem_writes storeId c w) s"
    using assms(2-8) by (simp add: redeemReward_def transaction_def op_simps)
  obtain r t where o: "redeem_writes storeId c w s = (r, t)" by (rule prod.exhaust)
  have keys: "find_by (\<lambda>x. c_id x = c_id c) (customers s) = Some c" "find_by (\<lambda>x. rw_id x = rw_id w) (rewards s) = Some w"
    using assms(2,6) id by simp_all
  from o assms(1) keys obtain v where "r = Inr v"
    by (cases rule: redeem_writes_cases) (simp_all add: assms(9))
  then show ?thesis using o by (simp add: run transaction_def)
qed

lemma restocked_less_stock:
  assumes "keyed rw_id ws" and "find_by (\<lambda>x. rw_id x = i) ws = Some w" and "rw_stock w \<noteq> 0"
  shows "restocked i (less_stock w ws) = ws"
proof -
  have i: "rw_id w = i" using assms(2) by (auto dest: find_by_SomeD)
  have only: "x \<in> set ws \<Longrightarrow> rw_id x = i \<Longrightarrow> x = w" for x
    using assms(1,2) find_by_SomeD [OF assms(2)] keyed_unique [of rw_id ws x w] by simp
  show ?thesis
  proof (cases "0 < rw_stock w")
    case True
    let ?take = "\<lambda>x. if rw_id x = i then x\<lparr>rw_stock := rw_stock w - 1\<rparr> else x"
    let ?give = "\<lambda>x. if rw_id x = i \<and> 0 \<le> rw_stock x then x\<lparr>rw_stock := rw_stock x + 1\<rparr> else x"
    have "?give (?take x) = x" if "x \<in> set ws" for x
      using only [OF that] True by (cases "rw_id x = i") simp_all
    then have "map (?give \<circ> ?take) ws = ws" by (intro map_idI) simp
    then show ?thesis using True i by (simp add: restocked_def less_stock_def update_where_def)
  next
    case False
    then show ?thesis using assms(3) i only
      by (auto simp: restocked_def less_stock_def intro!: update_where_none dest!: only)
  qed
qed

lemma cancel_run:
  assumes "find_by (\<lambda>x. rd_id x = i) (redemptions s) = Some r" and "fst (assertStore u (rd_store r) StoreWrite s) = Inr x"
  shows "cancel u i s = (if rd_status r = Issued then bindM (cancel_writes r) (\<lambda>_. ret (rd_spent r)) s
    else (Inl (invalidRequest (''Cannot cancel a '' @ redemption_status_name (rd_status r) @ '' redemption'')), s))"
  using assms by (simp add: cancel_def redemption_owned_def op_simps ownedM_def)

section \<open>Properties\<close>

text \<open>A redemption takes exactly the cost of the reward and one piece of a limited stock, and cancelling
  it gives both back: every balance and the whole catalogue are what they were, the books agree with the
  balances throughout, and a second cancellation is refused.\<close>

theorem redemption_cancelled:
  assumes "points_sound s" and "keyed rw_id (rewards s)" and "redeemReward storeId customerId rewardId s = (Inr v, t)"
    and "fst (assertStore u storeId StoreWrite s) = Inr st"
  shows "points_of customerId t = map_option (\<lambda>b. b - rv_spent v) (points_of customerId s) \<and>
    (\<exists>w. cancel u (rv_id v) t = (Inr (rv_spent v), w) \<and> rewards w = rewards s \<and>
       (\<forall>d. points_of d w = points_of d s) \<and> points_sound w \<and>
       cancel u (rv_id v) w = (Inl (invalidRequest ''Cannot cancel a cancelled redemption''), w))"
  using assms(3,1)
proof (cases rule: redeemReward_cases)
  case refused
  then show ?thesis by simp
next
  case (issued c rw row)
  have v: "rv_spent v = rw_cost rw" "rv_id v = rd_id row" using issued(8,9) by (simp_all add: serializeRedemption_def voucher_of_def)
  have row: "rd_store row = storeId" "rd_customer row = customerId" "rd_reward row = rewardId" "rd_spent row = rw_cost rw" "rd_status row = Issued"
    using issued(1,9) by (auto simp: voucher_of_def dest: find_by_SomeD)
  have new: "find_by (\<lambda>x. rd_id x = rd_id row) (redemptions s) = None"
    using issued(10) by (auto simp: find_by_None exists_by_iff redemption_clash_def)
  have found: "find_by (\<lambda>x. rd_id x = rd_id row) (redemptions t) = Some row"
    using new by (simp add: issued(11) find_by_append)
  have auth: "stores z = stores s \<Longrightarrow> fst (assertStore u storeId StoreWrite z) = Inr st" for z
    using assms(4) by (simp add: assertStore_def op_simps split: option.splits sum.splits)
  have id: "c_id c = customerId" using issued(5) by (auto dest: find_by_SomeD)
  have cust: "find_by (\<lambda>x. c_id x = customerId) (customers t) = Some (c\<lparr>c_points := c_points c - rw_cost rw\<rparr>)"
    using issued(5) id by (simp add: issued(12) find_by_update_where)
  have "exists_by (\<lambda>x. rd_id x = rd_id row) (redemptions t)" by (simp add: exists_by_find found)
  moreover obtain res w where o: "cancel_writes row t = (res, w)" by (rule prod.exhaust)
  moreover note issued(15)
  ultimately have "\<exists>w. cancel_writes row t = (Inr (), w) \<and> rewards w = restocked rewardId (rewards t) \<and>
      customers w = update_where (\<lambda>x. c_id x = customerId) (add_points (rw_cost rw)) (customers t) \<and>
      redemptions w = update_where (\<lambda>x. rd_id x = rd_id row) (\<lambda>x. x\<lparr>rd_status := RCancelled\<rparr>) (redemptions t) \<and>
      stores w = stores s \<and> points_sound w"
    using cust by (cases rule: cancel_writes_cases [OF o]) (simp_all add: row issued(14))
  then obtain w where w: "cancel_writes row t = (Inr (), w)" "rewards w = restocked rewardId (rewards t)"
    "customers w = update_where (\<lambda>x. c_id x = customerId) (add_points (rw_cost rw)) (customers t)"
    "redemptions w = update_where (\<lambda>x. rd_id x = rd_id row) (\<lambda>x. x\<lparr>rd_status := RCancelled\<rparr>) (redemptions t)"
    "stores w = stores s" "points_sound w"
    by blast
  have can: "cancel u (rd_id row) t = (Inr (rw_cost rw), w)"
    using cancel_run [OF found, of u st] auth [OF issued(14)] w(1) row by (simp add: bindM_def ret_def)
  have found': "find_by (\<lambda>x. rd_id x = rd_id row) (redemptions w) = Some (row\<lparr>rd_status := RCancelled\<rparr>)"
    using found by (simp add: w(4) find_by_update_where)
  have again: "cancel u (rd_id row) w = (Inl (invalidRequest ''Cannot cancel a cancelled redemption''), w)"
    using cancel_run [OF found', of u st] auth [OF w(5)] row by simp
  have "rewards w = rewards s"
    unfolding w(2) issued(13) using assms(2) issued(1,4) by (rule restocked_less_stock)
  moreover have pt: "points_of d t = map_option (\<lambda>b. if d = customerId then b - rw_cost rw else b) (points_of d s)" for d
  proof (cases "d = customerId")
    case True
    then show ?thesis using cust issued(5) by (simp add: points_of_def)
  next
    case False
    have "find_by (\<lambda>x. c_id x = d) (customers t) = find_by (\<lambda>x. c_id x = d) (customers s)"
      using False by (simp add: issued(12) find_by_update_where) (cases "find_by (\<lambda>x. c_id x = d) (customers s)", auto dest: find_by_SomeD)
    then show ?thesis using False by (simp add: points_of_def map_option_idI)
  qed
  moreover have "points_of d w = map_option (\<lambda>b. if d = customerId then b + rw_cost rw else b) (points_of d t)" for d
    by (rule points_of_update [OF w(3)]) simp_all
  then have "points_of d w = points_of d s" for d
    by (cases "points_of d s") (simp_all add: pt)
  ultimately show ?thesis using can again w(6) by (auto simp: v)
qed

text \<open>A coffee for 40 points, one piece left, and a customer with 100 points.\<close>

definition coffee :: reward_row where
  "coffee = \<lparr>rw_id = ''rwd_1'', rw_store = ''store_1'', rw_name = ''Coffee'', rw_description = None, rw_cost = 40,
     rw_stock = 1, rw_active = True\<rparr>"

definition coffee_db :: db where
  "coffee_db = granted_db\<lparr>rewards := [coffee]\<rparr>"

lemma coffee_db_facts:
  "points_sound coffee_db" "find_by (\<lambda>x. rw_id x = ''rwd_1'') (rewards coffee_db) = Some coffee" "keyed rw_id (rewards coffee_db)"
  "find_by (\<lambda>x. c_id x = ''cus_1'') (customers coffee_db) = Some (sample_customer\<lparr>c_points := 100\<rparr>)"
  "redemptions coffee_db = []" "fst (assertStore sample_user ''store_1'' StoreWrite coffee_db) = Inr sample_store"
proof -
  obtain js es k where g: "granted_db = shop_db\<lparr>points_txns := [points_entry (''pts_'' @ rnd shop_db 0) ''store_1'' ''cus_1'' ADJUST 100 None None 0 (Some 0)],
      customers := [sample_customer\<lparr>c_points := 100\<rparr>], journals := js, entries := es, draws := k\<rparr>"
    and ps: "points_sound granted_db" by (rule granted_db_eq)
  show "points_sound coffee_db" using ps by (simp add: coffee_db_def)
  show "find_by (\<lambda>x. rw_id x = ''rwd_1'') (rewards coffee_db) = Some coffee" "keyed rw_id (rewards coffee_db)"
    by (simp_all add: coffee_db_def coffee_def keyed_def)
  show "find_by (\<lambda>x. c_id x = ''cus_1'') (customers coffee_db) = Some (sample_customer\<lparr>c_points := 100\<rparr>)"
    "redemptions coffee_db = []" "fst (assertStore sample_user ''store_1'' StoreWrite coffee_db) = Inr sample_store"
    by (simp_all add: coffee_db_def g shop_db_def sample_customer_def empty_db_def assertStore_def op_simps sample_store_def
        sample_user_def requirePermission_def requireMembership_def roleForOrg_def)
qed

lemma coffee_redeemed: "\<exists>v t. redeemReward ''store_1'' ''cus_1'' ''rwd_1'' coffee_db = (Inr v, t)"
  by (rule redeemReward_granted [OF coffee_db_facts(1,2) _ _ _ coffee_db_facts(4) _ _ coffee_db_facts(5)])
    (simp_all add: coffee_def sample_customer_def)

theorem redemption_cancelled_witness:
  "\<exists>v t w. redeemReward ''store_1'' ''cus_1'' ''rwd_1'' coffee_db = (Inr v, t) \<and>
     cancel sample_user (rv_id v) t = (Inr (rv_spent v), w) \<and> points_of ''cus_1'' w = Some 100"
proof -
  obtain v t where v: "redeemReward ''store_1'' ''cus_1'' ''rwd_1'' coffee_db = (Inr v, t)"
    using coffee_redeemed by blast
  have "points_of ''cus_1'' coffee_db = Some 100" by (simp add: points_of_def coffee_db_facts(4))
  with redemption_cancelled [OF coffee_db_facts(1,3) v coffee_db_facts(6)] v show ?thesis by metis
qed

text \<open>The status of a redemption is read before the transaction that gives the points back and is not
  checked in it: two cancellations that both read it as issued both refund it, and the customer ends with
  twice the points that the redemption took.\<close>

theorem cancelled_twice_by_race:
  assumes "points_sound s" and "exists_by (\<lambda>x. rd_id x = rd_id r) (redemptions s)"
    and "points_of (rd_customer r) s = Some b"
  shows "\<exists>t w. cancel_writes r s = (Inr (), t) \<and> cancel_writes r t = (Inr (), w) \<and>
    points_of (rd_customer r) w = Some (b + 2 * rd_spent r)"
proof -
  have once: "\<exists>t. cancel_writes r z = (Inr (), t) \<and> points_of (rd_customer r) t = Some (n + rd_spent r) \<and>
      points_sound t \<and> exists_by (\<lambda>x. rd_id x = rd_id r) (redemptions t)"
    if "points_sound z" "exists_by (\<lambda>x. rd_id x = rd_id r) (redemptions z)" "points_of (rd_customer r) z = Some n" for z n
  proof -
    obtain res t where o: "cancel_writes r z = (res, t)" by (rule prod.exhaust)
    from o that(1,2) show ?thesis
    proof (cases rule: cancel_writes_cases)
      case stranger
      then show ?thesis using that(3) by (simp add: points_of_def)
    next
      case (refunded c)
      have "points_of (rd_customer r) t = Some (n + rd_spent r)"
        using points_of_update [OF refunded(3), where n = "rd_spent r" and d = "rd_customer r"] that(3) by simp
      moreover have "exists_by (\<lambda>x. rd_id x = rd_id r) (redemptions t)"
        unfolding refunded(5) using that(2) by (simp add: exists_update_where)
      ultimately show ?thesis using o refunded(1,7) by simp
    qed
  qed
  from once [OF assms] obtain t where t: "cancel_writes r s = (Inr (), t)" "points_of (rd_customer r) t = Some (b + rd_spent r)"
    "points_sound t" "exists_by (\<lambda>x. rd_id x = rd_id r) (redemptions t)" by blast
  from once [OF t(3,4,2)] t(1) show ?thesis by (auto simp: algebra_simps)
qed

theorem cancelled_twice_by_race_witness:
  "\<exists>r t w. cancel_writes r (coffee_db\<lparr>redemptions := [r]\<rparr>) = (Inr (), t) \<and> cancel_writes r t = (Inr (), w) \<and>
     rd_spent r = 40 \<and> points_of ''cus_1'' w = Some 180"
proof -
  let ?r = "\<lparr>rd_id = ''rdm_1'', rd_store = ''store_1'', rd_customer = ''cus_1'', rd_reward = ''rwd_1'', rd_spent = 40,
    rd_code = ''R1'', rd_status = Issued, rd_created = 0, rd_fulfilled_at = None\<rparr>"
  have "points_sound (coffee_db\<lparr>redemptions := [?r]\<rparr>)" using coffee_db_facts(1) by simp
  moreover have "points_of (rd_customer ?r) (coffee_db\<lparr>redemptions := [?r]\<rparr>) = Some 100"
    using coffee_db_facts(4) by (simp add: points_of_def)
  ultimately show ?thesis
    using cancelled_twice_by_race [of "coffee_db\<lparr>redemptions := [?r]\<rparr>" ?r 100] by (intro exI [of _ ?r]) simp
qed

end
