(* ===== verification/Referrals.thy ===== *)
theory Referrals
  imports Expiry
begin

text \<open>
  \<open>apps/api/src/referrals/referrals.service.ts\<close>: the referral program, codes and links with
  their fraud screening, the reward of a referee's first payment, and the commissions with their payout
  and review. The QR renderer is an argument, and so is the base URL of the environment.
\<close>

section \<open>The program\<close>

record referral_update =
  ru_active :: "bool option"
  ru_referrer :: "int option"
  ru_referee :: "int option"
  ru_bps :: "int option"
  ru_days :: "int option"

text \<open>\<open>days || null\<close>.\<close>

definition nonzero :: "int option \<Rightarrow> int option" where
  "nonzero d = (case d of None \<Rightarrow> None | Some n \<Rightarrow> if n = 0 then None else Some n)"

definition programResponse :: "string \<Rightarrow> ref_program_row option \<Rightarrow> ref_program_row" where
  "programResponse storeId p = unless_none
     \<lparr>rp_store = storeId, rp_active = False, rp_referrer_points = 0, rp_referee_points = 0, rp_commission_bps = 0,
      rp_duration_days = None\<rparr> p"

definition getReferralProgram :: "auth_user \<Rightarrow> string \<Rightarrow> ref_program_row handler" where
  "getReferralProgram u storeId =
     bindM (assertStore u storeId PaymentRead) (\<lambda>_.
     bindM (findM ref_programs (\<lambda>x. rp_store x = storeId)) (\<lambda>p. ret (programResponse storeId p)))"

definition edit_referral_program :: "referral_update \<Rightarrow> ref_program_row \<Rightarrow> ref_program_row" where
  "edit_referral_program dto x = x\<lparr>rp_active := unless_none (rp_active x) (ru_active dto),
     rp_referrer_points := unless_none (rp_referrer_points x) (ru_referrer dto),
     rp_referee_points := unless_none (rp_referee_points x) (ru_referee dto),
     rp_commission_bps := unless_none (rp_commission_bps x) (ru_bps dto),
     rp_duration_days := (case ru_days dto of None \<Rightarrow> rp_duration_days x | d \<Rightarrow> nonzero d)\<rparr>"

definition updateReferralProgram :: "auth_user \<Rightarrow> string \<Rightarrow> referral_update \<Rightarrow> ref_program_row handler" where
  "updateReferralProgram u storeId dto =
     bindM (assertStore u storeId StoreWrite) (\<lambda>_.
     bindM (findM ref_programs (\<lambda>x. rp_store x = storeId)) (\<lambda>p.
     seqM (case p of
         Some _ \<Rightarrow> updateM ref_programs ref_programs_update (\<lambda>x. rp_store x = storeId) (edit_referral_program dto)
       | None \<Rightarrow> createM ref_programs ref_programs_update (\<lambda>r x. rp_store r = rp_store x)
           \<lparr>rp_store = storeId, rp_active = unless_none False (ru_active dto),
            rp_referrer_points = unless_none 0 (ru_referrer dto), rp_referee_points = unless_none 0 (ru_referee dto),
            rp_commission_bps = unless_none 0 (ru_bps dto), rp_duration_days = nonzero (ru_days dto)\<rparr>)
     (bindM (findM ref_programs (\<lambda>x. rp_store x = storeId)) (\<lambda>q. ret (programResponse storeId q)))))"

section \<open>Codes\<close>

definition set_code :: "string \<Rightarrow> string \<Rightarrow> string \<Rightarrow> unit handler" where
  "set_code storeId customerId code =
     bindM (getsM (\<lambda>s. exists_by (\<lambda>c. c_store c = storeId \<and> c_referral_code c = Some code \<and> c_id c \<noteq> customerId) (customers s))) (\<lambda>taken.
     if taken then throw P2002
     else updateM customers customers_update (\<lambda>c. c_id c = customerId) (\<lambda>c. c\<lparr>c_referral_code := Some code\<rparr>))"

fun allocate_code :: "nat \<Rightarrow> string \<Rightarrow> string \<Rightarrow> string handler" where
  "allocate_code 0 storeId customerId = throw (internal ''Could not allocate a referral code'')"
| "allocate_code (Suc n) storeId customerId =
     bindM randomBase58 (\<lambda>x. let code = ''REF-'' @ to_upper x in
     catchM (seqM (set_code storeId customerId code) (ret code)) (\<lambda>_. allocate_code n storeId customerId))"

definition getOrCreateCode :: "string \<Rightarrow> string \<Rightarrow> string handler" where
  "getOrCreateCode storeId customerId =
     bindM (findM customers (\<lambda>c. c_id c = customerId)) (\<lambda>customer.
     case customer of None \<Rightarrow> throw (paymentNotFound ''Customer not found'') | Some c \<Rightarrow>
     if c_store c \<noteq> storeId then throw (paymentNotFound ''Customer not found'')
     else if c_referral_code c \<noteq> None \<and> c_referral_code c \<noteq> Some [] then ret (the (c_referral_code c))
     else allocate_code 5 storeId customerId)"

definition uri_digit :: "nat \<Rightarrow> char" where
  "uri_digit n = ''0123456789ABCDEF'' ! (n mod 16)"

definition encodeURIComponent :: "string \<Rightarrow> string" where
  "encodeURIComponent s = concat (map (\<lambda>c.
     if is_digit c \<or> is_lower c \<or> is_upper c \<or> c \<in> set ''-_.!~*()'' \<or> c = CHR 0x27 then [c]
     else [CHR ''%'', uri_digit (of_char c div 16), uri_digit (of_char c)]) s)"

definition shareUrl :: "string \<Rightarrow> string \<Rightarrow> string" where
  "shareUrl base code = base @ ''/?ref='' @ encodeURIComponent code"

definition getReferralQr :: "(string \<Rightarrow> string \<times> string) \<Rightarrow> string \<Rightarrow> string \<Rightarrow> string \<Rightarrow> (string \<times> string \<times> string \<times> string) handler" where
  "getReferralQr qr base storeId customerId =
     bindM (getOrCreateCode storeId customerId) (\<lambda>code.
     let url = shareUrl base code in ret (code, url, qr url))"

definition getReferralQrForDashboard ::
    "(string \<Rightarrow> string \<times> string) \<Rightarrow> string \<Rightarrow> auth_user \<Rightarrow> string \<Rightarrow> (string \<times> string \<times> string \<times> string) handler" where
  "getReferralQrForDashboard qr base u customerId =
     bindM (ownedM customers (\<lambda>c. c_id c = customerId) c_store ''Customer not found'' u PaymentRead) (\<lambda>c.
     getReferralQr qr base (c_store c) customerId)"

section \<open>Links and their screening\<close>

definition normEmail :: "string option \<Rightarrow> string" where
  "normEmail e = (case e of None \<Rightarrow> [] | Some x \<Rightarrow> to_lower (trim x))"

definition normPhone :: "string option \<Rightarrow> string" where
  "normPhone p = (case p of None \<Rightarrow> [] | Some x \<Rightarrow> filter is_digit x)"

definition VELOCITY_24H :: nat where
  "VELOCITY_24H = 10"

definition shared :: "string \<Rightarrow> string \<Rightarrow> bool" where
  "shared a b \<longleftrightarrow> a \<noteq> [] \<and> b \<noteq> [] \<and> a = b"

definition screenReferral :: "string \<Rightarrow> customer_row \<Rightarrow> customer_row option \<Rightarrow> db \<Rightarrow> string list" where
  "screenReferral storeId referrer referee s =
     (case referee of None \<Rightarrow> [] | Some e \<Rightarrow>
        (if shared (normEmail (c_email referrer)) (normEmail (c_email e)) then [''shared_email''] else []) @
        (if shared (normPhone (c_phone referrer)) (normPhone (c_phone e)) then [''shared_phone''] else [])) @
     (if VELOCITY_24H \<le> count_where (\<lambda>r. rf_store r = storeId \<and> rf_referrer r = c_id referrer \<and> clock s - 86400000 \<le> rf_created r) (referrals s)
      then [''velocity''] else [])"

definition link_writes :: "string \<Rightarrow> customer_row \<Rightarrow> string \<Rightarrow> string \<Rightarrow> string list \<Rightarrow> unit handler" where
  "link_writes storeId referrer refereeId code riskFlags =
     bindM (prefixedId ''ref'') (\<lambda>i. bindM (getsM clock) (\<lambda>now.
     transaction (seqM (createM referrals referrals_update referral_clash
         \<lparr>rf_id = i, rf_store = storeId, rf_referrer = c_id referrer, rf_referee = refereeId, rf_code = code,
          rf_status = RefPending, rf_points_referrer = 0, rf_points_referee = 0, rf_flagged = (riskFlags \<noteq> []),
          rf_flags = riskFlags, rf_reviewed_at = None, rf_created = now, rf_rewarded_at = None\<rparr>)
       (updateM customers customers_update (\<lambda>c. c_id c = refereeId) (\<lambda>c. c\<lparr>c_referred_by := Some (c_id referrer)\<rparr>)))))"

definition linkReferral :: "string \<Rightarrow> string \<Rightarrow> string \<Rightarrow> unit handler" where
  "linkReferral storeId refereeId code =
     bindM (findM ref_programs (\<lambda>x. rp_store x = storeId)) (\<lambda>program.
     case program of None \<Rightarrow> ret () | Some prog \<Rightarrow>
     if \<not> rp_active prog then ret ()
     else bindM (findM customers (\<lambda>c. c_store c = storeId \<and> c_referral_code c = Some code)) (\<lambda>referrer.
     case referrer of None \<Rightarrow> ret () | Some r \<Rightarrow>
     if c_id r = refereeId then ret ()
     else bindM (findM referrals (\<lambda>x. rf_referee x = refereeId)) (\<lambda>existing.
     if existing \<noteq> None then ret ()
     else bindM (findM customers (\<lambda>c. c_id c = refereeId)) (\<lambda>referee.
     bindM (getsM (screenReferral storeId r referee)) (\<lambda>riskFlags.
     link_writes storeId r refereeId code riskFlags)))))"

section \<open>The reward of the first payment\<close>

definition referral_points :: "string \<Rightarrow> string \<Rightarrow> int \<Rightarrow> string option \<Rightarrow> string \<Rightarrow> unit handler" where
  "referral_points storeId customerId points paymentId reason =
     (if 0 < points
      then bindM (prefixedId ''pts'') (\<lambda>txnId. bindM (getsM clock) (\<lambda>now.
        seqM (book_points MEarn (points_entry txnId storeId customerId EARN points paymentId (Some reason) now (Some now))
          (add_earned points)) (ret ())))
      else ret ())"

definition mark_rewarded :: "string \<Rightarrow> int \<Rightarrow> int \<Rightarrow> unit handler" where
  "mark_rewarded i referrerPts refereePts =
     bindM (getsM clock) (\<lambda>now. updateM referrals referrals_update (\<lambda>x. rf_id x = i)
       (\<lambda>x. x\<lparr>rf_status := RefRewarded, rf_rewarded_at := Some now, rf_points_referrer := referrerPts,
         rf_points_referee := refereePts\<rparr>))"

definition reward_referral :: "payment_row \<Rightarrow> referral_row \<Rightarrow> int \<Rightarrow> int \<Rightarrow> unit handler" where
  "reward_referral payment referral referrerPts refereePts =
     transaction
       (bindM (findM referrals (\<lambda>x. rf_id x = rf_id referral)) (\<lambda>fresh.
        case fresh of None \<Rightarrow> ret () | Some f \<Rightarrow>
        if rf_status f = RefRewarded then ret ()
        else seqM (referral_points (p_store payment) (rf_referrer referral) referrerPts None ''referral (referrer)'')
          (seqM (referral_points (p_store payment) (rf_referee referral) refereePts (Some (p_id payment)) ''referral (referee)'')
            (mark_rewarded (rf_id referral) referrerPts refereePts))))"

definition onPaidPayment :: "payment_row \<Rightarrow> unit handler" where
  "onPaidPayment payment =
     (case p_customer payment of None \<Rightarrow> ret () | Some customerId \<Rightarrow>
      if customerId = [] then ret ()
      else bindM (findM referrals (\<lambda>x. rf_referee x = customerId)) (\<lambda>referral.
      case referral of None \<Rightarrow> ret () | Some r \<Rightarrow>
      if rf_status r = RefRewarded then ret ()
      else if rf_flagged r then ret ()
      else bindM (findM ref_programs (\<lambda>x. rp_store x = p_store payment)) (\<lambda>program.
      case program of None \<Rightarrow> ret () | Some prog \<Rightarrow>
      if \<not> rp_active prog then ret ()
      else reward_referral payment r (rp_referrer_points prog) (rp_referee_points prog))))"

section \<open>Commissions\<close>

definition commission_amount :: "decimal \<Rightarrow> int \<Rightarrow> decimal" where
  "commission_amount amount bps = to_dp 2 (amount * of_int bps / 10000)"

definition past_window :: "payment_row \<Rightarrow> referral_row \<Rightarrow> ref_program_row \<Rightarrow> bool" where
  "past_window payment referral prog \<longleftrightarrow>
     (case rp_duration_days prog of None \<Rightarrow> False | Some d \<Rightarrow> 0 < d \<and>
       (case p_paid_at payment of None \<Rightarrow> False | Some t \<Rightarrow> rf_created referral + d * 86400000 < t))"

definition accrue :: "payment_row \<Rightarrow> referral_row \<Rightarrow> int \<Rightarrow> decimal \<Rightarrow> unit handler" where
  "accrue payment referral bps amount =
     bindM (prefixedId ''rc'') (\<lambda>i. bindM (getsM clock) (\<lambda>now.
     seqM (createM commissions commissions_update commission_clash
         \<lparr>cm_id = i, cm_store = p_store payment, cm_referral = rf_id referral, cm_referrer = rf_referrer referral,
          cm_payment = p_id payment, cm_amount = amount, cm_currency = p_currency payment, cm_bps = bps,
          cm_status = (if rf_flagged referral then Held else Accrued), cm_created = now, cm_paid_at = None, cm_payout_ref = None\<rparr>)
       (postCommissionAccrued i (p_store payment) (currency_name (p_currency payment)) amount)))"

definition accrueCommission :: "payment_row \<Rightarrow> unit handler" where
  "accrueCommission payment =
     (case p_customer payment of None \<Rightarrow> ret () | Some customerId \<Rightarrow>
      if customerId = [] then ret ()
      else bindM (findM referrals (\<lambda>x. rf_referee x = customerId)) (\<lambda>referral.
      case referral of None \<Rightarrow> ret () | Some r \<Rightarrow>
      bindM (findM ref_programs (\<lambda>x. rp_store x = p_store payment)) (\<lambda>program.
      case program of None \<Rightarrow> ret () | Some prog \<Rightarrow>
      if \<not> rp_active prog \<or> rp_commission_bps prog \<le> 0 then ret ()
      else if past_window payment r prog then ret ()
      else let amount = commission_amount (p_amount payment) (rp_commission_bps prog) in
      if amount \<le> 0 then ret ()
      else catchM (accrue payment r (rp_commission_bps prog) amount) (\<lambda>_. ret ()))))"

definition name_of :: "string \<Rightarrow> db \<Rightarrow> string" where
  "name_of i s = (case find_by (\<lambda>c. c_id c = i) (customers s) of None \<Rightarrow> i
     | Some c \<Rightarrow> unless_none (unless_none i (c_email c)) (c_name c))"

fun commission_status_name :: "commission_status \<Rightarrow> string" where
  "commission_status_name Accrued = ''ACCRUED''"
| "commission_status_name Held = ''HELD''"
| "commission_status_name CPaid = ''PAID''"
| "commission_status_name CVoid = ''VOID''"

definition status_filter :: "string option \<Rightarrow> commission_row \<Rightarrow> bool" where
  "status_filter status c =
     (case status of None \<Rightarrow> True | Some x \<Rightarrow>
       if to_upper x \<in> set [''ACCRUED'', ''PAID'', ''VOID''] then commission_status_name (cm_status c) = to_upper x else True)"

definition listCommissions :: "auth_user \<Rightarrow> string \<Rightarrow> string option \<Rightarrow> (string \<times> commission_row) list handler" where
  "listCommissions u storeId status =
     bindM (assertStore u storeId PaymentRead) (\<lambda>_.
     bindM (manyM commissions (\<lambda>c. cm_store c = storeId \<and> status_filter status c)) (\<lambda>rows.
     getsM (\<lambda>s. map (\<lambda>c. (name_of (cm_referrer c) s, c)) (take 200 (sort_key (\<lambda>c. - cm_created c) rows)))))"

record commission_total =
  ct_referrer :: string
  ct_currency :: currency
  ct_accrued :: decimal
  ct_paid :: decimal
  ct_count :: nat

definition commission_sum :: "(commission_row \<Rightarrow> bool) \<Rightarrow> commission_row list \<Rightarrow> decimal" where
  "commission_sum p rows = sum_list (map cm_amount (filter p rows))"

definition commissionSummary :: "auth_user \<Rightarrow> string \<Rightarrow> commission_total list handler" where
  "commissionSummary u storeId =
     bindM (assertStore u storeId PaymentRead) (\<lambda>_.
     bindM (manyM commissions (\<lambda>c. cm_store c = storeId \<and> (cm_status c = Accrued \<or> cm_status c = CPaid))) (\<lambda>rows.
     ret (map (\<lambda>(r, cur). \<lparr>ct_referrer = r, ct_currency = cur,
         ct_accrued = commission_sum (\<lambda>c. cm_referrer c = r \<and> cm_currency c = cur \<and> cm_status c = Accrued) rows,
         ct_paid = commission_sum (\<lambda>c. cm_referrer c = r \<and> cm_currency c = cur \<and> cm_status c = CPaid) rows,
         ct_count = length (filter (\<lambda>c. cm_referrer c = r \<and> cm_currency c = cur) rows)\<rparr>)
       (remdups (map (\<lambda>c. (cm_referrer c, cm_currency c)) rows)))))"

definition payoutCommissions ::
    "auth_user \<Rightarrow> string \<Rightarrow> string option \<Rightarrow> string option \<Rightarrow> (nat \<times> (currency \<times> decimal) list) handler" where
  "payoutCommissions u storeId referrer payoutRef =
     bindM (assertStore u storeId StoreWrite) (\<lambda>_.
     bindM (manyM commissions (\<lambda>c. cm_store c = storeId \<and> cm_status c = Accrued \<and>
       (case referrer of None \<Rightarrow> True | Some r \<Rightarrow> r = [] \<or> cm_referrer c = r))) (\<lambda>pending.
     if pending = [] then ret (0, [])
     else bindM (getsM clock) (\<lambda>paidAt.
     bindM (update_manyM commissions commissions_update (\<lambda>c. cm_id c \<in> set (map cm_id pending))
       (\<lambda>c. c\<lparr>cm_status := CPaid, cm_paid_at := Some paidAt, cm_payout_ref := payoutRef\<rparr>)) (\<lambda>_.
     seqM (forM pending (\<lambda>p. postCommissionPaid (cm_id p) (cm_store p) (currency_name (cm_currency p)) (cm_amount p)))
       (ret (length pending, map (\<lambda>cur. (cur, commission_sum (\<lambda>c. cm_currency c = cur) pending))
          (remdups (map cm_currency pending))))))))"

section \<open>Reports and review\<close>

definition list_referrals :: "auth_user \<Rightarrow> string \<Rightarrow> bool \<Rightarrow> (string \<times> string \<times> referral_row) list handler" where
  "list_referrals u storeId flaggedOnly =
     bindM (assertStore u storeId PaymentRead) (\<lambda>_.
     bindM (manyM referrals (\<lambda>r. rf_store r = storeId \<and> (flaggedOnly \<longrightarrow> rf_flagged r))) (\<lambda>rows.
     getsM (\<lambda>s. map (\<lambda>r. (name_of (rf_referrer r) s, name_of (rf_referee r) s, r))
       (take 200 (sort_key (\<lambda>r. - rf_created r) rows)))))"

record referral_report_view =
  rt_total :: nat
  rt_pending :: nat
  rt_qualified :: nat
  rt_rewarded :: nat
  rt_flagged :: nat
  rt_conversion :: rat
  rt_commission :: "(commission_status \<times> currency \<times> decimal) list"
  rt_top :: "(string \<times> string \<times> nat \<times> (currency \<times> decimal) list) list"

definition referrer_line :: "commission_row list \<Rightarrow> referral_row list \<Rightarrow> db \<Rightarrow> string \<Rightarrow> string \<times> string \<times> nat \<times> (currency \<times> decimal) list" where
  "referrer_line earned refs s i =
     (name_of i s, i, length (filter (\<lambda>r. rf_referrer r = i) refs),
      map (\<lambda>cur. (cur, commission_sum (\<lambda>c. cm_referrer c = i \<and> cm_currency c = cur) earned))
        (remdups (map cm_currency (filter (\<lambda>c. cm_referrer c = i) earned))))"

definition referral_report :: "auth_user \<Rightarrow> string \<Rightarrow> referral_report_view handler" where
  "referral_report u storeId =
     bindM (assertStore u storeId PaymentRead) (\<lambda>_. getsM (\<lambda>s.
     let refs = rows_where (\<lambda>r. rf_store r = storeId) (referrals s);
         comms = rows_where (\<lambda>c. cm_store c = storeId) (commissions s);
         earned = filter (\<lambda>c. cm_status c \<noteq> CVoid) comms;
         n = length refs; finished = count_where (\<lambda>r. rf_status r = RefRewarded) refs
     in \<lparr>rt_total = n, rt_pending = count_where (\<lambda>r. rf_status r = RefPending) refs,
         rt_qualified = count_where (\<lambda>r. rf_status r = RefQualified) refs, rt_rewarded = finished,
         rt_flagged = count_where rf_flagged refs,
         rt_conversion = (if 0 < n then double (to_dp 4 (double (of_nat finished / of_nat n))) else 0),
         rt_commission = map (\<lambda>(st, cur). (st, cur, commission_sum (\<lambda>c. cm_status c = st \<and> cm_currency c = cur) comms))
           (remdups (map (\<lambda>c. (cm_status c, cm_currency c)) comms)),
         rt_top = take 10 (sort_key (\<lambda>x. - int (fst (snd (snd x))))
           (map (referrer_line earned refs s) (remdups (map cm_referrer earned @ map rf_referrer refs))))\<rparr>))"

datatype review_action = Clear | Void

definition review_writes :: "string \<Rightarrow> review_action \<Rightarrow> int \<Rightarrow> unit handler" where
  "review_writes referralId action reviewedAt =
     (case action of
        Clear \<Rightarrow> transaction
          (seqM (updateM referrals referrals_update (\<lambda>x. rf_id x = referralId)
              (\<lambda>x. x\<lparr>rf_flagged := False, rf_reviewed_at := Some reviewedAt\<rparr>))
          (bindM (update_manyM commissions commissions_update (\<lambda>c. cm_referral c = referralId \<and> cm_status c = Held)
              (\<lambda>c. c\<lparr>cm_status := Accrued\<rparr>)) (\<lambda>_. ret ())))
      | Void \<Rightarrow> transaction
          (seqM (updateM referrals referrals_update (\<lambda>x. rf_id x = referralId) (\<lambda>x. x\<lparr>rf_reviewed_at := Some reviewedAt\<rparr>))
          (bindM (update_manyM commissions commissions_update (\<lambda>c. cm_referral c = referralId \<and> cm_status c = Held)
              (\<lambda>c. c\<lparr>cm_status := CVoid\<rparr>)) (\<lambda>_. ret ()))))"

definition reviewReferral :: "auth_user \<Rightarrow> string \<Rightarrow> string \<Rightarrow> review_action \<Rightarrow> referral_row option handler" where
  "reviewReferral u storeId referralId action =
     bindM (assertStore u storeId StoreWrite) (\<lambda>_.
     bindM (findM referrals (\<lambda>x. rf_id x = referralId)) (\<lambda>referral.
     case referral of None \<Rightarrow> throw (paymentNotFound ''Referral not found'') | Some r \<Rightarrow>
     if rf_store r \<noteq> storeId then throw (paymentNotFound ''Referral not found'')
     else bindM (getsM clock) (\<lambda>reviewedAt.
       seqM (review_writes referralId action reviewedAt) (findM referrals (\<lambda>x. rf_id x = referralId)))))"

section \<open>What a reward writes\<close>

lemma referral_points_ok:
  assumes "points_sound s" and "points_of c s \<noteq> None"
  shows "\<exists>t. referral_points storeId c n p reason s = (Inr (), t) \<and> ref_programs t = ref_programs s"
proof (cases "0 < n")
  case True
  from assms(2) obtain x where x: "find_by (\<lambda>y. c_id y = c) (customers s) = Some x" by (auto simp: points_of_def)
  let ?rest = "\<lambda>i :: string. ret () :: unit handler"
  have f: "c_id (add_earned n y) = c_id y" "c_points (add_earned n x) = c_points x + n" for y by simp_all
  show ?thesis
    by (rule drawn_book [OF assms(1) x f, where ty = MEarn and st = storeId and pty = EARN and p = p
          and cf = Some and r = "Some reason" and rest = ?rest])
      (use True in \<open>simp add: referral_points_def ret_def\<close>)
qed (simp add: referral_points_def ret_def)

lemma referral_points_effect:
  assumes "referral_points storeId c n p reason s = (Inr (), t)" and "points_sound s"
  shows "points_sound t" and "referrals t = referrals s"
    and "points_of d t = map_option (\<lambda>b. if d = c then b + max 0 n else b) (points_of d s)"
proof -
  have "points_sound t \<and> referrals t = referrals s \<and>
      (\<forall>d. points_of d t = map_option (\<lambda>b. if d = c then b + max 0 n else b) (points_of d s))"
  proof (cases "0 < n")
    case False
    then have "t = s" "max 0 n = 0" using assms(1) by (simp_all add: referral_points_def ret_def)
    then show ?thesis using assms(2) by (simp add: map_option_idI)
  next
    case True
    show ?thesis
    proof (cases "find_by (\<lambda>x. c_id x = c) (customers s)")
      case None
      then have "fst (referral_points storeId c n p reason s) \<noteq> Inr ()" using True
        by (auto simp: referral_points_def op_simps bindM_book book_points_def record_points_def
            createM_def updateM_def exists_by_find split: prod.splits sum.splits if_splits)
      then show ?thesis using assms(1) by simp
    next
      case (Some x)
      let ?f = "add_earned n" and ?rest = "\<lambda>i :: string. ret () :: unit handler"
      let ?txn = "points_entry (''pts_'' @ rnd s (draws s)) storeId c EARN n p (Some reason) (clock s) (Some (clock s))"
      have f: "c_id (?f y) = c_id y" "c_points (?f x) = c_points x + n" for y by simp_all
      obtain js es k where run: "bindM (prefixedId ''pts'') (\<lambda>i. bindM (getsM clock) (\<lambda>now.
          seqM (book_points MEarn (points_entry i storeId c EARN n p (Some reason) now (Some now)) ?f) (?rest i))) s =
          ?rest (''pts_'' @ rnd s (draws s)) (s\<lparr>points_txns := points_txns s @ [?txn],
            customers := update_where (\<lambda>y. c_id y = c) ?f (customers s), journals := js, entries := es, draws := k\<rparr>)"
        and v: "points_sound (s\<lparr>points_txns := points_txns s @ [?txn],
            customers := update_where (\<lambda>y. c_id y = c) ?f (customers s), journals := js, entries := es, draws := k\<rparr>)"
        by (rule drawn_book [OF assms(2) Some f, where ty = MEarn and st = storeId and pty = EARN and p = p
          and cf = Some and r = "Some reason" and rest = ?rest])
      have t: "t = s\<lparr>points_txns := points_txns s @ [?txn],
            customers := update_where (\<lambda>y. c_id y = c) ?f (customers s), journals := js, entries := es, draws := k\<rparr>"
        using assms(1) True run by (simp add: referral_points_def ret_def)
      have po: "points_of d t = map_option (\<lambda>b. if d = c then b + n else b) (points_of d s)" for d
        by (rule points_of_update [where f = ?f]) (simp_all add: t)
      have m: "max 0 n = n" using True by simp
      show ?thesis unfolding m using v po by (simp add: t)
    qed
  qed
  then show "points_sound t" "referrals t = referrals s"
    "points_of d t = map_option (\<lambda>b. if d = c then b + max 0 n else b) (points_of d s)" by blast+
qed

definition gains :: "string \<Rightarrow> referral_row \<Rightarrow> ref_program_row \<Rightarrow> int" where
  "gains d r prog = (if d = rf_referrer r then max 0 (rp_referrer_points prog) else 0) +
     (if d = rf_referee r then max 0 (rp_referee_points prog) else 0)"

lemma reward_referral_effect:
  assumes "reward_referral payment r (rp_referrer_points prog) (rp_referee_points prog) s = (Inr (), t)" and "points_sound s"
  shows "t = s \<and> (case find_by (\<lambda>x. rf_id x = rf_id r) (referrals s) of None \<Rightarrow> True | Some f \<Rightarrow> rf_status f = RefRewarded) \<or>
    points_sound t \<and> (\<forall>d. points_of d t = map_option (\<lambda>b. b + gains d r prog) (points_of d s)) \<and>
    (\<exists>now. referrals t = update_where (\<lambda>x. rf_id x = rf_id r)
      (\<lambda>x. x\<lparr>rf_status := RefRewarded, rf_rewarded_at := Some now, rf_points_referrer := rp_referrer_points prog,
         rf_points_referee := rp_referee_points prog\<rparr>) (referrals s))"
proof (cases "find_by (\<lambda>x. rf_id x = rf_id r) (referrals s)")
  case None
  then show ?thesis using assms(1) unfolding reward_referral_def transaction_Inr by (simp add: op_simps)
next
  case (Some f)
  show ?thesis
  proof (cases "rf_status f = RefRewarded")
    case True
    then show ?thesis using Some assms(1) unfolding reward_referral_def transaction_Inr by (simp add: op_simps)
  next
    case False
    let ?a = "referral_points (p_store payment) (rf_referrer r) (rp_referrer_points prog) None ''referral (referrer)''"
    let ?b = "referral_points (p_store payment) (rf_referee r) (rp_referee_points prog) (Some (p_id payment)) ''referral (referee)''"
    let ?c = "mark_rewarded (rf_id r) (rp_referrer_points prog) (rp_referee_points prog)"
    have "bindM ?a (\<lambda>_. bindM ?b (\<lambda>_. ?c)) s = (Inr (), t)"
      using assms(1) False Some unfolding reward_referral_def transaction_Inr by (simp add: op_simps seqM_def)
    then obtain v w where v: "?a s = (Inr (), v)" and w: "?b v = (Inr (), w)" and m: "?c w = (Inr (), t)"
      by (auto elim!: bindM_InrE)
    note a = referral_points_effect [OF v assms(2)]
    note b = referral_points_effect [OF w a(1)]
    from m have t: "t = w\<lparr>referrals := update_where (\<lambda>x. rf_id x = rf_id r)
        (\<lambda>x. x\<lparr>rf_status := RefRewarded, rf_rewarded_at := Some (clock w), rf_points_referrer := rp_referrer_points prog,
         rf_points_referee := rp_referee_points prog\<rparr>) (referrals w)\<rparr>"
      by (simp add: mark_rewarded_def op_simps updateM_def split: if_splits)
    have "points_of d t = map_option (\<lambda>b. b + gains d r prog) (points_of d s)" for d
    proof -
      have "points_of d t = points_of d w" by (simp add: t points_of_def)
      then show ?thesis using a(3) [of d] b(3) [of d] by (cases "points_of d s") (simp_all add: gains_def)
    qed
    moreover have "points_sound t" using b(1) by (simp add: t)
    ultimately show ?thesis using a(2) b(2) by (auto simp: t)
  qed
qed

lemma referee_after_reward:
  assumes "referrals t = update_where (\<lambda>x. rf_id x = rf_id r) f (referrals s)" and "\<And>x. rf_referee (f x) = rf_referee x"
    and "find_by (\<lambda>x. rf_referee x = c) (referrals s) = Some r"
  shows "find_by (\<lambda>x. rf_referee x = c) (referrals t) = Some (f r)"
  using assms by (simp add: find_by_update_where)

section \<open>Properties\<close>


text \<open>Points flow to nobody through a flagged referral, and its commissions are held: a payment of the
  referee earns neither party points, and what it accrues has the status \<open>Held\<close>.\<close>

theorem flagged_referral_held:
  assumes "p_customer payment = Some c" and "find_by (\<lambda>x. rf_referee x = c) (referrals s) = Some r" and "rf_flagged r"
  shows "onPaidPayment payment s = (Inr (), s) \<and>
    (\<exists>new. commissions (snd (accrueCommission payment s)) = commissions s @ new \<and> list_all (\<lambda>x. cm_status x = Held) new)"
proof
  show "onPaidPayment payment s = (Inr (), s)" using assms by (auto simp: onPaidPayment_def op_simps)
  have post: "keeps (\<lambda>u. commissions u = b) (postCommissionAccrued i st cur a)" for b i st cur a
    unfolding postCommissionAccrued_def by (rule keeps_post) simp
  have acc: "\<exists>new. commissions (snd (accrue payment r bps a s)) = commissions s @ new \<and> list_all (\<lambda>x. cm_status x = Held) new" for bps a
  proof -
    let ?row = "\<lparr>cm_id = ''rc_'' @ rnd s (draws s), cm_store = p_store payment, cm_referral = rf_id r, cm_referrer = rf_referrer r,
          cm_payment = p_id payment, cm_amount = a, cm_currency = p_currency payment, cm_bps = bps,
          cm_status = Held, cm_created = clock s, cm_paid_at = None, cm_payout_ref = None\<rparr>"
    let ?u = "s\<lparr>draws := Suc (draws s)\<rparr>" and ?p = "postCommissionAccrued (''rc_'' @ rnd s (draws s)) (p_store payment) (currency_name (p_currency payment)) a"
    have run: "accrue payment r bps a s = (if exists_by (commission_clash ?row) (commissions s) then (Inl P2002, ?u)
        else ?p (?u\<lparr>commissions := commissions s @ [?row]\<rparr>))"
      using assms(3) by (simp add: accrue_def op_simps)
    have "commissions (snd (?p (?u\<lparr>commissions := commissions s @ [?row]\<rparr>))) = commissions s @ [?row]"
      by (rule keepsD [OF post]) simp
    then show ?thesis unfolding run by (cases "exists_by (commission_clash ?row) (commissions s)") simp_all
  qed
  have caught: "\<exists>new. commissions (snd (catchM (accrue payment r bps a) (\<lambda>_. ret ()) s)) = commissions s @ new \<and>
      list_all (\<lambda>x. cm_status x = Held) new" for bps a
    using acc [of bps a] by (cases "accrue payment r bps a s"; cases "fst (accrue payment r bps a s)") (auto simp: catchM_def ret_def)
  have none: "\<exists>new. commissions s = commissions s @ new \<and> list_all (\<lambda>x. cm_status x = Held) new"
    by (intro exI [of _ "[]"]) simp
  show "\<exists>new. commissions (snd (accrueCommission payment s)) = commissions s @ new \<and> list_all (\<lambda>x. cm_status x = Held) new"
    using assms(1,2) caught none
    by (auto simp: accrueCommission_def op_simps Let_def if_distribR split: option.split)
qed

text \<open>A referrer and a referee with a program that gives 50 and 20 points and 10 per cent.\<close>

definition referee :: customer_row where
  "referee = sample_customer\<lparr>c_id := ''cus_2''\<rparr>"

definition sample_referral :: "bool \<Rightarrow> referral_row" where
  "sample_referral flagged = \<lparr>rf_id = ''ref_1'', rf_store = ''store_1'', rf_referrer = ''cus_1'', rf_referee = ''cus_2'',
     rf_code = ''REF-A'', rf_status = RefPending, rf_points_referrer = 0, rf_points_referee = 0, rf_flagged = flagged,
     rf_flags = (if flagged then [''velocity''] else []), rf_reviewed_at = None, rf_created = 0, rf_rewarded_at = None\<rparr>"

definition referral_db :: "bool \<Rightarrow> db" where
  "referral_db flagged = empty_db\<lparr>stores := [sample_store], customers := [sample_customer, referee],
     ref_programs := [\<lparr>rp_store = ''store_1'', rp_active = True, rp_referrer_points = 50, rp_referee_points = 20,
       rp_commission_bps = 1000, rp_duration_days = None\<rparr>],
     referrals := [sample_referral flagged]\<rparr>"

definition referee_payment :: payment_row where
  "referee_payment = (sample_payment 100 USD)\<lparr>p_customer := Some ''cus_2''\<rparr>"

lemma referral_db_sound: "points_sound (referral_db f)"
proof -
  have "fresh_ids (referral_db f)" using fresh_ids_empty by (simp add: fresh_ids_def referral_db_def)
  then show ?thesis
    by (simp add: points_sound_def referral_db_def mirrored_def pointsBalanceFor_def creditsMinusDebits_def
        sample_customer_def referee_def empty_db_def keyed_def)
qed

lemma reward_referral_ok:
  assumes "points_sound s" and "points_of (rf_referrer r) s \<noteq> None" and "points_of (rf_referee r) s \<noteq> None"
    and "find_by (\<lambda>x. rf_id x = rf_id r) (referrals s) = Some r"
  shows "\<exists>t. reward_referral payment r m n s = (Inr (), t)"
proof (cases "rf_status r = RefRewarded")
  case False
  let ?a = "referral_points (p_store payment) (rf_referrer r) m None ''referral (referrer)''"
  let ?b = "referral_points (p_store payment) (rf_referee r) n (Some (p_id payment)) ''referral (referee)''"
  obtain v where v: "?a s = (Inr (), v)" using referral_points_ok [OF assms(1,2)] by blast
  note a = referral_points_effect [OF v assms(1)]
  have "points_of (rf_referee r) v \<noteq> None" using assms(3) by (simp add: a(3))
  then obtain w where w: "?b v = (Inr (), w)" using referral_points_ok [OF a(1)] by blast
  have "exists_by (\<lambda>x. rf_id x = rf_id r) (referrals w)"
    using assms(4) by (simp add: referral_points_effect(2) [OF w a(1)] a(2) exists_by_find)
  then have "\<exists>t. mark_rewarded (rf_id r) m n w = (Inr (), t)" by (simp add: mark_rewarded_def op_simps updateM_def)
  then obtain t where "mark_rewarded (rf_id r) m n w = (Inr (), t)" ..
  then have "bindM ?a (\<lambda>_. bindM ?b (\<lambda>_. mark_rewarded (rf_id r) m n)) s = (Inr (), t)"
    using v w by (simp add: bindM_def)
  then have "reward_referral payment r m n s = (Inr (), t)"
    unfolding reward_referral_def transaction_Inr using False assms(4) by (simp add: op_simps seqM_def)
  then show ?thesis ..
qed (use assms(4) in \<open>simp add: reward_referral_def transaction_def op_simps\<close>)


theorem flagged_referral_held_witness:
  "onPaidPayment referee_payment (referral_db True) = (Inr (), referral_db True) \<and>
   (\<exists>new. commissions (snd (accrueCommission referee_payment (referral_db True))) = new \<and> list_all (\<lambda>x. cm_status x = Held) new)"
proof -
  have "p_customer referee_payment = Some ''cus_2''" by (simp add: referee_payment_def)
  moreover have "find_by (\<lambda>x. rf_referee x = ''cus_2'') (referrals (referral_db True)) = Some (sample_referral True)"
    by (simp add: referral_db_def sample_referral_def)
  moreover have "commissions (referral_db True) = []" by (simp add: referral_db_def empty_db_def)
  ultimately show ?thesis using flagged_referral_held [of referee_payment "''cus_2''" "referral_db True" "sample_referral True"]
    by (simp add: sample_referral_def)
qed

section \<open>Commissions in the books\<close>

text \<open>What the ledger says the store owes its referrers in a currency.\<close>

definition is_payable :: "string \<Rightarrow> string \<Rightarrow> entry_row \<Rightarrow> bool" where
  "is_payable storeId cur e \<longleftrightarrow> e_account e = ''commission_payable'' \<and> e_store e = Some storeId \<and> e_currency e = cur"

definition commission_payable :: "string \<Rightarrow> string \<Rightarrow> db \<Rightarrow> decimal" where
  "commission_payable storeId cur s = creditsMinusDebits (rows_where (is_payable storeId cur) (entries s))"

lemma commission_posting:
  assumes "fresh_ids s" and "0 < a" and "scaled 4 a"
    and "\<not> exists_by (\<lambda>j. j_event j = ''commission.accrued'' \<and> j_reference j = Some (''rc_'' @ x)) (journals s)"
  obtains js es k where "postCommissionAccrued (''rc_'' @ x) st cur a s = (Inr (), s\<lparr>journals := js, entries := es, draws := k\<rparr>)"
    and "commission_payable st cur (s\<lparr>journals := js, entries := es, draws := k\<rparr>) = commission_payable st cur s + a"
proof -
  let ?ls = "[line_of ''commission_expense'' DEBIT a, line_of ''commission_payable'' CREDIT a]"
  have r: "map round_line ?ls = ?ls" using to_dp_scaled [OF assms(3)] by (simp add: round_line_def line_of_def)
  have sums: "line_sum DEBIT (map round_line ?ls) = line_sum CREDIT (map round_line ?ls)" "0 < line_sum DEBIT (map round_line ?ls)"
    using assms(2) unfolding r by (simp_all add: line_sum_def line_of_def)
  have ne: "draws s \<le> n \<Longrightarrow> ''rc_'' @ x \<noteq> ''pts_'' @ rnd s n" for n by simp
  from post_fresh [OF assms(1) sums assms(4) ne, of "Some st" cur] obtain i ids k where p:
    "post ''commission.accrued'' (Some (''rc_'' @ x)) (Some st) cur ?ls s =
      (Inr (), with_journal (journal_of ''commission.accrued'' (Some (''rc_'' @ x)) (Some st) cur i) ids ?ls k s)"
    "length ids = length ?ls"
    unfolding r by blast
  from p(2) obtain i1 i2 where ids: "ids = [i1, i2]" by (auto simp: length_Suc_conv numeral_eq_Suc)
  show ?thesis
  proof (rule that)
    show "postCommissionAccrued (''rc_'' @ x) st cur a s =
      (Inr (), s\<lparr>journals := journals s @ [journal_of ''commission.accrued'' (Some (''rc_'' @ x)) (Some st) cur i],
        entries := entries s @ map2 (entry_of i (Some st) cur) ids ?ls, draws := k\<rparr>)"
      using p(1) by (simp add: postCommissionAccrued_def with_journal_def)
    show "commission_payable st cur (s\<lparr>journals := journals s @ [journal_of ''commission.accrued'' (Some (''rc_'' @ x)) (Some st) cur i],
        entries := entries s @ map2 (entry_of i (Some st) cur) ids ?ls, draws := k\<rparr>) = commission_payable st cur s + a"
      unfolding commission_payable_def creditsMinusDebits_rows by (simp add: ids is_payable_def line_of_def signed_def)
  qed
qed

lemma review_writes_ok:
  "exists_by (\<lambda>x. rf_id x = i) (referrals s) \<Longrightarrow> \<exists>t. review_writes i action now s = (Inr (), t)"
  by (cases action) (simp_all add: review_writes_def transaction_def op_simps)

lemma review_void_effect:
  assumes "reviewReferral u storeId i Void s = (Inr r, t)"
  shows "entries t = entries s"
    and "commissions t = update_where (\<lambda>c. cm_referral c = i \<and> cm_status c = Held) (\<lambda>c. c\<lparr>cm_status := CVoid\<rparr>) (commissions s)"
  using assms
  by (auto simp: reviewReferral_def review_writes_def transaction_def op_simps bindM_def ret_def updateM_def update_manyM_def seqM_def findM_def getsM_def
      split: sum.splits option.splits if_splits prod.splits dest!: assertStore_Inr [THEN iffD1])

text \<open>A voided commission stays payable in the books: the review cancels what was held but posts nothing,
  so the ledger still owes it. A 10 dollar commission of a flagged referral is accrued and voided: no
  commission is left to be paid, and the account still shows 10 dollars.\<close>

theorem voided_commission_stays_payable:
  "\<exists>t w r. accrueCommission referee_payment (referral_db True) = (Inr (), t) \<and>
     reviewReferral sample_user ''store_1'' ''ref_1'' Void t = (Inr r, w) \<and>
     map (\<lambda>c. (cm_amount c, cm_status c)) (commissions w) = [(10, CVoid)] \<and>
     commission_payable ''store_1'' ''USD'' w = 10"
proof -
  let ?s = "referral_db True" and ?i = "''rc_'' @ rnd (referral_db True) 0"
  let ?row = "\<lparr>cm_id = ?i, cm_store = ''store_1'', cm_referral = ''ref_1'', cm_referrer = ''cus_1'',
    cm_payment = ''pay_1'', cm_amount = 10, cm_currency = USD, cm_bps = 1000, cm_status = Held, cm_created = 0,
    cm_paid_at = None, cm_payout_ref = None\<rparr>"
  let ?u = "?s\<lparr>draws := Suc 0, commissions := [?row]\<rparr>"
  have sc: "scaled 4 (10 :: rat)" using scaled_of_int [of 4 10] by simp
  have am: "commission_amount 100 1000 = 10"
  proof -
    have "to_dp 2 (of_int 10) = of_int 10" by (rule to_dp_scaled) (rule scaled_of_int)
    then show ?thesis by (simp add: commission_amount_def)
  qed
  have "journals ?s = []" "entries ?s = []" "points_txns ?s = []" by (simp_all add: referral_db_def empty_db_def)
  then have fr: "fresh_ids ?u" using referral_db_sound [of True] by (simp add: points_sound_def fresh_ids_def)
  have nj: "\<not> exists_by (\<lambda>j. j_event j = ''commission.accrued'' \<and> j_reference j = Some (''rc_'' @ rnd ?s 0)) (journals ?u)"
    by (simp add: referral_db_def empty_db_def)
  obtain js es k where p: "postCommissionAccrued ?i ''store_1'' ''USD'' 10 ?u = (Inr (), ?u\<lparr>journals := js, entries := es, draws := k\<rparr>)"
    "commission_payable ''store_1'' ''USD'' (?u\<lparr>journals := js, entries := es, draws := k\<rparr>) = commission_payable ''store_1'' ''USD'' ?u + 10"
    by (rule commission_posting [OF fr _ sc nj]) simp
  let ?t = "?u\<lparr>journals := js, entries := es, draws := k\<rparr>"
  have acc: "accrue referee_payment (sample_referral True) 1000 10 ?s = (Inr (), ?t)"
    using p(1) by (simp add: accrue_def op_simps referral_db_def empty_db_def referee_payment_def sample_payment_def sample_referral_def)
  have t: "accrueCommission referee_payment ?s = (Inr (), ?t)"
    using acc
    by (simp add: accrueCommission_def op_simps referral_db_def referee_payment_def sample_payment_def sample_referral_def
        past_window_def am Let_def catchM_def)
  have zero: "commission_payable ''store_1'' ''USD'' ?u = 0"
    by (simp add: commission_payable_def referral_db_def empty_db_def creditsMinusDebits_def)
  have "exists_by (\<lambda>x. rf_id x = ''ref_1'') (referrals ?t)" by (simp add: referral_db_def sample_referral_def)
  then obtain v where v: "review_writes ''ref_1'' Void (clock ?t) ?t = (Inr (), v)" using review_writes_ok by blast
  have auth: "fst (assertStore sample_user ''store_1'' StoreWrite ?t) = Inr sample_store"
    by (simp add: assertStore_def op_simps referral_db_def sample_store_def sample_user_def requirePermission_def
        requireMembership_def roleForOrg_def)
  have found: "find_by (\<lambda>x. rf_id x = ''ref_1'') (referrals ?t) = Some (sample_referral True)"
    by (simp add: referral_db_def sample_referral_def)
  have "reviewReferral sample_user ''store_1'' ''ref_1'' Void ?t =
      seqM (review_writes ''ref_1'' Void (clock ?t)) (findM referrals (\<lambda>x. rf_id x = ''ref_1'')) ?t"
    unfolding reviewReferral_def bindM_assertStore auth bindM_find found
    by (simp add: bindM_gets sample_referral_def)
  also have "\<dots> = (Inr (find_by (\<lambda>x. rf_id x = ''ref_1'') (referrals v)), v)"
    unfolding seqM_def bindM_result [where m = "review_writes ''ref_1'' Void (clock ?t)", OF v] by (rule find_apply)
  finally obtain r w where w: "reviewReferral sample_user ''store_1'' ''ref_1'' Void ?t = (Inr r, w)" by blast
  have "commission_payable ''store_1'' ''USD'' w = 10"
    using p(2) zero by (simp add: commission_payable_def review_void_effect(1) [OF w])
  moreover have "map (\<lambda>c. (cm_amount c, cm_status c)) (commissions w) = [(10, CVoid)]"
    by (simp add: review_void_effect(2) [OF w])
  ultimately show ?thesis using t w by (intro exI [of _ ?t] exI [of _ w] exI [of _ r] conjI)
qed

section \<open>The points invariant\<close>

text \<open>A journal that leaves the points liability alone keeps it.\<close>

lemma no_liability_lines:
  "length ids = length ls \<Longrightarrow> list_all (\<lambda>l. ln_account l \<noteq> ''points_liability'') ls \<Longrightarrow>
   entry_total (\<lambda>e. e_customer e = Some c \<and> is_liability e) (map2 (entry_of j st cur) ids ls) = 0"
  by (induction ids ls rule: list_induct2) (simp_all add: is_liability_def)

lemma keeps_post_other:
  assumes "list_all (\<lambda>l. ln_account l \<noteq> ''points_liability'') ls" and "\<And>x. ref \<noteq> ''pts_'' @ x"
  shows "keeps points_sound (post ev (Some ref) st cur ls)"
proof (rule keepsI)
  fix s assume s: "points_sound s"
  then have fresh: "fresh_ids s" by (simp add: points_sound_def)
  obtain r t where p: "post ev (Some ref) st cur ls s = (r, t)" by (rule prod.exhaust)
  then show "points_sound (snd (post ev (Some ref) st cur ls s))"
  proof (cases rule: post_cases)
    case (posted i ids n)
    have new: "\<not> exists_by (\<lambda>j. j_event j = ev \<and> j_reference j = Some ref) (journals s)"
      using posted(5) by (auto simp: exists_by_iff journal_clash_def)
    from post_fresh [OF fresh posted(1,2) new assms(2)] obtain i' ids' n' where q:
      "post ev (Some ref) st cur ls s = (Inr (), with_journal (journal_of ev (Some ref) st cur i') ids' (map round_line ls) n' s)"
      "length ids' = length ls" "fresh_ids (with_journal (journal_of ev (Some ref) st cur i') ids' (map round_line ls) n' s)"
      by blast
    have none: "list_all (\<lambda>l. ln_account l \<noteq> ''points_liability'') (map round_line ls)"
      using assms(1) by (simp add: list_all_iff round_line_def)
    have bal: "pointsBalanceFor c (with_journal (journal_of ev (Some ref) st cur i') ids' (map round_line ls) n' s) = pointsBalanceFor c s" for c
      unfolding pointsBalanceFor_total with_journal_def using no_liability_lines [OF _ none] q(2) by simp
    have "customers (with_journal j ids ls n s) = customers s" for j ids ls n by (simp add: with_journal_def)
    then show ?thesis using s q(1,3) by (simp add: points_sound_def mirrored_def bal)
  qed (use p s in simp_all)
qed

lemma keeps_onPaidPayment: "keeps points_sound (onPaidPayment payment)"
proof -
  have reward: "keeps points_sound (reward_referral payment r (rp_referrer_points prog) (rp_referee_points prog))" for r and prog :: ref_program_row
  proof (rule keepsI)
    fix s assume s: "points_sound s"
    let ?m = "reward_referral payment r (rp_referrer_points prog) (rp_referee_points prog)"
    obtain e t where o: "?m s = (e, t)" by (rule prod.exhaust)
    show "points_sound (snd (?m s))"
    proof (cases e)
      case (Inl x)
      then have "t = s" using o transaction_error unfolding reward_referral_def by fastforce
      then show ?thesis using o s by simp
    next
      case (Inr x)
      then show ?thesis using reward_referral_effect [of payment r prog s t] o s by auto
    qed
  qed
  show ?thesis unfolding onPaidPayment_def by (auto intro!: keeps_intros reward split: option.split)
qed

lemma keeps_accrueCommission: "keeps points_sound (accrueCommission payment)"
proof -
  have post: "keeps points_sound (bindM (prefixedId ''rc'') (\<lambda>i. bindM (getsM clock) (\<lambda>now.
      seqM (createM commissions commissions_update commission_clash (row i now))
        (postCommissionAccrued i st cur a))))" for row st cur a
  proof (rule keepsI)
    fix s assume s: "points_sound s"
    let ?i = "''rc_'' @ rnd s (draws s)" and ?u = "s\<lparr>draws := Suc (draws s)\<rparr>"
    have u: "points_sound ?u" using s by (rule points_sound_draws) simp
    have "keeps points_sound (postCommissionAccrued ?i st cur a)"
      unfolding postCommissionAccrued_def by (rule keeps_post_other) (simp_all add: line_of_def)
    from keepsD [OF this] u show "points_sound (snd (bindM (prefixedId ''rc'') (\<lambda>i. bindM (getsM clock) (\<lambda>now.
      seqM (createM commissions commissions_update commission_clash (row i now)) (postCommissionAccrued i st cur a))) s))"
      by (simp add: op_simps)
  qed
  show ?thesis unfolding accrueCommission_def accrue_def Let_def
    by (auto intro!: keeps_intros post split: option.split)
qed

end
