(* ===== verification/Games.thy ===== *)
theory Games
  imports Awards
begin

text \<open>
  \<open>apps/api/src/games/games.service.ts\<close>: games with weighted prizes, the draw with its claim of
  the inventory, and the scratch cards that payments earn. \<open>Math.random()\<close> is the sequence
  \<open>ch_roll\<close> of an argument, and \<open>ch_others k\<close> is what other requests commit between the read and
  the claim of attempt \<open>k\<close>.
\<close>

section \<open>Games and prizes\<close>

definition game_owned :: "auth_user \<Rightarrow> string \<Rightarrow> permission \<Rightarrow> game_row handler" where
  "game_owned u i perm = ownedM games (\<lambda>x. g_id x = i) g_store ''Game not found'' u perm"

definition prizeAvailable :: "prize_row \<Rightarrow> bool" where
  "prizeAvailable p \<longleftrightarrow> 0 < pz_weight p \<and> (pz_stock p = - 1 \<or> 0 < pz_stock p)"

record prize_view =
  pv_prize :: prize_row
  pv_remaining :: "int option"
  pv_probability :: rat

definition serializePrize :: "int \<Rightarrow> prize_row \<Rightarrow> prize_view" where
  "serializePrize totalWeight p =
     \<lparr>pv_prize = p, pv_remaining = (if pz_stock p = - 1 then None else Some (pz_stock p)),
      pv_probability = (if 0 < totalWeight \<and> prizeAvailable p
        then double (to_dp 4 (double (of_int (pz_weight p) / of_int totalWeight))) else 0)\<rparr>"

definition total_weight :: "prize_row list \<Rightarrow> int" where
  "total_weight ps = sum_list (map (\<lambda>p. if prizeAvailable p then pz_weight p else 0) ps)"

definition getGame :: "auth_user \<Rightarrow> string \<Rightarrow> (game_row \<times> prize_view list) handler" where
  "getGame u gameId =
     bindM (game_owned u gameId PaymentRead) (\<lambda>game.
     bindM (manyM prizes (\<lambda>p. pz_game p = gameId)) (\<lambda>ps.
     ret (game, map (serializePrize (total_weight ps)) ps)))"

definition createGame ::
    "auth_user \<Rightarrow> string \<Rightarrow> string \<Rightarrow> game_type \<Rightarrow> bool option \<Rightarrow> bool option \<Rightarrow> decimal option \<Rightarrow> (game_row \<times> prize_view list) handler" where
  "createGame u storeId name ty active autoIssue minPayment =
     bindM (assertStore u storeId StoreWrite) (\<lambda>_.
     bindM (prefixedId ''game'') (\<lambda>i.
     seqM (createM games games_update (\<lambda>r x. g_id r = g_id x)
         \<lparr>g_id = i, g_store = storeId, g_name = name, g_type = ty, g_active = unless_none False active,
          g_auto_issue = unless_none False autoIssue, g_min_payment = minPayment\<rparr>)
       (getGame u i)))"

definition listGames :: "auth_user \<Rightarrow> string \<Rightarrow> (game_row \<times> nat \<times> nat) list handler" where
  "listGames u storeId =
     bindM (assertStore u storeId PaymentRead) (\<lambda>_.
     bindM (manyM games (\<lambda>g. g_store g = storeId)) (\<lambda>gs.
     getsM (\<lambda>s. map (\<lambda>g. (g, count_where (\<lambda>p. pz_game p = g_id g) (prizes s), count_where (\<lambda>p. gp_game p = g_id g) (plays s)))
       (rev gs))))"

definition updateGame ::
    "auth_user \<Rightarrow> string \<Rightarrow> string option \<Rightarrow> bool option \<Rightarrow> bool option \<Rightarrow> decimal option \<Rightarrow> (game_row \<times> prize_view list) handler" where
  "updateGame u gameId name active autoIssue minPayment =
     bindM (game_owned u gameId StoreWrite) (\<lambda>_.
     seqM (updateM games games_update (\<lambda>x. g_id x = gameId)
         (\<lambda>x. x\<lparr>g_name := unless_none (g_name x) name, g_active := unless_none (g_active x) active,
           g_auto_issue := unless_none (g_auto_issue x) autoIssue,
           g_min_payment := (case minPayment of None \<Rightarrow> g_min_payment x | m \<Rightarrow> m)\<rparr>))
       (getGame u gameId))"

text \<open>The rows of a deleted game go with it; the plays of a deleted prize lose it.\<close>

definition deleteGame :: "auth_user \<Rightarrow> string \<Rightarrow> unit handler" where
  "deleteGame u gameId =
     bindM (game_owned u gameId StoreWrite) (\<lambda>_.
     bindM (deleteM games games_update (\<lambda>x. g_id x = gameId)) (\<lambda>_.
     bindM (deleteM prizes prizes_update (\<lambda>p. pz_game p = gameId)) (\<lambda>_.
     deleteM plays plays_update (\<lambda>p. gp_game p = gameId))))"

record prize_dto =
  zd_label :: string
  zd_type :: "prize_type option"
  zd_points :: "int option"
  zd_reward :: "string option"
  zd_weight :: "int option"
  zd_stock :: "int option"

definition prize_clash :: "prize_row \<Rightarrow> prize_row \<Rightarrow> bool" where
  "prize_clash r x \<longleftrightarrow> pz_id r = pz_id x"

interpretation prizes_table: table prizes prizes_update pz_id prize_clash
  by unfold_locales (simp_all add: prize_clash_def)

definition addPrize :: "auth_user \<Rightarrow> string \<Rightarrow> prize_dto \<Rightarrow> prize_view handler" where
  "addPrize u gameId dto =
     bindM (game_owned u gameId StoreWrite) (\<lambda>_.
     bindM (prefixedId ''prz'') (\<lambda>i.
     let prize = \<lparr>pz_id = i, pz_game = gameId, pz_label = zd_label dto, pz_type = unless_none NoPrize (zd_type dto),
         pz_points = unless_none 0 (zd_points dto), pz_reward = zd_reward dto, pz_weight = unless_none 1 (zd_weight dto),
         pz_stock = unless_none (- 1) (zd_stock dto), pz_awarded = 0\<rparr>
     in seqM (createM prizes prizes_update prize_clash prize) (ret (serializePrize 0 prize))))"

definition prize_owned :: "auth_user \<Rightarrow> string \<Rightarrow> prize_row handler" where
  "prize_owned u prizeId =
     bindM (findM prizes (\<lambda>p. pz_id p = prizeId)) (\<lambda>prize.
     bindM (someM (paymentNotFound ''Prize not found'') prize) (\<lambda>p.
     bindM (game_owned u (pz_game p) StoreWrite) (\<lambda>_. ret p)))"

definition edit_prize :: "prize_dto \<Rightarrow> prize_row \<Rightarrow> prize_row" where
  "edit_prize dto x = x\<lparr>pz_label := zd_label dto, pz_type := unless_none (pz_type x) (zd_type dto),
     pz_points := unless_none (pz_points x) (zd_points dto),
     pz_reward := (case zd_reward dto of None \<Rightarrow> pz_reward x | r \<Rightarrow> r),
     pz_weight := unless_none (pz_weight x) (zd_weight dto), pz_stock := unless_none (pz_stock x) (zd_stock dto)\<rparr>"

definition updatePrize :: "auth_user \<Rightarrow> string \<Rightarrow> prize_dto \<Rightarrow> unit handler" where
  "updatePrize u prizeId dto =
     bindM (prize_owned u prizeId) (\<lambda>_. updateM prizes prizes_update (\<lambda>p. pz_id p = prizeId) (edit_prize dto))"

definition deletePrize :: "auth_user \<Rightarrow> string \<Rightarrow> unit handler" where
  "deletePrize u prizeId =
     bindM (prize_owned u prizeId) (\<lambda>_.
     bindM (update_manyM plays plays_update (\<lambda>p. gp_prize p = Some prizeId) (\<lambda>p. p\<lparr>gp_prize := None\<rparr>)) (\<lambda>_.
     deleteM prizes prizes_update (\<lambda>p. pz_id p = prizeId)))"

section \<open>The draw\<close>

record chance =
  ch_roll :: "nat \<Rightarrow> rat"
  ch_others :: "nat \<Rightarrow> db \<Rightarrow> db"

fun pick :: "rat \<Rightarrow> prize_row list \<Rightarrow> prize_row \<Rightarrow> prize_row" where
  "pick roll [] chosen = chosen"
| "pick roll (p # ps) chosen =
     (let r = double (roll - of_int (pz_weight p)) in if r < 0 then p else pick r ps chosen)"

definition claim_unit :: "prize_row \<Rightarrow> prize_row option handler" where
  "claim_unit chosen =
     (if pz_stock chosen = - 1
      then seqM (updateM prizes prizes_update (\<lambda>p. pz_id p = pz_id chosen) (\<lambda>p. p\<lparr>pz_awarded := pz_awarded p + 1\<rparr>)) (ret (Some chosen))
      else bindM (update_manyM prizes prizes_update (\<lambda>p. pz_id p = pz_id chosen \<and> 0 < pz_stock p)
          (\<lambda>p. p\<lparr>pz_stock := pz_stock p - 1, pz_awarded := pz_awarded p + 1\<rparr>)) (\<lambda>count.
        ret (if count = 1 then Some (chosen\<lparr>pz_stock := pz_stock chosen - 1, pz_awarded := pz_awarded chosen + 1\<rparr>) else None)))"

fun claim_loop :: "nat \<Rightarrow> chance \<Rightarrow> string list \<Rightarrow> string \<Rightarrow> prize_row option handler" where
  "claim_loop 0 ch excluded gameId = ret None"
| "claim_loop (Suc n) ch excluded gameId =
     bindM (manyM prizes (\<lambda>p. pz_game p = gameId \<and> prizeAvailable p \<and> pz_id p \<notin> set excluded)) (\<lambda>ps.
     if ps = [] then ret None
     else let totalWeight = sum_list (map pz_weight ps);
              chosen = pick (num_mul (ch_roll ch (9 - n)) (of_int totalWeight)) ps (last ps)
          in seqM (modifyM (ch_others ch (9 - n)))
            (bindM (claim_unit chosen) (\<lambda>claimed.
             case claimed of Some p \<Rightarrow> ret (Some p) | None \<Rightarrow> claim_loop n ch (pz_id chosen # excluded) gameId)))"

definition claimPrize :: "chance \<Rightarrow> string \<Rightarrow> prize_row option handler" where
  "claimPrize ch gameId = claim_loop 10 ch [] gameId"

definition creditPrize :: "string \<Rightarrow> string option \<Rightarrow> prize_row option \<Rightarrow> unit handler" where
  "creditPrize storeId customer prize =
     (case prize of None \<Rightarrow> ret () | Some p \<Rightarrow>
      if pz_type p \<noteq> PointsPrize \<or> pz_points p \<le> 0 then ret ()
      else case customer of None \<Rightarrow> ret () | Some customerId \<Rightarrow>
        if customerId = [] then ret ()
        else bindM (prefixedId ''pts'') (\<lambda>txnId. bindM (getsM clock) (\<lambda>now.
          seqM (transaction (book_points MEarn
              (points_entry txnId storeId customerId EARN (pz_points p) None (Some (''game prize: '' @ pz_label p)) now (Some now))
              (add_earned (pz_points p)))) (ret ()))))"

definition is_win :: "prize_row option \<Rightarrow> bool" where
  "is_win prize = (case prize of None \<Rightarrow> False | Some p \<Rightarrow> pz_type p \<noteq> NoPrize)"

definition drawAndRecord :: "chance \<Rightarrow> string \<Rightarrow> string \<Rightarrow> string option \<Rightarrow> string option \<Rightarrow> (play_row \<times> prize_row option) handler" where
  "drawAndRecord ch gameId storeId customer payment =
     bindM (claimPrize ch gameId) (\<lambda>prize.
     bindM (prefixedId ''play'') (\<lambda>i. bindM (getsM clock) (\<lambda>now.
     let play = \<lparr>gp_id = i, gp_game = gameId, gp_store = storeId, gp_customer = customer, gp_prize = map_option pz_id prize,
         gp_status = PlayRevealed, gp_won = is_win prize, gp_payment = payment, gp_revealed_at = Some now\<rparr>
     in seqM (createM plays plays_update play_clash play)
       (seqM (creditPrize storeId customer prize) (ret (play, prize))))))"

record play_view =
  pw_id :: string
  pw_customer :: "string option"
  pw_won :: bool
  pw_status :: play_status
  pw_prize :: "(string \<times> string \<times> prize_type \<times> int) option"

definition serializePlay :: "play_row \<Rightarrow> prize_row option \<Rightarrow> play_view" where
  "serializePlay play prize =
     \<lparr>pw_id = gp_id play, pw_customer = gp_customer play, pw_won = gp_won play, pw_status = gp_status play,
      pw_prize = map_option (\<lambda>p. (pz_id p, pz_label p, pz_type p, pz_points p)) prize\<rparr>"

definition play_game :: "chance \<Rightarrow> string \<Rightarrow> string \<Rightarrow> string option \<Rightarrow> play_view handler" where
  "play_game ch storeId gameId customer =
     bindM (findM games (\<lambda>g. g_id g = gameId)) (\<lambda>game.
     case game of None \<Rightarrow> throw (paymentNotFound ''Game not found'') | Some g \<Rightarrow>
     if g_store g \<noteq> storeId then throw (paymentNotFound ''Game not found'')
     else seqM (guardM (g_active g) (invalidRequest ''Game is not active''))
       (bindM (getsM customers) (\<lambda>cs.
        seqM (guardM (case customer of None \<Rightarrow> True | Some i \<Rightarrow> i = [] \<or>
              (case find_by (\<lambda>c. c_id c = i) cs of None \<Rightarrow> False | Some c \<Rightarrow> c_store c = storeId))
            (invalidRequest ''Unknown customer''))
          (bindM (drawAndRecord ch (g_id g) storeId customer None) (\<lambda>(play, prize). ret (serializePlay play prize))))))"

section \<open>Scratch cards\<close>

definition new_play :: "string \<Rightarrow> string \<Rightarrow> string \<Rightarrow> string \<Rightarrow> string option \<Rightarrow> play_row" where
  "new_play i gameId storeId customerId payment =
     \<lparr>gp_id = i, gp_game = gameId, gp_store = storeId, gp_customer = Some customerId, gp_prize = None,
      gp_status = PlayIssued, gp_won = False, gp_payment = payment, gp_revealed_at = None\<rparr>"

definition issue_card_for :: "payment_row \<Rightarrow> string \<Rightarrow> game_row \<Rightarrow> unit handler" where
  "issue_card_for payment customerId game =
     (if (case g_min_payment game of None \<Rightarrow> False | Some m \<Rightarrow> double (p_amount payment) < double m) then ret ()
      else catchM (bindM (prefixedId ''play'') (\<lambda>i.
          createM plays plays_update play_clash (new_play i (g_id game) (p_store payment) customerId (Some (p_id payment)))))
        (\<lambda>_. ret ()))"

definition issueForPayment :: "payment_row \<Rightarrow> unit handler" where
  "issueForPayment payment =
     (case p_customer payment of None \<Rightarrow> ret () | Some customerId \<Rightarrow>
      if customerId = [] then ret ()
      else bindM (manyM games (\<lambda>g. g_store g = p_store payment \<and> g_active g \<and> g_auto_issue g)) (\<lambda>gs.
        forM gs (issue_card_for payment customerId)))"

definition issuePlay :: "auth_user \<Rightarrow> string \<Rightarrow> string \<Rightarrow> play_view handler" where
  "issuePlay u gameId customerId =
     bindM (game_owned u gameId StoreWrite) (\<lambda>game.
     bindM (findM customers (\<lambda>c. c_id c = customerId)) (\<lambda>customer.
     seqM (guardM (case customer of None \<Rightarrow> False | Some c \<Rightarrow> c_store c = g_store game) (invalidRequest ''Unknown customer''))
       (bindM (prefixedId ''play'') (\<lambda>i.
        let play = new_play i gameId (g_store game) customerId None
        in seqM (createM plays plays_update play_clash play) (ret (serializePlay play None))))))"

definition play_prize :: "play_row \<Rightarrow> db \<Rightarrow> prize_row option" where
  "play_prize play s = Option.bind (gp_prize play) (\<lambda>i. find_by (\<lambda>p. pz_id p = i) (prizes s))"

fun play_status_name :: "play_status \<Rightarrow> string" where
  "play_status_name PlayIssued = ''ISSUED''"
| "play_status_name PlayRevealed = ''REVEALED''"

definition listCustomerPlays :: "string \<Rightarrow> string \<Rightarrow> string option \<Rightarrow> play_view list handler" where
  "listCustomerPlays storeId customerId status =
     bindM (findM customers (\<lambda>c. c_id c = customerId)) (\<lambda>customer.
     seqM (guardM (case customer of None \<Rightarrow> False | Some c \<Rightarrow> c_store c = storeId) (paymentNotFound ''Customer not found''))
       (bindM (manyM plays (\<lambda>p. gp_store p = storeId \<and> gp_customer p = Some customerId \<and>
           (case status of None \<Rightarrow> True | Some x \<Rightarrow> to_upper x \<in> set [''ISSUED'', ''REVEALED''] \<longrightarrow>
              play_status_name (gp_status p) = to_upper x))) (\<lambda>rows.
        getsM (\<lambda>s. map (\<lambda>p. serializePlay p (play_prize p s)) (take 100 (rev rows))))))"

text \<open>What is written once the status has been read.\<close>

definition reveal_writes :: "chance \<Rightarrow> play_row \<Rightarrow> play_view handler" where
  "reveal_writes ch play =
     bindM (claimPrize ch (gp_game play)) (\<lambda>prize.
     bindM (getsM clock) (\<lambda>now.
     let f = (\<lambda>p. p\<lparr>gp_prize := map_option pz_id prize, gp_status := PlayRevealed, gp_won := is_win prize, gp_revealed_at := Some now\<rparr>)
     in seqM (updateM plays plays_update (\<lambda>p. gp_id p = gp_id play) f)
       (seqM (creditPrize (gp_store play) (gp_customer play) prize) (ret (serializePlay (f play) prize)))))"

definition reveal :: "chance \<Rightarrow> string \<Rightarrow> string \<Rightarrow> play_view handler" where
  "reveal ch storeId playId =
     bindM (findM plays (\<lambda>p. gp_id p = playId)) (\<lambda>play.
     case play of None \<Rightarrow> throw (paymentNotFound ''Play not found'') | Some p \<Rightarrow>
     if gp_store p \<noteq> storeId then throw (paymentNotFound ''Play not found'')
     else if gp_status p = PlayRevealed then getsM (\<lambda>s. serializePlay p (play_prize p s))
     else reveal_writes ch p)"

section \<open>Public pages and reads\<close>

record public_play =
  pp_id :: string
  pp_status :: play_status
  pp_game :: "string \<times> game_type"
  pp_won :: "bool option"
  pp_prize :: "(string \<times> prize_type \<times> int) option"

definition public_view :: "play_row \<Rightarrow> db \<Rightarrow> public_play" where
  "public_view p s =
     \<lparr>pp_id = gp_id p, pp_status = gp_status p,
      pp_game = (case find_by (\<lambda>g. g_id g = gp_game p) (games s) of None \<Rightarrow> ([], ScratchCard) | Some g \<Rightarrow> (g_name g, g_type g)),
      pp_won = (if gp_status p = PlayRevealed then Some (gp_won p) else None),
      pp_prize = (if gp_status p = PlayRevealed
        then map_option (\<lambda>z. (pz_label z, pz_type z, pz_points z)) (play_prize p s) else None)\<rparr>"

definition publicGetPlay :: "string \<Rightarrow> public_play handler" where
  "publicGetPlay playId =
     bindM (findM plays (\<lambda>p. gp_id p = playId)) (\<lambda>play.
     bindM (someM (paymentNotFound ''Play not found'') play) (\<lambda>p. getsM (public_view p)))"

definition publicReveal :: "chance \<Rightarrow> string \<Rightarrow> public_play handler" where
  "publicReveal ch playId =
     bindM (findM plays (\<lambda>p. gp_id p = playId)) (\<lambda>play.
     bindM (someM (paymentNotFound ''Play not found'') play) (\<lambda>p.
     bindM (reveal ch (gp_store p) playId) (\<lambda>_. publicGetPlay playId)))"

definition publicInstantPlay :: "chance \<Rightarrow> string \<Rightarrow> string option \<Rightarrow> public_play handler" where
  "publicInstantPlay ch gameId customer =
     bindM (findM games (\<lambda>g. g_id g = gameId)) (\<lambda>game.
     bindM (someM (paymentNotFound ''Game not found'') game) (\<lambda>g.
     seqM (guardM (g_active g) (invalidRequest ''Game is not active''))
       (bindM (getsM customers) (\<lambda>cs.
        let cid = (case customer of None \<Rightarrow> None | Some i \<Rightarrow> if i = [] then None else
            (case find_by (\<lambda>c. c_id c = i) cs of None \<Rightarrow> None | Some c \<Rightarrow> if c_store c = g_store g then Some (c_id c) else None))
        in bindM (drawAndRecord ch (g_id g) (g_store g) cid None) (\<lambda>(play, _). publicGetPlay (gp_id play))))))"

definition publicGetGame :: "string \<Rightarrow> (game_row \<times> (string \<times> prize_type) list) handler" where
  "publicGetGame gameId =
     bindM (findM games (\<lambda>g. g_id g = gameId)) (\<lambda>game.
     bindM (someM (paymentNotFound ''Game not found'') game) (\<lambda>g.
     getsM (\<lambda>s. (g, map (\<lambda>p. (pz_label p, pz_type p)) (rows_where (\<lambda>p. pz_game p = gameId) (prizes s))))))"

definition listPlays :: "auth_user \<Rightarrow> string \<Rightarrow> play_view list handler" where
  "listPlays u gameId =
     bindM (game_owned u gameId PaymentRead) (\<lambda>_.
     bindM (manyM plays (\<lambda>p. gp_game p = gameId)) (\<lambda>rows.
     getsM (\<lambda>s. map (\<lambda>p. serializePlay p (play_prize p s)) (take 100 (rev rows)))))"

record game_stats_view =
  gs_plays :: nat
  gs_wins :: nat
  gs_win_rate :: rat
  gs_prizes :: "(string \<times> string \<times> prize_type \<times> int \<times> int \<times> int option) list"

definition game_stats :: "auth_user \<Rightarrow> string \<Rightarrow> game_stats_view handler" where
  "game_stats u gameId =
     bindM (game_owned u gameId PaymentRead) (\<lambda>_. getsM (\<lambda>s.
     let played = count_where (\<lambda>p. gp_game p = gameId \<and> gp_status p = PlayRevealed) (plays s);
         wins = count_where (\<lambda>p. gp_game p = gameId \<and> gp_status p = PlayRevealed \<and> gp_won p) (plays s)
     in \<lparr>gs_plays = played, gs_wins = wins,
         gs_win_rate = (if 0 < played then double (to_dp 4 (double (of_nat wins / of_nat played))) else 0),
         gs_prizes = map (\<lambda>p. (pz_id p, pz_label p, pz_type p, pz_awarded p, pz_stock p,
           if pz_stock p = - 1 then None else Some (pz_stock p))) (rows_where (\<lambda>p. pz_game p = gameId) (prizes s))\<rparr>))"

section \<open>The claim\<close>

lemma pick_in: "chosen \<in> set ps \<Longrightarrow> pick roll ps chosen \<in> set ps"
proof -
  have "pick roll ps chosen \<in> insert chosen (set ps)"
    by (induction roll ps chosen rule: pick.induct) (auto simp: Let_def)
  then show "chosen \<in> set ps \<Longrightarrow> pick roll ps chosen \<in> set ps" by auto
qed

definition alone :: "(nat \<Rightarrow> rat) \<Rightarrow> chance" where
  "alone roll = \<lparr>ch_roll = roll, ch_others = \<lambda>_ s. s\<rparr>"

lemma alone_fields: "ch_roll (alone roll) = roll" "ch_others (alone roll) k s = s"
  by (simp_all add: alone_def)

definition candidates :: "string \<Rightarrow> db \<Rightarrow> prize_row list" where
  "candidates gameId s = rows_where (\<lambda>p. pz_game p = gameId \<and> prizeAvailable p) (prizes s)"

definition drawn_prize :: "(nat \<Rightarrow> rat) \<Rightarrow> string \<Rightarrow> db \<Rightarrow> prize_row" where
  "drawn_prize roll gameId s = (let ps = candidates gameId s in
     pick (num_mul (roll 0) (of_int (sum_list (map pz_weight ps)))) ps (last ps))"

definition take_unit :: "prize_row \<Rightarrow> prize_row" where
  "take_unit p = p\<lparr>pz_stock := (if pz_stock p = - 1 then - 1 else pz_stock p - 1), pz_awarded := pz_awarded p + 1\<rparr>"

lemma take_unit_fields [simp]:
  "pz_id (take_unit p) = pz_id p" "pz_label (take_unit p) = pz_label p" "pz_type (take_unit p) = pz_type p"
  "pz_points (take_unit p) = pz_points p" "pz_game (take_unit p) = pz_game p" "pz_weight (take_unit p) = pz_weight p"
  by (simp_all add: take_unit_def)

lemma drawn_prize_candidate:
  "candidates gameId s \<noteq> [] \<Longrightarrow> drawn_prize roll gameId s \<in> set (candidates gameId s)"
  unfolding drawn_prize_def Let_def by (rule pick_in) simp

lemma count_where_key:
  "keyed k t \<Longrightarrow> r \<in> set t \<Longrightarrow> q r \<Longrightarrow> count_where (\<lambda>x. k x = k r \<and> q x) t = 1"
proof (induction t)
  case (Cons x t)
  then have "\<forall>y \<in> set t. k y \<noteq> k x" by (auto simp: keyed_def image_iff)
  moreover have "(\<forall>y \<in> set t. k y \<noteq> k r) \<Longrightarrow> count_where (\<lambda>x. k x = k r \<and> q x) t = 0"
    by (simp add: count_where_0 exists_by_iff)
  ultimately show ?case using Cons by (auto simp: keyed_def)
qed simp

lemma update_where_cong: "(\<And>x. x \<in> set t \<Longrightarrow> (if p x then f x else x) = (if q x then g x else x)) \<Longrightarrow> update_where p f t = update_where q g t"
  by (simp add: update_where_def)

lemma claim_unit_alone:
  assumes "keyed pz_id (prizes s)" and "c \<in> set (prizes s)" and "prizeAvailable c"
  shows "claim_unit c s = (Inr (Some (if pz_stock c = - 1 then c else take_unit c)),
    s\<lparr>prizes := update_where (\<lambda>p. pz_id p = pz_id c) take_unit (prizes s)\<rparr>)"
proof -
  have only: "p \<in> set (prizes s) \<Longrightarrow> pz_id p = pz_id c \<Longrightarrow> p = c" for p
    using keyed_unique [OF assms(1)] assms(2) by blast
  have ex: "exists_by (\<lambda>p. pz_id p = pz_id c) (prizes s)" using assms(2) by (auto simp: exists_by_iff)
  show ?thesis
  proof (cases "pz_stock c = - 1")
    case True
    have "update_where (\<lambda>p. pz_id p = pz_id c) (\<lambda>p. p\<lparr>pz_awarded := pz_awarded p + 1\<rparr>) (prizes s) =
        update_where (\<lambda>p. pz_id p = pz_id c) take_unit (prizes s)"
      using True only by (intro update_where_cong) (force simp: take_unit_def)
    then show ?thesis using True ex by (simp add: claim_unit_def op_simps)
  next
    case False
    then have pos: "0 < pz_stock c" using assms(3) by (simp add: prizeAvailable_def)
    have "update_where (\<lambda>p. pz_id p = pz_id c \<and> 0 < pz_stock p) (\<lambda>p. p\<lparr>pz_stock := pz_stock p - 1, pz_awarded := pz_awarded p + 1\<rparr>) (prizes s) =
        update_where (\<lambda>p. pz_id p = pz_id c) take_unit (prizes s)"
      using False pos only by (intro update_where_cong) (force simp: take_unit_def)
    moreover have "count_where (\<lambda>p. pz_id p = pz_id c \<and> 0 < pz_stock p) (prizes s) = 1"
      using assms(1,2) pos by (rule count_where_key)
    ultimately show ?thesis using False by (simp add: claim_unit_def op_simps take_unit_def)
  qed
qed

lemma ten: "(10 :: nat) = Suc 9"
  by simp

lemma claimPrize_alone:
  assumes "keyed pz_id (prizes s)"
  shows "claimPrize (alone roll) gameId s =
    (if candidates gameId s = [] then (Inr None, s)
     else (Inr (Some (if pz_stock (drawn_prize roll gameId s) = - 1 then drawn_prize roll gameId s else take_unit (drawn_prize roll gameId s))),
       s\<lparr>prizes := update_where (\<lambda>p. pz_id p = pz_id (drawn_prize roll gameId s)) take_unit (prizes s)\<rparr>))"
proof (cases "candidates gameId s = []")
  case True
  then show ?thesis unfolding claimPrize_def ten claim_loop.simps(2)
    by (simp add: op_simps candidates_def del: claim_loop.simps)
next
  case False
  let ?c = "drawn_prize roll gameId s"
  have c: "?c \<in> set (prizes s)" "prizeAvailable ?c"
    using drawn_prize_candidate [OF False, of roll] by (auto simp: candidates_def)
  have rows: "rows_where (\<lambda>p. pz_game p = gameId \<and> prizeAvailable p) (prizes s) = candidates gameId s" by (simp add: candidates_def)
  have e: "pick (num_mul (roll 0) (of_int (sum_list (map pz_weight (candidates gameId s))))) (candidates gameId s) (last (candidates gameId s)) = ?c"
    by (simp add: drawn_prize_def Let_def)
  have "claimPrize (alone roll) gameId s = bindM (claim_unit ?c)
      (\<lambda>claimed. case claimed of Some p \<Rightarrow> ret (Some p) | None \<Rightarrow> claim_loop 9 (alone roll) [pz_id ?c] gameId) s"
    unfolding claimPrize_def ten claim_loop.simps(2)
    using False by (simp add: op_simps rows Let_def e alone_fields del: claim_loop.simps)
  also have "\<dots> = (Inr (Some (if pz_stock ?c = - 1 then ?c else take_unit ?c)),
      s\<lparr>prizes := update_where (\<lambda>p. pz_id p = pz_id ?c) take_unit (prizes s)\<rparr>)"
    using claim_unit_alone [OF assms c] by (simp add: bindM_def ret_def)
  finally show ?thesis using False by simp
qed

text \<open>Whatever else happens meanwhile, a limited stock does not fall below zero.\<close>

definition limited :: "string \<Rightarrow> db \<Rightarrow> bool" where
  "limited i s \<longleftrightarrow> list_all (\<lambda>p. pz_id p = i \<longrightarrow> 0 \<le> pz_stock p) (prizes s)"

lemma keeps_limited_claim:
  assumes "\<And>k u. limited i u \<Longrightarrow> limited i (ch_others ch k u)"
  shows "keeps (limited i) (claimPrize ch gameId)"
proof -
  have once: "keeps (limited i) (claim_unit c)" for c
  proof -
    have "keeps (limited i) (updateM prizes prizes_update q (\<lambda>p. p\<lparr>pz_awarded := pz_awarded p + 1\<rparr>))" for q
      by (rule keeps_update) (auto simp: limited_def list_all_iff update_where_def)
    moreover have "keeps (limited i) (update_manyM prizes prizes_update (\<lambda>p. pz_id p = pz_id c \<and> 0 < pz_stock p)
        (\<lambda>p. p\<lparr>pz_stock := pz_stock p - 1, pz_awarded := pz_awarded p + 1\<rparr>))"
      by (rule keeps_update_many) (auto simp: limited_def list_all_iff update_where_def)
    ultimately show ?thesis unfolding claim_unit_def by (intro keeps_intros)
  qed
  have "keeps (limited i) (claim_loop n ch excluded gameId)" for n excluded
  proof (induction n arbitrary: excluded)
    case (Suc n)
    then show ?case unfolding claim_loop.simps Let_def
      by (auto intro!: keeps_intros keeps_modify once assms split: option.split)
  qed (simp add: keeps_ret)
  then show ?thesis by (simp add: claimPrize_def)
qed

section \<open>Prizes in points\<close>

lemma keeps_credit_frame:
  assumes "\<And>s a. P s \<Longrightarrow> P (s\<lparr>points_txns := a\<rparr>)" and "\<And>s a. P s \<Longrightarrow> P (s\<lparr>customers := a\<rparr>)"
    and "\<And>s js es n. P s \<Longrightarrow> P (s\<lparr>journals := js, entries := es, draws := n\<rparr>)" and "\<And>s n. P s \<Longrightarrow> P (s\<lparr>draws := n\<rparr>)"
  shows "keeps P (creditPrize storeId customer prize)"
  unfolding creditPrize_def
  by (auto intro!: keeps_intros keeps_book keeps_prefixedId intro: assms split: option.split)

lemma keeps_creditPrize: "keeps points_sound (creditPrize storeId customer prize)"
proof -
  have draw: "keeps points_sound (bindM (prefixedId ''pts'') (\<lambda>txnId. bindM (getsM clock) (\<lambda>now.
      seqM (transaction (book_points MEarn (points_entry txnId storeId c EARN n None reason now (Some now)) (add_earned n))) (ret ()))))"
    for c n reason
    by (rule keeps_drawn_book) (simp_all add: keeps_ret)
  show ?thesis unfolding creditPrize_def
    by (auto intro!: draw keeps_ret split: option.split)
qed

lemma bindM_committed: "m s = (Inr a, t) \<Longrightarrow> bindM (transaction m) f s = f a t"
  by (simp add: bindM_def transaction_def)

lemma creditPrize_credits:
  assumes "points_sound s" and "points_of c s \<noteq> None" and "c \<noteq> []" and "pz_type p = PointsPrize" and "0 < pz_points p"
  obtains t where "creditPrize storeId (Some c) (Some p) s = (Inr (), t)" and "points_sound t"
    and "points_of c t = map_option (\<lambda>b. b + pz_points p) (points_of c s)"
    and "map c_id (customers t) = map c_id (customers s)" and "map c_store (customers t) = map c_store (customers s)"
proof -
  from assms(2) obtain x where x: "find_by (\<lambda>y. c_id y = c) (customers s) = Some x" by (auto simp: points_of_def)
  let ?f = "add_earned (pz_points p)" and ?i = "''pts_'' @ rnd s (draws s)" and ?u = "s\<lparr>draws := Suc (draws s)\<rparr>"
  let ?row = "points_entry ?i storeId c EARN (pz_points p) None (Some (''game prize: '' @ pz_label p)) (clock s) (Some (clock s))"
  obtain r v where v: "book_points MEarn ?row ?f ?u = (r, v)" by (rule prod.exhaust)
  have u: "points_sound ?u" "fresh_txn (pt_id ?row) ?u" using drawn_txn [OF assms(1)] by simp_all
  have mv: "moves ?row ?f ?u" by simp
  from v u mv show ?thesis
  proof (cases rule: book_points_cases)
    case missing
    with x show ?thesis by simp
  next
    case (booked js es k)
    have run: "creditPrize storeId (Some c) (Some p) s = bindM (transaction (book_points MEarn ?row ?f)) (\<lambda>_. ret ()) ?u"
      using assms(3-5) by (simp add: creditPrize_def op_simps)
    have cs: "customers v = update_where (\<lambda>y. c_id y = c) ?f (customers s)" by (simp add: booked(3))
    show ?thesis
    proof (rule that [of v])
      show "creditPrize storeId (Some c) (Some p) s = (Inr (), v)"
        unfolding run bindM_committed [where m = "book_points MEarn ?row ?f", OF v [unfolded booked(1)]] by (simp add: ret_def)
      show "points_sound v" by (rule booked(4))
      show "points_of c v = map_option (\<lambda>b. b + pz_points p) (points_of c s)"
        using points_of_update [OF cs, of "pz_points p" c] by simp
      show "map c_id (customers v) = map c_id (customers s)" "map c_store (customers v) = map c_store (customers s)"
        unfolding cs by (simp_all add: map_update_where)
    qed
  qed
qed

section \<open>Invariants of the operations\<close>

lemma keeps_limited_reveal:
  assumes "\<And>k u. limited i u \<Longrightarrow> limited i (ch_others ch k u)"
  shows "keeps (limited i) (reveal ch storeId playId)" and "keeps (limited i) (drawAndRecord ch gameId storeId customer payment)"
proof -
  have credit: "keeps (limited i) (creditPrize st c p)" for st c p
    by (rule keeps_credit_frame) (simp_all add: limited_def)
  have play: "keeps (limited i) (updateM plays plays_update q f)" "keeps (limited i) (createM plays plays_update play_clash row)" for q f row
    by (rule keeps_update keeps_create; simp add: limited_def)+
  have ids: "keeps (limited i) (prefixedId x)" for x by (rule keeps_prefixedId) (simp add: limited_def)
  show "keeps (limited i) (reveal ch storeId playId)"
    unfolding reveal_def reveal_writes_def Let_def
    by (auto intro!: keeps_intros keeps_limited_claim assms credit play split: option.split)
  show "keeps (limited i) (drawAndRecord ch gameId storeId customer payment)"
    unfolding drawAndRecord_def Let_def
    by (auto intro!: keeps_intros keeps_limited_claim assms credit play ids split: option.split)
qed

lemma keeps_claim_points:
  assumes "\<And>k u. points_sound u \<Longrightarrow> points_sound (ch_others ch k u)"
  shows "keeps points_sound (claimPrize ch gameId)"
proof -
  have once: "keeps points_sound (claim_unit c)" for c
    unfolding claim_unit_def by (auto intro!: keeps_intros keeps_update keeps_update_many)
  have "keeps points_sound (claim_loop n ch excluded gameId)" for n excluded
  proof (induction n arbitrary: excluded)
    case (Suc n)
    then show ?case unfolding claim_loop.simps Let_def
      by (auto intro!: keeps_intros keeps_modify once assms split: option.split)
  qed (simp add: keeps_ret)
  then show ?thesis by (simp add: claimPrize_def)
qed

lemma keeps_points_reveal:
  assumes "\<And>k u. points_sound u \<Longrightarrow> points_sound (ch_others ch k u)"
  shows "keeps points_sound (reveal ch storeId playId)" and "keeps points_sound (drawAndRecord ch gameId storeId customer payment)"
proof -
  have ids: "keeps points_sound (bindM (prefixedId x) f)" if "\<And>i. keeps points_sound (f i)" for x f
    by (intro keeps_bind that) (auto simp: keeps_def prefixedId_def intro: points_sound_draws)
  show "keeps points_sound (reveal ch storeId playId)"
    unfolding reveal_def reveal_writes_def Let_def
    by (auto intro!: keeps_intros keeps_claim_points assms keeps_creditPrize keeps_update split: option.split)
  show "keeps points_sound (drawAndRecord ch gameId storeId customer payment)"
    unfolding drawAndRecord_def Let_def
    by (intro keeps_bind [OF keeps_claim_points [OF assms]] ids)
      (auto intro!: keeps_intros keeps_creditPrize keeps_create)
qed

lemma keeps_points_issue: "keeps points_sound (issueForPayment payment)"
proof -
  have card: "keeps points_sound (bindM (prefixedId ''play'') (\<lambda>i. createM plays plays_update play_clash (f i)))" for f
    by (intro keeps_bind keeps_create) (auto simp: keeps_def prefixedId_def intro: points_sound_draws)
  show ?thesis unfolding issueForPayment_def issue_card_for_def
    by (auto intro!: keeps_intros card split: option.split)
qed

section \<open>Revealing\<close>

lemma candidates_after:
  assumes "keyed pz_id (prizes s)" and "candidates g s = [p]" and "pz_stock p \<noteq> 1"
  shows "candidates g (s\<lparr>prizes := update_where (\<lambda>x. pz_id x = pz_id p) take_unit (prizes s)\<rparr>) = [take_unit p]"
proof -
  let ?q = "\<lambda>x. pz_game x = g \<and> prizeAvailable x"
  let ?f = "\<lambda>x. if prizeAvailable x \<and> pz_stock x \<noteq> 1 then take_unit x else x"
  have "p \<in> set (candidates g s)" by (simp add: assms(2))
  then have p: "p \<in> set (prizes s)" "prizeAvailable p" by (simp_all add: candidates_def)
  have only: "x \<in> set (prizes s) \<Longrightarrow> pz_id x = pz_id p \<Longrightarrow> x = p" for x
    using keyed_unique [OF assms(1)] p(1) by blast
  have "update_where (\<lambda>x. pz_id x = pz_id p) take_unit (prizes s) = update_where (\<lambda>x. pz_id x = pz_id p) ?f (prizes s)"
    using only p(2) assms(3) by (intro update_where_cong) (metis (full_types))
  moreover have "rows_where ?q (update_where (\<lambda>x. pz_id x = pz_id p) ?f (prizes s)) =
      update_where (\<lambda>x. pz_id x = pz_id p) ?f (rows_where ?q (prizes s))"
    by (rule rows_where_update_where) (auto simp: prizeAvailable_def take_unit_def)
  ultimately show ?thesis using assms(2,3) p(2) by (simp add: candidates_def)
qed

lemma reveal_writes_pays:
  assumes "points_sound s" and "keyed pz_id (prizes s)" and "candidates (gp_game play) s = [p]" and "pz_stock p \<noteq> 1"
    and "pz_type p = PointsPrize" and "0 < pz_points p" and "gp_customer play = Some c" and "c \<noteq> []"
    and "points_of c s = Some b" and "exists_by (\<lambda>x. gp_id x = gp_id play) (plays s)"
  obtains v t where "reveal_writes (alone roll) play s = (Inr v, t)" and "points_sound t" and "keyed pz_id (prizes t)"
    and "candidates (gp_game play) t = [take_unit p]" and "points_of c t = Some (b + pz_points p)"
    and "exists_by (\<lambda>x. gp_id x = gp_id play) (plays t)"
proof -
  have d: "drawn_prize roll (gp_game play) s = p"
    using drawn_prize_candidate [of "gp_game play" s roll] assms(3) by simp
  let ?z = "if pz_stock p = - 1 then p else take_unit p"
  let ?u = "s\<lparr>prizes := update_where (\<lambda>x. pz_id x = pz_id p) take_unit (prizes s)\<rparr>"
  have claim: "claimPrize (alone roll) (gp_game play) s = (Inr (Some ?z), ?u)"
    using claimPrize_alone [OF assms(2), of roll "gp_game play"] assms(3) by (simp add: d)
  let ?f = "\<lambda>x. x\<lparr>gp_prize := Some (pz_id p), gp_status := PlayRevealed, gp_won := is_win (Some ?z), gp_revealed_at := Some (clock s)\<rparr>"
  let ?w = "?u\<lparr>plays := update_where (\<lambda>x. gp_id x = gp_id play) ?f (plays s)\<rparr>"
  have z: "pz_id ?z = pz_id p" "pz_type ?z = PointsPrize" "pz_points ?z = pz_points p" by (simp_all add: assms(5))
  have run: "reveal_writes (alone roll) play s =
      bindM (creditPrize (gp_store play) (Some c) (Some ?z)) (\<lambda>_. ret (serializePlay (?f play) (Some ?z))) ?w"
    using assms(7,10)
    by (simp add: reveal_writes_def bindM_result [where m = "claimPrize (alone roll) (gp_game play)", OF claim]
        op_simps Let_def z(1))
  have w: "points_sound ?w" "points_of c ?w \<noteq> None" "pz_type ?z = PointsPrize" "0 < pz_points ?z"
    using assms(1,6,9) z by (auto simp: points_of_def)
  obtain t where t: "creditPrize (gp_store play) (Some c) (Some ?z) ?w = (Inr (), t)" "points_sound t"
    "points_of c t = map_option (\<lambda>b. b + pz_points ?z) (points_of c ?w)"
    by (rule creditPrize_credits [OF w(1,2) assms(8) w(3,4)])
  have frame: "keeps (\<lambda>u. plays u = plays ?w \<and> prizes u = prizes ?w) (creditPrize (gp_store play) (Some c) (Some ?z))"
    by (rule keeps_credit_frame) simp_all
  have same: "plays t = plays ?w \<and> prizes t = prizes ?w" using keeps_result [OF frame _ t(1)] by simp
  show ?thesis
  proof (rule that)
    show "reveal_writes (alone roll) play s = (Inr (serializePlay (?f play) (Some ?z)), t)"
      unfolding run bindM_result [where m = "creditPrize (gp_store play) (Some c) (Some ?z)", OF t(1)] by (simp add: ret_def)
    show "keyed pz_id (prizes t)" using same assms(2) by (simp add: keyed_update_where)
    show "candidates (gp_game play) t = [take_unit p]"
      using candidates_after [OF assms(2-4)] same by (simp add: candidates_def)
    show "points_of c t = Some (b + pz_points p)" using t(3) assms(9) by (simp add: points_of_def z(3))
    show "exists_by (\<lambda>x. gp_id x = gp_id play) (plays t)" using same assms(10) by (simp add: exists_update_where)
  qed (rule t(2))
qed

section \<open>Properties\<close>


text \<open>A draw that meets no other takes exactly one unit of one prize of the game that has a weight and
  is in stock, and draws nothing only when there is none such.\<close>

theorem draw_takes_one_unit:
  assumes "keyed pz_id (prizes s)"
  shows "\<exists>r t. claimPrize (alone roll) gameId s = (Inr r, t) \<and>
    (case r of None \<Rightarrow> t = s \<and> candidates gameId s = []
     | Some p \<Rightarrow> \<exists>c \<in> set (candidates gameId s). pz_id p = pz_id c \<and>
         t = s\<lparr>prizes := update_where (\<lambda>x. pz_id x = pz_id c) take_unit (prizes s)\<rparr>)"
proof (cases "candidates gameId s = []")
  case True
  then show ?thesis using claimPrize_alone [OF assms, of roll gameId] by simp
next
  case False
  with drawn_prize_candidate [OF False, of roll] show ?thesis
    using claimPrize_alone [OF assms, of roll gameId]
    by (auto intro!: bexI [of _ "drawn_prize roll gameId s"])
qed

text \<open>The status of a card is read before its prize is drawn and not checked when it is written: two
  reveals of one card that both read it as issued both draw and both pay.\<close>

theorem revealed_twice_by_race:
  assumes "points_sound s" and "keyed pz_id (prizes s)" and "candidates (gp_game play) s = [p]"
    and "pz_stock p = - 1 \<or> 2 < pz_stock p" and "pz_type p = PointsPrize" and "0 < pz_points p"
    and "gp_customer play = Some c" and "c \<noteq> []" and "points_of c s = Some b"
    and "exists_by (\<lambda>x. gp_id x = gp_id play) (plays s)"
  shows "\<exists>v t w u. reveal_writes (alone roll) play s = (Inr v, t) \<and> reveal_writes (alone roll') play t = (Inr w, u) \<and>
    points_of c u = Some (b + 2 * pz_points p)"
proof -
  have st: "pz_stock p \<noteq> 1" "pz_stock (take_unit p) \<noteq> 1" using assms(4) by (auto simp: take_unit_def)
  obtain v t where t: "reveal_writes (alone roll) play s = (Inr v, t)" "points_sound t" "keyed pz_id (prizes t)"
    "candidates (gp_game play) t = [take_unit p]" "points_of c t = Some (b + pz_points p)"
    "exists_by (\<lambda>x. gp_id x = gp_id play) (plays t)"
    by (rule reveal_writes_pays [OF assms(1-3) st(1) assms(5-10)])
  have p: "pz_type (take_unit p) = PointsPrize" "0 < pz_points (take_unit p)" using assms(5,6) by simp_all
  obtain w u where u: "reveal_writes (alone roll') play t = (Inr w, u)"
    "points_of c u = Some (b + pz_points p + pz_points (take_unit p))"
    by (rule reveal_writes_pays [OF t(2-4) st(2) p assms(7,8) t(5,6)])
  have "points_of c u = Some (b + 2 * pz_points p)" using u(2) by simp
  with t(1) u(1) show ?thesis by blast
qed

text \<open>A wheel with one prize of 10 points, and a card that the sample customer holds.\<close>

definition sample_prize :: "int \<Rightarrow> prize_row" where
  "sample_prize stock = \<lparr>pz_id = ''prz_1'', pz_game = ''game_1'', pz_label = ''Ten'', pz_type = PointsPrize, pz_points = 10,
     pz_reward = None, pz_weight = 1, pz_stock = stock, pz_awarded = 0\<rparr>"

definition sample_play :: play_row where
  "sample_play = new_play ''play_1'' ''game_1'' ''store_1'' ''cus_1'' None"

definition game_db :: "int \<Rightarrow> db" where
  "game_db stock = shop_db\<lparr>prizes := [sample_prize stock], plays := [sample_play]\<rparr>"


theorem draw_takes_one_unit_witness:
  "\<exists>p t. claimPrize (alone (\<lambda>_. 0)) ''game_1'' (game_db 1) = (Inr (Some p), t) \<and> map pz_stock (prizes t) = [0] \<and> pz_id p = ''prz_1''"
proof -
  have c: "candidates ''game_1'' (game_db 1) = [sample_prize 1]"
    by (simp add: candidates_def game_db_def sample_prize_def prizeAvailable_def)
  have "keyed pz_id (prizes (game_db 1))" by (simp add: game_db_def keyed_def)
  from draw_takes_one_unit [OF this, of "\<lambda>_. 0" "''game_1''"] c obtain p where
    "claimPrize (alone (\<lambda>_. 0)) ''game_1'' (game_db 1) = (Inr (Some p),
      game_db 1\<lparr>prizes := update_where (\<lambda>x. pz_id x = pz_id (sample_prize 1)) take_unit (prizes (game_db 1))\<rparr>)"
    "pz_id p = pz_id (sample_prize 1)"
    by (auto split: option.splits)
  then show ?thesis by (simp add: game_db_def sample_prize_def take_unit_def)
qed

theorem revealed_twice_by_race_witness:
  "\<exists>v t w u. reveal_writes (alone (\<lambda>_. 0)) sample_play (game_db (- 1)) = (Inr v, t) \<and>
     reveal_writes (alone (\<lambda>_. 0)) sample_play t = (Inr w, u) \<and> points_of ''cus_1'' u = Some 20"
proof -
  have "points_sound (game_db (- 1))" using shop_db_sound by (simp add: game_db_def)
  moreover have "keyed pz_id (prizes (game_db (- 1)))" by (simp add: game_db_def keyed_def)
  moreover have "candidates (gp_game sample_play) (game_db (- 1)) = [sample_prize (- 1)]"
    by (simp add: candidates_def game_db_def sample_prize_def prizeAvailable_def sample_play_def new_play_def)
  moreover have "points_of ''cus_1'' (game_db (- 1)) = Some 0"
    by (simp add: points_of_def game_db_def shop_db_def sample_customer_def)
  ultimately show ?thesis
    using revealed_twice_by_race [of "game_db (- 1)" sample_play "sample_prize (- 1)" "''cus_1''" 0 "\<lambda>_. 0" "\<lambda>_. 0"]
    by (simp add: sample_prize_def sample_play_def new_play_def game_db_def)
qed

end
