(* ===== verification/Quota.thy ===== *)
theory Quota
  imports Stores
begin

text \<open>
  \<open>apps/api/src/billing/quota.service.ts\<close> and \<open>period.util.ts\<close>: the monthly
  quota of paid transactions of an organisation. A create is refused once the payments paid in
  the month and those still in flight reach the quota of the plan; a paid payment is counted, and
  the owners are warned when 70, 90 and 100 percent are reached.
\<close>

section \<open>Periods\<close>

definition currentPeriodStart :: "int \<Rightarrow> int" where
  "currentPeriodStart now = start_of_month now"

definition nextPeriodStart :: "int \<Rightarrow> int" where
  "nextPeriodStart now =
     (let (y, m, d) = civil_from_days (now div ms_day) in make_day y m 1 * ms_day)"

text \<open>The ratio is a quotient and a product of \<open>Number\<close>s, each rounded.\<close>

definition usage_ratio :: "int \<Rightarrow> int \<Rightarrow> rat" where
  "usage_ratio used quota = (if quota = 0 then 100 else num_mul (double (of_int used / of_int quota)) 100)"

definition warningLevel :: "int \<Rightarrow> int \<Rightarrow> int option" where
  "warningLevel used quota =
     (if quota < 0 then None
      else let pct = usage_ratio used quota in
        if 100 \<le> pct then Some 100 else if 90 \<le> pct then Some 90 else if 70 \<le> pct then Some 70 else None)"

section \<open>The service\<close>

record usage_snapshot =
  us_period_start :: int
  us_paid_count :: int
  us_quota :: int
  us_remaining :: "int option"
  us_percent :: "rat option"
  us_level :: "int option"
  us_plan :: string

definition DEFAULT_PLAN_ID :: string where
  "DEFAULT_PLAN_ID = ''plan_free''"

definition find_plan :: "string \<Rightarrow> db \<Rightarrow> plan_row option" where
  "find_plan i s = find_by (\<lambda>x. pl_id x = i) (plans s)"

definition plan_or_default :: "org_row \<Rightarrow> db \<Rightarrow> plan_row option" where
  "plan_or_default org s =
     (case Option.bind (o_plan org) (\<lambda>i. find_plan i s) of Some pl \<Rightarrow> Some pl | None \<Rightarrow> find_plan DEFAULT_PLAN_ID s)"

definition planForOrg :: "string \<Rightarrow> (org_row \<times> plan_row option) handler" where
  "planForOrg organizationId =
     bindM (findM orgs (\<lambda>x. o_id x = organizationId)) (\<lambda>org.
     bindM (someM (internal ''Organization not found'') org) (\<lambda>org.
     bindM (getsM (plan_or_default org)) (\<lambda>plan. ret (org, plan))))"

definition quota_of :: "plan_row option \<Rightarrow> int" where
  "quota_of plan = (case plan of None \<Rightarrow> 100 | Some pl \<Rightarrow> pl_quota pl)"

definition usage_key :: "string \<Rightarrow> int \<Rightarrow> usage_row \<Rightarrow> bool" where
  "usage_key organizationId periodStart x \<longleftrightarrow> u_org x = organizationId \<and> u_period x = periodStart"

definition paid_count :: "usage_row option \<Rightarrow> int" where
  "paid_count usage = (case usage of None \<Rightarrow> 0 | Some x \<Rightarrow> u_paid x)"

definition quota_snapshot :: "string \<Rightarrow> usage_snapshot handler" where
  "quota_snapshot organizationId =
     bindM (planForOrg organizationId) (\<lambda>(org, plan).
     bindM (getsM clock) (\<lambda>now.
     (let periodStart = currentPeriodStart now in
      bindM (findM usages (usage_key organizationId periodStart)) (\<lambda>usage.
      (let paidCount = paid_count usage; quota = quota_of plan in
       ret \<lparr>us_period_start = periodStart, us_paid_count = paidCount, us_quota = quota,
            us_remaining = (if quota < 0 then None else Some (max 0 (quota - paidCount))),
            us_percent = (if quota < 0 then None else if quota = 0 then Some 100
                          else Some (double (to_dp 1 (usage_ratio paidCount quota)))),
            us_level = warningLevel paidCount quota,
            us_plan = (case plan of None \<Rightarrow> ''Free'' | Some pl \<Rightarrow> pl_name pl)\<rparr>)))))"

text \<open>The payments that hold a place of the month: created in it and neither paid nor over.\<close>

definition org_of_store :: "string \<Rightarrow> db \<Rightarrow> string option" where
  "org_of_store storeId s = map_option s_org (find_by (\<lambda>x. s_id x = storeId) (stores s))"

definition in_flight :: "string \<Rightarrow> int \<Rightarrow> db \<Rightarrow> nat" where
  "in_flight organizationId periodStart s =
     count_where (\<lambda>p. org_of_store (p_store p) s = Some organizationId \<and> p_status p \<in> {Pending, Scanned} \<and>
       periodStart \<le> p_created p) (payments s)"

definition quota_message :: "int \<Rightarrow> string" where
  "quota_message quota = ''Monthly quota of '' @ show_nat (nat quota) @
     '' successful payments reached (including in-flight). Upgrade your plan to continue.''"

definition assertWithinQuota :: "string \<Rightarrow> unit handler" where
  "assertWithinQuota organizationId =
     bindM (planForOrg organizationId) (\<lambda>(org, plan).
     seqM (guardM (o_status_active org) (forbidden ''Organization is suspended''))
     (let quota = quota_of plan in
      if quota < 0 then ret ()
      else bindM (getsM clock) (\<lambda>now.
        (let periodStart = currentPeriodStart now in
         bindM (findM usages (usage_key organizationId periodStart)) (\<lambda>usage.
         bindM (getsM (in_flight organizationId periodStart)) (\<lambda>inFlight.
           guardM (paid_count usage + int inFlight < quota) (quotaExceeded (quota_message quota))))))))"

definition owner_emails :: "string \<Rightarrow> db \<Rightarrow> string list" where
  "owner_emails organizationId s =
     map om_email (rows_where (\<lambda>x. om_org x = organizationId \<and> om_owner x) (org_members s))"

definition maybeWarn :: "string \<Rightarrow> int \<Rightarrow> int \<Rightarrow> unit handler" where
  "maybeWarn organizationId paidCount lastWarned =
     bindM (planForOrg organizationId) (\<lambda>(org, plan).
     (let quota = quota_of plan in
      case warningLevel paidCount quota of
        None \<Rightarrow> ret ()
      | Some level \<Rightarrow>
        if level \<le> lastWarned then ret ()
        else bindM (getsM clock) (\<lambda>now.
          seqM (update_manyM usages usages_update (usage_key organizationId (currentPeriodStart now)) (u_warned_update (\<lambda>_. level)))
          (bindM (getsM (owner_emails organizationId)) (\<lambda>owners.
           forM owners (\<lambda>email. emit (QuotaWarning email level paidCount quota)))))))"

definition upsert_usage :: "string \<Rightarrow> int \<Rightarrow> usage_row handler" where
  "upsert_usage organizationId periodStart =
     bindM (findM usages (usage_key organizationId periodStart)) (\<lambda>usage.
     case usage of
       Some x \<Rightarrow> seqM (update_manyM usages usages_update (usage_key organizationId periodStart) (\<lambda>x. x\<lparr>u_paid := u_paid x + 1\<rparr>))
                  (ret (x\<lparr>u_paid := u_paid x + 1\<rparr>))
     | None \<Rightarrow> (let x = \<lparr>u_org = organizationId, u_period = periodStart, u_paid = 1, u_warned = 0\<rparr> in
                seqM (modifyM (\<lambda>s. s\<lparr>usages := usages s @ [x]\<rparr>)) (ret x)))"

definition recordPaid :: "string \<Rightarrow> unit handler" where
  "recordPaid organizationId =
     bindM (getsM clock) (\<lambda>now.
     bindM (upsert_usage organizationId (currentPeriodStart now)) (\<lambda>usage.
       maybeWarn organizationId (u_paid usage) (u_warned usage)))"

definition recordPaidForStore :: "string \<Rightarrow> unit handler" where
  "recordPaidForStore storeId =
     bindM (findM stores (\<lambda>x. s_id x = storeId)) (\<lambda>store.
     case store of None \<Rightarrow> ret () | Some x \<Rightarrow> recordPaid (s_org x))"

section \<open>What the handlers do\<close>

lemma bindM_planForOrg [op_simps]: "bindM (planForOrg i) f s =
    (case find_by (\<lambda>x. o_id x = i) (orgs s) of
       None \<Rightarrow> (Inl (internal ''Organization not found''), s)
     | Some x \<Rightarrow> f (x, plan_or_default x s) s)"
  by (simp add: planForOrg_def op_simps split: option.split)

text \<open>The places taken in the current month, and the quota of the organisation.\<close>

definition org_paid :: "string \<Rightarrow> db \<Rightarrow> int" where
  "org_paid i s = paid_count (find_by (usage_key i (currentPeriodStart (clock s))) (usages s))"

definition places_taken :: "string \<Rightarrow> db \<Rightarrow> int" where
  "places_taken i s = org_paid i s + int (in_flight i (currentPeriodStart (clock s)) s)"

definition org_quota :: "string \<Rightarrow> db \<Rightarrow> int option" where
  "org_quota i s = map_option (\<lambda>x. quota_of (plan_or_default x s)) (find_by (\<lambda>x. o_id x = i) (orgs s))"

lemma assertWithinQuota_pure: "assertWithinQuota i s = (r, t) \<Longrightarrow> t = s"
  by (auto simp: assertWithinQuota_def op_simps guardM_def Let_def split: option.splits if_splits)

lemma assertWithinQuota_Inr: "assertWithinQuota i s = (Inr (), t) \<longleftrightarrow> t = s \<and>
    (\<exists>x q. find_by (\<lambda>x. o_id x = i) (orgs s) = Some x \<and> o_status_active x \<and> org_quota i s = Some q \<and>
       (q < 0 \<or> places_taken i s < q))"
  by (auto simp: assertWithinQuota_def op_simps guardM_def org_quota_def places_taken_def org_paid_def Let_def split: option.splits)

lemma assertWithinQuota_full:
  assumes "find_by (\<lambda>x. o_id x = i) (orgs s) = Some x" and "o_status_active x" and "org_quota i s = Some q"
    and "0 \<le> q" and "q \<le> places_taken i s"
  shows "assertWithinQuota i s = (Inl (quotaExceeded (quota_message q)), s)"
  using assms by (auto simp: assertWithinQuota_def op_simps guardM_def org_quota_def places_taken_def org_paid_def Let_def)

lemma bindM_assertWithinQuota: "bindM (assertWithinQuota i) f s =
    (case fst (assertWithinQuota i s) of Inl e \<Rightarrow> (Inl e, s) | Inr x \<Rightarrow> f x s)"
  using assertWithinQuota_pure by (cases "assertWithinQuota i s") (auto simp: bindM_def split: sum.split)

lemma keeps_assertWithinQuota [keeps_intros]: "keeps P (assertWithinQuota i)"
  using assertWithinQuota_pure by (intro keepsI) (metis prod.collapse)

text \<open>What counting a payment writes: the counter, and a round of warnings at a new level.\<close>

definition counted_usage :: "string \<Rightarrow> int \<Rightarrow> usage_row list \<Rightarrow> usage_row list" where
  "counted_usage i pd t = (if exists_by (usage_key i pd) t
     then update_where (usage_key i pd) (\<lambda>x. x\<lparr>u_paid := u_paid x + 1\<rparr>) t
     else t @ [\<lparr>u_org = i, u_period = pd, u_paid = 1, u_warned = 0\<rparr>])"

definition last_warned :: "string \<Rightarrow> db \<Rightarrow> int" where
  "last_warned i s = (case find_by (usage_key i (currentPeriodStart (clock s))) (usages s) of None \<Rightarrow> 0 | Some x \<Rightarrow> u_warned x)"

lemma upsert_usage_result: "upsert_usage i (currentPeriodStart (clock s)) s =
    (Inr \<lparr>u_org = i, u_period = currentPeriodStart (clock s), u_paid = org_paid i s + 1, u_warned = last_warned i s\<rparr>,
     s\<lparr>usages := counted_usage i (currentPeriodStart (clock s)) (usages s)\<rparr>)"
proof (cases "find_by (usage_key i (currentPeriodStart (clock s))) (usages s)")
  case None
  then have "\<not> exists_by (usage_key i (currentPeriodStart (clock s))) (usages s)" by (simp add: exists_by_find)
  with None show ?thesis
    by (simp add: upsert_usage_def op_simps org_paid_def last_warned_def counted_usage_def paid_count_def Let_def)
next
  case (Some x)
  then have "exists_by (usage_key i (currentPeriodStart (clock s))) (usages s)" by (simp add: exists_by_find)
  moreover from find_by_SomeD [OF Some] have "u_org x = i" "u_period x = currentPeriodStart (clock s)"
    by (simp_all add: usage_key_def)
  ultimately show ?thesis using Some
    by (simp add: upsert_usage_def op_simps org_paid_def last_warned_def counted_usage_def paid_count_def update_manyM_def)
qed

lemma counted_usage_find: "find_by (usage_key i (currentPeriodStart (clock s))) (counted_usage i (currentPeriodStart (clock s)) (usages s)) =
    Some \<lparr>u_org = i, u_period = currentPeriodStart (clock s), u_paid = org_paid i s + 1, u_warned = last_warned i s\<rparr>"
proof (cases "find_by (usage_key i (currentPeriodStart (clock s))) (usages s)")
  case None
  then have "\<not> exists_by (usage_key i (currentPeriodStart (clock s))) (usages s)" by (simp add: exists_by_find)
  with None show ?thesis
    by (simp add: counted_usage_def org_paid_def last_warned_def paid_count_def find_by_append usage_key_def)
next
  case (Some x)
  then have "exists_by (usage_key i (currentPeriodStart (clock s))) (usages s)" by (simp add: exists_by_find)
  moreover from find_by_SomeD [OF Some] have "u_org x = i" "u_period x = currentPeriodStart (clock s)"
    by (simp_all add: usage_key_def)
  ultimately show ?thesis using Some
    by (simp add: counted_usage_def org_paid_def last_warned_def paid_count_def find_by_update_where usage_key_def)
qed

definition due_warning :: "string \<Rightarrow> int \<Rightarrow> db \<Rightarrow> int option" where
  "due_warning i q s = (case warningLevel (org_paid i s + 1) q of None \<Rightarrow> None
     | Some level \<Rightarrow> if level \<le> last_warned i s then None else Some level)"

definition warned_usage :: "string \<Rightarrow> int \<Rightarrow> int option \<Rightarrow> usage_row list \<Rightarrow> usage_row list" where
  "warned_usage i pd w t = (case w of None \<Rightarrow> t | Some level \<Rightarrow> update_where (usage_key i pd) (u_warned_update (\<lambda>_. level)) t)"

definition warnings :: "string \<Rightarrow> db \<Rightarrow> int \<Rightarrow> int option \<Rightarrow> int \<Rightarrow> effect list" where
  "warnings i s q w n = (case w of None \<Rightarrow> [] | Some level \<Rightarrow> map (\<lambda>email. QuotaWarning email level n q) (owner_emails i s))"

lemma plan_or_default_usages [simp]: "plan_or_default x (s\<lparr>usages := us\<rparr>) = plan_or_default x s"
  by (simp add: plan_or_default_def find_plan_def cong: option.case_cong)

lemma owner_emails_usages [simp]: "owner_emails i (s\<lparr>usages := us\<rparr>) = owner_emails i s"
  by (simp add: owner_emails_def)

lemma recordPaid_result:
  assumes "org_quota i s = Some q"
  shows "recordPaid i s = (Inr (), s\<lparr>
    usages := warned_usage i (currentPeriodStart (clock s)) (due_warning i q s)
                (counted_usage i (currentPeriodStart (clock s)) (usages s)),
    outbox := outbox s @ warnings i s q (due_warning i q s) (org_paid i s + 1)\<rparr>)"
proof -
  from assms obtain x where x: "find_by (\<lambda>x. o_id x = i) (orgs s) = Some x" "q = quota_of (plan_or_default x s)"
    by (auto simp: org_quota_def)
  show ?thesis
  proof (cases "due_warning i q s")
    case None
    then consider "warningLevel (org_paid i s + 1) q = None"
      | level where "warningLevel (org_paid i s + 1) q = Some level" "level \<le> last_warned i s"
      by (auto simp: due_warning_def split: option.splits if_splits)
    then show ?thesis
      by cases (use x None in \<open>simp_all add: recordPaid_def op_simps bindM_result [where m = "upsert_usage i (currentPeriodStart (clock s))", OF upsert_usage_result]
        maybeWarn_def Let_def warned_usage_def warnings_def\<close>)
  next
    case (Some level)
    then have "warningLevel (org_paid i s + 1) q = Some level" "\<not> level \<le> last_warned i s"
      by (auto simp: due_warning_def split: option.splits if_splits)
    with x Some show ?thesis
      by (simp add: recordPaid_def op_simps bindM_result [where m = "upsert_usage i (currentPeriodStart (clock s))", OF upsert_usage_result]
          maybeWarn_def Let_def warned_usage_def warnings_def forM_emit)
  qed
qed

text \<open>After it the counter has moved by one and the level warned at is the highest one reached.\<close>

lemma recordPaid_counters:
  assumes "org_quota i s = Some q" and "recordPaid i s = (r, t)"
  shows "org_paid i t = org_paid i s + 1" and "org_quota i t = Some q" and "clock t = clock s"
    and "owner_emails i t = owner_emails i s"
    and "last_warned i t = (case due_warning i q s of None \<Rightarrow> last_warned i s | Some level \<Rightarrow> level)"
    and "outbox t = outbox s @ warnings i s q (due_warning i q s) (org_paid i s + 1)"
proof -
  from assms have t: "t = s\<lparr>usages := warned_usage i (currentPeriodStart (clock s)) (due_warning i q s)
                (counted_usage i (currentPeriodStart (clock s)) (usages s)),
    outbox := outbox s @ warnings i s q (due_warning i q s) (org_paid i s + 1)\<rparr>"
    by (simp add: recordPaid_result)
  have f: "find_by (usage_key i (currentPeriodStart (clock s))) (usages t) = Some \<lparr>u_org = i, u_period = currentPeriodStart (clock s),
     u_paid = org_paid i s + 1, u_warned = (case due_warning i q s of None \<Rightarrow> last_warned i s | Some level \<Rightarrow> level)\<rparr>"
    using counted_usage_find [of i s]
    by (auto simp: t warned_usage_def find_by_update_where usage_key_def split: option.split)
  show "clock t = clock s" by (simp add: t)
  with f show "org_paid i t = org_paid i s + 1"
    and "last_warned i t = (case due_warning i q s of None \<Rightarrow> last_warned i s | Some level \<Rightarrow> level)"
    by (simp_all add: org_paid_def last_warned_def paid_count_def)
  show "org_quota i t = Some q" using assms(1)
    by (simp add: org_quota_def t plan_or_default_def find_plan_def cong: option.case_cong)
  show "owner_emails i t = owner_emails i s" by (simp add: t owner_emails_def)
  show "outbox t = outbox s @ warnings i s q (due_warning i q s) (org_paid i s + 1)" by (simp add: t)
qed

lemma warningLevel_range: "warningLevel n q = Some level \<Longrightarrow> level \<in> {70, 90, 100}"
  by (auto simp: warningLevel_def Let_def split: if_splits)

section \<open>Properties\<close>

text \<open>A create is let through exactly when the organisation is there, is not suspended and either has
  no limit or has a place left, counting the payments paid in the month and those in flight; so a
  new pending payment never takes a place beyond the quota.\<close>

theorem quota_gate:
  assumes "assertWithinQuota i s = (Inr (), t)" and "org_quota i s = Some q" and "0 \<le> q"
    and "org_of_store (p_store p) s = Some i" and "p_status p = Pending"
  shows "t = s \<and> places_taken i (s\<lparr>payments := payments s @ [p]\<rparr>) \<le> q"
  using assms by (auto simp: assertWithinQuota_Inr places_taken_def org_paid_def in_flight_def org_of_store_def)

text \<open>However many payments of a month are counted, the owners are warned at most once for each of the
  levels 70, 90 and 100, in rising order, and never for a level that was warned at before.\<close>

theorem warned_once_per_level:
  assumes "org_quota i s = Some q" and "forM (replicate n ()) (\<lambda>_. recordPaid i) s = (r, t)"
  shows "\<exists>ws. sorted_wrt (<) (last_warned i s # map fst ws) \<and> set (map fst ws) \<subseteq> {70, 90, 100} \<and>
    org_paid i t = org_paid i s + int n \<and>
    outbox t = outbox s @ concat (map (\<lambda>(level, k). map (\<lambda>email. QuotaWarning email level k q) (owner_emails i s)) ws)"
  using assms
proof (induction n arbitrary: s)
  case 0
  then have "t = s" by (simp add: ret_def)
  then show ?case by (intro exI [of _ "[]"]) simp
next
  case (Suc n)
  obtain u where u: "recordPaid i s = (Inr (), u)" using recordPaid_result [OF Suc.prems(1)] by blast
  note c = recordPaid_counters [OF Suc.prems(1) u]
  from Suc.prems(2) u have "forM (replicate n ()) (\<lambda>_. recordPaid i) u = (r, t)"
    by (simp add: seqM_def bindM_result [where m = "recordPaid i"])
  from Suc.IH [OF c(2) this] obtain ws where ws:
    "sorted_wrt (<) (last_warned i u # map fst ws)" "set (map fst ws) \<subseteq> {70, 90, 100}"
    "org_paid i t = org_paid i u + int n"
    "outbox t = outbox u @ concat (map (\<lambda>(level, k). map (\<lambda>email. QuotaWarning email level k q) (owner_emails i u)) ws)"
    by blast
  show ?case
  proof (cases "due_warning i q s")
    case None
    with ws c show ?thesis by (intro exI [of _ ws]) (simp add: warnings_def)
  next
    case (Some level)
    then have "warningLevel (org_paid i s + 1) q = Some level" and l: "last_warned i s < level"
      by (auto simp: due_warning_def split: option.splits if_splits)
    then have "level \<in> {70, 90, 100}" by - (rule warningLevel_range)
    with Some ws c l show ?thesis by (intro exI [of _ "(level, org_paid i s + 1) # ws"]) (auto simp: warnings_def)
  qed
qed

text \<open>An organisation on the free plan of three payments, with two owners.\<close>

definition sample_org :: org_row where
  "sample_org = \<lparr>o_id = ''org_1'', o_status_active = True, o_plan = None, o_grace = None\<rparr>"

definition quota_db :: "int \<Rightarrow> db" where
  "quota_db quota = empty_db\<lparr>orgs := [sample_org], stores := [sample_store],
     plans := [\<lparr>pl_id = DEFAULT_PLAN_ID, pl_name = ''Free'', pl_quota = quota, pl_fee_bps = 0, pl_price = 0\<rparr>],
     org_members := [\<lparr>om_org = ''org_1'', om_email = ''o@shop'', om_owner = True\<rparr>]\<rparr>"

lemma quota_db_quota: "org_quota ''org_1'' (quota_db q) = Some q"
  by (simp add: org_quota_def quota_db_def sample_org_def plan_or_default_def find_plan_def quota_of_def)

theorem quota_gate_witness:
  "places_taken ''org_1'' (quota_db 3\<lparr>payments := [(sample_payment 5 USD)\<lparr>p_status := Pending\<rparr>]\<rparr>) \<le> 3"
proof -
  have "places_taken ''org_1'' (quota_db 3) = 0"
    by (simp add: places_taken_def org_paid_def paid_count_def in_flight_def quota_db_def empty_db_def)
  then have "assertWithinQuota ''org_1'' (quota_db 3) = (Inr (), quota_db 3)"
    using quota_db_quota [of 3] by (auto simp: assertWithinQuota_Inr quota_db_def sample_org_def)
  from quota_gate [OF this quota_db_quota, of "(sample_payment 5 USD)\<lparr>p_status := Pending\<rparr>"] show ?thesis
    by (simp add: org_of_store_def quota_db_def sample_payment_def sample_store_def empty_db_def)
qed

theorem warned_once_per_level_witness:
  "\<exists>ws. sorted_wrt (<) (last_warned ''org_1'' (quota_db 3) # map fst ws) \<and> set (map fst ws) \<subseteq> {70, 90, 100} \<and>
    org_paid ''org_1'' (snd (forM (replicate 5 ()) (\<lambda>_. recordPaid ''org_1'') (quota_db 3))) = org_paid ''org_1'' (quota_db 3) + int 5 \<and>
    outbox (snd (forM (replicate 5 ()) (\<lambda>_. recordPaid ''org_1'') (quota_db 3))) =
      outbox (quota_db 3) @ concat (map (\<lambda>(level, k). map (\<lambda>email. QuotaWarning email level k 3) (owner_emails ''org_1'' (quota_db 3))) ws)"
  by (rule warned_once_per_level [OF quota_db_quota prod.collapse [symmetric]])

end
