(* ===== verification/Hmac.thy ===== *)
theory Hmac
  imports Amounts
begin

text \<open>
  \<open>packages/security/src/hmac.ts\<close>: the signature header of a webhook, built with every
  secret that is valid during a rotation, and its verification. The keyed hash
  (HMAC-SHA256, in hexadecimal) is the argument \<open>mac\<close> of the model.
\<close>

section \<open>Strings of the header\<close>

fun split_on :: "char \<Rightarrow> string \<Rightarrow> string list" where
  "split_on c [] = [[]]"
| "split_on c (x # xs) =
     (if x = c then [] # split_on c xs else (x # hd (split_on c xs)) # tl (split_on c xs))"

fun join_with :: "char \<Rightarrow> string list \<Rightarrow> string" where
  "join_with c [] = []"
| "join_with c [x] = x"
| "join_with c (x # y # xs) = x @ c # join_with c (y # xs)"

text \<open>\<open>Number(s)\<close> of a string: blank is zero, else a signed decimal literal, an infinity,
  an unsigned integer literal of base 2, 8 or 16, or not a number.\<close>

datatype number = NaN | Infinite | Finite rat

definition hex_val :: "char \<Rightarrow> nat option" where
  "hex_val c = (if is_digit c then Some (digit_val c)
     else if CHR ''a'' = lower_char c then Some 10 else if CHR ''b'' = lower_char c then Some 11
     else if CHR ''c'' = lower_char c then Some 12 else if CHR ''d'' = lower_char c then Some 13
     else if CHR ''e'' = lower_char c then Some 14 else if CHR ''f'' = lower_char c then Some 15 else None)"

definition read_base :: "nat \<Rightarrow> string \<Rightarrow> number" where
  "read_base base s =
     (if s \<noteq> [] \<and> list_all (\<lambda>c. \<exists>d \<in> set_option (hex_val c). d < base) s
      then Finite (double (of_nat (foldl (\<lambda>n c. base * n + the (hex_val c)) 0 s))) else NaN)"

definition read_exponent :: "string \<Rightarrow> int option" where
  "read_exponent s =
     (let (neg, ds) = (case s of c # cs \<Rightarrow> if c = CHR ''-'' then (True, cs) else if c = CHR ''+'' then (False, cs) else (False, s)
                       | [] \<Rightarrow> (False, [])) in
      if ds \<noteq> [] \<and> list_all is_digit ds then Some ((if neg then - 1 else 1) * int (read_nat ds)) else None)"

definition read_decimal :: "string \<Rightarrow> number" where
  "read_decimal s =
     (let i = takeWhile is_digit s; r = dropWhile is_digit s;
          (f, e) = (case r of c # q \<Rightarrow> if c = CHR ''.'' then (takeWhile is_digit q, dropWhile is_digit q) else ([], r)
                    | [] \<Rightarrow> ([], [])); v = of_nat (read_nat i) + of_nat (read_nat f) / pow10 (length f) in
      if s = ''Infinity'' then Infinite
      else if i @ f = [] then NaN
      else case e of
        [] \<Rightarrow> Finite (double v)
      | c # x \<Rightarrow> if lower_char c = CHR ''e''
                 then (case read_exponent x of None \<Rightarrow> NaN | Some k \<Rightarrow> Finite (double (v * 10 powi k))) else NaN)"

definition negate :: "number \<Rightarrow> number" where
  "negate n = (case n of Finite x \<Rightarrow> Finite (- x) | _ \<Rightarrow> n)"

definition number_of :: "string \<Rightarrow> number" where
  "number_of text =
     (let s = trim text in
      case s of
        [] \<Rightarrow> Finite 0
      | [c] \<Rightarrow> read_decimal s
      | c # d # r \<Rightarrow>
          if c = CHR ''0'' \<and> lower_char d = CHR ''x'' then read_base 16 r
          else if c = CHR ''0'' \<and> lower_char d = CHR ''o'' then read_base 8 r
          else if c = CHR ''0'' \<and> lower_char d = CHR ''b'' then read_base 2 r
          else if c = CHR ''-'' then negate (read_decimal (d # r))
          else if c = CHR ''+'' then read_decimal (d # r)
          else read_decimal s)"

section \<open>Signing\<close>

definition computeSignature :: "(string \<Rightarrow> string \<Rightarrow> string) \<Rightarrow> string \<Rightarrow> string \<Rightarrow> string \<Rightarrow> string" where
  "computeSignature mac secret timestamp rawBody = mac secret (timestamp @ ''.'' @ rawBody)"

definition buildSignatureHeader :: "(string \<Rightarrow> string \<Rightarrow> string) \<Rightarrow> string \<Rightarrow> string \<Rightarrow> nat \<Rightarrow> string" where
  "buildSignatureHeader mac secret rawBody timestamp =
     ''t='' @ show_nat timestamp @ '',v1='' @ computeSignature mac secret (show_nat timestamp) rawBody"

definition buildSignatureHeaderMulti :: "(string \<Rightarrow> string \<Rightarrow> string) \<Rightarrow> string list \<Rightarrow> string \<Rightarrow> nat \<Rightarrow> string" where
  "buildSignatureHeaderMulti mac secrets rawBody timestamp =
     join_with (CHR '','') ((''t='' @ show_nat timestamp) #
       map (\<lambda>s. ''v1='' @ computeSignature mac s (show_nat timestamp) rawBody) secrets)"

section \<open>Verifying\<close>

text \<open>\<open>part.split('=', 2)\<close>: the text up to the first \<open>=\<close> and the text up to the second.\<close>

definition key_value :: "string \<Rightarrow> string \<times> string option" where
  "key_value part = (case split_on (CHR ''='') part of
     k # v # _ \<Rightarrow> (k, Some v) | [k] \<Rightarrow> (k, None) | [] \<Rightarrow> ([], None))"

definition parse_part :: "number option \<times> string list \<Rightarrow> string \<Rightarrow> number option \<times> string list" where
  "parse_part acc part =
     (let (k, v) = key_value part; (timestamp, v1s) = acc in
      (if k = ''t'' then Some (case v of None \<Rightarrow> NaN | Some x \<Rightarrow> number_of x) else timestamp,
       if k = ''v1'' then (case v of None \<Rightarrow> v1s | Some x \<Rightarrow> if x = [] then v1s else v1s @ [x]) else v1s))"

definition parseSignatureHeader :: "string \<Rightarrow> (number \<times> string list) option" where
  "parseSignatureHeader header =
     (case foldl parse_part (None, []) (map trim (split_on (CHR '','') header)) of
        (timestamp, v1s) \<Rightarrow> (case timestamp of
            None \<Rightarrow> None
          | Some t \<Rightarrow> if t = NaN \<or> v1s = [] then None else Some (t, v1s)))"

text \<open>\<open>Buffer.from(s, 'hex')\<close> stops at the first pair that is not hexadecimal.\<close>

fun hex_decode :: "string \<Rightarrow> nat list" where
  "hex_decode (a # b # s) = (case (hex_val a, hex_val b) of (Some x, Some y) \<Rightarrow> (16 * x + y) # hex_decode s | _ \<Rightarrow> [])"
| "hex_decode _ = []"

definition safeEqualHex :: "string \<Rightarrow> string \<Rightarrow> bool" where
  "safeEqualHex a b \<longleftrightarrow> length a = length b \<and> hex_decode a = hex_decode b"

datatype verify_result = ValidSignature | Malformed | OutOfTolerance | SignatureMismatch

definition DEFAULT_TOLERANCE_SECONDS :: rat where
  "DEFAULT_TOLERANCE_SECONDS = 5 * 60"

text \<open>The timestamp is printed back (\<open>show\<close>) into the text that is signed.\<close>

definition verifySignature ::
    "(string \<Rightarrow> string \<Rightarrow> string) \<Rightarrow> (rat \<Rightarrow> string) \<Rightarrow> string \<Rightarrow> string \<Rightarrow> string \<Rightarrow> rat option \<Rightarrow> rat \<Rightarrow> verify_result" where
  "verifySignature mac show_number secret rawBody header toleranceSeconds now =
     (case parseSignatureHeader header of
        None \<Rightarrow> Malformed
      | Some (timestamp, v1s) \<Rightarrow>
          let tolerance = (case toleranceSeconds of None \<Rightarrow> DEFAULT_TOLERANCE_SECONDS | Some x \<Rightarrow> x) in
          (case timestamp of
             Finite t \<Rightarrow>
               if tolerance < \<bar>now - t\<bar> then OutOfTolerance
               else let expected = computeSignature mac secret (show_number t) rawBody in
                 if list_ex (safeEqualHex expected) v1s then ValidSignature else SignatureMismatch
           | _ \<Rightarrow> OutOfTolerance))"

section \<open>Reading back what was built\<close>

lemma split_on_nonempty [simp]: "split_on c s \<noteq> []"
  by (cases s) auto

lemma split_on_plain: "c \<notin> set s \<Longrightarrow> split_on c s = [s]"
  by (induction s) auto

lemma split_on_append: "c \<notin> set s \<Longrightarrow> split_on c (s @ c # t) = s # split_on c t"
  by (induction s) auto

lemma split_join: "xs \<noteq> [] \<Longrightarrow> \<forall>x \<in> set xs. c \<notin> set x \<Longrightarrow> split_on c (join_with c xs) = xs"
  by (induction c xs rule: join_with.induct) (auto simp: split_on_plain split_on_append)

lemma trim_plain: "\<forall>c \<in> set s. \<not> is_space c \<Longrightarrow> trim s = s"
proof -
  have l: "\<forall>c \<in> set s. \<not> is_space c \<Longrightarrow> trim_left s = s" for s by (cases s) (auto simp: trim_left_def)
  then show "\<forall>c \<in> set s. \<not> is_space c \<Longrightarrow> trim s = s" by (simp add: trim_def)
qed

lemma digit_plain: "is_digit c \<Longrightarrow> \<not> is_space c \<and> c \<noteq> CHR '','' \<and> c \<noteq> CHR ''='' \<and> c \<noteq> CHR ''+'' \<and> c \<noteq> CHR ''-''"
  by (auto simp: is_digit_def is_space_def)

lemma digit_not_base: "is_digit d \<Longrightarrow> lower_char d \<notin> {CHR ''x'', CHR ''o'', CHR ''b''}"
  by (auto simp: lower_char_def is_upper_def is_digit_def)

text \<open>The decimal digits of an integer below \<open>2 ^ 53\<close> are read as that integer.\<close>

lemma read_decimal_digits:
  assumes "list_all is_digit s" and "s \<noteq> []" and "read_nat s \<le> 2 ^ 53"
  shows "read_decimal s = Finite (of_nat (read_nat s))"
proof -
  have "s \<noteq> ''Infinity''" using assms(1) by (auto simp: is_digit_def)
  moreover have "double (of_int (int (read_nat s))) = of_int (int (read_nat s))"
    using assms(3) by (intro double_of_int) simp
  moreover have "read_nat [] = 0" by (simp add: read_nat_def)
  ultimately show ?thesis
    using assms by (simp add: read_decimal_def Let_def takeWhile_all_digits dropWhile_all_digits)
qed

lemma number_of_show:
  assumes "n \<le> 2 ^ 53"
  shows "number_of (show_nat n) = Finite (of_nat n)"
proof -
  have ds: "list_all is_digit (show_nat n)" by simp
  then have all: "\<forall>c \<in> set (show_nat n). is_digit c" by (simp add: list_all_iff)
  then have "\<forall>c \<in> set (show_nat n). \<not> is_space c" using digit_plain by blast
  then have t: "trim (show_nat n) = show_nat n" by (rule trim_plain)
  have r: "read_decimal (show_nat n) = Finite (of_nat n)"
    using read_decimal_digits [OF ds] assms by (simp add: read_show_nat)
  show ?thesis
  proof (cases "show_nat n" rule: remdups_adj.cases)
    case 1
    then show ?thesis by simp
  next
    case (2 c)
    then show ?thesis using r t by (simp add: number_of_def)
  next
    case (3 c d q)
    then have "is_digit c" "is_digit d" using all by auto
    with digit_plain [of c] digit_not_base [of d] 3 r t show ?thesis by (auto simp: number_of_def)
  qed
qed

text \<open>A digest: not empty, and nothing in it that the header uses as a separator.\<close>

definition plain_digest :: "string \<Rightarrow> bool" where
  "plain_digest d \<longleftrightarrow> d \<noteq> [] \<and> (\<forall>c \<in> set d. hex_val c \<noteq> None)"

lemma hex_plain:
  assumes "hex_val c \<noteq> None"
  shows "\<not> is_space c" "c \<noteq> CHR '',''" "c \<noteq> CHR ''=''"
proof -
  have "\<not> is_space c \<and> c \<noteq> CHR '','' \<and> c \<noteq> CHR ''=''"
  proof (rule ccontr)
    assume "\<not> ?thesis"
    then have "c \<in> {CHR '' '', CHR 0x09, CHR 0x0A, CHR 0x0B, CHR 0x0C, CHR 0x0D, CHR '','', CHR ''=''}"
      by (auto simp: is_space_def)
    with assms show False by (auto simp: hex_val_def is_digit_def lower_char_def is_upper_def)
  qed
  then show "\<not> is_space c" "c \<noteq> CHR '',''" "c \<noteq> CHR ''=''" by blast+
qed

lemma key_value_eq: "CHR ''='' \<notin> set k \<Longrightarrow> CHR ''='' \<notin> set v \<Longrightarrow> key_value (k @ CHR ''='' # v) = (k, Some v)"
  by (simp add: key_value_def split_on_append split_on_plain)

lemma parse_v1: "plain_digest d \<Longrightarrow> parse_part (t, vs) (''v1='' @ d) = (t, vs @ [d])"
proof -
  assume d: "plain_digest d"
  then have "CHR ''='' \<notin> set d" using hex_plain(3) unfolding plain_digest_def by blast
  from key_value_eq [OF _ this, of "''v1''"] d show ?thesis by (simp add: parse_part_def plain_digest_def)
qed

lemma parse_v1s: "\<forall>d \<in> set ds. plain_digest d \<Longrightarrow>
    foldl parse_part (t, vs) (map (\<lambda>d. ''v1='' @ d) ds) = (t, vs @ ds)"
  by (induction ds arbitrary: vs) (simp_all add: parse_v1 [simplified])

lemma parse_t:
  assumes "n \<le> 2 ^ 53"
  shows "parse_part (None, []) (''t='' @ show_nat n) = (Some (Finite (of_nat n)), [])"
proof -
  have "CHR ''='' \<notin> set (show_nat n)" using show_nat_digits digit_plain by blast
  from key_value_eq [OF _ this, of "''t''"] show ?thesis
    using number_of_show [OF assms] by (simp add: parse_part_def)
qed

lemma parse_built:
  assumes "n \<le> 2 ^ 53" and "secrets \<noteq> []" and "\<And>k x. plain_digest (mac k x)"
  shows "parseSignatureHeader (buildSignatureHeaderMulti mac secrets rawBody n) =
    Some (Finite (of_nat n), map (\<lambda>s. computeSignature mac s (show_nat n) rawBody) secrets)"
proof -
  let ?ds = "map (\<lambda>s. computeSignature mac s (show_nat n) rawBody) secrets"
  define parts where "parts = (''t='' @ show_nat n) # map (\<lambda>d. ''v1='' @ d) ?ds"
  have ds: "\<forall>d \<in> set ?ds. plain_digest d" using assms(3) by (simp add: computeSignature_def)
  have num: "\<forall>c \<in> set (show_nat n). \<not> is_space c \<and> c \<noteq> CHR '',''" using show_nat_digits digit_plain by blast
  have dig: "\<forall>d \<in> set ?ds. \<forall>c \<in> set d. \<not> is_space c \<and> c \<noteq> CHR '',''"
    using ds hex_plain(1,2) by (simp add: plain_digest_def)
  have plain: "\<forall>p \<in> set parts. \<forall>c \<in> set p. \<not> is_space c \<and> c \<noteq> CHR '',''"
    using num dig by (auto simp: parts_def is_space_def)
  have "split_on (CHR '','') (join_with (CHR '','') parts) = parts"
    using plain by (intro split_join) (auto simp: parts_def)
  moreover have "map trim parts = parts"
    using plain by (intro map_idI trim_plain) blast
  moreover have "buildSignatureHeaderMulti mac secrets rawBody n = join_with (CHR '','') parts"
    by (simp add: buildSignatureHeaderMulti_def comp_def parts_def)
  moreover have "foldl parse_part (None, []) parts = (Some (Finite (of_nat n)), ?ds)"
    using parse_t [OF assms(1)] parse_v1s [OF ds, of "Some (Finite (of_nat n))" "[]"] by (simp add: parts_def)
  ultimately show ?thesis using assms(2) by (simp add: parseSignatureHeader_def)
qed

section \<open>Properties\<close>

text \<open>C22: A header built with a list of secrets is accepted by a receiver exactly when it is presented within
  the tolerance and some secret of the list gives, for the body the receiver got, the digest the
  receiver computes with its own. So during a rotation a receiver that holds any one of the valid secrets accepts the
  genuine body, and a changed body or an unknown secret is accepted only where the hash collides.\<close>

theorem signature_accepted_iff:
  assumes "n \<le> 2 ^ 53" and "secrets \<noteq> []" and "\<And>k x. plain_digest (mac k x)"
    and "\<And>m. show_number (of_nat m) = show_nat m"
  shows "verifySignature mac show_number secret body (buildSignatureHeaderMulti mac secrets rawBody n) tolerance now = ValidSignature \<longleftrightarrow>
      \<bar>now - of_nat n\<bar> \<le> (case tolerance of None \<Rightarrow> DEFAULT_TOLERANCE_SECONDS | Some x \<Rightarrow> x) \<and>
      (\<exists>s \<in> set secrets. safeEqualHex (mac secret (show_nat n @ ''.'' @ body)) (mac s (show_nat n @ ''.'' @ rawBody)))"
  using assms(4) [of n]
  by (auto simp: verifySignature_def parse_built [OF assms(1-3)] Let_def list_ex_iff computeSignature_def)

text \<open>A digest that depends on the secret and the text, for a concrete instance.\<close>

definition sample_mac :: "string \<Rightarrow> string \<Rightarrow> string" where
  "sample_mac secret text = show_nat (length secret) @ show_nat (length text)"

lemma sample_mac_plain: "plain_digest (sample_mac k x)"
proof -
  have "hex_val c \<noteq> None" if "is_digit c" for c using that by (simp add: hex_val_def)
  then show ?thesis using show_nat_digits by (auto simp: plain_digest_def sample_mac_def)
qed

theorem signature_accepted_iff_witness:
  "verifySignature sample_mac (\<lambda>x. show_nat (nat \<lfloor>x\<rfloor>)) ''whsec_old'' ''{}''
     (buildSignatureHeaderMulti sample_mac [''whsec_b'', ''whsec_old''] ''{}'' 1700000000) None 1700000300 = ValidSignature"
proof -
  have "verifySignature sample_mac (\<lambda>x. show_nat (nat \<lfloor>x\<rfloor>)) ''whsec_old'' ''{}''
     (buildSignatureHeaderMulti sample_mac [''whsec_b'', ''whsec_old''] ''{}'' 1700000000) None 1700000300 = ValidSignature \<longleftrightarrow>
    \<bar>1700000300 - rat_of_nat 1700000000\<bar> \<le> (case None of None \<Rightarrow> DEFAULT_TOLERANCE_SECONDS | Some x \<Rightarrow> x) \<and>
    (\<exists>s \<in> set [''whsec_b'', ''whsec_old'']. safeEqualHex (sample_mac ''whsec_old'' (show_nat 1700000000 @ ''.'' @ ''{}''))
       (sample_mac s (show_nat 1700000000 @ ''.'' @ ''{}'')))"
    by (rule signature_accepted_iff) (simp_all add: sample_mac_plain)
  then show ?thesis by (simp add: DEFAULT_TOLERANCE_SECONDS_def safeEqualHex_def)
qed

end
