(* ===== verification/Webhooks.thy ===== *)
theory Webhooks
  imports Stores Amounts
begin

text \<open>
  \<open>apps/api/src/webhooks\<close>: the fan-out of payment events to the endpoints of a store, the
  reconciliation of lost deliveries, and the endpoints themselves. A delivery row is written for
  every endpoint that subscribes to the event, and a job is put on the queue for it.
\<close>

section \<open>Events\<close>

definition payment_payload_of :: "payment_row \<Rightarrow> payment_payload" where
  "payment_payload_of p =
     \<lparr>pp_id = p_id p, pp_status = status_name (p_status p), pp_amount = formatAmount (p_amount p) (p_currency p),
      pp_currency = p_currency p, pp_reference = p_reference p, pp_metadata = p_metadata p,
      pp_approved = p_paid_at p, pp_refunded = Some (formatAmount (p_refunded p) (p_currency p))\<rparr>"

definition buildWebhookPayload :: "string \<Rightarrow> webhook_event_type \<Rightarrow> payment_row \<Rightarrow> int \<Rightarrow> webhook_payload" where
  "buildWebhookPayload eventId ty payment created =
     \<lparr>wp_id = eventId, wp_type = event_name ty, wp_created = created, wp_payment = payment_payload_of payment\<rparr>"

definition enqueue :: "string \<Rightarrow> unit handler" where
  "enqueue deliveryId = emit (Enqueued deliveryId)"

definition new_delivery :: "string \<Rightarrow> string \<Rightarrow> string \<Rightarrow> int \<Rightarrow> delivery_row" where
  "new_delivery i endpointId eventId now =
     \<lparr>dl_id = i, dl_endpoint = endpointId, dl_event = eventId, dl_status = DPending, dl_attempt = 0, dl_response_status = None,
      dl_response_body = None, dl_error = None, dl_next_attempt = None, dl_created = now\<rparr>"

definition deliver_to :: "string \<Rightarrow> endpoint_row \<Rightarrow> unit handler" where
  "deliver_to eventId endpoint =
     bindM (prefixedId ''whd'') (\<lambda>deliveryId.
     bindM (getsM clock) (\<lambda>now.
     seqM (createM deliveries deliveries_update delivery_clash (new_delivery deliveryId (we_id endpoint) eventId now))
       (enqueue deliveryId)))"

text \<open>An endpoint with no list of events subscribes to all of them.\<close>

definition subscribes :: "string \<Rightarrow> endpoint_row \<Rightarrow> bool" where
  "subscribes ty e \<longleftrightarrow> we_events e = [] \<or> List.member (we_events e) ty"

definition matching :: "payment_row \<Rightarrow> webhook_event_type \<Rightarrow> db \<Rightarrow> endpoint_row list" where
  "matching payment ty s =
     filter (subscribes (event_name ty)) (rows_where (\<lambda>e. we_store e = p_store payment \<and> \<not> we_disabled e) (endpoints s))"

text \<open>The two mirrors of an event, to messaging channels and to connectors, report their own failures.\<close>

definition emit_event :: "payment_row \<Rightarrow> webhook_event_type \<Rightarrow> unit handler" where
  "emit_event payment ty =
     seqM (emit (Notified (p_id payment) (event_name ty)))
     (seqM (emit (Notified (p_id payment) (event_name ty)))
     (bindM (getsM (matching payment ty)) (\<lambda>targets.
      if targets = [] then ret ()
      else bindM (prefixedId ''evt'') (\<lambda>eventId.
           bindM (getsM clock) (\<lambda>now.
           seqM (createM events events_update event_clash
                   \<lparr>ev_id = eventId, ev_store = p_store payment, ev_payment = Some (p_id payment), ev_type = event_name ty,
                    ev_payload = buildWebhookPayload eventId ty payment now\<rparr>)
             (forM targets (deliver_to eventId)))))))"

definition emitForStatus :: "payment_row \<Rightarrow> payment_status \<Rightarrow> unit handler" where
  "emitForStatus payment status =
     (case STATUS_TO_EVENT status of None \<Rightarrow> ret () | Some ty \<Rightarrow> emit_event payment ty)"

definition emitCreated :: "payment_row \<Rightarrow> unit handler" where
  "emitCreated payment = emit_event payment EvCreated"

definition emitRefunded :: "payment_row \<Rightarrow> unit handler" where
  "emitRefunded payment = emit_event payment EvRefunded"

section \<open>Lost deliveries\<close>

definition endpoint_of :: "string \<Rightarrow> db \<Rightarrow> endpoint_row option" where
  "endpoint_of i s = find_by (\<lambda>e. we_id e = i) (endpoints s)"

definition orphaned :: "int \<Rightarrow> int \<Rightarrow> db \<Rightarrow> delivery_row \<Rightarrow> bool" where
  "orphaned now cutoff s d \<longleftrightarrow> dl_status d = DPending \<and>
     (\<exists>e \<in> set_option (endpoint_of (dl_endpoint d) s). \<not> we_disabled e) \<and>
     (case dl_next_attempt d of Some t \<Rightarrow> t < now | None \<Rightarrow> dl_created d < cutoff)"

definition reconcilePending :: "int \<Rightarrow> nat handler" where
  "reconcilePending orphanMs =
     bindM (getsM clock) (\<lambda>now.
     bindM (getsM (\<lambda>s. take 500 (rows_where (orphaned now (now - orphanMs) s) (deliveries s)))) (\<lambda>orphans.
     seqM (forM orphans (\<lambda>d. enqueue (dl_id d))) (ret (length orphans))))"

section \<open>Endpoints\<close>

text \<open>
  \<open>safe\<close> is the verdict of the request-forgery check on a URL (\<open>Ssrf\<close>): the reason
  it refuses, if it does.
\<close>

record create_webhook_dto =
  wd_store :: string
  wd_url :: string
  wd_events :: "string list option"

record update_webhook_dto =
  wu_url :: "string option"
  wu_events :: "string list option"
  wu_disabled :: "bool option"

definition assertUrlSafe :: "(string \<Rightarrow> string option) \<Rightarrow> string \<Rightarrow> unit handler" where
  "assertUrlSafe safe url =
     (case safe url of None \<Rightarrow> ret () | Some reason \<Rightarrow> throw (invalidRequest (''Webhook URL not allowed: '' @ reason)))"

definition generateWebhookSecret :: "string handler" where
  "generateWebhookSecret = bindM randomBase58 (\<lambda>r. ret (''whsec_'' @ r))"

definition loadEndpointForUser :: "auth_user \<Rightarrow> string \<Rightarrow> endpoint_row handler" where
  "loadEndpointForUser u endpointId =
     ownedM endpoints (\<lambda>e. we_id e = endpointId) we_store ''Webhook endpoint not found'' u WebhookWrite"

definition create_endpoint :: "(string \<Rightarrow> string option) \<Rightarrow> auth_user \<Rightarrow> create_webhook_dto \<Rightarrow> endpoint_row handler" where
  "create_endpoint safe u dto =
     bindM (assertStore u (wd_store dto) WebhookWrite) (\<lambda>_.
     bindM (assertUrlSafe safe (wd_url dto)) (\<lambda>_.
     bindM generateWebhookSecret (\<lambda>secret.
     bindM randomBase58 (\<lambda>i.
     (let e = \<lparr>we_id = i, we_store = wd_store dto, we_url = wd_url dto,
               we_events = (case wd_events dto of None \<Rightarrow> [] | Some es \<Rightarrow> es), we_disabled = False,
               we_secrets = [(secret, True, None)]\<rparr> in
      seqM (createM endpoints endpoints_update endpoint_clash e) (ret e))))))"

definition list_endpoints :: "auth_user \<Rightarrow> string \<Rightarrow> endpoint_row list handler" where
  "list_endpoints u storeId =
     bindM (assertStore u storeId WebhookWrite) (\<lambda>_.
     bindM (manyM endpoints (\<lambda>e. we_store e = storeId)) (\<lambda>es. ret (rev es)))"

definition edit_endpoint :: "update_webhook_dto \<Rightarrow> endpoint_row \<Rightarrow> endpoint_row" where
  "edit_endpoint dto e =
     e\<lparr>we_url := (case wu_url dto of None \<Rightarrow> we_url e | Some x \<Rightarrow> x),
       we_events := (case wu_events dto of None \<Rightarrow> we_events e | Some x \<Rightarrow> x),
       we_disabled := (case wu_disabled dto of None \<Rightarrow> we_disabled e | Some x \<Rightarrow> x)\<rparr>"

definition update_endpoint :: "(string \<Rightarrow> string option) \<Rightarrow> auth_user \<Rightarrow> string \<Rightarrow> update_webhook_dto \<Rightarrow> unit handler" where
  "update_endpoint safe u endpointId dto =
     bindM (loadEndpointForUser u endpointId) (\<lambda>_.
     bindM (case wu_url dto of None \<Rightarrow> ret () | Some url \<Rightarrow> if url = [] then ret () else assertUrlSafe safe url) (\<lambda>_.
       updateM endpoints endpoints_update (\<lambda>e. we_id e = endpointId) (edit_endpoint dto)))"

text \<open>Deleting an endpoint takes its deliveries along.\<close>

definition remove_endpoint :: "auth_user \<Rightarrow> string \<Rightarrow> unit handler" where
  "remove_endpoint u endpointId =
     bindM (loadEndpointForUser u endpointId) (\<lambda>_.
     seqM (deleteM endpoints endpoints_update (\<lambda>e. we_id e = endpointId))
       (deleteM deliveries deliveries_update (\<lambda>d. dl_endpoint d = endpointId)))"

definition secret_active :: "string \<times> bool \<times> int option \<Rightarrow> bool" where
  "secret_active x = fst (snd x)"

definition revealSecret :: "auth_user \<Rightarrow> string \<Rightarrow> string handler" where
  "revealSecret u endpointId =
     bindM (loadEndpointForUser u endpointId) (\<lambda>e.
     bindM (someM (paymentNotFound ''No active signing secret'') (find_by secret_active (rev (we_secrets e)))) (\<lambda>x. ret (fst x)))"

definition GRACE_MS :: int where
  "GRACE_MS = 24 * 60 * 60 * 1000"

definition retire_secret :: "int \<Rightarrow> string \<times> bool \<times> int option \<Rightarrow> string \<times> bool \<times> int option" where
  "retire_secret graceUntil x = (case x of (secret, active, expires) \<Rightarrow> if active then (secret, False, Some graceUntil) else x)"

definition rotateSecret :: "auth_user \<Rightarrow> string \<Rightarrow> (string \<times> int) handler" where
  "rotateSecret u endpointId =
     bindM (loadEndpointForUser u endpointId) (\<lambda>_.
     bindM (getsM clock) (\<lambda>now.
     bindM generateWebhookSecret (\<lambda>secret.
     (let graceUntil = now + GRACE_MS in
      seqM (updateM endpoints endpoints_update (\<lambda>e. we_id e = endpointId)
              (\<lambda>e. e\<lparr>we_secrets := map (retire_secret graceUntil) (we_secrets e) @ [(secret, True, None)]\<rparr>))
        (ret (secret, graceUntil))))))"

definition list_deliveries :: "auth_user \<Rightarrow> string \<Rightarrow> nat \<Rightarrow> delivery_row list handler" where
  "list_deliveries u endpointId limit =
     bindM (loadEndpointForUser u endpointId) (\<lambda>_.
     bindM (manyM deliveries (\<lambda>d. dl_endpoint d = endpointId)) (\<lambda>ds. ret (take (min limit 200) (rev ds))))"

definition reset_delivery :: "delivery_row \<Rightarrow> delivery_row" where
  "reset_delivery d = d\<lparr>dl_status := DPending, dl_error := None, dl_next_attempt := None\<rparr>"

definition resend :: "auth_user \<Rightarrow> string \<Rightarrow> unit handler" where
  "resend u deliveryId =
     bindM (findM deliveries (\<lambda>d. dl_id d = deliveryId)) (\<lambda>delivery.
     bindM (someM (paymentNotFound ''Delivery not found'') delivery) (\<lambda>delivery.
     bindM (getsM (endpoint_of (dl_endpoint delivery))) (\<lambda>endpoint.
     bindM (someM P2025 endpoint) (\<lambda>endpoint.
     bindM (assertStore u (we_store endpoint) WebhookWrite) (\<lambda>_.
     seqM (transaction
       (bindM (update_manyM endpoints endpoints_update (\<lambda>e. we_id e = dl_endpoint delivery \<and> we_disabled e)
                (we_disabled_update (\<lambda>_. False))) (\<lambda>_.
         updateM deliveries deliveries_update (\<lambda>d. dl_id d = deliveryId) reset_delivery)))
       (enqueue deliveryId))))))"

definition dead_lettered :: "string \<Rightarrow> db \<Rightarrow> delivery_row list" where
  "dead_lettered storeId s =
     rows_where (\<lambda>d. dl_status d = DFailed \<and> map_option we_store (endpoint_of (dl_endpoint d) s) = Some storeId) (deliveries s)"

definition deadLetteredCount :: "auth_user \<Rightarrow> string \<Rightarrow> nat handler" where
  "deadLetteredCount u storeId =
     bindM (assertStore u storeId WebhookWrite) (\<lambda>_. getsM (\<lambda>s. length (dead_lettered storeId s)))"

definition replayDeadLettered :: "auth_user \<Rightarrow> string \<Rightarrow> (nat \<times> nat) handler" where
  "replayDeadLettered u storeId =
     bindM (assertStore u storeId WebhookWrite) (\<lambda>_.
     bindM (getsM (\<lambda>s. take 1000 (dead_lettered storeId s))) (\<lambda>failed.
     if failed = [] then ret (0, 0)
     else (let endpointIds = map dl_endpoint failed; deliveryIds = map dl_id failed in
       seqM (transaction
         (bindM (update_manyM endpoints endpoints_update (\<lambda>e. we_id e \<in> set endpointIds \<and> we_disabled e)
                  (we_disabled_update (\<lambda>_. False))) (\<lambda>_.
          bindM (update_manyM deliveries deliveries_update (\<lambda>d. dl_id d \<in> set deliveryIds) reset_delivery) (\<lambda>_. ret ()))))
       (seqM (forM deliveryIds enqueue)
       (bindM (getsM (\<lambda>s. length (dead_lettered storeId s))) (\<lambda>remaining. ret (length failed, remaining)))))))"

definition test_payload :: "string \<Rightarrow> int \<Rightarrow> webhook_payload" where
  "test_payload eventId now =
     \<lparr>wp_id = eventId, wp_type = ''payment.completed'', wp_created = now,
      wp_payment = \<lparr>pp_id = ''pay_test_00000000'', pp_status = ''paid'', pp_amount = ''1.00'', pp_currency = USD,
        pp_reference = Some ''test_reference'', pp_metadata = no_metadata, pp_approved = Some now, pp_refunded = None\<rparr>\<rparr>"

definition sendTest :: "auth_user \<Rightarrow> string \<Rightarrow> unit handler" where
  "sendTest u endpointId =
     bindM (loadEndpointForUser u endpointId) (\<lambda>endpoint.
     bindM (prefixedId ''evt'') (\<lambda>eventId.
     bindM (getsM clock) (\<lambda>now.
     seqM (createM events events_update event_clash
             \<lparr>ev_id = eventId, ev_store = we_store endpoint, ev_payment = None, ev_type = ''payment.completed'',
              ev_payload = test_payload eventId now\<rparr>)
       (deliver_to eventId endpoint))))"

section \<open>What the fan-out writes\<close>

text \<open>
  The rows and jobs of a fan-out to a list of endpoints: one pending delivery and one job each,
  under the identifiers that are drawn next.
\<close>

definition drawn_delivery :: "string \<Rightarrow> db \<Rightarrow> nat \<Rightarrow> endpoint_row \<Rightarrow> delivery_row" where
  "drawn_delivery eventId s k e = new_delivery (''whd_'' @ rnd s k) (we_id e) eventId (clock s)"

definition drawn_deliveries :: "string \<Rightarrow> db \<Rightarrow> nat \<Rightarrow> endpoint_row list \<Rightarrow> delivery_row list" where
  "drawn_deliveries eventId s k es = map (\<lambda>(i, e). drawn_delivery eventId s (k + i) e) (zip [0..<length es] es)"

lemma drawn_deliveries_Nil [simp]: "drawn_deliveries eventId s k [] = []"
  by (simp add: drawn_deliveries_def)

lemma drawn_deliveries_Cons [simp]: "drawn_deliveries eventId s k (e # es) =
    drawn_delivery eventId s k e # drawn_deliveries eventId s (Suc k) es"
  by (simp add: drawn_deliveries_def upt_conv_Cons map_Suc_upt [symmetric] zip_map1 comp_def split_def del: upt_Suc)

lemma drawn_deliveries_cong: "rnd t = rnd s \<Longrightarrow> clock t = clock s \<Longrightarrow> drawn_deliveries eventId t k es = drawn_deliveries eventId s k es"
  by (simp add: drawn_deliveries_def drawn_delivery_def)

lemma drawn_deliveries_fields [simp]:
  "length (drawn_deliveries eventId s k es) = length es"
  "map dl_endpoint (drawn_deliveries eventId s k es) = map we_id es"
  "map dl_status (drawn_deliveries eventId s k es) = replicate (length es) DPending"
  "map dl_event (drawn_deliveries eventId s k es) = replicate (length es) eventId"
  by (induction es arbitrary: k) (simp_all add: drawn_delivery_def new_delivery_def)

definition fresh_deliveries :: "db \<Rightarrow> bool" where
  "fresh_deliveries s \<longleftrightarrow> inj (rnd s) \<and> (\<forall>d \<in> set (deliveries s). \<forall>k \<ge> draws s. dl_id d \<noteq> ''whd_'' @ rnd s k)"

lemma deliver_to_result:
  assumes "fresh_deliveries s"
  shows "deliver_to eventId e s = (Inr (), s\<lparr>draws := Suc (draws s),
      deliveries := deliveries s @ [drawn_delivery eventId s (draws s) e],
      outbox := outbox s @ [Enqueued (dl_id (drawn_delivery eventId s (draws s) e))]\<rparr>)"
    and "fresh_deliveries (snd (deliver_to eventId e s))"
proof -
  have n: "\<not> exists_by (delivery_clash (drawn_delivery eventId s (draws s) e)) (deliveries s)"
    using assms by (force simp: fresh_deliveries_def exists_by_iff delivery_clash_def drawn_delivery_def new_delivery_def)
  have i: "dl_id (drawn_delivery eventId s (draws s) e) = ''whd_'' @ rnd s (draws s)"
    by (simp add: drawn_delivery_def new_delivery_def)
  show r: "deliver_to eventId e s = (Inr (), s\<lparr>draws := Suc (draws s),
      deliveries := deliveries s @ [drawn_delivery eventId s (draws s) e],
      outbox := outbox s @ [Enqueued (dl_id (drawn_delivery eventId s (draws s) e))]\<rparr>)"
    using n by (simp add: deliver_to_def op_simps enqueue_def drawn_delivery_def new_delivery_def)
  have "rnd s (draws s) \<noteq> rnd s k" if "Suc (draws s) \<le> k" for k
    using assms that by (auto simp: fresh_deliveries_def dest: injD)
  then show "fresh_deliveries (snd (deliver_to eventId e s))"
    using assms by (auto simp: r fresh_deliveries_def i)
qed

lemma forM_deliver:
  assumes "fresh_deliveries s"
  shows "\<exists>t. forM es (deliver_to eventId) s = (Inr (), t) \<and> fresh_deliveries t \<and>
     t = s\<lparr>draws := draws s + length es, deliveries := deliveries s @ drawn_deliveries eventId s (draws s) es,
        outbox := outbox s @ map (\<lambda>d. Enqueued (dl_id d)) (drawn_deliveries eventId s (draws s) es)\<rparr>"
  using assms
proof (induction es arbitrary: s)
  case Nil
  then show ?case by (simp add: ret_def)
next
  case (Cons e es)
  note r = deliver_to_result [OF Cons.prems, where eventId = eventId and e = e]
  define u where "u = snd (deliver_to eventId e s)"
  from r have u: "deliver_to eventId e s = (Inr (), u)" "fresh_deliveries u"
    and f: "draws u = Suc (draws s)" "deliveries u = deliveries s @ [drawn_delivery eventId s (draws s) e]"
      "outbox u = outbox s @ [Enqueued (dl_id (drawn_delivery eventId s (draws s) e))]" "rnd u = rnd s" "clock u = clock s"
    by (simp_all add: u_def)
  have e: "u = s\<lparr>draws := draws u, deliveries := deliveries u, outbox := outbox u\<rparr>" using r by (simp add: u_def)
  from Cons.IH [OF u(2)] obtain t where t: "forM es (deliver_to eventId) u = (Inr (), t)" "fresh_deliveries t"
    "t = u\<lparr>draws := draws u + length es, deliveries := deliveries u @ drawn_deliveries eventId u (draws u) es,
        outbox := outbox u @ map (\<lambda>d. Enqueued (dl_id d)) (drawn_deliveries eventId u (draws u) es)\<rparr>" by blast
  have "t = s\<lparr>draws := draws s + length (e # es), deliveries := deliveries s @ drawn_deliveries eventId s (draws s) (e # es),
        outbox := outbox s @ map (\<lambda>d. Enqueued (dl_id d)) (drawn_deliveries eventId s (draws s) (e # es))\<rparr>"
    unfolding t(3) using f drawn_deliveries_cong [OF f(4,5)] by (subst e) simp
  then show ?case using u(1) t(1,2) by (simp add: op_simps bindM_result [where m = "deliver_to eventId e"])
qed

section \<open>Properties\<close>

text \<open>An event of a payment reaches exactly the enabled endpoints of its store that subscribe to it: where
  there is one, a single event row is written, and for every such endpoint one pending delivery
  of that event with a job on the queue for it; nothing else of the database changes.\<close>

theorem event_fan_out:
  assumes "fresh_deliveries s" and "\<forall>v \<in> set (events s). ev_id v \<noteq> ''evt_'' @ rnd s (draws s)"
    and "matching payment ty s \<noteq> []"
  shows "\<exists>t ds. emit_event payment ty s = (Inr (), t) \<and>
    map dl_endpoint ds = map we_id (matching payment ty s) \<and> map dl_status ds = replicate (length ds) DPending \<and>
    (\<exists>v. ev_type v = event_name ty \<and> ev_payment v = Some (p_id payment) \<and> set (map dl_event ds) = {ev_id v} \<and>
      t = s\<lparr>events := events s @ [v], deliveries := deliveries s @ ds, draws := draws s + 1 + length ds,
        outbox := outbox s @ [Notified (p_id payment) (event_name ty), Notified (p_id payment) (event_name ty)] @
          map (\<lambda>d. Enqueued (dl_id d)) ds\<rparr>)"
proof -
  define v where "v = \<lparr>ev_id = ''evt_'' @ rnd s (draws s), ev_store = p_store payment, ev_payment = Some (p_id payment),
     ev_type = event_name ty, ev_payload = buildWebhookPayload (''evt_'' @ rnd s (draws s)) ty payment (clock s)\<rparr>"
  define u where "u = s\<lparr>outbox := outbox s @ [Notified (p_id payment) (event_name ty), Notified (p_id payment) (event_name ty)],
     draws := Suc (draws s), events := events s @ [v]\<rparr>"
  have m: "matching payment ty (s\<lparr>outbox := os\<rparr>) = matching payment ty s" for os by (simp add: matching_def)
  have "\<not> exists_by (event_clash v) (events s)"
    using assms(2) by (auto simp: exists_by_iff event_clash_def v_def)
  then have e: "emit_event payment ty s = forM (matching payment ty s) (deliver_to (ev_id v)) u"
    using assms(3) by (simp add: emit_event_def op_simps m v_def u_def)
  have "fresh_deliveries u" using assms(1) by (simp add: fresh_deliveries_def u_def)
  from forM_deliver [OF this, of "matching payment ty s" "ev_id v"] obtain t where
    t: "forM (matching payment ty s) (deliver_to (ev_id v)) u = (Inr (), t)"
    "t = u\<lparr>draws := draws u + length (matching payment ty s),
        deliveries := deliveries u @ drawn_deliveries (ev_id v) u (draws u) (matching payment ty s),
        outbox := outbox u @ map (\<lambda>d. Enqueued (dl_id d)) (drawn_deliveries (ev_id v) u (draws u) (matching payment ty s))\<rparr>"
    by blast
  define ds where "ds = drawn_deliveries (ev_id v) u (draws u) (matching payment ty s)"
  have l: "length ds = length (matching payment ty s)" by (simp add: ds_def)
  have "map dl_endpoint ds = map we_id (matching payment ty s)" "map dl_status ds = replicate (length ds) DPending"
    "map dl_event ds = replicate (length ds) (ev_id v)"
    by (simp_all only: l) (simp_all add: ds_def)
  moreover have "t = s\<lparr>events := events s @ [v], deliveries := deliveries s @ ds, draws := draws s + 1 + length ds,
        outbox := outbox s @ [Notified (p_id payment) (event_name ty), Notified (p_id payment) (event_name ty)] @
          map (\<lambda>d. Enqueued (dl_id d)) ds\<rparr>"
    unfolding t(2) ds_def [symmetric] by (simp add: u_def l)
  moreover have "length ds \<noteq> 0" using l assms(3) by simp
  ultimately show ?thesis using e t(1)
    by (intro exI [of _ t] exI [of _ ds] exI [of _ v] conjI) (simp_all add: v_def set_replicate_conv_if del: set_map)
qed

text \<open>A store with an endpoint for completed payments, one for another event and a disabled one.\<close>

definition sample_endpoint :: "string \<Rightarrow> string list \<Rightarrow> bool \<Rightarrow> endpoint_row" where
  "sample_endpoint i evs off = \<lparr>we_id = i, we_store = ''store_1'', we_url = ''https://shop/hook'', we_events = evs,
     we_disabled = off, we_secrets = [(''whsec_a'', True, None)]\<rparr>"

definition webhook_db :: db where
  "webhook_db = empty_db\<lparr>endpoints := [sample_endpoint ''ep_1'' [''payment.completed''] False,
     sample_endpoint ''ep_2'' [''payment.refunded''] False, sample_endpoint ''ep_3'' [] True], stores := [sample_store]\<rparr>"

lemma inj_show_nat: "inj show_nat"
  by (rule injI) (metis read_show_nat)

theorem event_fan_out_witness:
  "\<exists>t. emit_event (sample_payment 5 USD) EvCompleted webhook_db = (Inr (), t) \<and>
     map dl_endpoint (deliveries t) = [''ep_1''] \<and> map ev_type (events t) = [''payment.completed''] \<and>
     map dl_status (deliveries t) = [DPending]"
proof -
  have m: "matching (sample_payment 5 USD) EvCompleted webhook_db = [sample_endpoint ''ep_1'' [''payment.completed''] False]"
    by (simp add: matching_def webhook_db_def sample_endpoint_def sample_payment_def subscribes_def empty_db_def)
  have "fresh_deliveries webhook_db"
    by (simp add: fresh_deliveries_def webhook_db_def empty_db_def inj_show_nat)
  moreover have "\<forall>v \<in> set (events webhook_db). ev_id v \<noteq> ''evt_'' @ rnd webhook_db (draws webhook_db)"
    by (simp add: webhook_db_def empty_db_def)
  moreover have "matching (sample_payment 5 USD) EvCompleted webhook_db \<noteq> []" by (simp add: m)
  moreover have "deliveries webhook_db = []" "events webhook_db = []" by (simp_all add: webhook_db_def empty_db_def)
  ultimately show ?thesis
    using event_fan_out [of webhook_db "sample_payment 5 USD" EvCompleted] m by (auto simp: sample_endpoint_def)
qed

end
