(* ===== verification/Delivery.thy ===== *)
theory Delivery
  imports Webhooks Hmac
begin

text \<open>
  \<open>apps/api/src/worker/webhook-delivery.processor.ts\<close> with the retry policy of
  \<open>queue.constants.ts\<close>: one attempt to deliver an event, the outcome it records, and the
  job that makes up to six attempts. What the network does is an argument: the verdict on the
  target, and what the request returns or fails with.
\<close>

section \<open>An attempt\<close>

definition WEBHOOK_MAX_ATTEMPTS :: nat where
  "WEBHOOK_MAX_ATTEMPTS = 6"

definition WEBHOOK_BACKOFF_MS :: int where
  "WEBHOOK_BACKOFF_MS = 30000"

definition ENDPOINT_FAILURE_DISABLE_THRESHOLD :: nat where
  "ENDPOINT_FAILURE_DISABLE_THRESHOLD = 20"

definition MAX_RESPONSE_BODY :: nat where
  "MAX_RESPONSE_BODY = 2000"

text \<open>
  \<open>nw_fetch url signature payload\<close>: the message of the error that \<open>fetch\<close> throws, or
  the response's status and text.
\<close>

record network =
  nw_safe :: "string \<Rightarrow> string option"
  nw_mac :: "string \<Rightarrow> string \<Rightarrow> string"
  nw_json :: "webhook_payload \<Rightarrow> string"
  nw_fetch :: "string \<Rightarrow> string \<Rightarrow> string \<Rightarrow> string + (int \<times> string)"

definition valid_secrets :: "int \<Rightarrow> endpoint_row \<Rightarrow> string list" where
  "valid_secrets now e =
     map fst (rev (filter (\<lambda>(secret, active, expires). active \<or> (\<exists>x \<in> set_option expires. now < x)) (we_secrets e)))"

text \<open>Failures since the last success, among the newest 60 deliveries; pending ones are skipped.\<close>

fun consecutiveFailures :: "delivery_status list \<Rightarrow> nat" where
  "consecutiveFailures [] = 0"
| "consecutiveFailures (d # ds) =
     (if d = DSucceeded then 0 else (if d = DFailed then 1 else 0) + consecutiveFailures ds)"

definition recent_statuses :: "string \<Rightarrow> db \<Rightarrow> delivery_status list" where
  "recent_statuses endpointId s =
     map dl_status (take (ENDPOINT_FAILURE_DISABLE_THRESHOLD * 3)
       (rev (rows_where (\<lambda>d. dl_endpoint d = endpointId) (deliveries s))))"

definition store_owner_emails :: "string \<Rightarrow> db \<Rightarrow> string list" where
  "store_owner_emails storeId s =
     map om_email (rows_where (\<lambda>m. om_owner m \<and> exists_by (\<lambda>x. s_id x = storeId \<and> s_org x = om_org m) (stores s)) (org_members s))"

definition maybeDisableEndpoint :: "string \<Rightarrow> unit handler" where
  "maybeDisableEndpoint endpointId =
     bindM (getsM (recent_statuses endpointId)) (\<lambda>recent.
     if consecutiveFailures recent < ENDPOINT_FAILURE_DISABLE_THRESHOLD then ret ()
     else bindM (getsM (endpoint_of endpointId)) (\<lambda>endpoint.
       case endpoint of
         None \<Rightarrow> ret ()
       | Some e \<Rightarrow>
         if we_disabled e then ret ()
         else bindM (updateM endpoints endpoints_update (\<lambda>x. we_id x = endpointId) (we_disabled_update (\<lambda>_. True))) (\<lambda>_.
           seqM (emit (Audited ''webhook.endpoint.auto_disabled'' endpointId))
           (bindM (getsM (store_owner_emails (we_store e))) (\<lambda>owners.
             forM owners (\<lambda>email. emit (EndpointDisabled email (we_url e))))))))"

definition record_attempt ::
    "delivery_status \<Rightarrow> nat \<Rightarrow> int option \<Rightarrow> string option \<Rightarrow> string option \<Rightarrow> int option \<Rightarrow> delivery_row \<Rightarrow> delivery_row" where
  "record_attempt st attempt status body err next d =
     d\<lparr>dl_status := st, dl_attempt := attempt, dl_response_status := status, dl_response_body := body,
       dl_error := err, dl_next_attempt := next\<rparr>"

definition set_delivery :: "string \<Rightarrow> (delivery_row \<Rightarrow> delivery_row) \<Rightarrow> unit handler" where
  "set_delivery deliveryId f = updateM deliveries deliveries_update (\<lambda>d. dl_id d = deliveryId) f"

definition markPermanentFailure ::
    "string \<Rightarrow> string \<Rightarrow> nat \<Rightarrow> int option \<Rightarrow> string option \<Rightarrow> string option \<Rightarrow> unit handler" where
  "markPermanentFailure deliveryId endpointId attemptsMade status err body =
     seqM (set_delivery deliveryId (record_attempt DFailed (attemptsMade + 1) status body err None))
       (maybeDisableEndpoint endpointId)"

definition show_status :: "int \<Rightarrow> string" where
  "show_status n = (if n < 0 then CHR ''-'' # show_nat (nat (- n)) else show_nat (nat n))"

text \<open>What the request left: the status, the first 2000 characters of the body, the error.\<close>

definition response_of :: "string + (int \<times> string) \<Rightarrow> int option \<times> string option \<times> string option" where
  "response_of r = (case r of
       Inl msg \<Rightarrow> (None, None, Some msg)
     | Inr (status, text) \<Rightarrow>
         (Some status, (let b = take MAX_RESPONSE_BODY text in if b = [] then None else Some b),
          if 200 \<le> status \<and> status \<le> 299 then None else Some (''HTTP '' @ show_status status)))"

definition delivered :: "int option \<Rightarrow> bool" where
  "delivered status \<longleftrightarrow> (\<exists>n \<in> set_option status. 200 \<le> n \<and> n < 300)"

definition conclude :: "string \<Rightarrow> string \<Rightarrow> nat \<Rightarrow> int option \<times> string option \<times> string option \<Rightarrow> unit handler" where
  "conclude deliveryId endpointId attemptsMade response =
     (case response of (status, body, err) \<Rightarrow>
       if delivered status
       then set_delivery deliveryId (record_attempt DSucceeded (attemptsMade + 1) status body None None)
       else if WEBHOOK_MAX_ATTEMPTS \<le> attemptsMade + 1
       then markPermanentFailure deliveryId endpointId attemptsMade status err body
       else bindM (getsM clock) (\<lambda>now.
         seqM (set_delivery deliveryId
                 (record_attempt DPending (attemptsMade + 1) status body err
                   (Some (now + WEBHOOK_BACKOFF_MS * 2 ^ attemptsMade))))
           (throw (JsError (''webhook delivery failed: '' @ (case err of None \<Rightarrow> ''null'' | Some m \<Rightarrow> m))))))"

definition process :: "network \<Rightarrow> string \<Rightarrow> nat \<Rightarrow> unit handler" where
  "process nw deliveryId attemptsMade =
     bindM (findM deliveries (\<lambda>d. dl_id d = deliveryId)) (\<lambda>delivery.
     case delivery of
       None \<Rightarrow> ret ()
     | Some d \<Rightarrow>
       if dl_status d = DSucceeded then ret ()
       else bindM (getsM (endpoint_of (dl_endpoint d))) (\<lambda>endpoint.
         bindM (someM P2025 endpoint) (\<lambda>e.
         if we_disabled e
         then set_delivery deliveryId (\<lambda>d. d\<lparr>dl_status := DFailed, dl_error := Some ''endpoint disabled''\<rparr>)
         else bindM (getsM clock) (\<lambda>now.
           (let secrets = valid_secrets now e in
            if secrets = [] then markPermanentFailure deliveryId (we_id e) attemptsMade None (Some ''no active signing secret'') None
            else case nw_safe nw (we_url e) of
              Some reason \<Rightarrow> markPermanentFailure deliveryId (we_id e) attemptsMade None (Some (''blocked target: '' @ reason)) None
            | None \<Rightarrow>
              bindM (findM events (\<lambda>v. ev_id v = dl_event d)) (\<lambda>event.
              bindM (someM P2025 event) (\<lambda>v.
              (let rawBody = nw_json nw (ev_payload v);
                   signature = buildSignatureHeaderMulti (nw_mac nw) secrets rawBody (nat (now div 1000)) in
               conclude deliveryId (we_id e) attemptsMade (response_of (nw_fetch nw (we_url e) signature rawBody))))))))))"

section \<open>A job\<close>

text \<open>
  The queue runs an attempt again while it throws, up to six attempts in all. Each attempt meets
  its own network, after whatever other requests did to the database in the meantime.
\<close>

fun run_job :: "(network \<times> (db \<Rightarrow> db)) list \<Rightarrow> string \<Rightarrow> nat \<Rightarrow> db \<Rightarrow> db" where
  "run_job [] deliveryId attemptsMade s = s"
| "run_job ((nw, others) # ws) deliveryId attemptsMade s =
     (case process nw deliveryId attemptsMade (others s) of
        (Inr _, t) \<Rightarrow> t
      | (Inl _, t) \<Rightarrow> if attemptsMade + 1 < WEBHOOK_MAX_ATTEMPTS then run_job ws deliveryId (attemptsMade + 1) t else t)"

section \<open>Outcomes\<close>

definition status_of :: "string \<Rightarrow> db \<Rightarrow> delivery_status option" where
  "status_of i s = map_option dl_status (find_by (\<lambda>d. dl_id d = i) (deliveries s))"

lemma set_delivery_result:
  assumes "status_of i s \<noteq> None"
  shows "set_delivery i f s = (Inr (), s\<lparr>deliveries := update_where (\<lambda>d. dl_id d = i) f (deliveries s)\<rparr>)"
proof -
  have "exists_by (\<lambda>d. dl_id d = i) (deliveries s)" using assms by (auto simp: status_of_def exists_by_find)
  then show ?thesis by (simp add: set_delivery_def updateM_def)
qed

lemma bindM_set_delivery: "status_of i s \<noteq> None \<Longrightarrow> bindM (set_delivery i f) g s =
    g () (s\<lparr>deliveries := update_where (\<lambda>d. dl_id d = i) f (deliveries s)\<rparr>)"
  by (simp add: bindM_def set_delivery_result)

lemma status_of_update:
  assumes "status_of i s \<noteq> None" and "\<And>d. dl_id (f d) = dl_id d" and "\<And>d. dl_status (f d) = st"
  shows "status_of i (s\<lparr>deliveries := update_where (\<lambda>d. dl_id d = i) f (deliveries s)\<rparr>) = Some st"
proof -
  from assms(1) obtain d where d: "find_by (\<lambda>d. dl_id d = i) (deliveries s) = Some d" by (auto simp: status_of_def)
  from find_by_SomeD [OF d] have "dl_id d = i" by simp
  then show ?thesis using d assms(2,3) by (simp add: status_of_def find_by_update_where)
qed

lemma record_attempt_fields [simp]:
  "dl_id (record_attempt st a x b e n d) = dl_id d" "dl_status (record_attempt st a x b e n d) = st"
  "dl_endpoint (record_attempt st a x b e n d) = dl_endpoint d" "dl_event (record_attempt st a x b e n d) = dl_event d"
  by (simp_all add: record_attempt_def)

lemma maybeDisable_ok: "\<exists>t. maybeDisableEndpoint i s = (Inr (), t) \<and> deliveries t = deliveries s"
  by (auto simp: maybeDisableEndpoint_def op_simps updateM_def endpoint_of_def exists_by_find forM_emit split: option.split)

text \<open>
  Every outcome of an attempt at a delivery that has not succeeded: it ends, succeeded or failed,
  or it throws and stays pending, and it throws only while an attempt is left.
\<close>

lemma markPermanentFailure_result:
  assumes "status_of i s \<noteq> None"
  shows "\<exists>t. markPermanentFailure i e k status err body s = (Inr (), t) \<and> status_of i t = Some DFailed"
proof -
  let ?f = "record_attempt DFailed (k + 1) status body err None"
  let ?u = "s\<lparr>deliveries := update_where (\<lambda>d. dl_id d = i) ?f (deliveries s)\<rparr>"
  obtain t where "maybeDisableEndpoint e ?u = (Inr (), t)" "deliveries t = deliveries ?u"
    using maybeDisable_ok by blast
  moreover have "status_of i ?u = Some DFailed" using assms by (rule status_of_update) simp_all
  ultimately show ?thesis
    by (intro exI [of _ t]) (simp add: markPermanentFailure_def op_simps bindM_set_delivery [OF assms] status_of_def)
qed

definition well_linked :: "string \<Rightarrow> db \<Rightarrow> bool" where
  "well_linked i s \<longleftrightarrow> (\<exists>d e v. find_by (\<lambda>d. dl_id d = i) (deliveries s) = Some d \<and>
     endpoint_of (dl_endpoint d) s = Some e \<and> find_by (\<lambda>v. ev_id v = dl_event d) (events s) = Some v)"

lemma well_linked_update:
  assumes "well_linked i s" and "\<And>d. dl_id (f d) = dl_id d" "\<And>d. dl_endpoint (f d) = dl_endpoint d" "\<And>d. dl_event (f d) = dl_event d"
  shows "well_linked i (s\<lparr>deliveries := update_where (\<lambda>d. dl_id d = i) f (deliveries s)\<rparr>)"
proof -
  from assms(1) obtain d e v where d: "find_by (\<lambda>d. dl_id d = i) (deliveries s) = Some d"
    "endpoint_of (dl_endpoint d) s = Some e" "find_by (\<lambda>v. ev_id v = dl_event d) (events s) = Some v"
    by (auto simp: well_linked_def)
  from find_by_SomeD [OF d(1)] have "dl_id d = i" by simp
  with d show ?thesis using assms(2-4) by (simp add: well_linked_def find_by_update_where endpoint_of_def)
qed

lemma well_linked_status: "well_linked i s \<Longrightarrow> status_of i s \<noteq> None"
  by (auto simp: well_linked_def status_of_def)

definition attempt_outcome :: "string \<Rightarrow> nat \<Rightarrow> (exn + unit) \<times> db \<Rightarrow> bool" where
  "attempt_outcome i k out \<longleftrightarrow> (case out of
       (Inr _, t) \<Rightarrow> status_of i t \<in> {Some DSucceeded, Some DFailed}
     | (Inl _, t) \<Rightarrow> status_of i t = Some DPending \<and> k + 1 < WEBHOOK_MAX_ATTEMPTS \<and> well_linked i t)"

lemma conclude_outcome:
  assumes "well_linked i s"
  shows "attempt_outcome i k (conclude i e k response s)"
proof -
  note some = well_linked_status [OF assms]
  obtain status body err where r: "response = (status, body, err)" by (cases response)
  have u: "status_of i (s\<lparr>deliveries := update_where (\<lambda>d. dl_id d = i) (record_attempt st a x b er n) (deliveries s)\<rparr>) = Some st"
    for st a x b er n using some by (rule status_of_update) simp_all
  have wl: "well_linked i (s\<lparr>deliveries := update_where (\<lambda>d. dl_id d = i) (record_attempt st a x b er n) (deliveries s)\<rparr>)"
    for st a x b er n using assms by (rule well_linked_update) simp_all
  show ?thesis
  proof (cases "\<not> delivered status \<and> WEBHOOK_MAX_ATTEMPTS \<le> k + 1")
    case True
    with markPermanentFailure_result [OF some, of e k status err body] r show ?thesis
      by (auto simp: attempt_outcome_def conclude_def)
  next
    case False
    with r u wl show ?thesis
      by (auto simp: attempt_outcome_def conclude_def op_simps set_delivery_result [OF some] bindM_set_delivery [OF some])
  qed
qed

lemma process_outcome:
  assumes "well_linked i s"
  shows "attempt_outcome i k (process nw i k s)"
proof -
  from assms obtain d e v where l: "find_by (\<lambda>d. dl_id d = i) (deliveries s) = Some d"
    "endpoint_of (dl_endpoint d) s = Some e" "find_by (\<lambda>v. ev_id v = dl_event d) (events s) = Some v"
    by (auto simp: well_linked_def)
  then have st: "status_of i s = Some (dl_status d)" by (simp add: status_of_def)
  then have some: "status_of i s \<noteq> None" by simp
  have pf: "attempt_outcome i k (markPermanentFailure i x k None err None s)" for x err
    using markPermanentFailure_result [OF some, of x k None err None] by (auto simp: attempt_outcome_def)
  have dis: "attempt_outcome i k (set_delivery i (\<lambda>d. d\<lparr>dl_status := DFailed, dl_error := er\<rparr>) s)" for er
    using status_of_update [OF some, of "\<lambda>d. d\<lparr>dl_status := DFailed, dl_error := er\<rparr>" DFailed]
    by (simp add: attempt_outcome_def set_delivery_result [OF some])
  show ?thesis
  proof (cases "dl_status d = DSucceeded")
    case True
    then show ?thesis using l st by (simp add: process_def op_simps attempt_outcome_def)
  next
    case False
    then show ?thesis using l pf dis conclude_outcome [OF assms]
      by (simp add: process_def op_simps Let_def split: option.split)
  qed
qed

section \<open>Properties\<close>

text \<open>C21: Whatever the network answers and whatever else happens meanwhile, as long as the delivery, its endpoint
  and its event are there, six attempts settle a delivery: it ends succeeded or failed, never
  pending.\<close>

theorem delivery_settles:
  assumes "length ws = 6" and "well_linked i s" and "\<And>nw f u. (nw, f) \<in> set ws \<Longrightarrow> well_linked i u \<Longrightarrow> well_linked i (f u)"
  shows "status_of i (run_job ws i 0 s) \<in> {Some DSucceeded, Some DFailed}"
proof -
  have "status_of i (run_job us i k u) \<in> {Some DSucceeded, Some DFailed}"
    if "k + length us = WEBHOOK_MAX_ATTEMPTS" and "us \<noteq> []" and "well_linked i u"
      and "\<And>nw f u. (nw, f) \<in> set us \<Longrightarrow> well_linked i u \<Longrightarrow> well_linked i (f u)" for us k u
    using that
  proof (induction us arbitrary: k u)
    case (Cons w us)
    obtain nw f where w: "w = (nw, f)" by (cases w)
    with Cons.prems have "well_linked i (f u)" by auto
    then have o: "attempt_outcome i k (process nw i k (f u))" by (rule process_outcome)
    show ?case
    proof (cases "process nw i k (f u)")
      case (Pair r t)
      show ?thesis
      proof (cases r)
        case (Inr a)
        then show ?thesis using o Pair w by (simp add: attempt_outcome_def)
      next
        case (Inl x)
        with o Pair have k: "k + 1 < WEBHOOK_MAX_ATTEMPTS" and wl: "well_linked i t" by (simp_all add: attempt_outcome_def)
        with Cons.prems(1) have "us \<noteq> []" by auto
        then have "status_of i (run_job us i (k + 1) t) \<in> {Some DSucceeded, Some DFailed}"
          using Cons.prems wl by (intro Cons.IH) auto
        then show ?thesis using k Pair Inl w by simp
      qed
    qed
  qed simp
  moreover from assms(1) have "ws \<noteq> []" by auto
  ultimately show ?thesis using assms by (simp add: WEBHOOK_MAX_ATTEMPTS_def)
qed

text \<open>An endpoint is switched off exactly when, among its newest sixty deliveries, at least twenty failed for
  good since the last one that succeeded (or it was off already); the deliveries still pending do
  not count, and the owners are told once, when it is switched off.\<close>

theorem endpoint_disabled_iff:
  assumes "endpoint_of i s = Some e"
  shows "\<exists>t e'. maybeDisableEndpoint i s = (Inr (), t) \<and> endpoint_of i t = Some e' \<and>
    (we_disabled e' \<longleftrightarrow> we_disabled e \<or>
       20 \<le> length (filter (\<lambda>d. d = DFailed) (takeWhile (\<lambda>d. d \<noteq> DSucceeded) (recent_statuses i s)))) \<and>
    outbox t = outbox s @ (if we_disabled e' = we_disabled e then []
      else Audited ''webhook.endpoint.auto_disabled'' i # map (\<lambda>m. EndpointDisabled m (we_url e)) (store_owner_emails (we_store e) s))"
proof -
  have c: "consecutiveFailures ds = length (filter (\<lambda>d. d = DFailed) (takeWhile (\<lambda>d. d \<noteq> DSucceeded) ds))" for ds
    by (induction ds) auto
  have x: "exists_by (\<lambda>x. we_id x = i) (endpoints s)" using assms by (simp add: endpoint_of_def exists_by_find)
  let ?t = "s\<lparr>endpoints := update_where (\<lambda>x. we_id x = i) (we_disabled_update (\<lambda>_. True)) (endpoints s)\<rparr>"
  have e: "endpoint_of i ?t = Some (e\<lparr>we_disabled := True\<rparr>)"
    using assms find_by_SomeD [of "\<lambda>x. we_id x = i" "endpoints s" e] by (simp add: endpoint_of_def find_by_update_where)
  have o: "store_owner_emails st (s\<lparr>endpoints := es, outbox := os\<rparr>) = store_owner_emails st s" for st es os
    by (simp add: store_owner_emails_def)
  show ?thesis
    using assms e x
    by (auto simp: maybeDisableEndpoint_def op_simps c forM_emit o ENDPOINT_FAILURE_DISABLE_THRESHOLD_def not_less endpoint_of_def)
qed

text \<open>A second job for a delivery that has failed for good takes it up again: one more failed attempt puts
  it back to pending with a new retry time, although it was counted as a permanent failure.\<close>

theorem failed_delivery_reopened:
  assumes "well_linked i s" and "status_of i s = Some DFailed"
    and "\<And>e. e \<in> set (endpoints s) \<Longrightarrow> \<not> we_disabled e \<and> valid_secrets (clock s) e \<noteq> [] \<and> nw_safe nw (we_url e) = None"
    and "\<And>url sg b. \<not> delivered (fst (response_of (nw_fetch nw url sg b)))"
  shows "status_of i (snd (process nw i 0 s)) = Some DPending"
proof -
  from assms(1) obtain d e v where l: "find_by (\<lambda>d. dl_id d = i) (deliveries s) = Some d"
    "endpoint_of (dl_endpoint d) s = Some e" "find_by (\<lambda>v. ev_id v = dl_event d) (events s) = Some v"
    by (auto simp: well_linked_def)
  from l(2) have "e \<in> set (endpoints s)" using find_by_SomeD unfolding endpoint_of_def by fast
  with assms(3) have e: "\<not> we_disabled e" "valid_secrets (clock s) e \<noteq> []" "nw_safe nw (we_url e) = None" by auto
  from assms(2) l(1) have d: "dl_status d = DFailed" by (simp add: status_of_def)
  have c: "status_of i (snd (conclude i x 0 (response_of (nw_fetch nw url sg b)) s)) = Some DPending" for x url sg b
  proof -
    obtain status body err where r: "response_of (nw_fetch nw url sg b) = (status, body, err)" by (cases "response_of (nw_fetch nw url sg b)")
    with assms(4) [of url sg b] have "\<not> delivered status" by simp
    moreover have "status_of i (s\<lparr>deliveries := update_where (\<lambda>d. dl_id d = i) (record_attempt DPending a y bd er n) (deliveries s)\<rparr>) = Some DPending"
      for a y bd er n by (rule status_of_update [OF well_linked_status [OF assms(1)]]) simp_all
    ultimately show ?thesis unfolding r
      by (simp add: conclude_def op_simps bindM_set_delivery [OF well_linked_status [OF assms(1)]] WEBHOOK_MAX_ATTEMPTS_def)
  qed
  show ?thesis using l d e c by (simp add: process_def op_simps Let_def)
qed

text \<open>A delivery with its endpoint and event, and networks that fail or answer.\<close>

definition sample_delivery :: "delivery_status \<Rightarrow> delivery_row" where
  "sample_delivery st = (new_delivery ''whd_1'' ''ep_1'' ''evt_1'' 0)\<lparr>dl_status := st\<rparr>"

definition delivery_db :: "delivery_status \<Rightarrow> db" where
  "delivery_db st = webhook_db\<lparr>endpoints := [sample_endpoint ''ep_1'' [] False], deliveries := [sample_delivery st],
     events := [\<lparr>ev_id = ''evt_1'', ev_store = ''store_1'', ev_payment = Some ''pay_1'', ev_type = ''payment.completed'',
       ev_payload = buildWebhookPayload ''evt_1'' EvCompleted (sample_payment 5 USD) 0\<rparr>]\<rparr>"

definition answering :: "string + (int \<times> string) \<Rightarrow> network" where
  "answering r = \<lparr>nw_safe = \<lambda>_. None, nw_mac = sample_mac, nw_json = \<lambda>_. ''{}'', nw_fetch = \<lambda>_ _ _. r\<rparr>"

lemma delivery_db_linked: "well_linked ''whd_1'' (delivery_db st)"
  by (simp add: well_linked_def delivery_db_def webhook_db_def sample_delivery_def new_delivery_def endpoint_of_def sample_endpoint_def)

theorem delivery_settles_witness:
  "status_of ''whd_1'' (run_job (replicate 5 (answering (Inl ''timeout''), id) @ [(answering (Inr (503, ''busy'')), id)]) ''whd_1'' 0
     (delivery_db DPending)) \<in> {Some DSucceeded, Some DFailed}"
  by (rule delivery_settles [OF _ delivery_db_linked]) auto

theorem endpoint_disabled_iff_witness:
  "\<exists>t e'. maybeDisableEndpoint ''ep_1'' (delivery_db DFailed) = (Inr (), t) \<and> endpoint_of ''ep_1'' t = Some e' \<and> \<not> we_disabled e'"
proof -
  have e: "endpoint_of ''ep_1'' (delivery_db DFailed) = Some (sample_endpoint ''ep_1'' [] False)"
    by (simp add: delivery_db_def endpoint_of_def sample_endpoint_def)
  have "recent_statuses ''ep_1'' (delivery_db DFailed) = [DFailed]"
    by (simp add: recent_statuses_def delivery_db_def sample_delivery_def new_delivery_def ENDPOINT_FAILURE_DISABLE_THRESHOLD_def)
  then show ?thesis using endpoint_disabled_iff [OF e] by (auto simp: sample_endpoint_def)
qed

theorem failed_delivery_reopened_witness:
  "status_of ''whd_1'' (snd (process (answering (Inl ''timeout'')) ''whd_1'' 0 (delivery_db DFailed))) = Some DPending"
proof (rule failed_delivery_reopened [OF delivery_db_linked])
  show "status_of ''whd_1'' (delivery_db DFailed) = Some DFailed"
    by (simp add: status_of_def delivery_db_def sample_delivery_def new_delivery_def)
qed (auto simp: delivery_db_def sample_endpoint_def valid_secrets_def answering_def response_of_def delivered_def)

end
