(* ===== verification/Settlement.thy ===== *)
theory Settlement
  imports Ledger Stores
begin

text \<open>
  \<open>apps/api/src/settlements/settlement.service.ts\<close> and \<open>settlement.util.ts\<close>: the
  paid payments of a store are gathered into one settlement per currency and day, with the gross,
  the refunds, the fee on what is left of the gross after refunds, and the net.
\<close>

section \<open>Amounts\<close>

record settlement_amounts =
  sa_gross :: decimal
  sa_refunds :: decimal
  sa_fee :: decimal
  sa_net :: decimal

definition computeSettlementAmounts :: "decimal \<Rightarrow> decimal \<Rightarrow> int \<Rightarrow> settlement_amounts" where
  "computeSettlementAmounts gross refunded feeBps =
     (let netVolume = gross - refunded; fee = to_dp 4 (netVolume * of_int feeBps / 10000) in
      \<lparr>sa_gross = gross, sa_refunds = refunded, sa_fee = fee, sa_net = netVolume - fee\<rparr>)"

section \<open>Batches\<close>

text \<open>The map of groups keeps the order in which the keys first appear.\<close>

type_synonym batch_key = "currency \<times> int"

fun add_to_group :: "batch_key \<Rightarrow> payment_row \<Rightarrow> (batch_key \<times> payment_row list) list \<Rightarrow> (batch_key \<times> payment_row list) list" where
  "add_to_group k p [] = [(k, [p])]"
| "add_to_group k p ((k', ps) # gs) = (if k' = k then (k', ps @ [p]) # gs else (k', ps) # add_to_group k p gs)"

definition batch_key_of :: "payment_row \<Rightarrow> batch_key" where
  "batch_key_of p = (p_currency p, start_of_day (case p_paid_at p of None \<Rightarrow> 0 | Some t \<Rightarrow> t))"

definition group_payments :: "payment_row list \<Rightarrow> (batch_key \<times> payment_row list) list" where
  "group_payments ps = foldl (\<lambda>gs p. add_to_group (batch_key_of p) p gs) [] ps"

definition settlement_key :: "string \<Rightarrow> batch_key \<Rightarrow> settlement_row \<Rightarrow> bool" where
  "settlement_key storeId k x \<longleftrightarrow> st_store x = storeId \<and> (st_currency x, st_payout x) = k"

definition add_batch :: "settlement_amounts \<Rightarrow> nat \<Rightarrow> settlement_row \<Rightarrow> settlement_row" where
  "add_batch a n x =
     x\<lparr>st_gross := st_gross x + sa_gross a, st_refunds := st_refunds x + sa_refunds a, st_fee := st_fee x + sa_fee a,
       st_net := st_net x + sa_net a, st_count := st_count x + n\<rparr>"

definition unclaimed :: "string list \<Rightarrow> payment_row \<Rightarrow> bool" where
  "unclaimed is p \<longleftrightarrow> p_id p \<in> set is \<and> p_settlement p = None"

definition claim :: "string list \<Rightarrow> string \<Rightarrow> unit handler" where
  "claim is i = bindM (update_manyM payments payments_update (unclaimed is) (p_settlement_update (\<lambda>_. Some i))) (\<lambda>_. ret ())"

definition batch_amounts :: "payment_row list \<Rightarrow> int \<Rightarrow> settlement_amounts" where
  "batch_amounts fresh feeBps =
     computeSettlementAmounts (sum_list (map p_amount fresh)) (sum_list (map p_refunded fresh)) feeBps"

definition new_settlement :: "string \<Rightarrow> string \<Rightarrow> batch_key \<Rightarrow> int \<Rightarrow> settlement_amounts \<Rightarrow> nat \<Rightarrow> int \<Rightarrow> settlement_row" where
  "new_settlement i storeId k feeBps a n now =
     \<lparr>st_id = i, st_store = storeId, st_currency = fst k, st_payout = snd k, st_gross = sa_gross a, st_refunds = sa_refunds a,
      st_fee_bps = feeBps, st_fee = sa_fee a, st_net = sa_net a, st_count = n, st_settled_at = Some now\<rparr>"

text \<open>
  One batch, in a transaction under the advisory lock of its key: the payments are read again, and
  only those that no batch has claimed are counted and claimed.
\<close>

definition settleGroup :: "string \<Rightarrow> int \<Rightarrow> batch_key \<Rightarrow> string list \<Rightarrow> settlement_row option handler" where
  "settleGroup storeId feeBps k batch =
     transaction (bindM (manyM payments (unclaimed batch)) (\<lambda>fresh.
       bindM (findM settlements (settlement_key storeId k)) (\<lambda>existing.
       if fresh = [] then ret existing
       else (let a = batch_amounts fresh feeBps; n = length fresh in
         bindM (case existing of
             Some x \<Rightarrow> seqM (updateM settlements settlements_update (\<lambda>y. st_id y = st_id x) (add_batch a n)) (ret (add_batch a n x))
           | None \<Rightarrow>
             bindM (prefixedId ''setl'') (\<lambda>i.
             bindM (getsM clock) (\<lambda>now.
             (let x = new_settlement i storeId k feeBps a n now in
              seqM (createM settlements settlements_update settlement_clash x) (ret x)))))
           (\<lambda>settlement. seqM (claim (map p_id fresh) (st_id settlement)) (ret (Some settlement)))))))"

definition settleable :: "string \<Rightarrow> int \<Rightarrow> payment_row \<Rightarrow> bool" where
  "settleable storeId cutoff p \<longleftrightarrow> p_store p = storeId \<and> p_status p \<in> {Paid, Refunded} \<and> p_settlement p = None \<and>
     (\<exists>t \<in> set_option (p_paid_at p). t < cutoff)"

definition settle_next :: "store_row \<Rightarrow> settlement_row list \<Rightarrow> batch_key \<times> payment_row list \<Rightarrow> settlement_row list handler" where
  "settle_next store results g =
     bindM (settleGroup (s_id store) (s_fee_bps store) (fst g) (map p_id (snd g))) (\<lambda>settlement.
       ret (case settlement of None \<Rightarrow> results | Some x \<Rightarrow> results @ [x]))"

definition runForStore :: "string \<Rightarrow> bool \<Rightarrow> settlement_row list handler" where
  "runForStore storeId includeToday =
     bindM (findM stores (\<lambda>x. s_id x = storeId)) (\<lambda>store.
     case store of
       None \<Rightarrow> ret []
     | Some st \<Rightarrow>
       bindM (getsM clock) (\<lambda>now.
       (let cutoff = (if includeToday then now else start_of_day now) in
        bindM (getsM (\<lambda>s. take 5000 (rows_where (settleable storeId cutoff) (payments s)))) (\<lambda>ps.
          if ps = [] then ret [] else foldM (settle_next st) [] (group_payments ps)))))"

text \<open>The dashboard.\<close>

definition list_settlements :: "auth_user \<Rightarrow> string \<Rightarrow> settlement_row list handler" where
  "list_settlements u storeId =
     bindM (assertStore u storeId PaymentRead) (\<lambda>_.
     bindM (manyM settlements (\<lambda>x. st_store x = storeId)) (\<lambda>xs.
       ret (take 200 (rev (sort_key st_payout xs)))))"

definition get_settlement :: "auth_user \<Rightarrow> string \<Rightarrow> (settlement_row \<times> (string \<times> string \<times> string) list) handler" where
  "get_settlement u settlementId =
     bindM (ownedM settlements (\<lambda>x. st_id x = settlementId) st_store ''Settlement not found'' u PaymentRead) (\<lambda>x.
     bindM (manyM payments (\<lambda>p. p_settlement p = Some settlementId)) (\<lambda>ps.
       ret (x, map (\<lambda>p. (p_id p, to_fixed 2 (p_amount p), to_fixed 2 (p_refunded p))) ps)))"

definition runNow :: "auth_user \<Rightarrow> string \<Rightarrow> settlement_row list handler" where
  "runNow u storeId = bindM (assertStore u storeId StoreWrite) (\<lambda>store. runForStore (s_id store) True)"

section \<open>The invariant of the statements\<close>

definition claimed_by :: "string \<Rightarrow> db \<Rightarrow> payment_row list" where
  "claimed_by i s = rows_where (\<lambda>p. p_settlement p = Some i) (payments s)"

definition statement_ok :: "db \<Rightarrow> settlement_row \<Rightarrow> bool" where
  "statement_ok s x \<longleftrightarrow> st_gross x = sum_list (map p_amount (claimed_by (st_id x) s)) \<and>
     st_count x = length (claimed_by (st_id x) s) \<and> st_net x = st_gross x - st_refunds x - st_fee x"

definition settlements_ok :: "db \<Rightarrow> bool" where
  "settlements_ok s \<longleftrightarrow> keyed st_id (settlements s) \<and> list_all (statement_ok s) (settlements s) \<and>
     (\<forall>p \<in> set (payments s). \<forall>i \<in> set_option (p_settlement p). exists_by (\<lambda>x. st_id x = i) (settlements s))"

lemma claim_sums:
  fixes g :: "payment_row \<Rightarrow> decimal"
  assumes "\<And>p x. g (p\<lparr>p_settlement := x\<rparr>) = g p"
  shows "sum_list (map g (rows_where (\<lambda>p. p_settlement p = Some j) (update_where (unclaimed is) (p_settlement_update (\<lambda>_. Some i)) ps))) =
    sum_list (map g (rows_where (\<lambda>p. p_settlement p = Some j) ps)) + (if j = i then sum_list (map g (rows_where (unclaimed is) ps)) else 0)"
  using assms by (induction ps) (auto simp: unclaimed_def)

lemma claim_count:
  "length (rows_where (\<lambda>p. p_settlement p = Some j) (update_where (unclaimed is) (p_settlement_update (\<lambda>_. Some i)) ps)) =
    length (rows_where (\<lambda>p. p_settlement p = Some j) ps) + (if j = i then length (rows_where (unclaimed is) ps) else 0)"
  by (induction ps) (auto simp: unclaimed_def [abs_def])

lemma claim_fresh: "update_where (unclaimed (map p_id (rows_where (unclaimed is) ps))) f ps = update_where (unclaimed is) f ps"
proof -
  have "unclaimed (map p_id (rows_where (unclaimed is) ps)) p = unclaimed is p" if "p \<in> set ps" for p
    using that by (auto simp: unclaimed_def rows_where_def)
  then show ?thesis by (simp add: update_where_def)
qed

abbreviation claimed :: "string list \<Rightarrow> string \<Rightarrow> payment_row list \<Rightarrow> payment_row list" where
  "claimed is i ps \<equiv> update_where (unclaimed is) (p_settlement_update (\<lambda>_. Some i)) ps"

lemma settleGroup_cases:
  assumes "settleGroup storeId bps k is s = (r, t)"
  obtains (nothing_left) "rows_where (unclaimed is) (payments s) = []" "t = s" "r = Inr (find_by (settlement_key storeId k) (settlements s))"
    | (merged) x a n where "find_by (settlement_key storeId k) (settlements s) = Some x" "rows_where (unclaimed is) (payments s) \<noteq> []"
      "a = batch_amounts (rows_where (unclaimed is) (payments s)) bps" "n = length (rows_where (unclaimed is) (payments s))"
      "r = Inr (Some (add_batch a n x))"
      "t = s\<lparr>settlements := update_where (\<lambda>y. st_id y = st_id x) (add_batch a n) (settlements s), payments := claimed is (st_id x) (payments s)\<rparr>"
    | (created) x where "find_by (settlement_key storeId k) (settlements s) = None" "rows_where (unclaimed is) (payments s) \<noteq> []"
      "x = new_settlement (''setl_'' @ rnd s (draws s)) storeId k bps (batch_amounts (rows_where (unclaimed is) (payments s)) bps)
             (length (rows_where (unclaimed is) (payments s))) (clock s)"
      "\<not> exists_by (settlement_clash x) (settlements s)" "r = Inr (Some x)"
      "t = s\<lparr>draws := Suc (draws s), settlements := settlements s @ [x], payments := claimed is (st_id x) (payments s)\<rparr>"
    | (refused) e where "r = Inl e" "t = s"
proof (cases "rows_where (unclaimed is) (payments s) = []")
  case True
  with assms show ?thesis by (intro nothing_left) (auto simp: settleGroup_def op_simps transaction_def)
next
  case False
  show ?thesis
  proof (cases "find_by (settlement_key storeId k) (settlements s)")
    case (Some x)
    then have "exists_by (\<lambda>y. st_id y = st_id x) (settlements s)" using find_by_SomeD by (fastforce simp: exists_by_iff)
    with Some False assms show ?thesis
      by (intro merged) (auto simp: settleGroup_def op_simps transaction_def Let_def claim_def claim_fresh add_batch_def)
  next
    case None
    let ?x = "new_settlement (''setl_'' @ rnd s (draws s)) storeId k bps (batch_amounts (rows_where (unclaimed is) (payments s)) bps)
             (length (rows_where (unclaimed is) (payments s))) (clock s)"
    show ?thesis
    proof (cases "exists_by (settlement_clash ?x) (settlements s)")
      case True
      then have "settleGroup storeId bps k is s = (Inl P2002, s)" using None False
        by (simp add: settleGroup_def op_simps transaction_def Let_def)
      with assms show ?thesis by (intro refused [of P2002]) auto
    next
      case no: False
      then have "settleGroup storeId bps k is s = (Inr (Some ?x),
         s\<lparr>draws := Suc (draws s), settlements := settlements s @ [?x], payments := claimed is (st_id ?x) (payments s)\<rparr>)"
        using None False by (simp add: settleGroup_def op_simps transaction_def Let_def claim_def claim_fresh)
      with assms show ?thesis by (intro created [OF None False refl no]) simp_all
    qed
  qed
qed

text \<open>What claiming a batch does to the statements.\<close>

lemma batch_amounts_fields [simp]:
  "sa_gross (batch_amounts ps bps) = sum_list (map p_amount ps)"
  "sa_refunds (batch_amounts ps bps) = sum_list (map p_refunded ps)"
  "sa_net (batch_amounts ps bps) = sa_gross (batch_amounts ps bps) - sa_refunds (batch_amounts ps bps) - sa_fee (batch_amounts ps bps)"
  by (simp_all add: batch_amounts_def computeSettlementAmounts_def Let_def)

lemma add_batch_fields [simp]:
  "st_id (add_batch a n x) = st_id x" "st_gross (add_batch a n x) = st_gross x + sa_gross a"
  "st_refunds (add_batch a n x) = st_refunds x + sa_refunds a" "st_fee (add_batch a n x) = st_fee x + sa_fee a"
  "st_net (add_batch a n x) = st_net x + sa_net a" "st_count (add_batch a n x) = st_count x + n"
  by (simp_all add: add_batch_def)

lemma statement_ok_claimed:
  assumes "statement_ok s y" and "payments t = claimed is i (payments s)"
    and "a = batch_amounts (rows_where (unclaimed is) (payments s)) bps" and "n = length (rows_where (unclaimed is) (payments s))"
  shows "statement_ok t (if st_id y = i then add_batch a n y else y)"
  using assms claim_sums [of p_amount "st_id y" "is" i "payments s"] claim_count [of "st_id y" "is" i "payments s"]
  by (cases "st_id y = i") (simp_all add: statement_ok_def claimed_by_def)

lemma claims_exist:
  assumes "\<forall>p \<in> set ps. \<forall>i \<in> set_option (p_settlement p). exists_by (\<lambda>x. st_id x = i) xs"
    and "\<And>i. exists_by (\<lambda>x. st_id x = i) xs \<Longrightarrow> exists_by (\<lambda>x. st_id x = i) ys" and "exists_by (\<lambda>x. st_id x = j) ys"
  shows "\<forall>p \<in> set (claimed is j ps). \<forall>i \<in> set_option (p_settlement p). exists_by (\<lambda>x. st_id x = i) ys"
  using assms by (auto simp: update_where_def)

lemma exists_st_id_update: "(\<And>y. st_id (f y) = st_id y) \<Longrightarrow>
    exists_by (\<lambda>x. st_id x = i) (update_where p f xs) = exists_by (\<lambda>x. st_id x = i) xs"
  by (induction xs) auto

lemma keeps_settleGroup: "keeps settlements_ok (settleGroup storeId bps k is)"
proof (rule keepsI)
  fix s assume ok: "settlements_ok s"
  obtain r t where o: "settleGroup storeId bps k is s = (r, t)" by (rule prod.exhaust)
  from o have "settlements_ok t"
  proof (cases rule: settleGroup_cases)
    case (merged x a n)
    have x: "x \<in> set (settlements s)" using find_by_SomeD [OF merged(1)] by simp
    have f: "st_id (add_batch a n y) = st_id y" for y by simp
    have "list_all (statement_ok t) (settlements t)"
      unfolding list_all_iff
    proof
      fix z assume "z \<in> set (settlements t)"
      then obtain y where y: "y \<in> set (settlements s)" "z = (if st_id y = st_id x then add_batch a n y else y)"
        by (auto simp: merged(6) update_where_def)
      with ok have "statement_ok s y" by (simp add: settlements_ok_def list_all_iff)
      then show "statement_ok t z" unfolding y(2) by (rule statement_ok_claimed) (simp_all add: merged(3,4,6))
    qed
    moreover have "keyed st_id (settlements t)" using ok by (simp add: settlements_ok_def merged(6) keyed_update_where)
    moreover have "\<forall>p \<in> set (payments t). \<forall>i \<in> set_option (p_settlement p). exists_by (\<lambda>x. st_id x = i) (settlements t)"
      using claims_exist [of "payments s" "settlements s" "settlements t" "st_id x"] ok x
      by (simp add: merged(6) settlements_ok_def exists_st_id_update) (auto simp: exists_by_iff)
    ultimately show ?thesis by (simp add: settlements_ok_def)
  next
    case (created x)
    have new: "\<not> exists_by (\<lambda>y. st_id y = st_id x) (settlements s)"
      using created(4) by (auto simp: exists_by_iff settlement_clash_def)
    then have none: "claimed_by (st_id x) s = []"
      using ok by (auto simp: settlements_ok_def claimed_by_def rows_where_def filter_empty_conv)
    have old: "statement_ok t y" if "y \<in> set (settlements s)" for y
    proof -
      from that new have "st_id y \<noteq> st_id x" by (auto simp: exists_by_iff)
      moreover have "statement_ok s y" using that ok by (simp add: settlements_ok_def list_all_iff)
      ultimately show ?thesis using statement_ok_claimed [of s y t "is" "st_id x"] by (simp add: created(6))
    qed
    have "statement_ok t x"
      using none claim_sums [of p_amount "st_id x" "is" "st_id x" "payments s"] claim_count [of "st_id x" "is" "st_id x" "payments s"]
      by (simp add: statement_ok_def claimed_by_def created(6)) (simp add: created(3) new_settlement_def)
    with old have "list_all (statement_ok t) (settlements t)" by (auto simp: list_all_iff created(6))
    moreover have "keyed st_id (settlements t)" using ok new by (simp add: settlements_ok_def created(6) keyed_append_one)
    moreover have "\<forall>p \<in> set (payments t). \<forall>i \<in> set_option (p_settlement p). exists_by (\<lambda>x. st_id x = i) (settlements t)"
      using claims_exist [of "payments s" "settlements s" "settlements t" "st_id x"] ok
      by (simp add: created(6) settlements_ok_def)
    ultimately show ?thesis by (simp add: settlements_ok_def)
  qed (use ok in simp_all)
  with o show "settlements_ok (snd (settleGroup storeId bps k is s))" by simp
qed

lemma keeps_runForStore: "keeps settlements_ok (runForStore storeId b)"
proof -
  have n: "keeps settlements_ok (settle_next st results g)" for st results g
    unfolding settle_next_def by (intro keeps_intros keeps_settleGroup)
  show ?thesis
    unfolding runForStore_def Let_def
    by (rule keeps_bind [OF keeps_find], rule keepsI)
       (auto split: option.split simp: op_simps dest: keepsD [OF keeps_foldM, OF n])
qed

section \<open>The statement and the books\<close>

text \<open>What the ledger credits to a merchant for captured amounts and debits for refunds, line by line.\<close>

definition payable :: "line list \<Rightarrow> decimal" where
  "payable ls = sum_list (map (\<lambda>l. if ln_account l = ''merchant_payable'' then
     (if ln_direction l = CREDIT then ln_amount l else - ln_amount l) else 0) ls)"

definition books_payable :: "decimal list \<Rightarrow> decimal list \<Rightarrow> int \<Rightarrow> decimal" where
  "books_payable gs rs bps =
     sum_list (map (\<lambda>g. payable (map round_line (captured_lines g bps))) gs) +
     sum_list (map (\<lambda>r. payable (map round_line (refund_lines r bps))) rs)"

lemma round_half_up_error: "\<bar>of_int (round_half_up x) - x\<bar> \<le> 1 / 2"
proof (cases "0 \<le> x")
  case True
  then have "round_half_up x = \<lfloor>x + 1 / 2\<rfloor>" by (simp add: round_half_up_def)
  then show ?thesis using floor_correct [of "x + 1 / 2"] by linarith
next
  case False
  then have "of_int (round_half_up x) = - (of_int \<lfloor>- x + 1 / 2\<rfloor> :: rat)" by (simp add: round_half_up_def)
  then show ?thesis using floor_correct [of "- x + 1 / 2"] by linarith
qed

lemma to_dp_error: "\<bar>to_dp 4 x - x\<bar> \<le> 1 / 20000"
proof -
  have "to_dp 4 x - x = (of_int (round_half_up (x * pow10 4)) - x * pow10 4) / pow10 4"
    by (simp add: to_dp_def diff_divide_distrib)
  also have "\<bar>\<dots>\<bar> \<le> (1 / 2) / pow10 4"
    unfolding abs_divide using round_half_up_error [of "x * pow10 4"]
    by (simp add: divide_right_mono pow10_def)
  finally show ?thesis by (simp add: pow10_def)
qed

lemma sum_error:
  fixes f h :: "'a \<Rightarrow> rat"
  shows "(\<And>x. \<bar>f x - h x\<bar> \<le> e) \<Longrightarrow> \<bar>sum_list (map f xs) - sum_list (map h xs)\<bar> \<le> of_nat (length xs) * e"
proof (induction xs)
  case (Cons x xs)
  then have "\<bar>f x - h x\<bar> \<le> e" "\<bar>sum_list (map f xs) - sum_list (map h xs)\<bar> \<le> of_nat (length xs) * e" by simp_all
  then show ?case by (simp add: algebra_simps)
qed simp

lemma payable_captured: "payable (map round_line (captured_lines g bps)) = to_dp 4 (g - fee_of g bps)"
  by (simp add: payable_def captured_lines_def line_of_def round_line_def Let_def)

lemma payable_refund: "payable (map round_line (refund_lines r bps)) = - to_dp 4 (r - fee_of r bps)"
  by (simp add: payable_def refund_lines_def line_of_def round_line_def Let_def)

lemma sum_fee: "sum_list (map (\<lambda>g. g - fee_of g bps) gs) = sum_list gs - fee_of (sum_list gs) bps"
  by (induction gs) (simp_all add: fee_of_def algebra_simps add_divide_distrib)

section \<open>Properties\<close>

text \<open>C8: Through every settlement run, and through every batch whatever stale list of payments it was started
  with, the statements stay true: the gross of a settlement is the sum of the payments that are
  claimed by it and its count is their number, its net is the gross less refunds and fee, and no
  payment is claimed by a settlement that is not there.\<close>

theorem settlement_statements_kept:
  assumes "settlements_ok s"
  shows "settlements_ok (snd (runForStore storeId b s)) \<and> settlements_ok (snd (settleGroup storeId bps k is s))"
  using assms keepsD [OF keeps_runForStore] keepsD [OF keeps_settleGroup] by blast

text \<open>Two runs that gathered the same payments do not count them twice: once a batch has been settled, every
  batch made of its payments, whatever its key and rate, finds nothing left and changes nothing.\<close>

theorem settled_once:
  assumes "settleGroup storeId bps k is s = (Inr x, t)" and "set js \<subseteq> set is"
  shows "settleGroup storeId' bps' k' js t = (Inr (find_by (settlement_key storeId' k') (settlements t)), t)"
proof -
  have none: "rows_where (unclaimed js) (claimed is i ps) = []" for i ps
    using assms(2) by (auto simp: rows_where_def filter_empty_conv unclaimed_def update_where_def)
  have "rows_where (unclaimed is) ps = [] \<Longrightarrow> rows_where (unclaimed js) ps = []" for ps
    using assms(2) by (auto simp: rows_where_def filter_empty_conv unclaimed_def)
  note left = this
  from assms(1) have "rows_where (unclaimed js) (payments t) = []"
    by (cases rule: settleGroup_cases) (simp_all add: left none)
  then show ?thesis by (simp add: settleGroup_def op_simps transaction_def)
qed


text \<open>A refund that comes after its payment was settled never reaches a statement: however the refunded amounts
  of the claimed payments change, a further run gathers nothing and leaves every settlement as it
  was.\<close>

theorem refund_after_settlement_ignored:
  assumes "\<And>p. p \<in> set (payments s) \<Longrightarrow> p_store p = storeId \<Longrightarrow> p_settlement p \<noteq> None"
  shows "runForStore storeId b (s\<lparr>payments := map (\<lambda>p. p\<lparr>p_refunded := f p\<rparr>) (payments s)\<rparr>) =
    (Inr [], s\<lparr>payments := map (\<lambda>p. p\<lparr>p_refunded := f p\<rparr>) (payments s)\<rparr>)"
proof -
  have "rows_where (settleable storeId c) (map (\<lambda>p. p\<lparr>p_refunded := f p\<rparr>) (payments s)) = []" for c
    using assms by (auto simp: rows_where_def filter_empty_conv settleable_def)
  then show ?thesis by (auto simp: runForStore_def op_simps Let_def split: option.split)
qed

text \<open>Two payments of a store, paid on one day, of which one is refunded in part.\<close>

definition settle_payment :: "string \<Rightarrow> decimal \<Rightarrow> payment_row" where
  "settle_payment i r = (sample_payment 10 USD)\<lparr>p_id := i, p_paid_at := Some 5, p_refunded := r\<rparr>"

definition settle_db :: db where
  "settle_db = empty_db\<lparr>stores := [sample_store], clock := 90000000, payments := [settle_payment ''pay_1'' 0, settle_payment ''pay_2'' 3]\<rparr>"

lemma settle_db_ok: "settlements_ok settle_db"
  by (simp add: settlements_ok_def settle_db_def empty_db_def settle_payment_def sample_payment_def)

theorem settlement_statements_kept_witness:
  "settlements_ok (snd (runForStore ''store_1'' False settle_db)) \<and>
   settlements_ok (snd (settleGroup ''store_1'' 50 (USD, 0) [''pay_1'', ''pay_2''] settle_db))"
  by (rule settlement_statements_kept [OF settle_db_ok])

theorem settled_once_witness:
  "\<exists>x t. settleGroup ''store_1'' 50 (USD, 0) [''pay_1'', ''pay_2''] settle_db = (Inr (Some x), t) \<and> st_count x = 2 \<and>
     settleGroup ''store_1'' 50 (USD, 0) [''pay_2''] t = (Inr (find_by (settlement_key ''store_1'' (USD, 0)) (settlements t)), t)"
proof -
  have f: "rows_where (unclaimed [''pay_1'', ''pay_2'']) (payments settle_db) = payments settle_db" "length (payments settle_db) = 2"
    "settlements settle_db = []"
    by (simp_all add: settle_db_def settle_payment_def sample_payment_def unclaimed_def empty_db_def)
  define x where "x = new_settlement (''setl_'' @ rnd settle_db (draws settle_db)) ''store_1'' (USD, 0) 50
     (batch_amounts (payments settle_db) 50) (length (payments settle_db)) (clock settle_db)"
  have "\<exists>t. settleGroup ''store_1'' 50 (USD, 0) [''pay_1'', ''pay_2''] settle_db = (Inr (Some x), t)"
    using f by (auto simp: settleGroup_def op_simps transaction_def Let_def claim_def x_def)
  moreover have "st_count x = 2" by (simp add: x_def new_settlement_def f)
  ultimately show ?thesis using settled_once [of "''store_1''" 50 "(USD, 0)" "[''pay_1'', ''pay_2'']" settle_db "Some x" _ "[''pay_2'']"]
    by auto
qed

theorem refund_after_settlement_ignored_witness:
  "runForStore ''store_1'' True (settle_db\<lparr>payments := [(settle_payment ''pay_1'' 0)\<lparr>p_settlement := Some ''setl_1'', p_refunded := 4\<rparr>]\<rparr>) =
    (Inr [], settle_db\<lparr>payments := [(settle_payment ''pay_1'' 0)\<lparr>p_settlement := Some ''setl_1'', p_refunded := 4\<rparr>]\<rparr>)"
  using refund_after_settlement_ignored [of "settle_db\<lparr>payments := [(settle_payment ''pay_1'' 0)\<lparr>p_settlement := Some ''setl_1''\<rparr>]\<rparr>"
      "''store_1''" True "\<lambda>_. 4"] by (simp add: settle_payment_def)

end
