(* ===== verification/Risk.thy ===== *)
theory Risk
  imports Stores
begin

text \<open>
  \<open>apps/api/src/risk/risk.service.ts\<close>: the score of a paid payment and the case it opens,
  and \<open>apps/api/src/receipts/receipts.module.ts\<close>: the receipt of a payment. Both are
  best effort: what goes wrong in them is logged and does not reach the payment.
\<close>

section \<open>Scoring\<close>

definition CASE_THRESHOLD :: int where
  "CASE_THRESHOLD = 50"

definition ms_hour :: int where
  "ms_hour = 3600000"

type_synonym score = "int \<times> string list"

definition add_reason :: "bool \<Rightarrow> int \<Rightarrow> string \<Rightarrow> score \<Rightarrow> score" where
  "add_reason cond n reason sc = (if cond then (fst sc + n, snd sc @ [reason]) else sc)"

definition score_amount :: "rat \<Rightarrow> score" where
  "score_amount amount =
     (if 1000 \<le> amount then add_reason True 30 ''high_amount'' (0, []) else add_reason (500 \<le> amount) 15 ''elevated_amount'' (0, []))"

definition recent_paid :: "string \<Rightarrow> db \<Rightarrow> nat" where
  "recent_paid customerId s =
     count_where (\<lambda>p. p_customer p = Some customerId \<and> p_status p = Paid \<and> (\<exists>t \<in> set_option (p_paid_at p). clock s - ms_hour \<le> t))
       (payments s)"

definition same_amount :: "payment_row \<Rightarrow> db \<Rightarrow> nat" where
  "same_amount payment s =
     count_where (\<lambda>p. p_store p = p_store payment \<and> p_amount p = p_amount payment \<and> clock s - ms_hour \<le> p_created p) (payments s)"

definition is_new_customer :: "string \<Rightarrow> db \<Rightarrow> bool" where
  "is_new_customer customerId s \<longleftrightarrow>
     (case find_by (\<lambda>c. c_id c = customerId) (customers s) of None \<Rightarrow> False | Some c \<Rightarrow> clock s - ms_hour < c_created c)"

definition score_payer :: "payment_row \<Rightarrow> rat \<Rightarrow> db \<Rightarrow> score \<Rightarrow> score" where
  "score_payer payment amount s sc =
     (case p_customer payment of
        None \<Rightarrow> add_reason (300 \<le> amount) 15 ''anonymous_large'' sc
      | Some c \<Rightarrow> add_reason (is_new_customer c s \<and> 200 \<le> amount) 20 ''new_customer_large''
                   (add_reason (5 \<le> recent_paid c s) 25 ''velocity'' sc))"

definition risk_score :: "payment_row \<Rightarrow> db \<Rightarrow> score" where
  "risk_score payment s =
     (let amount = double (p_amount payment);
          sc = add_reason (6 \<le> same_amount payment s) 15 ''repeated_amount'' (score_payer payment amount s (score_amount amount)) in
      (min 100 (fst sc), snd sc))"

definition new_case :: "string \<Rightarrow> payment_row \<Rightarrow> score \<Rightarrow> risk_case_row" where
  "new_case i payment sc =
     \<lparr>rk_id = i, rk_store = p_store payment, rk_payment = Some (p_id payment), rk_customer = p_customer payment,
      rk_score = fst sc, rk_reasons = snd sc, rk_status = CaseOpen, rk_resolution = None\<rparr>"

definition scorePayment :: "payment_row \<Rightarrow> unit handler" where
  "scorePayment payment =
     catchM (bindM (getsM (risk_score payment)) (\<lambda>sc.
       if fst sc < CASE_THRESHOLD then ret ()
       else bindM (findM risk_cases (\<lambda>c. rk_payment c = Some (p_id payment))) (\<lambda>existing.
         case existing of
           Some c \<Rightarrow> ret ()
         | None \<Rightarrow> bindM (prefixedId ''risk'') (\<lambda>i.
             createM risk_cases risk_cases_update risk_clash (new_case i payment sc)))))
       (\<lambda>e. ret ())"

section \<open>Cases\<close>

fun case_rank :: "case_status \<Rightarrow> nat" where
  "case_rank CaseOpen = 0"
| "case_rank Investigating = 1"
| "case_rank Resolved = 2"
| "case_rank Escalated = 3"

fun case_name :: "case_status \<Rightarrow> string" where
  "case_name CaseOpen = ''OPEN''"
| "case_name Investigating = ''INVESTIGATING''"
| "case_name Resolved = ''RESOLVED''"
| "case_name Escalated = ''ESCALATED''"

definition case_filter :: "string option \<Rightarrow> case_status option" where
  "case_filter status =
     Option.bind status (\<lambda>x. List.find (\<lambda>st. case_name st = to_upper x) [CaseOpen, Investigating, Resolved, Escalated])"

definition listCases :: "auth_user \<Rightarrow> string \<Rightarrow> string option \<Rightarrow> risk_case_row list handler" where
  "listCases u storeId status =
     bindM (assertStore u storeId PaymentRead) (\<lambda>_.
     bindM (manyM risk_cases (\<lambda>c. rk_store c = storeId \<and>
              (case case_filter status of None \<Rightarrow> True | Some st \<Rightarrow> rk_status c = st))) (\<lambda>cs.
       ret (take 200 (sort_key (\<lambda>c. case_rank (rk_status c)) (sort_key (\<lambda>c. - rk_score c) cs)))))"

definition updateCase :: "auth_user \<Rightarrow> string \<Rightarrow> case_status \<Rightarrow> string option \<Rightarrow> unit handler" where
  "updateCase u caseId status resolution =
     bindM (ownedM risk_cases (\<lambda>c. rk_id c = caseId) rk_store ''Case not found'' u StoreWrite) (\<lambda>_.
       updateM risk_cases risk_cases_update (\<lambda>c. rk_id c = caseId)
         (\<lambda>c. c\<lparr>rk_status := status, rk_resolution := (case resolution of None \<Rightarrow> rk_resolution c | Some x \<Rightarrow> Some x)\<rparr>))"

definition case_summary :: "auth_user \<Rightarrow> string \<Rightarrow> (case_status \<times> nat) list handler" where
  "case_summary u storeId =
     bindM (assertStore u storeId PaymentRead) (\<lambda>_.
       getsM (\<lambda>s. map (\<lambda>st. (st, count_where (\<lambda>c. rk_store c = storeId \<and> rk_status c = st) (risk_cases s)))
         [CaseOpen, Investigating, Escalated, Resolved]))"

section \<open>Receipts\<close>

definition receiptNumber :: "string \<Rightarrow> string" where
  "receiptNumber i =
     (let alnum = filter (\<lambda>c. is_lower c \<or> is_upper c \<or> is_digit c) i in
      ''RCP-'' @ to_upper (drop (length alnum - 8) alnum))"

record receipt_view =
  rv_id :: string
  rv_number :: string
  rv_store_name :: string
  rv_amount :: string
  rv_currency :: currency
  rv_status :: payment_status
  rv_reference :: "string option"
  rv_description :: "string option"
  rv_paid_at :: "int option"
  rv_created :: int
  rv_refunded :: string

definition receipt_store_name :: "store_row \<Rightarrow> string" where
  "receipt_store_name st = (case s_display_name st of None \<Rightarrow> s_name st | Some x \<Rightarrow> x)"

definition publicReceipt :: "string \<Rightarrow> receipt_view handler" where
  "publicReceipt paymentId =
     bindM (findM payments (\<lambda>p. p_id p = paymentId)) (\<lambda>p.
     bindM (someM (paymentNotFound ''Receipt not found'') p) (\<lambda>p.
     bindM (findM stores (\<lambda>x. s_id x = p_store p)) (\<lambda>st.
     bindM (someM P2025 st) (\<lambda>st.
       ret \<lparr>rv_id = p_id p, rv_number = receiptNumber (p_id p), rv_store_name = receipt_store_name st,
            rv_amount = to_fixed 2 (p_amount p), rv_currency = p_currency p, rv_status = p_status p,
            rv_reference = p_reference p, rv_description = p_description p, rv_paid_at = p_paid_at p,
            rv_created = p_created p, rv_refunded = to_fixed 2 (p_refunded p)\<rparr>))))"

text \<open>The mail's subject names the receipt and the store.\<close>

definition receipt_recipient :: "payment_row \<Rightarrow> db \<Rightarrow> string option" where
  "receipt_recipient payment s =
     (case md_customer_email (p_metadata payment) of
        Some to_addr \<Rightarrow> if to_addr \<noteq> [] then Some to_addr
          else Option.bind (p_customer payment) (\<lambda>i. Option.bind (find_by (\<lambda>c. c_id c = i) (customers s)) c_email)
      | None \<Rightarrow> Option.bind (p_customer payment) (\<lambda>i. Option.bind (find_by (\<lambda>c. c_id c = i) (customers s)) c_email))"

definition receipts_onPaid :: "payment_row \<Rightarrow> unit handler" where
  "receipts_onPaid payment =
     bindM (getsM (receipt_recipient payment)) (\<lambda>to_addr.
     case to_addr of
       None \<Rightarrow> ret ()
     | Some addr \<Rightarrow>
       if addr = [] then ret ()
       else bindM (findM stores (\<lambda>x. s_id x = p_store payment)) (\<lambda>st.
         emit (Email addr (''Receipt '' @ receiptNumber (p_id payment) @ '' '' @
           (case st of None \<Rightarrow> ''the merchant'' | Some x \<Rightarrow> receipt_store_name x)))))"

section \<open>Properties\<close>

lemma risk_score_bounds: "0 \<le> fst (risk_score p s) \<and> fst (risk_score p s) \<le> 90"
  by (simp add: risk_score_def Let_def add_reason_def score_payer_def score_amount_def split: option.split)

definition has_case :: "payment_row \<Rightarrow> db \<Rightarrow> bool" where
  "has_case p s \<longleftrightarrow> exists_by (\<lambda>c. rk_payment c = Some (p_id p)) (risk_cases s)"

definition fresh_case :: "db \<Rightarrow> bool" where
  "fresh_case s \<longleftrightarrow> \<not> exists_by (\<lambda>c. rk_id c = ''risk_'' @ rnd s (draws s)) (risk_cases s)"

text \<open>Scoring never fails and touches nothing but the risk cases; it opens a case exactly when the score is at
  least 50 and the payment has none yet, with a score that stays between 50 and 90, and scoring the payment
  again opens no second case.\<close>

theorem risk_case_opened_once:
  assumes "fresh_case s"
  shows "\<exists>t. scorePayment p s = (Inr (), t) \<and>
    (if 50 \<le> fst (risk_score p s) \<and> \<not> has_case p s
     then \<exists>c. t = s\<lparr>draws := Suc (draws s), risk_cases := risk_cases s @ [c]\<rparr> \<and> rk_payment c = Some (p_id p) \<and>
       rk_status c = CaseOpen \<and> rk_score c = fst (risk_score p s) \<and> rk_score c \<le> 90
     else t = s) \<and>
    scorePayment p t = (Inr (), t)"
proof -
  have n: "\<not> exists_by (risk_clash (new_case (''risk_'' @ rnd s (draws s)) p sc)) (risk_cases s)" for sc
    using assms by (auto simp: fresh_case_def risk_clash_def new_case_def exists_by_iff)
  have again: "scorePayment p t = (Inr (), t)" if "has_case p t" for t
    using that by (auto simp: scorePayment_def catchM_def op_simps has_case_def exists_by_find split: option.split)
  show ?thesis
  proof (cases "50 \<le> fst (risk_score p s) \<and> \<not> has_case p s")
    case True
    then have none: "find_by (\<lambda>c. rk_payment c = Some (p_id p)) (risk_cases s) = None"
      by (simp add: has_case_def exists_by_find)
    let ?c = "new_case (''risk_'' @ rnd s (draws s)) p (risk_score p s)"
    let ?t = "s\<lparr>draws := Suc (draws s), risk_cases := risk_cases s @ [?c]\<rparr>"
    have "scorePayment p s = (Inr (), ?t)"
      using True n none by (simp add: scorePayment_def catchM_def op_simps CASE_THRESHOLD_def createM_def)
    moreover have "has_case p ?t" by (simp add: has_case_def new_case_def)
    moreover have "rk_payment ?c = Some (p_id p)" "rk_status ?c = CaseOpen" "rk_score ?c = fst (risk_score p s)"
      by (simp_all add: new_case_def)
    ultimately show ?thesis using True again [of ?t] risk_score_bounds [of p s] by auto
  next
    case False
    then have "scorePayment p s = (Inr (), s)"
      by (auto simp: scorePayment_def catchM_def op_simps CASE_THRESHOLD_def has_case_def exists_by_find split: option.split)
    with False show ?thesis by auto
  qed
qed

text \<open>
  The thresholds are plain numbers: the score of a payment is the same in either currency, so an
  ordinary payment of a thousand riel counts as a high amount.
\<close>

lemma risk_score_currency: "risk_score (p\<lparr>p_currency := cur\<rparr>) s = risk_score p s"
proof -
  have "same_amount (p\<lparr>p_currency := cur\<rparr>) s = same_amount p s" by (simp add: same_amount_def)
  moreover have "score_payer (p\<lparr>p_currency := cur\<rparr>) a s sc = score_payer p a s sc" for a sc by (simp add: score_payer_def)
  ultimately show ?thesis by (simp add: risk_score_def)
qed

lemma keeps_scorePayment:
  assumes "\<And>s n. P s \<Longrightarrow> P (s\<lparr>draws := n\<rparr>)" and "\<And>s cs. P s \<Longrightarrow> P (s\<lparr>risk_cases := cs\<rparr>)"
  shows "keeps P (scorePayment p)"
  unfolding scorePayment_def using assms
  by (intro keeps_intros keeps_prefixedId keeps_create) (auto intro!: keeps_intros keeps_prefixedId keeps_create split: option.split)

lemma keeps_receipts: "(\<And>s es. P s \<Longrightarrow> P (s\<lparr>outbox := es\<rparr>)) \<Longrightarrow> keeps P (receipts_onPaid p)"
  unfolding receipts_onPaid_def by (auto intro!: keeps_intros keeps_emit split: option.split)

theorem risk_case_opened_once_witness:
  "\<exists>t. scorePayment (sample_payment 1500 USD) empty_db = (Inr (), t) \<and> scorePayment (sample_payment 1500 USD) t = (Inr (), t)"
  using risk_case_opened_once [of empty_db "sample_payment 1500 USD"] by (auto simp: fresh_case_def empty_db_def)

end
