(* ===== verification/Customers.thy ===== *)
theory Customers
  imports Referrals
begin

text \<open>
  \<open>apps/api/src/customers/customers.service.ts\<close> and
  \<open>apps/api/src/branches/branches.service.ts\<close>: the customers of a store, found or created
  by their contact, their consent to be written to, their erasure; and the branches a payment may
  be attributed to.
\<close>

section \<open>Customers\<close>

record create_customer =
  cc_name :: "string option"
  cc_email :: "string option"
  cc_phone :: "string option"
  cc_external :: "string option"
  cc_referral_code :: "string option"

record contact =
  ct_phone :: "string option"
  ct_email :: "string option"
  ct_name :: "string option"

definition new_customer :: "string \<Rightarrow> string \<Rightarrow> string option \<Rightarrow> string option \<Rightarrow> string option \<Rightarrow> string option \<Rightarrow> int \<Rightarrow> customer_row" where
  "new_customer i storeId name email phone external now =
     \<lparr>c_id = i, c_store = storeId, c_name = name, c_email = email, c_phone = phone, c_points = 0, c_lifetime = 0,
      c_tier = None, c_referral_code = None, c_wallet = None, c_referred_by = None, c_created = now, c_external = external\<rparr>"

text \<open>A collision is reported as a duplicate \<open>external_id\<close>, also one met while linking the referral.\<close>

definition create_customer :: "string \<Rightarrow> create_customer \<Rightarrow> customer_row handler" where
  "create_customer storeId dto =
     catchM
       (bindM (prefixedId ''cus'') (\<lambda>i.
        bindM (getsM clock) (\<lambda>now.
        (let c = new_customer i storeId (cc_name dto) (map_option to_lower (cc_email dto)) (cc_phone dto) (cc_external dto) now in
         seqM (createM customers customers_update customer_clash c)
         (seqM (case cc_referral_code dto of
                  None \<Rightarrow> ret ()
                | Some code \<Rightarrow> if code = [] then ret () else linkReferral storeId (c_id c) code)
           (ret c))))))
       (\<lambda>e. if e = P2002 then throw (invalidRequest ''A customer with this external_id already exists'') else throw e)"

definition customer_scoped :: "string \<Rightarrow> string \<Rightarrow> customer_row handler" where
  "customer_scoped storeId i =
     bindM (findM customers (\<lambda>c. c_id c = i)) (\<lambda>c.
     bindM (someM (paymentNotFound ''Customer not found'') c) (\<lambda>c.
     seqM (guardM (c_store c = storeId) (paymentNotFound ''Customer not found'')) (ret c)))"

definition resolveForStore :: "string \<Rightarrow> string \<Rightarrow> string handler" where
  "resolveForStore storeId customerId =
     bindM (findM customers (\<lambda>c. c_id c = customerId)) (\<lambda>c.
     bindM (someM (invalidRequest ''Unknown customer_id for this store'') c) (\<lambda>c.
     seqM (guardM (c_store c = storeId) (invalidRequest ''Unknown customer_id for this store'')) (ret (c_id c))))"

text \<open>A contact field counts when something is left of it after trimming.\<close>

definition contact_field :: "string option \<Rightarrow> string option" where
  "contact_field x = (case x of None \<Rightarrow> None | Some v \<Rightarrow> if trim v = [] then None else Some (trim v))"

definition contact_phone :: "contact \<Rightarrow> string option" where
  "contact_phone ct = contact_field (ct_phone ct)"

definition contact_email :: "contact \<Rightarrow> string option" where
  "contact_email ct = map_option to_lower (contact_field (ct_email ct))"

definition same_contact :: "string \<Rightarrow> string option \<Rightarrow> string option \<Rightarrow> customer_row \<Rightarrow> bool" where
  "same_contact storeId phone email c \<longleftrightarrow> c_store c = storeId \<and>
     (phone \<noteq> None \<and> c_phone c = phone \<or> email \<noteq> None \<and> c_email c = email)"

text \<open>\<open>orderBy createdAt asc\<close> and take the first.\<close>

definition oldest_match :: "string \<Rightarrow> string option \<Rightarrow> string option \<Rightarrow> db \<Rightarrow> customer_row option" where
  "oldest_match storeId phone email s = find_by (same_contact storeId phone email) (sort_key c_created (customers s))"

definition findByContact :: "string \<Rightarrow> contact \<Rightarrow> string option handler" where
  "findByContact storeId ct =
     (let phone = contact_phone ct; email = contact_email ct in
      if phone = None \<and> email = None then ret None
      else bindM (getsM (oldest_match storeId phone email)) (\<lambda>c. ret (map_option c_id c)))"

definition absent :: "string option \<Rightarrow> bool" where
  "absent x \<longleftrightarrow> x = None \<or> x = Some []"

definition complete_contact :: "string option \<Rightarrow> string option \<Rightarrow> string option \<Rightarrow> customer_row \<Rightarrow> customer_row" where
  "complete_contact phone email name c =
     c\<lparr>c_phone := (if phone \<noteq> None \<and> absent (c_phone c) then phone else c_phone c),
       c_email := (if email \<noteq> None \<and> absent (c_email c) then email else c_email c),
       c_name := (if \<not> absent name \<and> absent (c_name c) then name else c_name c)\<rparr>"

definition resolveOrCreateByContact :: "string \<Rightarrow> contact \<Rightarrow> string option handler" where
  "resolveOrCreateByContact storeId ct =
     (let phone = contact_phone ct; email = contact_email ct in
      if phone = None \<and> email = None then ret None
      else bindM (getsM (oldest_match storeId phone email)) (\<lambda>existing.
        case existing of
          Some c \<Rightarrow>
            bindM (if complete_contact phone email (ct_name ct) c = c then ret ()
                   else updateM customers customers_update (\<lambda>x. c_id x = c_id c)
                     (\<lambda>x. x\<lparr>c_phone := c_phone (complete_contact phone email (ct_name ct) c),
                            c_email := c_email (complete_contact phone email (ct_name ct) c),
                            c_name := c_name (complete_contact phone email (ct_name ct) c)\<rparr>))
              (\<lambda>_. ret (Some (c_id c)))
        | None \<Rightarrow>
            bindM (prefixedId ''cus'') (\<lambda>i.
            bindM (getsM clock) (\<lambda>now.
            seqM (createM customers customers_update customer_clash (new_customer i storeId (ct_name ct) email phone None now))
              (ret (Some i))))))"

section \<open>The dashboard\<close>

fun is_infix :: "string \<Rightarrow> string \<Rightarrow> bool" where
  "is_infix x [] = (x = [])"
| "is_infix x (c # s) = (take (length x) (c # s) = x \<or> is_infix x s)"

definition contains_opt :: "string \<Rightarrow> string option \<Rightarrow> bool" where
  "contains_opt x v \<longleftrightarrow> (case v of None \<Rightarrow> False | Some y \<Rightarrow> is_infix x y)"

definition found_by :: "string \<Rightarrow> customer_row \<Rightarrow> bool" where
  "found_by x c \<longleftrightarrow> contains_opt (to_lower x) (map_option to_lower (c_email c)) \<or> contains_opt (to_lower x) (map_option to_lower (c_name c)) \<or>
     contains_opt x (c_external c) \<or> contains_opt x (c_phone c)"

text \<open>A page of fifty, newest first, after the cursor row if one is given.\<close>

definition after_cursor :: "string option \<Rightarrow> customer_row list \<Rightarrow> customer_row list" where
  "after_cursor cursor cs = (case cursor of None \<Rightarrow> cs
     | Some i \<Rightarrow> if i = [] then cs else drop 1 (dropWhile (\<lambda>c. c_id c \<noteq> i) cs))"

definition page_of :: "nat \<Rightarrow> customer_row list \<Rightarrow> customer_row list \<times> bool \<times> string option" where
  "page_of limit cs = (let rows = take (limit + 1) cs; more = limit < length rows in
     (take limit rows, more, if more then Some (c_id (rows ! (limit - 1))) else None))"

definition dashboardList ::
    "auth_user \<Rightarrow> string \<Rightarrow> string option \<Rightarrow> string option \<Rightarrow> (customer_row list \<times> bool \<times> string option) handler" where
  "dashboardList u storeId search cursor =
     bindM (assertStore u storeId PaymentRead) (\<lambda>_.
     bindM (manyM customers (\<lambda>c. c_store c = storeId \<and> (absent search \<or> found_by (the search) c))) (\<lambda>cs.
       ret (page_of 50 (after_cursor cursor (rev (sort_key c_created cs))))))"

definition list_customers ::
    "string \<Rightarrow> string option \<Rightarrow> string option \<Rightarrow> nat option \<Rightarrow> string option \<Rightarrow> (customer_row list \<times> bool \<times> string option) handler" where
  "list_customers storeId email external limit cursor =
     bindM (manyM customers (\<lambda>c. c_store c = storeId \<and> (absent email \<or> c_email c = map_option to_lower email) \<and>
       (absent external \<or> c_external c = external))) (\<lambda>cs.
       ret (page_of (min (case limit of None \<Rightarrow> 20 | Some n \<Rightarrow> n) 100) (after_cursor cursor (rev (sort_key c_created cs)))))"

record customer_metrics =
  cm_total :: nat
  cm_paid_count :: nat
  cm_lifetime_value :: string
  cm_paid_volume :: string
  cm_refunded_total :: string

definition customer_payments :: "string \<Rightarrow> db \<Rightarrow> payment_row list" where
  "customer_payments i s = rows_where (\<lambda>p. p_customer p = Some i) (payments s)"

definition metrics_of :: "string \<Rightarrow> db \<Rightarrow> customer_metrics" where
  "metrics_of i s =
     (let paid = rows_where (\<lambda>p. p_status p = Paid) (customer_payments i s);
          vol = sum_list (map p_amount paid); back = sum_list (map p_refunded paid) in
      \<lparr>cm_total = length (customer_payments i s), cm_paid_count = length paid, cm_lifetime_value = to_fixed 2 (vol - back),
       cm_paid_volume = to_fixed 2 vol, cm_refunded_total = to_fixed 2 back\<rparr>)"

section \<open>Preferences and consent\<close>

definition CONSENT_CHANNELS :: "string list" where
  "CONSENT_CHANNELS = [''email'', ''sms'', ''whatsapp'', ''telegram'', ''push'', ''marketing'']"

definition pref_key :: "string \<Rightarrow> string \<Rightarrow> preference_row \<Rightarrow> bool" where
  "pref_key customerId channel x \<longleftrightarrow> cpf_customer x = customerId \<and> cpf_channel x = channel"

definition opted_in :: "string \<Rightarrow> string \<Rightarrow> db \<Rightarrow> bool" where
  "opted_in customerId channel s =
     (case find_by (pref_key customerId channel) (preferences s) of None \<Rightarrow> True | Some x \<Rightarrow> cpf_opted x)"

definition currentPreferences :: "string \<Rightarrow> db \<Rightarrow> (string \<times> bool) list" where
  "currentPreferences customerId s = map (\<lambda>ch. (ch, opted_in customerId ch s)) CONSENT_CHANNELS"

definition hasConsent :: "string \<Rightarrow> string \<Rightarrow> bool handler" where
  "hasConsent customerId channel = getsM (opted_in customerId channel)"

definition set_channel :: "string \<Rightarrow> string \<Rightarrow> string \<times> bool \<Rightarrow> unit handler" where
  "set_channel customerId source e =
     transaction
       (bindM (findM preferences (pref_key customerId (fst e))) (\<lambda>existing.
        bindM (prefixedId ''pref'') (\<lambda>i.
        bindM (case existing of
            Some x \<Rightarrow> bindM (update_manyM preferences preferences_update (pref_key customerId (fst e)) (cpf_opted_update (\<lambda>_. snd e))) (\<lambda>_. ret ())
          | None \<Rightarrow> modifyM (preferences_update (\<lambda>t. t @ [\<lparr>cpf_id = i, cpf_customer = customerId, cpf_channel = fst e, cpf_opted = snd e\<rparr>]))) (\<lambda>_.
        bindM (prefixedId ''cslog'') (\<lambda>j.
        bindM (getsM clock) (\<lambda>now.
          modifyM (consent_logs_update (\<lambda>t. t @ [\<lparr>cl_id = j, cl_customer = customerId, cl_channel = fst e, cl_opted = snd e,
            cl_source = source, cl_created = now\<rparr>])))))))) "

definition channel_message :: string where
  "channel_message = ''No valid channels; allowed: email, sms, whatsapp, telegram, push, marketing''"

definition applyPreferences :: "string \<Rightarrow> (string \<times> bool) list \<Rightarrow> string \<Rightarrow> unit handler" where
  "applyPreferences customerId prefs source =
     (let es = filter (\<lambda>e. List.member CONSENT_CHANNELS (fst e)) prefs in
      if es = [] then throw (invalidRequest channel_message) else forM es (set_channel customerId source))"

definition setPreferences :: "string \<Rightarrow> string \<Rightarrow> (string \<times> bool) list \<Rightarrow> string \<Rightarrow> (string \<times> bool) list handler" where
  "setPreferences storeId customerId prefs source =
     bindM (customer_scoped storeId customerId) (\<lambda>c.
     seqM (applyPreferences (c_id c) prefs source) (getsM (currentPreferences (c_id c))))"

definition customer_owned :: "auth_user \<Rightarrow> string \<Rightarrow> permission \<Rightarrow> customer_row handler" where
  "customer_owned u customerId perm = ownedM customers (\<lambda>c. c_id c = customerId) c_store ''Customer not found'' u perm"

definition customer360 :: "auth_user \<Rightarrow> string \<Rightarrow> (customer_row \<times> (string \<times> bool) list \<times> tier_row option \<times> customer_metrics \<times> payment_row list) handler" where
  "customer360 u customerId =
     bindM (customer_owned u customerId PaymentRead) (\<lambda>c.
     bindM (getsM (\<lambda>s. take 10 (rev (sort_key p_created (customer_payments customerId s))))) (\<lambda>recent.
     bindM (getsM (metrics_of customerId)) (\<lambda>m.
     bindM (getsM (currentPreferences customerId)) (\<lambda>prefs.
     bindM (getsM (\<lambda>s. Option.bind (c_tier c) (\<lambda>i. find_by (\<lambda>t. t_id t = i) (tiers s)))) (\<lambda>tier.
       ret (c, prefs, tier, m, recent))))))"

definition setPreferencesDashboard :: "auth_user \<Rightarrow> string \<Rightarrow> (string \<times> bool) list \<Rightarrow> (string \<times> bool) list handler" where
  "setPreferencesDashboard u customerId prefs =
     bindM (customer_owned u customerId StoreWrite) (\<lambda>c.
     seqM (applyPreferences (c_id c) prefs ''dashboard'') (getsM (currentPreferences (c_id c))))"

definition consentHistory :: "auth_user \<Rightarrow> string \<Rightarrow> consent_row list handler" where
  "consentHistory u customerId =
     bindM (customer_owned u customerId PaymentRead) (\<lambda>_.
     bindM (manyM consent_logs (\<lambda>l. cl_customer l = customerId)) (\<lambda>ls. ret (take 100 (rev ls))))"

definition erased :: "customer_row \<Rightarrow> customer_row" where
  "erased c = c\<lparr>c_name := Some ''[erased]'', c_email := None, c_phone := None, c_external := None, c_referral_code := None\<rparr>"

definition erase :: "auth_user \<Rightarrow> string \<Rightarrow> unit handler" where
  "erase u customerId =
     bindM (customer_owned u customerId StoreWrite) (\<lambda>_.
     transaction
       (seqM (updateM customers customers_update (\<lambda>c. c_id c = customerId) erased)
       (seqM (deleteM preferences preferences_update (\<lambda>x. cpf_customer x = customerId))
         (deleteM consent_logs consent_logs_update (\<lambda>l. cl_customer l = customerId)))))"

section \<open>Branches\<close>

record update_branch_dto =
  ub_name :: "string option"
  ub_code :: "string option"
  ub_address :: "string option"
  ub_active :: "bool option"

definition code_taken :: exn where
  "code_taken = invalidRequest ''A branch with this code already exists in the store''"

definition create_branch :: "auth_user \<Rightarrow> string \<Rightarrow> string \<Rightarrow> string option \<Rightarrow> string option \<Rightarrow> branch_row handler" where
  "create_branch u storeId name code address =
     bindM (assertStore u storeId StoreWrite) (\<lambda>_.
     catchM
       (bindM (prefixedId ''br'') (\<lambda>i.
        (let b = \<lparr>b_id = i, b_store = storeId, b_active = True, b_name = name, b_code = code, b_address = address\<rparr> in
         seqM (createM branches branches_update branch_clash b) (ret b))))
       (\<lambda>e. if e = P2002 then throw code_taken else throw e))"

definition list_branches :: "auth_user \<Rightarrow> string \<Rightarrow> branch_row list handler" where
  "list_branches u storeId =
     bindM (assertStore u storeId StoreRead) (\<lambda>_. manyM branches (\<lambda>b. b_store b = storeId))"

definition edit_branch :: "update_branch_dto \<Rightarrow> branch_row \<Rightarrow> branch_row" where
  "edit_branch dto b =
     b\<lparr>b_name := (case ub_name dto of None \<Rightarrow> b_name b | Some x \<Rightarrow> x),
       b_code := (case ub_code dto of None \<Rightarrow> b_code b | Some x \<Rightarrow> Some x),
       b_address := (case ub_address dto of None \<Rightarrow> b_address b | Some x \<Rightarrow> Some x),
       b_active := (case ub_active dto of None \<Rightarrow> b_active b | Some x \<Rightarrow> x)\<rparr>"

text \<open>The unique index on the store and code refuses a code that another branch has.\<close>

definition update_branch :: "auth_user \<Rightarrow> string \<Rightarrow> update_branch_dto \<Rightarrow> unit handler" where
  "update_branch u branchId dto =
     bindM (ownedM branches (\<lambda>b. b_id b = branchId) b_store ''Branch not found'' u StoreWrite) (\<lambda>b.
     bindM (getsM (\<lambda>s. exists_by (\<lambda>x. b_id x \<noteq> branchId \<and> branch_clash (edit_branch dto b) x) (branches s))) (\<lambda>taken.
     seqM (guardM (\<not> taken) code_taken)
       (updateM branches branches_update (\<lambda>x. b_id x = branchId) (edit_branch dto))))"

datatype removal = Deactivated | Deleted

definition remove_branch :: "auth_user \<Rightarrow> string \<Rightarrow> removal handler" where
  "remove_branch u branchId =
     bindM (ownedM branches (\<lambda>b. b_id b = branchId) b_store ''Branch not found'' u StoreWrite) (\<lambda>_.
     bindM (getsM (\<lambda>s. count_where (\<lambda>p. p_branch p = Some branchId) (payments s))) (\<lambda>n.
     if 0 < n
     then seqM (updateM branches branches_update (\<lambda>b. b_id b = branchId) (b_active_update (\<lambda>_. False))) (ret Deactivated)
     else seqM (deleteM branches branches_update (\<lambda>b. b_id b = branchId)) (ret Deleted)))"

definition resolveActive :: "string \<Rightarrow> string \<Rightarrow> string handler" where
  "resolveActive storeId branchId =
     bindM (findM branches (\<lambda>b. b_id b = branchId)) (\<lambda>b.
     bindM (someM (invalidRequest ''Unknown branch_id for this store'') b) (\<lambda>b.
     seqM (guardM (b_store b = storeId) (invalidRequest ''Unknown branch_id for this store''))
     (seqM (guardM (b_active b) (invalidRequest ''Branch is inactive'')) (ret (b_id b)))))"

section \<open>Resolving a contact\<close>

lemma insort_key_map: "insort_key k (g x) (map g ys) = map g (insort_key (\<lambda>x. k (g x)) x ys)"
  by (induction ys) auto

lemma sort_key_map: "sort_key k (map g xs) = map g (sort_key (\<lambda>x. k (g x)) xs)"
  by (induction xs) (simp_all add: insort_key_map)

lemma sort_key_update_where:
  assumes "\<And>x. k (f x) = k x"
  shows "sort_key k (update_where p f xs) = update_where p f (sort_key k xs)"
proof -
  have "(\<lambda>x. k (if p x then f x else x)) = k" using assms by auto
  then show ?thesis by (simp add: update_where_def sort_key_map)
qed

lemma find_by_update_hit:
  assumes "distinct (map k ys)" and "find_by P ys = Some c" and "P (f c)"
  shows "find_by P (update_where (\<lambda>x. k x = k c) f ys) = Some (f c)"
  using assms
proof (induction ys)
  case (Cons y ys)
  show ?case
  proof (cases "P y")
    case False
    with Cons.prems have "find_by P ys = Some c" "k y \<noteq> k c" using find_by_SomeD [of P ys c] by auto
    with Cons False show ?thesis by simp
  qed (use Cons.prems in auto)
qed simp

lemma find_by_only: "r \<in> set ys \<Longrightarrow> (\<And>x. x \<in> set ys \<Longrightarrow> P x \<longleftrightarrow> x = r) \<Longrightarrow> find_by P ys = Some r"
  by (induction ys) auto

lemma contact_fields_present: "contact_phone ct \<noteq> Some []" "contact_email ct \<noteq> Some []"
  by (auto simp: contact_phone_def contact_email_def contact_field_def to_lower_def split: option.splits if_splits)

lemma same_contact_completed:
  assumes "same_contact st (contact_phone ct) (contact_email ct) c"
  shows "same_contact st (contact_phone ct) (contact_email ct) (complete_contact (contact_phone ct) (contact_email ct) name c)"
  using assms contact_fields_present [of ct] by (auto simp: same_contact_def complete_contact_def absent_def)

lemma complete_contact_twice:
  "complete_contact (contact_phone ct) (contact_email ct) name (complete_contact (contact_phone ct) (contact_email ct) name c) =
   complete_contact (contact_phone ct) (contact_email ct) name c"
  using contact_fields_present [of ct] by (auto simp: complete_contact_def absent_def)

lemma complete_contact_new: "complete_contact phone email name (new_customer i st name email phone None n) = new_customer i st name email phone None n"
  by (auto simp: complete_contact_def new_customer_def)

abbreviation completed :: "contact \<Rightarrow> customer_row \<Rightarrow> customer_row" where
  "completed ct c \<equiv> complete_contact (contact_phone ct) (contact_email ct) (ct_name ct) c"

lemma contact_given:
  assumes "resolveOrCreateByContact st ct s = (Inr (Some i), t)"
  shows "contact_phone ct \<noteq> None \<or> contact_email ct \<noteq> None"
proof (rule ccontr)
  assume "\<not> ?thesis"
  with assms show False by (simp add: resolveOrCreateByContact_def ret_def)
qed

lemma resolve_cases:
  assumes "resolveOrCreateByContact st ct s = (Inr (Some i), t)" and "keyed c_id (customers s)"
  obtains (found) c where "oldest_match st (contact_phone ct) (contact_email ct) s = Some c" "i = c_id c"
      "t = s\<lparr>customers := update_where (\<lambda>x. c_id x = c_id c) (completed ct) (customers s)\<rparr>"
    | (made) "oldest_match st (contact_phone ct) (contact_email ct) s = None" "i = ''cus_'' @ rnd s (draws s)"
      "t = s\<lparr>draws := Suc (draws s),
         customers := customers s @ [new_customer i st (ct_name ct) (contact_email ct) (contact_phone ct) None (clock s)]\<rparr>"
proof (cases "oldest_match st (contact_phone ct) (contact_email ct) s")
  case None
  with assms(1) show ?thesis
    by (intro made) (auto simp: resolveOrCreateByContact_def op_simps Let_def split: if_splits)
next
  case (Some c)
  from find_by_SomeD [OF Some [unfolded oldest_match_def]] have c: "c \<in> set (customers s)" by simp
  then have ex: "exists_by (\<lambda>x. c_id x = c_id c) (customers s)" by (auto simp: exists_by_iff)
  have one: "update_where (\<lambda>x. c_id x = c_id c) f (customers s) = update_where (\<lambda>x. c_id x = c_id c) (completed ct) (customers s)"
    if "f c = completed ct c" for f
    using keyed_unique [OF assms(2) _ c] that by (auto simp: update_where_def)
  have id: "completed ct c = c \<Longrightarrow> update_where (\<lambda>x. c_id x = c_id c) (completed ct) (customers s) = customers s"
    using one [of "\<lambda>x. x"] by (simp add: update_where_def)
  have same: "completed ct c = c\<lparr>c_phone := c_phone (completed ct c), c_email := c_email (completed ct c), c_name := c_name (completed ct c)\<rparr>"
    by (simp add: complete_contact_def)
  show ?thesis
  proof (cases "completed ct c = c")
    case True
    with assms(1) Some have "i = c_id c" "t = s"
      by (auto simp: resolveOrCreateByContact_def op_simps Let_def split: if_splits)
    with id [OF True] show ?thesis by (intro found [OF Some]) simp_all
  next
    case False
    with assms(1) Some ex have "i = c_id c"
      "t = s\<lparr>customers := update_where (\<lambda>x. c_id x = c_id c) (\<lambda>x. x\<lparr>c_phone := c_phone (completed ct c),
         c_email := c_email (completed ct c), c_name := c_name (completed ct c)\<rparr>) (customers s)\<rparr>"
      by (auto simp: resolveOrCreateByContact_def op_simps Let_def split: if_splits)
    with one [of "\<lambda>x. x\<lparr>c_phone := c_phone (completed ct c), c_email := c_email (completed ct c), c_name := c_name (completed ct c)\<rparr>"] same
    show ?thesis by (intro found [OF Some]) simp_all
  qed
qed

lemma oldest_match_after:
  assumes "resolveOrCreateByContact st ct s = (Inr (Some i), t)" and "keyed c_id (customers s)"
  shows "\<exists>c. oldest_match st (contact_phone ct) (contact_email ct) t = Some c \<and> c_id c = i \<and> completed ct c = c"
  using assms
proof (cases rule: resolve_cases)
  case (found c)
  have "distinct (map c_id (sort_key c_created (customers s)))"
    using assms(2) by (simp add: keyed_def distinct_map)
  moreover note f = found(1) [unfolded oldest_match_def]
  moreover have "same_contact st (contact_phone ct) (contact_email ct) (completed ct c)"
    using find_by_SomeD [OF f] by (simp add: same_contact_completed)
  ultimately have "oldest_match st (contact_phone ct) (contact_email ct) t = Some (completed ct c)"
    using find_by_update_hit [of c_id _ _ c "completed ct"]
    by (simp add: oldest_match_def found(3) sort_key_update_where complete_contact_def)
  moreover have "c_id (completed ct c) = i" by (simp add: found(2) complete_contact_def)
  ultimately show ?thesis by (simp add: complete_contact_twice)
next
  case made
  let ?c = "new_customer i st (ct_name ct) (contact_email ct) (contact_phone ct) None (clock s)"
  have some: "contact_phone ct \<noteq> None \<or> contact_email ct \<noteq> None"
    by (rule contact_given [OF assms(1)])
  have "same_contact st (contact_phone ct) (contact_email ct) ?c"
    using some by (auto simp: same_contact_def new_customer_def)
  moreover have "\<not> same_contact st (contact_phone ct) (contact_email ct) x" if "x \<in> set (customers s)" for x
    using made(1) that by (simp add: oldest_match_def find_by_None)
  ultimately have "oldest_match st (contact_phone ct) (contact_email ct) t = Some ?c"
    unfolding oldest_match_def by (intro find_by_only) (auto simp: made(3))
  then show ?thesis by (auto simp: complete_contact_new) (simp add: new_customer_def)
qed

section \<open>Properties\<close>

text \<open>A contact given at the counter keeps resolving to the same customer: once it has been resolved, found or
  created, resolving it again returns the same customer and writes nothing, and the read-only lookup
  agrees.\<close>

theorem contact_resolution_stable:
  assumes "resolveOrCreateByContact st ct s = (Inr (Some i), t)" and "keyed c_id (customers s)"
  shows "resolveOrCreateByContact st ct t = (Inr (Some i), t) \<and> findByContact st ct t = (Inr (Some i), t)"
proof -
  from oldest_match_after [OF assms] obtain c where
    c: "oldest_match st (contact_phone ct) (contact_email ct) t = Some c" "c_id c = i" "completed ct c = c" by blast
  moreover note contact_given [OF assms(1)]
  ultimately show ?thesis
    by (auto simp: resolveOrCreateByContact_def findByContact_def op_simps Let_def)
qed

theorem contact_resolution_stable_witness:
  "\<exists>i t. resolveOrCreateByContact ''store_1'' \<lparr>ct_phone = Some '' 012 '', ct_email = None, ct_name = Some ''Dara''\<rparr> empty_db = (Inr (Some i), t) \<and>
     length (customers t) = 1 \<and>
     resolveOrCreateByContact ''store_1'' \<lparr>ct_phone = Some '' 012 '', ct_email = None, ct_name = Some ''Dara''\<rparr> t = (Inr (Some i), t)"
proof -
  let ?ct = "\<lparr>ct_phone = Some '' 012 '', ct_email = None, ct_name = Some ''Dara''\<rparr>"
  have f: "contact_phone ?ct = Some ''012''" "contact_email ?ct = None"
    by (simp_all add: contact_phone_def contact_email_def contact_field_def trim_def trim_left_def is_space_def)
  have "\<exists>i t. resolveOrCreateByContact ''store_1'' ?ct empty_db = (Inr (Some i), t) \<and> length (customers t) = 1"
    using f by (simp add: resolveOrCreateByContact_def op_simps Let_def oldest_match_def empty_db_def)
  moreover have "keyed c_id (customers empty_db)" by (simp add: empty_db_def)
  ultimately show ?thesis using contact_resolution_stable by blast
qed

text \<open>What setting preferences writes: each channel in turn, with a line in the trail.\<close>

lemma opted_in_set: "opted_in j ch (snd (set_channel i src e s)) = (if j = i \<and> ch = fst e then snd e else opted_in j ch s)"
  and set_channel_ok: "fst (set_channel i src e s) = Inr ()"
  and set_channel_log: "map (\<lambda>l. (cl_customer l, cl_channel l, cl_opted l)) (consent_logs (snd (set_channel i src e s))) =
     map (\<lambda>l. (cl_customer l, cl_channel l, cl_opted l)) (consent_logs s) @ [(i, e)]"
proof -
  define x where "x = \<lparr>cpf_id = ''pref_'' @ rnd s (draws s), cpf_customer = i, cpf_channel = fst e, cpf_opted = snd e\<rparr>"
  have same: "pref_key j ch (r\<lparr>cpf_opted := b\<rparr>) = pref_key j ch r" for r b by (simp add: pref_key_def)
  have x: "pref_key j ch x \<longleftrightarrow> j = i \<and> ch = fst e" "cpf_opted x = snd e" by (auto simp: pref_key_def x_def)
  have "fst (set_channel i src e s) = Inr () \<and>
    opted_in j ch (snd (set_channel i src e s)) = (if j = i \<and> ch = fst e then snd e else opted_in j ch s) \<and>
    map (\<lambda>l. (cl_customer l, cl_channel l, cl_opted l)) (consent_logs (snd (set_channel i src e s))) =
     map (\<lambda>l. (cl_customer l, cl_channel l, cl_opted l)) (consent_logs s) @ [(i, e)]"
  proof (cases "find_by (pref_key i (fst e)) (preferences s)")
    case None
    then have "set_channel i src e s = (Inr (), s\<lparr>draws := Suc (Suc (draws s)), preferences := preferences s @ [x],
       consent_logs := consent_logs s @ [\<lparr>cl_id = ''cslog_'' @ rnd s (Suc (draws s)), cl_customer = i, cl_channel = fst e,
         cl_opted = snd e, cl_source = src, cl_created = clock s\<rparr>]\<rparr>)"
      by (simp add: set_channel_def transaction_def op_simps x_def)
    then show ?thesis using None x by (auto simp: opted_in_def find_by_append split: option.split)
  next
    case (Some r)
    then have "set_channel i src e s = (Inr (), s\<lparr>draws := Suc (Suc (draws s)),
       preferences := update_where (pref_key i (fst e)) (cpf_opted_update (\<lambda>_. snd e)) (preferences s),
       consent_logs := consent_logs s @ [\<lparr>cl_id = ''cslog_'' @ rnd s (Suc (draws s)), cl_customer = i, cl_channel = fst e,
         cl_opted = snd e, cl_source = src, cl_created = clock s\<rparr>]\<rparr>)"
      by (simp add: set_channel_def transaction_def op_simps)
    moreover have "pref_key j ch y \<Longrightarrow> pref_key i (fst e) y \<longleftrightarrow> j = i \<and> ch = fst e" for y by (auto simp: pref_key_def)
    ultimately show ?thesis using Some find_by_SomeD [of "pref_key j ch" "preferences s"]
      by (auto simp: opted_in_def find_by_update_where same split: option.split)
  qed
  then show "opted_in j ch (snd (set_channel i src e s)) = (if j = i \<and> ch = fst e then snd e else opted_in j ch s)"
    "fst (set_channel i src e s) = Inr ()"
    "map (\<lambda>l. (cl_customer l, cl_channel l, cl_opted l)) (consent_logs (snd (set_channel i src e s))) =
     map (\<lambda>l. (cl_customer l, cl_channel l, cl_opted l)) (consent_logs s) @ [(i, e)]" by blast+
qed

lemma forM_set_channel:
  assumes "forM es (set_channel i src) s = (r, t)"
  shows "r = Inr () \<and> (\<forall>j ch. opted_in j ch t = (if j = i then case map_of (rev es) ch of None \<Rightarrow> opted_in j ch s | Some b \<Rightarrow> b else opted_in j ch s)) \<and>
    map (\<lambda>l. (cl_customer l, cl_channel l, cl_opted l)) (consent_logs t) =
      map (\<lambda>l. (cl_customer l, cl_channel l, cl_opted l)) (consent_logs s) @ map (\<lambda>e. (i, e)) es"
  using assms
proof (induction es arbitrary: s)
  case Nil
  then show ?case by (auto simp: ret_def)
next
  case (Cons e es)
  let ?u = "snd (set_channel i src e s)"
  have "set_channel i src e s = (Inr (), ?u)" using set_channel_ok [of i src e s] by (metis prod.collapse)
  with Cons.prems have "forM es (set_channel i src) ?u = (r, t)"
    by (simp add: seqM_def bindM_result [where m = "set_channel i src e"])
  from Cons.IH [OF this] show ?case
    by (auto simp: opted_in_set set_channel_log map_add_def split: option.split)
qed

text \<open>Consent follows the request: after preferences are set, every channel named in the request that the
  platform knows has the value last given for it, the other channels and the other customers keep
  theirs, and the trail has gained exactly one line for each change, in order; a request that names no known
  channel is refused and changes nothing.\<close>

theorem consent_follows_request:
  assumes "applyPreferences i prefs src s = (r, t)" and "es = filter (\<lambda>e. fst e \<in> set CONSENT_CHANNELS) prefs"
  shows "(if es = [] then r = Inl (invalidRequest channel_message) \<and> t = s
     else r = Inr () \<and>
       (\<forall>ch. opted_in i ch t = (case map_of (rev es) ch of None \<Rightarrow> opted_in i ch s | Some b \<Rightarrow> b)) \<and>
       (\<forall>j ch. j \<noteq> i \<longrightarrow> opted_in j ch t = opted_in j ch s) \<and>
       map (\<lambda>l. (cl_customer l, cl_channel l, cl_opted l)) (consent_logs t) =
         map (\<lambda>l. (cl_customer l, cl_channel l, cl_opted l)) (consent_logs s) @ map (\<lambda>e. (i, e)) es)"
proof -
  have a: "applyPreferences i prefs src s = (if es = [] then throw (invalidRequest channel_message) else forM es (set_channel i src)) s"
    using assms(2) by (simp add: applyPreferences_def Let_def)
  show ?thesis
  proof (cases "es = []")
    case True
    with a assms(1) show ?thesis by (simp add: throw_def)
  next
    case False
    with a assms(1) have "forM es (set_channel i src) s = (r, t)" by simp
    from forM_set_channel [OF this] False show ?thesis by auto
  qed
qed

theorem consent_follows_request_witness:
  "\<exists>t. applyPreferences ''cus_1'' [(''email'', False), (''fax'', True)] ''api'' empty_db = (Inr (), t) \<and>
     \<not> opted_in ''cus_1'' ''email'' t \<and> opted_in ''cus_2'' ''email'' t"
proof -
  have "filter (\<lambda>e. fst e \<in> set CONSENT_CHANNELS) [(''email'', False), (''fax'', True)] = [(''email'', False)]"
    by (simp add: CONSENT_CHANNELS_def)
  moreover have "opted_in ''cus_2'' ''email'' empty_db" by (simp add: opted_in_def empty_db_def)
  moreover obtain r t where "applyPreferences ''cus_1'' [(''email'', False), (''fax'', True)] ''api'' empty_db = (r, t)"
    by (rule prod.exhaust)
  ultimately show ?thesis
    using consent_follows_request [of "''cus_1''" "[(''email'', False), (''fax'', True)]" "''api''" empty_db r t] by auto
qed

text \<open>
  Erasure clears the profile, the preferences and the trail of one customer and nothing else: in
  particular the metadata of the payments keeps the mail address it was given, and a receipt of
  such a payment still finds it.
\<close>

lemma erase_result:
  assumes "erase u i s = (Inr (), t)"
  shows "t = s\<lparr>customers := update_where (\<lambda>c. c_id c = i) erased (customers s),
    preferences := delete_where (\<lambda>x. cpf_customer x = i) (preferences s),
    consent_logs := delete_where (\<lambda>l. cl_customer l = i) (consent_logs s)\<rparr>"
proof (cases "fst (customer_owned u i StoreWrite s)")
  case (Inl e)
  with assms show ?thesis by (simp add: erase_def customer_owned_def op_simps)
next
  case (Inr c)
  define v where "v = s\<lparr>customers := update_where (\<lambda>c. c_id c = i) erased (customers s),
    preferences := delete_where (\<lambda>x. cpf_customer x = i) (preferences s),
    consent_logs := delete_where (\<lambda>l. cl_customer l = i) (consent_logs s)\<rparr>"
  from Inr have "erase u i s = (if exists_by (\<lambda>c. c_id c = i) (customers s) then (Inr (), v) else (Inl P2025, s))"
    by (simp add: erase_def customer_owned_def op_simps transaction_def deleteM_def v_def)
  with assms show ?thesis unfolding v_def [symmetric] by (simp split: if_splits)
qed

lemma erase_keeps_payment_mail:
  assumes "erase u i s = (Inr (), t)" and "p \<in> set (payments s)" and "md_customer_email (p_metadata p) = Some addr"
  shows "p \<in> set (payments t) \<and> md_customer_email (p_metadata p) = Some addr \<and>
    (\<forall>c \<in> set (customers t). c_id c = i \<longrightarrow> c_email c = None \<and> c_phone c = None)"
proof -
  have t: "payments t = payments s" "customers t = update_where (\<lambda>c. c_id c = i) erased (customers s)"
    by (simp_all add: erase_result [OF assms(1)])
  have e: "c_email (erased c) = None" "c_phone (erased c) = None" for c by (simp_all add: erased_def)
  have "\<forall>c \<in> set (update_where (\<lambda>c. c_id c = i) erased cs). c_id c = i \<longrightarrow> c_email c = None \<and> c_phone c = None" for cs
    by (induction cs) (simp_all add: e)
  then show ?thesis using assms(2,3) by (simp add: t)
qed

end
