(* ===== verification/Payments.thy ===== *)
theory Payments
  imports Customers Webhooks Risk Games Quota Coupons GiftCards Awards
begin

text \<open>
  \<open>apps/api/src/payments/payments.service.ts\<close>: the life of a payment. A create prices the
  charge, draws the code through the provider and records the payment with its idempotency key; a
  transition moves it along the status machine under a guard on the status it read and runs the
  effects of a capture; a refund reserves its amount under a guard on the amount refunded so far.
\<close>

section \<open>What surrounds the service\<close>

text \<open>
  The provider is an argument: what it answers to a request for a code and to a refund. The
  writes that other requests commit at the two points where this one may lose a race are
  arguments too: \<open>en_others\<close> between the idempotency check and this request's own transaction,
  \<open>en_between\<close> between the read of a transition and its guarded update.
\<close>

record create_khqr =
  ck_payment :: string
  ck_store :: string
  ck_mode :: key_mode
  ck_amount :: string
  ck_currency :: currency
  ck_reference :: "string option"
  ck_description :: "string option"
  ck_merchant :: string
  ck_city :: string
  ck_expires :: int

record created_khqr =
  kr_qr :: string
  kr_md5 :: string
  kr_bill :: "string option"

record refund_result =
  rf_ok :: bool
  rf_provider_ref :: "string option"
  rf_manual :: bool

record provider =
  pv_name :: string
  pv_create :: "create_khqr \<Rightarrow> exn + created_khqr"
  pv_refund :: "string \<Rightarrow> string \<Rightarrow> currency \<Rightarrow> exn + refund_result"

record env =
  en_sha256 :: "string \<Rightarrow> string"
  en_provider :: provider
  en_paychain :: paychain
  en_checkout :: string
  en_others :: "db \<Rightarrow> db"
  en_between :: "db \<Rightarrow> db"

record api_key_ctx =
  ax_key :: string
  ax_store :: string
  ax_org :: string
  ax_mode :: key_mode

record create_dto =
  cd_amount :: string
  cd_currency :: currency
  cd_reference :: "string option"
  cd_description :: "string option"
  cd_metadata :: "metadata option"
  cd_expires_in :: "int option"
  cd_branch :: "string option"
  cd_customer :: "string option"
  cd_coupon :: "string option"
  cd_gift_card :: "string option"

definition DEFAULT_EXPIRY_SECONDS :: int where
  "DEFAULT_EXPIRY_SECONDS = 300"

text \<open>An optional string of a request counts when it is there and not empty.\<close>

definition given :: "string option \<Rightarrow> string option" where
  "given x = (case x of None \<Rightarrow> None | Some v \<Rightarrow> if v = [] then None else Some v)"

section \<open>Resources\<close>

definition serialize :: "string \<Rightarrow> payment_row \<Rightarrow> payment_resource" where
  "serialize checkoutBase p =
     \<lparr>ps_id = p_id p, ps_status = p_status p, ps_amount = formatAmount (p_amount p) (p_currency p), ps_currency = p_currency p,
      ps_reference = p_reference p, ps_description = p_description p, ps_metadata = p_metadata p, ps_qr = p_qr p,
      ps_checkout_url = checkoutBase @ ''/pay/'' @ p_id p, ps_created = p_created p, ps_expires = p_expires p,
      ps_paid_at = p_paid_at p, ps_refunded = formatAmount (p_refunded p) (p_currency p), ps_branch = p_branch p,
      ps_customer = p_customer p\<rparr>"

definition serializeRefund :: "refund_row \<Rightarrow> refund_resource" where
  "serializeRefund r =
     \<lparr>rr_id = r_id r, rr_payment = r_payment r, rr_amount = formatAmount (r_amount r) (r_currency r), rr_currency = r_currency r,
      rr_reason = r_reason r, rr_created = r_created r\<rparr>"

definition findScoped :: "string \<Rightarrow> string \<Rightarrow> payment_row handler" where
  "findScoped storeId i =
     bindM (findM payments (\<lambda>p. p_id p = i)) (\<lambda>p.
     bindM (someM (paymentNotFound ''Payment not found'') p) (\<lambda>p.
     seqM (guardM (p_store p = storeId) (paymentNotFound ''Payment not found'')) (ret p)))"

section \<open>The transition\<close>

definition move_to :: "payment_status \<Rightarrow> int option \<Rightarrow> payment_row \<Rightarrow> payment_row" where
  "move_to st paidAt p = p\<lparr>p_status := st, p_paid_at := paidAt\<rparr>"

definition add_history :: "string \<Rightarrow> payment_status option \<Rightarrow> payment_status \<Rightarrow> string \<Rightarrow> unit handler" where
  "add_history paymentId from_st to_st reason =
     modifyM (history_update (\<lambda>t. t @ [\<lparr>h_payment = paymentId, h_from = from_st, h_to = to_st, h_reason = reason\<rparr>]))"

definition illegal_message :: "payment_status \<Rightarrow> payment_status \<Rightarrow> string" where
  "illegal_message from_st to_st = ''Illegal transition '' @ status_name from_st @ '' -> '' @ status_name to_st"

text \<open>The transaction: the payment it leaves, and whether this call is the one that moved it.\<close>

definition transition_tx :: "(db \<Rightarrow> db) \<Rightarrow> string \<Rightarrow> payment_status \<Rightarrow> string \<Rightarrow> (payment_row \<times> bool) handler" where
  "transition_tx between paymentId to_st reason =
     transaction
       (bindM (findM payments (\<lambda>p. p_id p = paymentId)) (\<lambda>payment.
        bindM (someM (paymentNotFound ''Payment not found'') payment) (\<lambda>payment.
        if p_status payment = to_st then ret (payment, False)
        else seqM (guardM (canTransition (p_status payment) to_st) (invalidRequest (illegal_message (p_status payment) to_st)))
          (seqM (modifyM between)
          (bindM (getsM clock) (\<lambda>now.
           bindM (update_manyM payments payments_update (\<lambda>p. p_id p = paymentId \<and> p_status p = p_status payment)
                    (move_to to_st (if to_st = Paid then Some now else p_paid_at payment))) (\<lambda>count.
           if count \<noteq> 1 then ret (payment, False)
           else seqM (add_history paymentId (Some (p_status payment)) to_st reason)
             (bindM (findM payments (\<lambda>p. p_id p = paymentId)) (\<lambda>refreshed.
               ret ((case refreshed of None \<Rightarrow> payment | Some p \<Rightarrow> p), True))))))))))"

text \<open>The effects of a capture, in their order; only the ledger's own failure is caught here.\<close>

definition ledger_capture :: "payment_row \<Rightarrow> unit handler" where
  "ledger_capture result =
     catchM
       (bindM (findM stores (\<lambda>x. s_id x = p_store result)) (\<lambda>store.
         postPaymentCaptured result (case store of None \<Rightarrow> 0 | Some x \<Rightarrow> s_fee_bps x)))
       (\<lambda>e. ret ())"

definition paid_effects :: "paychain \<Rightarrow> payment_row \<Rightarrow> unit handler" where
  "paid_effects pc result =
     seqM (recordPaidForStore (p_store result))
     (seqM (coupons_onPaid result)
     (seqM (giftcards_onPaid result)
     (seqM (awardForPayment pc result)
     (seqM (onPaidPayment result)
     (seqM (accrueCommission result)
     (seqM (issueForPayment result)
     (seqM (scorePayment result)
     (seqM (receipts_onPaid result)
       (ledger_capture result)))))))))"

definition announce :: "payment_row \<Rightarrow> string \<Rightarrow> payment_status \<Rightarrow> unit handler" where
  "announce result paymentId to_st =
     seqM (emit (Published paymentId to_st))
       (if STATUS_TO_EVENT to_st = None then ret () else emitForStatus result to_st)"

definition transition_effects :: "paychain \<Rightarrow> payment_row \<Rightarrow> string \<Rightarrow> payment_status \<Rightarrow> unit handler" where
  "transition_effects pc result paymentId to_st =
     seqM (if to_st = Paid then paid_effects pc result else ret ()) (announce result paymentId to_st)"

definition transition :: "env \<Rightarrow> string \<Rightarrow> payment_status \<Rightarrow> string \<Rightarrow> payment_row handler" where
  "transition en paymentId to_st reason =
     bindM (transition_tx (en_between en) paymentId to_st reason) (\<lambda>(result, moved).
       seqM (if moved then transition_effects (en_paychain en) result paymentId to_st else ret ()) (ret result))"

definition applyLazyExpiry :: "env \<Rightarrow> payment_row \<Rightarrow> payment_row handler" where
  "applyLazyExpiry en p =
     bindM (getsM clock) (\<lambda>now.
       if p_status p \<in> {Pending, Scanned} \<and> p_expires p < now then transition en (p_id p) Expired ''expired (lazy)'' else ret p)"

section \<open>Create\<close>

definition replayed_before :: "env \<Rightarrow> string \<Rightarrow> string \<Rightarrow> string option \<Rightarrow> string \<Rightarrow> (resource \<times> nat) option handler" where
  "replayed_before en storeId endpoint key rawBody =
     (case given key of
        None \<Rightarrow> ret None
      | Some k \<Rightarrow> bindM (getsM (find_record storeId endpoint k)) (\<lambda>existing.
          case existing of
            None \<Rightarrow> ret None
          | Some r \<Rightarrow> bindM (replay r (hashBody (en_sha256 en) rawBody)) (\<lambda>x. ret (Some x))))"

definition create_endpoint_name :: "key_mode \<Rightarrow> string" where
  "create_endpoint_name mode = ''POST /v1/payments:'' @ mode_name mode"

text \<open>The charge after the discount code and the gift card, and what the metadata remembers of them.\<close>

definition price_coupon ::
    "api_key_ctx \<Rightarrow> create_dto \<Rightarrow> decimal \<Rightarrow> string option \<Rightarrow> metadata \<Rightarrow> (decimal \<times> metadata) handler" where
  "price_coupon ax dto amount customerId md =
     (case given (cd_coupon dto) of
        None \<Rightarrow> ret (amount, md)
      | Some code \<Rightarrow>
        bindM (\<lambda>s. (quote_coupon (ax_store ax) code amount (cd_currency dto) customerId s, s)) (\<lambda>q.
        bindM (liftE (validateAmount (to_fixed (DECIMALS (cd_currency dto)) (cq_after q)) (cd_currency dto))) (\<lambda>charge.
          ret (charge, md\<lparr>md_coupon := Some \<lparr>mc_id = cq_id q, mc_code = cq_code q, mc_discount = cq_discount q,
            mc_amount_before = cq_before q\<rparr>\<rparr>))))"

definition price_gift :: "api_key_ctx \<Rightarrow> create_dto \<Rightarrow> decimal \<Rightarrow> metadata \<Rightarrow> (decimal \<times> metadata \<times> bool) handler" where
  "price_gift ax dto charge md =
     (case given (cd_gift_card dto) of
        None \<Rightarrow> ret (charge, md, False)
      | Some code \<Rightarrow>
        bindM (\<lambda>s. (quote_card (ax_store ax) code charge (cd_currency dto) s, s)) (\<lambda>g.
          ret (gq_remaining g, md\<lparr>md_gift_card := Some \<lparr>mg_id = gq_id g, mg_code = gq_code g, mg_applied = gq_applied g\<rparr>\<rparr>,
               gq_remaining g \<le> 0)))"

definition merchant_name :: "store_row \<Rightarrow> string" where
  "merchant_name st = (case given (s_display_name st) of None \<Rightarrow> s_name st | Some x \<Rightarrow> x)"

definition draw_khqr :: "env \<Rightarrow> create_khqr \<Rightarrow> created_khqr option handler" where
  "draw_khqr en input =
     (case pv_create (en_provider en) input of
        Inr r \<Rightarrow> ret (Some r)
      | Inl (ApiError c m) \<Rightarrow> throw (ApiError c m)
      | Inl _ \<Rightarrow> throw (providerError ''Failed to generate KHQR''))"

record charge =
  ch_amount :: decimal
  ch_metadata :: metadata
  ch_covered :: bool
  ch_branch :: "string option"
  ch_customer :: "string option"

definition price :: "api_key_ctx \<Rightarrow> create_dto \<Rightarrow> decimal \<Rightarrow> charge handler" where
  "price ax dto amount =
     bindM (case given (cd_branch dto) of None \<Rightarrow> ret None | Some b \<Rightarrow> bindM (resolveActive (ax_store ax) b) (\<lambda>x. ret (Some x))) (\<lambda>branchId.
     bindM (case given (cd_customer dto) of None \<Rightarrow> ret None | Some c \<Rightarrow> bindM (resolveForStore (ax_store ax) c) (\<lambda>x. ret (Some x))) (\<lambda>customerId.
     bindM (price_coupon ax dto amount customerId (case cd_metadata dto of None \<Rightarrow> no_metadata | Some m \<Rightarrow> m)) (\<lambda>(charged, md).
     bindM (price_gift ax dto charged md) (\<lambda>(charged, md, covered).
       ret \<lparr>ch_amount = charged, ch_metadata = md, ch_covered = covered, ch_branch = branchId, ch_customer = customerId\<rparr>))))"

definition new_payment :: "api_key_ctx \<Rightarrow> create_dto \<Rightarrow> charge \<Rightarrow> string \<Rightarrow> string \<Rightarrow> int \<Rightarrow> int \<Rightarrow> payment_row" where
  "new_payment ax dto ch i qr now expires =
     \<lparr>p_id = i, p_store = ax_store ax, p_api_key = given (Some (ax_key ax)), p_mode = ax_mode ax, p_status = Pending,
      p_amount = ch_amount ch, p_currency = cd_currency dto, p_reference = cd_reference dto, p_description = cd_description dto,
      p_metadata = ch_metadata ch, p_qr = qr, p_refunded = 0, p_branch = ch_branch ch, p_customer = ch_customer ch,
      p_created = now, p_expires = expires, p_paid_at = None, p_settlement = None\<rparr>"

definition record_payment :: "env \<Rightarrow> payment_row \<Rightarrow> created_khqr option \<Rightarrow> (resource \<times> nat) handler" where
  "record_payment en p kr =
     seqM (createM payments payments_update payment_clash p)
     (seqM (add_history (p_id p) None Pending ''created'')
     (seqM (case kr of None \<Rightarrow> ret ()
            | Some k \<Rightarrow> modifyM (provider_refs_update (\<lambda>t. t @ [\<lparr>pf_payment = p_id p, pf_provider = pv_name (en_provider en),
                pf_md5 = Some (kr_md5 k), pf_bill_number = kr_bill k\<rparr>])))
       (ret (PaymentRes (serialize (en_checkout en) p), 201))))"

definition created_effects :: "env \<Rightarrow> payment_row \<Rightarrow> bool \<Rightarrow> resource \<Rightarrow> (resource \<times> nat) handler" where
  "created_effects en p covered res =
     seqM (emitCreated p)
       (if covered
        then bindM (transition en (p_id p) Paid ''covered by store credit'') (\<lambda>paid.
          ret (PaymentRes (serialize (en_checkout en) paid), 201))
        else ret (res, 201))"

definition create_request :: "api_key_ctx \<Rightarrow> string option \<Rightarrow> string \<Rightarrow> idem_request" where
  "create_request ax key rawBody =
     \<lparr>iq_scope = ax_store ax, iq_endpoint = create_endpoint_name (ax_mode ax), iq_key = key, iq_body = rawBody, iq_ttl = None\<rparr>"

definition create_payment :: "env \<Rightarrow> api_key_ctx \<Rightarrow> create_dto \<Rightarrow> string option \<Rightarrow> string \<Rightarrow> (resource \<times> nat) handler" where
  "create_payment en ax dto key rawBody =
     bindM (replayed_before en (ax_store ax) (create_endpoint_name (ax_mode ax)) key rawBody) (\<lambda>before.
     case before of
       Some x \<Rightarrow> ret x
     | None \<Rightarrow>
       seqM (assertWithinQuota (ax_org ax))
       (bindM (liftE (validateAmount (cd_amount dto) (cd_currency dto))) (\<lambda>amount.
        bindM (findM stores (\<lambda>x. s_id x = ax_store ax)) (\<lambda>store.
        bindM (someM (internal ''Store missing for API key'') store) (\<lambda>store.
        bindM (price ax dto amount) (\<lambda>ch.
        bindM (prefixedId ''pay'') (\<lambda>paymentId.
        bindM (getsM clock) (\<lambda>now.
        (let expires = now + (case cd_expires_in dto of None \<Rightarrow> DEFAULT_EXPIRY_SECONDS | Some x \<Rightarrow> x) * 1000 in
         bindM (if 0 < ch_amount ch
                then draw_khqr en \<lparr>ck_payment = paymentId, ck_store = ax_store ax, ck_mode = ax_mode ax,
                       ck_amount = formatAmount (ch_amount ch) (cd_currency dto), ck_currency = cd_currency dto,
                       ck_reference = cd_reference dto, ck_description = cd_description dto,
                       ck_merchant = merchant_name store, ck_city = ''Phnom Penh'', ck_expires = expires\<rparr>
                else ret None) (\<lambda>kr.
          (let p = new_payment ax dto ch paymentId (case kr of None \<Rightarrow> [] | Some k \<Rightarrow> kr_qr k) now expires in
           bindM (execute_racing (en_sha256 en) (en_others en) (create_request ax key rawBody) (record_payment en p kr)) (\<lambda>(r, replayed).
             if replayed then ret (fst r, 201) else created_effects en p (ch_covered ch) (fst r)))))))))))))"

section \<open>Retrieve, list, cancel, simulate\<close>

definition retrieve :: "env \<Rightarrow> api_key_ctx \<Rightarrow> string \<Rightarrow> payment_resource handler" where
  "retrieve en ax i =
     bindM (findScoped (ax_store ax) i) (\<lambda>p.
     bindM (applyLazyExpiry en p) (\<lambda>p. ret (serialize (en_checkout en) p)))"

record list_query =
  lq_limit :: "nat option"
  lq_status :: "payment_status option"
  lq_reference :: "string option"
  lq_from :: "int option"
  lq_to :: "int option"
  lq_cursor :: "string option"

definition wanted :: "string \<Rightarrow> list_query \<Rightarrow> payment_row \<Rightarrow> bool" where
  "wanted storeId q p \<longleftrightarrow> p_store p = storeId \<and>
     (case lq_status q of None \<Rightarrow> True | Some st \<Rightarrow> p_status p = st) \<and>
     (case given (lq_reference q) of None \<Rightarrow> True | Some r \<Rightarrow> p_reference p = Some r) \<and>
     (case lq_from q of None \<Rightarrow> True | Some t \<Rightarrow> t \<le> p_created p) \<and>
     (case lq_to q of None \<Rightarrow> True | Some t \<Rightarrow> p_created p \<le> t)"

text \<open>
  Newest first, ties by identifier, in the collation \<open>rank\<close> of the database; the page starts
  behind the cursor row.
\<close>

definition ordered :: "(string \<Rightarrow> int) \<Rightarrow> payment_row list \<Rightarrow> payment_row list" where
  "ordered rank ps = rev (sort_key p_created (sort_key (\<lambda>p. rank (p_id p)) ps))"

definition behind :: "string option \<Rightarrow> payment_row list \<Rightarrow> payment_row list" where
  "behind cursor ps = (case given cursor of None \<Rightarrow> ps | Some i \<Rightarrow> drop 1 (dropWhile (\<lambda>p. p_id p \<noteq> i) ps))"

record payment_page =
  pg_data :: "payment_row list"
  pg_more :: bool
  pg_next :: "string option"

definition page_payments :: "nat \<Rightarrow> payment_row list \<Rightarrow> payment_page" where
  "page_payments limit ps =
     (let rows = take (limit + 1) ps; more = limit < length rows in
      \<lparr>pg_data = take limit rows, pg_more = more, pg_next = (if more then Some (p_id (rows ! (limit - 1))) else None)\<rparr>)"

definition list_payments :: "(string \<Rightarrow> int) \<Rightarrow> api_key_ctx \<Rightarrow> list_query \<Rightarrow> payment_page handler" where
  "list_payments rank ax q =
     bindM (manyM payments (wanted (ax_store ax) q)) (\<lambda>ps.
       ret (page_payments (case lq_limit q of None \<Rightarrow> 20 | Some n \<Rightarrow> n) (behind (lq_cursor q) (ordered rank ps))))"

definition cancel_payment :: "env \<Rightarrow> api_key_ctx \<Rightarrow> string \<Rightarrow> payment_resource handler" where
  "cancel_payment en ax i =
     bindM (findScoped (ax_store ax) i) (\<lambda>p.
     seqM (guardM (p_status p \<noteq> Paid) (invalidRequest ''Cannot cancel a completed payment''))
     (seqM (guardM (canTransition (p_status p) Cancelled)
              (invalidRequest (''Cannot cancel a payment in status '' @ [CHR 0x22] @ status_name (p_status p) @ [CHR 0x22])))
     (bindM (transition en (p_id p) Cancelled ''cancelled via API'') (\<lambda>p. ret (serialize (en_checkout en) p)))))"

definition simulate :: "env \<Rightarrow> api_key_ctx \<Rightarrow> string \<Rightarrow> payment_status \<Rightarrow> payment_resource handler" where
  "simulate en ax i target =
     seqM (guardM (ax_mode ax = TestMode) (forbidden ''Payment simulation is only available for test-mode keys''))
     (bindM (findScoped (ax_store ax) i) (\<lambda>p.
      seqM (guardM (canTransition (p_status p) target)
              (invalidRequest (''Cannot move payment from '' @ [CHR 0x22] @ status_name (p_status p) @ [CHR 0x22] @ '' to '' @
                 [CHR 0x22] @ status_name target @ [CHR 0x22])))
      (bindM (transition en (p_id p) target (''simulated -> '' @ status_name target)) (\<lambda>p. ret (serialize (en_checkout en) p)))))"

text \<open>The hosted checkout: \<open>payee\<close> is the account holder of the store's imported code, if it has one.\<close>

record checkout_view =
  cv_id :: string
  cv_status :: payment_status
  cv_amount :: string
  cv_currency :: currency
  cv_qr :: string
  cv_payee :: "string option"
  cv_wallet_url :: "string option"
  cv_expires :: int
  cv_paid_at :: "int option"
  cv_merchant :: string

definition publicView :: "env \<Rightarrow> (string \<Rightarrow> currency \<Rightarrow> key_mode \<Rightarrow> string option) \<Rightarrow> string \<Rightarrow> checkout_view handler" where
  "publicView en payee i =
     bindM (findM payments (\<lambda>p. p_id p = i)) (\<lambda>payment.
     bindM (someM (paymentNotFound ''Payment not found'') payment) (\<lambda>payment.
     bindM (findM stores (\<lambda>x. s_id x = p_store payment)) (\<lambda>store.
     bindM (someM P2025 store) (\<lambda>store.
     bindM (applyLazyExpiry en payment) (\<lambda>p.
       ret \<lparr>cv_id = p_id p, cv_status = p_status p, cv_amount = formatAmount (p_amount p) (p_currency p), cv_currency = p_currency p,
            cv_qr = p_qr p, cv_payee = payee (p_store payment) (p_currency p) (p_mode payment),
            cv_wallet_url = map_option (\<lambda>c. en_checkout en @ ''/wallet/'' @ c) (given (p_customer payment)),
            cv_expires = p_expires p, cv_paid_at = p_paid_at p, cv_merchant = merchant_name store\<rparr>)))))"

section \<open>Refunds\<close>

record refund_dto =
  rd_amount :: "string option"
  rd_reason :: "string option"

definition refund_endpoint :: "string \<Rightarrow> key_mode \<Rightarrow> string" where
  "refund_endpoint paymentId mode = ''POST /v1/payments/'' @ paymentId @ ''/refund:'' @ mode_name mode"

definition refund_request :: "api_key_ctx \<Rightarrow> string \<Rightarrow> string option \<Rightarrow> string \<Rightarrow> idem_request" where
  "refund_request ax paymentId key rawBody =
     \<lparr>iq_scope = ax_store ax, iq_endpoint = refund_endpoint paymentId (ax_mode ax), iq_key = key, iq_body = rawBody, iq_ttl = None\<rparr>"

definition refund_amount :: "payment_row \<Rightarrow> refund_dto \<Rightarrow> decimal handler" where
  "refund_amount p dto =
     (let remaining = p_amount p - p_refunded p in
      seqM (guardM (0 < remaining) (invalidRequest ''Payment is already fully refunded''))
      (bindM (case given (rd_amount dto) of None \<Rightarrow> ret remaining | Some a \<Rightarrow> liftE (validateAmount a (p_currency p))) (\<lambda>amount.
       seqM (guardM (0 < amount) (amountTooLow ''Refund amount must be greater than 0''))
       (seqM (guardM (amount \<le> remaining)
                (invalidRequest (''Refund amount exceeds refundable balance ('' @ formatAmount remaining (p_currency p) @ '')'')))
         (ret amount)))))"

text \<open>The provider moves the money first; the effect records that it did.\<close>

definition provider_refund :: "env \<Rightarrow> payment_row \<Rightarrow> decimal \<Rightarrow> refund_result handler" where
  "provider_refund en p amount =
     (case pv_refund (en_provider en) (p_id p) (formatAmount amount (p_currency p)) (p_currency p) of
        Inl e \<Rightarrow> throw (providerError ''Refund failed at provider'')
      | Inr r \<Rightarrow> if rf_ok r then seqM (emit (ProviderRefund (p_id p) amount)) (ret r)
                else throw (providerError ''Provider declined the refund''))"

definition new_refund :: "payment_row \<Rightarrow> decimal \<Rightarrow> refund_dto \<Rightarrow> refund_result \<Rightarrow> string \<Rightarrow> int \<Rightarrow> refund_row" where
  "new_refund p amount dto pr i now =
     \<lparr>r_id = i, r_payment = p_id p, r_amount = amount, r_currency = p_currency p, r_reason = rd_reason dto,
      r_provider_ref = rf_provider_ref pr, r_created = now\<rparr>"

definition record_refund :: "payment_row \<Rightarrow> decimal \<Rightarrow> refund_row \<Rightarrow> bool \<Rightarrow> (resource \<times> nat) handler" where
  "record_refund p amount r manual =
     bindM (update_manyM payments payments_update (\<lambda>x. p_id x = p_id p \<and> p_refunded x = p_refunded p)
              (\<lambda>x. x\<lparr>p_refunded := p_refunded p + amount\<rparr>)) (\<lambda>count.
     seqM (guardM (count = 1) (idempotencyConflict ''Concurrent refund detected; retry''))
     (seqM (createM refunds refunds_update refund_clash r)
     (seqM (add_history (p_id p) (Some Paid) Paid
              (''refund '' @ formatAmount amount (p_currency p) @ (if manual then '' (manual settlement)'' else [])))
       (ret (RefundRes (serializeRefund r), 201)))))"

definition ledger_refund :: "payment_row \<Rightarrow> decimal \<Rightarrow> string \<Rightarrow> unit handler" where
  "ledger_refund p amount refundId =
     catchM
       (bindM (findM stores (\<lambda>x. s_id x = p_store p)) (\<lambda>store.
         postRefund p amount (case store of None \<Rightarrow> 0 | Some x \<Rightarrow> s_fee_bps x) refundId))
       (\<lambda>e. ret ())"

definition refund_effects :: "env \<Rightarrow> payment_row \<Rightarrow> decimal \<Rightarrow> string \<Rightarrow> unit handler" where
  "refund_effects en p amount refundId =
     seqM (ledger_refund p amount refundId)
     (seqM (if p_amount p \<le> p_refunded p + amount
            then bindM (transition en (p_id p) Refunded ''fully refunded'') (\<lambda>_. ret ())
            else bindM (findM payments (\<lambda>x. p_id x = p_id p)) (\<lambda>refreshed.
              case refreshed of None \<Rightarrow> ret () | Some x \<Rightarrow> emitRefunded x))
       (emit (Audited ''payment.refund'' (''payment:'' @ p_id p))))"

definition refund_payment ::
    "env \<Rightarrow> api_key_ctx \<Rightarrow> string \<Rightarrow> refund_dto \<Rightarrow> string option \<Rightarrow> string \<Rightarrow> (resource \<times> nat) handler" where
  "refund_payment en ax paymentId dto key rawBody =
     bindM (replayed_before en (ax_store ax) (refund_endpoint paymentId (ax_mode ax)) key rawBody) (\<lambda>before.
     case before of
       Some x \<Rightarrow> ret x
     | None \<Rightarrow>
       bindM (findScoped (ax_store ax) paymentId) (\<lambda>p.
       seqM (guardM (p_status p = Paid) (invalidRequest ''Only paid payments can be refunded''))
       (bindM (refund_amount p dto) (\<lambda>amount.
        bindM (provider_refund en p amount) (\<lambda>pr.
        bindM (prefixedId ''rf'') (\<lambda>refundId.
        bindM (getsM clock) (\<lambda>now.
        bindM (execute_racing (en_sha256 en) (en_others en) (refund_request ax paymentId key rawBody)
                 (record_refund p amount (new_refund p amount dto pr refundId now) (rf_manual pr))) (\<lambda>(r, replayed).
          seqM (if replayed then ret () else refund_effects en p amount refundId) (ret (fst r, 201))))))))))"

definition listRefunds :: "api_key_ctx \<Rightarrow> string \<Rightarrow> refund_resource list handler" where
  "listRefunds ax paymentId =
     bindM (findScoped (ax_store ax) paymentId) (\<lambda>_.
     bindM (manyM refunds (\<lambda>r. r_payment r = paymentId)) (\<lambda>rs. ret (map serializeRefund (rev rs))))"

end
