(* ===== verification/Effects.thy ===== *)
theory Effects
  imports Payments
begin

text \<open>
  What the effects of a payment write. Counting usage, redeeming codes, awarding points, rewarding
  referrals, issuing cards, scoring, mailing, booking and telling webhooks touch many tables. The locale
  \<open>effect_blind\<close> is a property of the state that looks at none of them; every effect keeps it. The
  payments, the statements and the subscriptions are such properties.
\<close>

section \<open>Random strings are drawn, not put back\<close>

lemma draws_grow:
  "keeps (\<lambda>t. n \<le> draws t) (post ev ref st cur ls)"
proof -
  have pre: "keeps (\<lambda>t. n \<le> draws t) (prefixedId p)" for p by (rule keepsI) (simp add: prefixedId_def)
  have j: "keeps (\<lambda>t. n \<le> draws t) (createM journals journals_update c r)" for c r by (rule keeps_create) simp
  have e: "keeps (\<lambda>t. n \<le> draws t) (createM entries entries_update c r)" for c r by (rule keeps_create) simp
  show ?thesis unfolding post_def create_journal_def create_line_def Let_def
    by (auto intro!: keeps_intros pre j e)
qed

section \<open>Properties that see no effect\<close>

locale effect_blind =
  fixes P :: "db \<Rightarrow> bool"
  assumes draws_later: "P s \<Longrightarrow> draws s \<le> n \<Longrightarrow> P (s\<lparr>draws := n\<rparr>)"
    and outboxes: "P s \<Longrightarrow> P (s\<lparr>outbox := es\<rparr>)"
    and books: "P s \<Longrightarrow> P (s\<lparr>journals := js\<rparr>)" "P s \<Longrightarrow> P (s\<lparr>entries := ls\<rparr>)"
    and usage: "P s \<Longrightarrow> P (s\<lparr>usages := us\<rparr>)" "P s \<Longrightarrow> P (s\<lparr>risk_cases := ks\<rparr>)"
    and codes: "P s \<Longrightarrow> P (s\<lparr>coupons := cs\<rparr>)" "P s \<Longrightarrow> P (s\<lparr>coupon_redemptions := crs\<rparr>)"
      "P s \<Longrightarrow> P (s\<lparr>gift_cards := gcs\<rparr>)" "P s \<Longrightarrow> P (s\<lparr>gift_txns := gts\<rparr>)"
    and points: "P s \<Longrightarrow> P (s\<lparr>customers := xs\<rparr>)" "P s \<Longrightarrow> P (s\<lparr>points_txns := ts\<rparr>)"
      "P s \<Longrightarrow> P (s\<lparr>notices := ns\<rparr>)" "P s \<Longrightarrow> P (s\<lparr>promotions := ps\<rparr>)"
      "P s \<Longrightarrow> P (s\<lparr>rewards := rws\<rparr>)" "P s \<Longrightarrow> P (s\<lparr>redemptions := rds\<rparr>)"
    and growth: "P s \<Longrightarrow> P (s\<lparr>referrals := rs\<rparr>)" "P s \<Longrightarrow> P (s\<lparr>commissions := cms\<rparr>)"
      "P s \<Longrightarrow> P (s\<lparr>plays := pls\<rparr>)" "P s \<Longrightarrow> P (s\<lparr>prizes := pzs\<rparr>)"
    and hooks: "P s \<Longrightarrow> P (s\<lparr>events := evs\<rparr>)" "P s \<Longrightarrow> P (s\<lparr>deliveries := dls\<rparr>)"
    and replays: "P s \<Longrightarrow> P (s\<lparr>idem_records := ids\<rparr>)"
begin

lemma blind_draw: "keeps P (prefixedId x)" "keeps P randomBase58"
  using draws_later by (auto simp: keeps_def prefixedId_def randomBase58_def)

lemma blind_post: "keeps P (post ev ref st cur ls)"
proof (rule keepsI)
  fix s assume s: "P s"
  obtain r t where p: "post ev ref st cur ls s = (r, t)" by (rule prod.exhaust)
  then obtain js es n where t: "t = s\<lparr>journals := js, entries := es, draws := n\<rparr>" using post_other_tables by blast
  have "draws s \<le> n" using keeps_result [OF draws_grow _ p, of "draws s"] t by simp
  then have "P (s\<lparr>draws := n, journals := js, entries := es\<rparr>)" using s by (intro books draws_later)
  moreover have "s\<lparr>draws := n, journals := js, entries := es\<rparr> = t" using t by simp
  ultimately show "P (snd (post ev ref st cur ls s))" using p by simp
qed

lemmas blind_intros = keeps_intros keeps_create keeps_update keeps_update_many keeps_delete keeps_modify keeps_emit
  blind_draw blind_post outboxes books usage codes points growth hooks replays

lemma blind_usage: "keeps P (recordPaidForStore st)"
  unfolding recordPaidForStore_def recordPaid_def upsert_usage_def maybeWarn_def planForOrg_def Let_def
  by (auto intro!: blind_intros split: option.split)

lemma blind_codes: "keeps P (coupons_onPaid p)" "keeps P (giftcards_onPaid p)"
  unfolding coupons_onPaid_def giftcards_onPaid_def gift_debit_def Let_def by (auto intro!: blind_intros split: option.split)

lemma blind_points: "keeps P (book_points ty row f)"
  unfolding book_points_def record_points_def journal_points_def postPointsMovement_def
  by (auto intro!: blind_intros split: option.split)

lemma blind_promo: "keeps P (apply_promo p c base n promo)"
  unfolding apply_promo_def award_bonus_def record_points_def journal_points_def postPointsMovement_def Let_def
  by (auto intro!: blind_intros split: option.split)

lemma blind_award: "keeps P (awardForPayment pc p)"
  unfolding awardForPayment_def award_points_def mirrorEarnToPayChain_def mirror_call_def applyToPayment_def Let_def
  by (auto intro!: blind_intros blind_points blind_promo split: option.split)

lemma blind_growth: "keeps P (onPaidPayment p)" "keeps P (accrueCommission p)"
  unfolding onPaidPayment_def reward_referral_def referral_points_def mark_rewarded_def accrueCommission_def accrue_def
    postCommissionAccrued_def Let_def
  by (auto intro!: blind_intros blind_points split: option.split)

lemma blind_cards: "keeps P (issueForPayment p)"
  unfolding issueForPayment_def issue_card_for_def by (auto intro!: blind_intros split: option.split)

lemma blind_notes: "keeps P (scorePayment p)" "keeps P (receipts_onPaid p)"
  unfolding scorePayment_def receipts_onPaid_def by (auto intro!: blind_intros split: option.split)

lemma blind_ledger: "keeps P (ledger_capture p)" "keeps P (ledger_refund p a i)"
  unfolding ledger_capture_def postPaymentCaptured_def ledger_refund_def postRefund_def
  by (auto intro!: blind_intros)

lemma blind_event: "keeps P (emit_event p ty)"
  unfolding emit_event_def deliver_to_def enqueue_def by (auto intro!: blind_intros)

lemma blind_announce: "keeps P (announce p i st)"
  unfolding announce_def emitForStatus_def by (auto intro!: blind_intros blind_event split: option.split)

lemma blind_paid: "keeps P (paid_effects pc p)"
  unfolding paid_effects_def
  by (intro keeps_intros blind_usage blind_codes blind_award blind_growth blind_cards blind_notes blind_ledger)

lemma blind_effects: "keeps P (transition_effects pc p i st)"
  unfolding transition_effects_def by (intro keeps_intros blind_paid blind_announce)

end

end
