(* ===== verification/Transitions.thy ===== *)
theory Transitions
  imports Effects
begin

text \<open>
  What a transition does to the payments: which of the callers that meet on a payment moves it and runs the
  effects of a capture, and that the recorded history of every payment is a run of the status
  machine of \<open>SharedTypes\<close>.
\<close>

section \<open>The effects leave the payments alone\<close>

text \<open>
  The tables a payment's own state is kept in. The effects of a capture and the fan-out of events
  write many tables, but none of these.
\<close>

definition core :: "db \<Rightarrow> payment_row list \<times> history_row list \<times> refund_row list" where
  "core s = (payments s, history s, refunds s)"

abbreviation keeps_core :: "'a handler \<Rightarrow> bool" where
  "keeps_core m \<equiv> (\<forall>c. keeps (\<lambda>s. core s = c) m)"

interpretation core: effect_blind "\<lambda>s. core s = c" for c
  by unfold_locales (simp_all add: core_def)

lemma core_simps [simp]: "core (s\<lparr>draws := n\<rparr>) = core s" "core (s\<lparr>outbox := es\<rparr>) = core s"
  by (simp_all add: core_def)

lemma core_ledger: "keeps_core (ledger_refund p a i)"
  by (simp add: core.blind_ledger)

lemma core_emit_event: "keeps_core (emit_event p ty)"
  by (simp add: core.blind_event)

lemma core_transition_effects: "keeps_core (transition_effects pc p i st)"
  by (simp add: core.blind_effects)

text \<open>A property of the payments, their history and refunds alone.\<close>

definition core_only :: "(db \<Rightarrow> bool) \<Rightarrow> bool" where
  "core_only P \<longleftrightarrow> (\<forall>s t. core s = core t \<longrightarrow> P s = P t)"

lemma keeps_of_core: "core_only P \<Longrightarrow> keeps_core m \<Longrightarrow> keeps P m"
  unfolding core_only_def keeps_def by metis

lemma keeps_core_result: "keeps_core m \<Longrightarrow> m s = (r, t) \<Longrightarrow> core t = core s"
proof -
  assume "keeps_core m"
  then have "keeps (\<lambda>u. core u = core s) m" by blast
  then show "m s = (r, t) \<Longrightarrow> core t = core s" using keeps_result [of "\<lambda>u. core u = core s" m s r t] by simp
qed

section \<open>The five outcomes of a transition\<close>

lemma count_by_key:
  assumes "keyed k t"
  shows "count_where (\<lambda>x. k x = i \<and> Q x) t = (case find_by (\<lambda>x. k x = i) t of None \<Rightarrow> 0 | Some r \<Rightarrow> if Q r then 1 else 0)"
  using assms
proof (induction t)
  case (Cons x t)
  then have IH: "count_where (\<lambda>x. k x = i \<and> Q x) t = (case find_by (\<lambda>x. k x = i) t of None \<Rightarrow> 0 | Some r \<Rightarrow> if Q r then 1 else 0)"
    by (simp add: keyed_def)
  show ?case
  proof (cases "k x = i")
    case True
    with Cons.prems have "i \<notin> k ` set t" by (simp add: keyed_def)
    then have "find_by (\<lambda>x. k x = i) t = None" by (auto simp: find_by_None)
    with IH True show ?thesis by simp
  qed (use IH in simp)
qed simp

abbreviation payment_of :: "string \<Rightarrow> db \<Rightarrow> payment_row option" where
  "payment_of i s \<equiv> find_by (\<lambda>p. p_id p = i) (payments s)"

definition moved_row :: "payment_status \<Rightarrow> payment_row \<Rightarrow> db \<Rightarrow> payment_row \<Rightarrow> payment_row" where
  "moved_row st p u q = move_to st (if st = Paid then Some (clock u) else p_paid_at p) q"

definition step_row :: "string \<Rightarrow> payment_row \<Rightarrow> payment_status \<Rightarrow> string \<Rightarrow> history_row" where
  "step_row i p st reason = \<lparr>h_payment = i, h_from = Some (p_status p), h_to = st, h_reason = reason\<rparr>"

definition moved_db :: "string \<Rightarrow> payment_row \<Rightarrow> payment_status \<Rightarrow> string \<Rightarrow> db \<Rightarrow> db" where
  "moved_db i p st reason u =
     u\<lparr>payments := update_where (\<lambda>x. p_id x = i \<and> p_status x = p_status p) (moved_row st p u) (payments u),
       history := history u @ [step_row i p st reason]\<rparr>"

lemma moved_row_fields [simp]:
  "p_id (moved_row st p u q) = p_id q" "p_status (moved_row st p u q) = st" "p_amount (moved_row st p u q) = p_amount q"
  "p_refunded (moved_row st p u q) = p_refunded q" "p_store (moved_row st p u q) = p_store q"
  by (simp_all add: moved_row_def move_to_def)

lemma bindM_add_history [op_simps]: "bindM (add_history i a b reason) f s =
    f () (s\<lparr>history := history s @ [\<lparr>h_payment = i, h_from = a, h_to = b, h_reason = reason\<rparr>]\<rparr>)"
proof -
  have e: "history_update g s = s\<lparr>history := g (history s)\<rparr>" for g by (cases s) simp
  show ?thesis
    by (simp only: add_history_def bindM_modify e [of "\<lambda>t. t @ [\<lparr>h_payment = i, h_from = a, h_to = b, h_reason = reason\<rparr>]"])
qed

lemma moved_row_eq: "move_to st (if st = Paid then Some (clock u) else p_paid_at p) = moved_row st p u"
  by (rule ext) (simp add: moved_row_def)

lemma transition_tx_cases:
  assumes "transition_tx between i st reason s = (r, t)" and "keyed p_id (payments (between s))"
  obtains (unknown) "payment_of i s = None" "r = Inl (paymentNotFound ''Payment not found'')" "t = s"
    | (there) p where "payment_of i s = Some p" "p_status p = st" "r = Inr (p, False)" "t = s"
    | (illegal) p where "payment_of i s = Some p" "p_status p \<noteq> st" "\<not> canTransition (p_status p) st"
        "r = Inl (invalidRequest (illegal_message (p_status p) st))" "t = s"
    | (lost) p where "payment_of i s = Some p" "p_status p \<noteq> st" "canTransition (p_status p) st"
        "\<And>q. payment_of i (between s) = Some q \<Longrightarrow> p_status q \<noteq> p_status p" "r = Inr (p, False)" "t = between s"
    | (moved) p q where "payment_of i s = Some p" "p_status p \<noteq> st" "canTransition (p_status p) st"
        "payment_of i (between s) = Some q" "p_status q = p_status p" "r = Inr (moved_row st p (between s) q, True)"
        "t = moved_db i p st reason (between s)"
proof (cases "payment_of i s")
  case None
  with assms show ?thesis by (intro unknown) (auto simp: transition_tx_def transaction_def op_simps)
next
  case (Some p)
  let ?u = "between s"
  consider "p_status p = st" | "p_status p \<noteq> st" "\<not> canTransition (p_status p) st"
    | "p_status p \<noteq> st" "canTransition (p_status p) st" by blast
  then show ?thesis
  proof cases
    case 1
    with Some assms show ?thesis by (intro there [OF Some]) (auto simp: transition_tx_def transaction_def op_simps)
  next
    case 2
    with Some assms show ?thesis by (intro illegal [OF Some]) (auto simp: transition_tx_def transaction_def op_simps)
  next
    case 3
    note c = count_by_key [OF assms(2), where i = i and Q = "\<lambda>x. p_status x = p_status p"]
    show ?thesis
    proof (cases "\<exists>q. payment_of i ?u = Some q \<and> p_status q = p_status p")
      case True
      then obtain q where q: "payment_of i ?u = Some q" "p_status q = p_status p" by blast
      from find_by_SomeD [OF q(1)] have qi: "p_id q = i" by simp
      have f: "find_by (\<lambda>x. p_id x = i) (update_where (\<lambda>x. p_id x = i \<and> p_status x = p_status p) (moved_row st p ?u) (payments ?u)) =
          Some (moved_row st p ?u q)"
        using q qi by (simp add: find_by_update_where)
      have "transition_tx between i st reason s = (Inr (moved_row st p ?u q, True), moved_db i p st reason ?u)"
        using 3 Some q c f
        by (simp add: transition_tx_def transaction_def op_simps moved_row_eq moved_db_def step_row_def)
      with assms(1) q 3 Some show ?thesis by (intro moved [of p q]) auto
    next
      case False
      then have z: "count_where (\<lambda>x. p_id x = i \<and> p_status x = p_status p) (payments ?u) = 0"
        by (auto simp: c split: option.split)
      then have "\<forall>x \<in> set (payments ?u). \<not> (p_id x = i \<and> p_status x = p_status p)"
        unfolding count_where_0 exists_by_iff by blast
      then have "update_where (\<lambda>x. p_id x = i \<and> p_status x = p_status p) f (payments ?u) = payments ?u" for f
        by (rule update_where_none)
      then have "transition_tx between i st reason s = (Inr (p, False), ?u)"
        using 3 Some z by (simp add: transition_tx_def transaction_def op_simps)
      with assms(1) False 3 show ?thesis by (intro lost [OF Some]) auto
    qed
  qed
qed

section \<open>Histories are runs of the status machine\<close>

text \<open>
  The statuses a payment went through, as its history tells them (the rows a refund adds to a paid
  payment do not change the status), and the abstraction: they are a run of the machine that
  starts at pending and ends at the status of the payment.
\<close>

definition trail :: "string \<Rightarrow> db \<Rightarrow> payment_status list" where
  "trail i s = map h_to (filter (\<lambda>h. h_payment h = i \<and> h_from h \<noteq> Some (h_to h)) (history s))"

definition on_track :: "db \<Rightarrow> payment_row \<Rightarrow> bool" where
  "on_track s p \<longleftrightarrow> (\<exists>ts. trail (p_id p) s = Pending # ts \<and> pay_run Pending ts \<and> last (Pending # ts) = p_status p)"

definition tracked :: "db \<Rightarrow> bool" where
  "tracked s \<longleftrightarrow> keyed p_id (payments s) \<and> (\<forall>p \<in> set (payments s). on_track s p) \<and>
     (\<forall>h \<in> set (history s). exists_by (\<lambda>p. p_id p = h_payment h) (payments s))"

lemma tracked_core: "core_only tracked"
  by (auto simp: core_only_def core_def tracked_def on_track_def trail_def)

lemma pay_run_snoc: "pay_run s (ts @ [t]) \<longleftrightarrow> pay_run s ts \<and> pay_step (last (s # ts)) t"
  by (induction ts arbitrary: s) auto

lemma trail_other: "j \<noteq> i \<Longrightarrow> trail j (moved_db i p st reason u) = trail j u"
  by (simp add: trail_def moved_db_def step_row_def)

lemma trail_moved: "p_status p \<noteq> st \<Longrightarrow> trail i (moved_db i p st reason u) = trail i u @ [st]"
  by (simp add: trail_def moved_db_def step_row_def)

lemma tracked_moved:
  assumes "tracked u" and "payment_of i u = Some q" and "p_status q = p_status p" and "canTransition (p_status p) st"
  shows "tracked (moved_db i p st reason u)"
proof -
  let ?t = "moved_db i p st reason u"
  from find_by_SomeD [OF assms(2)] have q: "q \<in> set (payments u)" "p_id q = i" by simp_all
  have k: "keyed p_id (payments u)" using assms(1) by (simp add: tracked_def)
  have ne: "p_status p \<noteq> st" using assms(4) canTransition_irrefl by metis
  have "on_track ?t x" if "x \<in> set (payments ?t)" for x
  proof -
    from that obtain y where y: "y \<in> set (payments u)"
      "x = (if p_id y = i \<and> p_status y = p_status p then moved_row st p u y else y)"
      by (auto simp: moved_db_def update_where_def)
    show ?thesis
    proof (cases "p_id y = i")
      case True
      with keyed_unique [OF k y(1) q(1)] q(2) have "y = q" by simp
      with y(2) q(2) assms(3) have x: "p_id x = i" "p_status x = st" by simp_all
      from assms(1) q obtain ts where ts: "trail i u = Pending # ts" "pay_run Pending ts" "last (Pending # ts) = p_status q"
        by (auto simp: tracked_def on_track_def)
      have "pay_step (last (Pending # ts)) st" using ts(3) assms(3,4) by (simp add: pay_step_iff)
      then have "pay_run Pending (ts @ [st])" using ts(2) by (simp only: pay_run_snoc)
      then show ?thesis using x ts(1) trail_moved [OF ne, of i reason u]
        by (auto simp: on_track_def intro!: exI [of _ "ts @ [st]"])
    next
      case False
      with y assms(1) have "on_track u x" "p_id x \<noteq> i" by (auto simp: tracked_def)
      then show ?thesis by (simp add: on_track_def trail_other)
    qed
  qed
  moreover have "keyed p_id (payments ?t)" using k by (simp add: moved_db_def keyed_update_where)
  moreover have "exists_by (\<lambda>p. p_id p = h_payment h) (payments ?t)" if "h \<in> set (history ?t)" for h
  proof -
    from that have "h \<in> set (history u) \<or> h_payment h = i" by (auto simp: moved_db_def step_row_def)
    then have "exists_by (\<lambda>p. p_id p = h_payment h) (payments u)"
    proof
      assume "h_payment h = i"
      then show ?thesis using assms(2) by (simp add: exists_by_find)
    qed (use assms(1) in \<open>simp add: tracked_def\<close>)
    then show ?thesis by (simp add: moved_db_def exists_by_find find_by_update_where)
  qed
  ultimately show ?thesis by (simp add: tracked_def)
qed

lemma keeps_transition_tx:
  assumes "\<And>s. tracked s \<Longrightarrow> tracked (between s)"
  shows "keeps tracked (transition_tx between i st reason)"
proof (rule keepsI)
  fix s assume s: "tracked s"
  with assms have u: "tracked (between s)" by blast
  obtain r t where o: "transition_tx between i st reason s = (r, t)" by (rule prod.exhaust)
  from u have "keyed p_id (payments (between s))" by (simp add: tracked_def)
  with o have "tracked t" by (cases rule: transition_tx_cases) (use s u tracked_moved in auto)
  with o show "tracked (snd (transition_tx between i st reason s))" by simp
qed

lemma keeps_transition:
  assumes "\<And>s. tracked s \<Longrightarrow> tracked (en_between en s)"
  shows "keeps tracked (transition en i st reason)"
proof -
  have "keeps tracked (transition_effects pc p i st)" for pc p
    using keeps_of_core [OF tracked_core core_transition_effects] .
  then show ?thesis unfolding transition_def
    by (auto intro!: keeps_intros keeps_transition_tx assms split: prod.split)
qed

section \<open>Recording payments and refunds\<close>

lemma core_records [simp]: "core (s\<lparr>idem_records := rs\<rparr>) = core s" "core (s\<lparr>provider_refs := ps\<rparr>) = core s"
  by (simp_all add: core_def)

definition created_row :: "string \<Rightarrow> history_row" where
  "created_row i = \<lparr>h_payment = i, h_from = None, h_to = Pending, h_reason = ''created''\<rparr>"

lemma record_payment_cases:
  assumes "record_payment en p kr s = (r, t)"
  obtains (recorded) "\<not> exists_by (\<lambda>x. p_id x = p_id p) (payments s)" "r = Inr (PaymentRes (serialize (en_checkout en) p), 201)"
      "core t = core (s\<lparr>payments := payments s @ [p], history := history s @ [created_row (p_id p)]\<rparr>)"
      "idem_records t = idem_records s" "clock t = clock s"
    | (taken) "r = Inl P2002" "t = s"
proof (cases "exists_by (payment_clash p) (payments s)")
  case True
  with assms show ?thesis by (intro taken) (auto simp: record_payment_def op_simps)
next
  case False
  have c: "payment_clash p = (\<lambda>x. p_id x = p_id p)" by (auto simp: fun_eq_iff payment_clash_def)
  have "\<exists>v. record_payment en p kr s = (Inr (PaymentRes (serialize (en_checkout en) p), 201), v) \<and>
      core v = core (s\<lparr>payments := payments s @ [p], history := history s @ [created_row (p_id p)]\<rparr>) \<and>
      idem_records v = idem_records s \<and> clock v = clock s"
    using False by (cases kr) (simp_all add: record_payment_def op_simps created_row_def core_def)
  with assms False c show ?thesis by (intro recorded) auto
qed

lemma keeps_record_payment:
  assumes "p_status p = Pending"
  shows "keeps tracked (record_payment en p kr)"
proof (rule keepsI)
  fix s assume s: "tracked s"
  obtain r t where o: "record_payment en p kr s = (r, t)" by (rule prod.exhaust)
  from o have "tracked t"
  proof (cases rule: record_payment_cases)
    case recorded
    let ?v = "s\<lparr>payments := payments s @ [p], history := history s @ [created_row (p_id p)]\<rparr>"
    have no: "trail (p_id p) s = []"
      using s recorded(1) by (auto simp: trail_def tracked_def filter_empty_conv)
    have old: "on_track ?v x" if "x \<in> set (payments s)" for x
    proof -
      from that recorded(1) have "p_id x \<noteq> p_id p" by (auto simp: exists_by_iff)
      then have "trail (p_id x) ?v = trail (p_id x) s" by (simp add: trail_def created_row_def)
      then show ?thesis using that s by (simp add: tracked_def on_track_def)
    qed
    have "trail (p_id p) ?v = [Pending]" using no by (simp add: trail_def created_row_def)
    then have "on_track ?v p" using assms by (simp add: on_track_def)
    with old s recorded(1) have "tracked ?v" by (auto simp: tracked_def keyed_append_one created_row_def)
    then show ?thesis using tracked_core recorded(3) by (metis core_only_def)
  qed (use s in simp)
  with o show "tracked (snd (record_payment en p kr s))" by simp
qed

abbreviation with_refund :: "payment_row \<Rightarrow> decimal \<Rightarrow> payment_row list \<Rightarrow> payment_row list" where
  "with_refund p amount ps \<equiv> update_where (\<lambda>x. p_id x = p_id p \<and> p_refunded x = p_refunded p)
     (\<lambda>x. x\<lparr>p_refunded := p_refunded p + amount\<rparr>) ps"

definition refund_note :: "payment_row \<Rightarrow> decimal \<Rightarrow> bool \<Rightarrow> history_row" where
  "refund_note p amount manual = \<lparr>h_payment = p_id p, h_from = Some Paid, h_to = Paid,
     h_reason = ''refund '' @ formatAmount amount (p_currency p) @ (if manual then '' (manual settlement)'' else [])\<rparr>"

lemma record_refund_cases:
  assumes "record_refund p amount row manual s = (r, t)" and "keyed p_id (payments s)"
  obtains (refunded) q where "payment_of (p_id p) s = Some q" "p_refunded q = p_refunded p"
      "\<not> exists_by (refund_clash row) (refunds s)" "r = Inr (RefundRes (serializeRefund row), 201)"
      "t = s\<lparr>payments := with_refund p amount (payments s), refunds := refunds s @ [row],
         history := history s @ [refund_note p amount manual]\<rparr>"
    | (conflict) "\<And>q. payment_of (p_id p) s = Some q \<Longrightarrow> p_refunded q \<noteq> p_refunded p"
      "r = Inl (idempotencyConflict ''Concurrent refund detected; retry'')" "t = s"
    | (taken) q where "payment_of (p_id p) s = Some q" "p_refunded q = p_refunded p"
      "r = Inl P2002" "t = s\<lparr>payments := with_refund p amount (payments s)\<rparr>"
proof -
  note c = count_by_key [OF assms(2), where i = "p_id p" and Q = "\<lambda>x. p_refunded x = p_refunded p"]
  show ?thesis
  proof (cases "\<exists>q. payment_of (p_id p) s = Some q \<and> p_refunded q = p_refunded p")
    case True
    then obtain q where q: "payment_of (p_id p) s = Some q" "p_refunded q = p_refunded p" by blast
    with c have one: "count_where (\<lambda>x. p_id x = p_id p \<and> p_refunded x = p_refunded p) (payments s) = 1" by simp
    show ?thesis
    proof (cases "exists_by (refund_clash row) (refunds s)")
      case True
      with assms(1) one show ?thesis by (intro taken [OF q]) (auto simp: record_refund_def op_simps)
    next
      case False
      with assms(1) one q show ?thesis
        by (intro refunded [of q]) (auto simp: record_refund_def op_simps refund_note_def)
    qed
  next
    case False
    then have z: "count_where (\<lambda>x. p_id x = p_id p \<and> p_refunded x = p_refunded p) (payments s) = 0"
      by (auto simp: c split: option.split)
    then have "\<forall>x \<in> set (payments s). \<not> (p_id x = p_id p \<and> p_refunded x = p_refunded p)"
      unfolding count_where_0 exists_by_iff by blast
    then have "with_refund p amount (payments s) = payments s" by (rule update_where_none)
    with assms(1) z have "r = Inl (idempotencyConflict ''Concurrent refund detected; retry'')" "t = s"
      by (auto simp: record_refund_def op_simps)
    with False show ?thesis by (intro conflict) auto
  qed
qed

lemma on_track_same: "trail (p_id y) t = trail (p_id x) s \<Longrightarrow> p_status y = p_status x \<Longrightarrow> on_track s x \<Longrightarrow> on_track t y"
  by (simp add: on_track_def)

lemma tracked_refund:
  assumes "tracked s" and "hs = [] \<or> hs = [refund_note p amount manual] \<and> payment_of (p_id p) s \<noteq> None"
  shows "tracked (s\<lparr>payments := with_refund p amount (payments s), refunds := rs, history := history s @ hs\<rparr>)"
proof -
  let ?t = "s\<lparr>payments := with_refund p amount (payments s), refunds := rs, history := history s @ hs\<rparr>"
  have tr: "trail i ?t = trail i s" for i using assms(2) by (auto simp: trail_def refund_note_def)
  have "on_track ?t x" if "x \<in> set (payments ?t)" for x
  proof -
    from that obtain y where "y \<in> set (payments s)" "p_id x = p_id y" "p_status x = p_status y"
      by (auto simp: update_where_def split: if_splits)
    with assms(1) tr show ?thesis by (auto intro!: on_track_same [of x ?t y s] simp: tracked_def)
  qed
  moreover have "keyed p_id (payments ?t)" using assms(1) by (simp add: tracked_def keyed_update_where)
  moreover have "exists_by (\<lambda>p. p_id p = j) (payments ?t) = exists_by (\<lambda>p. p_id p = j) (payments s)" for j
    by (simp add: exists_by_find find_by_update_where)
  moreover have "exists_by (\<lambda>p. p_id p = h_payment h) (payments s)" if "h \<in> set (history ?t)" for h
    using that assms by (auto simp: tracked_def refund_note_def exists_by_find)
  ultimately show ?thesis by (simp add: tracked_def)
qed

lemma keeps_record_refund: "keeps tracked (record_refund p amount row manual)"
proof (rule keepsI)
  fix s assume s: "tracked s"
  obtain r t where o: "record_refund p amount row manual s = (r, t)" by (rule prod.exhaust)
  from s have "keyed p_id (payments s)" by (simp add: tracked_def)
  with o have "tracked t"
  proof (cases rule: record_refund_cases)
    case (refunded q)
    then show ?thesis using tracked_refund [OF s, of "[refund_note p amount manual]" p amount manual "refunds s @ [row]"] by simp
  next
    case taken
    then show ?thesis using tracked_refund [OF s, of "[]" p amount manual "refunds s"] by simp
  qed (use s in simp)
  with o show "tracked (snd (record_refund p amount row manual s))" by simp
qed

text \<open>Neither touches the records of the replay guard, so its contract holds for both.\<close>

interpretation payment_run: idempotent_run "record_payment en p kr" for en p kr
  by unfold_locales (auto elim!: record_payment_cases)

interpretation refund_run: idempotent_run "record_refund p amount row manual" for p amount row manual
  by unfold_locales (auto simp: record_refund_def op_simps guardM_def ret_def throw_def createM_def bindM_def update_manyM_def seqM_def
      add_history_def modifyM_def split: if_splits)

section \<open>Every operation keeps the histories\<close>

lemma keeps_pure: "keeps P (\<lambda>s. (f s, s))"
  by (simp add: keeps_def)

text \<open>The writes that other requests slip in keep the histories too: they are made by the same operations.\<close>

definition tracking :: "env \<Rightarrow> bool" where
  "tracking en \<longleftrightarrow> (\<forall>s. tracked s \<longrightarrow> tracked (en_others en s) \<and> tracked (en_between en s))"

lemma tracking_transition: "tracking en \<Longrightarrow> keeps tracked (transition en i st reason)"
  by (rule keeps_transition) (simp add: tracking_def)

lemma tracked_idem: "tracked (s\<lparr>idem_records := rs\<rparr>) = tracked s"
  using tracked_core core_records unfolding core_only_def by blast

lemma keeps_draw: "keeps tracked (prefixedId x)"
  by (rule keeps_of_core [OF tracked_core]) (auto intro: keeps_prefixedId)

lemma keeps_event: "keeps tracked (emit_event p ty)" "keeps tracked (emit e)"
  by (rule keeps_of_core [OF tracked_core], use core_emit_event in blast)
     (rule keeps_of_core [OF tracked_core], auto intro: keeps_emit)

lemma keeps_replayed_before: "keeps P (replayed_before en st ep k b)"
  unfolding replayed_before_def replay_def by (auto intro!: keeps_intros split: option.split)

lemma keeps_findScoped: "keeps P (findScoped st i)"
  unfolding findScoped_def by (intro keeps_intros)

lemma keeps_price: "keeps P (price ax dto amount)"
  unfolding price_def price_coupon_def price_gift_def resolveActive_def resolveForStore_def
  by (auto intro!: keeps_intros keeps_pure split: option.split prod.split)

lemma keeps_draw_khqr: "keeps P (draw_khqr en x)"
  unfolding draw_khqr_def by (auto intro!: keeps_intros split: sum.split exn.split)

lemma keeps_refund_amount: "keeps P (refund_amount p dto)"
  unfolding refund_amount_def Let_def by (auto intro!: keeps_intros split: option.split)

lemma keeps_create_payment:
  assumes "tracking en"
  shows "keeps tracked (create_payment en ax dto key b)"
proof -
  have x: "keeps tracked (execute_racing sha (en_others en) rq (record_payment en (new_payment ax dto ch i qr now ex) kr))" for sha rq ch i qr now ex kr
    using assms tracked_idem
    by (intro payment_run.execute_keeps keeps_record_payment) (auto simp: tracking_def new_payment_def)
  have e: "keeps tracked (created_effects en p c r)" for p c r
    unfolding created_effects_def emitCreated_def by (intro keeps_intros keeps_event tracking_transition assms)
  show ?thesis unfolding create_payment_def Let_def
    by (auto intro!: keeps_intros keeps_replayed_before keeps_price keeps_draw keeps_draw_khqr x e split: option.split prod.split)
qed

lemma keeps_refund:
  assumes "tracking en"
  shows "keeps tracked (refund_payment en ax i dto key b)"
proof -
  have x: "keeps tracked (execute_racing sha (en_others en) rq (record_refund p a row m))" for sha rq p a row m
    using assms tracked_idem
    by (intro refund_run.execute_keeps keeps_record_refund) (auto simp: tracking_def)
  have l: "keeps tracked (ledger_refund p a j)" for p a j using keeps_of_core [OF tracked_core core_ledger] .
  have e: "keeps tracked (refund_effects en p a j)" for p a j
    unfolding refund_effects_def emitRefunded_def
    by (auto intro!: keeps_intros l keeps_event tracking_transition assms split: option.split)
  have pr: "keeps tracked (provider_refund en p a)" for p a
    unfolding provider_refund_def by (auto intro!: keeps_intros keeps_event split: sum.split)
  show ?thesis unfolding refund_payment_def
    by (auto intro!: keeps_intros keeps_replayed_before keeps_findScoped keeps_refund_amount keeps_draw x e pr split: option.split prod.split)
qed

lemma keeps_lazy: "tracking en \<Longrightarrow> keeps tracked (applyLazyExpiry en p)"
  unfolding applyLazyExpiry_def by (auto intro!: keeps_intros tracking_transition)

lemma keeps_others:
  assumes "tracking en"
  shows "keeps tracked (cancel_payment en ax i)" and "keeps tracked (simulate en ax i st)" and "keeps tracked (retrieve en ax i)"
    and "keeps tracked (publicView en payee i)"
  unfolding cancel_payment_def simulate_def retrieve_def publicView_def
  by (auto intro!: keeps_intros keeps_findScoped tracking_transition keeps_lazy assms)

section \<open>Who moves a payment\<close>

text \<open>A transition that moved the payment leaves it in the status it was moved to, whatever its effects did.\<close>

lemma transition_moved:
  assumes "keyed p_id (payments (en_between en s))" and "payment_of i s = Some p" and "canTransition (p_status p) st"
    and "payment_of i (en_between en s) = Some q" and "p_status q = p_status p"
  obtains r t where "transition en i st reason s = (r, t)" "core t = core (moved_db i p st reason (en_between en s))"
    "payment_of i t = Some (moved_row st p (en_between en s) q)"
proof -
  let ?u = "en_between en s"
  let ?m = "moved_row st p ?u q"
  obtain x v where o: "transition_tx (en_between en) i st reason s = (x, v)" by (rule prod.exhaust)
  have ne: "p_status p \<noteq> st" using assms(3) canTransition_irrefl by metis
  from o assms(1) have "x = Inr (?m, True) \<and> v = moved_db i p st reason ?u"
    by (cases rule: transition_tx_cases) (use assms(2-5) ne in auto)
  then have xv: "x = Inr (?m, True)" "v = moved_db i p st reason ?u" by simp_all
  obtain y t where e: "transition_effects (en_paychain en) ?m i st v = (y, t)" by (rule prod.exhaust)
  have c: "core t = core v" using keeps_core_result [OF core_transition_effects e] .
  have "\<exists>r. transition en i st reason s = (r, t)"
    using o xv e by (simp add: transition_def bindM_result [where m = "transition_tx (en_between en) i st reason"])
      (simp add: seqM_def bindM_def ret_def split: sum.split)
  moreover from find_by_SomeD [OF assms(4)] have "p_id q = i" by simp
  then have "payment_of i v = Some ?m"
    using assms(4,5) by (simp add: xv(2) moved_db_def find_by_update_where)
  then have "payment_of i t = Some ?m" using c by (simp add: core_def)
  ultimately show ?thesis using that c xv(2) by auto
qed

lemma transition_there:
  assumes "payment_of i s = Some p" and "p_status p = st"
  shows "transition en i st reason s = (Inr p, s)"
proof -
  have "transition_tx (en_between en) i st reason s = (Inr (p, False), s)"
    using assms by (simp add: transition_tx_def transaction_def op_simps)
  then show ?thesis by (simp add: transition_def bindM_def op_simps)
qed

section \<open>Properties\<close>

text \<open>C2: The service refines the status machine: with the history of a payment as the abstraction, every create,
  transition, cancellation, simulation, refund, lazy expiry and checkout view, and whatever they
  race with, keeps for every payment that the statuses it went through are a run of the
  machine from pending to its present status, and that no history speaks of a payment that is not there.\<close>

theorem payments_refine_machine:
  assumes "tracked s" and "tracking en"
  shows "tracked (snd (create_payment en ax dto key b s)) \<and> tracked (snd (transition en i st reason s)) \<and>
    tracked (snd (cancel_payment en ax i s)) \<and> tracked (snd (simulate en ax i st s)) \<and> tracked (snd (retrieve en ax i s)) \<and>
    tracked (snd (refund_payment en ax i rdto key b s)) \<and> tracked (snd (publicView en payee i s))"
proof -
  note k = keeps_create_payment tracking_transition keeps_others keeps_refund
  show ?thesis by (intro conjI; rule keepsD; intro k assms)
qed

text \<open>C4: Two callers that meet on a payment, one of them reading it before and writing it after the other's whole
  transition, move it once: the late one changes nothing and runs no effect, and any later transition to the
  same status is a no-op.\<close>

theorem moved_once_under_race:
  assumes "keyed p_id (payments s)" and "payment_of i s = Some p" and "canTransition (p_status p) st"
    and "en_between en' = id" and "en_between en = (\<lambda>u. snd (transition en' i st reason' u))"
  shows "\<exists>t. snd (transition en' i st reason' s) = t \<and> transition en i st reason s = (Inr p, t) \<and>
    (\<exists>q. p_status q = st \<and> transition en'' i st reason'' t = (Inr q, t))"
proof -
  have "keyed p_id (payments (en_between en' s))" "payment_of i (en_between en' s) = Some p" using assms by simp_all
  from transition_moved [where reason = reason', OF this(1) assms(2,3) this(2) refl] obtain r t where
    t: "transition en' i st reason' s = (r, t)" "core t = core (moved_db i p st reason' (en_between en' s))"
    "payment_of i t = Some (moved_row st p (en_between en' s) p)" .
  have ne: "p_status p \<noteq> st" using assms(3) canTransition_irrefl by metis
  have b: "en_between en s = t" using t(1) assms(5) by simp
  have "payments t = payments (moved_db i p st reason' s)" using t(2) assms(4) by (simp add: core_def)
  then have k: "keyed p_id (payments (en_between en s))" using assms(1) b by (simp add: moved_db_def keyed_update_where)
  obtain x v where o: "transition_tx (en_between en) i st reason s = (x, v)" by (rule prod.exhaust)
  from o k have "x = Inr (p, False) \<and> v = t"
    by (cases rule: transition_tx_cases) (use assms(2,3) ne t(3) b in auto)
  with o have "transition en i st reason s = (Inr p, t)" by (simp add: transition_def op_simps bindM_def)
  moreover have "transition en'' i st reason'' t = (Inr (moved_row st p (en_between en' s) p), t)"
    using t(3) by (rule transition_there) simp
  ultimately show ?thesis using t(1) moved_row_fields(2) by auto
qed

text \<open>When an effect of a capture throws, the payment stays captured and the effects after it are lost: the call
  reports the error, but the payment is paid, and calling again reports success without running anything.\<close>

theorem failed_effect_not_retried:
  assumes "keyed p_id (payments s)" and "payment_of i s = Some p" and "canTransition (p_status p) Paid" and "en_between en = id"
    and "transition en i Paid reason s = (Inl e, t)"
  shows "\<exists>q. payment_of i t = Some q \<and> p_status q = Paid \<and> transition en i Paid reason' t = (Inr q, t)"
proof -
  have "keyed p_id (payments (en_between en s))" "payment_of i (en_between en s) = Some p" using assms by simp_all
  from transition_moved [where reason = reason, OF this(1) assms(2,3) this(2) refl] assms(5)
  have "payment_of i t = Some (moved_row Paid p s p)" using assms(4) by auto
  then show ?thesis using transition_there by auto
qed

text \<open>A pending payment with its history, and an environment of its own.\<close>

definition sample_env :: "(db \<Rightarrow> db) \<Rightarrow> env" where
  "sample_env between = \<lparr>en_sha256 = id, en_provider = \<lparr>pv_name = ''mock'',
     pv_create = \<lambda>x. Inr \<lparr>kr_qr = ''000201'', kr_md5 = ''0'', kr_bill = None\<rparr>,
     pv_refund = \<lambda>_ _ _. Inr \<lparr>rf_ok = True, rf_provider_ref = None, rf_manual = False\<rparr>\<rparr>,
     en_paychain = no_paychain, en_checkout = ''https://pay'', en_others = id, en_between = between\<rparr>"

definition sample_ctx :: api_key_ctx where
  "sample_ctx = \<lparr>ax_key = ''key_1'', ax_store = ''store_1'', ax_org = ''org_1'', ax_mode = TestMode\<rparr>"

definition pending_payment :: payment_row where
  "pending_payment = (sample_payment 5 USD)\<lparr>p_status := Pending, p_paid_at := None\<rparr>"

definition pending_db :: db where
  "pending_db = (quota_db 100)\<lparr>payments := [pending_payment], history := [created_row ''pay_1'']\<rparr>"

lemma pending_db_payment: "payment_of ''pay_1'' pending_db = Some pending_payment" "p_status pending_payment = Pending"
  "keyed p_id (payments pending_db)"
  by (simp_all add: pending_db_def pending_payment_def sample_payment_def keyed_def)

lemma pending_db_tracked: "tracked pending_db"
  by (simp add: tracked_def on_track_def trail_def pending_db_def created_row_def pending_payment_def sample_payment_def keyed_def)

theorem payments_refine_machine_witness:
  "tracked (snd (transition (sample_env id) ''pay_1'' Paid ''captured'' pending_db)) \<and>
   tracked (snd (create_payment (sample_env id) sample_ctx \<lparr>cd_amount = ''1.50'', cd_currency = USD, cd_reference = None,
     cd_description = None, cd_metadata = None, cd_expires_in = None, cd_branch = None, cd_customer = None, cd_coupon = None,
     cd_gift_card = None\<rparr> None [] pending_db))"
proof -
  have "tracking (sample_env id)" by (simp add: tracking_def sample_env_def)
  from payments_refine_machine [OF pending_db_tracked this] show ?thesis by blast
qed

theorem moved_once_under_race_witness:
  "\<exists>q t. transition (sample_env (\<lambda>u. snd (transition (sample_env id) ''pay_1'' Paid ''webhook'' u))) ''pay_1'' Paid ''poll'' pending_db =
     (Inr pending_payment, t) \<and> p_status q = Paid \<and> transition (sample_env id) ''pay_1'' Paid ''again'' t = (Inr q, t)"
proof -
  have c: "canTransition (p_status pending_payment) Paid" by (simp add: pending_db_payment)
  have e: "en_between (sample_env id) = id"
    "en_between (sample_env (\<lambda>u. snd (transition (sample_env id) ''pay_1'' Paid ''webhook'' u))) =
       (\<lambda>u. snd (transition (sample_env id) ''pay_1'' Paid ''webhook'' u))" by (simp_all add: sample_env_def)
  from moved_once_under_race [OF pending_db_payment(3,1) c e, of "''poll''" "sample_env id" "''again''"] show ?thesis by blast
qed

text \<open>The organisation of the store is gone, so counting the capture fails.\<close>

theorem failed_effect_not_retried_witness:
  "\<exists>e t q. transition (sample_env id) ''pay_1'' Paid ''captured'' (pending_db\<lparr>orgs := []\<rparr>) = (Inl e, t) \<and>
     journals t = [] \<and> payment_of ''pay_1'' t = Some q \<and> p_status q = Paid \<and>
     transition (sample_env id) ''pay_1'' Paid ''again'' t = (Inr q, t)"
proof -
  let ?s = "pending_db\<lparr>orgs := []\<rparr>"
  have k: "keyed p_id (payments ?s)" "payment_of ''pay_1'' ?s = Some pending_payment" using pending_db_payment by simp_all
  have b: "en_between (sample_env id) = id" by (simp add: sample_env_def)
  let ?m = "moved_row Paid pending_payment ?s pending_payment"
  let ?v = "moved_db ''pay_1'' pending_payment Paid ''captured'' ?s"
  obtain x v where o: "transition_tx id ''pay_1'' Paid ''captured'' ?s = (x, v)" by (rule prod.exhaust)
  from k have "keyed p_id (payments (id ?s))" by simp
  with o have "x = Inr (?m, True) \<and> v = ?v"
    by (cases rule: transition_tx_cases) (use k pending_db_payment(2) in auto)
  then have xv: "x = Inr (?m, True)" "v = ?v" by simp_all
  have st: "stores ?v = [sample_store]" "orgs ?v = []" "journals ?v = []" "usages ?v = []" "p_store ?m = ''store_1''"
    by (simp_all add: moved_db_def pending_db_def quota_db_def empty_db_def pending_payment_def sample_payment_def)
  have "\<exists>t. recordPaidForStore ''store_1'' ?v = (Inl (internal ''Organization not found''), t) \<and> journals t = []"
    using st by (simp add: recordPaidForStore_def recordPaid_def upsert_usage_def maybeWarn_def op_simps sample_store_def Let_def)
  then obtain t where "recordPaidForStore ''store_1'' ?v = (Inl (internal ''Organization not found''), t)" and j: "journals t = []" by blast
  then have "transition_effects (en_paychain (sample_env id)) ?m ''pay_1'' Paid ?v = (Inl (internal ''Organization not found''), t)"
    using st(5) by (simp add: transition_effects_def paid_effects_def seqM_def bindM_def)
  then have "transition (sample_env id) ''pay_1'' Paid ''captured'' ?s = (Inl (internal ''Organization not found''), t)"
    using o xv b by (simp add: transition_def seqM_def bindM_def)
  moreover from failed_effect_not_retried [OF k _ b this, of "''again''"] pending_db_payment(2) obtain q where
    "payment_of ''pay_1'' t = Some q" "p_status q = Paid" "transition (sample_env id) ''pay_1'' Paid ''again'' t = (Inr q, t)"
    by auto
  ultimately show ?thesis using j by blast
qed

end
