(* ===== verification/Refunds.thy ===== *)
theory Refunds
  imports Transitions
begin

text \<open>
  The money a payment gives back: the amount refunded on a payment is the sum of its refunds and
  never exceeds the charge, whatever the requests it races with; and what the guard on the amount
  refunded cannot take back, the money the provider has already moved.
\<close>

section \<open>The refunded amount\<close>

definition refunds_of :: "string \<Rightarrow> db \<Rightarrow> refund_row list" where
  "refunds_of i s = rows_where (\<lambda>r. r_payment r = i) (refunds s)"

definition given_back :: "string \<Rightarrow> db \<Rightarrow> decimal" where
  "given_back i s = sum_list (map r_amount (refunds_of i s))"

definition refund_ok :: "db \<Rightarrow> payment_row \<Rightarrow> bool" where
  "refund_ok s p \<longleftrightarrow> p_refunded p = given_back (p_id p) s \<and> 0 \<le> p_refunded p \<and> p_refunded p \<le> p_amount p"

definition refunds_ok :: "db \<Rightarrow> bool" where
  "refunds_ok s \<longleftrightarrow> keyed p_id (payments s) \<and> (\<forall>p \<in> set (payments s). refund_ok s p) \<and>
     (\<forall>r \<in> set (refunds s). exists_by (\<lambda>p. p_id p = r_payment r) (payments s))"

text \<open>Other requests keep this and never change what a payment charges.\<close>

definition charge_of :: "string \<Rightarrow> db \<Rightarrow> decimal option" where
  "charge_of i s = map_option p_amount (payment_of i s)"

definition fair :: "(db \<Rightarrow> db) \<Rightarrow> bool" where
  "fair f \<longleftrightarrow> (\<forall>s. refunds_ok s \<longrightarrow> refunds_ok (f s) \<and> (\<forall>i. charge_of i s \<noteq> None \<longrightarrow> charge_of i (f s) = charge_of i s))"

definition fair_env :: "env \<Rightarrow> bool" where
  "fair_env en \<longleftrightarrow> fair (en_others en) \<and> fair (en_between en)"

definition charged :: "string \<Rightarrow> decimal \<Rightarrow> db \<Rightarrow> bool" where
  "charged i a s \<longleftrightarrow> refunds_ok s \<and> charge_of i s = Some a"

lemma fair_charged: "fair f \<Longrightarrow> charged i a s \<Longrightarrow> charged i a (f s)"
  by (auto simp: fair_def charged_def)

lemma refunds_core: "core_only refunds_ok" "core_only (charged i a)"
  by (auto simp: core_only_def core_def refunds_ok_def refund_ok_def given_back_def refunds_of_def charged_def charge_of_def)

lemma refunds_ok_moved:
  assumes "refunds_ok u"
  shows "refunds_ok (moved_db i p st reason u)" and "charge_of j (moved_db i p st reason u) = charge_of j u"
proof -
  have ex: "exists_by (\<lambda>x. p_id x = j) (payments (moved_db i p st reason u)) = exists_by (\<lambda>x. p_id x = j) (payments u)" for j
    by (simp add: moved_db_def exists_by_find find_by_update_where)
  have "refund_ok (moved_db i p st reason u) x" if "x \<in> set (payments (moved_db i p st reason u))" for x
  proof -
    from that obtain y where "y \<in> set (payments u)" and y: "p_id x = p_id y" "p_refunded x = p_refunded y" "p_amount x = p_amount y"
      by (auto simp: moved_db_def update_where_def split: if_splits)
    with assms have "refund_ok u y" by (simp add: refunds_ok_def)
    moreover have "given_back k (moved_db i p st reason u) = given_back k u" for k
      by (simp add: given_back_def refunds_of_def moved_db_def)
    ultimately show ?thesis by (simp add: refund_ok_def y)
  qed
  then show "refunds_ok (moved_db i p st reason u)"
    using assms by (simp add: refunds_ok_def ex) (simp add: moved_db_def keyed_update_where)
  show "charge_of j (moved_db i p st reason u) = charge_of j u"
    by (cases "payment_of j u") (simp_all add: charge_of_def moved_db_def find_by_update_where)
qed

text \<open>The amount the refunds of a payment come to after one more.\<close>

lemma given_back_append: "given_back i (s\<lparr>refunds := refunds s @ [row]\<rparr>) = given_back i s + (if r_payment row = i then r_amount row else 0)"
  by (simp add: given_back_def refunds_of_def rows_where_def)

lemma refunds_ok_refunded:
  assumes "refunds_ok s" and "payment_of i s = Some q" and "p_refunded q = p_refunded p" and "p_id p = i"
    and "0 \<le> amount" and "p_refunded p + amount \<le> p_amount q" and "r_payment row = i" and "r_amount row = amount"
  shows "refunds_ok (s\<lparr>payments := with_refund p amount (payments s), refunds := refunds s @ [row], history := hs\<rparr>)"
    (is "refunds_ok ?t")
proof -
  from find_by_SomeD [OF assms(2)] have q: "q \<in> set (payments s)" "p_id q = i" by simp_all
  have k: "keyed p_id (payments s)" using assms(1) by (simp add: refunds_ok_def)
  have gb: "given_back j ?t = given_back j s + (if j = i then amount else 0)" for j
    using assms(7,8) by (simp add: given_back_def refunds_of_def rows_where_def)
  have "refund_ok ?t x" if "x \<in> set (payments ?t)" for x
  proof -
    from that obtain y where y: "y \<in> set (payments s)"
      "x = (if p_id y = p_id p \<and> p_refunded y = p_refunded p then y\<lparr>p_refunded := p_refunded p + amount\<rparr> else y)"
      by (auto simp: update_where_def)
    then have ok: "refund_ok s y" using assms(1) by (simp add: refunds_ok_def)
    show ?thesis
    proof (cases "p_id y = i")
      case True
      with keyed_unique [OF k y(1) q(1)] q(2) have "y = q" by simp
      with y(2) ok assms(3-6) q(2) show ?thesis unfolding refund_ok_def gb by simp
    next
      case False
      with y(2) ok assms(4) show ?thesis unfolding refund_ok_def gb by simp
    qed
  qed
  moreover have "keyed p_id (payments ?t)" using k by (simp add: keyed_update_where)
  moreover have "exists_by (\<lambda>x. p_id x = j) (payments ?t) = exists_by (\<lambda>x. p_id x = j) (payments s)" for j
    by (simp add: exists_by_find find_by_update_where)
  ultimately show ?thesis using assms(1,2,7) by (auto simp: refunds_ok_def exists_by_find)
qed

section \<open>Every step keeps it\<close>

lemma keeps_run:
  assumes "\<And>s r t. P s \<Longrightarrow> m s = (Inr r, t) \<Longrightarrow> P t"
  shows "keeps P (transaction m)"
proof (rule keepsI)
  fix s assume "P s"
  with assms show "P (snd (transaction m s))" by (auto simp: transaction_def split: prod.split sum.split)
qed

lemma keeps_bind_known:
  assumes "keeps P m" and "\<And>s a t. P s \<Longrightarrow> m s = (Inr a, t) \<Longrightarrow> Q a" and "\<And>a. Q a \<Longrightarrow> keeps P (f a)"
  shows "keeps P (bindM m f)"
proof (rule keepsI)
  fix s assume s: "P s"
  obtain r t where o: "m s = (r, t)" by (rule prod.exhaust)
  from keeps_result [OF assms(1) s o] have t: "P t" .
  show "P (snd (bindM m f s))"
  proof (cases r)
    case (Inl e)
    with o t show ?thesis by (simp add: bindM_def)
  next
    case (Inr a)
    with assms(2) s o have "Q a" by blast
    from keepsD [OF assms(3) [OF this] t] show ?thesis using o Inr by (simp add: bindM_def)
  qed
qed

text \<open>The replay guard around a transaction that keeps a property when it succeeds.\<close>

lemma execute_keeps_run:
  assumes "\<And>s r t. P s \<Longrightarrow> m s = (Inr r, t) \<Longrightarrow> P t" and "\<And>s. P s \<Longrightarrow> P (others s)"
    and "\<And>s rs. P s \<Longrightarrow> P (s\<lparr>idem_records := rs\<rparr>)"
  shows "keeps P (execute_racing sha256 others rq m)"
proof -
  have rec: "keeps P (run_recorded sha256 rq k m)" for k
    unfolding run_recorded_def
  proof (rule keeps_run)
    fix s r t
    assume s: "P s" and e: "bindM m (\<lambda>r. bindM (getsM clock) (\<lambda>now.
       seqM (createM idem_records idem_records_update idem_clash (new_record sha256 rq k r now)) (ret r))) s = (Inr r, t)"
    from e obtain a u where a: "m s = (Inr a, u)" and
      c: "(\<lambda>r. bindM (getsM clock) (\<lambda>now.
       seqM (createM idem_records idem_records_update idem_clash (new_record sha256 rq k r now)) (ret r))) a u = (Inr r, t)"
      by (rule bindM_InrE)
    from assms(1) [OF s a] c assms(3) show "P t" by (auto simp: op_simps split: if_splits)
  qed
  have rep: "keeps P (replay w h)" for w h
    unfolding replay_def by (intro keeps_intros)
  have tx: "keeps P (transaction m)" using assms(1) by (rule keeps_run)
  show ?thesis
    supply keeps_transaction [keeps_intros del]
    unfolding execute_racing_def Let_def
    by (cases "iq_key rq") (auto intro!: keeps_intros keeps_modify tx assms(2) rec rep split: option.split)
qed

lemma keeps_transition_refunds:
  assumes "core_only P" and "\<And>s. P s \<Longrightarrow> P (en_between en s)" and "\<And>s. P s \<Longrightarrow> refunds_ok s"
    and "\<And>i p st reason s. P s \<Longrightarrow> P (moved_db i p st reason s)"
  shows "keeps P (transition en i st reason)"
proof -
  have "keeps P (transition_tx (en_between en) i st reason)"
  proof (rule keepsI)
    fix s assume s: "P s"
    obtain r t where o: "transition_tx (en_between en) i st reason s = (r, t)" by (rule prod.exhaust)
    from assms(3) [OF assms(2) [OF s]] have "keyed p_id (payments (en_between en s))" by (simp add: refunds_ok_def)
    with o have "P t" by (cases rule: transition_tx_cases) (use s assms in auto)
    with o show "P (snd (transition_tx (en_between en) i st reason s))" by simp
  qed
  moreover have "keeps P (transition_effects pc p i st)" for pc p
    using keeps_of_core [OF assms(1) core_transition_effects] .
  ultimately show ?thesis unfolding transition_def by (auto intro!: keeps_intros split: prod.split)
qed

lemma moves_keep_refunds: "fair_env en \<Longrightarrow> keeps refunds_ok (transition en i st reason)"
  by (rule keeps_transition_refunds) (auto simp: refunds_core refunds_ok_moved fair_env_def fair_def)

lemma moves_keep_charge: "fair_env en \<Longrightarrow> keeps (charged j a) (transition en i st reason)"
  by (rule keeps_transition_refunds)
    (auto simp: refunds_core refunds_ok_moved fair_env_def fair_charged, auto simp: charged_def refunds_ok_moved)

lemma record_refund_keeps:
  assumes "charged (p_id p) (p_amount p) s" and "record_refund p amount row manual s = (Inr r, t)"
    and "0 \<le> amount" and "p_refunded p + amount \<le> p_amount p" and "r_payment row = p_id p" and "r_amount row = amount"
  shows "charged (p_id p) (p_amount p) t"
proof -
  have ok: "refunds_ok s" "charge_of (p_id p) s = Some (p_amount p)" using assms(1) by (simp_all add: charged_def)
  then have "keyed p_id (payments s)" by (simp add: refunds_ok_def)
  with assms(2) show ?thesis
  proof (cases rule: record_refund_cases)
    case (refunded q)
    from refunded(1) ok(2) have a: "p_amount q = p_amount p" by (simp add: charge_of_def)
    have "refunds_ok t" unfolding refunded(5)
      using refunds_ok_refunded [OF ok(1) refunded(1,2) refl assms(3) _ assms(5,6)] assms(4) a by simp
    moreover have "charge_of (p_id p) t = Some (p_amount p)"
      using refunded(1,5) a by (simp add: charge_of_def find_by_update_where)
    ultimately show ?thesis by (simp add: charged_def)
  qed simp_all
qed

section \<open>Every request keeps it\<close>

lemma charged_idem: "charged i a (s\<lparr>idem_records := rs\<rparr>) = charged i a s"
  using refunds_core(2) core_records unfolding core_only_def by blast

lemma keeps_core_emit: "core_only P \<Longrightarrow> keeps P (emit e)" "core_only P \<Longrightarrow> keeps P (prefixedId x)"
    "core_only P \<Longrightarrow> keeps P (emit_event p ty)" "core_only P \<Longrightarrow> keeps P (ledger_refund p a j)"
  by (rule keeps_of_core, assumption, rule allI, rule keeps_emit, simp)
    (rule keeps_of_core, assumption, rule allI, rule keeps_prefixedId, simp,
     rule keeps_of_core, assumption, rule core_emit_event, rule keeps_of_core, assumption, rule core_ledger)

lemma refund_row_fields [simp]: "r_payment (new_refund p a dto pr i now) = p_id p" "r_amount (new_refund p a dto pr i now) = a"
  by (simp_all add: new_refund_def)

lemma refund_amount_bounds:
  "refund_amount p dto s = (Inr a, t) \<Longrightarrow> 0 \<le> a \<and> p_refunded p + a \<le> p_amount p"
  unfolding refund_amount_def Let_def by (auto elim!: bindM_InrE simp: seqM_def guardM_def ret_def throw_def split: if_splits)

text \<open>After the payment is read, the rest of the request keeps what was read of its charge.\<close>

definition refund_rest ::
    "env \<Rightarrow> api_key_ctx \<Rightarrow> string \<Rightarrow> refund_dto \<Rightarrow> string option \<Rightarrow> string \<Rightarrow> payment_row \<Rightarrow> (resource \<times> nat) handler" where
  "refund_rest en ax paymentId dto key rawBody p =
     seqM (guardM (p_status p = Paid) (invalidRequest ''Only paid payments can be refunded''))
       (bindM (refund_amount p dto) (\<lambda>amount.
        bindM (provider_refund en p amount) (\<lambda>pr.
        bindM (prefixedId ''rf'') (\<lambda>refundId.
        bindM (getsM clock) (\<lambda>now.
        bindM (execute_racing (en_sha256 en) (en_others en) (refund_request ax paymentId key rawBody)
                 (record_refund p amount (new_refund p amount dto pr refundId now) (rf_manual pr))) (\<lambda>(r, replayed).
          seqM (if replayed then ret () else refund_effects en p amount refundId) (ret (fst r, 201))))))))"

lemma refund_payment_rest:
  "refund_payment en ax paymentId dto key rawBody =
     bindM (replayed_before en (ax_store ax) (refund_endpoint paymentId (ax_mode ax)) key rawBody) (\<lambda>before.
     case before of Some x \<Rightarrow> ret x
     | None \<Rightarrow> bindM (findScoped (ax_store ax) paymentId) (refund_rest en ax paymentId dto key rawBody))"
  unfolding refund_payment_def refund_rest_def [abs_def] ..

lemma keeps_refund_effects:
  assumes "core_only P" and "\<And>i st reason. keeps P (transition en i st reason)"
  shows "keeps P (refund_effects en p a i)"
  unfolding refund_effects_def emitRefunded_def
  by (auto intro!: keeps_intros assms keeps_core_emit split: option.split)

lemma keeps_refund_rest:
  assumes "fair_env en"
  shows "keeps (charged (p_id p) (p_amount p)) (refund_rest en ax i dto key b p)"
proof -
  let ?P = "charged (p_id p) (p_amount p)"
  have x: "keeps ?P (execute_racing sha (en_others en) rq (record_refund p a (new_refund p a dto pr j now) m))"
    if "0 \<le> a \<and> p_refunded p + a \<le> p_amount p" for sha rq a pr j now m
  proof (rule execute_keeps_run)
    fix s r t assume "?P s" and "record_refund p a (new_refund p a dto pr j now) m s = (Inr r, t)"
    then show "?P t" by (rule record_refund_keeps) (use that in auto)
  qed (use assms fair_charged in \<open>auto simp: fair_env_def charged_idem\<close>)
  have pr: "keeps ?P (provider_refund en p a)" for a
    unfolding provider_refund_def by (auto intro!: keeps_intros keeps_core_emit refunds_core split: sum.split)
  have e: "keeps ?P (refund_effects en p a j)" for a j
    by (rule keeps_refund_effects) (auto intro: refunds_core moves_keep_charge assms)
  show ?thesis unfolding refund_rest_def
    by (rule keeps_seq [OF keeps_guard], rule keeps_bind_known [OF keeps_refund_amount, OF refund_amount_bounds])
      (auto intro!: keeps_intros pr e x keeps_core_emit refunds_core split: prod.split)
qed

lemma findScoped_found:
  "findScoped st i s = (Inr p, t) \<Longrightarrow> t = s \<and> payment_of i s = Some p \<and> p_store p = st"
  by (auto simp: findScoped_def op_simps split: option.splits if_splits)

lemma keeps_refund_request:
  assumes "fair_env en"
  shows "keeps refunds_ok (refund_payment en ax i dto key b)"
proof -
  have "keeps refunds_ok (bindM (findScoped (ax_store ax) i) (refund_rest en ax i dto key b))"
  proof (rule keepsI)
    fix s assume s: "refunds_ok s"
    obtain r t where o: "findScoped (ax_store ax) i s = (r, t)" by (rule prod.exhaust)
    have "refunds_ok t" by (rule keeps_result [where P = refunds_ok, OF keeps_findScoped s o])
    show "refunds_ok (snd (bindM (findScoped (ax_store ax) i) (refund_rest en ax i dto key b) s))"
    proof (cases r)
      case (Inl e)
      with o \<open>refunds_ok t\<close> show ?thesis by (simp add: bindM_def)
    next
      case (Inr p)
      with o findScoped_found have f: "t = s" "payment_of i s = Some p" by metis+
      then have "p_id p = i" by (auto dest: find_by_SomeD)
      with f s have "charged (p_id p) (p_amount p) t" by (simp add: charged_def charge_of_def)
      from keepsD [OF keeps_refund_rest [OF assms] this] o Inr show ?thesis by (simp add: bindM_def charged_def)
    qed
  qed
  then show ?thesis unfolding refund_payment_rest
    by (auto intro!: keeps_intros keeps_replayed_before split: option.split)
qed

text \<open>A new payment starts with nothing refunded; its charge is not negative.\<close>

lemma record_payment_keeps:
  assumes "refunds_ok s" and "record_payment en p kr s = (r, t)" and "p_refunded p = 0" and "0 \<le> p_amount p"
  shows "refunds_ok t"
  using assms(2)
proof (cases rule: record_payment_cases)
  case recorded
  let ?v = "s\<lparr>payments := payments s @ [p], history := history s @ [created_row (p_id p)]\<rparr>"
  have g: "given_back i ?v = given_back i s" for i by (simp add: given_back_def refunds_of_def)
  have "refunds_of (p_id p) s = []"
    using assms(1) recorded(1) by (auto simp: refunds_ok_def refunds_of_def rows_where_def filter_empty_conv)
  then have "given_back (p_id p) s = 0" by (simp add: given_back_def)
  with assms have "refunds_ok ?v" using recorded(1)
    by (auto simp: refunds_ok_def refund_ok_def g keyed_append_one)
  with recorded(3) refunds_core(1) show ?thesis unfolding core_only_def by metis
qed (use assms in simp)

lemma price_nonneg:
  assumes "price ax dto a s = (Inr ch, t)" and "0 \<le> a"
  shows "0 \<le> ch_amount ch"
proof -
  have c: "0 \<le> fst r" if "price_coupon ax dto a cu md u = (Inr r, v)" for cu md u v r
    using that assms(2) by (auto simp: price_coupon_def op_simps liftE_def bindM_def ret_def throw_def
      dest!: validateAmount_pos split: option.splits sum.splits)
  have g: "0 \<le> fst r" if "price_gift ax dto x md u = (Inr r, v)" and "0 \<le> x" for x md u v r
  proof -
    have n: "0 \<le> x - to_dp_down d (min y x)" if "0 < y" for d y
      using to_dp_down_le [of "min y x" d] that \<open>0 \<le> x\<close> by simp
    show ?thesis using that
      by (auto simp: price_gift_def bindM_def ret_def throw_def quote_card_def Let_def intro!: to_dp_nonneg n
        split: option.splits sum.splits if_splits)
  qed
  show ?thesis using assms(1) unfolding price_def
    by (auto elim!: bindM_InrE simp: ret_apply split: prod.splits dest!: c g)
qed

lemma refunds_idem: "refunds_ok (s\<lparr>idem_records := rs\<rparr>) = refunds_ok s"
  using refunds_core(1) core_records unfolding core_only_def by blast

lemma new_payment_fields [simp]: "p_refunded (new_payment ax dto ch i qr now ex) = 0"
    "p_amount (new_payment ax dto ch i qr now ex) = ch_amount ch"
  by (simp_all add: new_payment_def)

lemma keeps_create_request:
  assumes "fair_env en"
  shows "keeps refunds_ok (create_payment en ax dto key b)"
proof -
  have x: "keeps refunds_ok (execute_racing sha (en_others en) rq (record_payment en (new_payment ax dto ch i qr now ex) kr))"
    if "0 \<le> ch_amount ch" for sha rq ch i qr now ex kr
  proof (rule execute_keeps_run)
    fix s r t assume "refunds_ok s" and "record_payment en (new_payment ax dto ch i qr now ex) kr s = (Inr r, t)"
    then show "refunds_ok t" by (rule record_payment_keeps) (simp_all add: that)
  qed (use assms in \<open>auto simp: fair_env_def fair_def refunds_idem\<close>)
  have e: "keeps refunds_ok (created_effects en p c r)" for p c r
    unfolding created_effects_def emitCreated_def by (intro keeps_intros keeps_core_emit refunds_core moves_keep_refunds assms)
  have pr: "keeps refunds_ok (bindM (price ax dto a) f)" if "0 \<le> a" and "\<And>ch. 0 \<le> ch_amount ch \<Longrightarrow> keeps refunds_ok (f ch)" for a f
    using keeps_price by (rule keeps_bind_known) (use that price_nonneg in auto)
  have am: "keeps refunds_ok (bindM (liftE (validateAmount x c)) f)" if "\<And>a. 0 \<le> a \<Longrightarrow> keeps refunds_ok (f a)" for x c f
    using that validateAmount_pos by (fastforce simp: keeps_def bindM_def liftE_def ret_def throw_def split: sum.split)
  have q: "keeps refunds_ok (assertWithinQuota o_i)" for o_i
    using assertWithinQuota_pure by (metis keepsI snd_conv surj_pair)
  show ?thesis unfolding create_payment_def Let_def
    by (rule keeps_bind [OF keeps_replayed_before], split option.split,
        intro conjI allI impI keeps_seq [OF q] am keeps_bind [OF keeps_find] keeps_bind [OF keeps_some] pr)
      (auto intro!: keeps_intros keeps_core_emit refunds_core keeps_draw_khqr x e split: option.split prod.split)
qed

lemma keeps_other_requests:
  assumes "fair_env en"
  shows "keeps refunds_ok (cancel_payment en ax i)" and "keeps refunds_ok (simulate en ax i st)" and "keeps refunds_ok (retrieve en ax i)"
    and "keeps refunds_ok (publicView en payee i)"
  unfolding cancel_payment_def simulate_def retrieve_def publicView_def applyLazyExpiry_def
  by (auto intro!: keeps_intros keeps_findScoped moves_keep_refunds assms)

section \<open>Properties\<close>

text \<open>C3: The amount refunded on every payment is the sum of its refund rows, is never negative and never exceeds the
  charge: every create, transition, cancellation, simulation, lazy expiry, checkout view and refund keeps this,
  whatever requests of the same kind commit in the middle of it.\<close>

theorem never_over_refunded:
  assumes "refunds_ok s" and "fair_env en"
  shows "refunds_ok (snd (refund_payment en ax i rdto key b s)) \<and> refunds_ok (snd (create_payment en ax dto key b s)) \<and>
    refunds_ok (snd (transition en i st reason s)) \<and> refunds_ok (snd (cancel_payment en ax i s)) \<and>
    refunds_ok (snd (simulate en ax i st s)) \<and> refunds_ok (snd (retrieve en ax i s)) \<and>
    refunds_ok (snd (publicView en payee i s))"
proof -
  note k = keeps_refund_request keeps_create_request moves_keep_refunds keeps_other_requests
  show ?thesis by (intro conjI; rule keepsD; intro k assms)
qed

text \<open>C31: A refund that loses the race for the amount refunded reports a conflict and records nothing, but it asked the
  provider before it reserved the amount: the provider has paid it out, and what the state holds of it is the
  provider's payout alone.\<close>

theorem refund_lost_race:
  assumes "payment_of i s = Some p" and "p_store p = ax_store ax" and "p_status p = Paid"
    and "refund_amount p dto s = (Inr a, s)"
    and "pv_refund (en_provider en) i (formatAmount a (p_currency p)) (p_currency p) = Inr pr" and "rf_ok pr"
    and "u = s\<lparr>outbox := outbox s @ [ProviderRefund i a], draws := Suc (draws s)\<rparr>"
    and "keyed p_id (payments (en_others en u))"
    and "payment_of i (en_others en u) = Some q" and "p_refunded q \<noteq> p_refunded p"
  shows "refund_payment en ax i dto None b s =
    (Inl (idempotencyConflict ''Concurrent refund detected; retry''), en_others en u)"
proof -
  have p: "p_id p = i" using assms(1) by (auto dest: find_by_SomeD)
  have rr: "record_refund p a row m (en_others en u) = (Inl (idempotencyConflict ''Concurrent refund detected; retry''), en_others en u)"
    for row m
  proof -
    obtain r t where o: "record_refund p a row m (en_others en u) = (r, t)" by (rule prod.exhaust)
    from o assms(8) show ?thesis by (cases rule: record_refund_cases) (use assms(9,10) p o in auto)
  qed
  have x: "execute_racing sha (en_others en) (refund_request ax i None b) (record_refund p a row m) u =
      (Inl (idempotencyConflict ''Concurrent refund detected; retry''), en_others en u)" for sha row m
    by (simp add: execute_racing_def refund_request_def op_simps transaction_def rr bindM_def)
  have f: "findScoped (ax_store ax) i s = (Inr p, s)" using assms(1,2) by (simp add: findScoped_def op_simps)
  have v: "provider_refund en p a s = (Inr pr, s\<lparr>outbox := outbox s @ [ProviderRefund i a]\<rparr>)"
    using assms(5,6) p by (simp add: provider_refund_def op_simps)
  have rest: "refund_rest en ax i dto None b p s = (Inl (idempotencyConflict ''Concurrent refund detected; retry''), en_others en u)"
    using assms(3,7) x by (simp add: refund_rest_def op_simps bindM_result [where m = "refund_amount p dto", OF assms(4)]
        bindM_result [where m = "provider_refund en p a", OF v] bindM_error)
  show ?thesis
    by (simp add: refund_payment_rest replayed_before_def given_def op_simps bindM_result [where m = "findScoped (ax_store ax) i", OF f] rest)
qed

text \<open>A captured payment of 5 dollars.\<close>

definition paid_db :: db where
  "paid_db = pending_db\<lparr>payments := [pending_payment\<lparr>p_status := Paid\<rparr>]\<rparr>"

lemma paid_db_payment: "payment_of ''pay_1'' paid_db = Some (pending_payment\<lparr>p_status := Paid\<rparr>)" "p_amount pending_payment = 5"
    "p_refunded pending_payment = 0" "p_id pending_payment = ''pay_1''" "p_store pending_payment = ''store_1''"
    "p_currency pending_payment = USD" "payments paid_db = [pending_payment\<lparr>p_status := Paid\<rparr>]" "refunds paid_db = []"
  by (simp_all add: paid_db_def pending_db_def pending_payment_def sample_payment_def quota_db_def empty_db_def)

lemma paid_db_ok: "refunds_ok paid_db"
  by (simp add: refunds_ok_def refund_ok_def given_back_def refunds_of_def rows_where_def paid_db_payment keyed_def)

theorem never_over_refunded_witness:
  "refunds_ok (snd (refund_payment (sample_env id) sample_ctx ''pay_1'' \<lparr>rd_amount = None, rd_reason = None\<rparr> None [] paid_db)) \<and>
   refunds_ok (snd (cancel_payment (sample_env id) sample_ctx ''pay_1'' paid_db))"
proof -
  have "fair_env (sample_env id)" by (simp add: fair_env_def fair_def sample_env_def)
  from never_over_refunded [OF paid_db_ok this] show ?thesis by blast
qed

text \<open>Two clerks refund the same payment in full: the provider pays 10 dollars for a charge of 5.\<close>

definition other_refund :: refund_row where
  "other_refund = \<lparr>r_id = ''rf_other'', r_payment = ''pay_1'', r_amount = 5, r_currency = USD, r_reason = None,
     r_provider_ref = None, r_created = 0\<rparr>"

definition other_clerk :: "db \<Rightarrow> db" where
  "other_clerk u = snd (record_refund (pending_payment\<lparr>p_status := Paid\<rparr>) 5 other_refund False
     (u\<lparr>outbox := outbox u @ [ProviderRefund ''pay_1'' 5]\<rparr>))"

theorem refund_lost_race_witness:
  "\<exists>t. refund_payment ((sample_env id)\<lparr>en_others := other_clerk\<rparr>) sample_ctx ''pay_1'' \<lparr>rd_amount = None, rd_reason = None\<rparr> None [] paid_db =
     (Inl (idempotencyConflict ''Concurrent refund detected; retry''), t) \<and>
     given_back ''pay_1'' t = 5 \<and> outbox t = [ProviderRefund ''pay_1'' 5, ProviderRefund ''pay_1'' 5]"
proof -
  let ?p = "pending_payment\<lparr>p_status := Paid\<rparr>"
  let ?en = "(sample_env id)\<lparr>en_others := other_clerk\<rparr>"
  let ?dto = "\<lparr>rd_amount = None, rd_reason = None\<rparr> :: refund_dto"
  let ?u = "paid_db\<lparr>outbox := outbox paid_db @ [ProviderRefund ''pay_1'' 5], draws := Suc (draws paid_db)\<rparr>"
  have o: "outbox paid_db = []" by (simp add: paid_db_def pending_db_def quota_db_def empty_db_def)
  have a: "refund_amount ?p ?dto paid_db = (Inr 5, paid_db)"
    by (simp add: refund_amount_def given_def op_simps Let_def paid_db_payment)
  have oc: "payments (other_clerk ?u) = [?p\<lparr>p_refunded := 5\<rparr>]" "refunds (other_clerk ?u) = [other_refund]"
      "outbox (other_clerk ?u) = [ProviderRefund ''pay_1'' 5, ProviderRefund ''pay_1'' 5]"
    by (simp_all add: other_clerk_def record_refund_def op_simps paid_db_payment refund_clash_def o)
  have k: "keyed p_id (payments (en_others ?en ?u))" "payment_of ''pay_1'' (en_others ?en ?u) = Some (?p\<lparr>p_refunded := 5\<rparr>)"
    using oc by (simp_all add: keyed_def paid_db_payment)
  have "refund_payment ?en sample_ctx ''pay_1'' ?dto None [] paid_db =
      (Inl (idempotencyConflict ''Concurrent refund detected; retry''), en_others ?en ?u)"
    by (rule refund_lost_race [where pr = "\<lparr>rf_ok = True, rf_provider_ref = None, rf_manual = False\<rparr>", OF paid_db_payment(1) _ _ a _ _ refl k])
      (simp_all add: paid_db_payment sample_ctx_def sample_env_def)
  moreover have "given_back ''pay_1'' (other_clerk ?u) = 5"
    by (simp add: given_back_def refunds_of_def rows_where_def oc(2) other_refund_def)
  ultimately show ?thesis using oc(3) by simp
qed

end
