(* ===== verification/Pricing.thy ===== *)
theory Pricing
  imports Refunds
begin

text \<open>
  What a create charges: the amount asked for, less the discount of a code, less what a gift card
  covers, in the decimals of the currency and never negative.
\<close>

lemma DECIMALS_BOUNDS: "b_decimals (BOUNDS c) = DECIMALS c"
  by (cases c) simp_all

lemma validated_amount:
  assumes "validateAmount x c = Inr v"
  shows "scaled (DECIMALS c) v" and "0 \<le> v" and "v < 10 ^ 15"
  using assms BOUNDS_range [of c] DECIMALS_BOUNDS [of c] by (auto simp: validateAmount_Inr)

text \<open>A printed amount is read back as itself when it is accepted.\<close>

lemma validate_printed:
  assumes "validateAmount (to_fixed (DECIMALS c) v) c = Inr w" and "scaled (DECIMALS c) v" and "0 \<le> v" and "v < 10 ^ 15"
  shows "w = v"
  using assms parse_to_fixed [of v "DECIMALS c"] BOUNDS_range(3) [of c] by (simp add: validateAmount_Inr DECIMALS_BOUNDS)

section \<open>The discount code\<close>

definition discount_of :: "metadata \<Rightarrow> decimal" where
  "discount_of md = (case md_coupon md of None \<Rightarrow> 0 | Some c \<Rightarrow> mc_discount c)"

definition card_part :: "metadata \<Rightarrow> decimal" where
  "card_part md = (case md_gift_card md of None \<Rightarrow> 0 | Some g \<Rightarrow> mg_applied g)"

definition coupons_valid :: "db \<Rightarrow> bool" where
  "coupons_valid s \<longleftrightarrow> (\<forall>c \<in> set (coupons s). coupon_valid c)"

lemma price_coupon_sound:
  assumes "price_coupon ax dto a who md s = (Inr (net, md'), t)" and "coupons_valid s" and "md_coupon md = None"
    and "scaled (DECIMALS (cd_currency dto)) a" and "0 \<le> a" and "a < 10 ^ 15"
  shows "t = s" and "scaled (DECIMALS (cd_currency dto)) net" and "0 \<le> net" and "net + discount_of md' = a"
    and "0 \<le> discount_of md'" and "md_gift_card md' = md_gift_card md"
proof -
  let ?d = "DECIMALS (cd_currency dto)"
  have "t = s \<and> scaled ?d net \<and> 0 \<le> net \<and> net + discount_of md' = a \<and> 0 \<le> discount_of md' \<and> md_gift_card md' = md_gift_card md"
  proof (cases "given (cd_coupon dto)")
    case None
    with assms show ?thesis by (simp add: price_coupon_def ret_apply discount_of_def)
  next
    case (Some code)
    from assms(1) obtain q where q: "quote_coupon (ax_store ax) code a (cd_currency dto) who s = Inr q"
      and v: "validateAmount (to_fixed ?d (cq_after q)) (cd_currency dto) = Inr net" and t: "t = s"
      and md: "md' = md\<lparr>md_coupon := Some \<lparr>mc_id = cq_id q, mc_code = cq_code q, mc_discount = cq_discount q, mc_amount_before = cq_before q\<rparr>\<rparr>"
      by (auto simp: price_coupon_def Some op_simps liftE_def bindM_def split: sum.splits)
    from q obtain c where c: "quotable (ax_store ax) s c" "cq_discount q = to_dp ?d (coupon_discount c a ?d)"
      "cq_after q = to_dp ?d (a - coupon_discount c a ?d)" by (rule quote_coupon_Inr)
    then have "0 \<le> cp_value c" using assms(2) by (auto simp: quotable_def coupons_valid_def coupon_valid_def)
    note b = coupon_discount_bounds [OF this assms(5,4), of]
    have after: "cq_after q = a - coupon_discount c a ?d" using c(3) b(3) assms(4) by (simp add: to_dp_scaled scaled_diff)
    have "net = cq_after q" using v
      by (rule validate_printed) (use b assms(4,6) in \<open>auto simp: after scaled_diff\<close>)
    then show ?thesis using b t md after c(2) assms(4) by (simp add: discount_of_def to_dp_scaled scaled_diff)
  qed
  then show "t = s" "scaled ?d net" "0 \<le> net" "net + discount_of md' = a" "0 \<le> discount_of md'"
    "md_gift_card md' = md_gift_card md" by simp_all
qed

section \<open>The gift card\<close>

lemma price_gift_sound:
  assumes "price_gift ax dto a md s = (Inr (net, md', covered), t)" and "md_gift_card md = None"
    and "scaled (DECIMALS (cd_currency dto)) a" and "0 \<le> a"
  shows "t = s" and "scaled (DECIMALS (cd_currency dto)) net" and "0 \<le> net" and "net + card_part md' = a"
    and "0 \<le> card_part md'" and "md_coupon md' = md_coupon md" and "covered \<longleftrightarrow> given (cd_gift_card dto) \<noteq> None \<and> net = 0"
proof -
  let ?d = "DECIMALS (cd_currency dto)"
  have "t = s \<and> scaled ?d net \<and> 0 \<le> net \<and> net + card_part md' = a \<and> 0 \<le> card_part md' \<and>
    md_coupon md' = md_coupon md \<and> (covered \<longleftrightarrow> given (cd_gift_card dto) \<noteq> None \<and> net = 0)"
  proof (cases "given (cd_gift_card dto)")
    case None
    with assms show ?thesis by (simp add: price_gift_def ret_apply card_part_def)
  next
    case (Some code)
    from assms(1) obtain g where g: "quote_card (ax_store ax) code a (cd_currency dto) s = Inr g" and t: "t = s"
      and r: "net = gq_remaining g" "covered \<longleftrightarrow> gq_remaining g \<le> 0"
        "md' = md\<lparr>md_gift_card := Some \<lparr>mg_id = gq_id g, mg_code = gq_code g, mg_applied = gq_applied g\<rparr>\<rparr>"
      by (auto simp: price_gift_def Some op_simps bindM_def split: sum.splits)
    note p = quote_card_parts [OF g assms(3,4)]
    have "scaled ?d (gq_applied g)" using g by (auto simp: quote_card_def Let_def split: option.splits if_splits)
    with p assms(3) have "scaled ?d (gq_remaining g)" using scaled_diff [of ?d a "gq_applied g"] by (metis add_diff_cancel_left')
    with p t r Some show ?thesis by (auto simp: card_part_def)
  qed
  then show "t = s" "scaled ?d net" "0 \<le> net" "net + card_part md' = a" "0 \<le> card_part md'"
    "md_coupon md' = md_coupon md" "covered \<longleftrightarrow> given (cd_gift_card dto) \<noteq> None \<and> net = 0" by simp_all
qed

section \<open>The charge\<close>

lemma resolved_same:
  "resolveActive st b s = (Inr x, t) \<Longrightarrow> t = s \<and> x = b \<and> (\<exists>r \<in> set (branches s). b_id r = b \<and> b_store r = st \<and> b_active r)"
  "resolveForStore st c s = (Inr y, u) \<Longrightarrow> u = s \<and> y = c \<and> (\<exists>r \<in> set (customers s). c_id r = c \<and> c_store r = st)"
  by (auto simp: resolveActive_def resolveForStore_def op_simps dest!: find_by_SomeD split: option.splits if_splits)

text \<open>C15: A charge is a well-typed amount of its currency: in its decimals, not negative, and together with the discount
  and the part the gift card pays it is exactly the amount asked for; it is covered exactly when a card
  pays all of it, pricing it writes nothing, and the branch and the customer it names belong to the store.\<close>

theorem charge_well_typed:
  assumes "price ax dto amount s = (Inr ch, t)" and "validateAmount (cd_amount dto) (cd_currency dto) = Inr amount"
    and "coupons_valid s" and "cd_metadata dto = None"
  shows "t = s \<and> scaled (DECIMALS (cd_currency dto)) (ch_amount ch) \<and> 0 \<le> ch_amount ch \<and>
    ch_amount ch + discount_of (ch_metadata ch) + card_part (ch_metadata ch) = amount \<and>
    0 \<le> discount_of (ch_metadata ch) \<and> 0 \<le> card_part (ch_metadata ch) \<and>
    (ch_covered ch \<longleftrightarrow> given (cd_gift_card dto) \<noteq> None \<and> ch_amount ch = 0) \<and>
    ch_branch ch = given (cd_branch dto) \<and> ch_customer ch = given (cd_customer dto) \<and>
    (\<forall>b. ch_branch ch = Some b \<longrightarrow> (\<exists>r \<in> set (branches s). b_id r = b \<and> b_store r = ax_store ax \<and> b_active r)) \<and>
    (\<forall>c. ch_customer ch = Some c \<longrightarrow> (\<exists>r \<in> set (customers s). c_id r = c \<and> c_store r = ax_store ax))"
proof -
  from assms(1,4) obtain b c x md s1 s2 s3 y md' cov where
    o1: "(case given (cd_branch dto) of None \<Rightarrow> ret None | Some b \<Rightarrow> bindM (resolveActive (ax_store ax) b) (\<lambda>x. ret (Some x))) s = (Inr b, s1)"
    and o2: "(case given (cd_customer dto) of None \<Rightarrow> ret None | Some c \<Rightarrow> bindM (resolveForStore (ax_store ax) c) (\<lambda>x. ret (Some x))) s1 = (Inr c, s2)"
    and o3: "price_coupon ax dto amount c no_metadata s2 = (Inr (x, md), s3)"
    and o4: "price_gift ax dto x md s3 = (Inr (y, md', cov), t)"
    and ch: "ch = \<lparr>ch_amount = y, ch_metadata = md', ch_covered = cov, ch_branch = b, ch_customer = c\<rparr>"
    unfolding price_def by (auto elim!: bindM_InrE simp: ret_apply)
  have r1: "s1 = s" "b = given (cd_branch dto)"
    "\<And>i. b = Some i \<Longrightarrow> \<exists>r \<in> set (branches s). b_id r = i \<and> b_store r = ax_store ax \<and> b_active r"
    using o1 by (auto simp: ret_apply elim!: bindM_InrE dest: resolved_same(1) split: option.splits)
  have r2: "s2 = s" "c = given (cd_customer dto)"
    "\<And>i. c = Some i \<Longrightarrow> \<exists>r \<in> set (customers s). c_id r = i \<and> c_store r = ax_store ax"
    using o2 r1(1) by (auto simp: ret_apply elim!: bindM_InrE dest: resolved_same(2) split: option.splits)
  note v = validated_amount [OF assms(2)]
  have nm: "md_coupon no_metadata = None" "md_gift_card no_metadata = None" by (simp_all add: no_metadata_def)
  from o3 r2(1) have o3': "price_coupon ax dto amount c no_metadata s = (Inr (x, md), s3)" by simp
  note p = price_coupon_sound [OF o3' assms(3) nm(1) v]
  from o4 p(1) have o4': "price_gift ax dto x md s = (Inr (y, md', cov), t)" by simp
  have "md_gift_card md = None" using p(6) nm(2) by simp
  note g = price_gift_sound [OF o4' this p(2,3)]
  have "discount_of md' = discount_of md" using g(6) by (simp add: discount_of_def)
  with p(4,5) g r1 r2 ch show ?thesis by auto
qed

definition card_dto :: create_dto where
  "card_dto = \<lparr>cd_amount = ''8'', cd_currency = USD, cd_reference = None, cd_description = None, cd_metadata = None,
     cd_expires_in = None, cd_branch = None, cd_customer = None, cd_coupon = None, cd_gift_card = Some ''gift''\<rparr>"

theorem charge_well_typed_witness:
  "\<exists>ch t. price sample_ctx card_dto 8 card_db = (Inr ch, t) \<and> ch_amount ch = 3 \<and> card_part (ch_metadata ch) = 5 \<and>
     ch_amount ch + discount_of (ch_metadata ch) + card_part (ch_metadata ch) = 8 \<and> \<not> ch_covered ch"
proof -
  obtain ch t where p: "price sample_ctx card_dto 8 card_db = (Inr ch, t)" "ch_amount ch = 3" "card_part (ch_metadata ch) = 5"
    by (auto simp: price_def price_coupon_def price_gift_def card_dto_def given_def op_simps bindM_def sample_ctx_def sample_card_quote card_part_def)
  have "parse_amount ''8'' = Some 8" by code_simp
  then have a: "validateAmount (cd_amount card_dto) (cd_currency card_dto) = Inr 8"
    using scaled_of_int [of 2 8] by (simp add: card_dto_def validateAmount_Inr)
  have "coupons_valid card_db" "cd_metadata card_dto = None"
    by (simp_all add: coupons_valid_def card_db_def empty_db_def card_dto_def)
  from charge_well_typed [OF p(1) a this] p show ?thesis by auto
qed

end
