(* ===== verification/Billing.thy ===== *)
theory Billing
  imports Effects
begin

text \<open>
  The platform's own billing, \<open>apps/api/src/billing/billing.service.ts\<close>: plans, subscriptions
  and their invoices, dunning and suspension. The payment provider is the argument \<open>bl\<close> of the
  model: its name, the QR code it makes and the state it reports for an invoice.
\<close>

section \<open>Operations\<close>

record biller =
  bl_provider :: provider
  bl_poll :: "string \<Rightarrow> exn + string"

definition DAY_MS :: int where
  "DAY_MS = 24 * 3600 * 1000"

definition INVOICE_DUE_DAYS :: int where
  "INVOICE_DUE_DAYS = 7"

definition GRACE_DAYS :: int where
  "GRACE_DAYS = 3"

definition PLATFORM_STORE_ID :: string where
  "PLATFORM_STORE_ID = ''__platform__''"

definition subscription_clash :: "subscription_row \<Rightarrow> subscription_row \<Rightarrow> bool" where
  "subscription_clash a b \<longleftrightarrow> sb_id a = sb_id b"

record billing_overview =
  bo_org :: string
  bo_active :: bool
  bo_plan :: "plan_row option"
  bo_usage :: usage_snapshot

definition plan_of :: "org_row \<Rightarrow> plan_row list \<Rightarrow> plan_row option" where
  "plan_of org ps = Option.bind (o_plan org) (\<lambda>i. find_by (\<lambda>p. pl_id p = i) ps)"

definition billing_overview :: "auth_user \<Rightarrow> string \<Rightarrow> billing_overview handler" where
  "billing_overview user orgId =
     bindM (liftE (requirePermission user orgId BillingManage)) (\<lambda>_.
     bindM (findM orgs (\<lambda>g. o_id g = orgId)) (\<lambda>found.
     bindM (someM (paymentNotFound ''Organization not found'') found) (\<lambda>org.
     bindM (getsM plans) (\<lambda>ps.
     bindM (quota_snapshot orgId) (\<lambda>usage.
     ret \<lparr>bo_org = orgId, bo_active = o_status_active org, bo_plan = plan_of org ps, bo_usage = usage\<rparr>)))))"

definition listPlans :: "plan_row list handler" where
  "listPlans = getsM (\<lambda>s. sort_key pl_price (plans s))"

definition is_current :: "string \<Rightarrow> subscription_row \<Rightarrow> bool" where
  "is_current orgId b \<longleftrightarrow> sb_org b = orgId \<and> sb_status b \<noteq> SubCancelled"

definition activatePlan :: "string \<Rightarrow> string \<Rightarrow> int option \<Rightarrow> unit handler" where
  "activatePlan orgId planId periodEnd =
     bindM (getsM clock) (\<lambda>now.
     bindM randomBase58 (\<lambda>i.
     transaction
       (seqM (update_manyM subscriptions subscriptions_update (is_current orgId) (\<lambda>b. b\<lparr>sb_status := SubCancelled\<rparr>))
       (seqM (createM subscriptions subscriptions_update subscription_clash
          \<lparr>sb_id = i, sb_org = orgId, sb_plan = planId, sb_status = SubActive, sb_start = currentPeriodStart now,
           sb_end = (case periodEnd of None \<Rightarrow> nextPeriodStart now | Some t \<Rightarrow> t)\<rparr>)
         (updateM orgs orgs_update (\<lambda>g. o_id g = orgId)
           (\<lambda>g. g\<lparr>o_plan := Some planId, o_status_active := True, o_grace := None\<rparr>))))))"

definition invoice_khqr :: "string \<Rightarrow> int \<Rightarrow> int \<Rightarrow> create_khqr" where
  "invoice_khqr i cents dueAt =
     \<lparr>ck_payment = i, ck_store = PLATFORM_STORE_ID, ck_mode = LiveMode, ck_amount = to_fixed 2 (of_int cents / 100),
      ck_currency = USD, ck_reference = Some i, ck_description = Some ''PayKH subscription'', ck_merchant = ''PayKH'',
      ck_city = ''Phnom Penh'', ck_expires = dueAt\<rparr>"

definition new_invoice :: "string \<Rightarrow> string \<Rightarrow> string \<Rightarrow> int \<Rightarrow> int \<Rightarrow> invoice_row" where
  "new_invoice i orgId planId cents now =
     \<lparr>iv_id = i, iv_org = orgId, iv_plan = Some planId, iv_cents = cents, iv_status = InvOpen, iv_start = currentPeriodStart now,
      iv_end = nextPeriodStart now, iv_due = Some (now + INVOICE_DUE_DAYS * DAY_MS), iv_paid_at = None, iv_qr = None, iv_md5 = None\<rparr>"

text \<open>The invoice is written before the provider is asked for its QR code, and stays when the
  provider fails.\<close>

definition createOpenInvoice :: "biller \<Rightarrow> string \<Rightarrow> string \<Rightarrow> int \<Rightarrow> invoice_row handler" where
  "createOpenInvoice bl orgId planId cents =
     bindM (getsM clock) (\<lambda>now.
     bindM randomBase58 (\<lambda>i.
     let bill = new_invoice i orgId planId cents now in
     seqM (createM invoices invoices_update invoice_clash bill)
     (case pv_create (bl_provider bl) (invoice_khqr i cents (now + INVOICE_DUE_DAYS * DAY_MS)) of
        Inl _ \<Rightarrow> throw (providerError ''Failed to generate subscription payment QR'')
      | Inr k \<Rightarrow> let paid = (\<lambda>x. x\<lparr>iv_qr := Some (kr_qr k), iv_md5 := Some (kr_md5 k)\<rparr>) in
          seqM (updateM invoices invoices_update (\<lambda>x. iv_id x = i) paid) (ret (paid bill)))))"

datatype subscribed = Activated billing_overview | Invoiced invoice_row

definition subscribe :: "biller \<Rightarrow> auth_user \<Rightarrow> string \<Rightarrow> string \<Rightarrow> subscribed handler" where
  "subscribe bl user orgId planId =
     bindM (liftE (requirePermission user orgId BillingManage)) (\<lambda>_.
     bindM (findM plans (\<lambda>p. pl_id p = planId)) (\<lambda>found.
     bindM (someM (invalidRequest ''Unknown plan'') found) (\<lambda>plan.
     if pl_price plan = 0
     then seqM (activatePlan orgId planId None) (bindM (billing_overview user orgId) (\<lambda>v. ret (Activated v)))
     else bindM (createOpenInvoice bl orgId (pl_id plan) (pl_price plan)) (\<lambda>bill. ret (Invoiced bill)))))"

definition activateFromInvoice :: "string \<Rightarrow> bool handler" where
  "activateFromInvoice invoiceId =
     bindM (findM invoices (\<lambda>x. iv_id x = invoiceId)) (\<lambda>found.
     case found of
       None \<Rightarrow> ret False
     | Some bill \<Rightarrow>
        (case iv_plan bill of
           None \<Rightarrow> ret False
         | Some planId \<Rightarrow>
            if iv_status bill = InvPaid then ret False
            else bindM (getsM clock) (\<lambda>now.
              seqM (updateM invoices invoices_update (\<lambda>x. iv_id x = invoiceId)
                (\<lambda>x. x\<lparr>iv_status := InvPaid, iv_paid_at := Some now\<rparr>))
              (seqM (activatePlan (iv_org bill) planId (Some (iv_end bill)))
              (seqM (postSubscriptionCollected (iv_id bill) ''USD'' (of_int (iv_cents bill) / 100))
                (ret True))))))"

definition simulateInvoicePayment :: "biller \<Rightarrow> auth_user \<Rightarrow> string \<Rightarrow> bool handler" where
  "simulateInvoicePayment bl user invoiceId =
     bindM (findM invoices (\<lambda>x. iv_id x = invoiceId)) (\<lambda>found.
     bindM (someM (paymentNotFound ''Invoice not found'') found) (\<lambda>bill.
     bindM (liftE (requirePermission user (iv_org bill) BillingManage)) (\<lambda>_.
     seqM (guardM (pv_name (bl_provider bl) = ''mock'') (forbidden ''Simulation is only available with the mock provider''))
       (activateFromInvoice invoiceId))))"

section \<open>Dunning\<close>

definition overdue_at :: "int \<Rightarrow> invoice_row \<Rightarrow> bool" where
  "overdue_at now x \<longleftrightarrow> iv_status x = InvOpen \<and> (\<exists>d \<in> set_option (iv_due x). d < now)"

text \<open>\<open>findFirst\<close> by ascending due date: the first of the rows with the least date.\<close>

fun earliest :: "invoice_row list \<Rightarrow> invoice_row option" where
  "earliest [] = None"
| "earliest (x # xs) = (case earliest xs of None \<Rightarrow> Some x | Some y \<Rightarrow> if the (iv_due y) < the (iv_due x) then Some y else Some x)"

definition runDunning :: "string \<Rightarrow> unit handler" where
  "runDunning orgId =
     bindM (getsM clock) (\<lambda>now.
     bindM (manyM invoices (\<lambda>x. iv_org x = orgId \<and> overdue_at now x)) (\<lambda>late.
     case earliest late of
       None \<Rightarrow> ret ()
     | Some overdue \<Rightarrow>
        bindM (findM orgs (\<lambda>g. o_id g = orgId)) (\<lambda>found.
        case found of
          None \<Rightarrow> ret ()
        | Some org \<Rightarrow>
           (case o_grace org of
              None \<Rightarrow>
                (let graceUntil = (case iv_due overdue of None \<Rightarrow> now | Some d \<Rightarrow> d) + GRACE_DAYS * DAY_MS in
                 transaction
                   (seqM (update_manyM subscriptions subscriptions_update (\<lambda>b. sb_org b = orgId \<and> sb_status b = SubActive)
                      (\<lambda>b. b\<lparr>sb_status := SubPastDue\<rparr>))
                   (updateM orgs orgs_update (\<lambda>g. o_id g = orgId) (\<lambda>g. g\<lparr>o_grace := Some graceUntil\<rparr>))))
            | Some t \<Rightarrow>
                if t < now \<and> o_status_active org
                then updateM orgs orgs_update (\<lambda>g. o_id g = orgId) (\<lambda>g. g\<lparr>o_status_active := False\<rparr>)
                else ret ()))))"

definition SWEEP_BATCH :: nat where
  "SWEEP_BATCH = 200"

definition confirm_invoice :: "biller \<Rightarrow> invoice_row \<Rightarrow> unit handler" where
  "confirm_invoice bl bill =
     catchM (bindM (liftE (bl_poll bl (case iv_md5 bill of None \<Rightarrow> [] | Some m \<Rightarrow> m))) (\<lambda>state.
       if state = ''paid'' then bindM (activateFromInvoice (iv_id bill)) (\<lambda>_. ret ()) else ret ())) (\<lambda>_. ret ())"

definition renew_subscription :: "biller \<Rightarrow> subscription_row \<Rightarrow> unit handler" where
  "renew_subscription bl b =
     bindM (findM plans (\<lambda>p. pl_id p = sb_plan b)) (\<lambda>plan.
     case plan of
       None \<Rightarrow> ret ()
     | Some p \<Rightarrow>
        if pl_price p \<le> 0 then ret ()
        else bindM (getsM (\<lambda>s. count_where (\<lambda>x. iv_org x = sb_org b \<and> iv_status x = InvOpen) (invoices s))) (\<lambda>openCount.
          if openCount = 0
          then bindM (createOpenInvoice bl (sb_org b) (sb_plan b) (pl_price p)) (\<lambda>_. ret ())
          else ret ()))"

definition billing_sweep :: "biller \<Rightarrow> unit handler" where
  "billing_sweep bl =
     bindM (getsM clock) (\<lambda>now.
     seqM (if pv_name (bl_provider bl) \<noteq> ''mock''
           then bindM (manyM invoices (\<lambda>x. iv_status x = InvOpen \<and> iv_md5 x \<noteq> None)) (\<lambda>pending.
             forM (take SWEEP_BATCH pending) (confirm_invoice bl))
           else ret ())
     (seqM (bindM (manyM subscriptions (\<lambda>b. sb_status b = SubActive \<and> sb_end b < now)) (\<lambda>due.
        forM (take SWEEP_BATCH due) (renew_subscription bl)))
      (bindM (manyM invoices (overdue_at now)) (\<lambda>late.
        forM (take SWEEP_BATCH (rev (remdups (rev (map iv_org late))))) runDunning))))"

definition planHistory :: "auth_user \<Rightarrow> string \<Rightarrow> subscription_row list handler" where
  "planHistory user orgId =
     bindM (liftE (requirePermission user orgId BillingManage)) (\<lambda>_.
     getsM (\<lambda>s. rev (rows_where (\<lambda>b. sb_org b = orgId) (subscriptions s))))"

definition listInvoices :: "auth_user \<Rightarrow> string \<Rightarrow> invoice_row list handler" where
  "listInvoices user orgId =
     bindM (liftE (requirePermission user orgId BillingManage)) (\<lambda>_.
     getsM (\<lambda>s. rev (rows_where (\<lambda>x. iv_org x = orgId) (invoices s))))"

section \<open>Invariants of the books\<close>

text \<open>A grace period is the due date of an invoice of the organisation, still open, plus three days.\<close>

definition backed :: "db \<Rightarrow> string \<Rightarrow> int \<Rightarrow> bool" where
  "backed s orgId t \<longleftrightarrow> (\<exists>x \<in> set (invoices s). iv_org x = orgId \<and> iv_status x = InvOpen \<and> iv_due x = Some (t - GRACE_DAYS * DAY_MS))"

definition grace_ok :: "db \<Rightarrow> org_row \<Rightarrow> bool" where
  "grace_ok s g \<longleftrightarrow> (\<forall>t. o_grace g = Some t \<longrightarrow> backed s (o_id g) t)"

definition suspension_ok :: "db \<Rightarrow> org_row \<Rightarrow> bool" where
  "suspension_ok s g \<longleftrightarrow> (\<not> o_status_active g \<longrightarrow> (\<exists>t. o_grace g = Some t \<and> t < clock s))"

definition accounts_ok :: "db \<Rightarrow> bool" where
  "accounts_ok s \<longleftrightarrow> keyed o_id (orgs s) \<and> keyed iv_id (invoices s) \<and> inj (rnd s) \<and>
     (\<forall>b \<in> set (subscriptions s). \<exists>n < draws s. sb_id b = rnd s n) \<and>
     (\<forall>i. count_where (is_current i) (subscriptions s) \<le> 1)"

text \<open>The organisations in \<open>out\<close> are exempt: the one whose invoice is being paid.\<close>

definition billing_but :: "string set \<Rightarrow> db \<Rightarrow> bool" where
  "billing_but out s \<longleftrightarrow> accounts_ok s \<and> (\<forall>g \<in> set (orgs s). o_id g \<notin> out \<longrightarrow> grace_ok s g \<and> suspension_ok s g)"

definition billing_ok :: "db \<Rightarrow> bool" where
  "billing_ok s \<longleftrightarrow> billing_but {} s"

text \<open>Only these columns matter.\<close>

lemma billing_frame:
  assumes "billing_but out s" and "orgs t = orgs s" and "invoices t = invoices s" and "subscriptions t = subscriptions s"
    and "rnd t = rnd s" and "draws s \<le> draws t" and "clock s \<le> clock t"
  shows "billing_but out t"
  using assms unfolding billing_but_def accounts_ok_def grace_ok_def suspension_ok_def backed_def by (fastforce intro: less_le_trans)

lemma keeps_billing_post: "keeps billing_ok (post ev ref st cur ls)"
proof (rule keepsI)
  fix s assume ok: "billing_ok s"
  obtain r t where p: "post ev ref st cur ls s = (r, t)" by (cases "post ev ref st cur ls s")
  moreover have "draws s \<le> draws t" using keepsD [OF draws_grow [of "draws s" ev ref st cur ls], of s] p by simp
  ultimately show "billing_ok (snd (post ev ref st cur ls s))"
    using post_other_tables [OF p] by (auto simp: billing_ok_def intro: billing_frame [OF ok [unfolded billing_ok_def]])
qed

lemma count_update_none:
  assumes "\<And>x. q (f x) \<Longrightarrow> q x \<and> \<not> p x"
  shows "count_where q (update_where p f t) = count_where (\<lambda>x. q x \<and> \<not> p x) t"
  by (induction t) (use assms in auto)

lemma count_update_same:
  assumes "\<And>x. p x \<Longrightarrow> q (f x) = q x"
  shows "count_where q (update_where p f t) = count_where q t"
  by (induction t) (use assms in auto)

lemma bex_update_same:
  assumes "\<And>x. q (f x) = q x"
  shows "(\<exists>x \<in> set (update_where p f t). q x) = (\<exists>x \<in> set t. q x)"
  by (induction t) (use assms in auto)

lemma ball_update_same:
  assumes "\<And>x. q (f x) = q x"
  shows "(\<forall>x \<in> set (update_where p f t). q x) = (\<forall>x \<in> set t. q x)"
  by (induction t) (use assms in auto)

lemma count_mono: "(\<And>x. q x \<Longrightarrow> r x) \<Longrightarrow> count_where q t \<le> count_where r t"
  by (induction t) auto

section \<open>Activation\<close>

definition new_subscription :: "db \<Rightarrow> string \<Rightarrow> string \<Rightarrow> int option \<Rightarrow> subscription_row" where
  "new_subscription s orgId planId periodEnd =
     \<lparr>sb_id = rnd s (draws s), sb_org = orgId, sb_plan = planId, sb_status = SubActive, sb_start = currentPeriodStart (clock s),
      sb_end = (case periodEnd of None \<Rightarrow> nextPeriodStart (clock s) | Some t \<Rightarrow> t)\<rparr>"

definition activated :: "string \<Rightarrow> string \<Rightarrow> int option \<Rightarrow> db \<Rightarrow> db" where
  "activated orgId planId periodEnd s =
     s\<lparr>draws := Suc (draws s),
       subscriptions := update_where (is_current orgId) (\<lambda>b. b\<lparr>sb_status := SubCancelled\<rparr>) (subscriptions s) @
         [new_subscription s orgId planId periodEnd],
       orgs := update_where (\<lambda>g. o_id g = orgId) (\<lambda>g. g\<lparr>o_plan := Some planId, o_status_active := True, o_grace := None\<rparr>) (orgs s)\<rparr>"

lemma activatePlan_result:
  assumes "accounts_ok s"
  shows "activatePlan orgId planId pe s =
    (if exists_by (\<lambda>g. o_id g = orgId) (orgs s) then (Inr (), activated orgId planId pe s)
     else (Inl P2025, s\<lparr>draws := Suc (draws s)\<rparr>))"
proof -
  have fresh: "\<not> (\<exists>b \<in> set (subscriptions s). sb_id b = rnd s (draws s))"
    using assms by (fastforce simp: accounts_ok_def dest: injD)
  have "\<not> exists_by (subscription_clash (new_subscription s orgId planId pe))
      (update_where (is_current orgId) (\<lambda>b. b\<lparr>sb_status := SubCancelled\<rparr>) (subscriptions s))"
    using fresh by (auto simp: exists_by_iff subscription_clash_def new_subscription_def update_where_def split: if_splits)
  then show ?thesis
    by (simp add: activatePlan_def op_simps transaction_def update_manyM_def createM_def updateM_def bindM_def [of "update_manyM a b c d" for a b c d]
        bindM_def [of "createM a b c d" for a b c d] activated_def new_subscription_def)
qed

lemma activated_ok:
  assumes "billing_but {orgId} s"
  shows "billing_ok (activated orgId planId pe s)"
proof -
  let ?t = "activated orgId planId pe s"
  have acc: "accounts_ok s" using assms by (simp add: billing_but_def)
  have "count_where (is_current i) (subscriptions ?t) \<le> 1" for i
  proof -
    have "count_where (is_current i) (update_where (is_current orgId) (\<lambda>b. b\<lparr>sb_status := SubCancelled\<rparr>) (subscriptions s)) =
        count_where (\<lambda>b. is_current i b \<and> \<not> is_current orgId b) (subscriptions s)"
      by (rule count_update_none) (auto simp: is_current_def)
    moreover have "count_where (\<lambda>b. is_current orgId b \<and> \<not> is_current orgId b) (subscriptions s) = 0"
      by (simp add: count_where_0 exists_by_iff)
    moreover have "count_where (\<lambda>b. is_current i b \<and> \<not> is_current orgId b) (subscriptions s) \<le> 1"
      by (rule order_trans [OF count_mono [of _ "is_current i"]]) (use acc in \<open>auto simp: accounts_ok_def\<close>)
    ultimately show ?thesis by (cases "i = orgId") (auto simp: activated_def new_subscription_def is_current_def)
  qed
  moreover have "keyed o_id (orgs ?t)" "keyed iv_id (invoices ?t)" "inj (rnd ?t)"
    using acc by (simp_all add: accounts_ok_def activated_def keyed_update_where)
  moreover have "\<exists>n < draws ?t. sb_id b = rnd ?t n" if "b \<in> set (subscriptions ?t)" for b
  proof -
    have old: "\<exists>n < draws s. sb_id c = rnd s n" if "c \<in> set (subscriptions s)" for c
      using acc that by (simp add: accounts_ok_def)
    have "(\<exists>c \<in> set (subscriptions s). sb_id b = sb_id c) \<or> sb_id b = rnd s (draws s)"
      using that by (auto simp: activated_def new_subscription_def update_where_def)
    then obtain n where "n < Suc (draws s)" "sb_id b = rnd s n" using old less_SucI by (metis lessI)
    then show ?thesis by (auto simp: activated_def)
  qed
  moreover have "grace_ok ?t g \<and> suspension_ok ?t g" if "g \<in> set (orgs ?t)" for g
    using assms that by (auto simp: billing_but_def activated_def update_where_def grace_ok_def suspension_ok_def backed_def split: if_splits)
  ultimately show ?thesis by (simp add: billing_ok_def billing_but_def accounts_ok_def)
qed

lemma activatePlan_ok:
  assumes "billing_but {orgId} s"
  shows "billing_ok (snd (activatePlan orgId planId pe s))"
proof (cases "exists_by (\<lambda>g. o_id g = orgId) (orgs s)")
  case True
  then show ?thesis using assms activated_ok [OF assms] by (simp add: activatePlan_result billing_but_def)
next
  case False
  then have "billing_but {} s" using assms by (auto simp: billing_but_def exists_by_iff)
  then have "billing_but {} (s\<lparr>draws := Suc (draws s)\<rparr>)" by (rule billing_frame) simp_all
  with False assms show ?thesis by (simp add: activatePlan_result billing_but_def billing_ok_def)
qed

lemma billing_weaken: "billing_ok s \<Longrightarrow> billing_but out s"
  by (simp add: billing_ok_def billing_but_def)

lemma keeps_activatePlan: "keeps billing_ok (activatePlan orgId planId pe)"
  by (rule keepsI) (rule activatePlan_ok [OF billing_weaken])

definition marked_paid :: "string \<Rightarrow> db \<Rightarrow> db" where
  "marked_paid i s = s\<lparr>invoices := update_where (\<lambda>x. iv_id x = i) (\<lambda>x. x\<lparr>iv_status := InvPaid, iv_paid_at := Some (clock s)\<rparr>) (invoices s)\<rparr>"

lemma marked_paid_but:
  assumes "billing_ok s" and "find_by (\<lambda>x. iv_id x = i) (invoices s) = Some bill"
  shows "billing_but {iv_org bill} (marked_paid i s)"
proof -
  have key: "keyed iv_id (invoices s)" using assms(1) by (simp add: billing_ok_def billing_but_def accounts_ok_def)
  have row: "bill \<in> set (invoices s)" "iv_id bill = i" using find_by_SomeD [OF assms(2)] by simp_all
  have keep: "backed (marked_paid i s) o' t" if old: "backed s o' t" and ne: "o' \<noteq> iv_org bill" for o' t
  proof -
    obtain x where x: "x \<in> set (invoices s)" "iv_org x = o'" "iv_status x = InvOpen" "iv_due x = Some (t - GRACE_DAYS * DAY_MS)"
      using old by (auto simp: backed_def)
    have "iv_id x \<noteq> i" using keyed_unique [OF key x(1) row(1)] row(2) ne x(2) by auto
    with x show ?thesis unfolding backed_def
      by (intro bexI [of _ x]) (auto simp: marked_paid_def update_where_def image_iff intro: bexI [of _ x])
  qed
  show ?thesis
    using assms(1) keep by (auto simp: billing_ok_def billing_but_def accounts_ok_def grace_ok_def suspension_ok_def marked_paid_def
        keyed_update_where)
qed

lemma keeps_activateFromInvoice: "keeps billing_ok (activateFromInvoice i)"
proof (rule keepsI)
  fix s assume ok: "billing_ok s"
  show "billing_ok (snd (activateFromInvoice i s))"
  proof (cases "find_by (\<lambda>x. iv_id x = i) (invoices s)")
    case (Some bill)
    show ?thesis
    proof (cases "iv_plan bill = None \<or> iv_status bill = InvPaid")
      case False
      then obtain p where p: "iv_plan bill = Some p" "iv_status bill \<noteq> InvPaid" by auto
      have "exists_by (\<lambda>x. iv_id x = i) (invoices s)" using Some by (simp add: exists_by_find)
      then have "activateFromInvoice i s = bindM (activatePlan (iv_org bill) p (Some (iv_end bill)))
          (\<lambda>_. seqM (postSubscriptionCollected (iv_id bill) ''USD'' (of_int (iv_cents bill) / 100)) (ret True)) (marked_paid i s)"
        using Some p by (simp add: activateFromInvoice_def op_simps updateM_def bindM_def [of "updateM a b c d" for a b c d] marked_paid_def)
      moreover have "billing_ok (snd (activatePlan (iv_org bill) p (Some (iv_end bill)) (marked_paid i s)))"
        by (rule activatePlan_ok [OF marked_paid_but [OF ok Some]])
      ultimately show ?thesis
        using keepsD [OF keeps_seq [OF keeps_billing_post keeps_ret]]
        by (auto simp: bindM_def [of "activatePlan a b c" for a b c] postSubscriptionCollected_def split: prod.split sum.split)
    qed (use Some ok in \<open>auto simp: activateFromInvoice_def op_simps split: option.split\<close>)
  qed (use ok in \<open>simp add: activateFromInvoice_def op_simps\<close>)
qed

section \<open>Invoices and dunning\<close>

lemma keeps_new_invoice:
  "keeps billing_ok (createM invoices invoices_update invoice_clash (new_invoice i orgId planId cents now))"
  by (rule keeps_create)
    (auto simp: billing_ok_def billing_but_def accounts_ok_def keyed_append_one invoice_clash_def eq_commute exists_by_iff
      grace_ok_def suspension_ok_def backed_def)

lemma keeps_invoice_qr:
  "keeps billing_ok (updateM invoices invoices_update p (\<lambda>x. x\<lparr>iv_qr := q, iv_md5 := m\<rparr>))"
proof (rule keeps_update)
  fix s assume ok: "billing_ok s"
  let ?t = "invoices_update (\<lambda>_. update_where p (\<lambda>x. x\<lparr>iv_qr := q, iv_md5 := m\<rparr>) (invoices s)) s"
  have "backed ?t o' t = backed s o' t" for o' t
    unfolding backed_def by (simp, rule bex_update_same) simp
  with ok show "billing_ok ?t"
    by (auto simp: billing_ok_def billing_but_def accounts_ok_def keyed_update_where grace_ok_def suspension_ok_def)
qed

lemma keeps_draw_id: "keeps billing_ok randomBase58"
  by (rule keepsI) (auto simp: randomBase58_def billing_ok_def intro: billing_frame)

lemma keeps_createOpenInvoice: "keeps billing_ok (createOpenInvoice bl orgId planId cents)"
  unfolding createOpenInvoice_def Let_def
  by (auto intro!: keeps_intros keeps_draw_id keeps_new_invoice keeps_invoice_qr split: sum.split)

lemma earliest_Some: "earliest xs = Some x \<Longrightarrow> x \<in> set xs"
  by (induction xs arbitrary: x) (auto split: option.splits if_splits)

text \<open>The two writes of dunning: a grace period with the subscriptions past due, and the suspension.\<close>

definition graced :: "string \<Rightarrow> int \<Rightarrow> db \<Rightarrow> db" where
  "graced orgId t s = s\<lparr>subscriptions := update_where (\<lambda>b. sb_org b = orgId \<and> sb_status b = SubActive) (\<lambda>b. b\<lparr>sb_status := SubPastDue\<rparr>) (subscriptions s),
     orgs := update_where (\<lambda>g. o_id g = orgId) (\<lambda>g. g\<lparr>o_grace := Some t\<rparr>) (orgs s)\<rparr>"

definition suspended :: "string \<Rightarrow> db \<Rightarrow> db" where
  "suspended orgId s = s\<lparr>orgs := update_where (\<lambda>g. o_id g = orgId) (\<lambda>g. g\<lparr>o_status_active := False\<rparr>) (orgs s)\<rparr>"

definition first_overdue :: "db \<Rightarrow> string \<Rightarrow> invoice_row option" where
  "first_overdue s orgId = earliest (rows_where (\<lambda>x. iv_org x = orgId \<and> overdue_at (clock s) x) (invoices s))"

lemma graced_ok:
  assumes ok: "billing_ok s" and x: "x \<in> set (invoices s)" "iv_org x = orgId" "iv_status x = InvOpen" "iv_due x = Some d"
    and g: "find_by (\<lambda>g. o_id g = orgId) (orgs s) = Some g" "o_grace g = None"
  shows "billing_ok (graced orgId (d + GRACE_DAYS * DAY_MS) s)"
proof -
  let ?t = "graced orgId (d + GRACE_DAYS * DAY_MS) s"
  have row: "h = g" if "h \<in> set (orgs s)" "o_id h = orgId" for h
    using that find_by_SomeD [OF g(1)] keyed_unique [of o_id "orgs s" h g] ok by (simp add: billing_ok_def billing_but_def accounts_ok_def)
  have active: "o_status_active g" using ok g find_by_SomeD [OF g(1)]
    by (auto simp: billing_ok_def billing_but_def suspension_ok_def)
  have "count_where (is_current i) (subscriptions ?t) = count_where (is_current i) (subscriptions s)" for i
    unfolding graced_def by (simp, rule count_update_same) (simp add: is_current_def)
  then have "accounts_ok ?t" using ok
    by (simp add: billing_ok_def billing_but_def accounts_ok_def graced_def keyed_update_where ball_update_same)
  moreover have "grace_ok ?t h \<and> suspension_ok ?t h" if "h \<in> set (orgs ?t)" for h
    using that ok row active x
    by (auto simp: billing_ok_def billing_but_def graced_def update_where_def grace_ok_def suspension_ok_def backed_def)
  ultimately show ?thesis by (simp add: billing_ok_def billing_but_def)
qed

lemma suspended_ok:
  assumes ok: "billing_ok s" and g: "find_by (\<lambda>g. o_id g = orgId) (orgs s) = Some g" "o_grace g = Some t" "t < clock s"
  shows "billing_ok (suspended orgId s)"
proof -
  have row: "h = g" if "h \<in> set (orgs s)" "o_id h = orgId" for h
    using that find_by_SomeD [OF g(1)] keyed_unique [of o_id "orgs s" h g] ok by (simp add: billing_ok_def billing_but_def accounts_ok_def)
  have "grace_ok (suspended orgId s) h \<and> suspension_ok (suspended orgId s) h" if "h \<in> set (orgs (suspended orgId s))" for h
    using that ok row g(2,3)
    by (auto simp: billing_ok_def billing_but_def suspended_def update_where_def grace_ok_def suspension_ok_def backed_def)
  moreover have "accounts_ok (suspended orgId s)" using ok
    by (simp add: billing_ok_def billing_but_def accounts_ok_def suspended_def keyed_update_where)
  ultimately show ?thesis by (simp add: billing_ok_def billing_but_def)
qed

lemma dunning_result:
  "runDunning orgId s = (Inr (),
     (case (first_overdue s orgId, find_by (\<lambda>g. o_id g = orgId) (orgs s)) of
        (Some x, Some g) \<Rightarrow>
          (case o_grace g of
             None \<Rightarrow> graced orgId (the (iv_due x) + GRACE_DAYS * DAY_MS) s
           | Some t \<Rightarrow> if t < clock s \<and> o_status_active g then suspended orgId s else s)
      | _ \<Rightarrow> s))"
proof (cases "first_overdue s orgId")
  case None
  then show ?thesis by (simp add: runDunning_def op_simps first_overdue_def)
next
  case (Some x)
  then have "x \<in> set (rows_where (\<lambda>x. iv_org x = orgId \<and> overdue_at (clock s) x) (invoices s))"
    unfolding first_overdue_def by (rule earliest_Some)
  then obtain d where d: "iv_due x = Some d" by (auto simp: overdue_at_def)
  show ?thesis
  proof (cases "find_by (\<lambda>g. o_id g = orgId) (orgs s)")
    case None
    with Some show ?thesis by (simp add: runDunning_def op_simps first_overdue_def)
  next
    case (Some g)
    then have "exists_by (\<lambda>g. o_id g = orgId) (orgs s)" by (simp add: exists_by_find)
    then show ?thesis using Some \<open>first_overdue s orgId = Some x\<close> d
      by (auto simp: runDunning_def op_simps first_overdue_def graced_def suspended_def transaction_def update_manyM_def updateM_def
          bindM_def [of "update_manyM a b c d" for a b c d] split: option.split)
  qed
qed

text \<open>Dunning moves one step at a time: with no overdue open invoice nothing happens; the first
  time one is found its organisation gets a grace period of three days from the due date and its active
  subscriptions are past due; only when that period is over is the organisation suspended; and nothing else ever
  changes.\<close>

theorem dunning_steps:
  "runDunning orgId s = (Inr (),
     (case (first_overdue s orgId, find_by (\<lambda>g. o_id g = orgId) (orgs s)) of
        (Some x, Some g) \<Rightarrow>
          (case o_grace g of
             None \<Rightarrow> graced orgId (the (iv_due x) + GRACE_DAYS * DAY_MS) s
           | Some t \<Rightarrow> if t < clock s \<and> o_status_active g then suspended orgId s else s)
      | _ \<Rightarrow> s))"
  by (rule dunning_result)

lemma keeps_runDunning: "keeps billing_ok (runDunning orgId)"
proof (rule keepsI)
  fix s assume ok: "billing_ok s"
  have late: "\<exists>d. x \<in> set (invoices s) \<and> iv_org x = orgId \<and> iv_status x = InvOpen \<and> iv_due x = Some d"
    if "first_overdue s orgId = Some x" for x
    using earliest_Some [OF that [unfolded first_overdue_def]] by (auto simp: overdue_at_def)
  show "billing_ok (snd (runDunning orgId s))"
    using ok late graced_ok [OF ok] suspended_ok [OF ok] by (auto simp: dunning_result split: option.split)
qed

section \<open>Requests and the sweep\<close>

lemma keeps_billing_reads [keeps_intros]: "keeps P (billing_overview u orgId)" "keeps P (liftE r)"
proof -
  have lift: "keeps P (liftE r)" for r :: "exn + 'z" by (rule keepsI) (simp add: liftE_def)
  show "keeps P (liftE r)" by (rule lift)
  have "keeps P (quota_snapshot orgId)" unfolding quota_snapshot_def planForOrg_def Let_def
    by (auto intro!: keeps_intros split: prod.split)
  then show "keeps P (billing_overview u orgId)" unfolding billing_overview_def by (auto intro!: keeps_intros lift)
qed

lemma keeps_subscribe: "keeps billing_ok (subscribe bl u orgId planId)"
  unfolding subscribe_def by (auto intro!: keeps_intros keeps_activatePlan keeps_createOpenInvoice)

lemma keeps_simulate: "keeps billing_ok (simulateInvoicePayment bl u i)"
  unfolding simulateInvoicePayment_def by (auto intro!: keeps_intros keeps_activateFromInvoice)

lemma keeps_sweep: "keeps billing_ok (billing_sweep bl)"
  unfolding billing_sweep_def confirm_invoice_def renew_subscription_def
  by (auto intro!: keeps_intros keeps_activateFromInvoice keeps_createOpenInvoice keeps_runDunning split: option.split)

datatype billing_request =
  Subscribe biller auth_user string string
| SimulatePayment biller auth_user string
| InvoicePaid string
| Sweep biller
| Wait nat

fun bill :: "billing_request \<Rightarrow> db \<Rightarrow> db" where
  "bill (Subscribe bl u orgId planId) s = snd (subscribe bl u orgId planId s)"
| "bill (SimulatePayment bl u i) s = snd (simulateInvoicePayment bl u i s)"
| "bill (InvoicePaid i) s = snd (activateFromInvoice i s)"
| "bill (Sweep bl) s = snd (billing_sweep bl s)"
| "bill (Wait n) s = s\<lparr>clock := clock s + int n\<rparr>"

inductive billed :: "db \<Rightarrow> db \<Rightarrow> bool" for s where
  billed_start: "billed s s"
| billed_step: "billed s t \<Longrightarrow> billed s (bill r t)"

inductive_cases billed_stepE: "billed s t"

lemma bill_ok: "billing_ok s \<Longrightarrow> billing_ok (bill r s)"
proof (cases r)
  case (Wait n)
  moreover assume "billing_ok s"
  ultimately show ?thesis by (auto simp: billing_ok_def intro: billing_frame)
qed (simp_all add: keepsD keeps_subscribe keeps_simulate keeps_activateFromInvoice keeps_sweep)

lemma billed_ok: "billed s t \<Longrightarrow> billing_ok s \<Longrightarrow> billing_ok t"
  by (induction rule: billed.induct) (simp_all add: bill_ok)


section \<open>Paying an invoice\<close>

lemma subscription_post:
  obtains js es n where "postSubscriptionCollected i cur a s = (Inr (), s\<lparr>journals := js, entries := es, draws := n\<rparr>)"
proof -
  obtain r t where p: "postSubscriptionCollected i cur a s = (r, t)" by (cases "postSubscriptionCollected i cur a s")
  then have "r = Inr ()" unfolding postSubscriptionCollected_def
    by (cases rule: post_cases) (auto simp: line_of_def round_line_def line_sum_def)
  with p post_other_tables [OF p [unfolded postSubscriptionCollected_def]] that show ?thesis by blast
qed

text \<open>Paying an open invoice switches the organisation to its plan: it is active, with no grace
  period, and has exactly one current subscription, to the invoiced plan until the end of the invoiced period; the
  invoice is paid, and paying it again does nothing.\<close>

theorem payment_activates_plan:
  assumes "billing_ok s" and "find_by (\<lambda>x. iv_id x = i) (invoices s) = Some x" and "iv_status x = InvOpen" and "iv_plan x = Some p"
    and "find_by (\<lambda>g. o_id g = iv_org x) (orgs s) = Some g"
  shows "\<exists>t b. activateFromInvoice i s = (Inr True, t) \<and>
    find_by (\<lambda>g. o_id g = iv_org x) (orgs t) = Some (g\<lparr>o_plan := Some p, o_status_active := True, o_grace := None\<rparr>) \<and>
    rows_where (is_current (iv_org x)) (subscriptions t) = [b] \<and> sb_plan b = p \<and> sb_status b = SubActive \<and> sb_end b = iv_end x \<and>
    activateFromInvoice i t = (Inr False, t)"
proof -
  let ?m = "marked_paid i s"
  have ex: "exists_by (\<lambda>x. iv_id x = i) (invoices s)" "exists_by (\<lambda>g. o_id g = iv_org x) (orgs ?m)"
    using assms(2,5) by (simp_all add: exists_by_find marked_paid_def)
  have acc: "accounts_ok ?m" using marked_paid_but [OF assms(1,2)] by (simp add: billing_but_def)
  obtain js es n where post: "postSubscriptionCollected (iv_id x) ''USD'' (of_int (iv_cents x) / 100) (activated (iv_org x) p (Some (iv_end x)) ?m) =
      (Inr (), activated (iv_org x) p (Some (iv_end x)) ?m\<lparr>journals := js, entries := es, draws := n\<rparr>)" by (rule subscription_post)
  let ?t = "activated (iv_org x) p (Some (iv_end x)) ?m\<lparr>journals := js, entries := es, draws := n\<rparr>"
  have "activateFromInvoice i s = (Inr True, ?t)"
    using assms(2-4) ex acc post
    by (simp add: activateFromInvoice_def op_simps updateM_def bindM_def [of "updateM a b c d" for a b c d] marked_paid_def [symmetric]
        bindM_def [of "activatePlan a b c" for a b c] activatePlan_result bindM_def [of "postSubscriptionCollected a b c" for a b c])
  moreover have "find_by (\<lambda>g. o_id g = iv_org x) (orgs ?t) = Some (g\<lparr>o_plan := Some p, o_status_active := True, o_grace := None\<rparr>)"
    using assms(5) find_by_SomeD [OF assms(5)] by (simp add: activated_def marked_paid_def find_by_update_where)
  moreover have "rows_where (is_current (iv_org x)) (subscriptions ?t) = [new_subscription ?m (iv_org x) p (Some (iv_end x))]"
    by (simp add: activated_def new_subscription_def is_current_def rows_where_def update_where_def filter_map o_def filter_False)
  moreover have "find_by (\<lambda>x. iv_id x = i) (invoices ?t) = Some (x\<lparr>iv_status := InvPaid, iv_paid_at := Some (clock s)\<rparr>)"
    using assms(2) find_by_SomeD [OF assms(2)] by (simp add: activated_def marked_paid_def find_by_update_where)
  then have "activateFromInvoice i ?t = (Inr False, ?t)" using assms(4) by (simp add: activateFromInvoice_def op_simps)
  ultimately show ?thesis by (intro exI [of _ ?t] exI [of _ "new_subscription ?m (iv_org x) p (Some (iv_end x))"])
    (simp add: new_subscription_def)
qed

section \<open>Instances\<close>

definition toy_biller :: "(exn + created_khqr) \<Rightarrow> biller" where
  "toy_biller qr = \<lparr>bl_provider = \<lparr>pv_name = ''mock'', pv_create = (\<lambda>_. qr), pv_refund = (\<lambda>_ _ _. Inl P2025)\<rparr>, bl_poll = (\<lambda>_. Inr ''unknown'')\<rparr>"

definition toy_manager :: auth_user where
  "toy_manager = \<lparr>user_id = ''u'', user_email = ''u'', memberships = [\<lparr>m_org = ''org'', m_role = Owner\<rparr>]\<rparr>"

text \<open>An organisation with a paid plan until the end of the year.\<close>

definition toy_books :: db where
  "toy_books = empty_db\<lparr>orgs := [\<lparr>o_id = ''org'', o_status_active = True, o_plan = Some ''basic'', o_grace = None\<rparr>],
     plans := [\<lparr>pl_id = ''basic'', pl_name = ''Basic'', pl_quota = 1000, pl_fee_bps = 0, pl_price = 900\<rparr>,
       \<lparr>pl_id = ''pro'', pl_name = ''Pro'', pl_quota = 9000, pl_fee_bps = 0, pl_price = 2900\<rparr>],
     subscriptions := [\<lparr>sb_id = ''0'', sb_org = ''org'', sb_plan = ''basic'', sb_status = SubActive, sb_start = 0, sb_end = 365 * DAY_MS\<rparr>],
     draws := 1\<rparr>"

definition toy_qr :: "exn + created_khqr" where
  "toy_qr = Inr \<lparr>kr_qr = ''qr'', kr_md5 = ''md5'', kr_bill = None\<rparr>"

text \<open>It asks for a bigger plan, does not pay, and is suspended although its own plan is paid.\<close>

definition after_upgrade :: db where
  "after_upgrade = bill (Subscribe (toy_biller toy_qr) toy_manager ''org'' ''pro'') toy_books"

lemma toy_subscribe:
  "subscribe (toy_biller qr) toy_manager ''org'' ''pro'' toy_books =
     bindM (createOpenInvoice (toy_biller qr) ''org'' ''pro'' 2900) (\<lambda>x. ret (Invoiced x)) toy_books"
  by (simp add: subscribe_def op_simps liftE_def bindM_def [of "liftE r" for r] requirePermission_def requireMembership_def
    roleForOrg_def toy_manager_def toy_books_def)

lemma toy_open_invoice:
  "createOpenInvoice (toy_biller qr) ''org'' ''pro'' 2900 toy_books =
     (let i = rnd toy_books 1; x = new_invoice i ''org'' ''pro'' 2900 0; y = (case qr of Inl _ \<Rightarrow> x | Inr k \<Rightarrow> x\<lparr>iv_qr := Some (kr_qr k), iv_md5 := Some (kr_md5 k)\<rparr>)
      in (case qr of Inl _ \<Rightarrow> Inl (providerError ''Failed to generate subscription payment QR'') | Inr _ \<Rightarrow> Inr y,
          toy_books\<lparr>draws := 2, invoices := [y]\<rparr>))"
  by (cases qr) (simp_all add: createOpenInvoice_def op_simps Let_def toy_books_def empty_db_def createM_def updateM_def toy_biller_def
    bindM_def [of "createM a b c d" for a b c d] bindM_def [of "updateM a b c d" for a b c d] new_invoice_def)

lemma after_upgrade_rows:
  "map (\<lambda>x. (iv_org x, iv_status x, iv_due x)) (invoices after_upgrade) = [(''org'', InvOpen, Some 604800000)] \<and>
   orgs after_upgrade = orgs toy_books \<and> map sb_status (subscriptions after_upgrade) = [SubActive]"
  by (simp add: after_upgrade_def toy_subscribe toy_open_invoice toy_qr_def bindM_def Let_def ret_def new_invoice_def INVOICE_DUE_DAYS_def
    DAY_MS_def, simp add: toy_books_def)

definition dunned_on :: "int \<Rightarrow> db \<Rightarrow> db" where
  "dunned_on now s = snd (runDunning ''org'' (s\<lparr>clock := now\<rparr>))"

lemma abandoned_upgrade_suspends:
  "map o_status_active (orgs (dunned_on 1036800000 (dunned_on 691200000 after_upgrade))) = [False]"
proof -
  obtain x where x: "invoices after_upgrade = [x]" "iv_org x = ''org''" "iv_status x = InvOpen" "iv_due x = Some 604800000"
    using after_upgrade_rows by (auto simp: map_eq_Cons_conv)
  have "orgs after_upgrade = [\<lparr>o_id = ''org'', o_status_active = True, o_plan = Some ''basic'', o_grace = None\<rparr>]"
    using after_upgrade_rows by (simp add: toy_books_def)
  with x show ?thesis
    by (simp add: dunned_on_def dunning_result first_overdue_def overdue_at_def graced_def suspended_def GRACE_DAYS_def DAY_MS_def)
qed

text \<open>When the provider cannot make the code, the open invoice stays, with nothing to scan.\<close>

lemma unpayable_invoice:
  "map (\<lambda>x. (iv_status x, iv_qr x)) (invoices (bill (Subscribe (toy_biller (Inl P2025)) toy_manager ''org'' ''pro'') toy_books)) = [(InvOpen, None)]"
  by (simp add: toy_subscribe toy_open_invoice bindM_def Let_def ret_def new_invoice_def)

lemma toy_books_ok: "billing_ok toy_books"
proof -
  have "count_where (is_current i) (subscriptions toy_books) \<le> 1" for i by (simp add: toy_books_def)
  moreover have "\<exists>n < draws toy_books. sb_id b = rnd toy_books n" if "b \<in> set (subscriptions toy_books)" for b
  proof (intro exI [of _ 0] conjI)
    have "show_nat 0 = ''0''" by code_simp
    with that show "sb_id b = rnd toy_books 0" by (simp add: toy_books_def empty_db_def)
  qed (simp add: toy_books_def)
  ultimately show ?thesis
    by (simp add: billing_ok_def billing_but_def accounts_ok_def grace_ok_def suspension_ok_def toy_books_def keyed_def empty_db_def inj_show_nat)
qed

definition toy_open :: db where
  "toy_open = toy_books\<lparr>invoices := [new_invoice ''7'' ''org'' ''pro'' 2900 0]\<rparr>"

lemma toy_open_ok: "billing_ok toy_open"
  using toy_books_ok by (simp add: toy_open_def billing_ok_def billing_but_def accounts_ok_def grace_ok_def suspension_ok_def keyed_def toy_books_def)

theorem payment_activates_plan_witness:
  "\<exists>t. activateFromInvoice ''7'' toy_open = (Inr True, t) \<and>
     find_by (\<lambda>g. o_id g = ''org'') (orgs t) = Some \<lparr>o_id = ''org'', o_status_active = True, o_plan = Some ''pro'', o_grace = None\<rparr> \<and>
     activateFromInvoice ''7'' t = (Inr False, t)"
proof -
  let ?x = "new_invoice ''7'' ''org'' ''pro'' 2900 0"
  let ?g = "\<lparr>o_id = ''org'', o_status_active = True, o_plan = Some ''basic'', o_grace = None\<rparr>"
  have "find_by (\<lambda>x. iv_id x = ''7'') (invoices toy_open) = Some ?x" "find_by (\<lambda>g. o_id g = iv_org ?x) (orgs toy_open) = Some ?g"
    "iv_status ?x = InvOpen" "iv_plan ?x = Some ''pro''" "iv_org ?x = ''org''"
    by (simp_all add: toy_open_def new_invoice_def toy_books_def)
  with payment_activates_plan [OF toy_open_ok this(1,3,4,2)] show ?thesis by auto
qed

definition toy_suspended :: db where
  "toy_suspended = toy_books\<lparr>clock := 10, orgs := [\<lparr>o_id = ''org'', o_status_active = False, o_plan = None, o_grace = Some 5\<rparr>],
     invoices := [(new_invoice ''7'' ''org'' ''pro'' 2900 0)\<lparr>iv_due := Some (5 - GRACE_DAYS * DAY_MS)\<rparr>]\<rparr>"


end
