(* ===== verification/Totp.thy ===== *)
theory Totp
  imports Database "HOL-Library.Word"
begin

unbundle bit_operations_syntax

text \<open>
  \<open>packages/security/src/totp.ts\<close>: base32 text of a secret and back, on JavaScript's 32-bit
  integers, and time-based one-time codes. HMAC-SHA1 is the argument \<open>hmac\<close> of the
  model.
\<close>

type_synonym byte = "8 word"

section \<open>Base32\<close>

definition BASE32_ALPHABET :: string where
  "BASE32_ALPHABET = ''ABCDEFGHIJKLMNOPQRSTUVWXYZ234567''"

text \<open>The accumulator \<open>value\<close> is shifted left without ever being cleared: only its low bits count.\<close>

record accumulator =
  ac_value :: "32 word"
  ac_bits :: nat

definition symbol_at :: "32 word \<Rightarrow> char" where
  "symbol_at w = BASE32_ALPHABET ! unat (w AND 31)"

fun flush_symbols :: "32 word \<Rightarrow> nat \<Rightarrow> string \<times> nat" where
  "flush_symbols v n =
     (if 5 \<le> n then (case flush_symbols v (n - 5) of (out, m) \<Rightarrow> (symbol_at (drop_bit (n - 5) v) # out, m)) else ([], n))"

declare flush_symbols.simps [simp del]

fun encode_bytes :: "accumulator \<Rightarrow> byte list \<Rightarrow> string \<times> accumulator" where
  "encode_bytes a [] = ([], a)"
| "encode_bytes a (b # bs) =
     (let v = push_bit 8 (ac_value a) OR ucast b;
          (out, n) = flush_symbols v (ac_bits a + 8);
          (rest, a') = encode_bytes \<lparr>ac_value = v, ac_bits = n\<rparr> bs
      in (out @ rest, a'))"

definition base32Encode :: "byte list \<Rightarrow> string" where
  "base32Encode bs =
     (let (out, a) = encode_bytes \<lparr>ac_value = 0, ac_bits = 0\<rparr> bs
      in if 0 < ac_bits a then out @ [symbol_at (push_bit (5 - ac_bits a) (ac_value a))] else out)"

definition symbol_index :: "char \<Rightarrow> nat option" where
  "symbol_index c = (let i = length (takeWhile (\<lambda>x. x \<noteq> c) BASE32_ALPHABET) in if i < 32 then Some i else None)"

fun decode_symbols :: "accumulator \<Rightarrow> string \<Rightarrow> byte list" where
  "decode_symbols a [] = []"
| "decode_symbols a (c # cs) =
     (case symbol_index c of
        None \<Rightarrow> decode_symbols a cs
      | Some i \<Rightarrow>
        let v = push_bit 5 (ac_value a) OR of_nat i; n = ac_bits a + 5 in
        if 8 \<le> n then ucast (drop_bit (n - 8) v AND 255) # decode_symbols \<lparr>ac_value = v, ac_bits = n - 8\<rparr> cs
        else decode_symbols \<lparr>ac_value = v, ac_bits = n\<rparr> cs)"

definition clean_secret :: "string \<Rightarrow> string" where
  "clean_secret s = filter (\<lambda>c. \<not> is_space c) (to_upper (rev (dropWhile (\<lambda>c. c = CHR ''='') (rev s))))"

definition base32Decode :: "string \<Rightarrow> byte list" where
  "base32Decode s = decode_symbols \<lparr>ac_value = 0, ac_bits = 0\<rparr> (clean_secret s)"

section \<open>Codes\<close>

definition counter_bytes :: "int \<Rightarrow> byte list" where
  "counter_bytes c = map (\<lambda>i. word_of_int (c div 256 ^ (7 - i))) [0..<8]"

definition dynamic_code :: "byte list \<Rightarrow> int" where
  "dynamic_code digest =
     (let i = unat (last digest AND 15) in
      uint (push_bit 24 (ucast (digest ! i AND 127) :: 32 word) OR push_bit 16 (ucast (digest ! (i + 1)))
        OR push_bit 8 (ucast (digest ! (i + 2))) OR ucast (digest ! (i + 3))))"

text \<open>A counter below zero is refused by \<open>writeBigUInt64BE\<close>.\<close>

definition hotp :: "(byte list \<Rightarrow> byte list \<Rightarrow> byte list) \<Rightarrow> string \<Rightarrow> int \<Rightarrow> exn + string" where
  "hotp hmac secret counter =
     (if counter < 0 \<or> 2 ^ 64 \<le> counter then Inl (JsError ''ERR_OUT_OF_RANGE'')
      else Inr (pad_left 6 (CHR ''0'')
        (show_nat (nat (dynamic_code (hmac (base32Decode secret) (counter_bytes counter)) mod 1000000)))))"

definition totp_step :: "int \<Rightarrow> int" where
  "totp_step atMs = atMs div 30000"

definition totpCode :: "(byte list \<Rightarrow> byte list \<Rightarrow> byte list) \<Rightarrow> string \<Rightarrow> int \<Rightarrow> exn + string" where
  "totpCode hmac secret atMs = hotp hmac secret (totp_step atMs)"

fun try_counters :: "(int \<Rightarrow> exn + string) \<Rightarrow> string \<Rightarrow> int list \<Rightarrow> exn + int option" where
  "try_counters code token [] = Inr None"
| "try_counters code token (c # cs) =
     (case code c of Inl e \<Rightarrow> Inl e | Inr x \<Rightarrow> if x = token then Inr (Some c) else try_counters code token cs)"

definition TOTP_WINDOW :: int where
  "TOTP_WINDOW = 1"

definition clean_token :: "string \<Rightarrow> string" where
  "clean_token token = filter (\<lambda>c. \<not> is_space c) token"

definition verifyTotpCounter :: "(byte list \<Rightarrow> byte list \<Rightarrow> byte list) \<Rightarrow> string \<Rightarrow> string \<Rightarrow> int \<Rightarrow> exn + int option" where
  "verifyTotpCounter hmac secret token atMs =
     (let clean = clean_token token; counter = totp_step atMs in
      if length clean = 6 \<and> list_all is_digit clean
      then try_counters (hotp hmac secret) clean [counter - TOTP_WINDOW .. counter + TOTP_WINDOW]
      else Inr None)"

definition verifyTotp :: "(byte list \<Rightarrow> byte list \<Rightarrow> byte list) \<Rightarrow> string \<Rightarrow> string \<Rightarrow> int \<Rightarrow> exn + bool" where
  "verifyTotp hmac secret token atMs =
     (case verifyTotpCounter hmac secret token atMs of Inl e \<Rightarrow> Inl e | Inr r \<Rightarrow> Inr (r \<noteq> None))"

section \<open>Provisioning\<close>

definition hex_upper :: "nat \<Rightarrow> char" where
  "hex_upper d = ''0123456789ABCDEF'' ! d"

definition percent :: "char \<Rightarrow> string" where
  "percent c = [CHR ''%'', hex_upper (of_char c div 16), hex_upper (of_char c mod 16)]"

definition encodeURIComponent :: "string \<Rightarrow> string" where
  "encodeURIComponent s = concat (map (\<lambda>c.
     if is_upper c \<or> is_lower c \<or> is_digit c \<or> List.member ''-_.!~*()'' c \<or> c = CHR 39 then [c] else percent c) s)"

definition form_encode :: "string \<Rightarrow> string" where
  "form_encode s = concat (map (\<lambda>c.
     if is_upper c \<or> is_lower c \<or> is_digit c \<or> List.member ''*-._'' c then [c]
     else if c = CHR '' '' then ''+'' else percent c) s)"

definition otpauthUrl :: "string \<Rightarrow> string \<Rightarrow> string" where
  "otpauthUrl secret account =
     ''otpauth://totp/'' @ encodeURIComponent (''PayKH:'' @ account) @ ''?secret='' @ form_encode secret @
     ''&issuer=PayKH&algorithm=SHA1&digits=6&period=30''"

definition generateTotpSecret :: "byte list \<Rightarrow> string" where
  "generateTotpSecret random = base32Encode random"

section \<open>What a verified code says\<close>

lemma try_counters_Some:
  "try_counters code token cs = Inr (Some c) \<Longrightarrow> c \<in> set cs \<and> code c = Inr token"
  by (induction cs) (auto split: sum.splits if_splits)

lemma verifyTotpCounter_Some:
  assumes "verifyTotpCounter hmac secret token atMs = Inr (Some c)"
  shows "hotp hmac secret c = Inr (clean_token token) \<and> \<bar>c - totp_step atMs\<bar> \<le> TOTP_WINDOW"
proof -
  have "try_counters (hotp hmac secret) (clean_token token)
      [totp_step atMs - TOTP_WINDOW .. totp_step atMs + TOTP_WINDOW] = Inr (Some c)"
    using assms by (auto simp: verifyTotpCounter_def Let_def split: if_splits)
  from try_counters_Some [OF this] show ?thesis by auto
qed

section \<open>The bits of the accumulator\<close>

text \<open>The low \<open>n\<close> bits of a word, the highest of them first.\<close>

definition low :: "nat \<Rightarrow> 'a::len word \<Rightarrow> bool list" where
  "low n v = map (\<lambda>i. bit v (n - 1 - i)) [0..<n]"

lemma length_low [simp]: "length (low n v) = n"
  by (simp add: low_def)

lemma nth_low: "i < n \<Longrightarrow> low n v ! i = bit v (n - 1 - i)"
  by (simp add: low_def)

lemma low_0 [simp]: "low 0 v = []"
  by (simp add: low_def)

lemma low_push:
  fixes v :: "32 word"
  assumes "n + k \<le> 32" and "\<And>j. k \<le> j \<Longrightarrow> \<not> bit w j"
  shows "low (n + k) (push_bit k v OR w) = low n v @ low k w"
proof (rule nth_equalityI)
  fix i assume "i < length (low (n + k) (push_bit k v OR w))"
  then have i: "i < n + k" by simp
  show "low (n + k) (push_bit k v OR w) ! i = (low n v @ low k w) ! i"
  proof (cases "i < n")
    case True
    then have "n + k - 1 - i - k = n - 1 - i" "k \<le> n + k - 1 - i" by simp_all
    with True i assms show ?thesis by (auto simp: nth_low nth_append bit_or_iff bit_push_bit_iff)
  next
    case False
    then have "n + k - 1 - i = k - 1 - (i - n)" "n + k - 1 - i < k" using i by simp_all
    with False i assms(1) show ?thesis by (simp add: nth_low nth_append bit_or_iff bit_push_bit_iff)
  qed
qed simp

lemma low_take:
  fixes v :: "32 word"
  assumes "k \<le> n" and "n \<le> 32"
  shows "low k (drop_bit (n - k) v) = take k (low n v)"
  by (rule nth_equalityI) (use assms in \<open>simp_all add: nth_low bit_drop_bit_eq\<close>)

lemma low_drop: "m \<le> n \<Longrightarrow> low m v = drop (n - m) (low n v)"
  by (rule nth_equalityI) (simp_all add: nth_low)

lemma low_mask: "k \<le> j \<Longrightarrow> low k (v AND mask j) = low k v" for v :: "32 word"
  by (rule nth_equalityI) (auto simp: nth_low bit_and_iff bit_mask_iff dest: bit_imp_le_length)

lemma low_ucast_byte: "low 8 (ucast b :: 32 word) = low 8 b" for b :: byte
  by (rule nth_equalityI) (auto simp: nth_low bit_ucast_iff)

lemma low_byte: "low 8 (ucast v :: byte) = low 8 v" for v :: "32 word"
  by (rule nth_equalityI) (auto simp: nth_low bit_ucast_iff)

lemma low_inject:
  fixes a b :: byte
  assumes "low 8 a = low 8 b"
  shows "a = b"
proof (rule bit_eqI)
  fix n assume "possible_bit TYPE(byte) n"
  then have n: "n < 8" by simp
  then have "low 8 a ! (7 - n) = low 8 b ! (7 - n)" using assms by simp
  with n show "bit a n = bit b n" by (simp add: nth_low)
qed

section \<open>Encoding and decoding agree\<close>

lemma symbol_index_nth:
  assumes "k < 32"
  shows "symbol_index (BASE32_ALPHABET ! k) = Some k"
proof -
  have "\<forall>k \<in> set [0..<32]. symbol_index (BASE32_ALPHABET ! k) = Some k" by code_simp
  with assms show ?thesis by simp
qed

definition symbol_bits :: "char \<Rightarrow> bool list" where
  "symbol_bits c = low 5 (of_nat (the (symbol_index c)) :: 32 word)"

lemma and_31: "(v :: 32 word) AND 31 = v AND mask 5"
  by (simp add: mask_eq_exp_minus_1)

lemma unat_and_31: "unat ((v :: 32 word) AND 31) < 32"
  unfolding and_31 using and_mask_less' [of 5 v] by (simp add: word_less_nat_alt)

lemma symbol_index_at: "symbol_index (symbol_at v) = Some (unat (v AND 31))"
  by (simp add: symbol_at_def symbol_index_nth unat_and_31)

lemma symbol_bits_at: "symbol_bits (symbol_at v) = low 5 v"
  by (simp add: symbol_bits_def symbol_index_at and_31 low_mask)

definition symbol :: "char \<Rightarrow> bool" where
  "symbol c \<longleftrightarrow> symbol_index c \<noteq> None"

definition bits_of :: "string \<Rightarrow> bool list" where
  "bits_of s = concat (map symbol_bits s)"

definition byte_bits :: "byte list \<Rightarrow> bool list" where
  "byte_bits bs = concat (map (low 8) bs)"

lemma flush_sound:
  assumes "n \<le> 32"
  shows "case flush_symbols v n of (out, m) \<Rightarrow> bits_of out @ low m v = low n v \<and> m < 5 \<and> list_all symbol out"
  using assms
proof (induction v n rule: flush_symbols.induct)
  case (1 v n)
  show ?case
  proof (cases "5 \<le> n")
    case True
    then have "low 5 (drop_bit (n - 5) v) @ low (n - 5) v = low n v"
      using 1(2) low_take [of 5 n v] low_drop [of "n - 5" n v] by simp
    with 1 True show ?thesis
      by (subst flush_symbols.simps)
        (auto simp: bits_of_def symbol_bits_at symbol_def [abs_def] symbol_index_at split: prod.splits)
  qed (subst flush_symbols.simps, simp add: bits_of_def)
qed

lemma byte_high: "8 \<le> j \<Longrightarrow> \<not> bit (ucast b :: 32 word) j" for b :: byte
  using bit_imp_le_length [of b j] by (auto simp: bit_ucast_iff)

lemma encode_sound:
  assumes "ac_bits a < 5" and "encode_bytes a bs = (out, a')"
  shows "bits_of out @ low (ac_bits a') (ac_value a') = low (ac_bits a) (ac_value a) @ byte_bits bs \<and>
    ac_bits a' < 5 \<and> list_all symbol out"
  using assms
proof (induction bs arbitrary: a out a')
  case (Cons b bs)
  let ?v = "push_bit 8 (ac_value a) OR ucast b"
  obtain o1 n where f: "flush_symbols ?v (ac_bits a + 8) = (o1, n)" by fastforce
  obtain o2 where r: "encode_bytes \<lparr>ac_value = ?v, ac_bits = n\<rparr> bs = (o2, a')" "out = o1 @ o2"
    using Cons.prems f by (auto simp: Let_def split: prod.splits)
  have "low (ac_bits a + 8) ?v = low (ac_bits a) (ac_value a) @ low 8 b"
    using low_push [of "ac_bits a" 8 "ucast b" "ac_value a"] Cons.prems(1) byte_high by (simp add: low_ucast_byte)
  with flush_sound [of "ac_bits a + 8" ?v] Cons.prems(1) f
  have 1: "bits_of o1 @ low n ?v = low (ac_bits a) (ac_value a) @ low 8 b" "n < 5" "list_all symbol o1" by simp_all
  show ?case using Cons.IH [OF _ r(1)] 1 r(2) by (simp add: bits_of_def byte_bits_def)
qed (simp add: bits_of_def byte_bits_def)

lemma index_high:
  assumes "i < 32" and "5 \<le> j"
  shows "\<not> bit (of_nat i :: 32 word) j"
proof -
  have "i < 2 ^ j" using assms(1) power_increasing [OF assms(2), of "2 :: nat"] by simp
  then have "\<not> bit i j" by (simp add: bit_iff_odd)
  then show ?thesis by (simp add: bit_of_nat_iff)
qed

lemma symbol_index_less: "symbol_index c = Some i \<Longrightarrow> i < 32"
  by (auto simp: symbol_index_def Let_def split: if_splits)

lemma low_byte_out:
  fixes v :: "32 word"
  assumes "8 \<le> n" and "n \<le> 32"
  shows "low 8 (ucast (drop_bit (n - 8) v AND 255) :: byte) @ low (n - 8) v = low n v"
proof -
  have "(255 :: 32 word) = mask 8" by (simp add: mask_eq_exp_minus_1)
  then have "low 8 (ucast (drop_bit (n - 8) v AND 255) :: byte) = take 8 (low n v)"
    using assms low_take [of 8 n v] low_mask [of 8 8 "drop_bit (n - 8) v"] by (simp add: low_byte)
  then show ?thesis using assms low_drop [of "n - 8" n v] by simp
qed

lemma decode_sound:
  assumes "ac_bits a < 8" and "list_all symbol s"
  shows "\<exists>rest. byte_bits (decode_symbols a s) @ rest = low (ac_bits a) (ac_value a) @ bits_of s \<and> length rest < 8"
  using assms
proof (induction s arbitrary: a)
  case (Cons c cs)
  obtain i where i: "symbol_index c = Some i" "i < 32"
    using Cons.prems(2) symbol_index_less by (auto simp: symbol_def)
  let ?v = "push_bit 5 (ac_value a) OR of_nat i" and ?n = "ac_bits a + 5"
  have low: "low ?n ?v = low (ac_bits a) (ac_value a) @ symbol_bits c"
    using low_push [of "ac_bits a" 5 "of_nat i" "ac_value a"] index_high i Cons.prems(1) by (simp add: symbol_bits_def)
  have cs: "list_all symbol cs" using Cons.prems(2) by simp
  show ?case
  proof (cases "8 \<le> ?n")
    case True
    obtain rest where "byte_bits (decode_symbols \<lparr>ac_value = ?v, ac_bits = ?n - 8\<rparr> cs) @ rest =
      low (?n - 8) ?v @ bits_of cs" "length rest < 8"
      using Cons.IH [of "\<lparr>ac_value = ?v, ac_bits = ?n - 8\<rparr>"] Cons.prems(1) cs True by fastforce
    then show ?thesis using True i low low_byte_out [of ?n ?v] Cons.prems(1)
      by (intro exI [of _ rest]) (simp add: byte_bits_def bits_of_def Let_def)
  next
    case False
    then show ?thesis using Cons.IH [of "\<lparr>ac_value = ?v, ac_bits = ?n\<rparr>"] cs i low
      by (simp add: byte_bits_def bits_of_def Let_def)
  qed
qed (simp add: bits_of_def byte_bits_def exI [of _ "[]"])

lemma symbol_clean: "symbol c \<Longrightarrow> c \<noteq> CHR ''='' \<and> upper_char c = c \<and> \<not> is_space c"
proof -
  have *: "list_all (\<lambda>c. c \<noteq> CHR ''='' \<and> upper_char c = c \<and> \<not> is_space c) BASE32_ALPHABET" by code_simp
  assume "symbol c"
  then obtain i where "length (takeWhile (\<lambda>x. x \<noteq> c) BASE32_ALPHABET) < 32"
    by (auto simp: symbol_def symbol_index_def Let_def split: if_splits)
  moreover have "length BASE32_ALPHABET = 32" by code_simp
  ultimately have "c \<in> set BASE32_ALPHABET"
    by (metis (mono_tags, lifting) takeWhile_eq_all_conv less_irrefl)
  with * show ?thesis by (auto simp: list_all_iff)
qed

lemma clean_secret_symbols:
  assumes "list_all symbol s"
  shows "clean_secret s = s"
proof -
  have "dropWhile (\<lambda>c. c = CHR ''='') (rev s) = rev s"
  proof (cases "rev s")
    case (Cons c r)
    then have "c \<in> set s" by (metis list.set_intros(1) set_rev)
    with Cons assms symbol_clean show ?thesis by (simp add: list_all_iff)
  qed simp
  moreover have "map upper_char s = s"
    using assms symbol_clean by (intro map_idI) (simp add: list_all_iff)
  moreover have "filter (\<lambda>c. \<not> is_space c) s = s"
    using assms symbol_clean by (intro filter_True) (simp add: list_all_iff)
  ultimately show ?thesis by (simp add: clean_secret_def to_upper_def)
qed

lemma length_byte_bits [simp]: "length (byte_bits bs) = 8 * length bs"
  by (induction bs) (simp_all add: byte_bits_def)

lemma byte_bits_inject: "byte_bits bs = byte_bits cs \<Longrightarrow> bs = cs"
proof (induction bs arbitrary: cs)
  case Nil
  then have "length (byte_bits cs) = 0" by (metis length_byte_bits list.size(3) mult_0_right)
  then show ?case by simp
next
  case (Cons b bs)
  have "length (byte_bits (b # bs)) = length (byte_bits cs)" using Cons.prems by simp
  then obtain d ds where "cs = d # ds" by (cases cs) auto
  with Cons show ?case by (auto simp: byte_bits_def intro: low_inject)
qed

lemma base32Encode_sound:
  "\<exists>pad. bits_of (base32Encode bs) = byte_bits bs @ pad \<and> length pad < 5 \<and> list_all symbol (base32Encode bs)"
proof -
  obtain out a where e: "encode_bytes \<lparr>ac_value = 0, ac_bits = 0\<rparr> bs = (out, a)" by fastforce
  from encode_sound [OF _ e] have out: "bits_of out @ low (ac_bits a) (ac_value a) = byte_bits bs"
    "ac_bits a < 5" "list_all symbol out" by simp_all
  show ?thesis
  proof (cases "0 < ac_bits a")
    case True
    have "low 5 (push_bit (5 - ac_bits a) (ac_value a)) = low (ac_bits a) (ac_value a) @ low (5 - ac_bits a) (0 :: 32 word)"
      using low_push [of "ac_bits a" "5 - ac_bits a" 0 "ac_value a"] out(2) by simp
    with True out e show ?thesis
      by (intro exI [of _ "low (5 - ac_bits a) (0 :: 32 word)"])
        (auto simp: base32Encode_def bits_of_def symbol_bits_at symbol_def symbol_index_at)
  next
    case False
    with out e show ?thesis by (auto simp: base32Encode_def)
  qed
qed

lemma octets:
  fixes a b :: nat
  assumes "8 * a + r = 8 * b + p" and "r < 8" and "p < 5"
  shows "a = b"
  using assms by presburger

text \<open>C25: The text of a one-time-code secret is decoded to the secret: for every sequence of bytes,
  however the accumulator of the 32-bit shifts overflows, \<open>base32Decode\<close> gives back what
  \<open>base32Encode\<close> was given, and the text is its own clean form.\<close>

theorem secret_round_trip:
  "base32Decode (base32Encode bs) = bs \<and> clean_secret (base32Encode bs) = base32Encode bs"
proof -
  obtain pad where enc: "bits_of (base32Encode bs) = byte_bits bs @ pad" "length pad < 5" "list_all symbol (base32Encode bs)"
    using base32Encode_sound by blast
  note clean = clean_secret_symbols [OF enc(3)]
  obtain rest where rest: "byte_bits (base32Decode (base32Encode bs)) @ rest = byte_bits bs @ pad" "length rest < 8"
    using decode_sound [of "\<lparr>ac_value = 0, ac_bits = 0\<rparr>", OF _ enc(3)] enc(1) by (auto simp: base32Decode_def clean)
  have "length (base32Decode (base32Encode bs)) = length bs"
    by (rule octets [OF _ rest(2)]) (use arg_cong [OF rest(1), of length] enc(2) in simp_all)
  then have "byte_bits (base32Decode (base32Encode bs)) = byte_bits bs" using rest(1) by simp
  with clean show ?thesis using byte_bits_inject by blast
qed

end
