(* ===== verification/Identity.thy ===== *)
theory Identity
  imports Stores Totp
begin

text \<open>
  Accounts and sessions: the tables behind \<open>apps/api/src/auth\<close> and
  \<open>apps/api/src/team\<close> (users, memberships, organisations, invitations and the two kinds
  of single-use links), the queries on them, and the session guard
  \<open>jwt-auth.guard.ts\<close>. The library calls (bcrypt, SHA-256, AES-GCM, HMAC-SHA1, JSON
  web tokens, the clock and the Redis counter) are the fields of \<open>identity_env\<close>.
\<close>

section \<open>Tables\<close>

record user_row =
  us_id :: string
  us_email :: string
  us_password :: "string option"
  us_name :: "string option"
  us_mfa_enabled :: bool
  us_mfa_secret :: "string option"
  us_last_counter :: "int option"
  us_admin :: bool
  us_verified :: "int option"
  us_epoch :: int

record link_row =
  lk_id :: string
  lk_user :: string
  lk_hash :: string
  lk_expires :: int
  lk_used :: "int option"

record organization_row =
  og_id :: string
  og_name :: string

record member_row =
  mb_org :: string
  mb_user :: string
  mb_role :: member_role

record invitation_row =
  nv_id :: string
  nv_org :: string
  nv_email :: string
  nv_role :: member_role
  nv_token :: string
  nv_status :: string
  nv_inviter :: string
  nv_expires :: int

datatype identity_effect =
  Mail string string string
| FailureCounted string string
| FailuresCleared string string

record identity_db =
  us_rows :: "user_row list"
  reset_links :: "link_row list"
  verify_links :: "link_row list"
  og_rows :: "organization_row list"
  mb_rows :: "member_row list"
  nv_rows :: "invitation_row list"
  id_rnd :: "nat \<Rightarrow> string"
  id_draws :: nat
  id_effects :: "identity_effect list"

type_synonym 'a service = "(identity_db, exn, 'a) op"

record session =
  se_sub :: string
  se_email :: string
  se_epoch :: "int option"

record identity_env =
  en_now :: int
  en_hash :: "string \<Rightarrow> string"
  en_check :: "string \<Rightarrow> string \<Rightarrow> bool"
  en_digest :: "string \<Rightarrow> string"
  en_encrypt :: "string \<Rightarrow> string"
  en_decrypt :: "string \<Rightarrow> exn + string"
  en_hmac :: "byte list \<Rightarrow> byte list \<Rightarrow> byte list"
  en_random :: "byte list"
  en_sign :: "session \<Rightarrow> string"
  en_verify :: "string \<Rightarrow> session option"
  en_failures :: "nat option"
  en_base :: string

section \<open>Queries\<close>

definition oneM :: "(identity_db \<Rightarrow> 'r list) \<Rightarrow> ('r \<Rightarrow> bool) \<Rightarrow> 'r option service" where
  "oneM get p = getsM (\<lambda>s. find_by p (get s))"

definition addM ::
    "(identity_db \<Rightarrow> 'r list) \<Rightarrow> (('r list \<Rightarrow> 'r list) \<Rightarrow> identity_db \<Rightarrow> identity_db) \<Rightarrow> ('r \<Rightarrow> 'r \<Rightarrow> bool) \<Rightarrow> 'r \<Rightarrow> unit service" where
  "addM get upd clash r s = (if exists_by (clash r) (get s) then (Inl P2002, s) else (Inr (), upd (\<lambda>t. t @ [r]) s))"

definition setM ::
    "(identity_db \<Rightarrow> 'r list) \<Rightarrow> (('r list \<Rightarrow> 'r list) \<Rightarrow> identity_db \<Rightarrow> identity_db) \<Rightarrow> ('r \<Rightarrow> bool) \<Rightarrow> ('r \<Rightarrow> 'r) \<Rightarrow> unit service" where
  "setM get upd p f s = (if exists_by p (get s) then (Inr (), upd (update_where p f) s) else (Inl P2025, s))"

definition dropM ::
    "(('r list \<Rightarrow> 'r list) \<Rightarrow> identity_db \<Rightarrow> identity_db) \<Rightarrow> ('r \<Rightarrow> bool) \<Rightarrow> unit service" where
  "dropM upd p = modifyM (upd (delete_where p))"

definition drawM :: "string service" where
  "drawM s = (Inr (id_rnd s (id_draws s)), s\<lparr>id_draws := Suc (id_draws s)\<rparr>)"

definition noteM :: "identity_effect \<Rightarrow> unit service" where
  "noteM e = modifyM (id_effects_update (\<lambda>es. es @ [e]))"

definition sumM :: "exn + 'a \<Rightarrow> 'a service" where
  "sumM r s = (r, s)"

text \<open>The unique indexes.\<close>

definition user_clash :: "user_row \<Rightarrow> user_row \<Rightarrow> bool" where
  "user_clash a b \<longleftrightarrow> us_id a = us_id b \<or> us_email a = us_email b"

definition link_clash :: "link_row \<Rightarrow> link_row \<Rightarrow> bool" where
  "link_clash a b \<longleftrightarrow> lk_id a = lk_id b \<or> lk_hash a = lk_hash b"

definition organization_clash :: "organization_row \<Rightarrow> organization_row \<Rightarrow> bool" where
  "organization_clash a b \<longleftrightarrow> og_id a = og_id b"

definition member_clash :: "member_row \<Rightarrow> member_row \<Rightarrow> bool" where
  "member_clash a b \<longleftrightarrow> mb_org a = mb_org b \<and> mb_user a = mb_user b"

definition invitation_clash :: "invitation_row \<Rightarrow> invitation_row \<Rightarrow> bool" where
  "invitation_clash a b \<longleftrightarrow> nv_id a = nv_id b \<or> nv_token a = nv_token b"

lemma bindM_one [op_simps]: "bindM (oneM get p) f s = f (find_by p (get s)) s"
  by (simp add: oneM_def op_simps)

lemma bindM_draw [op_simps]: "bindM drawM f s = f (id_rnd s (id_draws s)) (s\<lparr>id_draws := Suc (id_draws s)\<rparr>)"
  by (simp add: drawM_def bindM_def)

lemma bindM_note [op_simps]: "bindM (noteM e) f s = f () (id_effects_update (\<lambda>es. es @ [e]) s)"
  by (simp add: noteM_def op_simps)

lemma bindM_drop [op_simps]: "bindM (dropM upd p) f s = f () (upd (delete_where p) s)"
  by (simp add: dropM_def op_simps)

lemma bindM_sum [op_simps]: "bindM (sumM r) f s = (case r of Inl e \<Rightarrow> (Inl e, s) | Inr a \<Rightarrow> f a s)"
  by (simp add: sumM_def bindM_def split: sum.split)

lemma bindM_add [op_simps]:
  "bindM (addM get upd clash r) f s =
     (if exists_by (clash r) (get s) then (Inl P2002, s) else f () (upd (\<lambda>t. t @ [r]) s))"
  by (simp add: addM_def bindM_def)

lemma bindM_set [op_simps]:
  "bindM (setM get upd p g) f s =
     (if exists_by p (get s) then f () (upd (update_where p g) s) else (Inl P2025, s))"
  by (simp add: setM_def bindM_def)

section \<open>The session guard\<close>

text \<open>\<open>/^Bearer\s+(.+)$/i\<close>: the capture of the match.\<close>

definition line_end :: "char \<Rightarrow> bool" where
  "line_end c \<longleftrightarrow> c = CHR 10 \<or> c = CHR 13"

definition bearer :: "string \<Rightarrow> string option" where
  "bearer header =
     (let rest = drop 6 header; ws = takeWhile is_space rest; token = dropWhile is_space rest in
      if to_lower (take 6 header) \<noteq> ''bearer'' \<or> ws = [] then None
      else if token \<noteq> [] then (if list_ex line_end token then None else Some token)
      else if 2 \<le> length ws \<and> \<not> line_end (last ws) then Some [last ws] else None)"

definition unauthorized :: "string \<Rightarrow> exn" where
  "unauthorized = ApiError Unauthorized"

definition current_user :: "identity_db \<Rightarrow> user_row \<Rightarrow> auth_user" where
  "current_user s u =
     \<lparr>user_id = us_id u, user_email = us_email u,
      memberships = map (\<lambda>m. \<lparr>m_org = mb_org m, m_role = mb_role m\<rparr>) (rows_where (\<lambda>m. mb_user m = us_id u) (mb_rows s))\<rparr>"

definition jwt_guard :: "identity_env \<Rightarrow> string option \<Rightarrow> auth_user service" where
  "jwt_guard e header =
     bindM (someM (unauthorized ''Missing Bearer token'') (bearer (case header of None \<Rightarrow> '''' | Some h \<Rightarrow> h))) (\<lambda>token.
     bindM (someM (unauthorized ''Invalid or expired token'') (en_verify e token)) (\<lambda>payload.
     bindM (oneM us_rows (\<lambda>u. us_id u = se_sub payload)) (\<lambda>user.
     bindM (someM (unauthorized ''User no longer exists'') user) (\<lambda>user.
     seqM (guardM ((case se_epoch payload of None \<Rightarrow> 0 | Some n \<Rightarrow> n) = us_epoch user)
       (unauthorized ''Session expired, please sign in again''))
     (getsM (\<lambda>s. current_user s user))))))"

end
