(* ===== verification/Auth.thy ===== *)
theory Auth
  imports Identity
begin

text \<open>
  Sign-in and account recovery: \<open>apps/api/src/auth/auth.service.ts\<close>,
  \<open>mfa.service.ts\<close> and \<open>ratelimit/account-throttle.service.ts\<close>.
\<close>

section \<open>The account throttle\<close>

definition THROTTLE_LIMIT :: nat where
  "THROTTLE_LIMIT = 10"

text \<open>A Redis failure (\<open>None\<close>) lets the request through.\<close>

definition assertNotLocked :: "identity_env \<Rightarrow> exn + unit" where
  "assertNotLocked e =
     (case en_failures e of
        None \<Rightarrow> Inr ()
      | Some n \<Rightarrow> if THROTTLE_LIMIT \<le> n
          then Inl (ApiError RateLimitExceeded ''Too many attempts for this account. Try again later.'') else Inr ())"

definition recordFailure :: "string \<Rightarrow> string \<Rightarrow> unit service" where
  "recordFailure scope account = noteM (FailureCounted scope account)"

definition clearFailures :: "string \<Rightarrow> string \<Rightarrow> unit service" where
  "clearFailures scope account = noteM (FailuresCleared scope account)"

section \<open>One-time codes\<close>

definition by_user :: "string \<Rightarrow> user_row \<Rightarrow> bool" where
  "by_user i u \<longleftrightarrow> us_id u = i"

definition mfa_setup :: "identity_env \<Rightarrow> string \<Rightarrow> (string \<times> string) service" where
  "mfa_setup e userId =
     bindM (oneM us_rows (by_user userId)) (\<lambda>user.
     bindM (someM (unauthorized ''Missing or invalid credentials'') user) (\<lambda>user.
     seqM (guardM (\<not> us_mfa_enabled user) (invalidRequest ''MFA is already enabled''))
     (let secret = generateTotpSecret (en_random e) in
      seqM (setM us_rows us_rows_update (by_user userId) (\<lambda>u. u\<lparr>us_mfa_secret := Some (en_encrypt e secret)\<rparr>))
        (ret (secret, otpauthUrl secret (us_email user))))))"

definition mfa_enable :: "identity_env \<Rightarrow> string \<Rightarrow> string \<Rightarrow> unit service" where
  "mfa_enable e userId code =
     bindM (oneM us_rows (by_user userId)) (\<lambda>user.
     bindM (someM (invalidRequest ''Run MFA setup first'') (Option.bind user us_mfa_secret)) (\<lambda>cipher.
     bindM (sumM (en_decrypt e cipher)) (\<lambda>secret.
     bindM (sumM (verifyTotp (en_hmac e) secret code (en_now e))) (\<lambda>valid.
     seqM (guardM valid (invalidRequest ''Invalid MFA code''))
       (setM us_rows us_rows_update (by_user userId) (\<lambda>u. u\<lparr>us_mfa_enabled := True\<rparr>))))))"

definition mfa_disable :: "identity_env \<Rightarrow> string \<Rightarrow> string \<Rightarrow> unit service" where
  "mfa_disable e userId code =
     bindM (oneM us_rows (by_user userId)) (\<lambda>user.
     bindM (someM (invalidRequest ''MFA is not enabled'')
       (Option.bind user (\<lambda>u. if us_mfa_enabled u then us_mfa_secret u else None))) (\<lambda>cipher.
     bindM (sumM (en_decrypt e cipher)) (\<lambda>secret.
     bindM (sumM (verifyTotp (en_hmac e) secret code (en_now e))) (\<lambda>valid.
     seqM (guardM valid (invalidRequest ''Invalid MFA code''))
       (setM us_rows us_rows_update (by_user userId) (\<lambda>u. u\<lparr>us_mfa_enabled := False, us_mfa_secret := None\<rparr>))))))"

definition newer_than :: "int \<Rightarrow> int option \<Rightarrow> bool" where
  "newer_than c last_counter = (case last_counter of None \<Rightarrow> True | Some l \<Rightarrow> l < c)"

text \<open>The conditional \<open>updateMany\<close>: the counter advances, or the code is a replay.\<close>

definition advance_counter :: "string \<Rightarrow> int \<Rightarrow> bool service" where
  "advance_counter userId c s =
     (let p = (\<lambda>u. us_id u = userId \<and> newer_than c (us_last_counter u)) in
      (Inr (count_where p (us_rows s) = 1), us_rows_update (update_where p (\<lambda>u. u\<lparr>us_last_counter := Some c\<rparr>)) s))"

definition verifyLogin :: "identity_env \<Rightarrow> string \<Rightarrow> string \<Rightarrow> string option \<Rightarrow> bool service" where
  "verifyLogin e userId cipher code =
     (case code of
        None \<Rightarrow> ret False
      | Some c \<Rightarrow> if c = '''' then ret False else
         bindM (sumM (en_decrypt e cipher)) (\<lambda>secret.
         bindM (sumM (verifyTotpCounter (en_hmac e) secret c (en_now e))) (\<lambda>counter.
         case counter of None \<Rightarrow> ret False | Some n \<Rightarrow> advance_counter userId n)))"

section \<open>Signing in\<close>

record auth_result =
  au_token :: string
  au_user :: string
  au_organization :: "string \<times> string"

definition session_of :: "user_row \<Rightarrow> session" where
  "session_of u = \<lparr>se_sub = us_id u, se_email = us_email u, se_epoch = Some (us_epoch u)\<rparr>"

text \<open>\<open>memberships[0]\<close>, with its organisation.\<close>

definition primary :: "identity_db \<Rightarrow> string \<Rightarrow> string \<times> string" where
  "primary s userId =
     (case find_by (\<lambda>m. mb_user m = userId) (mb_rows s) of
        None \<Rightarrow> ('''', '''')
      | Some m \<Rightarrow> (mb_org m, case find_by (\<lambda>g. og_id g = mb_org m) (og_rows s) of None \<Rightarrow> '''' | Some g \<Rightarrow> og_name g))"

definition signed_in :: "identity_env \<Rightarrow> user_row \<Rightarrow> string \<times> string \<Rightarrow> auth_result" where
  "signed_in e u org = \<lparr>au_token = en_sign e (session_of u), au_user = us_id u, au_organization = org\<rparr>"

definition DECOY_HASH :: string where
  "DECOY_HASH = ''$2a$12$6OLD4IHTLvrnE7I8TXy/4eUd4pNDXYqkdBYqi22Yv.fVHmzHvAWk.''"

record login_dto =
  li_email :: string
  li_password :: string
  li_code :: "string option"

definition password_ok :: "identity_env \<Rightarrow> string \<Rightarrow> user_row option \<Rightarrow> bool" where
  "password_ok e plain user =
     en_check e plain (case Option.bind user us_password of None \<Rightarrow> DECOY_HASH | Some h \<Rightarrow> h)"

definition second_factor :: "identity_env \<Rightarrow> user_row \<Rightarrow> string option \<Rightarrow> bool service" where
  "second_factor e user code =
     (case us_mfa_secret user of
        Some cipher \<Rightarrow> if us_mfa_enabled user then verifyLogin e (us_id user) cipher code else ret True
      | None \<Rightarrow> ret True)"

definition login :: "identity_env \<Rightarrow> login_dto \<Rightarrow> auth_result service" where
  "login e dto =
     (let email = trim (to_lower (li_email dto)) in
      bindM (sumM (assertNotLocked e)) (\<lambda>_.
      bindM (getsM (\<lambda>s. map_option (\<lambda>u. (u, primary s (us_id u))) (find_by (\<lambda>u. us_email u = email) (us_rows s)))) (\<lambda>found.
      case found of
        Some (user, org) \<Rightarrow>
          if us_password user = None \<or> \<not> password_ok e (li_password dto) (Some user)
          then seqM (recordFailure ''login'' email) (throw (unauthorized ''Invalid email or password''))
          else bindM (second_factor e user (li_code dto)) (\<lambda>valid.
               if \<not> valid then seqM (recordFailure ''login'' email) (throw (unauthorized ''MFA code required''))
               else seqM (clearFailures ''login'' email)
                 (if us_verified user = None then throw (ApiError EmailUnverified
                    ''Please confirm your email address before signing in. Check your inbox or request a new confirmation link.'')
                  else ret (signed_in e user org)))
      | None \<Rightarrow> seqM (recordFailure ''login'' email) (throw (unauthorized ''Invalid email or password'')))))"

section \<open>Passwords\<close>

definition HOUR :: int where
  "HOUR = 60 * 60 * 1000"

definition outstanding :: "string \<Rightarrow> link_row \<Rightarrow> bool" where
  "outstanding userId l \<longleftrightarrow> lk_user l = userId \<and> lk_used l = None"

text \<open>A fresh link: the outstanding ones are deleted, the digest of the new one is stored
  and its text is mailed.\<close>

definition issue_link ::
    "(identity_db \<Rightarrow> link_row list) \<Rightarrow> ((link_row list \<Rightarrow> link_row list) \<Rightarrow> identity_db \<Rightarrow> identity_db) \<Rightarrow>
     identity_env \<Rightarrow> string \<Rightarrow> int \<Rightarrow> string \<Rightarrow> string service" where
  "issue_link get upd e prefix ttl userId =
     seqM (dropM upd (outstanding userId))
     (bindM drawM (\<lambda>raw.
      bindM drawM (\<lambda>i.
      seqM (addM get upd link_clash
        \<lparr>lk_id = prefix @ ''_'' @ i, lk_user = userId, lk_hash = en_digest e raw, lk_expires = en_now e + ttl, lk_used = None\<rparr>)
      (ret raw))))"

definition forgotPassword :: "identity_env \<Rightarrow> string \<Rightarrow> unit service" where
  "forgotPassword e rawEmail =
     (let email = trim (to_lower rawEmail) in
      bindM (oneM us_rows (\<lambda>u. us_email u = email)) (\<lambda>user.
      case user of
        Some u \<Rightarrow> if us_password u = None then ret () else
          bindM (issue_link reset_links reset_links_update e ''prt'' HOUR (us_id u)) (\<lambda>raw.
          noteM (Mail email ''Reset your PayKH password'' (en_base e @ ''/reset-password?token='' @ raw)))
      | None \<Rightarrow> ret ()))"

definition new_password :: "identity_env \<Rightarrow> string \<Rightarrow> user_row \<Rightarrow> user_row" where
  "new_password e plain u = u\<lparr>us_password := Some (en_hash e plain), us_epoch := us_epoch u + 1\<rparr>"

definition changePassword :: "identity_env \<Rightarrow> string \<Rightarrow> string \<Rightarrow> string \<Rightarrow> unit service" where
  "changePassword e userId old new =
     seqM (guardM (8 \<le> length new) (invalidRequest ''New password must be at least 8 characters''))
     (bindM (oneM us_rows (by_user userId)) (\<lambda>user.
      bindM (someM (unauthorized ''Missing or invalid credentials'') (Option.bind user us_password)) (\<lambda>hash.
      seqM (guardM (en_check e old hash) (invalidRequest ''Current password is incorrect''))
      (seqM (setM us_rows us_rows_update (by_user userId) (new_password e new))
        (dropM reset_links_update (outstanding userId))))))"

definition usable :: "identity_env \<Rightarrow> link_row option \<Rightarrow> link_row option" where
  "usable e found =
     (case found of None \<Rightarrow> None | Some l \<Rightarrow> if lk_used l \<noteq> None \<or> lk_expires l < en_now e then None else Some l)"

definition by_hash :: "string \<Rightarrow> link_row \<Rightarrow> bool" where
  "by_hash h l \<longleftrightarrow> lk_hash l = h"

definition consume_link ::
    "(identity_db \<Rightarrow> link_row list) \<Rightarrow> ((link_row list \<Rightarrow> link_row list) \<Rightarrow> identity_db \<Rightarrow> identity_db) \<Rightarrow>
     identity_env \<Rightarrow> link_row \<Rightarrow> unit service" where
  "consume_link get upd e l =
     seqM (setM get upd (\<lambda>x. lk_id x = lk_id l) (\<lambda>x. x\<lparr>lk_used := Some (en_now e)\<rparr>))
       (dropM upd (outstanding (lk_user l)))"

text \<open>The link is read before the password is hashed: \<open>others\<close> is what other requests
  commit in between.\<close>

definition resetPassword ::
    "identity_env \<Rightarrow> (identity_db \<Rightarrow> identity_db) \<Rightarrow> string \<Rightarrow> string \<Rightarrow> unit service" where
  "resetPassword e others rawToken new =
     seqM (guardM (8 \<le> length new) (invalidRequest ''Password must be at least 8 characters''))
     (bindM (oneM reset_links (by_hash (en_digest e rawToken))) (\<lambda>found.
      bindM (someM (invalidRequest ''This reset link is invalid or has expired'') (usable e found)) (\<lambda>l.
      seqM (modifyM others)
      (transaction
        (seqM (setM us_rows us_rows_update (by_user (lk_user l)) (new_password e new))
          (consume_link reset_links reset_links_update e l))))))"

section \<open>Enrolment\<close>

record register_dto =
  rg_email :: string
  rg_password :: string
  rg_name :: "string option"
  rg_organization :: "string option"

definition issueEmailVerification :: "identity_env \<Rightarrow> string \<Rightarrow> string \<Rightarrow> unit service" where
  "issueEmailVerification e userId email =
     bindM (issue_link verify_links verify_links_update e ''emv'' (24 * HOUR) userId) (\<lambda>raw.
     noteM (Mail email ''Confirm your email to activate your PayKH account'' (en_base e @ ''/verify-email?token='' @ raw)))"

definition organization_name :: "register_dto \<Rightarrow> string" where
  "organization_name dto =
     (let given_name = (case rg_organization dto of None \<Rightarrow> [] | Some n \<Rightarrow> trim n) in
      if given_name \<noteq> [] then given_name
      else (case rg_name dto of None \<Rightarrow> ''My'' | Some x \<Rightarrow> x) @ '' Organization'')"

definition new_user :: "string \<Rightarrow> string \<Rightarrow> string \<Rightarrow> string option \<Rightarrow> user_row" where
  "new_user i email hash name =
     \<lparr>us_id = i, us_email = email, us_password = Some hash, us_name = name, us_mfa_enabled = False, us_mfa_secret = None,
      us_last_counter = None, us_admin = False, us_verified = None, us_epoch = 0\<rparr>"

text \<open>The transaction of \<open>register\<close>: the user, an organisation and its owner.\<close>

definition enrol :: "identity_env \<Rightarrow> register_dto \<Rightarrow> string \<Rightarrow> (string \<times> string) service" where
  "enrol e dto email =
     transaction
       (bindM drawM (\<lambda>i.
        seqM (addM us_rows us_rows_update user_clash (new_user i email (en_hash e (rg_password dto)) (rg_name dto)))
        (bindM drawM (\<lambda>r. let org = ''org_'' @ r in
         seqM (addM og_rows og_rows_update organization_clash \<lparr>og_id = org, og_name = organization_name dto\<rparr>)
         (seqM (addM mb_rows mb_rows_update member_clash \<lparr>mb_org = org, mb_user = i, mb_role = Owner\<rparr>)
           (ret (i, org)))))))"

definition register :: "identity_env \<Rightarrow> register_dto \<Rightarrow> (string \<times> string) service" where
  "register e dto =
     (let email = trim (to_lower (rg_email dto)) in
      bindM (oneM us_rows (\<lambda>u. us_email u = email)) (\<lambda>existing.
      seqM (guardM (existing = None) (invalidRequest ''An account with this email already exists''))
      (bindM (enrol e dto email) (\<lambda>(i, org).
       seqM (issueEmailVerification e i email) (ret (i, org))))))"

definition verifyEmail ::
    "identity_env \<Rightarrow> (identity_db \<Rightarrow> identity_db) \<Rightarrow> string \<Rightarrow> auth_result service" where
  "verifyEmail e others rawToken =
     bindM (oneM verify_links (by_hash (en_digest e rawToken))) (\<lambda>found.
     bindM (someM (invalidRequest
       ''This verification link is invalid or has expired. Request a new one from the sign-in page.'') (usable e found)) (\<lambda>l.
     seqM (modifyM others)
     (bindM (transaction
        (seqM (setM us_rows us_rows_update (by_user (lk_user l)) (\<lambda>u. u\<lparr>us_verified := Some (en_now e)\<rparr>))
         (bindM (getsM (\<lambda>s. map_option (\<lambda>u. (u, primary s (us_id u))) (find_by (by_user (lk_user l)) (us_rows s)))) (\<lambda>u.
          seqM (consume_link verify_links verify_links_update e l) (ret u))))) (\<lambda>found.
      bindM (someM P2025 found) (\<lambda>(u, org). ret (signed_in e u org))))))"

definition resendVerification :: "identity_env \<Rightarrow> string \<Rightarrow> unit service" where
  "resendVerification e rawEmail =
     bindM (oneM us_rows (\<lambda>u. us_email u = trim (to_lower rawEmail))) (\<lambda>user.
     case user of
       Some u \<Rightarrow> if us_verified u = None then issueEmailVerification e (us_id u) (us_email u) else ret ()
     | None \<Rightarrow> ret ())"

record profile =
  me_user :: user_row
  me_organizations :: "(string \<times> string \<times> string) list"

definition me :: "string \<Rightarrow> profile service" where
  "me userId =
     bindM (oneM us_rows (by_user userId)) (\<lambda>user.
     bindM (someM (unauthorized ''Missing or invalid credentials'') user) (\<lambda>u.
     getsM (\<lambda>s. \<lparr>me_user = u, me_organizations = map (\<lambda>m. (mb_org m,
       (case find_by (\<lambda>g. og_id g = mb_org m) (og_rows s) of None \<Rightarrow> '''' | Some g \<Rightarrow> og_name g), role_name (mb_role m)))
       (rows_where (\<lambda>m. mb_user m = userId) (mb_rows s))\<rparr>)))"

section \<open>Accounts only move forward\<close>

definition counter_le :: "int option \<Rightarrow> int option \<Rightarrow> bool" where
  "counter_le a b \<longleftrightarrow> (case a of None \<Rightarrow> True | Some x \<Rightarrow> (case b of None \<Rightarrow> False | Some y \<Rightarrow> x \<le> y))"

definition onward :: "user_row \<Rightarrow> user_row \<Rightarrow> bool" where
  "onward u v \<longleftrightarrow> us_id v = us_id u \<and> us_email v = us_email u \<and> us_epoch u \<le> us_epoch v \<and>
     counter_le (us_last_counter u) (us_last_counter v)"

definition advanced :: "identity_db \<Rightarrow> identity_db \<Rightarrow> bool" where
  "advanced s t \<longleftrightarrow> (\<forall>i u. find_by (by_user i) (us_rows s) = Some u \<longrightarrow>
     (\<exists>v. find_by (by_user i) (us_rows t) = Some v \<and> onward u v))"

lemma counter_le_refl [simp]: "counter_le a a"
  by (simp add: counter_le_def split: option.split)

lemma counter_le_trans: "counter_le a b \<Longrightarrow> counter_le b c \<Longrightarrow> counter_le a c"
  by (auto simp: counter_le_def split: option.splits)

lemma counter_le_newer: "newer_than c l \<Longrightarrow> counter_le l (Some c)"
  by (auto simp: newer_than_def counter_le_def split: option.splits)

lemma onward_refl [simp]: "onward u u"
  by (simp add: onward_def)

lemma onward_trans: "onward u v \<Longrightarrow> onward v w \<Longrightarrow> onward u w"
  by (auto simp: onward_def intro: counter_le_trans)

lemma advanced_refl [simp]: "advanced s s"
  by (simp add: advanced_def)

lemma advanced_rows: "us_rows t = us_rows t' \<Longrightarrow> advanced s t = advanced s t'"
  by (simp add: advanced_def)

lemma advanced_trans: "advanced r s \<Longrightarrow> advanced s t \<Longrightarrow> advanced r t"
  unfolding advanced_def by (meson onward_trans)

lemma advanced_update:
  assumes g: "\<And>u. p u \<Longrightarrow> onward u (g u)"
  shows "advanced s (us_rows_update (update_where p g) s)"
proof -
  have "find_by (by_user i) (update_where p g t) = map_option (\<lambda>r. if p r then g r else r) (find_by (by_user i) t)" for i t
    by (induction t) (use g in \<open>auto simp: by_user_def onward_def\<close>)
  then show ?thesis using g by (simp add: advanced_def)
qed

lemma advanced_append: "advanced s (us_rows_update (\<lambda>t. t @ [u]) s)"
  by (simp add: advanced_def find_by_append)

lemma keeps_set_users:
  assumes "\<And>u. p u \<Longrightarrow> onward u (g u)"
  shows "keeps (advanced s0) (setM us_rows us_rows_update p g)"
  by (rule keepsI) (use advanced_update [OF assms] in \<open>auto simp: setM_def intro: advanced_trans\<close>)

lemma keeps_add_users: "keeps (advanced s0) (addM us_rows us_rows_update clash u)"
  by (rule keepsI) (auto simp: addM_def intro: advanced_trans advanced_append)

lemma keeps_add_other:
  "(\<And>f t. us_rows (upd f t) = us_rows t) \<Longrightarrow> keeps (advanced s0) (addM get upd clash r)"
  by (rule keepsI) (simp add: addM_def advanced_def)

lemma keeps_set_other:
  "(\<And>f t. us_rows (upd f t) = us_rows t) \<Longrightarrow> keeps (advanced s0) (setM get upd p g)"
  by (rule keepsI) (simp add: setM_def advanced_def)

lemma keeps_drop_other: "(\<And>f t. us_rows (upd f t) = us_rows t) \<Longrightarrow> keeps (advanced s0) (dropM upd p)"
  by (rule keepsI) (simp add: dropM_def modifyM_def advanced_def)

lemma keeps_one [keeps_intros]: "keeps P (oneM get p)"
  by (simp add: oneM_def keeps_gets)

lemma keeps_sum [keeps_intros]: "keeps P (sumM r)"
  by (simp add: keeps_def sumM_def)

lemma keeps_drawM: "keeps (advanced s0) drawM"
  by (rule keepsI) (simp add: drawM_def advanced_def)

lemma keeps_note: "keeps (advanced s0) (noteM x)"
  by (rule keepsI) (simp add: noteM_def modifyM_def advanced_def)

lemma onward_updates [simp]:
  "onward u (u\<lparr>us_mfa_secret := x\<rparr>)" "onward u (u\<lparr>us_mfa_enabled := b\<rparr>)"
  "onward u (u\<lparr>us_mfa_enabled := b, us_mfa_secret := x\<rparr>)"
  "onward u (u\<lparr>us_verified := v\<rparr>)" "onward u (new_password e plain u)"
  by (simp_all add: onward_def new_password_def)

text \<open>A write to any other table leaves the accounts alone.\<close>

lemmas other_tables =
  keeps_add_other [of reset_links_update, simplified] keeps_add_other [of verify_links_update, simplified]
  keeps_add_other [of og_rows_update, simplified] keeps_add_other [of mb_rows_update, simplified]
  keeps_add_other [of nv_rows_update, simplified]
  keeps_set_other [of reset_links_update, simplified] keeps_set_other [of verify_links_update, simplified]
  keeps_set_other [of mb_rows_update, simplified] keeps_set_other [of nv_rows_update, simplified]
  keeps_drop_other [of reset_links_update, simplified] keeps_drop_other [of verify_links_update, simplified]
  keeps_drop_other [of mb_rows_update, simplified]

lemmas forward_intros = keeps_intros keeps_set_users keeps_add_users other_tables keeps_drawM keeps_note

lemma keeps_advance: "keeps (advanced s0) (advance_counter i c)"
  by (rule keepsI) (auto simp: advance_counter_def Let_def onward_def intro!: counter_le_newer
    intro: advanced_trans [OF _ advanced_update])

lemma forward_mfa:
  "keeps (advanced s0) (mfa_setup e i)" "keeps (advanced s0) (mfa_enable e i c)" "keeps (advanced s0) (mfa_disable e i c)"
  "keeps (advanced s0) (verifyLogin e i ci co)"
  unfolding mfa_setup_def mfa_enable_def mfa_disable_def verifyLogin_def
  by (auto simp: Let_def intro!: forward_intros keeps_advance split: option.split)

lemma forward_login: "keeps (advanced s0) (login e d)"
  unfolding login_def Let_def second_factor_def recordFailure_def clearFailures_def
  by (auto intro!: forward_intros forward_mfa split: option.split)

lemma forward_links:
  "keeps (advanced s0) (forgotPassword e m)" "keeps (advanced s0) (resendVerification e m)"
  "keeps (advanced s0) (changePassword e i p q)" "keeps (advanced s0) (resetPassword e id k q)"
  "keeps (advanced s0) (verifyEmail e id k)"
  unfolding forgotPassword_def Let_def resendVerification_def issueEmailVerification_def issue_link_def
    changePassword_def resetPassword_def verifyEmail_def consume_link_def
  by (auto intro!: forward_intros keeps_modify split: option.split)

lemma forward_register: "keeps (advanced s0) (register e d)"
  unfolding register_def enrol_def Let_def issueEmailVerification_def issue_link_def
  by (auto intro!: forward_intros)

end
