(* ===== verification/Team.thy ===== *)
theory Team
  imports Auth
begin

text \<open>
  The members of an organisation, their roles and the invitations to join it:
  \<open>apps/api/src/team/team.service.ts\<close>. The caller is what the session guard made of the
  request; \<open>others\<close> is what other requests commit between a check and the write it guards.
\<close>

definition member_of :: "string \<Rightarrow> string \<Rightarrow> member_row \<Rightarrow> bool" where
  "member_of org userId m \<longleftrightarrow> mb_org m = org \<and> mb_user m = userId"

definition assertCanAssignRole :: "auth_user \<Rightarrow> string \<Rightarrow> member_role \<Rightarrow> exn + unit" where
  "assertCanAssignRole user org role =
     (if role = Owner \<and> roleForOrg user org \<noteq> Some Owner
      then Inl (forbidden ''Only an organization owner can grant the owner role'') else Inr ())"

definition other_owner :: "string \<Rightarrow> string \<Rightarrow> member_row \<Rightarrow> bool" where
  "other_owner org excluding m \<longleftrightarrow> mb_org m = org \<and> mb_role m = Owner \<and> mb_user m \<noteq> excluding"

definition assertNotLastOwner :: "string \<Rightarrow> string \<Rightarrow> unit service" where
  "assertNotLastOwner org excluding =
     bindM (getsM (\<lambda>s. count_where (other_owner org excluding) (mb_rows s))) (\<lambda>owners.
     guardM (owners \<noteq> 0) (invalidRequest ''Cannot remove or demote the last owner''))"

definition listMembers :: "auth_user \<Rightarrow> string \<Rightarrow> (string \<times> string \<times> string option \<times> string) list service" where
  "listMembers user org =
     bindM (sumM (requirePermission user org TeamManage)) (\<lambda>_.
     getsM (\<lambda>s. map (\<lambda>m. (case find_by (by_user (mb_user m)) (us_rows s) of
         Some u \<Rightarrow> (mb_user m, us_email u, us_name u, role_name (mb_role m))
       | None \<Rightarrow> (mb_user m, '''', None, role_name (mb_role m)))) (rows_where (\<lambda>m. mb_org m = org) (mb_rows s))))"

definition invite :: "identity_env \<Rightarrow> auth_user \<Rightarrow> string \<Rightarrow> string \<Rightarrow> member_role \<Rightarrow> (string \<times> string) service" where
  "invite e user org email role =
     (let normalized = trim (to_lower email) in
      bindM (sumM (requirePermission user org TeamManage)) (\<lambda>_.
      bindM (sumM (assertCanAssignRole user org role)) (\<lambda>_.
      bindM (oneM us_rows (\<lambda>u. us_email u = normalized)) (\<lambda>existing.
      bindM (oneM mb_rows (\<lambda>m. \<exists>u \<in> set_option existing. member_of org (us_id u) m)) (\<lambda>membership.
      seqM (guardM (membership = None) (invalidRequest ''User is already a member''))
      (bindM drawM (\<lambda>r. let token = ''inv_'' @ r in
       bindM drawM (\<lambda>i.
       seqM (addM nv_rows nv_rows_update invitation_clash
         \<lparr>nv_id = i, nv_org = org, nv_email = normalized, nv_role = role, nv_token = token, nv_status = ''pending'',
          nv_inviter = user_id user, nv_expires = en_now e + 7 * 24 * HOUR\<rparr>)
       (bindM (oneM og_rows (\<lambda>g. og_id g = org)) (\<lambda>found.
        seqM (noteM (Mail normalized
           (''You've been invited to '' @ (case found of None \<Rightarrow> ''an organization'' | Some g \<Rightarrow> og_name g) @ '' on PayKH'')
           (en_base e @ ''/invite?token='' @ token)))
          (ret (i, token))))))))))))"

definition listInvitations :: "auth_user \<Rightarrow> string \<Rightarrow> invitation_row list service" where
  "listInvitations user org =
     bindM (sumM (requirePermission user org TeamManage)) (\<lambda>_.
     getsM (\<lambda>s. rev (rows_where (\<lambda>i. nv_org i = org \<and> nv_status i = ''pending'') (nv_rows s))))"

definition revokeInvitation :: "auth_user \<Rightarrow> string \<Rightarrow> unit service" where
  "revokeInvitation user i =
     bindM (oneM nv_rows (\<lambda>x. nv_id x = i)) (\<lambda>found.
     bindM (someM (paymentNotFound ''Invitation not found'') found) (\<lambda>inv.
     bindM (sumM (requirePermission user (nv_org inv) TeamManage)) (\<lambda>_.
     setM nv_rows nv_rows_update (\<lambda>x. nv_id x = i) (\<lambda>x. x\<lparr>nv_status := ''revoked''\<rparr>))))"

text \<open>\<open>upsert\<close> of a membership: the role of a present one is overwritten.\<close>

definition upsert_member :: "string \<Rightarrow> string \<Rightarrow> member_role \<Rightarrow> unit service" where
  "upsert_member org userId role =
     bindM (oneM mb_rows (member_of org userId)) (\<lambda>found.
     if found = None
     then addM mb_rows mb_rows_update member_clash \<lparr>mb_org = org, mb_user = userId, mb_role = role\<rparr>
     else setM mb_rows mb_rows_update (member_of org userId) (\<lambda>m. m\<lparr>mb_role := role\<rparr>))"

definition accept_invitation :: "identity_env \<Rightarrow> auth_user \<Rightarrow> string \<Rightarrow> (string \<times> string) service" where
  "accept_invitation e user token =
     bindM (oneM nv_rows (\<lambda>x. nv_token x = token)) (\<lambda>found.
     bindM (someM (invalidRequest ''Invalid invitation'')
       (case found of None \<Rightarrow> None | Some i \<Rightarrow> if nv_status i = ''pending'' then Some i else None)) (\<lambda>inv.
     seqM (guardM (\<not> nv_expires inv < en_now e) (invalidRequest ''Invitation expired''))
     (bindM (oneM us_rows (by_user (user_id user))) (\<lambda>dbUser.
      seqM (guardM (\<exists>u \<in> set_option dbUser. to_lower (us_email u) = nv_email inv)
        (forbidden ''This invitation was issued to a different email''))
      (seqM (transaction
         (seqM (upsert_member (nv_org inv) (user_id user) (nv_role inv))
           (setM nv_rows nv_rows_update (\<lambda>x. nv_id x = nv_id inv) (\<lambda>x. x\<lparr>nv_status := ''accepted''\<rparr>))))
        (ret (nv_org inv, role_name (nv_role inv))))))))"

definition changeRole ::
    "(identity_db \<Rightarrow> identity_db) \<Rightarrow> auth_user \<Rightarrow> string \<Rightarrow> string \<Rightarrow> member_role \<Rightarrow> (string \<times> string) service" where
  "changeRole others user org target role =
     bindM (sumM (requirePermission user org TeamManage)) (\<lambda>_.
     bindM (sumM (assertCanAssignRole user org role)) (\<lambda>_.
     bindM (oneM mb_rows (member_of org target)) (\<lambda>found.
     bindM (someM (paymentNotFound ''Member not found'') found) (\<lambda>m.
     seqM (if mb_role m = Owner \<and> role \<noteq> Owner then assertNotLastOwner org target else ret ())
     (seqM (modifyM others)
     (seqM (setM mb_rows mb_rows_update (member_of org target) (\<lambda>m. m\<lparr>mb_role := role\<rparr>))
       (ret (target, role_name role))))))))"

definition delete_member :: "string \<Rightarrow> string \<Rightarrow> unit service" where
  "delete_member org target s =
     (if exists_by (member_of org target) (mb_rows s)
      then (Inr (), mb_rows_update (delete_where (member_of org target)) s) else (Inl P2025, s))"

definition removeMember :: "(identity_db \<Rightarrow> identity_db) \<Rightarrow> auth_user \<Rightarrow> string \<Rightarrow> string \<Rightarrow> string service" where
  "removeMember others user org target =
     bindM (sumM (requirePermission user org TeamManage)) (\<lambda>_.
     bindM (oneM mb_rows (member_of org target)) (\<lambda>found.
     bindM (someM (paymentNotFound ''Member not found'') found) (\<lambda>m.
     seqM (if mb_role m = Owner then assertNotLastOwner org target else ret ())
     (seqM (modifyM others)
     (seqM (delete_member org target)
       (ret target))))))"

section \<open>Who may own an organisation\<close>

text \<open>\<open>new_owner s t org i\<close>: user \<open>i\<close> owns \<open>org\<close> in \<open>t\<close> and did not in \<open>s\<close>.\<close>

definition owns :: "identity_db \<Rightarrow> string \<Rightarrow> string \<Rightarrow> bool" where
  "owns s org i \<longleftrightarrow> exists_by (\<lambda>m. member_of org i m \<and> mb_role m = Owner) (mb_rows s)"

definition owned :: "identity_db \<Rightarrow> string \<Rightarrow> bool" where
  "owned s org \<longleftrightarrow> exists_by (\<lambda>m. mb_org m = org \<and> mb_role m = Owner) (mb_rows s)"

definition owner_invited :: "identity_db \<Rightarrow> string \<Rightarrow> string \<Rightarrow> bool" where
  "owner_invited s org email \<longleftrightarrow>
     exists_by (\<lambda>i. nv_org i = org \<and> nv_email i = email \<and> nv_role i = Owner) (nv_rows s)"

lemma requirePermission_Inr: "requirePermission u org p = Inr x \<Longrightarrow> \<exists>r. roleForOrg u org = Some r"
  by (auto simp: requirePermission_def requireMembership_def split: option.splits)

end
