(* ===== verification/Accounts.thy ===== *)
theory Accounts
  imports Team
begin

text \<open>
  The accounts as a whole: the requests of \<open>auth.controller.ts\<close> and
  \<open>team.controller.ts\<close>, the signed-in ones behind the session guard, as a step relation
  over the tables of \<open>Identity\<close>; what holds after any sequence of them.
\<close>

section \<open>Requests\<close>

datatype identity_request =
  Register register_dto
| VerifyEmail string
| ResendVerification string
| ForgotPassword string
| ResetPassword string string
| Login login_dto
| ChangePassword "string option" string string
| SetupMfa "string option"
| EnableMfa "string option" string
| DisableMfa "string option" string
| Invite "string option" string string member_role
| RevokeInvitation "string option" string
| AcceptInvitation "string option" string
| ChangeRole "string option" string string member_role
| RemoveMember "string option" string string

definition as_user :: "identity_env \<Rightarrow> string option \<Rightarrow> (auth_user \<Rightarrow> 'a service) \<Rightarrow> 'a service" where
  "as_user e header f = bindM (jwt_guard e header) f"

fun serve :: "identity_env \<Rightarrow> identity_request \<Rightarrow> identity_db \<Rightarrow> identity_db" where
  "serve e (Register d) s = snd (register e d s)"
| "serve e (VerifyEmail k) s = snd (verifyEmail e id k s)"
| "serve e (ResendVerification m) s = snd (resendVerification e m s)"
| "serve e (ForgotPassword m) s = snd (forgotPassword e m s)"
| "serve e (ResetPassword k p) s = snd (resetPassword e id k p s)"
| "serve e (Login d) s = snd (login e d s)"
| "serve e (ChangePassword h p q) s = snd (as_user e h (\<lambda>u. changePassword e (user_id u) p q) s)"
| "serve e (SetupMfa h) s = snd (as_user e h (\<lambda>u. mfa_setup e (user_id u)) s)"
| "serve e (EnableMfa h c) s = snd (as_user e h (\<lambda>u. mfa_enable e (user_id u) c) s)"
| "serve e (DisableMfa h c) s = snd (as_user e h (\<lambda>u. mfa_disable e (user_id u) c) s)"
| "serve e (Invite h org m r) s = snd (as_user e h (\<lambda>u. invite e u org m r) s)"
| "serve e (RevokeInvitation h i) s = snd (as_user e h (\<lambda>u. revokeInvitation u i) s)"
| "serve e (AcceptInvitation h k) s = snd (as_user e h (\<lambda>u. accept_invitation e u k) s)"
| "serve e (ChangeRole h org i r) s = snd (as_user e h (\<lambda>u. changeRole id u org i r) s)"
| "serve e (RemoveMember h org i) s = snd (as_user e h (\<lambda>u. removeMember id u org i) s)"

inductive later :: "identity_db \<Rightarrow> identity_db \<Rightarrow> bool" where
  same: "later s s"
| after_request: "later s t \<Longrightarrow> later s (serve e r t)"

inductive_cases after_requestE: "later s t"

lemma guard_reads: "snd (jwt_guard e h s) = s"
  by (simp add: jwt_guard_def op_simps split: option.split)

lemma keeps_guard_jwt: "keeps P (jwt_guard e h)"
  by (rule keepsI) (simp add: guard_reads)

lemma keeps_as_user: "(\<And>u. keeps P (f u)) \<Longrightarrow> keeps P (as_user e h f)"
  unfolding as_user_def by (intro keeps_bind keeps_guard_jwt)

text \<open>A property that every handler keeps holds after any sequence of requests.\<close>

definition kept_by_all :: "(identity_db \<Rightarrow> bool) \<Rightarrow> bool" where
  "kept_by_all P \<longleftrightarrow> (\<forall>e r s. P s \<longrightarrow> P (serve e r s))"

lemma later_keeps:
  assumes "later s t" and "kept_by_all P" and "P s"
  shows "P t"
  using assms(1,3) by induction (use assms(2) in \<open>simp_all add: kept_by_all_def\<close>)

lemma later_trans:
  assumes "later t u" and "later s t"
  shows "later s u"
  using assms by (induction rule: later.induct) (auto intro: later.intros)

lemma kept_by_allI:
  assumes "\<And>e d. keeps P (register e d)" "\<And>e k. keeps P (verifyEmail e id k)" "\<And>e m. keeps P (resendVerification e m)"
    "\<And>e m. keeps P (forgotPassword e m)" "\<And>e k p. keeps P (resetPassword e id k p)" "\<And>e d. keeps P (login e d)"
    "\<And>e i p q. keeps P (changePassword e i p q)" "\<And>e i. keeps P (mfa_setup e i)" "\<And>e i c. keeps P (mfa_enable e i c)"
    "\<And>e i c. keeps P (mfa_disable e i c)" "\<And>e u org m r. keeps P (invite e u org m r)" "\<And>u i. keeps P (revokeInvitation u i)"
    "\<And>e u k. keeps P (accept_invitation e u k)" "\<And>u org i r. keeps P (changeRole id u org i r)"
    "\<And>u org i. keeps P (removeMember id u org i)"
  shows "kept_by_all P"
proof -
  have "P (serve e r s)" if "P s" for e r s
    by (cases r) (simp_all only: serve.simps, (rule keepsD [where P = P and s = s, OF _ that], (rule keeps_as_user)?, rule assms)+)
  then show ?thesis by (simp add: kept_by_all_def)
qed

section \<open>Accounts only move forward\<close>

lemma keeps_delete_member: "keeps (advanced s0) (delete_member org i)"
  by (rule keepsI) (simp add: delete_member_def advanced_def)

lemma forward_team:
  "keeps (advanced s0) (invite e u org m r)" "keeps (advanced s0) (revokeInvitation u i)"
  "keeps (advanced s0) (accept_invitation e u k)" "keeps (advanced s0) (changeRole id u org i r)"
  "keeps (advanced s0) (removeMember id u org i)"
  unfolding invite_def Let_def revokeInvitation_def accept_invitation_def upsert_member_def changeRole_def
    removeMember_def assertNotLastOwner_def
  by (auto intro!: forward_intros keeps_modify keeps_delete_member)

lemma later_advanced:
  assumes "later s t"
  shows "advanced s t"
  by (rule later_keeps [OF assms]) (auto intro!: kept_by_allI forward_register forward_links forward_login forward_mfa forward_team)

section \<open>Well-formed accounts\<close>

definition identity_ok :: "identity_db \<Rightarrow> bool" where
  "identity_ok s \<longleftrightarrow> keyed us_id (us_rows s) \<and> keyed us_email (us_rows s) \<and>
     keyed (\<lambda>m. (mb_org m, mb_user m)) (mb_rows s)"

definition tables_ok :: "user_row list \<Rightarrow> member_row list \<Rightarrow> bool" where
  "tables_ok us ms \<longleftrightarrow> keyed us_id us \<and> keyed us_email us \<and> keyed (\<lambda>m. (mb_org m, mb_user m)) ms"

lemma identity_ok_tables: "identity_ok s = tables_ok (us_rows s) (mb_rows s)"
  by (simp add: identity_ok_def tables_ok_def)

lemma ok_set_users:
  assumes "\<And>u. us_id (g u) = us_id u" and "\<And>u. us_email (g u) = us_email u"
  shows "keeps identity_ok (setM us_rows us_rows_update p g)"
  by (rule keepsI) (simp add: setM_def identity_ok_def keyed_update_where assms)

lemma ok_set_members: "keeps identity_ok (setM mb_rows mb_rows_update p (\<lambda>m. m\<lparr>mb_role := r\<rparr>))"
  by (rule keepsI) (simp add: setM_def identity_ok_def keyed_update_where)

lemma ok_add_user: "keeps identity_ok (addM us_rows us_rows_update user_clash u)"
  by (rule keepsI) (auto simp: addM_def identity_ok_def keyed_append_one user_clash_def exists_by_iff)

lemma ok_add_member: "keeps identity_ok (addM mb_rows mb_rows_update member_clash m)"
  by (rule keepsI) (auto simp: addM_def identity_ok_def keyed_append_one member_clash_def exists_by_iff)

lemma ok_other:
  assumes "\<And>f t. us_rows (upd f t) = us_rows t" and "\<And>f t. mb_rows (upd f t) = mb_rows t"
  shows "keeps identity_ok (addM get upd clash r)" "keeps identity_ok (setM get upd p g)" "keeps identity_ok (dropM upd p)"
  using assms by (auto intro!: keepsI simp: addM_def setM_def dropM_def modifyM_def identity_ok_def)

lemma ok_draw: "keeps identity_ok drawM" and ok_note: "keeps identity_ok (noteM x)"
  by (auto intro!: keepsI simp: drawM_def noteM_def modifyM_def identity_ok_def)

lemma ok_delete: "keeps identity_ok (delete_member org i)"
  by (rule keepsI) (simp add: delete_member_def identity_ok_def keyed_delete_where)

lemma ok_advance: "keeps identity_ok (advance_counter i c)"
  by (rule keepsI) (simp add: advance_counter_def Let_def identity_ok_def keyed_update_where)

lemmas ok_other_tables =
  ok_other [of reset_links_update, simplified] ok_other [of verify_links_update, simplified]
  ok_other [of og_rows_update, simplified] ok_other [of nv_rows_update, simplified]

lemmas ok_intros = keeps_intros ok_other_tables ok_set_members ok_add_user ok_add_member ok_draw ok_note ok_delete
  ok_advance

lemma ok_kept: "kept_by_all identity_ok"
proof (rule kept_by_allI)
qed (unfold register_def enrol_def verifyEmail_def resendVerification_def forgotPassword_def resetPassword_def login_def
    changePassword_def mfa_setup_def mfa_enable_def mfa_disable_def invite_def revokeInvitation_def
    accept_invitation_def changeRole_def removeMember_def Let_def issueEmailVerification_def issue_link_def
    consume_link_def second_factor_def recordFailure_def clearFailures_def verifyLogin_def upsert_member_def
    assertNotLastOwner_def,
    (auto intro!: ok_intros ok_set_users keeps_modify simp: new_password_def split: option.split)+)

section \<open>Signing in\<close>

definition locked :: "identity_env \<Rightarrow> bool" where
  "locked e \<longleftrightarrow> (\<exists>n. en_failures e = Some n \<and> THROTTLE_LIMIT \<le> n)"

text \<open>The code of the request was made for the counter \<open>c\<close>, which is newer than the last
  one accepted from this account.\<close>

definition code_for :: "identity_env \<Rightarrow> user_row \<Rightarrow> string option \<Rightarrow> int \<Rightarrow> bool" where
  "code_for e u code c \<longleftrightarrow> (\<exists>cipher secret x. us_mfa_secret u = Some cipher \<and> code = Some x \<and> x \<noteq> '''' \<and>
     en_decrypt e cipher = Inr secret \<and> verifyTotpCounter (en_hmac e) secret x (en_now e) = Inr (Some c) \<and>
     newer_than c (us_last_counter u))"

definition protected :: "user_row \<Rightarrow> bool" where
  "protected u \<longleftrightarrow> us_mfa_enabled u \<and> us_mfa_secret u \<noteq> None"

lemma keyed_count:
  assumes "keyed k t" and "find_by (\<lambda>x. k x = i) t = Some r"
  shows "count_where (\<lambda>x. k x = i \<and> q x) t = (if q r then 1 else 0)"
  using assms
proof (induction t)
  case (Cons x t)
  show ?case
  proof (cases "k x = i")
    case True
    with Cons.prems have "\<not> exists_by (\<lambda>x. k x = i \<and> q x) t" by (auto simp: keyed_def exists_by_iff image_iff)
    with Cons.prems True show ?thesis by (auto simp: count_where_0)
  next
    case False
    with Cons show ?thesis by (simp add: keyed_def)
  qed
qed simp

definition counted :: "string \<Rightarrow> int \<Rightarrow> identity_db \<Rightarrow> identity_db" where
  "counted i c = us_rows_update (update_where (\<lambda>u. us_id u = i \<and> newer_than c (us_last_counter u)) (\<lambda>u. u\<lparr>us_last_counter := Some c\<rparr>))"

lemma second_factor_True:
  assumes "identity_ok s" and "find_by (by_user (us_id u)) (us_rows s) = Some u"
  shows "second_factor e u code s = (Inr True, t) \<longleftrightarrow>
    (if protected u then \<exists>c. code_for e u code c \<and> t = counted (us_id u) c s else t = s)"
proof -
  have "keyed us_id (us_rows s)" using assms(1) by (simp add: identity_ok_def)
  then have count: "count_where (\<lambda>x. us_id x = us_id u \<and> newer_than c (us_last_counter x)) (us_rows s) =
      (if newer_than c (us_last_counter u) then 1 else 0)" for c
    using keyed_count [of us_id "us_rows s" "us_id u" u] assms(2) by (simp add: by_user_def [abs_def])
  show ?thesis using assms(2)
    by (auto simp: second_factor_def protected_def verifyLogin_def code_for_def advance_counter_def counted_def
        count Let_def op_simps split: option.splits sum.splits if_splits)
qed

lemma keyed_find_by_user:
  assumes "identity_ok s" and "u \<in> set (us_rows s)"
  shows "find_by (by_user (us_id u)) (us_rows s) = Some u"
  using assms keyed_find [of us_id "us_rows s" u] by (simp add: identity_ok_def by_user_def [abs_def])

definition account :: "identity_db \<Rightarrow> login_dto \<Rightarrow> user_row option" where
  "account s d = find_by (\<lambda>u. us_email u = trim (to_lower (li_email d))) (us_rows s)"

lemma bindM_cong: "(\<And>a t. f a t = g a t) \<Longrightarrow> bindM m f s = bindM m g s"
  by (simp add: bindM_def split: prod.split sum.split)

lemma account_row:
  assumes "identity_ok s" and "account s d = Some u"
  shows "find_by (by_user (us_id u)) (us_rows s) = Some u"
  using assms keyed_find_by_user find_by_SomeD by (metis account_def)

definition failed_login :: "login_dto \<Rightarrow> string \<Rightarrow> identity_db \<Rightarrow> (exn + 'a) \<times> identity_db" where
  "failed_login d msg s =
     (Inl (unauthorized msg), id_effects_update (\<lambda>es. es @ [FailureCounted ''login'' (trim (to_lower (li_email d)))]) s)"

lemma login_no_account: "\<not> locked e \<Longrightarrow> account s d = None \<Longrightarrow> login e d s = failed_login d ''Invalid email or password'' s"
  by (simp add: login_def account_def locked_def assertNotLocked_def recordFailure_def failed_login_def Let_def op_simps
    split: option.split)

lemma login_locked: "locked e \<Longrightarrow> \<exists>x. login e d s = (Inl x, s)"
  by (auto simp: login_def locked_def assertNotLocked_def Let_def op_simps)

lemma login_bad_password:
  "\<not> locked e \<Longrightarrow> account s d = Some u \<Longrightarrow> \<not> (\<exists>h. us_password u = Some h \<and> en_check e (li_password d) h) \<Longrightarrow>
   login e d s = failed_login d ''Invalid email or password'' s"
  by (auto simp: login_def account_def locked_def assertNotLocked_def recordFailure_def failed_login_def password_ok_def
    Let_def op_simps split: option.split)

lemma login_password:
  assumes "\<not> locked e" "account s d = Some u" "us_password u = Some h" "en_check e (li_password d) h"
  shows "login e d s = bindM (second_factor e u (li_code d)) (\<lambda>valid s'.
    if \<not> valid then failed_login d ''MFA code required'' s'
    else (if us_verified u = None then Inl (ApiError EmailUnverified
            ''Please confirm your email address before signing in. Check your inbox or request a new confirmation link.'')
          else Inr (signed_in e u (primary s (us_id u))),
          id_effects_update (\<lambda>es. es @ [FailuresCleared ''login'' (trim (to_lower (li_email d)))]) s')) s"
  using assms
  by (auto simp: login_def account_def locked_def assertNotLocked_def recordFailure_def clearFailures_def failed_login_def
    password_ok_def Let_def op_simps intro!: bindM_cong split: option.split)

lemma login_Inr:
  "login e d s = (Inr r, t) \<longleftrightarrow> (\<exists>u h. account s d = Some u \<and> us_password u = Some h \<and> \<not> locked e \<and>
    en_check e (li_password d) h \<and> us_verified u \<noteq> None \<and> r = signed_in e u (primary s (us_id u)) \<and>
    (\<exists>s'. second_factor e u (li_code d) s = (Inr True, s') \<and>
      t = id_effects_update (\<lambda>es. es @ [FailuresCleared ''login'' (trim (to_lower (li_email d)))]) s'))"
proof (cases "\<exists>u h. account s d = Some u \<and> us_password u = Some h \<and> \<not> locked e \<and> en_check e (li_password d) h")
  case True
  then obtain u h where u: "account s d = Some u" "us_password u = Some h" "\<not> locked e" "en_check e (li_password d) h"
    by blast
  show ?thesis unfolding login_password [OF u(3,1,2,4)]
    using u by (auto simp: bindM_def failed_login_def split: prod.split sum.split)
next
  case False
  then show ?thesis using login_locked [of e d s] login_no_account [of e s d] login_bad_password [of e s d]
    by (cases "locked e"; cases "account s d") (auto simp: failed_login_def)
qed

text \<open>Who gets in: \<open>login\<close> answers with a session exactly when the account is not locked by
  failures, the address belongs to a user with that password, a protected account also gets a code made for a
  step newer than any it was given before, and the address is confirmed; the session carries that
  user's id and current epoch.\<close>

theorem signs_in_iff:
  assumes "identity_ok s"
  shows "fst (login e d s) = Inr r \<longleftrightarrow> (\<exists>u h. account s d = Some u \<and> \<not> locked e \<and> us_password u = Some h \<and>
    en_check e (li_password d) h \<and> (protected u \<longrightarrow> (\<exists>c. code_for e u (li_code d) c)) \<and>
    us_verified u \<noteq> None \<and> r = signed_in e u (primary s (us_id u)))"
proof -
  have "fst (login e d s) = Inr r \<longleftrightarrow> (\<exists>t. login e d s = (Inr r, t))"
    by (cases "login e d s") simp
  moreover have "(\<exists>t. second_factor e u (li_code d) s = (Inr True, t)) \<longleftrightarrow>
      (protected u \<longrightarrow> (\<exists>c. code_for e u (li_code d) c))" if "account s d = Some u" for u
    using second_factor_True [OF assms account_row [OF assms that]] by (cases "protected u") auto
  ultimately show ?thesis unfolding login_Inr by blast
qed

text \<open>C9: A one-time code is good once: between two sign-ins to the same protected account, whatever
  requests came in between, the step counter that the code was accepted for strictly increases, so the code of
  the first sign-in is never accepted for the same step again.\<close>

theorem code_accepted_once:
  assumes "identity_ok s1" and "login e1 d1 s1 = (Inr r1, s2)" and "later s2 s3" and "login e2 d2 s3 = (Inr r2, s4)"
    and "account s1 d1 = Some u1" and "protected u1" and "account s3 d2 = Some u2" and "protected u2"
    and "us_id u2 = us_id u1"
  shows "\<exists>c1 c2. code_for e1 u1 (li_code d1) c1 \<and> code_for e2 u2 (li_code d2) c2 \<and> c1 < c2"
proof -
  note row1 = account_row [OF assms(1,5)]
  have ok3: "identity_ok s3"
    using assms(1,2,3) keeps_result [of identity_ok "login e1 d1"] ok_kept later_keeps
    by (metis kept_by_all_def serve.simps(6) snd_conv)
  note row3 = account_row [OF ok3 assms(7)]
  obtain c1 where c1: "code_for e1 u1 (li_code d1) c1"
    and s2: "us_rows s2 = us_rows (counted (us_id u1) c1 s1)"
    using assms(2,5,6) second_factor_True [OF assms(1) row1] by (auto simp: login_Inr)
  obtain c2 where c2: "code_for e2 u2 (li_code d2) c2"
    using assms(4,7,8) second_factor_True [OF ok3 row3] by (auto simp: login_Inr)
  have "newer_than c1 (us_last_counter u1)" using c1 by (auto simp: code_for_def)
  then have "find_by (by_user (us_id u1)) (us_rows s2) = Some (u1\<lparr>us_last_counter := Some c1\<rparr>)"
    using row1 unfolding s2 counted_def by (simp add: find_by_update_where by_user_def [abs_def])
  with later_advanced [OF assms(3)] row3 assms(9) have "counter_le (Some c1) (us_last_counter u2)"
    by (fastforce simp: advanced_def onward_def)
  moreover have "newer_than c2 (us_last_counter u2)" using c2 by (auto simp: code_for_def)
  ultimately have "c1 < c2" by (auto simp: counter_le_def newer_than_def split: option.splits)
  with c1 c2 show ?thesis by blast
qed

section \<open>Sessions end with the password\<close>

definition password_replaced :: "identity_env \<Rightarrow> string \<Rightarrow> identity_db \<Rightarrow> identity_db \<Rightarrow> bool" where
  "password_replaced e i s t \<longleftrightarrow>
     (\<exists>p q. changePassword e i p q s = (Inr (), t)) \<or>
     (\<exists>k q l. find_by (by_hash (en_digest e k)) (reset_links s) = Some l \<and> lk_user l = i \<and> resetPassword e id k q s = (Inr (), t))"

lemma find_new_password:
  assumes "find_by (by_user i) (us_rows s) = Some u"
  shows "find_by (by_user i) (update_where (by_user i) (new_password e q) (us_rows s)) = Some (new_password e q u)"
  using assms by (subst find_by_update_where) (auto simp: by_user_def new_password_def dest: find_by_SomeD)

lemma replaced_epoch:
  assumes "password_replaced e i s t" and "find_by (by_user i) (us_rows s) = Some u"
  shows "\<exists>v. find_by (by_user i) (us_rows t) = Some v \<and> us_epoch v = us_epoch u + 1"
  using assms find_new_password [OF assms(2), of e]
  by (auto simp: password_replaced_def changePassword_def resetPassword_def consume_link_def op_simps transaction_Inr
      new_password_def setM_def dropM_def usable_def split: option.splits if_splits)

text \<open>C10: A password change ends every session that was opened before it: a token signed in to the account
  earlier is refused by the guard from the moment the password is changed or reset, after
  whatever requests follow.\<close>

theorem old_sessions_refused:
  assumes "identity_ok s0" and "login e0 d s0 = (Inr r, s1)" and "account s0 d = Some u" and "later s1 s2"
    and "password_replaced e1 (us_id u) s2 s3" and "later s3 s4"
    and "bearer h = Some (au_token r)" and "en_verify e (au_token r) = Some (session_of u)"
  shows "jwt_guard e (Some h) s4 = (Inl (unauthorized ''Session expired, please sign in again''), s4)"
proof -
  have "advanced s0 s1" using forward_login assms(2) by (metis keepsD advanced_refl snd_conv)
  with assms(4) have "advanced s0 s2" by (blast intro: advanced_trans later_advanced)
  with account_row [OF assms(1,3)] obtain u2 where u2: "find_by (by_user (us_id u)) (us_rows s2) = Some u2"
    "us_epoch u \<le> us_epoch u2" by (auto simp: advanced_def onward_def)
  obtain u3 where u3: "find_by (by_user (us_id u)) (us_rows s3) = Some u3" "us_epoch u3 = us_epoch u2 + 1"
    using replaced_epoch [OF assms(5) u2(1)] by blast
  obtain u4 where u4: "find_by (by_user (us_id u)) (us_rows s4) = Some u4" "us_epoch u3 \<le> us_epoch u4"
    using later_advanced [OF assms(6)] u3(1) by (auto simp: advanced_def onward_def)
  then show ?thesis using u2(2) u3(2) assms(7,8)
    by (simp add: jwt_guard_def op_simps session_of_def by_user_def [abs_def])
qed

section \<open>Links are used once\<close>

definition spent :: "string \<Rightarrow> identity_db \<Rightarrow> bool" where
  "spent h s \<longleftrightarrow> (\<exists>l. find_by (by_hash h) (reset_links s) = Some l \<and> lk_used l \<noteq> None)"

lemma find_by_delete_where: "find_by q t = Some r \<Longrightarrow> \<not> p r \<Longrightarrow> find_by q (delete_where p t) = Some r"
  by (induction t) (auto simp: delete_where_def split: if_splits)

lemma spent_rows: "reset_links s = reset_links t \<Longrightarrow> spent h s = spent h t"
  by (simp add: spent_def)

lemma spent_add: "keeps (spent h) (addM reset_links reset_links_update c l)"
  by (rule keepsI) (auto simp: addM_def spent_def find_by_append)

lemma spent_set: "keeps (spent h) (setM reset_links reset_links_update p (\<lambda>x. x\<lparr>lk_used := Some n\<rparr>))"
proof (rule keepsI)
  fix s assume "spent h s"
  then obtain l where "find_by (by_hash h) (reset_links s) = Some l" "lk_used l \<noteq> None" by (auto simp: spent_def)
  moreover from this have "find_by (by_hash h) (update_where p (\<lambda>x. x\<lparr>lk_used := Some n\<rparr>) (reset_links s)) =
      Some (if p l then l\<lparr>lk_used := Some n\<rparr> else l)"
    by (simp add: find_by_update_where by_hash_def [abs_def])
  ultimately show "spent h (snd (setM reset_links reset_links_update p (\<lambda>x. x\<lparr>lk_used := Some n\<rparr>) s))"
    by (simp add: setM_def spent_def)
qed

lemma spent_drop: "keeps (spent h) (dropM reset_links_update (outstanding i))"
  by (rule keepsI) (auto simp: dropM_def modifyM_def spent_def outstanding_def intro!: find_by_delete_where)

lemma spent_other:
  assumes "\<And>f t. reset_links (upd f t) = reset_links t"
  shows "keeps (spent h) (addM get upd clash r)" "keeps (spent h) (setM get upd p g)" "keeps (spent h) (dropM upd q)"
  using assms by (auto intro!: keepsI simp: addM_def setM_def dropM_def modifyM_def spent_def)

lemma spent_draw: "keeps (spent h) drawM" and spent_note: "keeps (spent h) (noteM x)"
  and spent_delete: "keeps (spent h) (delete_member org i)" and spent_advance: "keeps (spent h) (advance_counter i c)"
  by (auto intro!: keepsI simp: drawM_def noteM_def modifyM_def delete_member_def advance_counter_def Let_def spent_def)

lemmas spent_intros = keeps_intros spent_add spent_set spent_drop spent_draw spent_note spent_delete spent_advance
  spent_other [of us_rows_update, simplified] spent_other [of verify_links_update, simplified]
  spent_other [of og_rows_update, simplified] spent_other [of mb_rows_update, simplified]
  spent_other [of nv_rows_update, simplified]

lemmas handler_defs = register_def enrol_def verifyEmail_def resendVerification_def forgotPassword_def resetPassword_def login_def
  changePassword_def mfa_setup_def mfa_enable_def mfa_disable_def invite_def revokeInvitation_def
  accept_invitation_def changeRole_def removeMember_def Let_def issueEmailVerification_def issue_link_def
  consume_link_def second_factor_def recordFailure_def clearFailures_def verifyLogin_def upsert_member_def
  assertNotLastOwner_def

lemma spent_kept: "kept_by_all (spent h)"
proof (rule kept_by_allI)
qed (unfold handler_defs, (auto intro!: spent_intros keeps_modify split: option.split)+)

lemma reset_spends:
  assumes "resetPassword e id k q s = (Inr (), t)"
  shows "spent (en_digest e k) t"
proof -
  obtain l where l: "find_by (by_hash (en_digest e k)) (reset_links s) = Some l"
    and t: "reset_links t = delete_where (outstanding (lk_user l))
      (update_where (\<lambda>x. lk_id x = lk_id l) (\<lambda>x. x\<lparr>lk_used := Some (en_now e)\<rparr>) (reset_links s))"
    using assms by (auto simp: resetPassword_def consume_link_def op_simps transaction_Inr setM_def dropM_def usable_def
      split: option.splits if_splits)
  have "find_by (by_hash (en_digest e k)) (update_where (\<lambda>x. lk_id x = lk_id l) (\<lambda>x. x\<lparr>lk_used := Some (en_now e)\<rparr>)
      (reset_links s)) = Some (l\<lparr>lk_used := Some (en_now e)\<rparr>)"
    using l by (simp add: find_by_update_where by_hash_def [abs_def])
  then show ?thesis unfolding spent_def t by (auto simp: outstanding_def intro!: find_by_delete_where)
qed

text \<open>A reset link is used once: after it has set a password, no later request with it sets
  another, whatever came in between.\<close>

theorem reset_link_used_once:
  assumes "resetPassword e1 id k q1 s = (Inr (), t)" and "later t u" and "en_digest e2 k = en_digest e1 k"
  shows "\<exists>x. resetPassword e2 others k q2 u = (Inl x, u) \<and> http_status x = 400"
proof -
  have "spent (en_digest e2 k) u"
    using later_keeps [OF assms(2) spent_kept reset_spends [OF assms(1)]] assms(3) by simp
  then show ?thesis by (auto simp: resetPassword_def spent_def usable_def op_simps split: option.split)
qed

text \<open>Two requests that read the link before either commits both set a password.\<close>

theorem reset_link_raced:
  assumes "find_by (by_hash (en_digest e k)) (reset_links s) = Some l" and "usable e (Some l) = Some l"
    and "exists_by (by_user (lk_user l)) (us_rows s)" and "8 \<le> length q1" and "8 \<le> length q2"
  shows "fst (resetPassword e id k q1 s) = Inr () \<and>
    fst (resetPassword e (\<lambda>x. snd (resetPassword e id k q1 x)) k q2 s) = Inr ()"
proof -
  have l: "exists_by (\<lambda>x. lk_id x = lk_id l) (reset_links s)"
    using assms(1) by (auto simp: exists_by_iff dest: find_by_SomeD)
  let ?t = "delete_where (outstanding (lk_user l))
    (update_where (\<lambda>x. lk_id x = lk_id l) (\<lambda>x. x\<lparr>lk_used := Some (en_now e)\<rparr>) (reset_links s))"
  have "exists_by (\<lambda>x. lk_id x = lk_id l) ?t"
    using l by (induction "reset_links s") (auto simp: delete_where_def outstanding_def exists_by_iff update_where_def)
  moreover have "exists_by (by_user i) (update_where p (new_password e q) t) = exists_by (by_user i) t" for i p q t
    by (induction t) (auto simp: by_user_def new_password_def)
  ultimately show ?thesis using assms l
    by (simp add: resetPassword_def consume_link_def op_simps transaction_def setM_def dropM_def)
qed

section \<open>Who owns an organisation\<close>

definition caller :: "identity_env \<Rightarrow> string option \<Rightarrow> identity_db \<Rightarrow> string option" where
  "caller e h s = (case jwt_guard e h s of (Inl _, _) \<Rightarrow> None | (Inr u, _) \<Rightarrow> Some (user_id u))"

lemma as_user_cases:
  obtains (refused) "snd (as_user e h f s) = s"
  | (signed_in) u x where "caller e h s = Some (user_id u)" "u = current_user s x" "user_id u = us_id x" "as_user e h f s = f u s"
proof (cases "jwt_guard e h s")
  case (Pair a t)
  then have t: "t = s" using guard_reads [of e h s] by simp
  show ?thesis
  proof (cases a)
    case (Inl y)
    with Pair t have "snd (as_user e h f s) = s" by (simp add: as_user_def bindM_def)
    then show ?thesis by (rule refused)
  next
    case (Inr u)
    with Pair obtain x where "u = current_user s x"
      by (auto simp: jwt_guard_def op_simps split: option.splits if_splits)
    with Inr Pair t show ?thesis
      by (intro signed_in [of u x]) (simp_all add: caller_def as_user_def bindM_def current_user_def)
  qed
qed

lemma role_owns: "roleForOrg (current_user s x) org = Some Owner \<Longrightarrow> owns s org (us_id x)"
  by (auto simp: roleForOrg_def current_user_def owns_def member_of_def exists_by_iff dest!: find_by_SomeD) blast

lemma member_rows_kept:
  "keeps (\<lambda>t. Q (mb_rows t)) drawM" "keeps (\<lambda>t. Q (mb_rows t)) (noteM x)" "keeps (\<lambda>t. Q (mb_rows t)) (advance_counter i c)"
  by (auto intro!: keepsI simp: drawM_def noteM_def modifyM_def advance_counter_def Let_def)

lemma member_rows_other:
  assumes "\<And>f t. mb_rows (upd f t) = mb_rows t"
  shows "keeps (\<lambda>t. Q (mb_rows t)) (addM get upd clash r)" "keeps (\<lambda>t. Q (mb_rows t)) (setM get upd p g)"
    "keeps (\<lambda>t. Q (mb_rows t)) (dropM upd q)"
  using assms by (auto intro!: keepsI simp: addM_def setM_def dropM_def modifyM_def)

lemmas member_intros = keeps_intros member_rows_kept
  member_rows_other [of us_rows_update, simplified] member_rows_other [of verify_links_update, simplified]
  member_rows_other [of og_rows_update, simplified] member_rows_other [of reset_links_update, simplified]
  member_rows_other [of nv_rows_update, simplified]

text \<open>Only these four requests write memberships.\<close>

definition writes_members :: "identity_request \<Rightarrow> bool" where
  "writes_members r \<longleftrightarrow> (case r of
     Register _ \<Rightarrow> True | AcceptInvitation _ _ \<Rightarrow> True | ChangeRole _ _ _ _ \<Rightarrow> True | RemoveMember _ _ _ \<Rightarrow> True | _ \<Rightarrow> False)"

lemma members_same:
  assumes "\<not> writes_members r"
  shows "mb_rows (serve e r s) = mb_rows s"
proof -
  have "keeps (\<lambda>t. mb_rows t = mb_rows s) (verifyEmail e id k)" "keeps (\<lambda>t. mb_rows t = mb_rows s) (resendVerification e m)"
    "keeps (\<lambda>t. mb_rows t = mb_rows s) (forgotPassword e m)" "keeps (\<lambda>t. mb_rows t = mb_rows s) (resetPassword e id k p)"
    "keeps (\<lambda>t. mb_rows t = mb_rows s) (login e d)" "keeps (\<lambda>t. mb_rows t = mb_rows s) (changePassword e i p q)"
    "keeps (\<lambda>t. mb_rows t = mb_rows s) (mfa_setup e i)" "keeps (\<lambda>t. mb_rows t = mb_rows s) (mfa_enable e i c)"
    "keeps (\<lambda>t. mb_rows t = mb_rows s) (mfa_disable e i c)" "keeps (\<lambda>t. mb_rows t = mb_rows s) (invite e u org m ro)"
    "keeps (\<lambda>t. mb_rows t = mb_rows s) (revokeInvitation u i)" for k m p q d i c u org ro
    by (unfold handler_defs) (auto intro!: member_intros keeps_modify split: option.split)
  note this [THEN keepsD] this [THEN keeps_as_user, THEN keepsD]
  with assms show ?thesis by (cases r) (simp_all add: writes_members_def)
qed

lemma members_prefix: "keeps (\<lambda>t. Q (mb_rows t)) (issueEmailVerification e i m)"
  unfolding issueEmailVerification_def issue_link_def by (auto intro!: member_intros)

lemma members_after:
  assumes "\<And>a Q. keeps (\<lambda>t. Q (mb_rows t)) (f a)"
  shows "mb_rows (snd (bindM m f s)) = mb_rows (snd (m s))"
  using keepsD [OF assms [where Q = "\<lambda>x. x = mb_rows (snd (m s))"], of "snd (m s)"]
  by (auto simp: bindM_def split: prod.split sum.split)

lemma enrol_members:
  "mb_rows (snd (enrol e d m s)) = mb_rows s \<or>
   (\<exists>org i. mb_rows (snd (enrol e d m s)) = mb_rows s @ [\<lparr>mb_org = org, mb_user = i, mb_role = Owner\<rparr>] \<and>
     \<not> exists_by (\<lambda>g. og_id g = org) (og_rows s))"
  by (auto simp: enrol_def Let_def op_simps transaction_def organization_clash_def exists_by_iff)

lemma register_members:
  "mb_rows (snd (register e d s)) = mb_rows s \<or>
   (\<exists>org i. mb_rows (snd (register e d s)) = mb_rows s @ [\<lparr>mb_org = org, mb_user = i, mb_role = Owner\<rparr>] \<and>
     \<not> exists_by (\<lambda>g. og_id g = org) (og_rows s))"
  using enrol_members
  by (auto simp: register_def Let_def op_simps members_after keeps_seq members_prefix keeps_ret split: prod.split)

definition upserted :: "string \<Rightarrow> string \<Rightarrow> member_role \<Rightarrow> member_row list \<Rightarrow> member_row list" where
  "upserted org i role t =
     (if exists_by (member_of org i) t then update_where (member_of org i) (\<lambda>m. m\<lparr>mb_role := role\<rparr>) t
      else t @ [\<lparr>mb_org = org, mb_user = i, mb_role = role\<rparr>])"

lemma upsert_applied:
  "upsert_member org i role s = (Inr (), mb_rows_update (upserted org i role) s)"
proof -
  have "exists_by (member_clash \<lparr>mb_org = org, mb_user = i, mb_role = role\<rparr>) t = exists_by (member_of org i) t" for t
    by (auto simp: exists_by_iff member_clash_def member_of_def)
  then show ?thesis
    by (auto simp: upsert_member_def op_simps addM_def setM_def upserted_def exists_by_find intro!: arg_cong2 [of _ _ _ _ mb_rows_update])
qed

lemma accept_members:
  "mb_rows (snd (accept_invitation e u k s)) = mb_rows s \<or>
   (\<exists>inv x. inv \<in> set (nv_rows s) \<and> nv_token inv = k \<and> nv_status inv = ''pending'' \<and>
     find_by (by_user (user_id u)) (us_rows s) = Some x \<and> to_lower (us_email x) = nv_email inv \<and>
     mb_rows (snd (accept_invitation e u k s)) = upserted (nv_org inv) (user_id u) (nv_role inv) (mb_rows s))"
proof -
  have tx: "mb_rows (snd (bindM (transaction (seqM (upsert_member o' i ro) (setM nv_rows nv_rows_update p f))) (\<lambda>_. ret y) s)) \<in>
      {mb_rows s, upserted o' i ro (mb_rows s)}" for o' i ro p f and y :: "string \<times> string"
    by (auto simp: op_simps transaction_def bindM_def upsert_applied setM_def)
  show ?thesis
  proof (cases "\<exists>inv x. find_by (\<lambda>x. nv_token x = k) (nv_rows s) = Some inv \<and> nv_status inv = ''pending'' \<and>
      find_by (by_user (user_id u)) (us_rows s) = Some x \<and> to_lower (us_email x) = nv_email inv")
    case True
    then obtain inv x where inv: "find_by (\<lambda>x. nv_token x = k) (nv_rows s) = Some inv" "nv_status inv = ''pending''"
      "find_by (by_user (user_id u)) (us_rows s) = Some x" "to_lower (us_email x) = nv_email inv" by blast
    have "mb_rows (snd (accept_invitation e u k s)) \<in> {mb_rows s, upserted (nv_org inv) (user_id u) (nv_role inv) (mb_rows s)}"
      using tx [of "nv_org inv" "user_id u" "nv_role inv"] inv
      by (auto simp: accept_invitation_def bindM_one bindM_some bindM_guard seqM_apply)
    with inv find_by_SomeD [OF inv(1)] show ?thesis by blast
  qed (auto simp: accept_invitation_def bindM_one bindM_some bindM_guard seqM_apply split: option.splits)
qed

lemma count_where_pos: "count_where p t \<noteq> 0 \<longleftrightarrow> exists_by p t"
  by (simp add: count_where_0)

lemma bindM_last_owner:
  "bindM (assertNotLastOwner org i) f s =
     (if exists_by (other_owner org i) (mb_rows s) then f () s else (Inl (invalidRequest ''Cannot remove or demote the last owner''), s))"
  by (simp only: assertNotLastOwner_def op_simps count_where_pos)

lemma bindM_dropM:
  "bindM (delete_member org i) f s =
     (if exists_by (member_of org i) (mb_rows s) then f () (mb_rows_update (delete_where (member_of org i)) s) else (Inl P2025, s))"
  by (simp add: delete_member_def bindM_def)

lemma change_members:
  "mb_rows (snd (changeRole id u org i role s)) = mb_rows s \<or>
   (mb_rows (snd (changeRole id u org i role s)) = update_where (member_of org i) (\<lambda>m. m\<lparr>mb_role := role\<rparr>) (mb_rows s) \<and>
    (\<exists>m. find_by (member_of org i) (mb_rows s) = Some m \<and>
      (mb_role m = Owner \<and> role \<noteq> Owner \<longrightarrow> exists_by (other_owner org i) (mb_rows s))) \<and>
    (role = Owner \<longrightarrow> roleForOrg u org = Some Owner))"
  by (auto simp: changeRole_def assertCanAssignRole_def bindM_last_owner op_simps
      split: option.splits sum.splits if_splits)

lemma remove_members:
  "mb_rows (snd (removeMember id u org i s)) = mb_rows s \<or>
   (mb_rows (snd (removeMember id u org i s)) = delete_where (member_of org i) (mb_rows s) \<and>
    (\<exists>m. find_by (member_of org i) (mb_rows s) = Some m \<and>
      (mb_role m = Owner \<longrightarrow> exists_by (other_owner org i) (mb_rows s))))"
  by (auto simp: removeMember_def bindM_last_owner bindM_dropM op_simps split: option.splits sum.splits if_splits)

lemma other_member: "other_owner org i m \<Longrightarrow> \<not> member_of org i m"
  by (simp add: other_owner_def member_of_def)

text \<open>A write to the memberships of one user keeps an owner if another user is one, or this one was none.\<close>

lemma owner_kept:
  assumes "keyed (\<lambda>m. (mb_org m, mb_user m)) t" and "find_by (member_of org' i) t = Some m"
    and "exists_by (\<lambda>m. mb_org m = org \<and> mb_role m = Owner) t"
    and "mb_role m = Owner \<and> org' = org \<longrightarrow> exists_by (other_owner org i) t"
  obtains x where "x \<in> set t" "mb_org x = org" "mb_role x = Owner" "\<not> member_of org' i x"
proof -
  obtain y where y: "y \<in> set t" "mb_org y = org" "mb_role y = Owner" using assms(3) by (auto simp: exists_by_iff)
  show ?thesis
  proof (cases "member_of org' i y")
    case True
    then have "y = m" using keyed_unique [OF assms(1) y(1), of m] find_by_SomeD [OF assms(2)] by (simp add: member_of_def)
    with y True have "exists_by (other_owner org i) t" using assms(4) by (simp add: member_of_def)
    then obtain x where "x \<in> set t" "other_owner org i x" by (auto simp: exists_by_iff)
    then show ?thesis by (intro that [of x]) (auto simp: other_owner_def member_of_def)
  qed (use y that in blast)
qed

lemma owned_update:
  assumes "x \<in> set t" "mb_org x = org" "mb_role x = Owner" "\<not> p x"
  shows "exists_by (\<lambda>m. mb_org m = org \<and> mb_role m = Owner) (update_where p f t)"
    "exists_by (\<lambda>m. mb_org m = org \<and> mb_role m = Owner) (delete_where p t)"
  using assms by (force simp: exists_by_iff update_where_def delete_where_def)+

lemma owned_promote:
  "exists_by (\<lambda>m. mb_org m = org \<and> mb_role m = Owner) t \<Longrightarrow>
   exists_by (\<lambda>m. mb_org m = org \<and> mb_role m = Owner) (update_where p (\<lambda>m. m\<lparr>mb_role := Owner\<rparr>) t)"
  by (induction t) auto

lemma owned_change:
  assumes "identity_ok s" and "owned s org"
  shows "owned (snd (changeRole id u o' i ro s)) org"
proof (cases "mb_rows (snd (changeRole id u o' i ro s)) = mb_rows s")
  case False
  then obtain m where m: "mb_rows (snd (changeRole id u o' i ro s)) =
      update_where (member_of o' i) (\<lambda>m. m\<lparr>mb_role := ro\<rparr>) (mb_rows s)"
    "find_by (member_of o' i) (mb_rows s) = Some m"
    "mb_role m = Owner \<and> ro \<noteq> Owner \<longrightarrow> exists_by (other_owner o' i) (mb_rows s)"
    using change_members [of u o' i ro s] by auto
  show ?thesis
  proof (cases "ro = Owner")
    case True
    then show ?thesis using owned_promote assms(2) unfolding owned_def m(1) by blast
  next
    case False
    have key: "keyed (\<lambda>m. (mb_org m, mb_user m)) (mb_rows s)" using assms(1) by (simp add: identity_ok_def)
    obtain x where "x \<in> set (mb_rows s)" "mb_org x = org" "mb_role x = Owner" "\<not> member_of o' i x"
      using owner_kept [OF key m(2) assms(2) [unfolded owned_def]] m(3) False by blast
    then show ?thesis unfolding owned_def m(1) by (rule owned_update(1))
  qed
qed (use assms(2) in \<open>simp add: owned_def\<close>)

lemma owned_remove:
  assumes "identity_ok s" and "owned s org"
  shows "owned (snd (removeMember id u o' i s)) org"
proof (cases "mb_rows (snd (removeMember id u o' i s)) = mb_rows s")
  case False
  then obtain m where m: "mb_rows (snd (removeMember id u o' i s)) = delete_where (member_of o' i) (mb_rows s)"
    "find_by (member_of o' i) (mb_rows s) = Some m" "mb_role m = Owner \<longrightarrow> exists_by (other_owner o' i) (mb_rows s)"
    using remove_members [of u o' i s] by auto
  have key: "keyed (\<lambda>m. (mb_org m, mb_user m)) (mb_rows s)" using assms(1) by (simp add: identity_ok_def)
  obtain x where "x \<in> set (mb_rows s)" "mb_org x = org" "mb_role x = Owner" "\<not> member_of o' i x"
    using owner_kept [OF key m(2) assms(2) [unfolded owned_def]] m(3) by blast
  then show ?thesis unfolding owned_def m(1) by (rule owned_update(2))
qed (use assms(2) in \<open>simp add: owned_def\<close>)

lemma owned_accept:
  assumes "owned s org"
  shows "owned (snd (accept_invitation e u k s)) org \<or> owns s org (user_id u) \<and>
    (\<exists>inv. inv \<in> set (nv_rows s) \<and> nv_token inv = k \<and> nv_org inv = org \<and> nv_role inv \<noteq> Owner)"
proof (cases "owned (snd (accept_invitation e u k s)) org")
  case False
  then have "mb_rows (snd (accept_invitation e u k s)) \<noteq> mb_rows s" using assms by (auto simp: owned_def)
  then obtain inv where inv: "inv \<in> set (nv_rows s)" "nv_token inv = k"
    "mb_rows (snd (accept_invitation e u k s)) = upserted (nv_org inv) (user_id u) (nv_role inv) (mb_rows s)"
    using accept_members [of e u k s] by auto
  obtain y where y: "y \<in> set (mb_rows s)" "mb_org y = org" "mb_role y = Owner"
    using assms by (auto simp: owned_def exists_by_iff)
  have "member_of (nv_org inv) (user_id u) y"
    using False y owned_update(1) [OF y, of "member_of (nv_org inv) (user_id u)"]
    unfolding owned_def inv(3) by (auto simp: upserted_def exists_by_iff split: if_splits)
  moreover have "nv_role inv \<noteq> Owner"
    using False owned_promote [of org "mb_rows s"] assms unfolding owned_def inv(3)
    by (auto simp: upserted_def split: if_splits)
  ultimately show ?thesis using y inv by (auto simp: owns_def exists_by_iff member_of_def)
qed simp

lemma owned_register: "owned s org \<Longrightarrow> owned (snd (register e d s)) org"
  using register_members [of e d s] by (auto simp: owned_def)


section \<open>Who may grant ownership\<close>

definition uninvited :: "string \<Rightarrow> string \<Rightarrow> identity_db \<Rightarrow> bool" where
  "uninvited org m s \<longleftrightarrow> \<not> owner_invited s org m"

lemma uninvited_set_status: "keeps (uninvited org m) (setM nv_rows nv_rows_update p (\<lambda>x. x\<lparr>nv_status := st\<rparr>))"
proof (rule keepsI)
  fix s assume "uninvited org m s"
  moreover have "exists_by (\<lambda>i. nv_org i = org \<and> nv_email i = m \<and> nv_role i = Owner)
      (update_where p (\<lambda>x. x\<lparr>nv_status := st\<rparr>) t) =
    exists_by (\<lambda>i. nv_org i = org \<and> nv_email i = m \<and> nv_role i = Owner) t" for t
    by (induction t) auto
  ultimately show "uninvited org m (snd (setM nv_rows nv_rows_update p (\<lambda>x. x\<lparr>nv_status := st\<rparr>) s))"
    by (simp add: setM_def uninvited_def owner_invited_def)
qed

lemma uninvited_other:
  assumes "\<And>f t. nv_rows (upd f t) = nv_rows t"
  shows "keeps (uninvited org m) (addM get upd clash r)" "keeps (uninvited org m) (setM get upd p g)"
    "keeps (uninvited org m) (dropM upd q)"
  using assms by (auto intro!: keepsI simp: addM_def setM_def dropM_def modifyM_def uninvited_def owner_invited_def)

lemma uninvited_rest: "keeps (uninvited org m) drawM" "keeps (uninvited org m) (noteM x)"
  "keeps (uninvited org m) (delete_member o' i)" "keeps (uninvited org m) (advance_counter i c)"
  by (auto intro!: keepsI simp: drawM_def noteM_def modifyM_def delete_member_def advance_counter_def Let_def uninvited_def
    owner_invited_def)

lemmas uninvited_intros = keeps_intros uninvited_set_status uninvited_rest
  uninvited_other [of us_rows_update, simplified] uninvited_other [of verify_links_update, simplified]
  uninvited_other [of og_rows_update, simplified] uninvited_other [of mb_rows_update, simplified]
  uninvited_other [of reset_links_update, simplified]

lemma invited_same:
  assumes "\<not> (\<exists>h o' m' ro. r = Invite h o' m' ro)" and "\<not> owner_invited s org m"
  shows "\<not> owner_invited (serve e r s) org m"
proof -
  have "keeps (uninvited org m) (verifyEmail e id k)" "keeps (uninvited org m) (resendVerification e a)"
    "keeps (uninvited org m) (forgotPassword e a)" "keeps (uninvited org m) (resetPassword e id k p)"
    "keeps (uninvited org m) (login e d)" "keeps (uninvited org m) (changePassword e i p q)"
    "keeps (uninvited org m) (mfa_setup e i)" "keeps (uninvited org m) (mfa_enable e i c)"
    "keeps (uninvited org m) (mfa_disable e i c)" "keeps (uninvited org m) (register e g)"
    "keeps (uninvited org m) (revokeInvitation u i)" "keeps (uninvited org m) (accept_invitation e u k)"
    "keeps (uninvited org m) (changeRole id u o' i ro)" "keeps (uninvited org m) (removeMember id u o' i)"
    for k a p q d i c u o' ro g
    by (unfold handler_defs) (auto intro!: uninvited_intros keeps_modify split: option.split)
  note this [THEN keepsD, unfolded uninvited_def] this [THEN keeps_as_user, THEN keepsD, unfolded uninvited_def]
  with assms show ?thesis by (cases r) simp_all
qed

lemma invite_owner:
  assumes "owner_invited (snd (invite e u o' m' ro s)) org m" and "\<not> owner_invited s org m"
  shows "o' = org \<and> ro = Owner \<and> m = trim (to_lower m') \<and> roleForOrg u org = Some Owner"
proof -
  have "ro = Owner \<Longrightarrow> roleForOrg u o' \<noteq> Some Owner \<Longrightarrow> nv_rows (snd (invite e u o' m' ro s)) = nv_rows s"
    by (auto simp: invite_def assertCanAssignRole_def Let_def op_simps split: sum.splits)
  moreover have "nv_rows (snd (invite e u o' m' ro s)) = nv_rows s \<or>
      (\<exists>x. nv_rows (snd (invite e u o' m' ro s)) = nv_rows s @ [x] \<and> nv_org x = o' \<and> nv_email x = trim (to_lower m') \<and> nv_role x = ro)"
    by (auto simp: invite_def Let_def op_simps split: sum.splits)
  ultimately show ?thesis using assms by (cases "roleForOrg u o' = Some Owner") (auto simp: owner_invited_def)
qed

lemma owns_upserted:
  assumes "exists_by (\<lambda>m. member_of org i m \<and> mb_role m = Owner) (upserted o' j ro t)"
    and "\<not> exists_by (\<lambda>m. member_of org i m \<and> mb_role m = Owner) t"
  shows "o' = org \<and> j = i \<and> ro = Owner"
  using assms by (auto simp: upserted_def exists_by_iff update_where_def member_of_def split: if_splits)

lemma owner_granted:
  assumes own: "owns (serve e r s) org i" "\<not> owns s org i"
  shows "(\<exists>d. r = Register d \<and> \<not> exists_by (\<lambda>g. og_id g = org) (og_rows s)) \<or>
     (\<exists>h j. r = ChangeRole h org i Owner \<and> caller e h s = Some j \<and> owns s org j) \<or>
     (\<exists>h k x. r = AcceptInvitation h k \<and> caller e h s = Some i \<and> find_by (by_user i) (us_rows s) = Some x \<and>
       owner_invited s org (to_lower (us_email x)))"
proof (cases "writes_members r")
  case False
  then show ?thesis using own members_same [OF False] by (simp add: owns_def)
next
  case True
  show ?thesis
  proof (cases r)
    case (Register d)
    then show ?thesis using own register_members [of e d s] by (auto simp: owns_def member_of_def)
  next
    case (ChangeRole h o' j ro)
    from as_user_cases [of e h "\<lambda>u. changeRole id u o' j ro" s] show ?thesis
    proof cases
      case (signed_in u x)
      have t: "serve e r s = snd (changeRole id u o' j ro s)" using signed_in(4) ChangeRole by simp
      from own have "mb_rows (serve e r s) \<noteq> mb_rows s" by (auto simp: owns_def)
      then have rows: "mb_rows (serve e r s) = upserted o' j ro (mb_rows s)" "ro = Owner \<longrightarrow> roleForOrg u o' = Some Owner"
        using change_members [of u o' j ro s] unfolding t by (auto simp: upserted_def exists_by_find)
      with own have "o' = org \<and> j = i \<and> ro = Owner"
        using owns_upserted [of org i o' j ro "mb_rows s"] by (simp add: owns_def)
      then show ?thesis using ChangeRole signed_in(1-3) rows(2) role_owns [of s x org] by auto
    qed (use own ChangeRole in simp)
  next
    case (RemoveMember h o' j)
    from as_user_cases [of e h "\<lambda>u. removeMember id u o' j" s] show ?thesis
    proof cases
      case (signed_in u x)
      then show ?thesis using own RemoveMember remove_members [of u o' j s]
        by (auto simp: owns_def exists_by_iff delete_where_def)
    qed (use own RemoveMember in simp)
  next
    case (AcceptInvitation h k)
    from as_user_cases [of e h "\<lambda>u. accept_invitation e u k" s] show ?thesis
    proof cases
      case (signed_in u x)
      have t: "serve e r s = snd (accept_invitation e u k s)" using signed_in(4) AcceptInvitation by simp
      from own have "mb_rows (serve e r s) \<noteq> mb_rows s" by (auto simp: owns_def)
      then obtain inv y where inv: "inv \<in> set (nv_rows s)" "find_by (by_user (user_id u)) (us_rows s) = Some y"
        "to_lower (us_email y) = nv_email inv"
        "mb_rows (serve e r s) = upserted (nv_org inv) (user_id u) (nv_role inv) (mb_rows s)"
        using accept_members [of e u k s] unfolding t by blast
      with own have "nv_org inv = org \<and> user_id u = i \<and> nv_role inv = Owner"
        using owns_upserted [of org i "nv_org inv" "user_id u" "nv_role inv" "mb_rows s"] by (simp add: owns_def)
      then show ?thesis using AcceptInvitation signed_in(1) inv by (auto simp: owner_invited_def exists_by_iff)
    qed (use own AcceptInvitation in simp)
  qed (use True in \<open>simp_all add: writes_members_def\<close>)
qed

lemma invitation_granted:
  assumes inv: "owner_invited (serve e r s) org m" "\<not> owner_invited s org m"
  shows "\<exists>h m' j. r = Invite h org m' Owner \<and> m = trim (to_lower m') \<and> caller e h s = Some j \<and> owns s org j"
proof -
  from inv obtain h o' m' ro where r: "r = Invite h o' m' ro" using invited_same by blast
  from as_user_cases [of e h "\<lambda>u. invite e u o' m' ro" s]
  show ?thesis
  proof cases
    case (signed_in u x)
    then show ?thesis using inv r invite_owner [of e u o' m' ro s org m] role_owns [of s x org] by auto
  qed (use inv r in simp)
qed

text \<open>Ownership comes from owners: a user becomes an owner of an organisation only by
  registering it, by an owner of it changing their role, or by accepting a pending owner invitation to their own
  address; and an owner invitation is only ever written for an owner of the organisation.\<close>

theorem ownership_granted:
  "(owns (serve e r s) org i \<longrightarrow> owns s org i \<or>
     (\<exists>d. r = Register d \<and> \<not> exists_by (\<lambda>g. og_id g = org) (og_rows s)) \<or>
     (\<exists>h j. r = ChangeRole h org i Owner \<and> caller e h s = Some j \<and> owns s org j) \<or>
     (\<exists>h k x. r = AcceptInvitation h k \<and> caller e h s = Some i \<and> find_by (by_user i) (us_rows s) = Some x \<and>
       owner_invited s org (to_lower (us_email x)))) \<and>
   (owner_invited (serve e r s) org m \<longrightarrow> owner_invited s org m \<or>
     (\<exists>h m' j. r = Invite h org m' Owner \<and> m = trim (to_lower m') \<and> caller e h s = Some j \<and> owns s org j))"
  using owner_granted [of e r s org i] invitation_granted [of e r s org m] by blast

section \<open>Instances\<close>

text \<open>A user with a second factor, whose code at a step is the step itself, and her organisation.\<close>

definition toy_hmac :: "byte list \<Rightarrow> byte list \<Rightarrow> byte list" where
  "toy_hmac k m = [0, 0, 0, last m] @ replicate 16 0"

definition toy_env :: "int \<Rightarrow> identity_env" where
  "toy_env now =
     \<lparr>en_now = now, en_hash = (\<lambda>p. ''h:'' @ p), en_check = (\<lambda>p h. h = ''h:'' @ p), en_digest = (\<lambda>k. ''d:'' @ k),
      en_encrypt = (\<lambda>x. x), en_decrypt = Inr, en_hmac = toy_hmac, en_random = [1], en_sign = (\<lambda>x. se_sub x),
      en_verify = (\<lambda>k. if k = ''u1'' then Some \<lparr>se_sub = ''u1'', se_email = ''a@b.kh'', se_epoch = Some 0\<rparr> else None),
      en_failures = None, en_base = ''''\<rparr>"

definition toy_user :: user_row where
  "toy_user = \<lparr>us_id = ''u1'', us_email = ''a@b.kh'', us_password = Some ''h:password'', us_name = None, us_mfa_enabled = True,
     us_mfa_secret = Some ''AA'', us_last_counter = None, us_admin = False, us_verified = Some 0, us_epoch = 0\<rparr>"

definition toy_link :: link_row where
  "toy_link = \<lparr>lk_id = ''prt_1'', lk_user = ''u1'', lk_hash = ''d:k'', lk_expires = 1000000, lk_used = None\<rparr>"

definition toy_invitation :: invitation_row where
  "toy_invitation = \<lparr>nv_id = ''i1'', nv_org = ''org'', nv_email = ''a@b.kh'', nv_role = Analyst, nv_token = ''inv_1'',
     nv_status = ''pending'', nv_inviter = ''u0'', nv_expires = 1000000\<rparr>"

definition toy_db :: identity_db where
  "toy_db = \<lparr>us_rows = [toy_user], reset_links = [toy_link], verify_links = [], og_rows = [\<lparr>og_id = ''org'', og_name = ''O''\<rparr>],
     mb_rows = [\<lparr>mb_org = ''org'', mb_user = ''u1'', mb_role = Owner\<rparr>], nv_rows = [toy_invitation], id_rnd = (\<lambda>n. ''r''),
     id_draws = 0, id_effects = []\<rparr>"

definition toy_login :: "string \<Rightarrow> login_dto" where
  "toy_login code = \<lparr>li_email = ''A@b.kh '', li_password = ''password'', li_code = Some code\<rparr>"

lemma toy_ok: "identity_ok toy_db"
  by (simp add: identity_ok_def toy_db_def keyed_def)

lemma toy_signs_in: "fst (login (toy_env 60000) (toy_login ''000002'') toy_db) = Inr (signed_in (toy_env 60000) toy_user (''org'', ''O''))"
  by code_simp

definition toy_after :: identity_db where
  "toy_after = serve (toy_env 60000) (Login (toy_login ''000002'')) toy_db"

lemma toy_signs_in_again:
  "fst (login (toy_env 90000) (toy_login ''000003'') toy_after) =
     Inr (signed_in (toy_env 90000) (toy_user\<lparr>us_last_counter := Some 2\<rparr>) (''org'', ''O''))"
  by code_simp

text \<open>The same code again is refused.\<close>

lemma toy_replay: "fst (login (toy_env 60000) (toy_login ''000002'') toy_after) = Inl (unauthorized ''MFA code required'')"
  by code_simp

text \<open>The tables a request of the instance leaves, at the time it is made.\<close>

definition toy_reset :: "identity_env \<Rightarrow> identity_db \<Rightarrow> identity_db" where
  "toy_reset e s = serve e (ResetPassword ''k'' ''new password'') s"

theorem signs_in_iff_witness:
  "\<exists>u h. account toy_db (toy_login ''000002'') = Some u \<and> us_password u = Some h \<and>
     (protected u \<longrightarrow> (\<exists>c. code_for (toy_env 60000) u (li_code (toy_login ''000002'')) c)) \<and> us_verified u \<noteq> None"
  using signs_in_iff [OF toy_ok, THEN iffD1, OF toy_signs_in] by blast

lemma toy_login_pair: "login (toy_env 60000) (toy_login ''000002'') toy_db =
    (Inr (signed_in (toy_env 60000) toy_user (''org'', ''O'')), toy_after)"
  using toy_signs_in by (simp add: toy_after_def prod_eq_iff)

lemma toy_account: "account toy_db (toy_login ''000002'') = Some toy_user \<and> protected toy_user \<and>
    account toy_after (toy_login ''000003'') = Some (toy_user\<lparr>us_last_counter := Some 2\<rparr>) \<and>
    protected (toy_user\<lparr>us_last_counter := Some 2\<rparr>) \<and> us_id (toy_user\<lparr>us_last_counter := Some 2\<rparr>) = us_id toy_user"
  by code_simp

theorem code_accepted_once_witness:
  "\<exists>c1 c2. code_for (toy_env 60000) toy_user (Some ''000002'') c1 \<and>
     code_for (toy_env 90000) (toy_user\<lparr>us_last_counter := Some 2\<rparr>) (Some ''000003'') c2 \<and> c1 < c2"
proof -
  obtain t where t: "login (toy_env 90000) (toy_login ''000003'') toy_after =
      (Inr (signed_in (toy_env 90000) (toy_user\<lparr>us_last_counter := Some 2\<rparr>) (''org'', ''O'')), t)"
    using toy_signs_in_again by (cases "login (toy_env 90000) (toy_login ''000003'') toy_after") simp
  show ?thesis
    using code_accepted_once [OF toy_ok toy_login_pair later.same t] toy_account by (simp add: toy_login_def)
qed

lemma toy_reset_done: "fst (resetPassword (toy_env 60000) id ''k'' ''new password'' toy_after) = Inr () \<and>
    find_by (by_hash (en_digest (toy_env 60000) ''k'')) (reset_links toy_after) = Some toy_link \<and> lk_user toy_link = us_id toy_user \<and>
    bearer ''Bearer u1'' = Some (au_token (signed_in (toy_env 60000) toy_user (''org'', ''O''))) \<and>
    en_verify (toy_env 90000) (au_token (signed_in (toy_env 60000) toy_user (''org'', ''O''))) = Some (session_of toy_user)"
  by code_simp

theorem old_sessions_refused_witness:
  "jwt_guard (toy_env 90000) (Some ''Bearer u1'') (toy_reset (toy_env 60000) toy_after) =
     (Inl (unauthorized ''Session expired, please sign in again''), toy_reset (toy_env 60000) toy_after)"
proof -
  have "resetPassword (toy_env 60000) id ''k'' ''new password'' toy_after = (Inr (), toy_reset (toy_env 60000) toy_after)"
    using toy_reset_done by (simp add: toy_reset_def prod_eq_iff)
  then have "password_replaced (toy_env 60000) (us_id toy_user) toy_after (toy_reset (toy_env 60000) toy_after)"
    using toy_reset_done by (auto simp: password_replaced_def)
  then show ?thesis
    using old_sessions_refused [OF toy_ok toy_login_pair _ later.same _ later.same] toy_account toy_reset_done by blast
qed

theorem reset_link_used_once_witness:
  "\<exists>x. resetPassword (toy_env 90000) id ''k'' ''another one'' (toy_reset (toy_env 60000) toy_after) =
     (Inl x, toy_reset (toy_env 60000) toy_after) \<and> http_status x = 400"
  by (rule reset_link_used_once [OF _ later.same, of "toy_env 60000" "''k''" "''new password''" toy_after])
    (use toy_reset_done in \<open>simp_all add: toy_reset_def prod_eq_iff toy_env_def\<close>)

theorem reset_link_raced_witness:
  "fst (resetPassword (toy_env 60000) (\<lambda>x. snd (resetPassword (toy_env 60000) id ''k'' ''mine mine'' x)) ''k'' ''yours yours'' toy_db) = Inr ()"
  using reset_link_raced [of "toy_env 60000" "''k''" toy_db toy_link "''mine mine''" "''yours yours''"]
  by (simp add: toy_env_def toy_db_def toy_link_def toy_user_def by_hash_def by_user_def usable_def)


text \<open>The exception is real: the only owner accepts an analyst's invitation, and nobody owns the
  organisation any more.\<close>

lemma owner_lost_by_invitation:
  "owned toy_db ''org'' \<and> \<not> owned (serve (toy_env 60000) (AcceptInvitation (Some ''Bearer u1'') ''inv_1'') toy_db) ''org''"
  by code_simp

text \<open>Two owners who demote each other at once both succeed: each check sees the other.\<close>

definition two_owners :: identity_db where
  "two_owners = toy_db\<lparr>mb_rows := [\<lparr>mb_org = ''org'', mb_user = ''u1'', mb_role = Owner\<rparr>, \<lparr>mb_org = ''org'', mb_user = ''u2'', mb_role = Owner\<rparr>]\<rparr>"

definition owner_of :: "string \<Rightarrow> auth_user" where
  "owner_of i = \<lparr>user_id = i, user_email = i, memberships = [\<lparr>m_org = ''org'', m_role = Owner\<rparr>]\<rparr>"

lemma owners_demote_each_other:
  "\<not> owned (snd (changeRole (\<lambda>s. snd (changeRole id (owner_of ''u1'') ''org'' ''u2'' Analyst s)) (owner_of ''u2'') ''org'' ''u1'' Analyst two_owners)) ''org''"
  by code_simp

text \<open>An owner makes another member an owner.\<close>

definition promoting :: identity_db where
  "promoting = toy_db\<lparr>mb_rows := [\<lparr>mb_org = ''org'', mb_user = ''u1'', mb_role = Owner\<rparr>, \<lparr>mb_org = ''org'', mb_user = ''u2'', mb_role = Analyst\<rparr>]\<rparr>"

definition promotion :: identity_request where
  "promotion = ChangeRole (Some ''Bearer u1'') ''org'' ''u2'' Owner"

lemma promoted: "owns (serve (toy_env 0) promotion promoting) ''org'' ''u2'' \<and> \<not> owns promoting ''org'' ''u2''"
  by code_simp

theorem ownership_granted_witness:
  "\<exists>j. caller (toy_env 0) (Some ''Bearer u1'') promoting = Some j \<and> owns promoting ''org'' j"
  using ownership_granted [of "toy_env 0" promotion promoting "''org''" "''u2''"] promoted by (auto simp: promotion_def)

end
