(* ===== verification/ApiKeys.thy ===== *)
theory ApiKeys
  imports Payments Identity
begin

text \<open>
  API keys: \<open>packages/security/src/apiKeys.ts\<close>, the guard of the public API
  (\<open>auth/api-key.guard.ts\<close>), their administration (\<open>api-keys.service.ts\<close>) and the
  policy check of \<open>access/access.service.ts\<close>. SHA-256 is the argument \<open>digest\<close>.
\<close>

section \<open>Keys\<close>

definition key_prefix :: "key_mode \<Rightarrow> string" where
  "key_prefix m = (case m of TestMode \<Rightarrow> ''bk_test_'' | LiveMode \<Rightarrow> ''bk_live_'')"

record generated_key =
  gk_token :: string
  gk_hash :: string
  gk_display :: string
  gk_last4 :: string
  gk_mode :: key_mode

definition last_chars :: "nat \<Rightarrow> string \<Rightarrow> string" where
  "last_chars n s = drop (length s - n) s"

definition generateApiKey :: "(string \<Rightarrow> string) \<Rightarrow> string \<Rightarrow> key_mode \<Rightarrow> generated_key" where
  "generateApiKey digest secret m =
     (let token = key_prefix m @ secret in
      \<lparr>gk_token = token, gk_hash = digest token, gk_display = key_prefix m @ take 4 secret, gk_last4 = last_chars 4 secret, gk_mode = m\<rparr>)"

definition apiKeyMode :: "string \<Rightarrow> key_mode option" where
  "apiKeyMode token =
     (if take 8 token = key_prefix LiveMode then Some LiveMode
      else if take 8 token = key_prefix TestMode then Some TestMode else None)"

record key_row =
  ky_id :: string
  ky_store :: string
  ky_mode :: key_mode
  ky_label :: "string option"
  ky_hash :: string
  ky_display :: string
  ky_last4 :: string
  ky_scopes :: "string list"
  ky_used :: "int option"
  ky_revoked :: "int option"

record key_db =
  ky_rows :: "key_row list"
  ky_stores :: "(string \<times> string) list"
  ky_mfa :: "string \<Rightarrow> bool"
  ky_rnd :: "nat \<Rightarrow> string"
  ky_draws :: nat

type_synonym 'a key_op = "(key_db, exn, 'a) op"

definition key_clash :: "key_row \<Rightarrow> key_row \<Rightarrow> bool" where
  "key_clash a b \<longleftrightarrow> ky_id a = ky_id b \<or> ky_hash a = ky_hash b"

definition find_key :: "(key_row \<Rightarrow> bool) \<Rightarrow> key_row option key_op" where
  "find_key p = getsM (\<lambda>s. find_by p (ky_rows s))"

definition set_key :: "string \<Rightarrow> (key_row \<Rightarrow> key_row) \<Rightarrow> unit key_op" where
  "set_key i f s =
     (if exists_by (\<lambda>k. ky_id k = i) (ky_rows s) then (Inr (), ky_rows_update (update_where (\<lambda>k. ky_id k = i) f) s)
      else (Inl P2025, s))"

definition add_key :: "key_row \<Rightarrow> unit key_op" where
  "add_key k s =
     (if exists_by (key_clash k) (ky_rows s) then (Inl P2002, s) else (Inr (), ky_rows_update (\<lambda>t. t @ [k]) s))"

definition draw_key :: "string key_op" where
  "draw_key s = (Inr (ky_rnd s (ky_draws s)), s\<lparr>ky_draws := Suc (ky_draws s)\<rparr>)"

definition either :: "exn + 'a \<Rightarrow> 'a key_op" where
  "either r s = (r, s)"

section \<open>The guard of the public API\<close>

definition storeOrgId :: "string \<Rightarrow> string key_op" where
  "storeOrgId i =
     bindM (getsM (\<lambda>s. find_by (\<lambda>x. fst x = i) (ky_stores s))) (\<lambda>store.
     bindM (someM (paymentNotFound ''Store not found'') store) (\<lambda>x. ret (snd x)))"

text \<open>The write of \<open>lastUsedAt\<close> is not awaited and its failure ignored.\<close>

definition touch_key :: "int \<Rightarrow> key_row \<Rightarrow> unit key_op" where
  "touch_key now k =
     (if (case ky_used k of None \<Rightarrow> True | Some t \<Rightarrow> 60000 < now - t)
      then catchM (set_key (ky_id k) (\<lambda>k. k\<lparr>ky_used := Some now\<rparr>)) (\<lambda>_. ret ()) else ret ())"

definition key_guard :: "(string \<Rightarrow> string) \<Rightarrow> int \<Rightarrow> string option \<Rightarrow> api_key_ctx key_op" where
  "key_guard digest now header =
     bindM (someM (unauthorized ''Provide an API key: Authorization: Bearer bk_live_...'')
       (bearer (case header of None \<Rightarrow> [] | Some h \<Rightarrow> h))) (\<lambda>capture.
     let token = trim capture in
     seqM (guardM (apiKeyMode token \<noteq> None) (unauthorized ''Malformed API key''))
     (bindM (find_key (\<lambda>k. ky_hash k = digest token)) (\<lambda>found.
      bindM (someM (unauthorized ''Invalid or revoked API key'')
        (case found of None \<Rightarrow> None | Some k \<Rightarrow> if ky_revoked k \<noteq> None then None else Some k)) (\<lambda>k.
      bindM (storeOrgId (ky_store k)) (\<lambda>org.
      seqM (touch_key now k)
        (ret \<lparr>ax_key = ky_id k, ax_store = ky_store k, ax_org = org, ax_mode = ky_mode k\<rparr>))))))"

section \<open>Administration\<close>

definition enforce :: "auth_user \<Rightarrow> string \<Rightarrow> string \<Rightarrow> abac_resource \<Rightarrow> unit key_op" where
  "enforce user org action resource =
     bindM (getsM (\<lambda>s. ky_mfa s (user_id user))) (\<lambda>mfa.
     case evaluate \<lparr>a_subject = \<lparr>s_user = user_id user, s_role = roleForOrg user org, s_mfa = mfa\<rparr>,
         a_action = action, a_resource = resource\<rparr> of
       Allow \<Rightarrow> ret () | Deny _ reason \<Rightarrow> throw (forbidden reason))"

text \<open>\<open>check\<close>: the decision and the role, shown to the caller.\<close>

definition check_access :: "auth_user \<Rightarrow> string \<Rightarrow> string \<Rightarrow> abac_resource \<Rightarrow> (policy_decision \<times> member_role option) key_op" where
  "check_access user org action resource =
     bindM (either (requireMembership user org)) (\<lambda>_.
     bindM (getsM (\<lambda>s. ky_mfa s (user_id user))) (\<lambda>mfa.
     ret (evaluate \<lparr>a_subject = \<lparr>s_user = user_id user, s_role = roleForOrg user org, s_mfa = mfa\<rparr>,
         a_action = action, a_resource = resource\<rparr>, roleForOrg user org)))"

definition api_key_resource :: "key_mode \<Rightarrow> abac_resource" where
  "api_key_resource m = \<lparr>ar_type = RApiKey, ar_live = None, ar_amount = None, ar_currency = None, ar_mode = Some m\<rparr>"

definition new_key :: "string \<Rightarrow> string \<Rightarrow> string option \<Rightarrow> string list \<Rightarrow> generated_key \<Rightarrow> key_row" where
  "new_key i store label scopes g =
     \<lparr>ky_id = ''key_'' @ i, ky_store = store, ky_mode = gk_mode g, ky_label = label, ky_hash = gk_hash g, ky_display = gk_display g,
      ky_last4 = gk_last4 g, ky_scopes = scopes, ky_used = None, ky_revoked = None\<rparr>"

record key_dto =
  kd_store :: string
  kd_mode :: key_mode
  kd_label :: "string option"
  kd_scopes :: "string list option"

definition create_key :: "(string \<Rightarrow> string) \<Rightarrow> auth_user \<Rightarrow> key_dto \<Rightarrow> (key_row \<times> string) key_op" where
  "create_key digest user dto =
     bindM (storeOrgId (kd_store dto)) (\<lambda>org.
     bindM (either (requirePermission user org ApikeyWrite)) (\<lambda>_.
     seqM (enforce user org ''apikey:create'' (api_key_resource (kd_mode dto)))
     (bindM draw_key (\<lambda>secret.
      bindM draw_key (\<lambda>i.
      let g = generateApiKey digest secret (kd_mode dto);
          k = new_key i (kd_store dto) (kd_label dto) (case kd_scopes dto of None \<Rightarrow> [] | Some x \<Rightarrow> x) g
      in seqM (add_key k) (ret (k, gk_token g)))))))"

definition list_keys :: "auth_user \<Rightarrow> string \<Rightarrow> key_row list key_op" where
  "list_keys user store =
     bindM (storeOrgId store) (\<lambda>org.
     bindM (either (requirePermission user org ApikeyRead)) (\<lambda>_.
     getsM (\<lambda>s. rev (rows_where (\<lambda>k. ky_store k = store) (ky_rows s)))))"

definition revoke_key :: "int \<Rightarrow> auth_user \<Rightarrow> string \<Rightarrow> unit key_op" where
  "revoke_key now user i =
     bindM (find_key (\<lambda>k. ky_id k = i)) (\<lambda>found.
     bindM (someM (paymentNotFound ''API key not found'') found) (\<lambda>k.
     bindM (storeOrgId (ky_store k)) (\<lambda>org.
     bindM (either (requirePermission user org ApikeyWrite)) (\<lambda>_.
     if ky_revoked k \<noteq> None then ret () else set_key i (\<lambda>k. k\<lparr>ky_revoked := Some now\<rparr>)))))"

definition rotated_label :: "string option \<Rightarrow> string" where
  "rotated_label label = (case label of None \<Rightarrow> ''rotated'' | Some l \<Rightarrow> if l = [] then ''rotated'' else l @ '' (rotated)'')"

definition rotate_key :: "(string \<Rightarrow> string) \<Rightarrow> int \<Rightarrow> auth_user \<Rightarrow> string \<Rightarrow> (key_row \<times> string) key_op" where
  "rotate_key digest now user i =
     bindM (find_key (\<lambda>k. ky_id k = i)) (\<lambda>found.
     bindM (someM (paymentNotFound ''API key not found'') found) (\<lambda>k.
     bindM (storeOrgId (ky_store k)) (\<lambda>org.
     bindM (either (requireMembership user org)) (\<lambda>_.
     bindM (either (requirePermission user org ApikeyWrite)) (\<lambda>_.
     bindM draw_key (\<lambda>secret.
     bindM draw_key (\<lambda>j.
     let g = generateApiKey digest secret (ky_mode k);
         k' = new_key j (ky_store k) (Some (rotated_label (ky_label k))) (ky_scopes k) g
     in transaction (seqM (set_key i (\<lambda>k. k\<lparr>ky_revoked := Some now\<rparr>)) (seqM (add_key k') (ret (k', gk_token g)))))))))))"

lemma bindM_find_key [op_simps]: "bindM (find_key p) f s = f (find_by p (ky_rows s)) s"
  by (simp add: find_key_def op_simps)

lemma bindM_set_key [op_simps]:
  "bindM (set_key i g) f s =
     (if exists_by (\<lambda>k. ky_id k = i) (ky_rows s) then f () (ky_rows_update (update_where (\<lambda>k. ky_id k = i) g) s) else (Inl P2025, s))"
  by (simp add: set_key_def bindM_def)

lemma bindM_add_key [op_simps]:
  "bindM (add_key k) f s =
     (if exists_by (key_clash k) (ky_rows s) then (Inl P2002, s) else f () (ky_rows_update (\<lambda>t. t @ [k]) s))"
  by (simp add: add_key_def bindM_def)

lemma bindM_draw_key [op_simps]: "bindM draw_key f s = f (ky_rnd s (ky_draws s)) (s\<lparr>ky_draws := Suc (ky_draws s)\<rparr>)"
  by (simp add: draw_key_def bindM_def)

lemma bindM_either [op_simps]: "bindM (either r) f s = (case r of Inl e \<Rightarrow> (Inl e, s) | Inr a \<Rightarrow> f a s)"
  by (simp add: either_def bindM_def split: sum.split)

section \<open>Requests on keys\<close>

datatype key_request =
  UseKey int "string option"
| CreateKey auth_user key_dto
| RevokeKey int auth_user string
| RotateKey int auth_user string

fun serve_key :: "(string \<Rightarrow> string) \<Rightarrow> key_request \<Rightarrow> key_db \<Rightarrow> key_db" where
  "serve_key digest (UseKey now h) s = snd (key_guard digest now h s)"
| "serve_key digest (CreateKey u d) s = snd (create_key digest u d s)"
| "serve_key digest (RevokeKey now u i) s = snd (revoke_key now u i s)"
| "serve_key digest (RotateKey now u i) s = snd (rotate_key digest now u i s)"

inductive keys_later :: "(string \<Rightarrow> string) \<Rightarrow> key_db \<Rightarrow> key_db \<Rightarrow> bool" for digest where
  keys_same: "keys_later digest s s"
| keys_request: "keys_later digest s t \<Longrightarrow> keys_later digest s (serve_key digest r t)"

inductive_cases keys_requestE: "keys_later digest s t"

text \<open>A digest is dead once its key is revoked: the row found for it carries a revocation.\<close>

definition dead_hash :: "string \<Rightarrow> key_db \<Rightarrow> bool" where
  "dead_hash h s \<longleftrightarrow> (\<exists>k. find_by (\<lambda>k. ky_hash k = h) (ky_rows s) = Some k \<and> ky_revoked k \<noteq> None)"

definition keys_ok :: "key_db \<Rightarrow> bool" where
  "keys_ok s \<longleftrightarrow> keyed ky_id (ky_rows s) \<and> keyed ky_hash (ky_rows s)"

text \<open>What a request may write to a row: the last use, or a revocation.\<close>

definition revoking :: "(key_row \<Rightarrow> key_row) \<Rightarrow> bool" where
  "revoking f \<longleftrightarrow> (\<forall>k. ky_id (f k) = ky_id k \<and> ky_hash (f k) = ky_hash k \<and> (ky_revoked k \<noteq> None \<longrightarrow> ky_revoked (f k) \<noteq> None))"

lemma keeps_set_key:
  assumes "revoking f"
  shows "keeps (dead_hash h) (set_key i f)" "keeps keys_ok (set_key i f)"
proof -
  have "find_by (\<lambda>k. ky_hash k = h) (update_where (\<lambda>k. ky_id k = i) f t) =
      map_option (\<lambda>k. if ky_id k = i then f k else k) (find_by (\<lambda>k. ky_hash k = h) t)" for t
    using assms by (intro find_by_update_where) (simp add: revoking_def)
  then show "keeps (dead_hash h) (set_key i f)"
    using assms by (intro keepsI) (simp add: set_key_def dead_hash_def revoking_def, metis)
  show "keeps keys_ok (set_key i f)"
    using assms by (intro keepsI) (simp add: set_key_def keys_ok_def revoking_def keyed_update_where)
qed

lemma unclashed_key:
  assumes "\<not> exists_by (key_clash k) t"
  shows "\<not> exists_by (\<lambda>x. ky_id x = ky_id k) t" "\<not> exists_by (\<lambda>x. ky_hash x = ky_hash k) t"
  using assms by (force simp: exists_by_iff key_clash_def)+

lemma keeps_add_key: "keeps (dead_hash h) (add_key k)" "keeps keys_ok (add_key k)"
  by (auto intro!: keepsI simp: add_key_def dead_hash_def find_by_append keys_ok_def keyed_append_one unclashed_key)

lemma keeps_key_reads:
  "keeps (dead_hash h) draw_key" "keeps keys_ok draw_key"
  by (auto intro!: keepsI simp: draw_key_def dead_hash_def keys_ok_def)

lemma keeps_key_gets [keeps_intros]: "keeps P (find_key p)" "keeps P (either r)" "keeps P (storeOrgId i)" "keeps P (enforce u org a res)"
  unfolding find_key_def storeOrgId_def enforce_def
  by (auto intro!: keeps_intros split: policy_decision.split) (simp add: keeps_def either_def)

lemma revoking_writes [simp]: "revoking (\<lambda>k. k\<lparr>ky_used := u\<rparr>)" "revoking (\<lambda>k. k\<lparr>ky_revoked := Some n\<rparr>)"
  by (simp_all add: revoking_def)

lemma keeps_serve_key: "P = dead_hash h \<or> P = keys_ok \<Longrightarrow> P s \<Longrightarrow> P (serve_key digest r s)"
proof -
  assume P: "P = dead_hash h \<or> P = keys_ok"
  note key_intros = keeps_intros keeps_set_key keeps_add_key keeps_key_reads
  have "keeps P (key_guard digest now hd)" "keeps P (create_key digest u d)" "keeps P (revoke_key now u i)"
    "keeps P (rotate_key digest now u i)" for now hd u d i
    unfolding key_guard_def touch_key_def create_key_def revoke_key_def rotate_key_def Let_def
    using P by (auto intro!: key_intros)
  then show "P s \<Longrightarrow> P (serve_key digest r s)" by (cases r) (simp_all add: keepsD)
qed

lemma later_key:
  assumes "keys_later digest s t"
  shows "dead_hash h s \<Longrightarrow> dead_hash h t" and "keys_ok s \<Longrightarrow> keys_ok t"
  using assms by induction (auto intro: keeps_serve_key [where P = "dead_hash h", OF disjI1] keeps_serve_key [where P = keys_ok])

text \<open>The public API lets in exactly the holder of a live key: the guard accepts a request iff its
  bearer token has the shape of a key and the digest of the token belongs to a key that is not revoked, and it
  acts for that key's store, organisation and mode.\<close>

theorem key_accepted_iff:
  "fst (key_guard digest now header s) = Inr ctx \<longleftrightarrow>
     (\<exists>c k org. bearer (case header of None \<Rightarrow> [] | Some h \<Rightarrow> h) = Some c \<and> apiKeyMode (trim c) \<noteq> None \<and>
        find_by (\<lambda>k. ky_hash k = digest (trim c)) (ky_rows s) = Some k \<and> ky_revoked k = None \<and>
        find_by (\<lambda>x. fst x = ky_store k) (ky_stores s) = Some (ky_store k, org) \<and>
        ctx = \<lparr>ax_key = ky_id k, ax_store = ky_store k, ax_org = org, ax_mode = ky_mode k\<rparr>)"
proof -
  have touch: "fst (bindM (touch_key now k) (\<lambda>_. ret c) t) = Inr c" for k t and c :: api_key_ctx
    by (simp add: touch_key_def bindM_def catchM_def set_key_def ret_def)
  show ?thesis
    by (auto simp: key_guard_def Let_def op_simps storeOrgId_def touch split: option.splits dest: find_by_SomeD)
qed

text \<open>C23: A revoked key stays out: once a key was revoked, or replaced by rotation, every request with its
  token is refused with 401, whatever keys are made, used, revoked or rotated afterwards.\<close>

theorem revoked_key_refused:
  assumes "keys_ok s" and "find_by (\<lambda>k. ky_id k = i) (ky_rows s) = Some k" and "ky_hash k = digest (trim c)"
    and "(revoke_key now user i s = (Inr (), t)) \<or> (rotate_key digest now user i s = (Inr x, t))"
    and "keys_later digest t u" and "bearer h = Some c"
  shows "\<exists>e. key_guard digest later_now (Some h) u = (Inl e, u) \<and> http_status e = 401"
proof -
  have k: "k \<in> set (ky_rows s)" "ky_id k = i" using find_by_SomeD [OF assms(2)] by simp_all
  have found: "find_by (\<lambda>x. ky_hash x = ky_hash k) (ky_rows s) = Some k"
    using assms(1) k(1) keyed_find by (fastforce simp: keys_ok_def)
  have marked: "find_by (\<lambda>x. ky_hash x = ky_hash k) (update_where (\<lambda>k. ky_id k = i) (\<lambda>k. k\<lparr>ky_revoked := Some now\<rparr>) (ky_rows s)) =
      Some (k\<lparr>ky_revoked := Some now\<rparr>)"
    using found k(2) by (subst find_by_update_where) simp_all
  have "dead_hash (ky_hash k) t"
    using assms(2,4) found marked k(2)
    by (auto simp: revoke_key_def rotate_key_def op_simps storeOrgId_def dead_hash_def set_key_def Let_def transaction_Inr
        find_by_append split: option.splits sum.splits if_splits)
  from later_key(1) [OF assms(5) this] show ?thesis
    using assms(3,6) by (auto simp: key_guard_def dead_hash_def Let_def op_simps unauthorized_def)
qed

section \<open>Who mints live keys\<close>

lemma enforce_live_key:
  "enforce user org ''apikey:create'' (api_key_resource LiveMode) s = (Inr (), s) \<longleftrightarrow> roleForOrg user org = Some Owner"
proof -
  have "evaluate \<lparr>a_subject = \<lparr>s_user = user_id user, s_role = roleForOrg user org, s_mfa = m\<rparr>, a_action = ''apikey:create'',
      a_resource = api_key_resource LiveMode\<rparr> = Allow \<longleftrightarrow> roleForOrg user org = Some Owner" for m
    by (auto simp: evaluate_def evaluate_policies_Allow POLICIES_def api_key_resource_def ends_with_def
        HIGH_VALUE_REFUND_THRESHOLD_def resource_amount_def)
  then show ?thesis
    by (auto simp: enforce_def op_simps ret_def throw_def split: policy_decision.splits)
qed

text \<open>A live key is created for an owner only: \<open>create\<close> answers a request for a live
  key with a secret only if the caller owns the organisation of the store; the stored row keeps the digest of the
  secret and never the secret.\<close>

theorem live_key_for_owner:
  assumes "create_key digest user dto s = (Inr (k, token), t)" and "kd_mode dto = LiveMode"
  shows "\<exists>org. find_by (\<lambda>x. fst x = kd_store dto) (ky_stores s) = Some (kd_store dto, org) \<and>
    roleForOrg user org = Some Owner \<and> ky_hash k = digest token \<and> take 8 token = ''bk_live_'' \<and>
    ky_rows t = ky_rows s @ [k] \<and> ky_mode k = LiveMode \<and> ky_revoked k = None"
proof -
  from assms(1) obtain org where org: "find_by (\<lambda>x. fst x = kd_store dto) (ky_stores s) = Some (kd_store dto, org)"
    by (auto simp: create_key_def storeOrgId_def op_simps split: option.splits dest: find_by_SomeD)
  have pass: "enforce user org ''apikey:create'' (api_key_resource LiveMode) s = (Inr (), s) \<or>
      (\<exists>e. enforce user org ''apikey:create'' (api_key_resource LiveMode) s = (Inl e, s))"
    by (auto simp: enforce_def op_simps ret_def throw_def split: policy_decision.split)
  then have owner: "roleForOrg user org = Some Owner"
    using assms org by (auto simp: create_key_def storeOrgId_def op_simps bindM_def [of "enforce user org a b" for a b]
        enforce_live_key split: option.splits sum.splits if_splits)
  then have "enforce user org ''apikey:create'' (api_key_resource LiveMode) s = (Inr (), s)" by (simp add: enforce_live_key)
  then show ?thesis using assms org owner
    by (auto simp: create_key_def storeOrgId_def op_simps bindM_def [of "enforce user org a b" for a b] Let_def new_key_def
        generateApiKey_def key_prefix_def split: option.splits sum.splits if_splits)
qed

section \<open>The access matrix shown in the dashboard\<close>

definition PERMISSIONS :: "permission list" where
  "PERMISSIONS = [StoreRead, StoreWrite, ApikeyRead, ApikeyWrite, PaymentRead, PaymentWrite, WebhookWrite, BrandingWrite,
     TeamManage, BillingManage]"

fun ROLE_PERMS :: "member_role \<Rightarrow> permission list" where
  "ROLE_PERMS Owner = PERMISSIONS"
| "ROLE_PERMS Developer = [StoreRead, ApikeyRead, ApikeyWrite, PaymentRead, PaymentWrite, WebhookWrite]"
| "ROLE_PERMS Analyst = [StoreRead, PaymentRead]"
| "ROLE_PERMS PlatformAdmin = [StoreRead, StoreWrite, ApikeyRead, PaymentRead, TeamManage, BillingManage]"

definition matrix :: "auth_user \<Rightarrow> string \<Rightarrow> exn + (member_role \<times> (permission \<times> bool) list) list" where
  "matrix user org =
     (case requireMembership user org of
        Inl e \<Rightarrow> Inl e
      | Inr _ \<Rightarrow> Inr (map (\<lambda>r. (r, map (\<lambda>p. (p, List.member (ROLE_PERMS r) p)) PERMISSIONS)) [Owner, Developer, Analyst, PlatformAdmin]))"

lemma ROLE_PERMS_mirror: "p \<in> set PERMISSIONS \<Longrightarrow> p \<in> set (ROLE_PERMS r) \<longleftrightarrow> p \<in> set (ROLE_PERMISSIONS r)"
  by (cases r) (auto simp: PERMISSIONS_def)

text \<open>Six permissions that roles carry are missing from the matrix.\<close>

lemma matrix_incomplete: "set (ROLE_PERMISSIONS Owner) - set PERMISSIONS =
    {CouponRead, CouponWrite, GiftcardRead, GiftcardWrite, PaychainRead, PaychainWrite}"
  by (auto simp: PERMISSIONS_def)

section \<open>Instances\<close>

definition toy_key :: key_row where
  "toy_key = \<lparr>ky_id = ''key_1'', ky_store = ''store_1'', ky_mode = LiveMode, ky_label = None, ky_hash = ''d:bk_live_0'', ky_display = [],
     ky_last4 = [], ky_scopes = [], ky_used = None, ky_revoked = None\<rparr>"

definition toy_keys :: key_db where
  "toy_keys = \<lparr>ky_rows = [toy_key], ky_stores = [(''store_1'', ''org'')], ky_mfa = (\<lambda>_. False), ky_rnd = show_nat, ky_draws = 7\<rparr>"

definition toy_digest :: "string \<Rightarrow> string" where
  "toy_digest s = ''d:'' @ s"

definition member_as :: "member_role \<Rightarrow> auth_user" where
  "member_as r = \<lparr>user_id = ''u'', user_email = ''u'', memberships = [\<lparr>m_org = ''org'', m_role = r\<rparr>]\<rparr>"

lemma toy_keys_ok: "keys_ok toy_keys"
  by (simp add: keys_ok_def toy_keys_def keyed_def)

lemma toy_revoked:
  "revoke_key 5 (member_as Owner) ''key_1'' toy_keys = (Inr (), serve_key toy_digest (RevokeKey 5 (member_as Owner) ''key_1'') toy_keys) \<and>
   find_by (\<lambda>k. ky_id k = ''key_1'') (ky_rows toy_keys) = Some toy_key \<and> ky_hash toy_key = toy_digest (trim ''bk_live_0'') \<and>
   bearer ''Bearer bk_live_0'' = Some ''bk_live_0''"
  by (simp add: revoke_key_def op_simps storeOrgId_def toy_keys_def toy_key_def member_as_def requirePermission_def
      requireMembership_def roleForOrg_def set_key_def toy_digest_def) code_simp

theorem revoked_key_refused_witness:
  "\<exists>e. key_guard toy_digest 9 (Some ''Bearer bk_live_0'') (serve_key toy_digest (RevokeKey 5 (member_as Owner) ''key_1'') toy_keys) =
     (Inl e, serve_key toy_digest (RevokeKey 5 (member_as Owner) ''key_1'') toy_keys) \<and> http_status e = 401"
  using toy_revoked by (intro revoked_key_refused [OF toy_keys_ok, of "''key_1''" toy_key toy_digest "''bk_live_0''" 5 "member_as Owner"])
    (auto intro: keys_same)

theorem live_key_for_owner_witness:
  "\<exists>k token t. create_key toy_digest (member_as Owner) \<lparr>kd_store = ''store_1'', kd_mode = LiveMode, kd_label = None, kd_scopes = None\<rparr> toy_keys =
     (Inr (k, token), t) \<and> ky_hash k = toy_digest token"
proof -
  let ?dto = "\<lparr>kd_store = ''store_1'', kd_mode = LiveMode, kd_label = None, kd_scopes = None\<rparr>"
  have "\<exists>x. fst (create_key toy_digest (member_as Owner) ?dto toy_keys) = Inr x"
    by (intro exI) (code_simp)
  then obtain k token t where "create_key toy_digest (member_as Owner) ?dto toy_keys = (Inr (k, token), t)"
    by (metis prod.collapse)
  with live_key_for_owner [OF this] show ?thesis by auto
qed

text \<open>Rotation asks for no owner, and takes a revoked key: a developer rotates a live key that was
  revoked and holds a new live secret, which the public API accepts.\<close>

lemma developer_rotates_live_key:
  "(case rotate_key toy_digest 9 (member_as Developer) ''key_1'' (serve_key toy_digest (RevokeKey 5 (member_as Owner) ''key_1'') toy_keys) of
      (Inr (k, token), t) \<Rightarrow> ky_mode k = LiveMode \<and> fst (key_guard toy_digest 10 (Some (''Bearer '' @ token)) t) =
        Inr \<lparr>ax_key = ky_id k, ax_store = ''store_1'', ax_org = ''org'', ax_mode = LiveMode\<rparr>
    | _ \<Rightarrow> False) \<and>
   fst (create_key toy_digest (member_as Developer) \<lparr>kd_store = ''store_1'', kd_mode = LiveMode, kd_label = None, kd_scopes = None\<rparr> toy_keys) \<in>
     range Inl"
  by (rule conjI, code_simp) (auto simp: create_key_def op_simps storeOrgId_def toy_keys_def member_as_def requirePermission_def
    requireMembership_def roleForOrg_def enforce_def evaluate_def evaluate_policies_Allow POLICIES_def api_key_resource_def throw_def)

end
