(* ===== verification/Ssrf.thy ===== *)
theory Ssrf
  imports Hmac "HOL-Library.Word"
begin

text \<open>
  \<open>apps/api/src/common/ssrf.ts\<close>: which webhook addresses may be called. The URL parser,
  the test for an IPv6 literal and the name lookup belong to the platform: they are the fields of
  \<open>url_env\<close>. An IPv4 address is read as the 32-bit word it stands for.
\<close>

section \<open>Addresses\<close>

definition starts_with :: "string \<Rightarrow> string \<Rightarrow> bool" where
  "starts_with p s \<longleftrightarrow> take (length p) s = p"

definition octet :: "string \<Rightarrow> bool" where
  "octet s \<longleftrightarrow> s \<noteq> [] \<and> list_all is_digit s \<and> (length s = 1 \<or> hd s \<noteq> CHR ''0'') \<and> length s \<le> 3 \<and> read_nat s \<le> 255"

text \<open>\<open>isIP(v) === 4\<close> and the four numbers of the address.\<close>

definition ipv4 :: "string \<Rightarrow> nat list option" where
  "ipv4 v = (let parts = split_on (CHR ''.'') v in
     if length parts = 4 \<and> list_all octet parts then Some (map read_nat parts) else None)"

definition unmapped :: "string \<Rightarrow> string" where
  "unmapped ip = (if to_lower (take 7 ip) = ''::ffff:'' then drop 7 ip else ip)"

definition blocked_octets :: "nat list \<Rightarrow> bool" where
  "blocked_octets ns = (let a = ns ! 0; b = ns ! 1 in
     a = 127 \<or> a = 10 \<or> a = 192 \<and> b = 168 \<or> a = 172 \<and> 16 \<le> b \<and> b \<le> 31 \<or> a = 169 \<and> b = 254 \<or> a = 0)"

definition isBlockedIp :: "string \<Rightarrow> bool" where
  "isBlockedIp ip =
     (let v = unmapped ip in
      case ipv4 v of
        Some ns \<Rightarrow> blocked_octets ns
      | None \<Rightarrow> (let l = to_lower v in
          l = ''::1'' \<or> l = ''::'' \<or> starts_with ''fc'' l \<or> starts_with ''fd'' l \<or> starts_with ''fe80'' l))"

section \<open>The check of a URL\<close>

record url_env =
  ue_parse :: "string \<Rightarrow> (string \<times> string) option"
  ue_v6 :: "string \<Rightarrow> bool"
  ue_lookup :: "string \<Rightarrow> string list option"

definition ends_in :: "string \<Rightarrow> string \<Rightarrow> bool" where
  "ends_in suf s \<longleftrightarrow> length suf \<le> length s \<and> drop (length s - length suf) s = suf"

definition assertSafeUrl :: "url_env \<Rightarrow> string \<Rightarrow> bool \<Rightarrow> string + unit" where
  "assertSafeUrl e rawUrl allowPrivate =
     (case ue_parse e rawUrl of
        None \<Rightarrow> Inl ''invalid URL''
      | Some (protocol, hostname) \<Rightarrow>
          if protocol \<noteq> ''http:'' \<and> protocol \<noteq> ''https:'' then Inl ''only http/https allowed''
          else if allowPrivate then Inr ()
          else if protocol \<noteq> ''https:'' then Inl ''https is required''
          else (let host = to_lower hostname in
            if host = ''localhost'' \<or> ends_in ''.local'' host \<or> ends_in ''.internal'' host then Inl ''internal hostname blocked''
            else if (ipv4 host \<noteq> None \<or> ue_v6 e host) \<and> isBlockedIp host then Inl ''private/loopback IP blocked''
            else case ue_lookup e host of
              None \<Rightarrow> Inl ''DNS resolution failed''
            | Some addrs \<Rightarrow> if list_ex isBlockedIp addrs then Inl ''resolves to a private IP'' else Inr ()))"

section \<open>Networks\<close>

text \<open>The dotted form of an address, and membership in a network given by its address and
  prefix length.\<close>

definition octet_at :: "nat \<Rightarrow> 32 word \<Rightarrow> nat" where
  "octet_at k w = unat w div 256 ^ (3 - k) mod 256"

definition dotted :: "32 word \<Rightarrow> string" where
  "dotted w = join_with (CHR ''.'') (map (\<lambda>k. show_nat (octet_at k w)) [0, 1, 2, 3])"

definition address :: "nat \<Rightarrow> nat \<Rightarrow> nat \<Rightarrow> nat \<Rightarrow> 32 word" where
  "address a b c d = of_nat (((a * 256 + b) * 256 + c) * 256 + d)"

definition in_network :: "32 word \<Rightarrow> 32 word \<times> nat \<Rightarrow> bool" where
  "in_network w n = (case n of (base, len) \<Rightarrow> drop_bit (32 - len) w = drop_bit (32 - len) base)"

definition BLOCKED_NETWORKS :: "(32 word \<times> nat) list" where
  "BLOCKED_NETWORKS = [(address 127 0 0 0, 8), (address 10 0 0 0, 8), (address 192 168 0 0, 16), (address 172 16 0 0, 12),
     (address 169 254 0 0, 16), (address 0 0 0 0, 8)]"

lemma hd_show_nat: "0 < n \<Longrightarrow> hd (show_nat n) \<noteq> CHR ''0''"
proof (induction n rule: show_nat.induct)
  case (1 n)
  show ?case
  proof (cases "n < 10")
    case True
    with 1(2) have "n \<in> set [1..<10]" by simp
    moreover have "list_all (\<lambda>n. hd (show_nat n) \<noteq> CHR ''0'') [1..<10]" by code_simp
    ultimately show ?thesis by (simp add: list_all_iff)
  next
    case False
    with 1 show ?thesis by (subst show_nat.simps) (simp add: hd_append)
  qed
qed

lemma octet_show:
  assumes "n < 256"
  shows "octet (show_nat n) \<and> CHR ''.'' \<notin> set (show_nat n)"
proof -
  have "length (show_nat n) \<le> 3" using assms length_show_nat [of n 3] by simp
  moreover have "length (show_nat n) = 1 \<or> hd (show_nat n) \<noteq> CHR ''0''"
    using hd_show_nat [of n] by (cases "n = 0") (simp_all add: show_nat.simps [of 0])
  moreover have "\<not> is_digit (CHR ''.'')" by code_simp
  ultimately show ?thesis using assms show_nat_digits [of n] by (auto simp: octet_def list_all_iff read_show_nat)
qed

lemma ipv4_dotted: "ipv4 (dotted w) = Some (map (\<lambda>k. octet_at k w) [0, 1, 2, 3])"
proof -
  have o: "octet_at k w < 256" for k by (simp add: octet_at_def)
  have "split_on (CHR ''.'') (dotted w) = map (\<lambda>k. show_nat (octet_at k w)) [0, 1, 2, 3]"
    unfolding dotted_def by (rule split_join) (use octet_show [OF o] in auto)
  then show ?thesis using octet_show [OF o] by (simp add: ipv4_def read_show_nat)
qed

lemma unmapped_dotted: "unmapped (dotted w) = dotted w"
proof -
  obtain c r where "show_nat (octet_at 0 w) = c # r" by (cases "show_nat (octet_at 0 w)") auto
  moreover from this have "is_digit c" using show_nat_digits [of "octet_at 0 w"] by simp
  moreover from this have "\<not> is_upper c" "c \<noteq> CHR '':''" by (auto simp: is_upper_def is_digit_def)
  ultimately obtain r' where "dotted w = c # r'" "lower_char c \<noteq> CHR '':''"
    by (auto simp: dotted_def lower_char_def)
  then show ?thesis by (auto simp: unmapped_def to_lower_def)
qed

lemma drop_bit_unat: "drop_bit k w = drop_bit k v \<longleftrightarrow> unat w div 2 ^ k = unat v div 2 ^ k" for w v :: "32 word"
proof -
  have "unat (drop_bit k x) = unat x div 2 ^ k" for x :: "32 word"
    unfolding unat_drop_bit_eq by (simp add: drop_bit_eq_div)
  then show ?thesis by (simp only: word_unat_eq_iff)
qed

text \<open>The first two octets of the upper half of an address.\<close>

lemma digits_iff: "b < k \<Longrightarrow> a * k + b = n \<longleftrightarrow> a = n div k \<and> b = n mod k" for a b k n :: nat
  by auto

lemma upper_half:
  fixes a b :: nat
  assumes "b < 256"
  shows "a * 256 + b = 49320 \<longleftrightarrow> a = 192 \<and> b = 168" "a * 256 + b = 43518 \<longleftrightarrow> a = 169 \<and> b = 254"
    "(a * 256 + b) div 16 = 2753 \<longleftrightarrow> a = 172 \<and> 16 \<le> b \<and> b \<le> 31"
proof -
  show "a * 256 + b = 49320 \<longleftrightarrow> a = 192 \<and> b = 168" "a * 256 + b = 43518 \<longleftrightarrow> a = 169 \<and> b = 254"
    unfolding digits_iff [OF assms] by simp_all
  have "a * 256 + b = b + (a * 16) * 16" by simp
  then have "(a * 256 + b) div 16 = a * 16 + b div 16" by (simp only: div_mult_self1)
  moreover have "b div 16 < 16" using assms by simp
  moreover have "b div 16 = 1 \<longleftrightarrow> 16 \<le> b \<and> b \<le> 31" by auto
  ultimately show "(a * 256 + b) div 16 = 2753 \<longleftrightarrow> a = 172 \<and> 16 \<le> b \<and> b \<le> 31"
    using digits_iff [of "b div 16" 16 a 2753] by simp
qed

lemma in_network_unat: "in_network w (base, len) \<longleftrightarrow> unat w div 2 ^ (32 - len) = unat base div 2 ^ (32 - len)"
  unfolding in_network_def prod.case by (rule drop_bit_unat)

lemma unat_address:
  assumes "((a * 256 + b) * 256 + c) * 256 + d < 2 ^ 32"
  shows "unat (address a b c d) = ((a * 256 + b) * 256 + c) * 256 + d"
  unfolding address_def unat_of_nat using assms by (intro mod_less) simp

lemma network_ranges:
  "in_network w (address 127 0 0 0, 8) \<longleftrightarrow> unat w div 16777216 = 127"
  "in_network w (address 10 0 0 0, 8) \<longleftrightarrow> unat w div 16777216 = 10"
  "in_network w (address 0 0 0 0, 8) \<longleftrightarrow> unat w div 16777216 = 0"
  "in_network w (address 192 168 0 0, 16) \<longleftrightarrow> unat w div 65536 = 49320"
  "in_network w (address 169 254 0 0, 16) \<longleftrightarrow> unat w div 65536 = 43518"
  "in_network w (address 172 16 0 0, 12) \<longleftrightarrow> unat w div 1048576 = 2753"
  by (simp_all add: in_network_unat unat_address)

lemma blocked_networks:
  "(\<exists>n \<in> set BLOCKED_NETWORKS. in_network w n) \<longleftrightarrow>
     unat w div 16777216 = 127 \<or> unat w div 16777216 = 10 \<or> unat w div 65536 = 49320 \<or> unat w div 1048576 = 2753 \<or>
     unat w div 65536 = 43518 \<or> unat w div 16777216 = 0"
  by (simp only: BLOCKED_NETWORKS_def list.set bex_simps network_ranges simp_thms)

lemma word_octets:
  obtains a b where "unat w div 16777216 = a" "unat w div 1048576 = (a * 256 + b) div 16" "unat w div 65536 = a * 256 + b"
    "octet_at 0 w = a" "octet_at 1 w = b" "b < 256"
proof -
  let ?h = "unat w div 65536"
  have h: "unat w div 16777216 = ?h div 256" "unat w div 1048576 = ?h div 16"
    by (simp_all add: div_mult2_eq [symmetric])
  have "unat w < 256 * 16777216" using unsigned_less [of w] by simp
  then have "unat w div 16777216 < 256" by (rule less_mult_imp_div_less)
  then have "octet_at 0 w = ?h div 256" unfolding h(1) [symmetric] by (simp add: octet_at_def)
  moreover have "octet_at 1 w = ?h mod 256" by (simp add: octet_at_def)
  moreover have "?h = ?h div 256 * 256 + ?h mod 256" by (rule div_mult_mod_eq [symmetric])
  ultimately show ?thesis using h(2) by (intro that [of "?h div 256" "?h mod 256"]) (simp_all only: h(1) mod_less_divisor zero_less_numeral)
qed

lemma networks_octets:
  "(\<exists>n \<in> set BLOCKED_NETWORKS. in_network w n) \<longleftrightarrow> blocked_octets (map (\<lambda>k. octet_at k w) [0, 1, 2, 3])"
proof -
  obtain a b where m: "unat w div 16777216 = a" "unat w div 1048576 = (a * 256 + b) div 16" "unat w div 65536 = a * 256 + b"
    and o: "octet_at 0 w = a" "octet_at 1 w = b" and b: "b < 256" by (rule word_octets)
  have "blocked_octets (map (\<lambda>k. octet_at k w) [0, 1, 2, 3]) \<longleftrightarrow>
      a = 127 \<or> a = 10 \<or> a = 192 \<and> b = 168 \<or> a = 172 \<and> 16 \<le> b \<and> b \<le> 31 \<or> a = 169 \<and> b = 254 \<or> a = 0"
    unfolding blocked_octets_def Let_def list.map nth_Cons_0 One_nat_def nth_Cons_Suc o [unfolded One_nat_def] ..
  then show ?thesis unfolding blocked_networks m upper_half [OF b] by blast
qed

section \<open>Properties\<close>

lemma mapped_blocked:
  "isBlockedIp (dotted w) = (\<exists>n \<in> set BLOCKED_NETWORKS. in_network w n) \<and>
   isBlockedIp (''::ffff:'' @ dotted w) = isBlockedIp (dotted w)"
proof -
  have "unmapped (''::ffff:'' @ dotted w) = dotted w"
    by (simp add: unmapped_def to_lower_def lower_char_def is_upper_def)
  then show ?thesis unfolding networks_octets by (simp add: isBlockedIp_def unmapped_dotted ipv4_dotted)
qed

text \<open>C24: The IPv4 part of the URL guard is a list of networks: an address in dotted form is blocked
  exactly when, as a 32-bit word, it lies in 127/8, 10/8, 192.168/16, 172.16/12, 169.254/16 or 0/8, and
  writing it as an IPv4-mapped IPv6 address changes nothing.\<close>

theorem blocked_iff_network:
  "isBlockedIp (dotted w) = (\<exists>n \<in> set BLOCKED_NETWORKS. in_network w n) \<and>
   isBlockedIp (''::ffff:'' @ dotted w) = isBlockedIp (dotted w)"
  by (rule mapped_blocked)

lemma blocked_networks_iff:
  "(\<exists>n \<in> set BLOCKED_NETWORKS. in_network w n) \<longleftrightarrow> isBlockedIp (dotted w)"
  "(\<exists>n \<in> set BLOCKED_NETWORKS. in_network w n) \<longleftrightarrow> isBlockedIp (''::ffff:'' @ dotted w)"
  using mapped_blocked by blast+

text \<open>A webhook address that passes in production is an https URL with no local name, and every
  IPv4 address it resolved to lies outside the blocked networks.\<close>

theorem safe_url_resolves_outside:
  assumes "assertSafeUrl e rawUrl False = Inr ()"
  shows "\<exists>host addrs. ue_parse e rawUrl = Some (''https:'', host) \<and> to_lower host \<noteq> ''localhost'' \<and>
    ue_lookup e (to_lower host) = Some addrs \<and>
    (\<forall>w. dotted w \<in> set addrs \<or> ''::ffff:'' @ dotted w \<in> set addrs \<longrightarrow> \<not> (\<exists>n \<in> set BLOCKED_NETWORKS. in_network w n))"
proof -
  obtain host addrs where "ue_parse e rawUrl = Some (''https:'', host)" "to_lower host \<noteq> ''localhost''"
    "ue_lookup e (to_lower host) = Some addrs" "\<not> list_ex isBlockedIp addrs"
    using assms by (auto simp: assertSafeUrl_def Let_def split: option.splits if_splits)
  moreover from this(4) have "\<not> isBlockedIp a" if "a \<in> set addrs" for a using that by (auto simp: list_ex_iff)
  ultimately show ?thesis using blocked_networks_iff by blast
qed

definition toy_urls :: url_env where
  "toy_urls = \<lparr>ue_parse = (\<lambda>_. Some (''https:'', ''Shop.kh'')), ue_v6 = (\<lambda>_. False), ue_lookup = (\<lambda>_. Some [''8.8.8.8''])\<rparr>"

theorem safe_url_resolves_outside_witness:
  "\<not> (\<exists>n \<in> set BLOCKED_NETWORKS. in_network (address 8 8 8 8) n)"
proof -
  have safe: "assertSafeUrl toy_urls ''https://Shop.kh/hook'' False = Inr ()" by code_simp
  have "unat (address 8 8 8 8) = 134744072" by (simp add: unat_address)
  then have "map (\<lambda>k. octet_at k (address 8 8 8 8)) [0, 1, 2, 3] = [8, 8, 8, 8]" by (simp add: octet_at_def)
  moreover have "show_nat 8 = ''8''" by code_simp
  ultimately have "dotted (address 8 8 8 8) = ''8.8.8.8''" by (simp add: dotted_def)
  with safe_url_resolves_outside [OF safe] show ?thesis by (fastforce simp: toy_urls_def)
qed

text \<open>Addresses that are as little public pass: shared address space, multicast, and the rest of
  the link-local network \<open>fe80::/10\<close>.\<close>

lemma unblocked: "\<not> isBlockedIp ''100.64.0.1'' \<and> \<not> isBlockedIp ''224.0.0.1'' \<and> isBlockedIp ''fe80::1'' \<and> \<not> isBlockedIp ''fe90::1''"
  by code_simp

end
