(* ===== verification/DigitalValue.thy ===== *)
theory DigitalValue
  imports Database "HOL-Library.AList"
begin

text \<open>
  The in-process store of digital value,
  \<open>apps/api/src/providers/mock-digital-value.provider.ts\<close>: wallets, balances in whole units, and
  movements that are applied once per idempotency key. The \<open>Map\<close>s of the class keep their
  insertion order, as the association lists here do.
\<close>

section \<open>State and errors\<close>

record value_line =
  vl_wallet :: string
  vl_asset :: string
  vl_delta :: int

record value_result =
  vr_id :: string
  vr_status :: value_status
  vr_confirmed :: int
  vr_reference :: string

record value_store =
  vs_wallets :: "(string \<times> string) list"
  vs_balances :: "(string \<times> int) list"
  vs_keys :: "(string \<times> value_line list \<times> value_result) list"
  vs_txns :: "(string \<times> value_result) list"
  vs_rnd :: "nat \<Rightarrow> string"
  vs_draws :: nat
  vs_clock :: int

datatype value_error = NotFound | IdempotencyReused | InsufficientBalance | InvalidAmount

type_synonym 'a value_op = "(value_store, value_error, 'a) op"

record value_amount =
  va_asset :: string
  va_amount :: string

definition fresh_value :: "string \<Rightarrow> string value_op" where
  "fresh_value prefix s = (Inr (prefix @ ''_'' @ vs_rnd s (vs_draws s)), s\<lparr>vs_draws := Suc (vs_draws s)\<rparr>)"

definition balance_key :: "string \<Rightarrow> string \<Rightarrow> string" where
  "balance_key wallet asset = wallet @ CHR '':'' # asset"

definition held :: "(string \<times> int) list \<Rightarrow> string \<Rightarrow> int" where
  "held bs k = (case map_of bs k of None \<Rightarrow> 0 | Some v \<Rightarrow> v)"

definition line_key :: "value_line \<Rightarrow> string" where
  "line_key l = balance_key (vl_wallet l) (vl_asset l)"

section \<open>Operations\<close>

definition parse_units :: "value_amount \<Rightarrow> value_error + int" where
  "parse_units v =
     (if va_amount v \<noteq> [] \<and> list_all is_digit (va_amount v) then Inr (int (read_nat (va_amount v))) else Inl InvalidAmount)"

definition createWallet :: "string \<Rightarrow> (string \<times> bool) value_op" where
  "createWallet customer =
     bindM (getsM (\<lambda>s. map_of (vs_wallets s) customer)) (\<lambda>existing.
     case existing of
       Some w \<Rightarrow> ret (w, True)
     | None \<Rightarrow> bindM (fresh_value ''wlt'') (\<lambda>w.
         seqM (modifyM (vs_wallets_update (AList.update customer w))) (ret (w, False))))"

text \<open>\<open>const [walletId, assetId] = k.split(':')\<close>: what follows a second colon is lost.\<close>

definition split_key :: "string \<Rightarrow> string \<times> string" where
  "split_key k =
     (let w = takeWhile (\<lambda>c. c \<noteq> CHR '':'') k; r = drop 1 (dropWhile (\<lambda>c. c \<noteq> CHR '':'') k)
      in (w, takeWhile (\<lambda>c. c \<noteq> CHR '':'') r))"

definition getBalances :: "string \<Rightarrow> (string \<times> int) list value_op" where
  "getBalances wallet =
     getsM (\<lambda>s. map (\<lambda>(k, v). (snd (split_key k), v)) (filter (\<lambda>(k, v). fst (split_key k) = wallet) (vs_balances s)))"

definition apply_line :: "value_line \<Rightarrow> (string \<times> int) list \<Rightarrow> (string \<times> int) list" where
  "apply_line l bs = AList.update (line_key l) (held bs (line_key l) + vl_delta l) bs"

definition move :: "string \<Rightarrow> string \<Rightarrow> value_line list \<Rightarrow> value_result value_op" where
  "move key reference lines =
     bindM (getsM (\<lambda>s. map_of (vs_keys s) key)) (\<lambda>prior.
     case prior of
       Some (input, result) \<Rightarrow> if input = lines then ret result else throw IdempotencyReused
     | None \<Rightarrow>
        bindM (getsM vs_balances) (\<lambda>bs.
        if list_ex (\<lambda>l. held bs (line_key l) + vl_delta l < 0) lines then throw InsufficientBalance
        else seqM (modifyM (vs_balances_update (fold apply_line lines)))
          (bindM (fresh_value ''dvt'') (\<lambda>i.
           bindM (getsM vs_clock) (\<lambda>now.
           let result = \<lparr>vr_id = i, vr_status = VConfirmed, vr_confirmed = now, vr_reference = reference\<rparr> in
           seqM (modifyM (vs_keys_update (AList.update key (lines, result))))
             (seqM (modifyM (vs_txns_update (AList.update i result))) (ret result)))))))"

definition amountM :: "value_amount \<Rightarrow> int value_op" where
  "amountM v s = (parse_units v, s)"

definition issue_value :: "string \<Rightarrow> string \<Rightarrow> string \<Rightarrow> value_amount \<Rightarrow> value_result value_op" where
  "issue_value key reference toWallet v =
     bindM (amountM v) (\<lambda>n. move key reference [\<lparr>vl_wallet = toWallet, vl_asset = va_asset v, vl_delta = n\<rparr>])"

definition transfer_value :: "string \<Rightarrow> string \<Rightarrow> string \<Rightarrow> string \<Rightarrow> value_amount \<Rightarrow> value_result value_op" where
  "transfer_value key reference fromWallet toWallet v =
     bindM (amountM v) (\<lambda>n. move key reference
       [\<lparr>vl_wallet = fromWallet, vl_asset = va_asset v, vl_delta = - n\<rparr>, \<lparr>vl_wallet = toWallet, vl_asset = va_asset v, vl_delta = n\<rparr>])"

definition redeem_value :: "string \<Rightarrow> string \<Rightarrow> string \<Rightarrow> value_amount \<Rightarrow> value_result value_op" where
  "redeem_value key reference fromWallet v =
     bindM (amountM v) (\<lambda>n. move key reference [\<lparr>vl_wallet = fromWallet, vl_asset = va_asset v, vl_delta = - n\<rparr>])"

definition burn_value :: "string \<Rightarrow> string \<Rightarrow> string \<Rightarrow> value_amount \<Rightarrow> value_result value_op" where
  "burn_value key reference fromWallet v =
     bindM (amountM v) (\<lambda>n. move key reference [\<lparr>vl_wallet = fromWallet, vl_asset = va_asset v, vl_delta = - n\<rparr>])"

definition getTransaction :: "string \<Rightarrow> value_result value_op" where
  "getTransaction i = bindM (getsM (\<lambda>s. map_of (vs_txns s) i)) (\<lambda>t. someM NotFound t)"

section \<open>Requests\<close>

datatype value_request =
  NewWallet string
| Issue string string string value_amount
| Transfer string string string string value_amount
| Redeem string string string value_amount
| Burn string string string value_amount
| ValueTick int

fun serve_value :: "value_request \<Rightarrow> value_store \<Rightarrow> value_store" where
  "serve_value (NewWallet c) s = snd (createWallet c s)"
| "serve_value (Issue k r w v) s = snd (issue_value k r w v s)"
| "serve_value (Transfer k r w x v) s = snd (transfer_value k r w x v s)"
| "serve_value (Redeem k r w v) s = snd (redeem_value k r w v s)"
| "serve_value (Burn k r w v) s = snd (burn_value k r w v s)"
| "serve_value (ValueTick t) s = s\<lparr>vs_clock := t\<rparr>"

definition empty_values :: "(nat \<Rightarrow> string) \<Rightarrow> value_store" where
  "empty_values src = \<lparr>vs_wallets = [], vs_balances = [], vs_keys = [], vs_txns = [], vs_rnd = src, vs_draws = 0, vs_clock = 0\<rparr>"

inductive value_reachable :: "(nat \<Rightarrow> string) \<Rightarrow> value_store \<Rightarrow> bool" for src where
  value_start: "value_reachable src (empty_values src)"
| value_step: "value_reachable src s \<Longrightarrow> value_reachable src (serve_value r s)"

section \<open>The abstract ledger\<close>

text \<open>The specification: a balance is the sum of the lines of the movements accepted, one per key.\<close>

definition recorded :: "value_store \<Rightarrow> value_line list" where
  "recorded s = concat (map (\<lambda>(k, ls, r). ls) (vs_keys s))"

definition sum_at :: "string \<Rightarrow> value_line list \<Rightarrow> int" where
  "sum_at k ls = sum_list (map vl_delta (filter (\<lambda>l. line_key l = k) ls))"

definition values_ok :: "value_store \<Rightarrow> bool" where
  "values_ok s \<longleftrightarrow> distinct (map fst (vs_keys s)) \<and> (\<forall>k. held (vs_balances s) k = sum_at k (recorded s) \<and> 0 \<le> held (vs_balances s) k)"

text \<open>The lines of one request: an amount into a wallet, out of one, or from one to the other.\<close>

definition movement :: "value_line list \<Rightarrow> bool" where
  "movement ls \<longleftrightarrow> (\<exists>l. ls = [l]) \<or> (\<exists>a b n. 0 \<le> n \<and> ls = [a, b] \<and> vl_delta a = - n \<and> vl_delta b = n)"

lemma sum_at_simps [simp]:
  "sum_at k [] = 0" "sum_at k (l # ls) = (if line_key l = k then vl_delta l else 0) + sum_at k ls"
  "sum_at k (ls @ ms) = sum_at k ls + sum_at k ms"
  by (simp_all add: sum_at_def)

lemma held_apply_line: "held (apply_line l bs) k = held bs k + (if line_key l = k then vl_delta l else 0)"
  by (simp add: held_def apply_line_def update_conv')

lemma held_fold: "held (fold apply_line ls bs) k = held bs k + sum_at k ls"
  by (induction ls arbitrary: bs) (simp_all add: held_apply_line)

lemma fold_nonneg:
  assumes "movement ls" and "\<not> list_ex (\<lambda>l. held bs (line_key l) + vl_delta l < 0) ls" and "\<forall>k. 0 \<le> held bs k"
  shows "0 \<le> held (fold apply_line ls bs) k"
  using assms by (auto simp: held_fold movement_def)

lemma update_fresh: "k \<notin> fst ` set xs \<Longrightarrow> AList.update k v xs = xs @ [(k, v)]"
  by (induction xs) auto

lemma move_cases:
  obtains (replayed) res where "map_of (vs_keys s) key = Some (ls, res)" "move key ref ls s = (Inr res, s)"
  | (refused) e where "move key ref ls s = (Inl e, s)"
  | (applied) res t where "map_of (vs_keys s) key = None" "\<not> list_ex (\<lambda>l. held (vs_balances s) (line_key l) + vl_delta l < 0) ls"
      "move key ref ls s = (Inr res, t)" "vs_balances t = fold apply_line ls (vs_balances s)"
      "vs_keys t = vs_keys s @ [(key, ls, res)]"
proof (cases "map_of (vs_keys s) key")
  case None
  show ?thesis
  proof (cases "list_ex (\<lambda>l. held (vs_balances s) (line_key l) + vl_delta l < 0) ls")
    case True
    with None show ?thesis by (intro refused [of InsufficientBalance]) (simp add: move_def op_simps)
  next
    case False
    let ?r = "\<lparr>vr_id = ''dvt_'' @ vs_rnd s (vs_draws s), vr_status = VConfirmed, vr_confirmed = vs_clock s, vr_reference = ref\<rparr>"
    have run: "move key ref ls s = (Inr ?r, s\<lparr>vs_balances := fold apply_line ls (vs_balances s), vs_draws := Suc (vs_draws s),
        vs_keys := AList.update key (ls, ?r) (vs_keys s), vs_txns := AList.update (vr_id ?r) ?r (vs_txns s)\<rparr>)"
      using None False by (simp add: move_def op_simps fresh_value_def bindM_def [of "fresh_value x" for x] Let_def)
    have "AList.update key (ls, ?r) (vs_keys s) = vs_keys s @ [(key, ls, ?r)]"
      using None by (intro update_fresh) (simp add: map_of_eq_None_iff)
    then show ?thesis using None False run by (intro applied) auto
  qed
next
  case (Some p)
  obtain input res where p: "p = (input, res)" by fastforce
  show ?thesis
  proof (cases "input = ls")
    case True
    with Some p show ?thesis by (intro replayed) (simp_all add: move_def op_simps)
  next
    case False
    with Some p show ?thesis by (intro refused) (simp add: move_def op_simps)
  qed
qed

lemma move_ok:
  assumes "values_ok s" and "movement ls"
  shows "values_ok (snd (move key ref ls s))"
proof (cases rule: move_cases [of s key ls ref])
  case (applied res t)
  have "key \<notin> fst ` set (vs_keys s)" using applied(1) by (simp add: map_of_eq_None_iff)
  moreover have "0 \<le> held (vs_balances t) k" for k
    unfolding applied(4) by (rule fold_nonneg [OF assms(2) applied(2)]) (use assms(1) in \<open>unfold values_ok_def, blast\<close>)
  moreover have "recorded t = recorded s @ ls" by (simp add: recorded_def applied(5))
  ultimately show ?thesis using assms(1) applied by (simp add: values_ok_def held_fold)
qed (use assms in simp_all)

lemma parse_units_nonneg: "parse_units v = Inr n \<Longrightarrow> 0 \<le> n"
  by (auto simp: parse_units_def split: if_splits)

lemma bindM_amount [op_simps]: "bindM (amountM v) f s = (case parse_units v of Inl e \<Rightarrow> (Inl e, s) | Inr n \<Rightarrow> f n s)"
  by (simp add: amountM_def bindM_def)

lemma movement_requests [simp]: "movement [l]" "0 \<le> n \<Longrightarrow>
    movement [\<lparr>vl_wallet = a, vl_asset = x, vl_delta = - n\<rparr>, \<lparr>vl_wallet = b, vl_asset = x, vl_delta = n\<rparr>]"
  by (auto simp: movement_def)

lemma values_ok_frame: "vs_keys t = vs_keys s \<Longrightarrow> vs_balances t = vs_balances s \<Longrightarrow> values_ok s \<Longrightarrow> values_ok t"
  unfolding values_ok_def recorded_def by metis

lemma serve_value_ok:
  assumes "values_ok s"
  shows "values_ok (serve_value r s)"
proof (cases r)
  case (NewWallet c)
  then show ?thesis
    by (intro values_ok_frame [OF _ _ assms])
      (simp_all add: createWallet_def op_simps bindM_def [of "fresh_value x" for x] fresh_value_def split: option.split)
next
  case (ValueTick n)
  then show ?thesis by (intro values_ok_frame [OF _ _ assms]) simp_all
qed (use assms in \<open>auto simp: issue_value_def transfer_value_def redeem_value_def burn_value_def op_simps move_ok
    parse_units_nonneg split: sum.split\<close>)

lemma reachable_values_ok: "value_reachable src s \<Longrightarrow> values_ok s"
  by (induction rule: value_reachable.induct)
    (simp add: values_ok_def empty_values_def recorded_def held_def, rule serve_value_ok)

text \<open>C13: The value store is its own ledger: after any sequence of requests a balance is the sum of the
  lines of the movements that were accepted, one movement per idempotency key, and no balance is negative.\<close>

theorem balances_are_movements:
  assumes "value_reachable src s"
  shows "held (vs_balances s) k = sum_at k (recorded s) \<and> 0 \<le> held (vs_balances s) k \<and> distinct (map fst (vs_keys s))"
  using reachable_values_ok [OF assms] unfolding values_ok_def by blast

text \<open>A movement is applied once: repeated with the same key and lines it answers with the first
  result and changes nothing, with other lines it is refused; a refused movement changes nothing at all.\<close>

theorem movement_applied_once:
  assumes "move key ref ls s = (Inr res, t)"
  shows "move key ref' ls t = (Inr res, t) \<and> (ls' \<noteq> ls \<longrightarrow> move key ref' ls' t = (Inl IdempotencyReused, t)) \<and>
    (\<forall>e u. move key' ref' ls' t = (Inl e, u) \<longrightarrow> u = t)"
proof -
  have "map_of (vs_keys t) key = Some (ls, res)"
    by (cases rule: move_cases [of s key ls ref]) (use assms in \<open>auto simp: map_of_append map_add_def\<close>)
  moreover have "u = t" if "move key' ref' ls' t = (Inl e, u)" for e u
    by (cases rule: move_cases [of t key' ls' ref']) (use that in auto)
  ultimately show ?thesis by (auto simp: move_def op_simps)
qed

text \<open>A transfer moves value and makes none: the two wallets together hold what they held.\<close>

lemma transfer_conserves:
  assumes "transfer_value key ref a b v s = (Inr res, t)" and "map_of (vs_keys s) key = None" and "balance_key a (va_asset v) \<noteq> balance_key b (va_asset v)"
  shows "held (vs_balances t) (balance_key a (va_asset v)) + held (vs_balances t) (balance_key b (va_asset v)) =
    held (vs_balances s) (balance_key a (va_asset v)) + held (vs_balances s) (balance_key b (va_asset v))"
proof -
  obtain n where m: "move key ref [\<lparr>vl_wallet = a, vl_asset = va_asset v, vl_delta = - n\<rparr>,
      \<lparr>vl_wallet = b, vl_asset = va_asset v, vl_delta = n\<rparr>] s = (Inr res, t)"
    using assms(1) by (auto simp: transfer_value_def op_simps split: sum.splits)
  show ?thesis
    by (cases rule: move_cases [of s key "[\<lparr>vl_wallet = a, vl_asset = va_asset v, vl_delta = - n\<rparr>,
      \<lparr>vl_wallet = b, vl_asset = va_asset v, vl_delta = n\<rparr>]" ref])
      (use assms(2,3) m in \<open>auto simp: held_apply_line line_key_def\<close>)
qed

text \<open>What a wallet is shown of an asset whose name has a colon.\<close>

lemma asset_name_cut:
  "fst (bindM (issue_value ''k'' ''r'' ''wlt_1'' \<lparr>va_asset = ''points:store_1'', va_amount = ''7''\<rparr>) (\<lambda>_. getBalances ''wlt_1'')
     (empty_values show_nat)) = Inr [(''points'', 7)]"
  by code_simp

definition toy_values :: value_store where
  "toy_values = serve_value (Transfer ''k2'' ''r'' ''a'' ''b'' \<lparr>va_asset = ''points'', va_amount = ''3''\<rparr>)
     (serve_value (Issue ''k1'' ''r'' ''a'' \<lparr>va_asset = ''points'', va_amount = ''5''\<rparr>) (empty_values show_nat))"

theorem balances_are_movements_witness:
  "held (vs_balances toy_values) ''b:points'' = sum_at ''b:points'' (recorded toy_values) \<and> held (vs_balances toy_values) ''b:points'' = 3"
proof -
  have "value_reachable show_nat toy_values" unfolding toy_values_def by (intro value_step value_start)
  from balances_are_movements [OF this, of "''b:points''"] show ?thesis by simp code_simp
qed

theorem movement_applied_once_witness:
  "\<exists>res t. move ''k'' ''r'' [\<lparr>vl_wallet = ''a'', vl_asset = ''x'', vl_delta = 1\<rparr>] (empty_values show_nat) = (Inr res, t) \<and>
     move ''k'' ''again'' [\<lparr>vl_wallet = ''a'', vl_asset = ''x'', vl_delta = 1\<rparr>] t = (Inr res, t)"
proof -
  let ?l = "[\<lparr>vl_wallet = ''a'', vl_asset = ''x'', vl_delta = 1\<rparr>]"
  obtain res t where m: "move ''k'' ''r'' ?l (empty_values show_nat) = (Inr res, t)"
    by (cases rule: move_cases [of "empty_values show_nat" "''k''" ?l "''r''"])
      (auto simp: move_def op_simps empty_values_def held_def fresh_value_def bindM_def [of "fresh_value x" for x] Let_def)
  with movement_applied_once [OF m] show ?thesis by blast
qed

end
