(* ===== verification/Contracts.thy ===== *)
theory Contracts
  imports Refunds Billing Settlement Expiry Rewards Awards
begin

text \<open>
  What a component must promise so that the requests of another keep its invariant. A table's invariant
  does not look at most of what a request writes: \<open>effect_blind\<close> covers the effects of a capture and the points
  services, \<open>payment_contract\<close> the payment service, \<open>billing_contract\<close> the subscriptions. The lemmas say once
  what each request keeps; \<open>System\<close> interprets the contracts for the invariants of the platform.
\<close>

section \<open>The points services\<close>

context effect_blind
begin

lemma blind_mutate: "keeps P (mutateIn st c ty n r)" "keeps P (mutate st c ty n r)"
  unfolding mutate_def mutateIn_def Let_def by (auto intro!: blind_intros blind_points split: option.split)

lemma blind_adjust: "keeps P (adjust u c n r)"
  unfolding adjust_def by (intro keeps_intros blind_mutate)

lemma blind_redeem: "keeps P (redeemIdempotent sha st mode c n key b r)"
  unfolding redeemIdempotent_def execute_def
  by (rule redeem_idem.execute_keeps) (auto simp: redeem_run_def intro!: keeps_intros blind_mutate replays)

lemma blind_redeem_reward: "keeps P (redeemReward st c w)"
  unfolding redeemReward_def redeem_writes_def take_stock_def issue_voucher_def Let_def
  by (auto intro!: blind_intros blind_points split: option.split)

lemma blind_cancel: "keeps P (cancel u i)"
  unfolding cancel_def cancel_writes_def redemption_owned_def by (auto intro!: blind_intros blind_points)

lemma blind_expiry: "keeps P (expireForStore st)"
  unfolding expireForStore_def expire_one_def expireCustomer_def Let_def
  by (auto intro!: blind_intros blind_points split: option.split)

lemma blind_notices: "keeps P (notifyExpiringForStore st)"
  unfolding notifyExpiringForStore_def notify_customer_def Let_def
  by (auto intro!: blind_intros split: option.split list.split)

lemma blind_credit: "keeps P (creditPrize st c z)"
  unfolding creditPrize_def by (auto intro!: blind_intros blind_points split: option.split)

lemma blind_claim:
  assumes "\<And>n s. P s \<Longrightarrow> P (ch_others ch n s)"
  shows "keeps P (claimPrize ch g)"
proof -
  have "keeps P (claim_loop n ch excluded g)" for n excluded
    by (induction n arbitrary: excluded)
      (auto simp: claim_unit_def Let_def intro!: blind_intros assms split: option.split)
  then show ?thesis by (simp add: claimPrize_def)
qed

lemma blind_reveal:
  assumes "\<And>n s. P s \<Longrightarrow> P (ch_others ch n s)"
  shows "keeps P (reveal ch st i)"
  unfolding reveal_def reveal_writes_def Let_def using blind_claim [OF assms]
  by (auto intro!: blind_intros blind_credit split: option.split)

end

section \<open>The payment service\<close>

text \<open>
  \<open>named\<close> is what the invariant knows of a payment's identifier. A payment may be moved, refunded and
  added without a statement; its store, its amount and its statement are not the payment service's to change.
\<close>

definition same_charge :: "(payment_row \<Rightarrow> payment_row) \<Rightarrow> bool" where
  "same_charge f \<longleftrightarrow> (\<forall>p. p_id (f p) = p_id p \<and> p_amount (f p) = p_amount p \<and> p_settlement (f p) = p_settlement p \<and>
     p_currency (f p) = p_currency p \<and> p_store (f p) = p_store p)"

locale payment_contract =
  fixes P :: "db \<Rightarrow> bool" and named :: "string \<Rightarrow> bool"
  assumes known: "P s \<Longrightarrow> p \<in> set (payments s) \<Longrightarrow> named (p_id p)"
    and minted: "named (''pay_'' @ x)"
    and moved: "P s \<Longrightarrow> same_charge f \<Longrightarrow> P (s\<lparr>payments := update_where q f (payments s)\<rparr>)"
    and added: "P s \<Longrightarrow> named (p_id p) \<Longrightarrow> p_settlement p = None \<Longrightarrow> \<not> exists_by (payment_clash p) (payments s) \<Longrightarrow>
      P (s\<lparr>payments := payments s @ [p]\<rparr>)"
    and logged: "P s \<Longrightarrow> P (history_update h s)" "P s \<Longrightarrow> P (refunds_update r s)"
      "P s \<Longrightarrow> P (provider_refs_update v s)" "P s \<Longrightarrow> P (s\<lparr>idem_records := ids\<rparr>)" "P s \<Longrightarrow> P (s\<lparr>outbox := es\<rparr>)"
    and drawn: "P s \<Longrightarrow> draws s \<le> n \<Longrightarrow> P (s\<lparr>draws := n\<rparr>)"
    and effects: "named (p_id p) \<Longrightarrow> keeps P (transition_effects pc p i st)"
    and booked: "named (p_id p) \<Longrightarrow> keeps P (ledger_refund p a j)"
    and told: "keeps P (emit_event p ty)"
begin

lemma keeps_drawn: "keeps P (prefixedId x)"
  using drawn by (auto simp: keeps_def prefixedId_def)

lemma keeps_tx:
  assumes "\<And>s. P s \<Longrightarrow> P (between s)"
  shows "keeps P (transition_tx between i st reason)"
  unfolding transition_tx_def add_history_def
  by (auto intro!: keeps_intros keeps_update_many keeps_modify moved logged assms simp: same_charge_def move_to_def
      split: option.split)

text \<open>The payment a transition reports is one of the table.\<close>

lemma tx_named:
  assumes "P s" and "transition_tx between i st reason s = (Inr (p, b), t)" and "\<And>s. P s \<Longrightarrow> P (between s)"
  shows "named (p_id p)"
proof -
  from assms(2) obtain q where q: "find_by (\<lambda>x. p_id x = i) (payments s) = Some q"
    by (auto simp: transition_tx_def transaction_def op_simps split: option.splits sum.splits prod.splits)
  have "p_id p = i" using assms(2) q find_by_SomeD [OF q]
    by (auto simp: transition_tx_def transaction_def op_simps add_history_def Let_def
        split: option.splits sum.splits prod.splits if_splits dest: find_by_SomeD)
  moreover have "named i" using known [OF assms(1), of q] find_by_SomeD [OF q] by simp
  ultimately show ?thesis by simp
qed

lemma keeps_move:
  assumes "\<And>s. P s \<Longrightarrow> P (en_between en s)"
  shows "keeps P (transition en i st reason)"
  unfolding transition_def
  by (rule keeps_bind_known [where Q = "\<lambda>x. named (p_id (fst x))"])
    (auto intro!: keeps_intros keeps_tx effects assms dest: tx_named split: prod.split)

lemma keeps_scoped:
  assumes "\<And>p. named (p_id p) \<Longrightarrow> keeps P (f p)"
  shows "keeps P (bindM (findScoped st i) f)"
proof (rule keeps_bind_known [where Q = "\<lambda>p. named (p_id p)"])
  fix s p t assume "P s" "findScoped st i s = (Inr p, t)"
  then show "named (p_id p)"
    by (auto simp: findScoped_def op_simps split: option.splits if_splits dest!: find_by_SomeD intro: known)
qed (use assms keeps_findScoped in auto)

lemma keeps_requests:
  assumes "\<And>s. P s \<Longrightarrow> P (en_between en s)"
  shows "keeps P (cancel_payment en ax i)" and "keeps P (simulate en ax i st)" and "keeps P (retrieve en ax i)"
    and "keeps P (publicView en payee i)"
  unfolding cancel_payment_def simulate_def retrieve_def publicView_def applyLazyExpiry_def
  by (auto intro!: keeps_intros keeps_findScoped keeps_move assms)

lemma keeps_recorded:
  assumes "named (p_id p)" and "p_settlement p = None"
  shows "keeps P (record_payment en p kr)"
  unfolding record_payment_def add_history_def
  by (auto intro!: keeps_intros keeps_create keeps_modify added logged assms split: option.split)

lemma keeps_create_any:
  assumes "\<And>s. P s \<Longrightarrow> P (en_between en s)" and "\<And>s. P s \<Longrightarrow> P (en_others en s)"
  shows "keeps P (create_payment en ax dto key b)"
proof -
  have x: "keeps P (execute_racing sha (en_others en) rq (record_payment en (new_payment ax dto ch i qr now ex) kr))"
    if "named i" for sha rq ch i qr now ex kr
    by (rule payment_run.execute_keeps, rule keeps_recorded)
      (use that assms logged in \<open>auto simp: new_payment_def\<close>)
  have e: "keeps P (created_effects en p c r)" for p c r
    unfolding created_effects_def emitCreated_def by (intro keeps_intros told keeps_move assms)
  have q: "keeps P (assertWithinQuota o_i)" for o_i
    using assertWithinQuota_pure by (metis keepsI snd_conv surj_pair)
  have d: "keeps P (bindM (prefixedId ''pay'') f)" if "\<And>i. named i \<Longrightarrow> keeps P (f i)" for f
    by (rule keeps_bind_known [OF keeps_drawn, where Q = named]) (use that minted in \<open>auto simp: prefixedId_def\<close>)
  show ?thesis unfolding create_payment_def Let_def
    by (rule keeps_bind [OF keeps_replayed_before], split option.split,
        intro conjI allI impI keeps_seq [OF q] keeps_bind [OF keeps_find] keeps_bind [OF keeps_some] keeps_bind [OF keeps_price] d)
      (auto intro!: keeps_intros keeps_price keeps_draw_khqr x e d split: option.split prod.split)
qed

lemma keeps_refund_any:
  assumes "\<And>s. P s \<Longrightarrow> P (en_between en s)" and "\<And>s. P s \<Longrightarrow> P (en_others en s)"
  shows "keeps P (refund_payment en ax i dto key b)"
proof -
  have rec: "keeps P (record_refund p a row m)" for p a row m
    unfolding record_refund_def add_history_def
    by (auto intro!: keeps_intros keeps_update_many keeps_create keeps_modify moved logged simp: same_charge_def)
  have x: "keeps P (execute_racing sha (en_others en) rq (record_refund p a row m))" for sha rq p a row m
    by (rule refund_run.execute_keeps, rule rec) (use assms logged in auto)
  have e: "keeps P (refund_effects en p a j)" if "named (p_id p)" for p a j
    unfolding refund_effects_def emitRefunded_def
    by (auto intro!: keeps_intros booked told keeps_move assms that keeps_emit logged split: option.split)
  have pr: "keeps P (provider_refund en p a)" for p a
    unfolding provider_refund_def by (auto intro!: keeps_intros keeps_emit logged split: sum.split)
  show ?thesis unfolding refund_payment_def
    by (rule keeps_bind [OF keeps_replayed_before], split option.split, intro conjI allI impI keeps_scoped)
      (auto intro!: keeps_intros keeps_refund_amount keeps_drawn x e pr split: option.split prod.split)
qed

end

section \<open>Statements\<close>

locale settling_contract =
  fixes P :: "db \<Rightarrow> bool"
  assumes claimed: "P s \<Longrightarrow> P (s\<lparr>payments := update_where q (p_settlement_update (\<lambda>_. x)) (payments s)\<rparr>)"
    and stated: "P s \<Longrightarrow> P (s\<lparr>settlements := xs\<rparr>)"
    and drawn: "P s \<Longrightarrow> draws s \<le> n \<Longrightarrow> P (s\<lparr>draws := n\<rparr>)"
begin

lemma keeps_run_any: "keeps P (runForStore st b)"
proof -
  have d: "keeps P (prefixedId x)" for x using drawn by (auto simp: keeps_def prefixedId_def)
  have c: "keeps P (claim ids i)" for ids i
    unfolding claim_def by (auto intro!: keeps_intros keeps_update_many claimed)
  show ?thesis unfolding runForStore_def settle_next_def settleGroup_def Let_def
    by (auto intro!: keeps_intros keeps_update keeps_create c d stated split: option.split)
qed

end

section \<open>Subscriptions\<close>

text \<open>\<open>bookable\<close> is what the invariant asks of the identifiers of invoices, which the ledger refers to.\<close>

locale billing_contract =
  fixes P :: "db \<Rightarrow> bool" and bookable :: "string \<Rightarrow> bool"
  assumes issued: "P s \<Longrightarrow> x \<in> set (invoices s) \<Longrightarrow> bookable (iv_id x)"
    and fresh: "P s \<Longrightarrow> bookable (rnd s n)"
    and accounts: "P s \<Longrightarrow> P (s\<lparr>orgs := gs\<rparr>)" "P s \<Longrightarrow> P (s\<lparr>subscriptions := bs\<rparr>)"
    and invoiced: "P s \<Longrightarrow> bookable (iv_id x) \<Longrightarrow> P (s\<lparr>invoices := invoices s @ [x]\<rparr>)"
    and marked: "P s \<Longrightarrow> (\<And>x. iv_id (f x) = iv_id x) \<Longrightarrow> P (s\<lparr>invoices := update_where q f (invoices s)\<rparr>)"
    and drawn: "P s \<Longrightarrow> draws s \<le> n \<Longrightarrow> P (s\<lparr>draws := n\<rparr>)"
    and collected: "bookable i \<Longrightarrow> keeps P (postSubscriptionCollected i cur a)"
begin

lemma keeps_drawn: "keeps P randomBase58"
  using drawn by (auto simp: keeps_def randomBase58_def)

lemma keeps_activate: "keeps P (activatePlan orgId planId t)"
  unfolding activatePlan_def
  by (auto intro!: keeps_intros keeps_drawn keeps_update keeps_update_many keeps_create accounts)

lemma keeps_open: "keeps P (createOpenInvoice bl orgId planId cents)"
proof -
  have d: "keeps P (bindM randomBase58 f)" if "\<And>i. bookable i \<Longrightarrow> keeps P (f i)" for f :: "string \<Rightarrow> 'z handler"
    by (rule keeps_bind_known [OF keeps_drawn, where Q = bookable]) (use that fresh in \<open>auto simp: randomBase58_def\<close>)
  show ?thesis unfolding createOpenInvoice_def Let_def
    by (rule keeps_bind [OF keeps_gets], rule d)
      (auto intro!: keeps_intros keeps_create keeps_update invoiced marked simp: new_invoice_def split: sum.split)
qed

lemma keeps_paid: "keeps P (activateFromInvoice i)"
proof -
  have f: "keeps P (bindM (findM invoices (\<lambda>x. iv_id x = i)) f)"
    if "keeps P (f None)" and "\<And>x. bookable (iv_id x) \<Longrightarrow> keeps P (f (Some x))" for f :: "invoice_row option \<Rightarrow> bool handler"
  proof (rule keeps_bind_known [OF keeps_find, where Q = "\<lambda>r. \<forall>x. r = Some x \<longrightarrow> bookable (iv_id x)"])
    fix s r t assume "P s" "findM invoices (\<lambda>x. iv_id x = i) s = (Inr r, t)"
    then show "\<forall>x. r = Some x \<longrightarrow> bookable (iv_id x)"
      using issued by (auto simp: findM_def op_simps dest!: find_by_SomeD)
  next
    fix r :: "invoice_row option" assume "\<forall>x. r = Some x \<longrightarrow> bookable (iv_id x)"
    then show "keeps P (f r)" using that by (cases r) auto
  qed
  show ?thesis unfolding activateFromInvoice_def
    by (rule f) (auto intro!: keeps_intros keeps_update keeps_activate collected marked split: option.split)
qed

lemma keeps_billing:
  shows "keeps P (subscribe bl u orgId planId)" and "keeps P (simulateInvoicePayment bl u i)"
    and "keeps P (billing_sweep bl)"
proof -
  have dun: "keeps P (runDunning orgId)" for orgId
    unfolding runDunning_def Let_def by (auto intro!: keeps_intros keeps_update keeps_update_many accounts split: option.split)
  show "keeps P (subscribe bl u orgId planId)" "keeps P (simulateInvoicePayment bl u i)" "keeps P (billing_sweep bl)"
    unfolding subscribe_def simulateInvoicePayment_def billing_sweep_def confirm_invoice_def renew_subscription_def
    by (auto intro!: keeps_intros keeps_activate keeps_open keeps_paid dun split: option.split)
qed

end

end
