(* ===== verification/Maintenance.thy ===== *)
theory Maintenance
  imports Billing Refunds Delivery Settlement Expiry
begin

text \<open>
  \<open>apps/api/src/worker/maintenance.processor.ts\<close>: the periodic jobs over the services. Every item of
  a sweep has its own \<open>try\<close>, so one failure does not stop the rest. What the alert service
  does with a critical alert (duplicates within a time, channels) is an effect of the outbox.
\<close>

section \<open>The jobs\<close>

definition MAINTENANCE_BATCH :: nat where
  "MAINTENANCE_BATCH = 200"

text \<open>\<open>try { await m } catch { log }\<close>\<close>

definition attempt :: "'a handler \<Rightarrow> unit handler" where
  "attempt m = catchM (bindM m (\<lambda>_. ret ())) (\<lambda>_. ret ())"

definition overdue :: "int \<Rightarrow> payment_row \<Rightarrow> bool" where
  "overdue now p \<longleftrightarrow> p_status p \<in> {Pending, Scanned} \<and> p_expires p < now"

definition expirySweep :: "env \<Rightarrow> unit handler" where
  "expirySweep en =
     bindM (getsM clock) (\<lambda>now.
     bindM (manyM payments (overdue now)) (\<lambda>due.
     forM (take MAINTENANCE_BATCH due) (\<lambda>p. attempt (transition en (p_id p) Expired ''expired (sweep)''))))"

definition awaited :: "int \<Rightarrow> payment_row \<Rightarrow> bool" where
  "awaited now p \<longleftrightarrow> p_status p \<in> {Pending, Scanned} \<and> p_mode p = LiveMode \<and> now < p_expires p"

definition md5_of :: "db \<Rightarrow> payment_row \<Rightarrow> string option" where
  "md5_of s p = (case find_by (\<lambda>x. pf_payment x = p_id p) (provider_refs s) of None \<Rightarrow> None | Some x \<Rightarrow> given (pf_md5 x))"

definition poll_payment :: "env \<Rightarrow> biller \<Rightarrow> payment_row \<times> string option \<Rightarrow> unit handler" where
  "poll_payment en bl = (\<lambda>(payment, md5).
     case md5 of
       None \<Rightarrow> ret ()
     | Some m \<Rightarrow>
        attempt (bindM (liftE (bl_poll bl m)) (\<lambda>state.
          if state = ''paid'' then bindM (transition en (p_id payment) Paid ''confirmed via provider poll'') (\<lambda>_. ret ())
          else if state = ''failed'' then bindM (transition en (p_id payment) Failed ''failed per provider poll'') (\<lambda>_. ret ())
          else ret ())))"

definition statusPoll :: "env \<Rightarrow> biller \<Rightarrow> unit handler" where
  "statusPoll en bl =
     (if pv_name (bl_provider bl) = ''mock'' then ret ()
      else bindM (getsM clock) (\<lambda>now.
        bindM (getsM (\<lambda>s. map (\<lambda>p. (p, md5_of s p)) (take MAINTENANCE_BATCH (rows_where (awaited now) (payments s))))) (\<lambda>pending.
        forM pending (poll_payment en bl))))"

definition idempotencyCleanup :: "unit handler" where
  "idempotencyCleanup =
     bindM (getsM clock) (\<lambda>now.
     bindM (deleteM idem_records idem_records_update (\<lambda>x. ir_expires x < now)) (\<lambda>_. ret ()))"

definition settlementSweep :: "unit handler" where
  "settlementSweep =
     bindM (getsM (\<lambda>s. take 1000 (stores s))) (\<lambda>xs.
     forM xs (\<lambda>store. attempt (runForStore (s_id store) False)))"

definition expiring_programs :: "program_row list handler" where
  "expiring_programs = manyM programs (\<lambda>p. lp_active p \<and> lp_expiry_months p \<noteq> None)"

definition pointsExpiry :: "unit handler" where
  "pointsExpiry = bindM expiring_programs (\<lambda>ps. forM ps (\<lambda>p. attempt (expireForStore (lp_store p))))"

definition pointsExpiryNotice :: "unit handler" where
  "pointsExpiryNotice = bindM expiring_programs (\<lambda>ps. forM ps (\<lambda>p. attempt (notifyExpiringForStore (lp_store p))))"

definition pointsReconcile :: "unit handler" where
  "pointsReconcile =
     bindM (getsM (pointsDrift None)) (\<lambda>r.
     if dr_ok r then ret () else emit (Alerted ''Loyalty points ledger drift'' (dr_count r) (dr_delta r)))"

definition process_job :: "env \<Rightarrow> biller \<Rightarrow> string \<Rightarrow> unit handler" where
  "process_job en bl name =
     (if name = ''expiry-sweep'' then expirySweep en
      else if name = ''status-poll'' then statusPoll en bl
      else if name = ''idempotency-cleanup'' then idempotencyCleanup
      else if name = ''billing-sweep'' then billing_sweep bl
      else if name = ''settlement-sweep'' then settlementSweep
      else if name = ''webhook-reconcile'' then bindM (reconcilePending 120000) (\<lambda>_. ret ())
      else if name = ''points-reconcile'' then pointsReconcile
      else if name = ''points-expiry'' then pointsExpiry
      else if name = ''points-expiry-notice'' then pointsExpiryNotice
      else ret ())"

section \<open>One failure does not stop a sweep\<close>

lemma attempt_result: "attempt m s = (Inr (), snd (m s))"
  by (cases "m s") (auto simp: attempt_def catchM_def bindM_def ret_def split: sum.split)

lemma bindM_attempt [op_simps]: "bindM (attempt m) f s = f () (snd (m s))"
  by (simp add: bindM_def attempt_result)

lemma keeps_attempt [keeps_intros]: "keeps P m \<Longrightarrow> keeps P (attempt m)"
  by (simp add: keeps_def attempt_result)

section \<open>The expiry sweep\<close>

definition expired_row :: "payment_row \<Rightarrow> payment_row" where
  "expired_row p = p\<lparr>p_status := Expired\<rparr>"

lemma expired_row_fields [simp]: "p_id (expired_row p) = p_id p" "p_status (expired_row p) = Expired"
    "expired_row (expired_row p) = expired_row p"
  by (simp_all add: expired_row_def)

text \<open>One item: the payment expires, whatever the effects of that do; the other payments stay.\<close>

lemma sweep_one:
  assumes "keyed p_id (payments s)" and "en_between en = id" and "p \<in> set (payments s)" and "p_status p \<in> {Pending, Scanned}"
  shows "payments (snd (transition en (p_id p) Expired reason s)) = update_where (\<lambda>x. p_id x = p_id p) expired_row (payments s)"
proof -
  have found: "payment_of (p_id p) s = Some p" using keyed_find [OF assms(1,3)] by simp
  have legal: "canTransition (p_status p) Expired" using assms(4) by (auto simp: canTransition_def)
  obtain r t where o: "transition en (p_id p) Expired reason s = (r, t)" "core t = core (moved_db (p_id p) p Expired reason s)"
    by (rule transition_moved [of en s "p_id p" p Expired p reason]) (use assms(1,2) found legal in auto)
  have "(if p_id x = p_id p \<and> p_status x = p_status p then moved_row Expired p s x else x) =
      (if p_id x = p_id p then expired_row x else x)" if "x \<in> set (payments s)" for x
    using keyed_unique [OF assms(1) that assms(3)] by (auto simp: moved_row_def move_to_def expired_row_def)
  then have "update_where (\<lambda>x. p_id x = p_id p \<and> p_status x = p_status p) (moved_row Expired p s) (payments s) =
      update_where (\<lambda>x. p_id x = p_id p) expired_row (payments s)"
    by (auto simp: update_where_def)
  then show ?thesis using o by (simp add: core_def moved_db_def)
qed

lemma sweep_all:
  assumes "keyed p_id (payments s)" and "en_between en = id" and "distinct (map p_id ds)"
    and "\<forall>p \<in> set ds. p \<in> set (payments s) \<and> p_status p \<in> {Pending, Scanned}"
  shows "\<exists>t. forM ds (\<lambda>p. attempt (transition en (p_id p) Expired reason)) s = (Inr (), t) \<and>
    payments t = update_where (\<lambda>x. p_id x \<in> p_id ` set ds) expired_row (payments s)"
  using assms(1,3,4)
proof (induction ds arbitrary: s)
  case Nil
  then show ?case by (simp add: op_simps update_where_none)
next
  case (Cons d ds)
  let ?u = "snd (transition en (p_id d) Expired reason s)"
  have one: "payments ?u = update_where (\<lambda>x. p_id x = p_id d) expired_row (payments s)"
    using Cons.prems by (intro sweep_one assms(2)) auto
  have "\<forall>p \<in> set ds. p \<in> set (payments ?u) \<and> p_status p \<in> {Pending, Scanned}"
    using Cons.prems(2,3) by (fastforce simp: one update_where_def image_iff)
  moreover have "keyed p_id (payments ?u)" using Cons.prems(1) by (simp add: one keyed_update_where)
  ultimately obtain t where "forM ds (\<lambda>p. attempt (transition en (p_id p) Expired reason)) ?u = (Inr (), t)"
    "payments t = update_where (\<lambda>x. p_id x \<in> p_id ` set ds) expired_row (payments ?u)"
    using Cons.IH Cons.prems(2) by fastforce
  then show ?case by (auto simp: op_simps one update_where_def o_def)
qed

lemma expiry_sweep_all:
  assumes "keyed p_id (payments s)" and "en_between en = id"
  shows "\<exists>t. expirySweep en s = (Inr (), t) \<and>
    payments t = update_where (\<lambda>x. p_id x \<in> p_id ` set (take MAINTENANCE_BATCH (rows_where (overdue (clock s)) (payments s)))) expired_row (payments s)"
proof -
  let ?ds = "take MAINTENANCE_BATCH (rows_where (overdue (clock s)) (payments s))"
  have "distinct (map p_id ?ds)"
    using distinct_rows_where [OF assms(1), of "overdue (clock s)"] by (simp add: take_map [symmetric] distinct_take)
  moreover have "\<forall>p \<in> set ?ds. p \<in> set (payments s) \<and> p_status p \<in> {Pending, Scanned}"
    by (auto simp: overdue_def dest!: in_set_takeD)
  ultimately show ?thesis
    using sweep_all [OF assms, of ?ds "''expired (sweep)''"] by (auto simp: expirySweep_def op_simps)
qed

text \<open>C28: The expiry sweep leaves no payment waiting beyond its time: whatever the events and webhooks of the
  expired payments do, the first \<open>MAINTENANCE_BATCH\<close> overdue payments are expired and every other payment
  is as it was; with no more than \<open>MAINTENANCE_BATCH\<close> of them none is overdue afterwards.\<close>

theorem expiry_sweep_complete:
  assumes "keyed p_id (payments s)" and "en_between en = id"
  shows "\<exists>t. expirySweep en s = (Inr (), t) \<and>
    payments t = update_where (\<lambda>x. p_id x \<in> p_id ` set (take MAINTENANCE_BATCH (rows_where (overdue (clock s)) (payments s)))) expired_row (payments s) \<and>
    (length (rows_where (overdue (clock s)) (payments s)) \<le> MAINTENANCE_BATCH \<longrightarrow> rows_where (overdue (clock s)) (payments t) = [])"
proof -
  obtain t where t: "expirySweep en s = (Inr (), t)"
    "payments t = update_where (\<lambda>x. p_id x \<in> p_id ` set (take MAINTENANCE_BATCH (rows_where (overdue (clock s)) (payments s)))) expired_row (payments s)"
    using expiry_sweep_all [OF assms] by blast
  moreover have "rows_where (overdue (clock s)) (payments t) = []" if "length (rows_where (overdue (clock s)) (payments s)) \<le> MAINTENANCE_BATCH"
    using that by (auto simp: t(2) rows_where_def update_where_def overdue_def filter_empty_conv)
  ultimately show ?thesis by blast
qed

section \<open>Paying at the last moment\<close>

lemma keeps_forM_in: "(\<And>x. x \<in> set xs \<Longrightarrow> keeps P (f x)) \<Longrightarrow> keeps P (forM xs f)"
  by (induction xs) (simp_all add: keeps_ret keeps_seq)

lemma payment_of_core: "core_only (\<lambda>s. payment_of i s = x)"
  by (simp add: core_only_def core_def)

text \<open>A transition of one payment leaves the others.\<close>

lemma keeps_other_payment:
  assumes "en_between en = id" and "j \<noteq> i"
  shows "keeps (\<lambda>s. payment_of i s = Some p) (transition en j st reason)"
proof -
  have "keeps (\<lambda>s. payment_of i s = Some p) (transition_tx id j st reason)"
    unfolding transition_tx_def add_history_def using assms(2)
    by (auto intro!: keeps_intros keeps_update_many keeps_modify dest: find_by_SomeD
        simp: find_by_update_where move_to_def split: option.split)
  moreover have "keeps (\<lambda>s. payment_of i s = Some p) (transition_effects pc q j st)" for pc q
    using keeps_of_core [OF payment_of_core core_transition_effects] .
  ultimately show ?thesis unfolding transition_def assms(1) by (auto intro!: keeps_intros split: prod.split)
qed

lemma keeps_poll:
  assumes "en_between en = id" and "p_id (fst x) \<noteq> i"
  shows "keeps (\<lambda>s. payment_of i s = Some p) (poll_payment en bl x)"
  unfolding poll_payment_def using keeps_other_payment [OF assms]
  by (auto intro!: keeps_intros split: prod.split option.split)

text \<open>C29: Nobody asks about an overdue payment: whatever the provider would answer, the poll leaves a
  payment whose time is over as it is, and the sweep expires it. A payer who paid in the last moments is found
  only if somebody else moves the payment from expired to paid, which the status machine allows.\<close>

theorem late_payment_unseen:
  assumes "keyed p_id (payments s)" and "en_between en = id" and "p \<in> set (payments s)" and "overdue (clock s) p"
    and "length (rows_where (overdue (clock s)) (payments s)) \<le> MAINTENANCE_BATCH"
  shows "payment_of (p_id p) (snd (statusPoll en bl s)) = Some p \<and>
    (\<exists>t. expirySweep en s = (Inr (), t) \<and> payment_of (p_id p) t = Some (expired_row p) \<and>
      (\<exists>u. transition_tx id (p_id p) Paid reason t = (Inr (expired_row p\<lparr>p_status := Paid, p_paid_at := Some (clock t)\<rparr>, True), u)))"
proof -
  have here: "payment_of (p_id p) s = Some p" using keyed_find [OF assms(1,3)] .
  have "p_id (fst x) \<noteq> p_id p" if "x \<in> set (map (\<lambda>p. (p, md5_of s p)) (take MAINTENANCE_BATCH (rows_where (awaited (clock s)) (payments s))))" for x
    using that keyed_unique [OF assms(1) _ assms(3)] assms(4) by (fastforce simp: awaited_def overdue_def dest: in_set_takeD)
  then have "keeps (\<lambda>s. payment_of (p_id p) s = Some p)
      (forM (map (\<lambda>p. (p, md5_of s p)) (take MAINTENANCE_BATCH (rows_where (awaited (clock s)) (payments s)))) (poll_payment en bl))"
    using keeps_poll [OF assms(2)] by (intro keeps_forM_in) blast
  then have poll: "payment_of (p_id p) (snd (statusPoll en bl s)) = Some p"
    using here by (auto simp: statusPoll_def op_simps dest: keepsD)
  obtain t where t: "expirySweep en s = (Inr (), t)"
    "payments t = update_where (\<lambda>x. p_id x \<in> p_id ` set (take MAINTENANCE_BATCH (rows_where (overdue (clock s)) (payments s)))) expired_row (payments s)"
    using expiry_sweep_all [OF assms(1,2)] by blast
  have swept: "payment_of (p_id p) t = Some (expired_row p)"
    using here assms(3-5) by (simp add: t(2) find_by_update_where)
  have keyed: "keyed p_id (payments (id t))" using assms(1) by (simp add: t(2) keyed_update_where)
  obtain r u where tx: "transition_tx id (p_id p) Paid reason t = (r, u)" by (rule prod.exhaust)
  have "canTransition Expired Paid" by (simp add: canTransition_def)
  with tx keyed have "r = Inr (moved_row Paid (expired_row p) t (expired_row p), True)"
    by (cases rule: transition_tx_cases) (use swept in auto)
  then show ?thesis using poll t(1) swept tx by (auto simp: moved_row_def move_to_def)
qed

section \<open>Replays and the drift alarm\<close>

text \<open>Cleaning up forgets only what has expired: a key whose record is still good replays as before.\<close>

lemma find_by_delete_other: "find_by q t = Some r \<Longrightarrow> \<not> p r \<Longrightarrow> find_by q (delete_where p t) = Some r"
  unfolding find_by_def delete_where_def by (induction t) (auto split: if_splits)

lemma cleanup_keeps_replays:
  assumes "find_record scope ep k s = Some r" and "clock s \<le> ir_expires r"
  shows "find_record scope ep k (snd (idempotencyCleanup s)) = Some r"
  using assms by (simp add: find_record_def idempotencyCleanup_def op_simps find_by_delete_other)

lemma cleanup_purges: "\<forall>r \<in> set (idem_records (snd (idempotencyCleanup s))). clock s \<le> ir_expires r"
  by (simp add: idempotencyCleanup_def op_simps delete_where_def)

text \<open>The drift alarm is raised exactly when a stored balance disagrees with the ledger: the job
  changes nothing when every customer's balance is what the ledger says, and otherwise alerts once, with the number of
  customers that disagree and the difference of the totals.\<close>

theorem drift_alarm_iff:
  assumes "known_holders s"
  shows "pointsReconcile s = (Inr (), if \<forall>c \<in> set (customers s). pointsBalanceFor (c_id c) s = of_int (c_points c) then s
    else s\<lparr>outbox := outbox s @ [Alerted ''Loyalty points ledger drift'' (dr_count (pointsDrift None s)) (dr_delta (pointsDrift None s))]\<rparr>)"
proof -
  have "dr_ok (pointsDrift None s) \<longleftrightarrow> (\<forall>c \<in> set (customers s). pointsBalanceFor (c_id c) s = of_int (c_points c))"
    using drift_ok_iff [OF assms] by (simp add: mirrored_def list_all_iff)
  then show ?thesis by (simp add: pointsReconcile_def op_simps)
qed

section \<open>Instances\<close>

definition late_db :: db where
  "late_db = pending_db\<lparr>clock := p_expires pending_payment + 1\<rparr>"

lemma late_db_payment: "keyed p_id (payments late_db)" "pending_payment \<in> set (payments late_db)"
    "overdue (clock late_db) pending_payment" "length (rows_where (overdue (clock late_db)) (payments late_db)) \<le> MAINTENANCE_BATCH"
  using pending_db_payment
  by (auto simp: late_db_def overdue_def MAINTENANCE_BATCH_def pending_db_def keyed_def rows_where_def pending_payment_def sample_payment_def)

theorem expiry_sweep_complete_witness:
  "\<exists>t. expirySweep (sample_env id) late_db = (Inr (), t) \<and> rows_where (overdue (clock late_db)) (payments t) = []"
  using expiry_sweep_complete [OF late_db_payment(1), of "sample_env id"] late_db_payment(4) by (auto simp: sample_env_def)

theorem late_payment_unseen_witness:
  "\<exists>t. expirySweep (sample_env id) late_db = (Inr (), t) \<and> payment_of (p_id pending_payment) t = Some (expired_row pending_payment)"
  using late_payment_unseen [OF late_db_payment(1) _ late_db_payment(2-4), of "sample_env id"] by (auto simp: sample_env_def)

theorem drift_alarm_iff_witness: "pointsReconcile empty_db = (Inr (), empty_db)"
proof -
  have "known_holders empty_db" by (simp add: known_holders_def empty_db_def keyed_def)
  from drift_alarm_iff [OF this] show ?thesis by (simp add: empty_db_def)
qed

end
