(* ===== verification/System.thy ===== *)
theory System
  imports Contracts Maintenance Games
begin

text \<open>
  The platform as a whole: the requests of the payment, points, game, billing and settlement
  services and the jobs of the worker on one database, racing with each other, and the invariants they all keep.
\<close>

section \<open>The invariants and what they look at\<close>

text \<open>What a payment charges and for whom, once it is there.\<close>

definition terms_of :: "payment_row \<Rightarrow> decimal \<times> currency \<times> string" where
  "terms_of p = (p_amount p, p_currency p, p_store p)"

definition charge_is :: "string \<Rightarrow> decimal \<times> currency \<times> string \<Rightarrow> db \<Rightarrow> bool" where
  "charge_is i a s \<longleftrightarrow> map_option terms_of (payment_of i s) = Some a"

text \<open>
  The ledger refers to payments, invoices and points rows by their identifiers; a reference to a
  payment or an invoice is never taken for one to a points row.
\<close>

definition points_ref :: "string \<Rightarrow> bool" where
  "points_ref i \<longleftrightarrow> take 4 i = ''pts_''"

definition payment_id :: "string \<Rightarrow> bool" where
  "payment_id i \<longleftrightarrow> take 4 i = ''pay_''"

definition named_apart :: "db \<Rightarrow> bool" where
  "named_apart s \<longleftrightarrow> (\<forall>n. \<not> points_ref (rnd s n)) \<and> (\<forall>p \<in> set (payments s). payment_id (p_id p)) \<and>
     (\<forall>x \<in> set (invoices s). \<not> points_ref (iv_id x))"

definition points_kept :: "db \<Rightarrow> bool" where
  "points_kept s \<longleftrightarrow> points_sound s \<and> named_apart s"

lemma keeps_conj: "keeps A m \<Longrightarrow> keeps B m \<Longrightarrow> keeps (\<lambda>s. A s \<and> B s) m"
  by (simp add: keeps_def)

lemma keeps_points_kept: "keeps points_sound m \<Longrightarrow> keeps named_apart m \<Longrightarrow> keeps points_kept m"
  using keeps_conj [of points_sound m named_apart] by (simp add: points_kept_def [abs_def])

lemmas look_defs = tracked_def on_track_def trail_def refunds_ok_def refund_ok_def given_back_def refunds_of_def charge_is_def terms_of_def
  settlements_ok_def statement_ok_def claimed_by_def list_all_iff named_apart_def

interpretation tracked: effect_blind tracked
  by unfold_locales (simp_all add: look_defs)

interpretation refunds: effect_blind refunds_ok
  by unfold_locales (auto simp: look_defs)

interpretation charge: effect_blind "charge_is i a" for i a
  by unfold_locales (simp_all add: look_defs)

interpretation statements: effect_blind settlements_ok
  by unfold_locales (simp_all add: look_defs)

interpretation names: effect_blind named_apart
  by unfold_locales (simp_all add: look_defs)

lemma billing_look: "billing_ok s \<Longrightarrow> orgs t = orgs s \<Longrightarrow> invoices t = invoices s \<Longrightarrow> subscriptions t = subscriptions s \<Longrightarrow>
    rnd t = rnd s \<Longrightarrow> draws s \<le> draws t \<Longrightarrow> clock s \<le> clock t \<Longrightarrow> billing_ok t"
  unfolding billing_ok_def by (rule billing_frame)

interpretation accounts: effect_blind billing_ok
  by unfold_locales (erule billing_look; simp)+

section \<open>The points balances and the effects of a payment\<close>

lemma points_sound_others [simp]:
  "points_sound (s\<lparr>usages := a\<rparr>) = points_sound s" "points_sound (s\<lparr>coupons := b\<rparr>) = points_sound s"
  "points_sound (s\<lparr>coupon_redemptions := c\<rparr>) = points_sound s" "points_sound (s\<lparr>gift_cards := d\<rparr>) = points_sound s"
  "points_sound (s\<lparr>gift_txns := e\<rparr>) = points_sound s" "points_sound (s\<lparr>risk_cases := f\<rparr>) = points_sound s"
  "points_sound (s\<lparr>events := g\<rparr>) = points_sound s" "points_sound (s\<lparr>deliveries := h\<rparr>) = points_sound s"
  "points_sound (s\<lparr>settlements := l\<rparr>) = points_sound s" "points_sound (s\<lparr>orgs := m\<rparr>) = points_sound s"
  "points_sound (s\<lparr>subscriptions := n\<rparr>) = points_sound s" "points_sound (s\<lparr>invoices := q\<rparr>) = points_sound s"
  "points_sound (clock_update k s) = points_sound s"
  "points_sound (history_update x s) = points_sound s" "points_sound (refunds_update y s) = points_sound s"
  "points_sound (provider_refs_update z s) = points_sound s"
  by (rule points_sound_eq; simp)+

lemma keeps_points_draw: "keeps points_sound (prefixedId x)" "keeps points_sound randomBase58"
  by (auto simp: keeps_def prefixedId_def randomBase58_def intro: points_sound_draws)

lemmas points_intros = keeps_intros keeps_points_draw keeps_create keeps_update keeps_update_many keeps_delete keeps_modify keeps_emit

lemma keeps_points_codes:
  "keeps points_sound (recordPaidForStore st)" "keeps points_sound (coupons_onPaid p)" "keeps points_sound (giftcards_onPaid p)"
  unfolding recordPaidForStore_def recordPaid_def upsert_usage_def maybeWarn_def planForOrg_def coupons_onPaid_def
    giftcards_onPaid_def gift_debit_def Let_def
  by (auto intro!: points_intros split: option.split)

lemma keeps_points_notes: "keeps points_sound (scorePayment p)" "keeps points_sound (receipts_onPaid p)"
    "keeps points_sound (emit_event p ty)"
  unfolding scorePayment_def receipts_onPaid_def emit_event_def deliver_to_def enqueue_def
  by (auto intro!: points_intros split: option.split)

lemma keeps_points_ledger:
  assumes "payment_id (p_id p)"
  shows "keeps points_sound (ledger_capture p)" and "keeps points_sound (ledger_refund p a j)"
proof -
  obtain y where "p_id p = ''pay_'' @ y" using assms append_take_drop_id [of 4 "p_id p"] by (metis payment_id_def)
  then have apart: "p_id p \<noteq> ''pts_'' @ x" "p_id p @ '':'' @ j \<noteq> ''pts_'' @ x" for x by simp_all
  have "keeps points_sound (postPaymentCaptured p n)" "keeps points_sound (postRefund p a n j)" for n
    unfolding postPaymentCaptured_def postRefund_def captured_lines_def refund_lines_def Let_def
    by (rule keeps_post_other [OF _ apart(1)], simp add: line_of_def) (rule keeps_post_other [OF _ apart(2)], simp add: line_of_def)
  then show "keeps points_sound (ledger_capture p)" "keeps points_sound (ledger_refund p a j)"
    unfolding ledger_capture_def ledger_refund_def by (auto intro!: keeps_intros)
qed

lemma keeps_points_effects:
  assumes "payment_id (p_id p)"
  shows "keeps points_sound (transition_effects pc p i st)"
proof -
  have "keeps points_sound (announce p i st)"
    unfolding announce_def emitForStatus_def by (auto intro!: points_intros keeps_points_notes split: option.split)
  then show ?thesis unfolding transition_effects_def paid_effects_def
    by (intro keeps_intros keeps_points_codes keeps_award keeps_onPaidPayment keeps_accrueCommission keeps_points_issue
        keeps_points_notes keeps_points_ledger assms)
qed

section \<open>The contracts, discharged\<close>

interpretation charge_payments: payment_contract "charge_is i a" "\<lambda>_. True" for i a
proof
  fix s f q assume "charge_is i a s" and "same_charge f"
  moreover from this obtain p where "payment_of i s = Some p" "terms_of p = a" by (auto simp: charge_is_def)
  ultimately show "charge_is i a (s\<lparr>payments := update_where q f (payments s)\<rparr>)"
    by (simp add: charge_is_def terms_of_def find_by_update_where same_charge_def)
qed (auto simp: look_defs find_by_append charge.blind_effects charge.blind_ledger charge.blind_event)

interpretation statement_payments: payment_contract settlements_ok "\<lambda>_. True"
proof
  fix s f q assume ok: "settlements_ok s" and f: "same_charge f"
  let ?t = "s\<lparr>payments := update_where q f (payments s)\<rparr>"
  have rows: "map p_amount (claimed_by i ?t) = map p_amount (claimed_by i s)" for i
    using f unfolding claimed_by_def rows_where_def update_where_def same_charge_def by (simp add: filter_map o_def if_distrib cong: if_cong)
  then have "length (claimed_by i ?t) = length (claimed_by i s)" for i using map_eq_imp_length_eq by blast
  with rows ok have "list_all (statement_ok ?t) (settlements s)" by (simp add: settlements_ok_def list_all_iff statement_ok_def)
  then show "settlements_ok ?t" using ok f by (auto simp: settlements_ok_def update_where_def same_charge_def)
next
  fix s and p :: payment_row assume "settlements_ok s" and "p_settlement p = None"
  then show "settlements_ok (s\<lparr>payments := payments s @ [p]\<rparr>)"
    by (auto simp: settlements_ok_def list_all_iff statement_ok_def claimed_by_def rows_where_def)
qed (auto simp: look_defs statements.blind_effects statements.blind_ledger statements.blind_event)

interpretation account_payments: payment_contract billing_ok "\<lambda>_. True"
  by unfold_locales ((erule billing_look; simp) | simp add: accounts.blind_effects accounts.blind_ledger accounts.blind_event)+

interpretation points_payments: payment_contract points_kept payment_id
proof
  fix s and p :: payment_row assume "points_kept s" and "p \<in> set (payments s)"
  then show "payment_id (p_id p)" by (simp add: points_kept_def named_apart_def)
next
  fix s f q assume "points_kept s" and "same_charge f"
  then show "points_kept (s\<lparr>payments := update_where q f (payments s)\<rparr>)"
    by (auto simp: points_kept_def named_apart_def update_where_def same_charge_def)
next
  fix p :: payment_row and pc i st assume "payment_id (p_id p)"
  then show "keeps points_kept (transition_effects pc p i st)"
    by (intro keeps_points_kept keeps_points_effects names.blind_effects)
next
  fix p :: payment_row and a j assume "payment_id (p_id p)"
  then show "keeps points_kept (ledger_refund p a j)"
    by (intro keeps_points_kept keeps_points_ledger names.blind_ledger)
next
  show "keeps points_kept (emit_event p ty)" for p ty
    by (intro keeps_points_kept keeps_points_notes names.blind_event)
qed (auto simp: points_kept_def named_apart_def payment_id_def points_sound_draws)

text \<open>Claiming a payment for a statement touches nothing else of it.\<close>

lemma claim_exists: "exists_by (\<lambda>p. p_id p = i) (update_where q (p_settlement_update f) ps) = exists_by (\<lambda>p. p_id p = i) ps"
  by (simp add: exists_by_find find_by_update_where)

lemma claim_all:
  assumes "\<And>p. Q (p_settlement_update f p) = Q p"
  shows "(\<forall>p \<in> set (update_where q (p_settlement_update f) ps). Q p) = (\<forall>p \<in> set ps. Q p)"
proof -
  have "Q (if q p then p_settlement_update f p else p) = Q p" for p using assms [of p] by (cases "q p") simp_all
  then show ?thesis unfolding update_where_def set_map by (simp only: ball_simps)
qed

interpretation tracked_settling: settling_contract tracked
proof
  fix s q x assume "tracked s"
  moreover have "on_track (s\<lparr>payments := ps\<rparr>) (p_settlement_update f p) = on_track s p" "on_track (s\<lparr>payments := ps\<rparr>) p = on_track s p" for ps p f
    by (simp_all add: on_track_def trail_def)
  ultimately show "tracked (s\<lparr>payments := update_where q (p_settlement_update (\<lambda>_. x)) (payments s)\<rparr>)"
    by (simp add: tracked_def keyed_update_where claim_exists claim_all)
qed (simp_all add: look_defs)

interpretation refunds_settling: settling_contract refunds_ok
proof
  fix s q x assume "refunds_ok s"
  moreover have "refund_ok (s\<lparr>payments := ps\<rparr>) (p_settlement_update f p) = refund_ok s p" "refund_ok (s\<lparr>payments := ps\<rparr>) p = refund_ok s p" for ps p f
    by (simp_all add: refund_ok_def given_back_def refunds_of_def)
  ultimately show "refunds_ok (s\<lparr>payments := update_where q (p_settlement_update (\<lambda>_. x)) (payments s)\<rparr>)"
    by (simp add: refunds_ok_def keyed_update_where claim_exists claim_all)
qed (auto simp: look_defs)

interpretation charge_settling: settling_contract "charge_is i a" for i a
proof
  fix s q x assume "charge_is i a s"
  moreover from this obtain p where "payment_of i s = Some p" "terms_of p = a" by (auto simp: charge_is_def)
  ultimately show "charge_is i a (s\<lparr>payments := update_where q (p_settlement_update (\<lambda>_. x)) (payments s)\<rparr>)"
    by (simp add: charge_is_def terms_of_def find_by_update_where)
qed (simp_all add: look_defs)

interpretation account_settling: settling_contract billing_ok
  by unfold_locales (erule billing_look; simp)+

interpretation points_settling: settling_contract points_kept
  by unfold_locales (auto simp: points_kept_def named_apart_def update_where_def points_sound_draws)

interpretation tracked_billing: billing_contract tracked "\<lambda>_. True"
  by unfold_locales (simp_all add: look_defs tracked.blind_post postSubscriptionCollected_def)

interpretation refunds_billing: billing_contract refunds_ok "\<lambda>_. True"
  by unfold_locales (auto simp: look_defs refunds.blind_post postSubscriptionCollected_def)

interpretation charge_billing: billing_contract "charge_is i a" "\<lambda>_. True" for i a
  by unfold_locales (simp_all add: look_defs charge.blind_post postSubscriptionCollected_def)

interpretation statement_billing: billing_contract settlements_ok "\<lambda>_. True"
  by unfold_locales (simp_all add: look_defs statements.blind_post postSubscriptionCollected_def)

interpretation points_billing: billing_contract points_kept "\<lambda>i. \<not> points_ref i"
proof
  fix i cur a assume "\<not> points_ref i"
  then have "i \<noteq> ''pts_'' @ x" for x by (auto simp: points_ref_def)
  then have "keeps points_sound (postSubscriptionCollected i cur a)"
    unfolding postSubscriptionCollected_def by (intro keeps_post_other) (simp_all add: line_of_def)
  moreover have "keeps named_apart (postSubscriptionCollected i cur a)"
    unfolding postSubscriptionCollected_def by (rule names.blind_post)
  ultimately show "keeps points_kept (postSubscriptionCollected i cur a)" by (rule keeps_points_kept)
qed (auto simp: points_kept_def named_apart_def update_where_def points_sound_draws)

section \<open>The requests\<close>

datatype request =
  CreatePayment env api_key_ctx create_dto "string option" string
| MovePayment env string payment_status string
| CancelPayment env api_key_ctx string
| SimulateStatus env api_key_ctx string payment_status
| RetrievePayment env api_key_ctx string
| ViewCheckout env "string \<Rightarrow> currency \<Rightarrow> key_mode \<Rightarrow> string option" string
| RefundRequest env api_key_ctx string refund_dto "string option" string
| AdjustPoints auth_user string int "string option"
| RedeemPoints "string \<Rightarrow> string" string key_mode string int "string option" string "string option"
| BuyReward string string string
| CancelVoucher auth_user string
| RevealCard chance string string
| ChoosePlan biller auth_user string string
| PayInvoice biller auth_user string
| SettleNow auth_user string
| RunJob env biller string
| Elapse nat

definition void :: "'a handler \<Rightarrow> unit handler" where
  "void m = bindM m (\<lambda>_. ret ())"

fun handle :: "request \<Rightarrow> unit handler" where
  "handle (CreatePayment en ax dto key b) = void (create_payment en ax dto key b)"
| "handle (MovePayment en i st reason) = void (transition en i st reason)"
| "handle (CancelPayment en ax i) = void (cancel_payment en ax i)"
| "handle (SimulateStatus en ax i st) = void (simulate en ax i st)"
| "handle (RetrievePayment en ax i) = void (retrieve en ax i)"
| "handle (ViewCheckout en payee i) = void (publicView en payee i)"
| "handle (RefundRequest en ax i dto key b) = void (refund_payment en ax i dto key b)"
| "handle (AdjustPoints u c n reason) = void (adjust u c n reason)"
| "handle (RedeemPoints sha st mode c n key b reason) = void (redeemIdempotent sha st mode c n key b reason)"
| "handle (BuyReward st c w) = void (redeemReward st c w)"
| "handle (CancelVoucher u i) = void (cancel u i)"
| "handle (RevealCard ch st i) = void (reveal ch st i)"
| "handle (ChoosePlan bl u orgId planId) = void (subscribe bl u orgId planId)"
| "handle (PayInvoice bl u i) = void (simulateInvoicePayment bl u i)"
| "handle (SettleNow u st) = void (runNow u st)"
| "handle (RunJob en bl name) = void (process_job en bl name)"
| "handle (Elapse n) = modifyM (clock_update (\<lambda>t. t + int n))"

definition run_request :: "request \<Rightarrow> db \<Rightarrow> db" where
  "run_request r s = snd (handle r s)"

text \<open>The writes of others that a request meets where it does not hold a transaction.\<close>

definition meets :: "env \<Rightarrow> (db \<Rightarrow> db) set" where
  "meets en = {en_others en, en_between en}"

fun races :: "request \<Rightarrow> (db \<Rightarrow> db) set" where
  "races (CreatePayment en ax dto key b) = meets en"
| "races (MovePayment en i st reason) = meets en"
| "races (CancelPayment en ax i) = meets en"
| "races (SimulateStatus en ax i st) = meets en"
| "races (RetrievePayment en ax i) = meets en"
| "races (ViewCheckout en payee i) = meets en"
| "races (RefundRequest en ax i dto key b) = meets en"
| "races (RevealCard ch st i) = range (ch_others ch)"
| "races (RunJob en bl name) = meets en"
| "races _ = {}"

text \<open>
  What the database may go through: requests one after the other, each meeting at its unprotected
  points whatever the database may go through.
\<close>

inductive concurrent :: "(db \<Rightarrow> db) \<Rightarrow> bool" where
  quiet: "concurrent (\<lambda>s. s)"
| served: "concurrent f \<Longrightarrow> \<forall>g \<in> races r. concurrent g \<Longrightarrow> concurrent (\<lambda>s. run_request r (f s))"

inductive_cases concurrentE: "concurrent f"

definition kept_by :: "(db \<Rightarrow> bool) \<Rightarrow> (db \<Rightarrow> db) \<Rightarrow> bool" where
  "kept_by P f \<longleftrightarrow> (\<forall>s. P s \<longrightarrow> P (f s))"

lemma concurrent_keeps:
  assumes "concurrent f" and "\<And>r. \<forall>g \<in> races r. concurrent g \<and> kept_by P g \<Longrightarrow> keeps P (handle r)"
  shows "kept_by P f"
  using assms(1)
proof induction
  case (served f r)
  then have "keeps P (handle r)" by (intro assms(2)) blast
  with served(2) show ?case by (simp add: kept_by_def run_request_def keepsD)
qed (simp add: kept_by_def)

lemma keeps_void [keeps_intros]: "keeps P m \<Longrightarrow> keeps P (void m)"
  unfolding void_def by (intro keeps_intros)

section \<open>Each request keeps each invariant\<close>

lemma keeps_job:
  assumes "\<And>i st reason. keeps P (transition en i st reason)" and "keeps P (billing_sweep bl)"
    and "\<And>st b. keeps P (runForStore st b)" and "\<And>st. keeps P (expireForStore st)" and "\<And>st. keeps P (notifyExpiringForStore st)"
    and "\<And>s x. P s \<Longrightarrow> P (s\<lparr>outbox := x\<rparr>)" and "\<And>s x. P s \<Longrightarrow> P (s\<lparr>idem_records := x\<rparr>)"
  shows "keeps P (process_job en bl name)"
proof -
  have poll: "keeps P (poll_payment en bl x)" for x
    unfolding poll_payment_def by (auto intro!: keeps_intros assms(1) split: prod.split option.split)
  have "keeps P (expirySweep en)" "keeps P (statusPoll en bl)"
    unfolding expirySweep_def statusPoll_def by (intro keeps_intros assms(1) poll)+
  moreover have "keeps P settlementSweep" "keeps P pointsExpiry" "keeps P pointsExpiryNotice"
    unfolding settlementSweep_def pointsExpiry_def pointsExpiryNotice_def expiring_programs_def by (intro keeps_intros assms(3-5))+
  moreover have "keeps P idempotencyCleanup" "keeps P pointsReconcile" "keeps P (reconcilePending n)" for n
    unfolding idempotencyCleanup_def pointsReconcile_def reconcilePending_def enqueue_def
    by (intro keeps_intros keeps_delete keeps_emit assms(6,7); assumption)+
  ultimately show ?thesis unfolding process_job_def using assms(2) by (intro keeps_intros; assumption?)
qed

lemma keeps_settle_now: "(\<And>st b. keeps P (runForStore st b)) \<Longrightarrow> keeps P (runNow u st)"
  unfolding runNow_def by (auto intro!: keeps_intros)

section \<open>An invariant of the platform\<close>

text \<open>
  What a service owes an invariant of the platform: each of its operations keeps it, provided the
  writes it meets do. Then every course of requests keeps it.
\<close>

abbreviation calm :: "(db \<Rightarrow> bool) \<Rightarrow> env \<Rightarrow> bool" where
  "calm P en \<equiv> concurrent (en_others en) \<and> concurrent (en_between en) \<and> kept_by P (en_others en) \<and> kept_by P (en_between en)"

locale platform_invariant =
  fixes P :: "db \<Rightarrow> bool"
  assumes moves: "calm P en \<Longrightarrow> keeps P (transition en i st reason)"
    and creates: "calm P en \<Longrightarrow> keeps P (create_payment en ax dto key b)"
    and others: "calm P en \<Longrightarrow> keeps P (cancel_payment en ax i)" "calm P en \<Longrightarrow> keeps P (simulate en ax i st)"
      "calm P en \<Longrightarrow> keeps P (retrieve en ax i)" "calm P en \<Longrightarrow> keeps P (publicView en payee i)"
    and gives_back: "calm P en \<Longrightarrow> keeps P (refund_payment en ax i rdto key b)"
    and points: "keeps P (adjust u c n rsn)" "keeps P (redeemIdempotent sha sto mode c n key b rsn)" "keeps P (redeemReward sto c w)"
      "keeps P (cancel u i)" "keeps P (expireForStore sto)" "keeps P (notifyExpiringForStore sto)"
    and draws_card: "(\<And>n. kept_by P (ch_others ch n)) \<Longrightarrow> keeps P (reveal ch sto i)"
    and bills: "keeps P (subscribe bl u orgId planId)" "keeps P (simulateInvoicePayment bl u i)" "keeps P (billing_sweep bl)"
    and settles: "keeps P (runForStore sto today)"
    and frees: "P s \<Longrightarrow> P (s\<lparr>outbox := es\<rparr>)" "P s \<Longrightarrow> P (s\<lparr>idem_records := rs\<rparr>)"
      "P s \<Longrightarrow> P (clock_update (\<lambda>t. t + int k) s)"
begin

lemma handle_kept:
  assumes "\<forall>g \<in> races r. concurrent g \<and> kept_by P g"
  shows "keeps P (handle r)"
proof -
  have jobs: "keeps P (process_job en bl name)" if "calm P en" for en bl name
    by (intro keeps_job moves bills settles points frees that)
  have now: "keeps P (runNow u st)" for u st by (intro keeps_settle_now settles)
  show ?thesis using assms
    by (cases r) (simp_all add: meets_def keeps_void keeps_modify frees moves creates others gives_back points draws_card bills jobs now)
qed

lemma concurrent_kept: "concurrent f \<Longrightarrow> P s \<Longrightarrow> P (f s)"
  using concurrent_keeps [OF _ handle_kept] by (auto simp: kept_by_def)

end

lemma kept_byD: "kept_by P f \<Longrightarrow> P s \<Longrightarrow> P (f s)"
  by (simp add: kept_by_def)

lemma tracking_calm: "calm tracked en \<Longrightarrow> tracking en"
  by (simp add: tracking_def kept_by_def)

context payment_contract
begin

lemma calm_requests:
  assumes "calm P en"
  shows "keeps P (transition en i st reason)" and "keeps P (create_payment en ax dto key b)" and "keeps P (cancel_payment en ax i)"
    and "keeps P (simulate en ax i st)" and "keeps P (retrieve en ax i)" and "keeps P (publicView en payee i)"
    and "keeps P (refund_payment en ax i rdto key b)"
  using assms by (simp_all add: kept_by_def keeps_move keeps_create_any keeps_requests keeps_refund_any)

end

context effect_blind
begin

lemma blind_services: "keeps P (adjust u c n rsn)" "keeps P (redeemIdempotent sha sto mode c n key b rsn)" "keeps P (redeemReward sto c w)"
    "keeps P (cancel u i)" "keeps P (expireForStore sto)" "keeps P (notifyExpiringForStore sto)"
  by (rule blind_adjust blind_redeem blind_redeem_reward blind_cancel blind_expiry blind_notices)+

lemma calm_reveal: "(\<And>n. kept_by P (ch_others ch n)) \<Longrightarrow> keeps P (reveal ch sto i)"
  by (rule blind_reveal) (rule kept_byD)

end

interpretation tracked_platform: platform_invariant tracked
proof
  fix en ax i st reason dto key b payee rdto assume "calm tracked en"
  then have t: "tracking en" by (rule tracking_calm)
  show "keeps tracked (transition en i st reason)" using t by (rule tracking_transition)
  show "keeps tracked (create_payment en ax dto key b)" using t by (rule keeps_create_payment)
  show "keeps tracked (cancel_payment en ax i)" "keeps tracked (simulate en ax i st)" "keeps tracked (retrieve en ax i)"
    "keeps tracked (publicView en payee i)" using t by (rule keeps_others)+
  show "keeps tracked (refund_payment en ax i rdto key b)" using t by (rule keeps_refund)
qed (rule tracked.blind_services tracked.calm_reveal tracked_billing.keeps_billing tracked_settling.keeps_run_any | assumption | simp add: look_defs)+

interpretation charge_platform: platform_invariant "charge_is i a" for i a
  by unfold_locales (rule charge_payments.calm_requests charge.blind_services charge.calm_reveal charge_billing.keeps_billing
      charge_settling.keeps_run_any | assumption | simp add: look_defs)+

interpretation statement_platform: platform_invariant settlements_ok
  by unfold_locales (rule statement_payments.calm_requests statements.blind_services statements.calm_reveal statement_billing.keeps_billing
      keeps_runForStore | assumption | simp add: look_defs)+

interpretation account_platform: platform_invariant billing_ok
  by unfold_locales (rule account_payments.calm_requests accounts.blind_services accounts.calm_reveal keeps_subscribe keeps_simulate
      keeps_sweep account_settling.keeps_run_any | assumption | (erule billing_look; simp))+

text \<open>No request ever changes what a payment charges, so the races are fair to the refunds.\<close>

lemma fair_concurrent:
  assumes "concurrent f" and "kept_by refunds_ok f"
  shows "fair f"
proof -
  have "charge_of i (f s) = charge_of i s" if "charge_of i s \<noteq> None" for i s
    using charge_platform.concurrent_kept [OF assms(1), of i _ s] that by (auto simp: charge_is_def charge_of_def terms_of_def)
  then show ?thesis using assms(2) by (simp add: fair_def kept_by_def)
qed

interpretation refund_platform: platform_invariant refunds_ok
proof
  fix en ax i st reason dto key b payee rdto assume "calm refunds_ok en"
  then have f: "fair_env en" by (simp add: fair_env_def fair_concurrent)
  show "keeps refunds_ok (transition en i st reason)" using f by (rule moves_keep_refunds)
  show "keeps refunds_ok (create_payment en ax dto key b)" using f by (rule keeps_create_request)
  show "keeps refunds_ok (cancel_payment en ax i)" "keeps refunds_ok (simulate en ax i st)" "keeps refunds_ok (retrieve en ax i)"
    "keeps refunds_ok (publicView en payee i)" using f by (rule keeps_other_requests)+
  show "keeps refunds_ok (refund_payment en ax i rdto key b)" using f by (rule keeps_refund_request)
next
  fix s k assume "refunds_ok s"
  moreover have "core (clock_update (\<lambda>t. t + int k) s) = core s" by (simp add: core_def)
  ultimately show "refunds_ok (clock_update (\<lambda>t. t + int k) s)"
    using refunds_core(1) [unfolded core_only_def, rule_format, of "clock_update (\<lambda>t. t + int k) s" s] by simp
qed (rule refunds.blind_services refunds.calm_reveal refunds_billing.keeps_billing refunds_settling.keeps_run_any | assumption | erule refunds.outboxes refunds.replays)+

lemma keeps_points_cancel: "keeps points_sound (cancel u i)"
proof (rule keepsI)
  fix s assume s: "points_sound s"
  show "points_sound (snd (cancel u i s))"
  proof (cases "fst (redemption_owned u i s)")
    case (Inl e)
    then show ?thesis using s by (simp add: cancel_def redemption_owned_def op_simps)
  next
    case (Inr r)
    then obtain t where "redemption_owned u i s = (Inr r, t)" by (cases "redemption_owned u i s") simp
    then have found: "find_by (\<lambda>x. rd_id x = i) (redemptions s) = Some r" by (auto simp: redemption_owned_def ownedM_Inr)
    then have "rd_id r = i" by (auto dest: find_by_SomeD)
    with found have there: "exists_by (\<lambda>x. rd_id x = rd_id r) (redemptions s)" by (simp add: exists_by_find)
    obtain res t where w: "cancel_writes r s = (res, t)" by (rule prod.exhaust)
    from cancel_writes_cases [OF w s there] s have "points_sound t" by blast
    then show ?thesis using Inr w s
      by (auto simp: cancel_def redemption_owned_def op_simps bindM_def [of "cancel_writes r"] ret_def split: sum.split)
  qed
qed

lemma keeps_points_card:
  assumes "\<And>n. kept_by points_kept (ch_others ch n)"
  shows "keeps points_kept (reveal ch sto i)"
proof -
  have unit: "keeps points_kept (claim_unit z)" for z
    by (intro keeps_points_kept) (auto simp: claim_unit_def intro!: points_intros names.blind_intros)
  have "keeps points_kept (claim_loop n ch excluded g)" for n excluded g
    by (induction n arbitrary: excluded)
      (auto simp: Let_def intro!: keeps_intros keeps_modify unit kept_byD [OF assms] split: option.split)
  then have claim: "keeps points_kept (claimPrize ch g)" for g by (simp add: claimPrize_def)
  have credit: "keeps points_kept (creditPrize st c z)" for st c z
    by (intro keeps_points_kept keeps_creditPrize names.blind_credit)
  have play: "keeps points_kept (updateM plays plays_update q f)" for q f
    by (intro keeps_points_kept) (auto intro!: points_intros names.blind_intros)
  show ?thesis unfolding reveal_def reveal_writes_def Let_def
    by (auto intro!: keeps_intros claim credit play split: option.split)
qed

interpretation points_platform: platform_invariant points_kept
proof
  fix u c n rsn sha sto mode key b w i
  show "keeps points_kept (adjust u c n rsn)"
    by (intro keeps_points_kept names.blind_services) (auto simp: adjust_def intro!: keeps_intros keeps_mutate)
  show "keeps points_kept (redeemIdempotent sha sto mode c n key b rsn)" by (intro keeps_points_kept names.blind_services keeps_redeemIdempotent)
  show "keeps points_kept (redeemReward sto c w)" by (intro keeps_points_kept names.blind_services keeps_redeemReward)
  show "keeps points_kept (expireForStore sto)" by (intro keeps_points_kept names.blind_services keeps_expireForStore)
  have "keeps points_sound (notifyExpiringForStore sto)"
    unfolding notifyExpiringForStore_def notify_customer_def Let_def
    by (auto intro!: points_intros split: option.split list.split)
  then show "keeps points_kept (notifyExpiringForStore sto)" by (intro keeps_points_kept names.blind_services)
  show "keeps points_kept (cancel u i)" by (intro keeps_points_kept names.blind_services keeps_points_cancel)
qed (rule points_payments.calm_requests keeps_points_card points_billing.keeps_billing points_settling.keeps_run_any | assumption | simp add: points_kept_def look_defs)+

section \<open>The platform\<close>

definition platform_ok :: "db \<Rightarrow> bool" where
  "platform_ok s \<longleftrightarrow> tracked s \<and> refunds_ok s \<and> settlements_ok s \<and> billing_ok s \<and> points_kept s"


text \<open>What a payment charges is settled when it is created: no course of events removes a payment,
  changes its amount or its currency, or moves it to another store.\<close>

theorem charge_is_final:
  assumes "concurrent f" and "find_by (\<lambda>p. p_id p = i) (payments s) = Some p"
  shows "\<exists>q. find_by (\<lambda>p. p_id p = i) (payments (f s)) = Some q \<and> terms_of q = terms_of p"
  using charge_platform.concurrent_kept [OF assms(1), of i "terms_of p" s] assms(2) by (auto simp: charge_is_def)

section \<open>Instances\<close>

text \<open>The worker polls a payment while the bank's callback moves it and the sweep runs.\<close>

definition busy :: "db \<Rightarrow> db" where
  "busy s = run_request (RunJob (sample_env id) \<lparr>bl_provider = en_provider (sample_env id), bl_poll = \<lambda>_. Inr ''paid''\<rparr> ''expiry-sweep'')
     (run_request (MovePayment (sample_env (\<lambda>s. run_request (MovePayment (sample_env (\<lambda>s. s)) ''pay_1'' Paid ''callback'') s)) ''pay_1'' Paid ''poll'') s)"

lemma busy_concurrent: "concurrent busy"
proof -
  let ?en = "sample_env (\<lambda>s. s)"
  have quietly: "\<forall>g \<in> meets (sample_env h). concurrent g" if "concurrent h" for h
    using that quiet by (simp add: meets_def sample_env_def id_def)
  have one: "concurrent (\<lambda>s. run_request (MovePayment ?en ''pay_1'' Paid ''callback'') s)"
    by (rule served [OF quiet]) (simp only: races.simps, rule quietly [OF quiet])
  have "concurrent (\<lambda>s. run_request (MovePayment (sample_env (\<lambda>s. run_request (MovePayment ?en ''pay_1'' Paid ''callback'') s)) ''pay_1'' Paid ''poll'') s)"
    by (rule served [OF quiet]) (simp only: races.simps, rule quietly [OF one])
  from served [OF this, of "RunJob (sample_env id) \<lparr>bl_provider = en_provider (sample_env id), bl_poll = \<lambda>_. Inr ''paid''\<rparr> ''expiry-sweep''"]
  show ?thesis using quietly [OF quiet] by (simp add: busy_def [abs_def] id_def del: ball_simps)
qed

lemma pending_db_ok: "platform_ok pending_db"
proof -
  have "refunds_ok pending_db" 
    by (simp add: refunds_ok_def refund_ok_def given_back_def refunds_of_def pending_db_def quota_db_def empty_db_def pending_payment_def sample_payment_def keyed_def rows_where_def)
  moreover have "settlements_ok pending_db"
    by (simp add: settlements_ok_def pending_db_def quota_db_def empty_db_def pending_payment_def sample_payment_def keyed_def)
  moreover have "billing_ok pending_db"
    by (simp add: billing_ok_def billing_but_def accounts_ok_def grace_ok_def suspension_ok_def sample_org_def pending_db_def
      quota_db_def empty_db_def keyed_def inj_show_nat)
  moreover have "points_sound pending_db"
    by (rule points_sound_cong [OF _ _ _ _ _ _ points_sound_empty]) (simp_all add: pending_db_def quota_db_def empty_db_def)
  moreover have "\<not> points_ref (show_nat n)" for n
  proof
    assume "points_ref (show_nat n)"
    then have "take 4 (show_nat n) = ''pts_''" by (simp add: points_ref_def)
    then have "CHR ''p'' \<in> set (show_nat n)" by (metis in_set_takeD list.set_intros(1))
    with show_nat_digits [of n] show False by (auto simp: is_digit_def)
  qed
  then have "named_apart pending_db"
    by (simp add: named_apart_def payment_id_def pending_db_def quota_db_def empty_db_def pending_payment_def sample_payment_def)
  ultimately show ?thesis using pending_db_tracked by (simp add: platform_ok_def points_kept_def)
qed


theorem charge_is_final_witness:
  "\<exists>q. find_by (\<lambda>p. p_id p = ''pay_1'') (payments (busy pending_db)) = Some q \<and> terms_of q = terms_of pending_payment"
  using busy_concurrent pending_db_payment(1) by (rule charge_is_final)

end
