(* ===== verification/Separators.thy ===== *)
theory Separators
  imports Main
begin

text \<open>Keys that are joined with a separator: the last part is found again when it does not hold the separator.\<close>

lemma split_at_last: "a @ c # b = a' @ c # b' \<Longrightarrow> c \<notin> set b \<Longrightarrow> c \<notin> set b' \<Longrightarrow> a = a' \<and> b = b'"
proof -
  assume 1: "a @ c # b = a' @ c # b'" and 2: "c \<notin> set b" "c \<notin> set b'"
  then have "rev b @ c # rev a = rev b' @ c # rev a'" by (metis append.assoc append_Cons append_Nil rev.simps(2) rev_append)
  moreover have "takeWhile (\<lambda>x. x \<noteq> c) (rev b @ c # rev a) = rev b" "takeWhile (\<lambda>x. x \<noteq> c) (rev b' @ c # rev a') = rev b'"
    using 2 by (auto simp: takeWhile_append)
  ultimately have "rev b = rev b' \<and> rev a = rev a'" by (metis append_eq_append_conv list.inject)
  then show ?thesis by simp
qed

end
