(* ===== verification/RateLimits.thy ===== *)
theory RateLimits
  imports SharedTypes Separators
begin

text \<open>
  \<open>apps/api/src/ratelimit\<close>: the fixed-window limiter in front of every route and the per-account
  throttle of failed sign-ins. Redis is not part of the repository: its commands are the fields of
  \<open>redis\<close>, and \<open>redis_ok\<close> states what its documentation says of them, through the value and the
  expiry time that a key has at a moment. Times are in milliseconds.
\<close>

section \<open>Redis\<close>

record 'r redis =
  rd_incr :: "string \<Rightarrow> int \<Rightarrow> 'r \<Rightarrow> int \<times> 'r"
  rd_ttl :: "string \<Rightarrow> int \<Rightarrow> 'r \<Rightarrow> int"
  rd_expire :: "string \<Rightarrow> int \<Rightarrow> int \<Rightarrow> 'r \<Rightarrow> 'r"
  rd_get :: "string \<Rightarrow> int \<Rightarrow> 'r \<Rightarrow> int option"
  rd_del :: "string \<Rightarrow> int \<Rightarrow> 'r \<Rightarrow> 'r"

text \<open>What a key holds: a counter and, when it has one, the time at which it expires.\<close>

type_synonym entry = "(int \<times> int option) option"

definition alive :: "int \<Rightarrow> entry \<Rightarrow> entry" where
  "alive now e = (case e of Some (n, Some t) \<Rightarrow> if t \<le> now then None else e | _ \<Rightarrow> e)"

definition incremented :: "entry \<Rightarrow> int \<times> int option" where
  "incremented e = (case e of None \<Rightarrow> (1, None) | Some (n, t) \<Rightarrow> (n + 1, t))"

definition redis_ok :: "'r redis \<Rightarrow> ('r \<Rightarrow> string \<Rightarrow> entry) \<Rightarrow> bool" where
  "redis_ok R view \<longleftrightarrow>
     (\<forall>k now r. fst (rd_incr R k now r) = fst (incremented (alive now (view r k))) \<and>
        view (snd (rd_incr R k now r)) = (view r)(k := Some (incremented (alive now (view r k))))) \<and>
     (\<forall>k secs now r. 0 < secs \<longrightarrow> view (rd_expire R k secs now r) =
        (view r)(k := map_option (\<lambda>(n, _). (n, Some (now + 1000 * secs))) (alive now (view r k)))) \<and>
     (\<forall>k now r. case alive now (view r k) of None \<Rightarrow> rd_ttl R k now r = - 2
        | Some (_, None) \<Rightarrow> rd_ttl R k now r = - 1 | Some (_, Some t) \<Rightarrow> 0 \<le> rd_ttl R k now r) \<and>
     (\<forall>k now r. rd_get R k now r = map_option fst (alive now (view r k))) \<and>
     (\<forall>k now r. view (rd_del R k now r) = (view r)(k := None))"

section \<open>The fixed window\<close>

text \<open>\<open>FIXED_WINDOW_LUA\<close>: the script runs as one command.\<close>

definition FIXED_WINDOW :: "'r redis \<Rightarrow> string \<Rightarrow> int \<Rightarrow> int \<Rightarrow> 'r \<Rightarrow> (int \<times> int) \<times> 'r" where
  "FIXED_WINDOW R k windowSec now r =
     (let (c, r1) = rd_incr R k now r;
          r2 = (if c = 1 \<or> rd_ttl R k now r1 < 0 then rd_expire R k windowSec now r1 else r1)
      in ((c, rd_ttl R k now r2), r2))"

section \<open>The guards\<close>

datatype limit_by = ByIp | ByApiKey

record rate_limit_options =
  rl_limit :: int
  rl_window_sec :: int
  rl_by :: limit_by

record http_request =
  rq_ip :: "string option"
  rq_remote :: "string option"
  rq_api_key :: "string option"
  rq_path :: string

definition remote_address :: "http_request \<Rightarrow> string" where
  "remote_address q = (case rq_ip q of Some i \<Rightarrow> i | None \<Rightarrow>
     (case rq_remote q of Some a \<Rightarrow> a | None \<Rightarrow> ''unknown''))"

definition subject :: "http_request \<Rightarrow> limit_by \<Rightarrow> string" where
  "subject q by = (case (by, rq_api_key q) of (ByApiKey, Some k) \<Rightarrow> k | _ \<Rightarrow> remote_address q)"

definition by_name :: "limit_by \<Rightarrow> string" where
  "by_name by = (case by of ByIp \<Rightarrow> ''ip'' | ByApiKey \<Rightarrow> ''apiKey'')"

definition bucket :: "limit_by \<Rightarrow> string \<Rightarrow> string \<Rightarrow> string" where
  "bucket by subj route = ''rl:'' @ by_name by @ '':'' @ subj @ '':'' @ route"

definition tooMany :: exn where
  "tooMany = ApiError RateLimitExceeded ''Too many requests, slow down''"

text \<open>
  The outcome of a guard, the headers it sets and what Redis holds then. Without Redis
  (\<open>up\<close> is false) the request passes and no header is set.
\<close>

type_synonym 'r verdict = "(exn + unit) \<times> (string \<times> int) list \<times> 'r"

definition canActivate ::
    "'r redis \<Rightarrow> bool \<Rightarrow> rate_limit_options option \<Rightarrow> string \<Rightarrow> int \<Rightarrow> http_request \<Rightarrow> 'r \<Rightarrow> 'r verdict" where
  "canActivate R up opts route now q r =
     (case opts of None \<Rightarrow> (Inr (), [], r)
      | Some op \<Rightarrow>
          if \<not> up then (Inr (), [], r)
          else (let ((count, ttlRaw), r') = FIXED_WINDOW R (bucket (rl_by op) (subject q (rl_by op)) route) (rl_window_sec op) now r;
                    ttl = (if ttlRaw < 0 then rl_window_sec op else ttlRaw);
                    headers = [(''RateLimit-Limit'', rl_limit op), (''RateLimit-Remaining'', max 0 (rl_limit op - count)),
                      (''RateLimit-Reset'', max 0 ttl)]
                in if rl_limit op < count then (Inl tooMany, headers @ [(''Retry-After'', max 1 ttl)], r')
                   else (Inr (), headers, r')))"

definition GLOBAL_LIMIT :: int where "GLOBAL_LIMIT = 200"
definition GLOBAL_WINDOW :: int where "GLOBAL_WINDOW = 10"

definition word_char :: "char \<Rightarrow> bool" where
  "word_char c \<longleftrightarrow> (let n = of_char c :: nat in 48 \<le> n \<and> n \<le> 57 \<or> 65 \<le> n \<and> n \<le> 90 \<or> n = 95 \<or> 97 \<le> n \<and> n \<le> 122)"

text \<open>\<open>/^\/(health|ready|metrics)\b/\<close>.\<close>

definition skipped_path :: "string \<Rightarrow> bool" where
  "skipped_path p \<longleftrightarrow> list_ex (\<lambda>w. take (length w) p = w \<and>
     (length p = length w \<or> \<not> word_char (p ! length w))) [''/health'', ''/ready'', ''/metrics'']"

definition global_bucket :: "http_request \<Rightarrow> string" where
  "global_bucket q = ''rl:global:'' @ remote_address q"

definition globalThrottle :: "'r redis \<Rightarrow> bool \<Rightarrow> bool \<Rightarrow> int \<Rightarrow> http_request \<Rightarrow> 'r \<Rightarrow> 'r verdict" where
  "globalThrottle R up http now q r =
     (if \<not> http \<or> skipped_path (rq_path q) \<or> \<not> up then (Inr (), [], r)
      else (let ((count, ttlRaw), r') = FIXED_WINDOW R (global_bucket q) GLOBAL_WINDOW now r in
        if GLOBAL_LIMIT < count
        then (Inl tooMany, [(''Retry-After'', max 1 (if ttlRaw < 0 then GLOBAL_WINDOW else ttlRaw))], r')
        else (Inr (), [], r')))"

section \<open>The account throttle\<close>

definition ACCOUNT_LIMIT :: int where "ACCOUNT_LIMIT = 10"
definition ACCOUNT_WINDOW_SEC :: int where "ACCOUNT_WINDOW_SEC = 15 * 60"

text \<open>The digest of the normalised e-mail address (\<open>digest\<close>) is what the key names.\<close>

definition account_key :: "(string \<Rightarrow> string) \<Rightarrow> string \<Rightarrow> string \<Rightarrow> string" where
  "account_key digest scope account = ''rl:acct:'' @ scope @ '':'' @ take 32 (digest (trim (to_lower account)))"

definition throttle_check :: "'r redis \<Rightarrow> bool \<Rightarrow> string \<Rightarrow> int \<Rightarrow> 'r \<Rightarrow> exn + unit" where
  "throttle_check R up key now r =
     (if \<not> up then Inr ()
      else if ACCOUNT_LIMIT \<le> (case rd_get R key now r of None \<Rightarrow> 0 | Some n \<Rightarrow> n)
      then Inl (ApiError RateLimitExceeded ''Too many attempts for this account. Try again later.'') else Inr ())"

definition throttle_record :: "'r redis \<Rightarrow> bool \<Rightarrow> string \<Rightarrow> int \<Rightarrow> 'r \<Rightarrow> 'r" where
  "throttle_record R up key now r = (if up then snd (FIXED_WINDOW R key ACCOUNT_WINDOW_SEC now r) else r)"

definition throttle_clear :: "'r redis \<Rightarrow> bool \<Rightarrow> string \<Rightarrow> int \<Rightarrow> 'r \<Rightarrow> 'r" where
  "throttle_clear R up key now r = (if up then rd_del R key now r else r)"

section \<open>What a window does to its entry\<close>

definition window_step :: "int \<Rightarrow> int \<Rightarrow> entry \<Rightarrow> int \<times> int option" where
  "window_step w now e =
     (case alive now e of
        None \<Rightarrow> (1, Some (now + 1000 * w))
      | Some (n, t) \<Rightarrow> (n + 1, if n = 0 \<or> t = None then Some (now + 1000 * w) else t))"

lemma fixed_window_step:
  assumes "redis_ok R view" and "0 < w" and "FIXED_WINDOW R k w now r = ((c, ttl), r')"
  shows "c = fst (window_step w now (view r k)) \<and> view r' = (view r)(k := Some (window_step w now (view r k)))"
proof -
  obtain c1 r1 where r1: "rd_incr R k now r = (c1, r1)" by fastforce
  have incr: "c1 = fst (incremented (alive now (view r k)))" "view r1 = (view r)(k := Some (incremented (alive now (view r k))))"
    using assms(1) r1 unfolding redis_ok_def by (metis fst_conv, metis snd_conv)
  have ttl: "case alive now (view r1 k) of None \<Rightarrow> rd_ttl R k now r1 = - 2
        | Some (_, None) \<Rightarrow> rd_ttl R k now r1 = - 1 | Some (_, Some t) \<Rightarrow> 0 \<le> rd_ttl R k now r1"
    using assms(1) unfolding redis_ok_def by blast
  have expire: "view (rd_expire R k w now r1) =
      (view r1)(k := map_option (\<lambda>(n, _). (n, Some (now + 1000 * w))) (alive now (view r1 k)))"
    using assms(1,2) unfolding redis_ok_def by blast
  have run: "(c, ttl) = (c1, rd_ttl R k now (if c1 = 1 \<or> rd_ttl R k now r1 < 0 then rd_expire R k w now r1 else r1))"
      "r' = (if c1 = 1 \<or> rd_ttl R k now r1 < 0 then rd_expire R k w now r1 else r1)"
    using assms(3) by (auto simp: FIXED_WINDOW_def r1 Let_def)
  define e where "e = alive now (view r k)"
  define e1 where "e1 = alive now (view r1 k)"
  have view1: "view r1 k = Some (incremented e)" "view r1 = (view r)(k := Some (incremented e))" "c1 = fst (incremented e)"
    using incr by (simp_all add: e_def)
  have alive1: "e1 = Some (incremented e)"
    using view1(1) unfolding e1_def by (auto simp: e_def alive_def incremented_def split: option.splits prod.splits if_splits)
  have rearmed: "view (rd_expire R k w now r1) = (view r)(k := Some (fst (incremented e), Some (now + 1000 * w)))"
    using expire alive1 view1(2) unfolding e1_def [symmetric] by (simp add: case_prod_beta)
  have ttl1: "rd_ttl R k now r1 < 0 \<longleftrightarrow> snd (incremented e) = None"
    using ttl alive1 unfolding e1_def [symmetric] by (cases "incremented e") (auto split: option.splits)
  have step: "window_step w now (view r k) =
      (fst (incremented e), if fst (incremented e) = 1 \<or> snd (incremented e) = None then Some (now + 1000 * w) else snd (incremented e))"
    unfolding window_step_def e_def [symmetric] by (simp add: incremented_def split: option.split)
  show ?thesis
  proof (cases "fst (incremented e) = 1 \<or> snd (incremented e) = None")
    case True
    then show ?thesis using run rearmed step view1(3) ttl1 by auto
  next
    case False
    then show ?thesis using run step view1 ttl1 by (cases "incremented e") auto
  qed
qed

text \<open>The times at which the requests that hit one bucket at \<open>ts\<close> pass.\<close>

fun allowed :: "int \<Rightarrow> int \<Rightarrow> entry \<Rightarrow> int list \<Rightarrow> int list" where
  "allowed w l e [] = []"
| "allowed w l e (t # ts) = (if fst (window_step w t e) \<le> l then [t] else []) @ allowed w l (Some (window_step w t e)) ts"

fun entry_after :: "int \<Rightarrow> entry \<Rightarrow> int list \<Rightarrow> entry" where
  "entry_after w e [] = e"
| "entry_after w e (t # ts) = entry_after w (Some (window_step w t e)) ts"

abbreviation counted :: "('a \<Rightarrow> bool) \<Rightarrow> 'a list \<Rightarrow> nat" where
  "counted p ts \<equiv> length (filter p ts)"

definition proper :: "entry \<Rightarrow> bool" where
  "proper e \<longleftrightarrow> (case e of None \<Rightarrow> True | Some (n, t) \<Rightarrow> 1 \<le> n \<and> t \<noteq> None)"

lemma proper_step: "proper e \<Longrightarrow> proper (Some (window_step w t e))"
  by (auto simp: proper_def window_step_def alive_def split: option.splits)

lemma proper_entry_after: "proper e \<Longrightarrow> proper (entry_after w e ts)"
  by (induction ts arbitrary: e) (auto simp: proper_step)

lemma allowed_append: "allowed w l e (ts @ us) = allowed w l e ts @ allowed w l (entry_after w e ts) us"
  by (induction ts arbitrary: e) simp_all

lemma set_allowed: "set (allowed w l e ts) \<subseteq> set ts"
  by (induction ts arbitrary: e) auto

lemma open_window: "1 \<le> n \<Longrightarrow> t < x \<Longrightarrow> window_step w t (Some (n, Some x)) = (n + 1, Some x)"
  by (simp add: window_step_def alive_def)

lemma new_window: "proper e \<Longrightarrow> alive t e = None \<Longrightarrow> window_step w t e = (1, Some (t + 1000 * w))"
  by (simp add: window_step_def)

lemma one_more: "m \<le> nat (l - (n + 1)) \<Longrightarrow> (if n + 1 \<le> l then Suc m else m) \<le> nat (l - n)"
  by (cases "n + 1 \<le> l") auto

lemma allowed_hit:
  assumes "t < x" and "1 \<le> n" and "counted (\<lambda>u. u < x) (allowed w l (Some (n + 1, Some x)) ts) \<le> nat (l - (n + 1))"
  shows "counted (\<lambda>u. u < x) (allowed w l (Some (n, Some x)) (t # ts)) \<le> nat (l - n)"
proof -
  have "counted (\<lambda>u. u < x) (allowed w l (Some (n, Some x)) (t # ts)) =
      (if n + 1 \<le> l then Suc (counted (\<lambda>u. u < x) (allowed w l (Some (n + 1, Some x)) ts))
       else counted (\<lambda>u. u < x) (allowed w l (Some (n + 1, Some x)) ts))"
    using assms(1,2) by (simp add: open_window)
  then show ?thesis using one_more [OF assms(3)] by (rule ord_eq_le_trans)
qed

lemma allowed_late:
  assumes "\<forall>u \<in> set ts. x \<le> u"
  shows "counted (\<lambda>u. u < x) (allowed w l e ts) = 0"
proof -
  have "\<forall>u \<in> set (allowed w l e ts). \<not> u < x" using assms set_allowed [of w l e ts] by (meson not_le subsetD)
  then show ?thesis by simp
qed

lemma allowed_in_window:
  "sorted ts \<Longrightarrow> 1 \<le> n \<Longrightarrow> counted (\<lambda>u. u < x) (allowed w l (Some (n, Some x)) ts) \<le> nat (l - n)"
proof (induction ts arbitrary: n)
  case Nil
  show ?case by simp
next
  case (Cons t ts)
  have "sorted ts" "1 \<le> n + 1" using Cons.prems by simp_all
  from Cons.IH [OF this] have hit: "t < x \<Longrightarrow> ?case" using Cons.prems(2) by (intro allowed_hit)
  have "\<not> t < x \<Longrightarrow> \<forall>u \<in> set (t # ts). x \<le> u" using Cons.prems(1) by auto
  then have "\<not> t < x \<Longrightarrow> counted (\<lambda>u. u < x) (allowed w l (Some (n, Some x)) (t # ts)) = 0" by (rule allowed_late)
  then show ?case using hit by (cases "t < x") (simp_all only: le0 simp_thms)
qed

lemma entry_in_window: "1 \<le> n \<Longrightarrow> \<forall>t \<in> set ts. t < x \<Longrightarrow>
    \<exists>m \<ge> 1. entry_after w (Some (n, Some x)) ts = Some (m, Some x)"
  by (induction ts arbitrary: n) (auto simp: open_window)

lemma counted_mono: "(\<And>t. t \<in> set ts \<Longrightarrow> p t \<Longrightarrow> q t) \<Longrightarrow> counted p ts \<le> counted q ts"
  by (induction ts) auto

lemma allowed_new_window:
  assumes "sorted ts" and "proper e" and "\<forall>t \<in> set ts. alive t e = None \<and> a \<le> t"
  shows "counted (\<lambda>t. t < a + 1000 * w) (allowed w l e ts) \<le> nat l"
proof (cases ts)
  case (Cons t us)
  have step: "window_step w t e = (1, Some (t + 1000 * w))" using assms Cons by (simp add: new_window)
  have "counted (\<lambda>u. u < a + 1000 * w) (allowed w l (Some (1, Some (t + 1000 * w))) us)
      \<le> counted (\<lambda>u. u < t + 1000 * w) (allowed w l (Some (1, Some (t + 1000 * w))) us)"
    using assms(3) Cons by (intro counted_mono) auto
  also have "\<dots> \<le> nat (l - 1)" using allowed_in_window [of us 1] assms(1) Cons by simp
  finally show ?thesis using Cons step by auto
qed simp

lemma sorted_cut:
  assumes "sorted (ts :: int list)"
  shows "ts = filter (\<lambda>t. t < x) ts @ filter (\<lambda>t. x \<le> t) ts"
  using assms
proof (induction ts)
  case (Cons t ts)
  show ?case
  proof (cases "t < x")
    case False
    with Cons.prems have "filter (\<lambda>t. t < x) (t # ts) = []" "filter (\<lambda>t. x \<le> t) (t # ts) = t # ts"
      by (auto simp: filter_empty_conv filter_id_conv)
    then show ?thesis by (simp only: append_Nil)
  qed (use Cons in simp)
qed simp

lemma allowed_two_windows:
  assumes "sorted ts" and "proper e" and "\<forall>t \<in> set ts. a \<le> t"
  shows "counted (\<lambda>t. t < a + 1000 * w) (allowed w l e ts) \<le> nat (2 * l - 1)"
proof (cases e)
  case None
  then have "\<forall>t \<in> set ts. alive t e = None \<and> a \<le> t" using assms(3) by (simp add: alive_def)
  from allowed_new_window [OF assms(1,2) this, of w l] show ?thesis by simp
next
  case (Some p)
  with assms(2) obtain n x where e: "e = Some (n, Some x)" and n: "1 \<le> n"
    by (cases p) (auto simp: proper_def)
  define us where "us = filter (\<lambda>t. t < x) ts"
  define vs where "vs = filter (\<lambda>t. x \<le> t) ts"
  have ts: "ts = us @ vs" unfolding us_def vs_def by (rule sorted_cut [OF assms(1)])
  have srt: "sorted us" "sorted vs" using assms(1) by (simp_all add: us_def vs_def sorted_wrt_filter)
  obtain m where m: "m \<ge> 1" "entry_after w e us = Some (m, Some x)"
    using entry_in_window [OF n, of us x w] e by (auto simp: us_def)
  have "counted (\<lambda>t. t < a + 1000 * w) (allowed w l e us) \<le> counted (\<lambda>t. t < x) (allowed w l e us)"
    using set_allowed [of w l e us] by (intro counted_mono) (auto simp: us_def)
  also have "\<dots> \<le> nat (l - n)" unfolding e by (rule allowed_in_window [OF srt(1) n])
  also have "\<dots> \<le> nat (l - 1)" using n by simp
  finally have 1: "counted (\<lambda>t. t < a + 1000 * w) (allowed w l e us) \<le> nat (l - 1)" .
  have 2: "counted (\<lambda>t. t < a + 1000 * w) (allowed w l (Some (m, Some x)) vs) \<le> nat l"
    using assms(3) m(1) by (intro allowed_new_window [OF srt(2)]) (auto simp: vs_def alive_def proper_def)
  show ?thesis using 1 2 ts m(2) by (simp add: allowed_append)
qed

text \<open>However the requests fall, no span as long as the window lets through twice the limit.\<close>

lemma allowed_any_span:
  assumes "sorted ts" and "proper e"
  shows "counted (\<lambda>t. a \<le> t \<and> t < a + 1000 * w) (allowed w l e ts) \<le> nat (2 * l - 1)"
proof -
  define us where "us = filter (\<lambda>t. t < a) ts"
  define vs where "vs = filter (\<lambda>t. a \<le> t) ts"
  have ts: "ts = us @ vs" unfolding us_def vs_def by (rule sorted_cut [OF assms(1)])
  have "filter (\<lambda>t. a \<le> t \<and> t < a + 1000 * w) (allowed w l e us) = []"
    using set_allowed [of w l e us] by (auto simp: filter_empty_conv us_def)
  moreover have "counted (\<lambda>t. a \<le> t \<and> t < a + 1000 * w) (allowed w l (entry_after w e us) vs)
      \<le> counted (\<lambda>t. t < a + 1000 * w) (allowed w l (entry_after w e us) vs)"
    by (intro counted_mono) simp
  moreover have "\<dots> \<le> nat (2 * l - 1)"
    using assms by (intro allowed_two_windows) (auto simp: vs_def sorted_wrt_filter proper_entry_after)
  ultimately show ?thesis using ts by (simp add: allowed_append)
qed

section \<open>Buckets do not meet\<close>

text \<open>A route is the name of a controller and of its handler, which hold no colon; an address may.\<close>

lemma bucket_eq:
  assumes "CHR '':'' \<notin> set route" and "CHR '':'' \<notin> set route'"
  shows "bucket by subj route = bucket by' subj' route' \<longleftrightarrow> by = by' \<and> subj = subj' \<and> route = route'"
proof
  assume eq: "bucket by subj route = bucket by' subj' route'"
  then have same: "by = by'" by (cases "by"; cases by') (simp_all add: bucket_def by_name_def)
  with eq have "subj @ CHR '':'' # route = subj' @ CHR '':'' # route'" by (simp add: bucket_def)
  with same show "by = by' \<and> subj = subj' \<and> route = route'" using split_at_last [OF _ assms] by blast
qed simp

lemma global_bucket_apart: "global_bucket q \<noteq> bucket by subj route"
  by (cases "by") (simp_all add: global_bucket_def bucket_def by_name_def)

section \<open>A course of requests\<close>

text \<open>
  Every request meets the global guard first and then the guard of its route. \<open>passed\<close> are
  the requests of a course that reach their handler.
\<close>

record arrival =
  ar_at :: int
  ar_route :: string
  ar_http :: bool
  ar_request :: http_request

definition guarded :: "'r redis \<Rightarrow> bool \<Rightarrow> (string \<Rightarrow> rate_limit_options option) \<Rightarrow> arrival \<Rightarrow> 'r \<Rightarrow> bool \<times> 'r" where
  "guarded R up opts a r =
     (case globalThrottle R up (ar_http a) (ar_at a) (ar_request a) r of
        (Inl e, h, r') \<Rightarrow> (False, r')
      | (Inr _, h, r') \<Rightarrow> (case canActivate R up (opts (ar_route a)) (ar_route a) (ar_at a) (ar_request a) r' of
            (Inl e, h', r'') \<Rightarrow> (False, r'')
          | (Inr _, h', r'') \<Rightarrow> (True, r'')))"

fun passed :: "'r redis \<Rightarrow> bool \<Rightarrow> (string \<Rightarrow> rate_limit_options option) \<Rightarrow> arrival list \<Rightarrow> 'r \<Rightarrow> arrival list" where
  "passed R up opts [] r = []"
| "passed R up opts (a # as) r =
     (let (ok, r') = guarded R up opts a r in (if ok then [a] else []) @ passed R up opts as r')"

text \<open>A limited bucket: its key, its window and limit, and what the requests of a course do to it.\<close>

lemma globalThrottle_hit:
  assumes "redis_ok R view" and "globalThrottle R True http now q r = (res, h, r')"
  shows "if http \<and> \<not> skipped_path (rq_path q)
    then view r' = (view r)(global_bucket q := Some (window_step GLOBAL_WINDOW now (view r (global_bucket q)))) \<and>
      ((\<exists>x. res = Inr x) \<longleftrightarrow> fst (window_step GLOBAL_WINDOW now (view r (global_bucket q))) \<le> GLOBAL_LIMIT)
    else r' = r \<and> (\<exists>x. res = Inr x)"
proof (cases "FIXED_WINDOW R (global_bucket q) GLOBAL_WINDOW now r")
  case (Pair p r1)
  obtain c ttl where p: "p = (c, ttl)" by (cases p)
  from fixed_window_step [OF assms(1) _ Pair [unfolded p]]
  have "c = fst (window_step GLOBAL_WINDOW now (view r (global_bucket q)))"
      "view r1 = (view r)(global_bucket q := Some (window_step GLOBAL_WINDOW now (view r (global_bucket q))))"
    by (simp_all add: GLOBAL_WINDOW_def)
  then show ?thesis using assms(2) Pair p by (auto simp: globalThrottle_def split: if_splits)
qed

lemma canActivate_hit:
  assumes "redis_ok R view" and "opts = Some op" and "0 < rl_window_sec op"
    and "canActivate R True opts route now q r = (res, h, r')"
  defines "k \<equiv> bucket (rl_by op) (subject q (rl_by op)) route"
  shows "view r' = (view r)(k := Some (window_step (rl_window_sec op) now (view r k))) \<and>
    ((\<exists>x. res = Inr x) \<longleftrightarrow> fst (window_step (rl_window_sec op) now (view r k)) \<le> rl_limit op)"
proof (cases "FIXED_WINDOW R k (rl_window_sec op) now r")
  case (Pair p r1)
  obtain c ttl where p: "p = (c, ttl)" by (cases p)
  from fixed_window_step [OF assms(1,3) Pair [unfolded p]]
  have "c = fst (window_step (rl_window_sec op) now (view r k))"
      "view r1 = (view r)(k := Some (window_step (rl_window_sec op) now (view r k)))" by simp_all
  then show ?thesis using assms(2,4) Pair p
    by (auto simp: canActivate_def k_def Let_def split: if_splits)
qed

definition hits :: "rate_limit_options \<Rightarrow> string \<Rightarrow> string \<Rightarrow> arrival \<Rightarrow> bool" where
  "hits op route subj a \<longleftrightarrow> ar_route a = route \<and> subject (ar_request a) (rl_by op) = subj"

definition sane_limits :: "(string \<Rightarrow> rate_limit_options option) \<Rightarrow> bool" where
  "sane_limits opts \<longleftrightarrow> (\<forall>route op. opts route = Some op \<longrightarrow> 0 < rl_window_sec op)"

text \<open>A request either leaves a bucket alone and is not counted in it, or is a step of its window.\<close>

lemma guarded_bucket:
  fixes subj
  assumes "redis_ok R view" and "sane_limits opts" and "opts route = Some op"
    and "CHR '':'' \<notin> set route" and "CHR '':'' \<notin> set (ar_route a)" and run: "guarded R True opts a r = (ok, r')"
  defines "k \<equiv> bucket (rl_by op) subj route"
  shows "view r' k = view r k \<and> (ok \<longrightarrow> \<not> hits op route subj a) \<or>
    hits op route subj a \<and> view r' k = Some (window_step (rl_window_sec op) (ar_at a) (view r k)) \<and>
    (ok \<longleftrightarrow> fst (window_step (rl_window_sec op) (ar_at a) (view r k)) \<le> rl_limit op)"
proof -
  obtain res h r1 where g: "globalThrottle R True (ar_http a) (ar_at a) (ar_request a) r = (res, h, r1)"
    by (metis prod_cases3)
  have apart: "k \<noteq> global_bucket (ar_request a)" unfolding k_def using global_bucket_apart by metis
  have same: "view r1 k = view r k"
    using globalThrottle_hit [OF assms(1) g] apart by (auto split: if_splits)
  show ?thesis
  proof (cases res)
    case (Inl e)
    with run g same show ?thesis by (simp add: guarded_def)
  next
    case (Inr x)
    obtain res' h' r2 where c:
      "canActivate R True (opts (ar_route a)) (ar_route a) (ar_at a) (ar_request a) r1 = (res', h', r2)" by (metis prod_cases3)
    have r': "r' = r2" "ok \<longleftrightarrow> (\<exists>x. res' = Inr x)" using run g Inr c by (auto simp: guarded_def split: sum.splits)
    show ?thesis
    proof (cases "opts (ar_route a)")
      case None
      with c have "r2 = r1" by (simp add: canActivate_def)
      moreover have "\<not> hits op route subj a" using None assms(3) by (auto simp: hits_def)
      ultimately show ?thesis using same r' by simp
    next
      case (Some op')
      define k' where "k' = bucket (rl_by op') (subject (ar_request a) (rl_by op')) (ar_route a)"
      have step: "view r2 = (view r1)(k' := Some (window_step (rl_window_sec op') (ar_at a) (view r1 k')))"
          "(\<exists>x. res' = Inr x) \<longleftrightarrow> fst (window_step (rl_window_sec op') (ar_at a) (view r1 k')) \<le> rl_limit op'"
        using canActivate_hit [OF assms(1) Some _ c] assms(2) Some by (auto simp: sane_limits_def k'_def)
      have "k' = k \<longleftrightarrow> hits op route subj a"
        unfolding k'_def k_def bucket_eq [OF assms(5,4)] using Some assms(3) by (auto simp: hits_def)
      moreover have "hits op route subj a \<Longrightarrow> op' = op" using Some assms(3) by (simp add: hits_def)
      ultimately show ?thesis using step same r' by (cases "k' = k") auto
    qed
  qed
qed

lemma passed_bucket:
  assumes "redis_ok R view" and "sane_limits opts" and "opts route = Some op" and "CHR '':'' \<notin> set route"
    and "\<forall>a \<in> set as. CHR '':'' \<notin> set (ar_route a)" and "sorted (map ar_at as)"
  shows "\<exists>ts. sorted ts \<and> set ts \<subseteq> set (map ar_at as) \<and>
    map ar_at (filter (hits op route subj) (passed R True opts as r)) =
      allowed (rl_window_sec op) (rl_limit op) (view r (bucket (rl_by op) subj route)) ts"
  using assms(5,6)
proof (induction as arbitrary: r)
  case Nil
  show ?case by (intro exI [of _ "[]"]) simp
next
  case (Cons a as)
  define k where "k = bucket (rl_by op) subj route"
  define n where "n = window_step (rl_window_sec op) (ar_at a) (view r k)"
  obtain ok r' where run: "guarded R True opts a r = (ok, r')" by fastforce
  have sorted_as: "sorted (map ar_at as)" "\<forall>t \<in> set (map ar_at as). ar_at a \<le> t" "\<forall>a \<in> set as. CHR '':'' \<notin> set (ar_route a)"
    using Cons.prems by simp_all
  from Cons.IH [OF sorted_as(3,1), of r'] obtain ts where ts: "sorted ts" "set ts \<subseteq> set (map ar_at as)"
      "map ar_at (filter (hits op route subj) (passed R True opts as r')) = allowed (rl_window_sec op) (rl_limit op) (view r' k) ts"
    unfolding k_def by (elim exE conjE)
  have passed: "passed R True opts (a # as) r = (if ok then [a] else []) @ passed R True opts as r'" using run by simp
  have "CHR '':'' \<notin> set (ar_route a)" using Cons.prems(1) by simp
  from guarded_bucket [OF assms(1-4) this run, of subj, folded k_def, folded n_def] show ?case
  proof (elim disjE conjE)
    assume "view r' k = view r k" "ok \<longrightarrow> \<not> hits op route subj a"
    with ts passed show ?case unfolding k_def [symmetric] by (intro exI [of _ ts]) (simp add: subset_insertI2)
  next
    assume "hits op route subj a" "view r' k = Some n" "ok = (fst n \<le> rl_limit op)"
    moreover have "sorted (ar_at a # ts)" using ts(1,2) sorted_as(2) by auto
    ultimately show ?case using ts(2,3) passed unfolding k_def [symmetric]
      by (intro exI [of _ "ar_at a # ts"]) (simp add: n_def subset_insertI2)
  qed
qed

lemma counted_map: "counted p (map f xs) = counted (\<lambda>x. p (f x)) xs"
  by (induction xs) simp_all

text \<open>C35: The limit of a route holds whatever the mix of requests: when Redis keeps its documentation, no span as long
  as the window of a route lets through more than twice its limit less one of one caller (one window may end and the next
  begin within it), however the requests of all callers to all routes are spread in time, and whether or not the
  global guard refuses some of them first.
\<close>

theorem route_limit_holds:
  assumes "redis_ok R view" and "sane_limits opts" and "opts route = Some op" and "CHR '':'' \<notin> set route"
    and "\<forall>a \<in> set as. CHR '':'' \<notin> set (ar_route a)" and "sorted (map ar_at as)"
    and "proper (view r (bucket (rl_by op) subj route))"
  shows "length (filter (\<lambda>a. hits op route subj a \<and> start \<le> ar_at a \<and> ar_at a < start + 1000 * rl_window_sec op)
    (passed R True opts as r)) \<le> nat (2 * rl_limit op - 1)"
proof -
  obtain ts where ts: "sorted ts" "map ar_at (filter (hits op route subj) (passed R True opts as r)) =
      allowed (rl_window_sec op) (rl_limit op) (view r (bucket (rl_by op) subj route)) ts"
    using passed_bucket [OF assms(1-6), of subj r] by (elim exE conjE) (rule that)
  have "counted (\<lambda>t. start \<le> t \<and> t < start + 1000 * rl_window_sec op)
      (map ar_at (filter (hits op route subj) (passed R True opts as r))) \<le> nat (2 * rl_limit op - 1)"
    by (subst ts(2)) (rule allowed_any_span [OF ts(1) assms(7)])
  then show ?thesis by (simp only: counted_map filter_filter)
qed

section \<open>The account throttle\<close>

lemma throttle_record_step: "redis_ok R view \<Longrightarrow>
    view (throttle_record R True k now r) = (view r)(k := Some (window_step ACCOUNT_WINDOW_SEC now (view r k)))"
  using fixed_window_step [of R view ACCOUNT_WINDOW_SEC k now r]
  by (cases "FIXED_WINDOW R k ACCOUNT_WINDOW_SEC now r") (auto simp: throttle_record_def ACCOUNT_WINDOW_SEC_def)

lemma fold_throttle_record: "redis_ok R view \<Longrightarrow>
    view (fold (throttle_record R True k) ts r) k = entry_after ACCOUNT_WINDOW_SEC (view r k) ts"
  by (induction ts arbitrary: r) (simp_all add: throttle_record_step)

lemma entry_after_open: "1 \<le> n \<Longrightarrow> \<forall>t \<in> set ts. t < x \<Longrightarrow>
    entry_after w (Some (n, Some x)) ts = Some (n + int (length ts), Some x)"
  by (induction ts arbitrary: n) (simp_all add: open_window)

text \<open>An account is locked by its tenth failure and no earlier, and until fifteen minutes after the first of them:
  in that time a check is refused exactly when ten failures have been recorded, and afterwards it passes.
\<close>

theorem throttle_locks:
  assumes "redis_ok R view" and "view r k = None" and "\<forall>t \<in> set ts. t < first + 1000 * ACCOUNT_WINDOW_SEC"
  shows "throttle_check R True k now (fold (throttle_record R True k) (first # ts) r) = Inr () \<longleftrightarrow>
    length (first # ts) < 10 \<or> first + 1000 * ACCOUNT_WINDOW_SEC \<le> now"
proof -
  let ?r = "fold (throttle_record R True k) (first # ts) r"
  have "view ?r k = Some (1 + int (length ts), Some (first + 1000 * ACCOUNT_WINDOW_SEC))"
    unfolding fold_throttle_record [OF assms(1)] using assms(2,3)
    by (simp add: window_step_def alive_def entry_after_open)
  moreover have "rd_get R k now ?r = map_option fst (alive now (view ?r k))"
    using assms(1) by (simp add: redis_ok_def)
  ultimately show ?thesis by (auto simp: throttle_check_def alive_def ACCOUNT_LIMIT_def)
qed

text \<open>A success clears it.\<close>

lemma throttle_cleared:
  assumes "redis_ok R view"
  shows "throttle_check R True k now (throttle_clear R True k t r) = Inr ()"
proof -
  have "view (rd_del R k t r) = (view r)(k := None)" using assms by (simp add: redis_ok_def)
  moreover have "rd_get R k now (rd_del R k t r) = map_option fst (alive now (view (rd_del R k t r) k))"
    using assms by (simp add: redis_ok_def)
  ultimately show ?thesis by (simp add: throttle_check_def throttle_clear_def alive_def ACCOUNT_LIMIT_def)
qed

section \<open>Without Redis, and what a refusal says\<close>

text \<open>Without Redis every request reaches its handler: the limiter fails open, in every guard.\<close>

lemma passed_without_redis: "passed R False cfg as r = as"
  by (induction as arbitrary: r) (simp_all add: guarded_def globalThrottle_def canActivate_def split: option.split)

theorem limiter_fails_open:
  "canActivate R False opts route now q r = (Inr (), [], r) \<and> globalThrottle R False http now q r = (Inr (), [], r) \<and>
   throttle_check R False k now r = Inr () \<and> passed R False cfg as r = as"
  by (simp add: passed_without_redis canActivate_def globalThrottle_def throttle_check_def split: option.split)

lemma canActivate_refused:
  assumes "canActivate R up opts route now q r = (Inl e, h, r')"
  shows "e = tooMany \<and> up \<and> (\<exists>op. opts = Some op \<and> (''RateLimit-Remaining'', 0) \<in> set h \<and>
    (\<exists>s \<ge> 1. (''Retry-After'', s) \<in> set h))"
  using assms by (auto simp: canActivate_def Let_def split: option.splits prod.splits if_splits)

section \<open>Instances\<close>

text \<open>A Redis that keeps its documentation: every key with its counter and its expiry; a time to live is rounded.\<close>

definition model_redis :: "(string \<Rightarrow> entry) redis" where
  "model_redis = \<lparr>rd_incr = (\<lambda>k now r. (fst (incremented (alive now (r k))), r(k := Some (incremented (alive now (r k)))))),
     rd_ttl = (\<lambda>k now r. case alive now (r k) of None \<Rightarrow> - 2 | Some (_, None) \<Rightarrow> - 1 | Some (_, Some t) \<Rightarrow> (t - now + 500) div 1000),
     rd_expire = (\<lambda>k secs now r. r(k := map_option (\<lambda>(n, _). (n, Some (now + 1000 * secs))) (alive now (r k)))),
     rd_get = (\<lambda>k now r. map_option fst (alive now (r k))),
     rd_del = (\<lambda>k now r. r(k := None))\<rparr>"

lemma model_redis_ok: "redis_ok model_redis id"
  unfolding redis_ok_def
  by (auto simp: model_redis_def alive_def split: option.split)

definition sample_limits :: "string \<Rightarrow> rate_limit_options option" where
  "sample_limits route = Some \<lparr>rl_limit = 2, rl_window_sec = 60, rl_by = ByIp\<rparr>"

definition sample_arrivals :: "arrival list" where
  "sample_arrivals = map (\<lambda>t. \<lparr>ar_at = t, ar_route = ''A.b'', ar_http = True,
     ar_request = \<lparr>rq_ip = Some ''x'', rq_remote = None, rq_api_key = None, rq_path = ''/login''\<rparr>\<rparr>) [0, 59000, 60000, 61000]"

theorem route_limit_holds_witness:
  "length (filter (\<lambda>a. hits \<lparr>rl_limit = 2, rl_window_sec = 60, rl_by = ByIp\<rparr> ''A.b'' ''x'' a
      \<and> 1000 \<le> ar_at a \<and> ar_at a < 1000 + 1000 * rl_window_sec \<lparr>rl_limit = 2, rl_window_sec = 60, rl_by = ByIp\<rparr>)
    (passed model_redis True sample_limits sample_arrivals (\<lambda>_. None))) \<le> nat (2 * rl_limit \<lparr>rl_limit = 2, rl_window_sec = 60, rl_by = ByIp\<rparr> - 1)"
  by (rule route_limit_holds [OF model_redis_ok])
    (simp_all add: sane_limits_def sample_limits_def sample_arrivals_def proper_def)

text \<open>The bound is met: three requests within two seconds where two are allowed in a minute.\<close>

lemma route_limit_met: "map ar_at (passed model_redis True sample_limits sample_arrivals (\<lambda>_. None)) = [0, 59000, 60000, 61000]"
  by (simp add: sample_arrivals_def sample_limits_def guarded_def globalThrottle_def canActivate_def FIXED_WINDOW_def
      model_redis_def alive_def incremented_def skipped_path_def subject_def remote_address_def global_bucket_def bucket_def
      by_name_def GLOBAL_WINDOW_def GLOBAL_LIMIT_def tooMany_def Let_def)

theorem throttle_locks_witness:
  "throttle_check model_redis True ''k'' 5 (fold (throttle_record model_redis True ''k'') (0 # [1, 1, 1, 1, 2, 2, 2, 2, 3]) (\<lambda>_. None)) \<noteq> Inr ()
    \<and> throttle_check model_redis True ''k'' 900000 (fold (throttle_record model_redis True ''k'') (0 # [1, 1, 1, 1, 2, 2, 2, 2, 3]) (\<lambda>_. None)) = Inr ()"
  using throttle_locks [OF model_redis_ok, of "\<lambda>_. None" "''k''" "[1, 1, 1, 1, 2, 2, 2, 2, 3]" 0 5]
    throttle_locks [OF model_redis_ok, of "\<lambda>_. None" "''k''" "[1, 1, 1, 1, 2, 2, 2, 2, 3]" 0 900000]
  by (simp add: ACCOUNT_WINDOW_SEC_def)

end
