(* ===== verification/Resilience.thy ===== *)
theory Resilience
  imports JsValue SharedTypes
begin

text \<open>
  \<open>apps/api/src/providers/resilience.ts\<close>: the circuit breaker, and the wrapper with a timeout and retries that
  every call to a payment provider goes through. The breaker belongs to a process and is shared by all calls that
  are under way: what the others do to it while a call waits is an argument.
\<close>

section \<open>The breaker\<close>

record breaker =
  cb_threshold :: nat
  cb_cooldown :: int
  cb_failures :: nat
  cb_opened_at :: "int option"

definition new_breaker :: breaker where
  "new_breaker = \<lparr>cb_threshold = 5, cb_cooldown = 30000, cb_failures = 0, cb_opened_at = None\<rparr>"

text \<open>Asking whether the breaker is open closes it when the cooldown is over.\<close>

definition isOpen :: "int \<Rightarrow> breaker \<Rightarrow> bool \<times> breaker" where
  "isOpen now b =
     (case cb_opened_at b of
        None \<Rightarrow> (False, b)
      | Some t \<Rightarrow> if cb_cooldown b \<le> now - t then (False, b\<lparr>cb_opened_at := None, cb_failures := 0\<rparr>) else (True, b))"

definition recordSuccess :: "breaker \<Rightarrow> breaker" where
  "recordSuccess b = b\<lparr>cb_failures := 0, cb_opened_at := None\<rparr>"

definition breaker_failure :: "int \<Rightarrow> breaker \<Rightarrow> breaker" where
  "breaker_failure now b =
     (let n = cb_failures b + 1 in
      if cb_threshold b \<le> n then b\<lparr>cb_failures := n, cb_opened_at := Some now\<rparr> else b\<lparr>cb_failures := n\<rparr>)"

section \<open>A call\<close>

record resilience_options =
  ro_timeout :: int
  ro_retries :: nat
  ro_delay :: int

definition default_options :: resilience_options where
  "default_options = \<lparr>ro_timeout = 8000, ro_retries = 2, ro_delay = 200\<rparr>"

text \<open>
  A provider takes some time to settle (\<open>None\<close>: it never does) and succeeds or fails. The timer starts
  with the call; what the provider does after it fired is not seen.
\<close>

type_synonym 'a provider = "int \<Rightarrow> int option \<times> (string + 'a)"

definition timed_out_after :: "int \<Rightarrow> string" where
  "timed_out_after ms = ''Provider call timed out after '' @ show_nat (nat ms) @ ''ms''"

definition withTimeout :: "int option \<times> (string + 'a) \<Rightarrow> int \<Rightarrow> int \<times> (string + 'a)" where
  "withTimeout p ms =
     (case p of (Some d, res) \<Rightarrow> if d < ms then (d, res) else (ms, Inl (timed_out_after ms))
      | (None, res) \<Rightarrow> (ms, Inl (timed_out_after ms)))"

text \<open>
  The loop over the attempts: \<open>others t t'\<close> is what the other calls do to the breaker between two moments. The
  result comes with the time, the breaker and the times at which the provider was called.
\<close>

record call_state =
  cs_now :: int
  cs_breaker :: breaker
  cs_calls :: "int list"

type_synonym others = "int \<Rightarrow> int \<Rightarrow> breaker \<Rightarrow> breaker"

definition attempt_result :: "resilience_options \<Rightarrow> 'a provider \<Rightarrow> int \<Rightarrow> int \<times> (string + 'a)" where
  "attempt_result opts provider t = withTimeout (provider t) (ro_timeout opts)"

definition attempt_succeeded :: "others \<Rightarrow> int \<Rightarrow> call_state \<Rightarrow> call_state" where
  "attempt_succeeded others d s =
     (let now = cs_now s + d in
      \<lparr>cs_now = now, cs_breaker = recordSuccess (others (cs_now s) now (cs_breaker s)), cs_calls = cs_calls s @ [cs_now s]\<rparr>)"

definition attempt_failed :: "resilience_options \<Rightarrow> others \<Rightarrow> nat \<Rightarrow> int \<Rightarrow> call_state \<Rightarrow> call_state" where
  "attempt_failed opts others attempt d s =
     (let now = cs_now s + d;
          b = breaker_failure now (others (cs_now s) now (cs_breaker s));
          wake = now + ro_delay opts * 2 ^ attempt
      in if attempt < ro_retries opts
         then \<lparr>cs_now = wake, cs_breaker = others now wake b, cs_calls = cs_calls s @ [cs_now s]\<rparr>
         else \<lparr>cs_now = now, cs_breaker = b, cs_calls = cs_calls s @ [cs_now s]\<rparr>)"

function attempts ::
    "resilience_options \<Rightarrow> 'a provider \<Rightarrow> others \<Rightarrow> nat \<Rightarrow> string \<Rightarrow> call_state \<Rightarrow> (string + 'a) \<times> call_state" where
  "attempts opts provider others attempt lastError s =
     (if ro_retries opts < attempt then (Inl lastError, s)
      else (case attempt_result opts provider (cs_now s) of
              (d, Inr v) \<Rightarrow> (Inr v, attempt_succeeded others d s)
            | (d, Inl err) \<Rightarrow> attempts opts provider others (attempt + 1) err (attempt_failed opts others attempt d s)))"
  by pat_completeness auto
termination
  by (relation "measure (\<lambda>(opts, provider, others, attempt, e, s). Suc (ro_retries opts) - attempt)") auto

declare attempts.simps [simp del]

text \<open>What holds before every attempt and after it holds of the whole loop.\<close>

lemma attempts_rule:
  assumes "Q k s"
    and "\<And>k s e. Q k s \<Longrightarrow> ro_retries opts < k \<Longrightarrow> R (Inl e) s"
    and "\<And>k s d v. Q k s \<Longrightarrow> k \<le> ro_retries opts \<Longrightarrow> attempt_result opts provider (cs_now s) = (d, Inr v) \<Longrightarrow> R (Inr v) (attempt_succeeded others d s)"
    and "\<And>k s d e. Q k s \<Longrightarrow> k \<le> ro_retries opts \<Longrightarrow> attempt_result opts provider (cs_now s) = (d, Inl e) \<Longrightarrow> Q (k + 1) (attempt_failed opts others k d s)"
  shows "R (fst (attempts opts provider others k e s)) (snd (attempts opts provider others k e s))"
  using assms(1)
proof (induction "Suc (ro_retries opts) - k" arbitrary: k e s)
  case 0
  then show ?case by (subst (1 2) attempts.simps) (simp add: assms(2))
next
  case (Suc n)
  then have k: "k \<le> ro_retries opts" "n = Suc (ro_retries opts) - (k + 1)" by simp_all
  obtain d res where w: "attempt_result opts provider (cs_now s) = (d, res)" by fastforce
  show ?case
  proof (cases res)
    case (Inl err)
    with Suc.hyps(1) [OF k(2)] assms(4) [OF Suc.prems k(1)] w k(1) show ?thesis
      by (subst (1 2) attempts.simps) simp
  next
    case (Inr v)
    with assms(3) [OF Suc.prems k(1)] w k(1) show ?thesis by (subst (1 2) attempts.simps) simp
  qed
qed

definition withResilience ::
    "breaker \<Rightarrow> 'a provider \<Rightarrow> resilience_options \<Rightarrow> others \<Rightarrow> int \<Rightarrow> (string + 'a) \<times> call_state" where
  "withResilience b provider opts others now =
     (let (open_now, b') = isOpen now b in
      if open_now then (Inl ''Payment provider temporarily unavailable (circuit open)'', \<lparr>cs_now = now, cs_breaker = b', cs_calls = []\<rparr>)
      else attempts opts provider others 0 '''' \<lparr>cs_now = now, cs_breaker = b', cs_calls = []\<rparr>)"

section \<open>The invariant of a breaker\<close>

text \<open>It is open exactly when the failures since it was last closed have reached the threshold.\<close>

definition breaker_ok :: "breaker \<Rightarrow> bool" where
  "breaker_ok b \<longleftrightarrow> 0 < cb_threshold b \<and> (cb_opened_at b \<noteq> None \<longleftrightarrow> cb_threshold b \<le> cb_failures b)"

lemma breaker_ok_new: "breaker_ok new_breaker"
  by (simp add: breaker_ok_def new_breaker_def)

lemma breaker_ok_isOpen: "breaker_ok b \<Longrightarrow> breaker_ok (snd (isOpen now b))"
  by (auto simp: breaker_ok_def isOpen_def split: option.splits)

lemma breaker_ok_success: "breaker_ok b \<Longrightarrow> breaker_ok (recordSuccess b)"
  by (simp add: breaker_ok_def recordSuccess_def)

lemma breaker_ok_failure: "breaker_ok b \<Longrightarrow> breaker_ok (breaker_failure now b)"
  by (auto simp: breaker_ok_def breaker_failure_def Let_def)

lemma withResilience_breaker_ok:
  assumes "\<And>t t' b. breaker_ok b \<Longrightarrow> breaker_ok (others t t' b)" and "breaker_ok b"
  shows "breaker_ok (cs_breaker (snd (withResilience b provider opts others now)))"
proof -
  have ok: "breaker_ok (snd (isOpen now b))" by (rule breaker_ok_isOpen [OF assms(2)])
  have "breaker_ok (cs_breaker (snd (attempts opts provider others 0 e \<lparr>cs_now = now, cs_breaker = snd (isOpen now b), cs_calls = []\<rparr>)))" for e
    by (rule attempts_rule [where Q = "\<lambda>_ s. breaker_ok (cs_breaker s)" and R = "\<lambda>_ s. breaker_ok (cs_breaker s)"])
      (simp_all add: ok assms(1) attempt_succeeded_def attempt_failed_def Let_def breaker_ok_success breaker_ok_failure)
  then show ?thesis using ok by (simp add: withResilience_def Let_def case_prod_beta)
qed

section \<open>What a call costs, and what it returns\<close>

lemma settled_time: "fst (attempt_result opts provider t) \<le> ro_timeout opts"
  by (auto simp: attempt_result_def withTimeout_def split: prod.split option.split)

definition time_bound :: "resilience_options \<Rightarrow> nat \<Rightarrow> int" where
  "time_bound opts k = int k * ro_timeout opts + ro_delay opts * (2 ^ (min k (ro_retries opts)) - 1)"

lemma time_bound_step:
  "k \<le> ro_retries opts \<Longrightarrow> cs_now s \<le> t + time_bound opts k \<Longrightarrow> attempt_result opts provider (cs_now s) = (d, r) \<Longrightarrow>
     cs_now (attempt_failed opts others k d s) \<le> t + time_bound opts (k + 1)"
  using settled_time [of opts provider "cs_now s"]
  by (auto simp: attempt_failed_def Let_def time_bound_def min_def algebra_simps)

text \<open>A wrapped call reaches the provider at most once more than the retries it has, and returns: it takes no longer
  than a timeout for each attempt and the doubling pauses between them, whatever the provider does (it may never
  answer) and whatever other calls do to the breaker.
\<close>

theorem call_is_bounded:
  assumes "0 \<le> ro_timeout opts" and "0 \<le> ro_delay opts"
  shows "length (cs_calls (snd (withResilience b provider opts others now))) \<le> ro_retries opts + 1 \<and>
    cs_now (snd (withResilience b provider opts others now)) - now \<le>
      int (ro_retries opts + 1) * ro_timeout opts + ro_delay opts * (2 ^ ro_retries opts - 1)"
proof -
  let ?s = "\<lparr>cs_now = now, cs_breaker = snd (isOpen now b), cs_calls = []\<rparr>"
  let ?R = "\<lambda>s :: call_state. length (cs_calls s) \<le> ro_retries opts + 1 \<and> cs_now s \<le> now + time_bound opts (ro_retries opts + 1)"
  have mono: "k \<le> ro_retries opts \<Longrightarrow> time_bound opts k + ro_timeout opts \<le> time_bound opts (ro_retries opts + 1)" for k
  proof -
    assume "k \<le> ro_retries opts"
    then have "(2 :: int) ^ k \<le> 2 ^ ro_retries opts" by (intro power_increasing) simp_all
    then have "ro_delay opts * (2 ^ k - 1) \<le> ro_delay opts * (2 ^ ro_retries opts - 1)"
      by (intro mult_left_mono diff_right_mono assms(2))
    moreover have "int k * ro_timeout opts \<le> int (ro_retries opts) * ro_timeout opts"
      using \<open>k \<le> ro_retries opts\<close> assms(1) by (simp add: mult_right_mono)
    ultimately show ?thesis using \<open>k \<le> ro_retries opts\<close> by (simp add: time_bound_def algebra_simps)
  qed
  have "?R (snd (attempts opts provider others 0 e ?s))" for e
  proof (rule attempts_rule [where Q = "\<lambda>k (s :: call_state). k \<le> ro_retries opts + 1 \<and> length (cs_calls s) = k \<and> cs_now s \<le> now + time_bound opts k"
        and R = "\<lambda>_. ?R"])
    fix k d v and s :: call_state
    assume Q: "k \<le> ro_retries opts + 1 \<and> length (cs_calls s) = k \<and> cs_now s \<le> now + time_bound opts k" and k: "k \<le> ro_retries opts"
      and v: "attempt_result opts provider (cs_now s) = (d, Inr v)"
    have "d \<le> ro_timeout opts" using settled_time [of opts provider "cs_now s"] v by simp
    then show "?R (attempt_succeeded others d s)" using Q k mono [OF k] by (simp add: attempt_succeeded_def Let_def)
  next
    fix k d e and s :: call_state
    assume Q: "k \<le> ro_retries opts + 1 \<and> length (cs_calls s) = k \<and> cs_now s \<le> now + time_bound opts k" and k: "k \<le> ro_retries opts"
      and e: "attempt_result opts provider (cs_now s) = (d, Inl e)"
    have "cs_now (attempt_failed opts others k d s) \<le> now + time_bound opts (k + 1)"
      using Q k e by (intro time_bound_step) simp_all
    then show "k + 1 \<le> ro_retries opts + 1 \<and> length (cs_calls (attempt_failed opts others k d s)) = k + 1 \<and>
        cs_now (attempt_failed opts others k d s) \<le> now + time_bound opts (k + 1)"
      using Q k by (simp add: attempt_failed_def Let_def)
  qed (auto simp: time_bound_def le_Suc_eq)
  moreover have "0 \<le> time_bound opts (ro_retries opts + 1)" using assms by (simp add: time_bound_def)
  ultimately show ?thesis
    by (simp add: withResilience_def Let_def case_prod_beta time_bound_def algebra_simps)
qed

text \<open>The result is the provider's first answer in time: a call that returns has failed at every attempt but its
  last, which gave the result; a call that fails was refused by the open breaker without reaching the provider, or
  has failed at every one of its attempts.
\<close>

theorem call_returns_first_answer:
  "case withResilience b provider opts others now of
     (Inr v, s) \<Rightarrow> \<exists>ts t. cs_calls s = ts @ [t] \<and> snd (attempt_result opts provider t) = Inr v \<and>
       (\<forall>u \<in> set ts. \<exists>e. snd (attempt_result opts provider u) = Inl e)
   | (Inl e, s) \<Rightarrow> fst (isOpen now b) \<and> cs_calls s = [] \<or>
       length (cs_calls s) = ro_retries opts + 1 \<and> (\<forall>u \<in> set (cs_calls s). \<exists>e. snd (attempt_result opts provider u) = Inl e)"
proof -
  let ?failing = "\<lambda>ts. \<forall>u \<in> set ts. \<exists>e. snd (attempt_result opts provider u) = Inl e"
  let ?R = "\<lambda>r s. case r of Inr v \<Rightarrow> \<exists>ts t. cs_calls s = ts @ [t] \<and> snd (attempt_result opts provider t) = Inr v \<and> ?failing ts
     | Inl e \<Rightarrow> length (cs_calls s) = ro_retries opts + 1 \<and> ?failing (cs_calls s)"
  have "?R (fst (attempts opts provider others 0 e s)) (snd (attempts opts provider others 0 e s))"
    if "cs_calls s = []" for e s
    by (rule attempts_rule [where Q = "\<lambda>k s. k \<le> ro_retries opts + 1 \<and> length (cs_calls s) = k \<and> ?failing (cs_calls s)"])
      (auto simp: that attempt_succeeded_def attempt_failed_def Let_def)
  from this [of "\<lparr>cs_now = now, cs_breaker = snd (isOpen now b), cs_calls = []\<rparr>" "''''"] show ?thesis
    by (auto simp: withResilience_def Let_def case_prod_beta split: sum.splits)
qed

section \<open>When the breaker opens\<close>

text \<open>Everything that happens to the breaker of a process, in order: questions, successes and failures.\<close>

datatype breaker_event = BreakerAsked int | CallSucceeded | CallFailed int

fun breaker_after :: "breaker \<Rightarrow> breaker_event list \<Rightarrow> breaker" where
  "breaker_after b [] = b"
| "breaker_after b (BreakerAsked t # es) = breaker_after (snd (isOpen t b)) es"
| "breaker_after b (CallSucceeded # es) = breaker_after (recordSuccess b) es"
| "breaker_after b (CallFailed t # es) = breaker_after (breaker_failure t b) es"

lemma breaker_after_append: "breaker_after b (es @ fs) = breaker_after (breaker_after b es) fs"
  by (induction b es rule: breaker_after.induct) simp_all

definition outcomes :: "breaker_event list \<Rightarrow> breaker_event list" where
  "outcomes es = filter (\<lambda>e. case e of BreakerAsked _ \<Rightarrow> False | _ \<Rightarrow> True) es"

definition failing_streak :: "breaker_event list \<Rightarrow> nat" where
  "failing_streak es = length (takeWhile (\<lambda>e. e \<noteq> CallSucceeded) (rev (outcomes es)))"

definition last_failure :: "breaker_event list \<Rightarrow> int option" where
  "last_failure es = (case rev (outcomes es) of CallFailed t # _ \<Rightarrow> Some t | _ \<Rightarrow> None)"

lemma breaker_after_step: "breaker_after b (es @ [e]) =
    (case e of BreakerAsked t \<Rightarrow> snd (isOpen t (breaker_after b es)) | CallSucceeded \<Rightarrow> recordSuccess (breaker_after b es)
     | CallFailed t \<Rightarrow> breaker_failure t (breaker_after b es))"
  by (simp add: breaker_after_append split: breaker_event.split)

lemma outcomes_step: "outcomes (es @ [e]) = outcomes es @ (case e of BreakerAsked _ \<Rightarrow> [] | _ \<Rightarrow> [e])"
  by (simp add: outcomes_def split: breaker_event.split)

lemma breaker_history:
  "breaker_ok (breaker_after new_breaker es) \<and> cb_threshold (breaker_after new_breaker es) = 5 \<and>
   cb_cooldown (breaker_after new_breaker es) = 30000 \<and> cb_failures (breaker_after new_breaker es) \<le> failing_streak es \<and>
   (cb_opened_at (breaker_after new_breaker es) = None \<or> cb_opened_at (breaker_after new_breaker es) = last_failure es)"
proof (induction es rule: rev_induct)
  case Nil
  show ?case by (simp add: breaker_ok_new) (simp add: new_breaker_def)
next
  case (snoc e es)
  then show ?case
    by (cases e) (auto simp: breaker_after_step outcomes_step failing_streak_def last_failure_def breaker_ok_def isOpen_def recordSuccess_def breaker_failure_def Let_def split: option.splits)
qed

text \<open>The breaker of a process refuses calls only for a reason: whatever has happened to it, when it is open its
  last five outcomes were failures, and the last of them is less than thirty seconds old.
\<close>

theorem open_only_after_failures:
  assumes "fst (isOpen now (breaker_after new_breaker es))"
  shows "5 \<le> failing_streak es \<and> (\<exists>t. last_failure es = Some t \<and> now - t < 30000)"
  using assms breaker_history [of es]
  by (cases "last_failure es") (auto simp: isOpen_def breaker_ok_def split: option.splits if_splits)

text \<open>And it does: five failures in a row open it, whatever came before, for thirty seconds after the last one.\<close>

lemma failures_count: "cb_failures (breaker_after b (map CallFailed ts)) = cb_failures b + length ts"
    "cb_threshold (breaker_after b es) = cb_threshold b" "cb_cooldown (breaker_after b es) = cb_cooldown b"
  by (induction ts arbitrary: b) (simp_all add: breaker_failure_def Let_def,
    (induction b es rule: breaker_after.induct; simp add: isOpen_def recordSuccess_def breaker_failure_def Let_def split: option.split)+)

lemma five_failures_open:
  assumes "length ts = 4" and "now - t < 30000"
  shows "fst (isOpen now (breaker_after new_breaker (es @ map CallFailed (ts @ [t]))))"
proof -
  let ?b = "breaker_after (breaker_after new_breaker es) (map CallFailed ts)"
  have "cb_threshold ?b = 5" "cb_cooldown ?b = 30000" "4 \<le> cb_failures ?b"
    by (simp_all add: failures_count assms(1)) (simp_all add: new_breaker_def)
  then show ?thesis using assms(2) by (simp add: breaker_after_append isOpen_def breaker_failure_def Let_def)
qed

text \<open>After the cooldown the count starts again: a trial call that fails does not open the breaker.\<close>

lemma half_open_forgets:
  assumes "cb_opened_at b = Some t" and "t + cb_cooldown b \<le> now" and "1 < cb_threshold b"
  shows "\<not> fst (isOpen later (breaker_failure now (snd (isOpen now b))))"
  using assms by (simp add: isOpen_def breaker_failure_def)

section \<open>Instances\<close>

text \<open>A provider that never answers.\<close>

theorem call_is_bounded_witness:
  "length (cs_calls (snd (withResilience new_breaker (\<lambda>t. (None, Inr ())) default_options (\<lambda>t t' b. b) 0))) \<le> 3 \<and>
   cs_now (snd (withResilience new_breaker (\<lambda>t. (None, Inr ())) default_options (\<lambda>t t' b. b) 0)) \<le> 24600"
  using call_is_bounded [of default_options new_breaker "\<lambda>t. (None, Inr ())" "\<lambda>t t' b. b" 0]
  by (simp add: default_options_def)

theorem open_only_after_failures_witness:
  "5 \<le> failing_streak (CallSucceeded # map CallFailed [0, 1, 2, 3, 4]) \<and>
   (\<exists>t. last_failure (CallSucceeded # map CallFailed [0, 1, 2, 3, 4]) = Some t \<and> 10 - t < 30000)"
  by (rule open_only_after_failures) (simp add: isOpen_def new_breaker_def recordSuccess_def breaker_failure_def)

text \<open>
  A call whose first attempt met an open breaker's opening goes on: the breaker is asked once, before the first
  attempt, so the two retries reach the provider while it is open.
\<close>

lemma retries_pass_an_open_breaker:
  "let b = new_breaker\<lparr>cb_failures := 4\<rparr>; s = snd (withResilience b (\<lambda>t. (Some 10, Inl ''down'')) default_options (\<lambda>t t' b. b) 0)
   in cs_calls s = [0, 210, 620] \<and> fst (isOpen 210 (breaker_failure 10 b))"
  by (simp add: withResilience_def isOpen_def new_breaker_def default_options_def attempts.simps attempt_result_def
      withTimeout_def attempt_failed_def breaker_failure_def Let_def)

end
