(* ===== verification/Attached.thy ===== *)
theory Attached
  imports Database
begin

text \<open>
  Services with tables of their own, which no other service reads: their state is the database of \<open>Schema\<close>
  and beside it what they keep. \<open>inDb\<close> runs an operation on the database within such a service.
\<close>

record 'x attached =
  main_db :: db
  own :: 'x

type_synonym ('x, 'a) beside = "('x attached, exn, 'a) op"

definition inDb :: "'a handler \<Rightarrow> ('x, 'a) beside" where
  "inDb m s = (case m (main_db s) of (r, d) \<Rightarrow> (r, s\<lparr>main_db := d\<rparr>))"

definition ownM :: "('x \<Rightarrow> 'a) \<Rightarrow> ('x, 'a) beside" where
  "ownM f = getsM (\<lambda>s. f (own s))"

definition writeM :: "('x \<Rightarrow> 'x) \<Rightarrow> ('x, unit) beside" where
  "writeM f = modifyM (\<lambda>s. s\<lparr>own := f (own s)\<rparr>)"

lemma bindM_inDb [op_simps]: "bindM (inDb m) f s =
    (case m (main_db s) of (Inl e, d) \<Rightarrow> (Inl e, s\<lparr>main_db := d\<rparr>) | (Inr a, d) \<Rightarrow> f a (s\<lparr>main_db := d\<rparr>))"
  by (simp add: bindM_def inDb_def split: prod.split sum.split)

lemma inDb_apply [op_simps]: "inDb m s = (fst (m (main_db s)), s\<lparr>main_db := snd (m (main_db s))\<rparr>)"
  by (simp add: inDb_def split: prod.split)

lemma bindM_own [op_simps]: "bindM (ownM g) f s = f (g (own s)) s"
  by (simp add: ownM_def op_simps)

lemma bindM_write [op_simps]: "bindM (writeM g) f s = f () (s\<lparr>own := g (own s)\<rparr>)"
  by (simp add: writeM_def op_simps)

lemma own_apply [op_simps]: "ownM g s = (Inr (g (own s)), s)"
  by (simp add: ownM_def op_simps)

lemma write_apply [op_simps]: "writeM g s = (Inr (), s\<lparr>own := g (own s)\<rparr>)"
  by (simp add: writeM_def op_simps)

text \<open>An invariant of the database, and one of what is beside it.\<close>

lemma keeps_inDb: "keeps P m \<Longrightarrow> keeps (\<lambda>s. P (main_db s)) (inDb m)"
  by (simp add: keeps_def op_simps)

lemma keeps_own_inDb [keeps_intros]: "keeps (\<lambda>s. Q (own s)) (inDb m)"
  by (simp add: keeps_def op_simps)

lemma keeps_own [keeps_intros]: "keeps P (ownM f)"
  by (simp add: ownM_def keeps_gets)

lemma keeps_write: "(\<And>s. P s \<Longrightarrow> P (s\<lparr>own := f (own s)\<rparr>)) \<Longrightarrow> keeps P (writeM f)"
  by (simp add: writeM_def keeps_modify)

end
