(* ===== verification/Payouts.thy ===== *)
theory Payouts
  imports Effects Settlement Attached Separators
begin

text \<open>
  \<open>apps/api/src/admin/payout.service.ts\<close>: paying out to a store what the ledger says it is owed. A payout made by
  hand is recorded and journaled in one transaction, under a lock per store and currency; a payout over the Bakong
  rail fails, because the rail is not there yet. The alert that a payout failed is the last component of the state.
\<close>

section \<open>State\<close>

datatype payout_method = MANUAL | BAKONG
datatype payout_status = PayoutPending | PayoutPaid | PayoutFailed

record payout_row =
  po_id :: string
  po_store_id :: string
  po_currency :: string
  po_amount :: decimal
  po_status :: payout_status
  po_method :: payout_method
  po_provider_ref :: "string option"
  po_note :: "string option"
  po_failure :: "string option"
  po_initiated_by :: string
  po_created :: int
  po_paid_at :: "int option"

record payouts_own =
  po_rows :: "payout_row list"
  po_alerts :: "string list"

type_synonym 'a payouts_op = "(payouts_own, 'a) beside"

definition PAYOUT_TOL :: decimal where "PAYOUT_TOL = 5 / 1000"

section \<open>Operations\<close>

definition payable_entry :: "string \<Rightarrow> string \<Rightarrow> entry_row \<Rightarrow> bool" where
  "payable_entry storeId cur e \<longleftrightarrow> e_account e = ''merchant_payable'' \<and> e_store e = Some storeId \<and> e_currency e = cur"

definition owed :: "string \<Rightarrow> string \<Rightarrow> db \<Rightarrow> decimal" where
  "owed storeId cur s =
     sum_list (map e_amount (rows_where (\<lambda>e. payable_entry storeId cur e \<and> e_direction e = CREDIT) (entries s))) -
     sum_list (map e_amount (rows_where (\<lambda>e. payable_entry storeId cur e \<and> e_direction e = DEBIT) (entries s)))"

record payout_view =
  pv_id :: string
  pv_store :: string
  pv_merchant :: string
  pv_store_id :: string
  pv_currency :: string
  pv_amount :: string
  pv_status :: payout_status
  pv_method :: payout_method
  pv_provider_ref :: "string option"
  pv_note :: "string option"
  pv_failure :: "string option"
  pv_created :: int
  pv_paid_at :: "int option"

definition payout_view :: "payout_row \<Rightarrow> string option \<Rightarrow> string option \<Rightarrow> payout_view" where
  "payout_view p store merchant =
     \<lparr>pv_id = po_id p, pv_store = (case store of None \<Rightarrow> po_store_id p | Some x \<Rightarrow> x),
      pv_merchant = (case merchant of None \<Rightarrow> '''' | Some m \<Rightarrow> m), pv_store_id = po_store_id p,
      pv_currency = po_currency p, pv_amount = to_fixed 2 (po_amount p), pv_status = po_status p, pv_method = po_method p,
      pv_provider_ref = po_provider_ref p, pv_note = po_note p, pv_failure = po_failure p, pv_created = po_created p,
      pv_paid_at = po_paid_at p\<rparr>"

text \<open>The column holds four decimals, so the row keeps the rounded amount.\<close>

definition create_payout ::
    "auth_user \<Rightarrow> string \<Rightarrow> string \<Rightarrow> decimal \<Rightarrow> payout_method \<Rightarrow> string option \<Rightarrow> payout_row payouts_op" where
  "create_payout u storeId cur value m note =
     bindM (inDb (prefixedId ''pout'')) (\<lambda>i.
     bindM (inDb (getsM clock)) (\<lambda>now.
     let row = \<lparr>po_id = i, po_store_id = storeId, po_currency = cur, po_amount = to_dp 4 value, po_status = PayoutPending,
         po_method = m, po_provider_ref = None, po_note = note, po_failure = None, po_initiated_by = user_id u,
         po_created = now, po_paid_at = None\<rparr>
     in bindM (ownM (\<lambda>x. exists_by (\<lambda>r. po_id r = i) (po_rows x))) (\<lambda>clash.
        seqM (guardM (\<not> clash) P2002)
        (seqM (writeM (po_rows_update (\<lambda>rs. rs @ [row]))) (ret row)))))"

definition set_payout :: "string \<Rightarrow> (payout_row \<Rightarrow> payout_row) \<Rightarrow> payout_row payouts_op" where
  "set_payout i f =
     bindM (ownM (\<lambda>x. find_by (\<lambda>r. po_id r = i) (po_rows x))) (\<lambda>row.
     bindM (someM P2025 row) (\<lambda>row.
     seqM (writeM (po_rows_update (update_where (\<lambda>r. po_id r = i) f))) (ret (f row))))"

definition check_owed :: "string \<Rightarrow> string \<Rightarrow> decimal \<Rightarrow> unit payouts_op" where
  "check_owed storeId cur value =
     bindM (inDb (getsM (owed storeId cur))) (\<lambda>owed_now.
     guardM (\<not> value - owed_now > PAYOUT_TOL) (invalidRequest (''Amount '' @ to_fixed 2 value @ '' exceeds '' @ cur @
       '' owed ('' @ to_fixed 2 owed_now @ '')'')))"

definition pay_manual ::
    "auth_user \<Rightarrow> string \<Rightarrow> string \<Rightarrow> decimal \<Rightarrow> string option \<Rightarrow> payout_row payouts_op" where
  "pay_manual u storeId cur value note =
     transaction
       (seqM (check_owed storeId cur value)
       (bindM (create_payout u storeId cur value MANUAL note) (\<lambda>created.
        seqM (inDb (postPayout storeId cur value (po_id created)))
        (bindM (inDb (getsM clock)) (\<lambda>now.
         bindM (inDb (prefixedId ''manual'')) (\<lambda>ref.
         set_payout (po_id created) (\<lambda>p. p\<lparr>po_status := PayoutPaid, po_paid_at := Some now, po_provider_ref := Some ref\<rparr>)))))))"

definition fail_payout :: "string \<Rightarrow> string \<Rightarrow> payout_view payouts_op" where
  "fail_payout i reason =
     bindM (set_payout i (\<lambda>p. p\<lparr>po_status := PayoutFailed, po_failure := Some reason\<rparr>)) (\<lambda>p.
     seqM (writeM (po_alerts_update (\<lambda>xs. xs @ [''Payout '' @ i @ '' for store '' @ po_store_id p @ '' ('' @
       to_fixed 2 (po_amount p) @ '' '' @ po_currency p @ '') failed: '' @ reason])))
     (ret (payout_view p None None)))"

text \<open>\<open>token\<close> is the platform setting \<open>bakong_disbursement_token\<close>.\<close>

definition pay ::
    "string option \<Rightarrow> auth_user \<Rightarrow> string \<Rightarrow> string \<Rightarrow> decimal \<Rightarrow> payout_method \<Rightarrow> string option \<Rightarrow> payout_view payouts_op" where
  "pay token u storeId cur value m note =
     bindM (inDb (findM stores (\<lambda>x. s_id x = storeId))) (\<lambda>store.
     seqM (guardM (store \<noteq> None) (paymentNotFound ''Store not found''))
     (seqM (guardM (0 < value) (invalidRequest ''Amount must be positive''))
     (case m of
        MANUAL \<Rightarrow>
          catchM (bindM (pay_manual u storeId cur value note) (\<lambda>p. ret (payout_view p None None)))
            (\<lambda>e. case e of ApiError c msg \<Rightarrow> throw e | _ \<Rightarrow> throw (internal ''Payout execution failed''))
      | BAKONG \<Rightarrow>
          seqM (check_owed storeId cur value)
          (bindM (create_payout u storeId cur value BAKONG note) (\<lambda>p.
           if token = None then fail_payout (po_id p) ''Bakong disbursement not configured (set bakong_disbursement_token)''
           else fail_payout (po_id p) ''Bakong disbursement rail not yet enabled'')))))"

text \<open>
  The latest payouts of all stores. Rows are appended as they are created. \<open>orgName\<close> is the name of an organisation.
\<close>

definition payout_history :: "(string \<Rightarrow> string) \<Rightarrow> nat \<Rightarrow> payout_view list payouts_op" where
  "payout_history orgName n s =
     (Inr (map (\<lambda>p. let store = find_by (\<lambda>x. s_id x = po_store_id p) (stores (main_db s)) in
        payout_view p (map_option s_name store) (map_option (orgName \<circ> s_org) store)) (take n (rev (po_rows (own s))))), s)"

section \<open>What a payout does\<close>

lemma owed_total: "owed storeId cur s = entry_total (payable_entry storeId cur) (entries s)"
proof -
  have "sum_list (map e_amount (filter (\<lambda>e. payable_entry storeId cur e \<and> e_direction e = CREDIT) es)) -
     sum_list (map e_amount (filter (\<lambda>e. payable_entry storeId cur e \<and> e_direction e = DEBIT) es)) =
     entry_total (payable_entry storeId cur) es" for es
  proof (induction es)
    case (Cons e es)
    then show ?case by (cases "e_direction e") (auto simp: signed_def)
  qed simp
  then show ?thesis by (simp add: owed_def rows_where_def)
qed

lemma owed_other_tables: "entries s = entries t \<Longrightarrow> owed st cur s = owed st cur t"
  by (simp add: owed_def)

definition payout_row_of ::
    "auth_user \<Rightarrow> string \<Rightarrow> string \<Rightarrow> decimal \<Rightarrow> payout_method \<Rightarrow> string option \<Rightarrow> string \<Rightarrow> int \<Rightarrow> payout_row" where
  "payout_row_of u st cur value m note i now =
     \<lparr>po_id = i, po_store_id = st, po_currency = cur, po_amount = to_dp 4 value, po_status = PayoutPending,
      po_method = m, po_provider_ref = None, po_note = note, po_failure = None, po_initiated_by = user_id u,
      po_created = now, po_paid_at = None\<rparr>"

definition drawn_payout_id :: "payouts_own attached \<Rightarrow> string" where
  "drawn_payout_id s = ''pout_'' @ rnd (main_db s) (draws (main_db s))"

definition after_draw :: "payouts_own attached \<Rightarrow> payouts_own attached" where
  "after_draw s = s\<lparr>main_db := (main_db s)\<lparr>draws := Suc (draws (main_db s))\<rparr>\<rparr>"

lemma create_payout_bind [op_simps]: "bindM (create_payout u st cur value m note) f s =
    (if exists_by (\<lambda>r. po_id r = drawn_payout_id s) (po_rows (own s)) then (Inl P2002, after_draw s)
     else let row = payout_row_of u st cur value m note (drawn_payout_id s) (clock (main_db s)) in
       f row ((after_draw s)\<lparr>own := po_rows_update (\<lambda>rs. rs @ [row]) (own s)\<rparr>))"
  by (simp add: create_payout_def op_simps prefixedId_def drawn_payout_id_def after_draw_def payout_row_of_def Let_def)

lemma set_payout_bind [op_simps]: "bindM (set_payout i g) f s =
    (case find_by (\<lambda>r. po_id r = i) (po_rows (own s)) of None \<Rightarrow> (Inl P2025, s)
     | Some row \<Rightarrow> f (g row) (s\<lparr>own := po_rows_update (update_where (\<lambda>r. po_id r = i) g) (own s)\<rparr>))"
  by (simp add: set_payout_def op_simps split: option.split)

lemma update_where_last:
  assumes "\<not> exists_by p t" and "p r"
  shows "update_where p f (t @ [r]) = t @ [f r]" and "find_by p (t @ [r]) = Some r"
  using assms by (auto simp: exists_by_iff update_where_none find_by_append find_by_None split: option.split dest: find_by_SomeD)

definition paid_row :: "payout_row \<Rightarrow> int \<Rightarrow> string \<Rightarrow> payout_row" where
  "paid_row p now ref = p\<lparr>po_status := PayoutPaid, po_paid_at := Some now, po_provider_ref := Some ref\<rparr>"

lemma pay_manual_cases:
  assumes "pay_manual u st cur value note s = (r, t)"
  obtains (refused) e where "r = Inl e" and "t = s"
    | (settled) d n i now ref where "r = Inr (paid_row (payout_row_of u st cur value MANUAL note i (clock (main_db s))) now ref)"
      and "value - owed st cur (main_db s) \<le> PAYOUT_TOL" and "i = drawn_payout_id s"
      and "\<not> exists_by (\<lambda>r. po_id r = i) (po_rows (own s))"
      and "postPayout st cur value i (main_db (after_draw s)) = (Inr (), d)"
      and "t = s\<lparr>main_db := d\<lparr>draws := n\<rparr>,
         own := po_rows_update (\<lambda>rs. rs @ [paid_row (payout_row_of u st cur value MANUAL note i (clock (main_db s))) now ref]) (own s)\<rparr>"
      and "n = Suc (draws d)"
proof (cases r)
  case (Inl e)
  with assms have "t = s" unfolding pay_manual_def by (auto dest: transaction_error)
  with Inl show ?thesis by (rule refused)
next
  case (Inr p)
  with assms have run: "pay_manual u st cur value note s = (Inr p, t)" by simp
  define i where "i = drawn_payout_id s"
  define row where "row = payout_row_of u st cur value MANUAL note i (clock (main_db s))"
  have id: "po_id row = i" by (simp add: row_def payout_row_of_def)
  obtain r' d where post: "postPayout st cur value i (main_db (after_draw s)) = (r', d)" by fastforce
  have new: "\<not> exists_by (\<lambda>r. po_id r = i) (po_rows (own s))" and tol: "value - owed st cur (main_db s) \<le> PAYOUT_TOL"
    and ok: "r' = Inr ()"
    using run post unfolding pay_manual_def transaction_Inr
    by (auto simp: op_simps check_owed_def Let_def i_def payout_row_of_def after_draw_def split: if_splits sum.splits)
  note last = update_where_last [of "\<lambda>r. po_id r = i" "po_rows (own s)" row, OF new id]
  have "p = paid_row row (clock d) (''manual_'' @ rnd d (draws d)) \<and>
      t = s\<lparr>main_db := d\<lparr>draws := Suc (draws d)\<rparr>,
        own := po_rows_update (\<lambda>rs. rs @ [paid_row row (clock d) (''manual_'' @ rnd d (draws d))]) (own s)\<rparr>"
    using run post ok new tol last unfolding pay_manual_def transaction_Inr
    by (cases "own s") (auto simp: op_simps check_owed_def Let_def i_def [symmetric] row_def [symmetric] id after_draw_def prefixedId_def
        set_payout_def paid_row_def)
  with Inr ok post tol new show ?thesis
    by (intro settled [of i "clock d" "''manual_'' @ rnd d (draws d)" d "Suc (draws d)"]) (simp_all add: i_def row_def)
qed

lemma payout_lines_sum:
  "line_sum DEBIT (map round_line [line_of ''merchant_payable'' DEBIT v, line_of ''settlement_clearing'' CREDIT v]) = to_dp 4 v"
  "line_sum CREDIT (map round_line [line_of ''merchant_payable'' DEBIT v, line_of ''settlement_clearing'' CREDIT v]) = to_dp 4 v"
  by (simp_all add: line_sum_def round_line_def line_of_def)

definition payout_reference :: "string \<Rightarrow> string \<Rightarrow> string" where
  "payout_reference st i = st @ '':'' @ i"

text \<open>The journal of a payout takes its rounded amount off what the store is owed, and nothing else.\<close>

lemma postPayout_cases:
  assumes "postPayout st cur value i d0 = (r, d)"
  obtains (skipped) "r = Inr ()" and "d = d0"
    | (posted) j a b n where "r = Inr ()" and "0 < to_dp 4 value"
      and "d = d0\<lparr>journals := journals d0 @ [journal_of ''payout'' (Some (payout_reference st i)) (Some st) cur j],
        entries := entries d0 @ [entry_of j (Some st) cur a (line_of ''merchant_payable'' DEBIT (to_dp 4 value)),
          entry_of j (Some st) cur b (line_of ''settlement_clearing'' CREDIT (to_dp 4 value))], draws := n\<rparr>"
  using assms unfolding postPayout_def payout_reference_def [symmetric]
proof (cases rule: post_cases)
  case (refused m)
  then show ?thesis unfolding payout_lines_sum by simp
next
  case skipped
  then show ?thesis using that(1) by simp
next
  case (posted j ids n)
  then obtain a b where "ids = [a, b]" by (auto simp: length_Suc_conv)
  with posted have "d = d0\<lparr>journals := journals d0 @ [journal_of ''payout'' (Some (payout_reference st i)) (Some st) cur j],
        entries := entries d0 @ [entry_of j (Some st) cur a (line_of ''merchant_payable'' DEBIT (to_dp 4 value)),
          entry_of j (Some st) cur b (line_of ''settlement_clearing'' CREDIT (to_dp 4 value))], draws := n\<rparr>"
    by (simp add: with_journal_def round_line_def line_of_def)
  then show ?thesis using that(2) posted(2,3) unfolding payout_lines_sum by blast
qed

lemma postPayout_nothing:
  assumes "postPayout st cur value i d0 = (r, d)" and "\<not> 0 < to_dp 4 value"
  shows "d = d0"
  using assms(1)
proof (rule postPayout_cases)
  assume "0 < to_dp 4 value"
  with assms(2) show ?thesis by contradiction
qed

lemma owed_after_journal:
  "owed st' cur' (d\<lparr>journals := js, entries := entries d @ [entry_of j (Some st) cur a (line_of ''merchant_payable'' DEBIT v),
      entry_of j (Some st) cur b (line_of ''settlement_clearing'' CREDIT v)], draws := n\<rparr>) =
    owed st' cur' d - (if st' = st \<and> cur' = cur then v else 0)"
  by (simp add: owed_total payable_entry_def signed_def line_of_def)

lemma pay_cases:
  assumes "pay token u st cur value m note s = (r, t)"
  obtains (refused) e where "r = Inl e" and "t = s \<or> m = BAKONG \<and> t = after_draw s"
    | (paid) d n i now ref p where "m = MANUAL" and "r = Inr (payout_view p None None)"
      and "p = paid_row (payout_row_of u st cur value MANUAL note i (clock (main_db s))) now ref"
      and "0 < value" and "value - owed st cur (main_db s) \<le> PAYOUT_TOL" and "i = drawn_payout_id s"
      and "\<not> exists_by (\<lambda>r. po_id r = i) (po_rows (own s))"
      and "postPayout st cur value i (main_db (after_draw s)) = (Inr (), d)"
      and "t = s\<lparr>main_db := d\<lparr>draws := n\<rparr>, own := po_rows_update (\<lambda>rs. rs @ [p]) (own s)\<rparr>"
      and "n = Suc (draws d)"
    | (failed) p where "m = BAKONG" and "r = Inr (payout_view p None None)" and "po_status p = PayoutFailed"
      and "po_id p = drawn_payout_id s" and "po_store_id p = st" and "0 < value"
      and "\<not> exists_by (\<lambda>r. po_id r = drawn_payout_id s) (po_rows (own s))"
      and "main_db t = main_db (after_draw s)" and "po_rows (own t) = po_rows (own s) @ [p]"
      and "length (po_alerts (own t)) = Suc (length (po_alerts (own s)))"
proof (cases "find_by (\<lambda>x. s_id x = st) (stores (main_db s)) = None \<or> \<not> 0 < value")
  case True
  then have "(\<exists>e. r = Inl e) \<and> (t = s \<or> m = BAKONG \<and> t = after_draw s)" using assms by (auto simp: pay_def op_simps split: if_splits)
  then show ?thesis using refused by blast
next
  case go: False
  show ?thesis
  proof (cases m)
    case MANUAL
    obtain r' t' where run: "pay_manual u st cur value note s = (r', t')" by fastforce
    from run show ?thesis
    proof (cases rule: pay_manual_cases)
      case (refused e)
      with run have b: "bindM (pay_manual u st cur value note) (\<lambda>p. ret (payout_view p None None)) s = (Inl e, s)"
        by (intro bindM_error) simp
      have "t = s \<and> (\<exists>e. r = Inl e)" using assms go MANUAL
        by (cases e) (auto simp: pay_def op_simps catchM_def b)
      then show ?thesis using that(1) by blast
    next
      case (settled d n i now ref)
      define p where "p = paid_row (payout_row_of u st cur value MANUAL note i (clock (main_db s))) now ref"
      from run have b: "bindM (pay_manual u st cur value note) (\<lambda>p. ret (payout_view p None None)) s = (Inr (payout_view p None None), t')"
        unfolding settled(1) p_def [symmetric] by (simp add: bindM_result ret_apply)
      have "t = t'" "r = Inr (payout_view p None None)" using assms go MANUAL
        by (simp_all add: pay_def op_simps catchM_def b)
      then show ?thesis using go MANUAL settled(2-) p_def by (intro paid [of p i now ref d n]) simp_all
    qed
  next
    case BAKONG
    show ?thesis
    proof (cases "value - owed st cur (main_db s) > PAYOUT_TOL")
      case True
      then have "(\<exists>e. r = Inl e) \<and> (t = s \<or> m = BAKONG \<and> t = after_draw s)" using assms go BAKONG by (auto simp: pay_def op_simps check_owed_def)
  then show ?thesis using refused by blast
    next
      case within: False
      show ?thesis
      proof (cases "exists_by (\<lambda>r. po_id r = drawn_payout_id s) (po_rows (own s))")
        case True
        then have "(\<exists>e. r = Inl e) \<and> (t = s \<or> m = BAKONG \<and> t = after_draw s)" using assms go BAKONG within by (auto simp: pay_def op_simps check_owed_def)
  then show ?thesis using refused by blast
      next
        case new: False
        define row where "row = payout_row_of u st cur value BAKONG note (drawn_payout_id s) (clock (main_db s))"
        have id: "po_id row = drawn_payout_id s" by (simp add: row_def payout_row_of_def)
        note last = update_where_last [of "\<lambda>r. po_id r = drawn_payout_id s" "po_rows (own s)" row, OF new id]
        show ?thesis
          by (rule failed [of "row\<lparr>po_status := PayoutFailed, po_failure := Some (if token = None
              then ''Bakong disbursement not configured (set bakong_disbursement_token)'' else ''Bakong disbursement rail not yet enabled'')\<rparr>"])
            (use assms go BAKONG within new last in \<open>auto simp: pay_def op_simps check_owed_def fail_payout_def Let_def
               row_def [symmetric] id split: if_splits\<close>, auto simp: row_def payout_row_of_def)
      qed
    qed
  qed
qed

section \<open>The payouts and the books\<close>

definition payout_journal :: "string \<Rightarrow> string \<Rightarrow> journal_row \<Rightarrow> bool" where
  "payout_journal st i j \<longleftrightarrow> j_event j = ''payout'' \<and> j_reference j = Some (payout_reference st i)"

text \<open>The identifiers still to be drawn name no payout and no journal of one, and hold no colon.\<close>

definition payout_fresh :: "payouts_own attached \<Rightarrow> bool" where
  "payout_fresh s \<longleftrightarrow> fresh_ids (main_db s) \<and> (\<forall>n. CHR '':'' \<notin> set (rnd (main_db s) n)) \<and>
     (\<forall>r \<in> set (po_rows (own s)). CHR '':'' \<notin> set (po_id r)) \<and>
     (\<forall>n \<ge> draws (main_db s). (\<forall>r \<in> set (po_rows (own s)). po_id r \<noteq> ''pout_'' @ rnd (main_db s) n) \<and>
        (\<forall>j \<in> set (journals (main_db s)). \<forall>st. j_reference j \<noteq> Some (payout_reference st (''pout_'' @ rnd (main_db s) n))))"

text \<open>
  A payout that was paid has its journal, with its amount on the debit side of what the store is owed (the journal of
  an amount that rounds to nothing is not written); one that failed has none; none is left pending.
\<close>

definition payout_booked :: "db \<Rightarrow> payout_row \<Rightarrow> bool" where
  "payout_booked d r \<longleftrightarrow>
     (case po_status r of
        PayoutPending \<Rightarrow> False
      | PayoutFailed \<Rightarrow> \<not> exists_by (payout_journal (po_store_id r) (po_id r)) (journals d)
      | PayoutPaid \<Rightarrow> 0 < po_amount r \<longrightarrow> (\<exists>j \<in> set (journals d). payout_journal (po_store_id r) (po_id r) j \<and>
          (\<exists>e \<in> set (entries d). e_journal e = j_id j \<and> payable_entry (po_store_id r) (po_currency r) e \<and>
            e_direction e = DEBIT \<and> e_amount e = po_amount r)))"

definition payouts_ok :: "payouts_own attached \<Rightarrow> bool" where
  "payouts_ok s \<longleftrightarrow> payout_fresh s \<and> (\<forall>r \<in> set (po_rows (own s)). payout_booked (main_db s) r)"

lemma payout_reference_eq:
  "CHR '':'' \<notin> set i \<Longrightarrow> CHR '':'' \<notin> set i' \<Longrightarrow> payout_reference st i = payout_reference st' i' \<longleftrightarrow> st = st' \<and> i = i'"
  unfolding payout_reference_def append_Cons append_Nil using split_at_last [of st "CHR '':''" i st' i'] by blast

lemma payouts_ok_draws: "payouts_ok s \<Longrightarrow> draws (main_db s) \<le> n \<Longrightarrow> payouts_ok (s\<lparr>main_db := (main_db s)\<lparr>draws := n\<rparr>\<rparr>)"
  by (auto simp: payouts_ok_def payout_fresh_def fresh_ids_draws payout_booked_def split: payout_status.split)

lemma main_after_draw: "main_db (after_draw s) = (main_db s)\<lparr>draws := Suc (draws (main_db s))\<rparr>" "own (after_draw s) = own s"
  by (simp_all add: after_draw_def)

lemma postPayout_fresh:
  assumes fresh: "payout_fresh s" and d: "postPayout st cur value (drawn_payout_id s) (main_db (after_draw s)) = (r, d)"
    and pos: "0 < to_dp 4 value"
  obtains j a b n where "d = (main_db s)\<lparr>journals := journals (main_db s) @
        [journal_of ''payout'' (Some (payout_reference st (drawn_payout_id s))) (Some st) cur j],
      entries := entries (main_db s) @ [entry_of j (Some st) cur a (line_of ''merchant_payable'' DEBIT (to_dp 4 value)),
          entry_of j (Some st) cur b (line_of ''settlement_clearing'' CREDIT (to_dp 4 value))], draws := n\<rparr>"
    and "fresh_ids d" and "Suc (draws (main_db s)) \<le> n"
proof -
  let ?d0 = "main_db (after_draw s)" and ?ref = "payout_reference st (drawn_payout_id s)"
  let ?ls = "[line_of ''merchant_payable'' DEBIT value, line_of ''settlement_clearing'' CREDIT value]"
  have f: "fresh_ids ?d0" using fresh by (simp add: payout_fresh_def main_after_draw fresh_ids_draws)
  have colon: "\<And>m. CHR '':'' \<notin> set (rnd (main_db s) m)" using fresh by (simp add: payout_fresh_def)
  have ref: "?ref \<noteq> ''pts_'' @ rnd ?d0 m" for m
  proof
    assume "?ref = ''pts_'' @ rnd ?d0 m"
    moreover have "CHR '':'' \<in> set ?ref" by (simp add: payout_reference_def)
    moreover have "CHR '':'' \<notin> set (''pts_'' @ rnd ?d0 m)" using colon by (simp add: main_after_draw)
    ultimately show False by simp
  qed
  have new: "\<not> exists_by (\<lambda>j. j_event j = ''payout'' \<and> j_reference j = Some ?ref) (journals ?d0)"
    using fresh by (auto simp: exists_by_iff payout_fresh_def main_after_draw drawn_payout_id_def)
  obtain j ids n where p: "post ''payout'' (Some ?ref) (Some st) cur ?ls ?d0 =
       (Inr (), with_journal (journal_of ''payout'' (Some ?ref) (Some st) cur j) ids (map round_line ?ls) n ?d0)"
      "length ids = length ?ls" "fresh_ids (with_journal (journal_of ''payout'' (Some ?ref) (Some st) cur j) ids (map round_line ?ls) n ?d0)"
    by (rule post_fresh [OF f _ _ new ref, of ?ls, unfolded payout_lines_sum, OF refl pos]) blast
  have d_eq: "d = with_journal (journal_of ''payout'' (Some ?ref) (Some st) cur j) ids (map round_line ?ls) n ?d0"
    using d p(1) unfolding postPayout_def payout_reference_def [symmetric] by simp
  obtain a b where ids: "ids = [a, b]" using p(2) by (auto simp: length_Suc_conv)
  have "Suc (draws (main_db s)) \<le> n"
    using keepsD [OF draws_grow, of "Suc (draws (main_db s))" ?d0 "''payout''" "Some ?ref" "Some st" cur ?ls] p(1) by (simp add: main_after_draw with_journal_def)
  with that d_eq p(3) show ?thesis unfolding ids by (simp add: with_journal_def round_line_def line_of_def main_after_draw)
qed

lemma payout_booked_other:
  assumes "payout_booked d r" and "entries d' = entries d @ es" and "journals d' = journals d @ js"
    and "\<forall>j \<in> set js. \<not> payout_journal (po_store_id r) (po_id r) j"
  shows "payout_booked d' r"
  using assms by (auto simp: payout_booked_def exists_by_iff split: payout_status.splits)

lemma payout_booked_same:
  assumes "journals d' = journals d" and "entries d' = entries d"
  shows "payout_booked d' r = payout_booked d r"
  unfolding payout_booked_def assms by (rule refl)

lemma payout_fresh_after:
  assumes fresh: "payout_fresh s" and "rnd (main_db t) = rnd (main_db s)" and "fresh_ids (main_db t)"
    and "Suc (draws (main_db s)) \<le> draws (main_db t)" and "po_rows (own t) = po_rows (own s) @ [p]" and "po_id p = drawn_payout_id s"
    and "\<forall>j \<in> set (journals (main_db t)). j \<in> set (journals (main_db s)) \<or> j_reference j = Some (payout_reference st (drawn_payout_id s))"
  shows "payout_fresh t"
proof -
  have colon: "CHR '':'' \<notin> set (''pout_'' @ rnd (main_db s) n)" for n using fresh by (simp add: payout_fresh_def)
  have later: "drawn_payout_id s \<noteq> ''pout_'' @ rnd (main_db s) n \<and> draws (main_db s) \<le> n" if "draws (main_db t) \<le> n" for n
    using fresh that assms(4) fresh_ids_later [of "main_db s" "draws (main_db s)" n] by (simp add: payout_fresh_def drawn_payout_id_def)
  have row: "CHR '':'' \<notin> set (po_id r) \<and> po_id r \<noteq> ''pout_'' @ rnd (main_db s) n"
    if "r \<in> set (po_rows (own t))" "draws (main_db t) \<le> n" for r n
    using that assms(5,6) fresh later [OF that(2)] colon by (auto simp: payout_fresh_def drawn_payout_id_def)
  have journal: "j_reference j \<noteq> Some (payout_reference x (''pout_'' @ rnd (main_db s) n))"
    if j: "j \<in> set (journals (main_db t))" and n: "draws (main_db t) \<le> n" for j x n
  proof (cases "j \<in> set (journals (main_db s))")
    case True
    then show ?thesis using fresh later [OF n] by (simp add: payout_fresh_def)
  next
    case False
    with assms(7) j have "j_reference j = Some (payout_reference st (drawn_payout_id s))" by blast
    moreover have "payout_reference st (drawn_payout_id s) \<noteq> payout_reference x (''pout_'' @ rnd (main_db s) n)"
      using payout_reference_eq [OF colon [of "draws (main_db s)"] colon [of n], of st x] later [OF n]
      by (simp only: drawn_payout_id_def) blast
    ultimately show ?thesis by simp
  qed
  show ?thesis unfolding payout_fresh_def assms(2)
    using assms(3) colon row journal row [OF _ order_refl] by simp
qed

lemma round_4_not_positive: "0 < v \<Longrightarrow> \<not> 0 < to_dp 4 v \<Longrightarrow> to_dp 4 v = 0"
  using to_dp_nonneg [of v 4] by linarith

lemma payouts_okI: "payout_booked (main_db t) p \<Longrightarrow> (\<And>q. q \<in> set rs \<Longrightarrow> payout_booked (main_db t) q) \<Longrightarrow>
    payout_fresh t \<Longrightarrow> po_rows (own t) = rs @ [p] \<Longrightarrow> payouts_ok t"
  by (simp add: payouts_ok_def)

lemma pay_keeps_books:
  assumes ok: "payouts_ok s" and run: "pay token u st cur value m note s = (r, t)"
  shows "payouts_ok t"
proof -
  have fresh: "payout_fresh s" using ok by (simp add: payouts_ok_def)
  let ?i = "drawn_payout_id s"
  have colon: "CHR '':'' \<notin> set ?i" "\<forall>r \<in> set (po_rows (own s)). CHR '':'' \<notin> set (po_id r) \<and> po_id r \<noteq> ?i"
    using fresh by (auto simp: payout_fresh_def drawn_payout_id_def)
  have unbooked: "\<not> exists_by (payout_journal x ?i) (journals (main_db s))" for x
    using fresh by (auto simp: payout_fresh_def drawn_payout_id_def exists_by_iff payout_journal_def)
  from run show ?thesis
  proof (cases rule: pay_cases)
    case (refused e)
    then show ?thesis using ok payouts_ok_draws [OF ok, of "Suc (draws (main_db s))"] by (auto simp: after_draw_def)
  next
    case (failed p)
    have other: "payout_booked (main_db t) q" if "q \<in> set (po_rows (own s))" for q
      using ok that failed payout_booked_same [of "main_db t" "main_db s" q] by (simp add: payouts_ok_def main_after_draw)
    have "payout_booked (main_db t) p" using failed unbooked [of st] by (simp add: payout_booked_def main_after_draw)
    moreover have "payout_fresh t" using failed fresh
      by (intro payout_fresh_after [of s t p st]) (simp_all add: main_after_draw payout_fresh_def fresh_ids_draws)
    ultimately show ?thesis using failed other by (auto simp: payouts_ok_def)
  next
    case (paid d n i now ref p)
    have p: "po_id p = ?i" "po_store_id p = st" "po_currency p = cur" "po_amount p = to_dp 4 value" "po_status p = PayoutPaid"
      using paid by (simp_all add: paid_row_def payout_row_of_def)
    have rows: "po_rows (own t) = po_rows (own s) @ [p]" "main_db t = d\<lparr>draws := n\<rparr>" using paid by simp_all
    show ?thesis
    proof (cases "0 < to_dp 4 value")
      case True
      obtain j a b k where d: "d = (main_db s)\<lparr>journals := journals (main_db s) @
            [journal_of ''payout'' (Some (payout_reference st ?i)) (Some st) cur j],
          entries := entries (main_db s) @ [entry_of j (Some st) cur a (line_of ''merchant_payable'' DEBIT (to_dp 4 value)),
              entry_of j (Some st) cur b (line_of ''settlement_clearing'' CREDIT (to_dp 4 value))], draws := k\<rparr>"
          "fresh_ids d" "Suc (draws (main_db s)) \<le> k"
        by (rule postPayout_fresh [OF fresh paid(8) [unfolded paid(6)] True])
      let ?j = "journal_of ''payout'' (Some (payout_reference st ?i)) (Some st) cur j"
      have tables: "journals (main_db t) = journals (main_db s) @ [?j]" "entries (main_db t) = entries (main_db s) @
          [entry_of j (Some st) cur a (line_of ''merchant_payable'' DEBIT (to_dp 4 value)),
           entry_of j (Some st) cur b (line_of ''settlement_clearing'' CREDIT (to_dp 4 value))]"
        using d(1) rows(2) by simp_all
      have "payout_booked (main_db t) p" using p unfolding payout_booked_def tables
        by (simp add: payout_journal_def payable_entry_def line_of_def)
      moreover have "payout_booked (main_db t) q" if q: "q \<in> set (po_rows (own s))" for q
      proof (rule payout_booked_other [OF _ tables(2,1)])
        show "payout_booked (main_db s) q" using ok q by (simp add: payouts_ok_def)
        have "payout_reference st ?i \<noteq> payout_reference (po_store_id q) (po_id q)"
          using colon q payout_reference_eq [of ?i "po_id q" st "po_store_id q"] by metis
        then show "\<forall>j \<in> set [?j]. \<not> payout_journal (po_store_id q) (po_id q) j" by (simp add: payout_journal_def)
      qed
      moreover have "fresh_ids (main_db t)" "rnd (main_db t) = rnd (main_db s)" "Suc (draws (main_db s)) \<le> draws (main_db t)"
          "journals (main_db t) = journals (main_db s) @ [journal_of ''payout'' (Some (payout_reference st ?i)) (Some st) cur j]"
        using rows(2) d(1,3) paid(10) fresh_ids_draws [OF d(2), of n] by simp_all
      then have "payout_fresh t" using rows(1) p(1) by (intro payout_fresh_after [OF fresh, of t p st]) auto
      ultimately show ?thesis using rows(1) by (rule payouts_okI)
    next
      case False
      have "d = main_db (after_draw s)" by (rule postPayout_nothing [OF paid(8) False])
      then have main: "main_db t = (main_db s)\<lparr>draws := n\<rparr>" "Suc (draws (main_db s)) \<le> n"
        using rows(2) paid(10) by (simp_all add: main_after_draw)
      have "payout_booked (main_db t) p" using p False by (simp add: payout_booked_def)
      moreover have "payout_booked (main_db t) q" if "q \<in> set (po_rows (own s))" for q
        using ok that main payout_booked_same [of "main_db t" "main_db s" q] by (simp add: payouts_ok_def)
      moreover have "fresh_ids (main_db t)" "journals (main_db t) = journals (main_db s)" "rnd (main_db t) = rnd (main_db s)"
        using fresh main by (simp_all add: payout_fresh_def fresh_ids_draws)
      then have "payout_fresh t" using rows(1) p(1) main by (intro payout_fresh_after [OF fresh, of t p st]) simp_all
      ultimately show ?thesis using rows(1) by (rule payouts_okI)
    qed
  qed
qed

section \<open>A course of payouts\<close>

record payout_request =
  pq_token :: "string option"
  pq_user :: auth_user
  pq_store :: string
  pq_currency :: string
  pq_amount :: decimal
  pq_method :: payout_method
  pq_note :: "string option"

definition pay_request :: "payout_request \<Rightarrow> payout_view payouts_op" where
  "pay_request q = pay (pq_token q) (pq_user q) (pq_store q) (pq_currency q) (pq_amount q) (pq_method q) (pq_note q)"

text \<open>The lock and the transaction make payouts of one store happen one after another.\<close>

fun after_payouts :: "payout_request list \<Rightarrow> payouts_own attached \<Rightarrow> payouts_own attached" where
  "after_payouts [] s = s"
| "after_payouts (q # qs) s = after_payouts qs (snd (pay_request q s))"

definition paid_out :: "string \<Rightarrow> string \<Rightarrow> payout_row list \<Rightarrow> decimal" where
  "paid_out st cur rs = sum_list (map po_amount
     (filter (\<lambda>r. po_status r = PayoutPaid \<and> po_store_id r = st \<and> po_currency r = cur) rs))"

lemma paid_out_append [simp]: "paid_out st cur (rs @ [r]) = paid_out st cur rs +
    (if po_status r = PayoutPaid \<and> po_store_id r = st \<and> po_currency r = cur then po_amount r else 0)"
  by (simp add: paid_out_def)

definition SLACK :: decimal where
  "SLACK = PAYOUT_TOL + 1 / 20000"

lemma pay_accounts:
  assumes ok: "payouts_ok s" and run: "pay token u st' cur' value m note s = (r, t)"
  shows "owed st cur (main_db t) + paid_out st cur (po_rows (own t)) = owed st cur (main_db s) + paid_out st cur (po_rows (own s))"
    and "- SLACK \<le> owed st cur (main_db s) \<Longrightarrow> - SLACK \<le> owed st cur (main_db t)"
proof -
  have fresh: "payout_fresh s" using ok by (simp add: payouts_ok_def)
  have "owed st cur (main_db t) + paid_out st cur (po_rows (own t)) = owed st cur (main_db s) + paid_out st cur (po_rows (own s)) \<and>
      (- SLACK \<le> owed st cur (main_db s) \<longrightarrow> - SLACK \<le> owed st cur (main_db t))"
    using run
  proof (cases rule: pay_cases)
    case (refused e)
    then show ?thesis using owed_other_tables [of "main_db t" "main_db s" st cur] by (auto simp: after_draw_def)
  next
    case (failed p)
    then show ?thesis using owed_other_tables [of "main_db t" "main_db s" st cur] by (simp add: main_after_draw)
  next
    case (paid d n i now ref p)
    have p: "po_store_id p = st'" "po_currency p = cur'" "po_amount p = to_dp 4 value" "po_status p = PayoutPaid"
      using paid by (simp_all add: paid_row_def payout_row_of_def)
    have "owed st cur d = owed st cur (main_db s) - (if st = st' \<and> cur = cur' then to_dp 4 value else 0)"
    proof (cases "0 < to_dp 4 value")
      case True
      obtain j a b k where "d = (main_db s)\<lparr>journals := journals (main_db s) @
            [journal_of ''payout'' (Some (payout_reference st' (drawn_payout_id s))) (Some st') cur' j],
          entries := entries (main_db s) @ [entry_of j (Some st') cur' a (line_of ''merchant_payable'' DEBIT (to_dp 4 value)),
              entry_of j (Some st') cur' b (line_of ''settlement_clearing'' CREDIT (to_dp 4 value))], draws := k\<rparr>"
        by (rule postPayout_fresh [OF fresh paid(8) [unfolded paid(6)] True])
      then show ?thesis by (simp add: owed_after_journal)
    next
      case False
      have "d = main_db (after_draw s)" by (rule postPayout_nothing [OF paid(8) False])
      then have "entries d = entries (main_db s)" by (simp add: main_after_draw)
      then show ?thesis using owed_other_tables [of d "main_db s" st cur] round_4_not_positive [OF paid(4) False] by simp
    qed
    moreover have t: "owed st cur (main_db t) = owed st cur d" using paid(9) by (intro owed_other_tables) simp
    ultimately have owed_t: "owed st cur (main_db t) = owed st cur (main_db s) - (if st = st' \<and> cur = cur' then to_dp 4 value else 0)"
      by (simp only:)
    have rows: "po_rows (own t) = po_rows (own s) @ [p]" using paid(9) by simp
    have paid_t: "paid_out st cur (po_rows (own t)) = paid_out st cur (po_rows (own s)) + (if st = st' \<and> cur = cur' then to_dp 4 value else 0)"
      unfolding rows using p by simp
    have err: "to_dp 4 value \<le> value + 1 / 20000" using to_dp_error [of "value"] by linarith
    show ?thesis
    proof (cases "st = st' \<and> cur = cur'")
      case True
      with paid(5) err have "- SLACK \<le> owed st cur (main_db s) - to_dp 4 value" unfolding SLACK_def by simp
      then show ?thesis unfolding owed_t paid_t using True by simp
    next
      case False
      then show ?thesis unfolding owed_t paid_t by (simp only: if_False) simp
    qed
  qed
  then show "owed st cur (main_db t) + paid_out st cur (po_rows (own t)) = owed st cur (main_db s) + paid_out st cur (po_rows (own s))"
    "- SLACK \<le> owed st cur (main_db s) \<Longrightarrow> - SLACK \<le> owed st cur (main_db t)" by blast+
qed

text \<open>C32: Payouts and books agree: after any requests for payouts, accepted or refused, by hand or over the rail, every
  payout that was paid has its journal and every one that failed has none, none is left pending, the ledger owes
  every store what it owed before less what it was paid since, and never goes below nothing by more than the
  tolerance of half a cent and a rounding.
\<close>

theorem payouts_match_books:
  assumes "payouts_ok s"
  shows "payouts_ok (after_payouts qs s) \<and>
    owed st cur (main_db (after_payouts qs s)) = owed st cur (main_db s) -
      (paid_out st cur (po_rows (own (after_payouts qs s))) - paid_out st cur (po_rows (own s))) \<and>
    (0 \<le> owed st cur (main_db s) \<longrightarrow> - SLACK \<le> owed st cur (main_db (after_payouts qs s)))"
proof -
  have "payouts_ok (after_payouts qs s) \<and>
      owed st cur (main_db (after_payouts qs s)) + paid_out st cur (po_rows (own (after_payouts qs s))) =
        owed st cur (main_db s) + paid_out st cur (po_rows (own s)) \<and>
      (- SLACK \<le> owed st cur (main_db s) \<longrightarrow> - SLACK \<le> owed st cur (main_db (after_payouts qs s)))"
    using assms
  proof (induction qs arbitrary: s)
    case (Cons q qs)
    obtain r t where run: "pay_request q s = (r, t)" by fastforce
    note t = run [unfolded pay_request_def]
    have "payouts_ok t" by (rule pay_keeps_books [OF Cons.prems t])
    from Cons.IH [OF this] show ?case using pay_accounts [OF Cons.prems t, of st cur] run by auto
  qed simp
  moreover have "0 \<le> SLACK" by (simp add: SLACK_def PAYOUT_TOL_def)
  ultimately show ?thesis by (simp add: algebra_simps)
qed

section \<open>Instances\<close>

definition payouts_start :: "payouts_own attached" where
  "payouts_start = \<lparr>main_db = empty_db\<lparr>stores := [sample_store], rnd := (\<lambda>n. replicate n CHR ''x''),
       entries := [entry_of ''j'' (Some ''store_1'') ''USD'' ''first'' (line_of ''merchant_payable'' CREDIT 20)]\<rparr>,
     own = \<lparr>po_rows = [], po_alerts = []\<rparr>\<rparr>"

definition sample_payouts :: "payout_request list" where
  "sample_payouts = map (\<lambda>(a, m). \<lparr>pq_token = None, pq_user = sample_user, pq_store = ''store_1'', pq_currency = ''USD'',
     pq_amount = a, pq_method = m, pq_note = None\<rparr>) [(15, MANUAL), (15, MANUAL), (5, BAKONG)]"

lemma payouts_start_ok: "payouts_ok payouts_start"
  by (auto simp: payouts_ok_def payout_fresh_def payouts_start_def fresh_ids_def empty_db_def inj_def)

text \<open>The first payout is made, the second exceeds what is left, the third fails and alerts.\<close>

theorem payouts_match_books_witness:
  "payouts_ok (after_payouts sample_payouts payouts_start) \<and>
   - SLACK \<le> owed ''store_1'' ''USD'' (main_db (after_payouts sample_payouts payouts_start))"
  using payouts_match_books [OF payouts_start_ok, of sample_payouts "''store_1''" "''USD''"]
  by (simp add: payouts_start_def owed_total payable_entry_def signed_def line_of_def)

end
