(* ===== verification/TextUnits.thy ===== *)
theory TextUnits
  imports Main
begin

text \<open>Texts as JavaScript has them: lists of UTF-16 code units.\<close>

type_synonym text_units = "nat list"

definition codes :: "string \<Rightarrow> text_units" where
  "codes s = map of_char s"

text \<open>\<open>trim\<close>: what JavaScript takes for white space or the end of a line.\<close>

definition space_unit :: "nat \<Rightarrow> bool" where
  "space_unit c \<longleftrightarrow> 9 \<le> c \<and> c \<le> 13 \<or> 8192 \<le> c \<and> c \<le> 8202 \<or> c \<in> {32, 160, 5760, 8232, 8233, 8239, 8287, 12288, 65279}"

definition trim_units :: "text_units \<Rightarrow> text_units" where
  "trim_units t = rev (dropWhile space_unit (rev (dropWhile space_unit t)))"

definition digit_unit :: "nat \<Rightarrow> bool" where
  "digit_unit c \<longleftrightarrow> 48 \<le> c \<and> c \<le> 57"

end
