(* ===== verification/BankAlerts.thy ===== *)
theory BankAlerts
  imports JsValue SharedTypes TextUnits
begin

text \<open>
  \<open>apps/api/src/telegram/bank-alert-parser.ts\<close>: reading the amount of an incoming payment from the text of a bank's
  alert. A text is the list of its UTF-16 code units, because the alerts and the patterns hold Khmer. The patterns
  are matched the way the regular expressions are: the flag \<open>i\<close> folds ASCII letters only, a quantifier takes as much
  as it can, and \<open>matchAll\<close> goes on after each match.
\<close>

section \<open>Matching\<close>

definition fold_case :: "nat \<Rightarrow> nat" where
  "fold_case c = (if 65 \<le> c \<and> c \<le> 90 then c + 32 else c)"

definition letter_unit :: "nat \<Rightarrow> bool" where
  "letter_unit c \<longleftrightarrow> 65 \<le> c \<and> c \<le> 90 \<or> 97 \<le> c \<and> c \<le> 122"

definition word_unit :: "nat \<Rightarrow> bool" where
  "word_unit c \<longleftrightarrow> digit_unit c \<or> letter_unit c \<or> c = 95"

text \<open>The unit before and after a position; \<open>\b\<close> lies between a word unit and anything else.\<close>

definition first_unit :: "text_units \<Rightarrow> nat option" where
  "first_unit t = (case t of [] \<Rightarrow> None | c # _ \<Rightarrow> Some c)"

definition last_unit :: "text_units \<Rightarrow> nat option" where
  "last_unit t = first_unit (rev t)"

definition word_at :: "nat option \<Rightarrow> bool" where
  "word_at c = (case c of None \<Rightarrow> False | Some u \<Rightarrow> word_unit u)"

definition boundary :: "nat option \<Rightarrow> nat option \<Rightarrow> bool" where
  "boundary a b \<longleftrightarrow> word_at a \<noteq> word_at b"

text \<open>The word \<open>w\<close>, in small letters, at the start of a text, anywhere in it, and anywhere between two boundaries.\<close>

definition matches_at :: "text_units \<Rightarrow> text_units \<Rightarrow> bool" where
  "matches_at w t \<longleftrightarrow> map fold_case (take (length w) t) = w"

fun contains :: "text_units \<Rightarrow> text_units \<Rightarrow> bool" where
  "contains w [] \<longleftrightarrow> matches_at w []"
| "contains w (c # t) \<longleftrightarrow> matches_at w (c # t) \<or> contains w t"

definition word_here :: "text_units \<Rightarrow> nat option \<Rightarrow> text_units \<Rightarrow> bool" where
  "word_here w pre t \<longleftrightarrow> boundary pre (first_unit t) \<and> matches_at w t \<and>
     boundary (last_unit w) (first_unit (drop (length w) t))"

fun contains_word :: "text_units \<Rightarrow> nat option \<Rightarrow> text_units \<Rightarrow> bool" where
  "contains_word w pre [] \<longleftrightarrow> word_here w pre []"
| "contains_word w pre (c # t) \<longleftrightarrow> word_here w pre (c # t) \<or> contains_word w (Some c) t"

section \<open>Currencies and hints\<close>

datatype alert_currency = KhrAlert | UsdAlert

definition RIEL_SIGN :: nat where "RIEL_SIGN = 6107"

definition names_currency :: "alert_currency \<Rightarrow> text_units \<Rightarrow> bool" where
  "names_currency c t =
     (case c of
        KhrAlert \<Rightarrow> contains_word (codes ''khr'') None t \<or> contains [RIEL_SIGN] t \<or> contains (codes ''riel'') t
      | UsdAlert \<Rightarrow> contains_word (codes ''usd'') None t \<or> contains (codes ''$'') t \<or> contains (codes ''dollar'') t)"

text \<open>The two Khmer words are those for "pay" and "receive".\<close>

definition RECEIVE_HINT :: "text_units list" where
  "RECEIVE_HINT = map codes [''received'', ''payment'', ''paid'', ''credited'', ''topup'', ''top up'', ''deposit''] @
     [[6036, 6020, 6091], [6033, 6033, 6077, 6043]]"

definition hints_receipt :: "text_units \<Rightarrow> bool" where
  "hints_receipt t \<longleftrightarrow> list_ex (\<lambda>w. contains w t) RECEIVE_HINT"

definition NON_PAYMENT_WORDS :: "text_units list" where
  "NON_PAYMENT_WORDS = map codes [''balance'', ''available'', ''remaining'', ''avail'', ''bal'', ''fee'', ''charge'', ''charges'',
     ''commission'', ''ref'', ''reference'', ''trx'', ''txn'', ''transaction'', ''invoice'', ''inv'', ''order'', ''id'']"

text \<open>The Khmer words for "balance" and "fee".\<close>

definition KHMER_LABELS :: "text_units list" where
  "KHMER_LABELS = [[6047, 6040, 6031, 6075, 6043, 6098, 6041], [6016, 6040, 6098, 6042, 6083]]"

definition ends_with :: "text_units \<Rightarrow> text_units \<Rightarrow> bool" where
  "ends_with w t \<longleftrightarrow> length w \<le> length t \<and> map fold_case (drop (length t - length w) t) = w"

definition ends_with_word :: "text_units \<Rightarrow> text_units \<Rightarrow> nat option \<Rightarrow> bool" where
  "ends_with_word w t suf \<longleftrightarrow> ends_with w t \<and>
     boundary (last_unit (take (length t - length w) t)) (first_unit w) \<and> boundary (last_unit w) suf"

text \<open>A label, and after it at most fifteen units that are not digits, up to the number.\<close>

definition label_at :: "nat \<Rightarrow> text_units \<Rightarrow> bool" where
  "label_at gap t \<longleftrightarrow> gap \<le> length t \<and>
     (let upto = take (length t - gap) t; rest = drop (length t - gap) t in
      list_all (\<lambda>c. \<not> digit_unit c) rest \<and>
      (list_ex (\<lambda>w. ends_with_word w upto (first_unit rest)) NON_PAYMENT_WORDS \<or> ends_with (codes ''no.'') upto \<or>
       list_ex (\<lambda>w. ends_with w upto) KHMER_LABELS))"

definition labelled :: "text_units \<Rightarrow> bool" where
  "labelled pre \<longleftrightarrow> list_ex (\<lambda>gap. label_at gap pre) [0..<16]"

section \<open>Numbers\<close>

definition COMMA :: nat where "COMMA = 44"
definition DOT :: nat where "DOT = 46"

text \<open>\<open>(?:\.\d{1,2})?\<close>, \<open>(?:,\d{3})*\<close> and the two alternatives of the pattern: how many units they take.\<close>

fun fraction_length :: "text_units \<Rightarrow> nat" where
  "fraction_length (p # a # b # t) = (if p = DOT \<and> digit_unit a then if digit_unit b then 3 else 2 else 0)"
| "fraction_length [p, a] = (if p = DOT \<and> digit_unit a then 2 else 0)"
| "fraction_length t = 0"

fun groups_length :: "text_units \<Rightarrow> nat" where
  "groups_length (p # a # b # c # t) =
     (if p = COMMA \<and> digit_unit a \<and> digit_unit b \<and> digit_unit c then 4 + groups_length t else 0)"
| "groups_length t = 0"

definition with_fraction :: "nat \<Rightarrow> text_units \<Rightarrow> nat" where
  "with_fraction n t = n + fraction_length (drop n t)"

definition grouped_from :: "nat \<Rightarrow> text_units \<Rightarrow> nat option" where
  "grouped_from n t =
     (if n \<le> length t \<and> list_all digit_unit (take n t) \<and> 0 < groups_length (drop n t)
      then Some (with_fraction (n + groups_length (drop n t)) t) else None)"

definition amount_length :: "text_units \<Rightarrow> nat" where
  "amount_length t =
     (case grouped_from 3 t of Some n \<Rightarrow> n | None \<Rightarrow>
     (case grouped_from 2 t of Some n \<Rightarrow> n | None \<Rightarrow>
     (case grouped_from 1 t of Some n \<Rightarrow> n | None \<Rightarrow>
      (let n = length (takeWhile digit_unit t) in if n = 0 then 0 else with_fraction n t))))"

text \<open>\<open>text.matchAll(AMOUNT)\<close>: every match with the text before and after it.\<close>

function scan :: "text_units \<Rightarrow> text_units \<Rightarrow> (text_units \<times> text_units \<times> text_units) list" where
  "scan pre t =
     (case t of [] \<Rightarrow> []
      | c # u \<Rightarrow> let n = amount_length t in
          if n = 0 then scan (pre @ [c]) u
          else (pre, take n t, drop n t) # scan (pre @ take n t) (drop n t))"
  by pat_completeness auto
termination
  by (relation "measure (\<lambda>(pre, t). length t)") auto

declare scan.simps [simp del]

definition canonical :: "text_units \<Rightarrow> text_units" where
  "canonical n =
     (if DOT \<notin> set n \<or> last_unit n \<noteq> Some 48 then n
      else (let m = dropWhile (\<lambda>c. c = 48) (rev n) in rev (if first_unit m = Some DOT then tl m else m)))"

definition candidate :: "text_units \<times> text_units \<times> text_units \<Rightarrow> text_units option" where
  "candidate m =
     (case m of (pre, match, suf) \<Rightarrow>
      let v = filter (\<lambda>c. c \<noteq> COMMA) match in
      if \<not> list_ex (\<lambda>c. c \<noteq> 48 \<and> c \<noteq> DOT) v then None
      else if (case last_unit pre of None \<Rightarrow> False | Some c \<Rightarrow> letter_unit c) \<or>
              (case first_unit suf of None \<Rightarrow> False | Some c \<Rightarrow> letter_unit c) then None
      else if labelled pre then None
      else Some (canonical v))"

definition payment_figures :: "text_units \<Rightarrow> text_units list" where
  "payment_figures t = List.map_filter candidate (scan [] t)"

definition parseBankAlert :: "text_units \<Rightarrow> (text_units \<times> alert_currency) option" where
  "parseBankAlert t =
     (if t = [] \<or> \<not> hints_receipt t then None
      else case (names_currency KhrAlert t, names_currency UsdAlert t) of
             (True, False) \<Rightarrow> (case remdups (payment_figures t) of [a] \<Rightarrow> Some (a, KhrAlert) | _ \<Rightarrow> None)
           | (False, True) \<Rightarrow> (case remdups (payment_figures t) of [a] \<Rightarrow> Some (a, UsdAlert) | _ \<Rightarrow> None)
           | _ \<Rightarrow> None)"

section \<open>Reading back what was written\<close>

text \<open>
  A number as banks print it: its leading digits, the groups of three after commas, and one or two decimals. What
  follows it must not go on as a number would.
\<close>

definition written :: "text_units \<Rightarrow> text_units list \<Rightarrow> text_units \<Rightarrow> text_units" where
  "written d gs f = d @ concat (map ((#) COMMA) gs) @ (if f = [] then [] else DOT # f)"

definition well_written :: "text_units \<Rightarrow> text_units list \<Rightarrow> text_units \<Rightarrow> bool" where
  "well_written d gs f \<longleftrightarrow> d \<noteq> [] \<and> list_all digit_unit d \<and> (gs = [] \<or> length d \<le> 3) \<and>
     list_all (\<lambda>g. length g = 3 \<and> list_all digit_unit g) gs \<and> length f \<le> 2 \<and> list_all digit_unit f"

definition stops :: "text_units \<Rightarrow> bool" where
  "stops t \<longleftrightarrow> (case t of [] \<Rightarrow> True | [c] \<Rightarrow> \<not> digit_unit c
     | c # a # _ \<Rightarrow> \<not> digit_unit c \<and> \<not> (c \<in> {COMMA, DOT} \<and> digit_unit a))"

lemma not_digits [simp]: "\<not> digit_unit COMMA" "\<not> digit_unit DOT" "COMMA \<noteq> DOT" "DOT \<noteq> COMMA"
  by (simp_all add: digit_unit_def COMMA_def DOT_def)

lemma groups_stop: "stops t \<Longrightarrow> groups_length t = 0"
  by (induction t rule: groups_length.induct) (auto simp: stops_def)

lemma fraction_stop: "stops t \<Longrightarrow> fraction_length t = 0"
  by (induction t rule: fraction_length.induct) (auto simp: stops_def)

lemma groups_digit: "digit_unit c \<Longrightarrow> groups_length (c # t) = 0"
  by (induction "c # t" rule: groups_length.induct) auto

lemma fraction_written:
  assumes "length f \<le> 2" and "list_all digit_unit f" and "stops t"
  shows "fraction_length ((if f = [] then [] else DOT # f) @ t) = (if f = [] then 0 else 1 + length f)"
proof -
  consider "f = []" | a where "f = [a]" | a b where "f = [a, b]"
    using assms(1) by (cases f rule: remdups_adj.cases) (auto simp: Suc_le_eq)
  then show ?thesis
    using assms(2,3) by cases (auto simp: fraction_stop stops_def split: list.splits)
qed

lemma groups_written:
  assumes "list_all (\<lambda>g. length g = 3 \<and> list_all digit_unit g) gs" and "groups_length t = 0"
  shows "groups_length (concat (map ((#) COMMA) gs) @ t) = 4 * length gs"
  using assms(1)
proof (induction gs)
  case (Cons g gs)
  then obtain a b c where "g = [a, b, c]" by (auto simp: length_Suc_conv numeral_3_eq_3)
  with Cons show ?case by simp
qed (simp add: assms(2))

lemma groups_other: "c \<noteq> COMMA \<Longrightarrow> groups_length (c # t) = 0"
  by (induction "c # t" rule: groups_length.induct) auto

lemma groups_before_fraction: "stops t \<Longrightarrow> groups_length ((if f = [] then [] else DOT # f) @ t) = 0"
  by (simp add: groups_stop groups_other)

lemma digit_not_comma: "digit_unit c \<Longrightarrow> c \<noteq> COMMA"
  by auto

text \<open>No shorter start of the leading digits is followed by a group.\<close>

lemma grouped_inside: "list_all digit_unit d \<Longrightarrow> n < length d \<Longrightarrow> grouped_from n (d @ t) = None"
proof -
  assume d: "list_all digit_unit d" "n < length d"
  then have "drop n (d @ t) = d ! n # drop (Suc n) d @ t" by (simp add: Cons_nth_drop_Suc [symmetric])
  moreover have "digit_unit (d ! n)" using d by (simp add: list_all_length)
  ultimately show ?thesis by (simp add: grouped_from_def groups_digit)
qed

lemma grouped_beyond: "length d < n \<Longrightarrow> t = [] \<or> \<not> digit_unit (hd t) \<Longrightarrow> grouped_from n (d @ t) = None"
  by (cases t; cases "n - length d") (auto simp: grouped_from_def)

lemma takeWhile_digit_units: "list_all digit_unit d \<Longrightarrow> t = [] \<or> \<not> digit_unit (hd t) \<Longrightarrow> takeWhile digit_unit (d @ t) = d"
  by (cases t) (auto simp: takeWhile_append list_all_iff)

lemma stops_first: "stops t \<Longrightarrow> t = [] \<or> \<not> digit_unit (hd t)"
  by (auto simp: stops_def split: list.splits)

lemma amount_written:
  assumes "well_written d gs f" and "stops t"
  shows "amount_length (written d gs f @ t) = length (written d gs f)"
proof -
  let ?f = "if f = [] then [] else DOT # f"
  let ?g = "concat (map ((#) COMMA) gs)"
  have d: "d \<noteq> []" "list_all digit_unit d" using assms(1) by (simp_all add: well_written_def)
  have len: "length ?g = 4 * length gs" using assms(1) by (induction gs) (auto simp: well_written_def)
  have frac: "fraction_length (?f @ t) = length ?f"
    using fraction_written [of f t] assms by (simp add: well_written_def)
  have groups: "groups_length (?g @ ?f @ t) = 4 * length gs"
    using assms by (intro groups_written) (simp_all add: well_written_def groups_before_fraction del: append_assoc)
  have follow: "?g @ ?f @ t = [] \<or> \<not> digit_unit (hd (?g @ ?f @ t))"
    using stops_first [OF assms(2)] by (cases gs; cases "f = []") auto
  have all: "written d gs f @ t = d @ ?g @ ?f @ t" by (simp add: written_def)
  show ?thesis
  proof (cases "gs = []")
    case True
    have "grouped_from n (d @ ?g @ ?f @ t) = None" for n
    proof (cases "length d" n rule: linorder_cases)
      case less
      then show ?thesis by (rule grouped_beyond [OF _ follow])
    next
      case equal
      then show ?thesis using groups True by (simp add: grouped_from_def)
    next
      case greater
      then show ?thesis by (rule grouped_inside [OF d(2)])
    qed
    moreover have "takeWhile digit_unit (d @ ?g @ ?f @ t) = d" by (rule takeWhile_digit_units [OF d(2) follow])
    ultimately show ?thesis using d(1) frac True unfolding all
      by (simp add: amount_length_def with_fraction_def written_def)
  next
    case False
    let ?n = "length d"
    have here: "grouped_from ?n (d @ ?g @ ?f @ t) = Some (length (written d gs f))"
      using False groups frac len d by (simp add: grouped_from_def with_fraction_def written_def)
    have elsewhere: "grouped_from n (d @ ?g @ ?f @ t) = None" if "n \<noteq> ?n" for n
      using that grouped_beyond [OF _ follow, of d n] grouped_inside [OF d(2), of n] by (meson linorder_neqE_nat)
    have "?n \<le> 3" "0 < ?n" using assms(1) False d(1) by (auto simp: well_written_def)
    then have "?n = 1 \<or> ?n = 2 \<or> ?n = 3" by linarith
    then show ?thesis using here elsewhere [of 3] elsewhere [of 2] unfolding all by (auto simp: amount_length_def)
  qed
qed

lemma amount_nothing: "t = [] \<or> \<not> digit_unit (hd t) \<Longrightarrow> amount_length t = 0"
proof -
  assume t: "t = [] \<or> \<not> digit_unit (hd t)"
  have "grouped_from n t = None" if "0 < n" for n using grouped_beyond [of "[]" n t] t that by simp
  moreover have "takeWhile digit_unit t = []" using t by (cases t) auto
  ultimately show ?thesis by (simp add: amount_length_def)
qed

lemma scan_words: "list_all (\<lambda>c. \<not> digit_unit c) u \<Longrightarrow> scan pre (u @ t) = scan (pre @ u) t"
proof (induction u arbitrary: pre)
  case (Cons c u)
  then show ?case by (subst scan.simps) (simp add: amount_nothing)
qed simp

lemma scan_number:
  assumes "well_written d gs f" and "stops t"
  shows "scan pre (written d gs f @ t) = (pre, written d gs f, t) # scan (pre @ written d gs f) t"
proof -
  define w where "w = written d gs f"
  have w: "w \<noteq> []" "amount_length (w @ t) = length w"
    using assms amount_written [OF assms] by (auto simp: w_def well_written_def written_def)
  then obtain c u where cu: "w @ t = c # u" by (cases w) auto
  have "take (length w) (c # u) = w" "drop (length w) (c # u) = t" unfolding cu [symmetric] by simp_all
  with w cu show ?thesis unfolding w_def [symmetric] by (subst cu, subst scan.simps) (simp add: Let_def)
qed

text \<open>
  A message of words and numbers, each number after its words, and the words at the end. \<open>numbers_of\<close> is what
  the program should find in it.
\<close>

type_synonym written_number = "text_units \<times> text_units list \<times> text_units"

fun message :: "(text_units \<times> written_number) list \<Rightarrow> text_units \<Rightarrow> text_units" where
  "message [] end_words = end_words"
| "message ((u, d, gs, f) # ms) end_words = u @ written d gs f @ message ms end_words"

fun well_formed :: "(text_units \<times> written_number) list \<Rightarrow> text_units \<Rightarrow> bool" where
  "well_formed [] end_words \<longleftrightarrow> list_all (\<lambda>c. \<not> digit_unit c) end_words"
| "well_formed ((u, d, gs, f) # ms) end_words \<longleftrightarrow> list_all (\<lambda>c. \<not> digit_unit c) u \<and> well_written d gs f \<and>
     stops (message ms end_words) \<and> well_formed ms end_words"

fun numbers_of :: "text_units \<Rightarrow> (text_units \<times> written_number) list \<Rightarrow> text_units \<Rightarrow> (text_units \<times> text_units \<times> text_units) list" where
  "numbers_of pre [] end_words = []"
| "numbers_of pre ((u, d, gs, f) # ms) end_words =
     (pre @ u, written d gs f, message ms end_words) # numbers_of (pre @ u @ written d gs f) ms end_words"

lemma scan_message: "well_formed ms end_words \<Longrightarrow> scan pre (message ms end_words) = numbers_of pre ms end_words"
proof (induction ms arbitrary: pre)
  case Nil
  have "scan (pre @ end_words) [] = []" by (subst scan.simps) simp
  with Nil show ?case using scan_words [of end_words pre "[]"] by simp
next
  case (Cons m ms)
  obtain u d gs f where m: "m = (u, d, gs, f)" by (cases m)
  with Cons.prems Cons.IH [of "pre @ u @ written d gs f"] show ?case
    by (simp add: scan_words scan_number)
qed

section \<open>The value of an amount\<close>

text \<open>What \<open>new Prisma.Decimal\<close> makes of the text of an amount.\<close>

definition units_nat :: "text_units \<Rightarrow> nat" where
  "units_nat t = foldl (\<lambda>n c. 10 * n + (c - 48)) 0 t"

definition decimal_of_units :: "text_units \<Rightarrow> decimal" where
  "decimal_of_units t =
     (let whole = takeWhile (\<lambda>c. c \<noteq> DOT) t; part = drop 1 (dropWhile (\<lambda>c. c \<noteq> DOT) t) in
      of_nat (units_nat (whole @ part)) / 10 ^ length part)"

lemma units_nat_snoc: "units_nat (t @ [c]) = 10 * units_nat t + (c - 48)"
  by (simp add: units_nat_def)

lemma decimal_of_digits: "list_all digit_unit d \<Longrightarrow> list_all digit_unit f \<Longrightarrow>
    decimal_of_units (d @ (if f = [] then [] else DOT # f)) = of_nat (units_nat (d @ f)) / 10 ^ length f"
proof -
  assume d: "list_all digit_unit d" "list_all digit_unit f"
  then have "\<forall>c \<in> set d. c \<noteq> DOT" by (auto simp: list_all_iff)
  then show ?thesis by (simp add: decimal_of_units_def takeWhile_append dropWhile_append Let_def)
qed

lemma canonical_cases:
  assumes "list_all digit_unit d" and "d \<noteq> []" and "list_all digit_unit f"
  obtains f' where "canonical (d @ (if f = [] then [] else DOT # f)) = d @ (if f' = [] then [] else DOT # f')"
    and "\<exists>k. f = f' @ replicate k 48" and "list_all digit_unit f'"
proof (cases "f = [] \<or> last f \<noteq> 48")
  case True
  have "DOT \<notin> set d" using assms(1) by (auto simp: list_all_iff)
  have "canonical (d @ (if f = [] then [] else DOT # f)) = d @ (if f = [] then [] else DOT # f)"
    using True \<open>DOT \<notin> set d\<close> by (cases f rule: rev_cases) (simp_all add: canonical_def last_unit_def first_unit_def)
  moreover have "\<exists>k. f = f @ replicate k 48" by (intro exI [of _ 0]) simp
  ultimately show ?thesis using that [of f] assms(3) by blast
next
  case False
  define g where "g = rev (dropWhile (\<lambda>c. c = 48) (rev f))"
  have f: "f = g @ replicate (length (takeWhile (\<lambda>c. c = 48) (rev f))) 48"
  proof -
    have "takeWhile (\<lambda>c. c = 48) (rev f) = replicate (length (takeWhile (\<lambda>c. c = 48) (rev f))) 48"
      by (rule replicate_eqI) (auto dest: set_takeWhileD)
    then have "rev f = replicate (length (takeWhile (\<lambda>c. c = 48) (rev f))) 48 @ dropWhile (\<lambda>c. c = 48) (rev f)"
      by (metis takeWhile_dropWhile_id)
    then show ?thesis unfolding g_def by (metis rev_append rev_replicate rev_rev_ident)
  qed
  have drop: "dropWhile (\<lambda>c. c = 48) (rev f @ DOT # rev d) = rev g @ DOT # rev d"
    by (cases "dropWhile (\<lambda>c. c = 48) (rev f) = []") (auto simp: g_def dropWhile_append DOT_def)
  have digits: "list_all digit_unit g" using assms(3) unfolding g_def list_all_iff by (auto dest: set_dropWhileD)
  have last: "last_unit (d @ DOT # f) = Some 48"
    using False by (cases f rule: rev_cases) (simp_all add: last_unit_def first_unit_def)
  have "canonical (d @ DOT # f) = (let m = rev g @ DOT # rev d in rev (if first_unit m = Some DOT then tl m else m))"
    using last drop by (simp add: canonical_def Let_def)
  also have "\<dots> = d @ (if g = [] then [] else DOT # g)"
    using digits by (cases g rule: rev_cases) (auto simp: first_unit_def Let_def)
  finally have "canonical (d @ DOT # f) = d @ (if g = [] then [] else DOT # g)" .
  then show ?thesis using that [of g] f digits False by auto
qed

lemma units_nat_zeros: "units_nat (t @ replicate k 48) = units_nat t * 10 ^ k"
  by (induction k) (simp_all add: replicate_append_same [symmetric] units_nat_snoc del: replicate_Suc append_assoc add: append_assoc [symmetric] replicate_Suc)

lemma canonical_value:
  assumes "list_all digit_unit d" and "d \<noteq> []" and "list_all digit_unit f"
  shows "decimal_of_units (canonical (d @ (if f = [] then [] else DOT # f))) = of_nat (units_nat (d @ f)) / 10 ^ length f"
proof -
  obtain f' k where "canonical (d @ (if f = [] then [] else DOT # f)) = d @ (if f' = [] then [] else DOT # f')"
      "f = f' @ replicate k 48" "list_all digit_unit f'"
    by (rule canonical_cases [OF assms]) blast
  then show ?thesis using decimal_of_digits [OF assms(1), of f'] units_nat_zeros [of "d @ f'" k]
    by (simp add: power_add)
qed

section \<open>An alert is read\<close>

lemma contains_at: "matches_at w t \<Longrightarrow> contains w (u @ t)"
proof (induction u)
  case Nil
  then show ?case by (cases t) auto
qed simp

lemma contains_word_at: "word_here w (if u = [] then b else Some (last u)) t \<Longrightarrow> contains_word w b (u @ t)"
proof (induction u arbitrary: b)
  case Nil
  then show ?case by (cases t) auto
next
  case (Cons c u)
  then show ?case by (cases "u = []") auto
qed

lemma labelled_at:
  assumes "w \<in> set NON_PAYMENT_WORDS" and "map fold_case l = w" and "\<not> word_at (last_unit u)" and "\<not> word_at (first_unit rest)"
    and "list_all (\<lambda>c. \<not> digit_unit c) rest" and "length rest < 16"
  shows "labelled (u @ l @ rest)"
proof -
  have "\<forall>x \<in> set NON_PAYMENT_WORDS. word_at (first_unit x) \<and> word_at (last_unit x)"
    by (simp add: NON_PAYMENT_WORDS_def codes_def first_unit_def last_unit_def word_at_def word_unit_def letter_unit_def)
  with assms(1) have "word_at (first_unit w)" "word_at (last_unit w)" by blast+
  moreover have "length l = length w" using assms(2) by (metis length_map)
  ultimately have "ends_with_word w (u @ l) (first_unit rest)"
    using assms(2-4) by (simp add: ends_with_word_def ends_with_def boundary_def)
  then have "label_at (length rest) (u @ l @ rest)"
    using assms(1,5) unfolding label_at_def by (auto simp: list_ex_iff Let_def)
  then show ?thesis using assms(6) unfolding labelled_def list_ex_iff by (intro bexI [of _ "length rest"]) simp_all
qed

lemma written_digits: "well_written d gs f \<Longrightarrow>
    filter (\<lambda>c. c \<noteq> COMMA) (written d gs f) = (d @ concat gs) @ (if f = [] then [] else DOT # f)"
proof -
  assume w: "well_written d gs f"
  have keep: "list_all digit_unit x \<Longrightarrow> filter (\<lambda>c. c \<noteq> COMMA) x = x" for x
    by (intro filter_True) (auto simp: list_all_iff)
  have "list_all (\<lambda>g. length g = 3 \<and> list_all digit_unit g) gs \<Longrightarrow> filter (\<lambda>c. c \<noteq> COMMA) (concat (map ((#) COMMA) gs)) = concat gs"
    by (induction gs) (simp_all add: keep)
  with w show ?thesis by (simp add: written_def well_written_def keep)
qed

definition amount_value :: "text_units \<Rightarrow> text_units list \<Rightarrow> text_units \<Rightarrow> decimal" where
  "amount_value d gs f = of_nat (units_nat (d @ concat gs @ f)) / 10 ^ length f"

lemma units_nat_0: "list_all digit_unit t \<Longrightarrow> units_nat t = 0 \<longleftrightarrow> (\<forall>c \<in> set t. c = 48)"
  by (induction t rule: rev_induct) (auto simp: units_nat_snoc, auto simp: units_nat_def digit_unit_def)

lemma well_written_digits: "well_written d gs f \<Longrightarrow> list_all digit_unit (d @ concat gs) \<and> list_all digit_unit (d @ concat gs @ f)"
proof -
  assume w: "well_written d gs f"
  have "list_all (\<lambda>g. length g = 3 \<and> list_all digit_unit g) gs \<Longrightarrow> list_all digit_unit (concat gs)"
    by (induction gs) simp_all
  with w show ?thesis by (simp add: well_written_def)
qed

lemma candidate_written:
  assumes w: "well_written d gs f" and pos: "0 < amount_value d gs f"
    and sides: "\<not> (case last_unit pre of None \<Rightarrow> False | Some c \<Rightarrow> letter_unit c)" "\<not> (case first_unit suf of None \<Rightarrow> False | Some c \<Rightarrow> letter_unit c)"
  shows "candidate (pre, written d gs f, suf) =
    (if labelled pre then None else Some (canonical ((d @ concat gs) @ (if f = [] then [] else DOT # f))))"
proof -
  have digits: "list_all digit_unit (d @ concat gs @ f)"
    using well_written_digits [OF w] by blast
  have "units_nat (d @ concat gs @ f) \<noteq> 0" 
  proof
    assume "units_nat (d @ concat gs @ f) = 0"
    with pos show False by (simp add: amount_value_def)
  qed
  then obtain c where "c \<in> set (d @ concat gs @ f)" "c \<noteq> 48" unfolding units_nat_0 [OF digits] by blast
  moreover have "c \<noteq> DOT" if "c \<in> set (d @ concat gs @ f)" for c
    using digits that not_digits(2) unfolding list_all_iff by blast
  ultimately have "list_ex (\<lambda>c. c \<noteq> 48 \<and> c \<noteq> DOT) ((d @ concat gs) @ (if f = [] then [] else DOT # f))"
    by (fastforce simp: list_ex_iff)
  then show ?thesis using sides unfolding candidate_def written_digits [OF w] by (simp add: written_digits [OF w] Let_def)
qed

definition received_alert :: "text_units \<Rightarrow> text_units \<Rightarrow> text_units \<Rightarrow> text_units" where
  "received_alert amount name balance = codes ''You have received '' @ amount @ codes '' KHR from '' @ name @
     codes ''. Available balance: '' @ balance @ codes '' KHR''"

lemma alert_start_unlabelled: "\<not> labelled (codes ''You have received '')"
  by (simp add: labelled_def label_at_def upt_rec codes_def ends_with_def ends_with_word_def NON_PAYMENT_WORDS_def
      KHMER_LABELS_def fold_case_def Let_def)

text \<open>C40: An alert is read for what it says: the usual message with the amount received, the name of the payer and the new
  balance, the numbers printed with or without separators and decimals, gives the amount received as an amount
  in riel, whatever the name (it must hold no digit, and the message must not name dollars), and not the balance.
\<close>

theorem alert_is_read:
  assumes amount: "well_written d gs f" "0 < amount_value d gs f" and balance: "well_written d' gs' f'"
    and name: "list_all (\<lambda>c. \<not> digit_unit c) name"
    and no_dollars: "\<not> names_currency UsdAlert (received_alert (written d gs f) name (written d' gs' f'))"
  shows "\<exists>a. parseBankAlert (received_alert (written d gs f) name (written d' gs' f')) = Some (a, KhrAlert) \<and>
    decimal_of_units a = amount_value d gs f"
proof -
  let ?w = "written d gs f" and ?b = "written d' gs' f'"
  let ?t = "received_alert ?w name ?b"
  let ?u = "codes ''You have received ''"
  let ?v = "codes '' KHR from '' @ name @ codes ''. Available balance: ''"
  have t: "?t = message [(?u, d, gs, f), (?v, d', gs', f')] (codes '' KHR'')" by (simp add: received_alert_def)
  have wf: "well_formed [(?u, d, gs, f), (?v, d', gs', f')] (codes '' KHR'')"
    using amount(1) balance name by (simp add: codes_def digit_unit_def stops_def COMMA_def DOT_def)
  have hint: "hints_receipt ?t"
  proof -
    have "contains (codes ''received'') (codes ''You have '' @ codes ''received '' @ ?w @ codes '' KHR from '' @ name @
        codes ''. Available balance: '' @ ?b @ codes '' KHR'')"
      by (rule contains_at) (simp add: matches_at_def codes_def fold_case_def)
    then have "contains (codes ''received'') ?t" by (simp add: received_alert_def codes_def)
    then show ?thesis by (simp add: hints_receipt_def RECEIVE_HINT_def)
  qed
  have khr: "names_currency KhrAlert ?t"
  proof -
    have "contains_word (codes ''khr'') None ((?u @ ?w @ codes '' '') @ codes ''KHR from '' @ name @
        codes ''. Available balance: '' @ ?b @ codes '' KHR'')"
      by (rule contains_word_at) (simp add: word_here_def matches_at_def codes_def fold_case_def boundary_def word_at_def
          first_unit_def last_unit_def word_unit_def digit_unit_def letter_unit_def)
    then have "contains_word (codes ''khr'') None ?t" by (simp add: received_alert_def codes_def)
    then show ?thesis by (simp add: names_currency_def)
  qed
  have second: "labelled (?u @ ?w @ ?v)"
  proof -
    have "labelled ((?u @ ?w @ codes '' KHR from '' @ name @ codes ''. Available '') @ codes ''balance'' @ codes '': '')"
      by (rule labelled_at [of "codes ''balance''"])
        (simp_all add: NON_PAYMENT_WORDS_def codes_def fold_case_def word_at_def first_unit_def last_unit_def word_unit_def
          digit_unit_def letter_unit_def)
    then show ?thesis by (simp add: codes_def)
  qed
  let ?a = "canonical ((d @ concat gs) @ (if f = [] then [] else DOT # f))"
  have 1: "candidate (?u, ?w, message [(?v, d', gs', f')] (codes '' KHR'')) = Some ?a"
    using candidate_written [OF amount, of ?u "message [(?v, d', gs', f')] (codes '' KHR'')"] alert_start_unlabelled
    by (simp add: codes_def last_unit_def first_unit_def letter_unit_def)
  have 2: "candidate (?u @ ?w @ ?v, ?b, codes '' KHR'') = None" using second by (simp add: candidate_def Let_def)
  have "payment_figures ?t = [?a]"
    unfolding payment_figures_def t scan_message [OF wf] using 1 2 by (simp add: map_filter_simps)
  then have "parseBankAlert ?t = Some (?a, KhrAlert)"
    using hint khr no_dollars by (simp add: parseBankAlert_def received_alert_def codes_def)
  moreover have "decimal_of_units ?a = amount_value d gs f"
    using canonical_value [of "d @ concat gs" f] amount(1) well_written_digits [OF amount(1)]
    by (simp add: amount_value_def well_written_def)
  ultimately show ?thesis by blast
qed

section \<open>Instances\<close>

lemma no_dollars_named: "\<not> names_currency UsdAlert (received_alert (written (codes ''20'') [codes ''000''] []) (codes ''SOK'') (written (codes ''9'') [] []))"
  by (simp add: names_currency_def received_alert_def written_def codes_def matches_at_def word_here_def fold_case_def COMMA_def DOT_def)

theorem alert_is_read_witness:
  "\<exists>a. parseBankAlert (received_alert (written (codes ''20'') [codes ''000''] []) (codes ''SOK'') (written (codes ''9'') [] [])) = Some (a, KhrAlert)
    \<and> decimal_of_units a = amount_value (codes ''20'') [codes ''000''] []"
  by (rule alert_is_read)
    (use no_dollars_named in \<open>simp_all add: well_written_def amount_value_def codes_def digit_unit_def units_nat_def\<close>)

text \<open>
  Where the patterns read more than they mean to: the name of a payer that holds "riel" makes an alert in dollars
  unreadable, and an outgoing payment is taken for an incoming one.
\<close>

lemma gabriel_unreadable: "parseBankAlert (codes ''Received $5 from Gabriel'') = None"
  by (simp add: parseBankAlert_def names_currency_def codes_def matches_at_def word_here_def fold_case_def)

lemma outgoing_read: "\<exists>a. parseBankAlert (codes ''You paid 5 KHR'') = Some (a, KhrAlert)"
proof -
  let ?t = "message [(codes ''You paid '', codes ''5'', [], [])] (codes '' KHR'')"
  have t: "codes ''You paid 5 KHR'' = ?t" by (simp add: codes_def written_def)
  have wf: "well_formed [(codes ''You paid '', codes ''5'', [], [])] (codes '' KHR'')"
    by (simp add: codes_def digit_unit_def well_written_def stops_def COMMA_def DOT_def)
  have "\<not> labelled (codes ''You paid '')"
    by (simp add: labelled_def label_at_def upt_rec codes_def ends_with_def ends_with_word_def NON_PAYMENT_WORDS_def
        KHMER_LABELS_def fold_case_def Let_def
        boundary_def word_at_def first_unit_def last_unit_def word_unit_def digit_unit_def letter_unit_def)
  then have "\<exists>a. candidate (codes ''You paid '', written (codes ''5'') [] [], codes '' KHR'') = Some a"
    using candidate_written [of "codes ''5''" "[]" "[]" "codes ''You paid ''" "codes '' KHR''"]
    by (simp add: well_written_def codes_def digit_unit_def amount_value_def units_nat_def last_unit_def first_unit_def letter_unit_def)
  then obtain a where "payment_figures ?t = [a]"
    unfolding payment_figures_def scan_message [OF wf] by (auto simp: map_filter_simps)
  moreover have "hints_receipt ?t \<and> names_currency KhrAlert ?t \<and> \<not> names_currency UsdAlert ?t"
    by (simp add: hints_receipt_def RECEIVE_HINT_def names_currency_def written_def codes_def matches_at_def word_here_def fold_case_def
        boundary_def word_at_def first_unit_def last_unit_def word_unit_def digit_unit_def letter_unit_def)
  ultimately show ?thesis unfolding t by (simp add: parseBankAlert_def codes_def)
qed

end
