(* ===== verification/Detection.thy ===== *)
theory Detection
  imports Attached BankAlerts System "HOL-Library.Word"
begin

text \<open>
  \<open>apps/api/src/telegram/telegram-detection.module.ts\<close>: finding incoming payments in the alerts that a merchant's bank
  posts to a Telegram chat. A chat is bound to a store by posting the store's code; an alert in a bound chat is recorded
  as a detection, with the payment it may stand for, and a cashier confirms it. The chats and the detections are
  tables beside the database.
\<close>

section \<open>State\<close>

record tg_source =
  ts_id :: string
  ts_store :: string
  ts_chat :: "string option"
  ts_code :: "text_units option"
  ts_verified :: "int option"

record detection_row =
  dn_id :: string
  dn_store :: string
  dn_payment :: "string option"
  dn_key :: string
  dn_amount :: "decimal option"
  dn_currency :: "currency option"
  dn_text :: text_units
  dn_matches :: nat
  dn_confirmed :: bool
  dn_created :: int

record detector =
  dr_sources :: "tg_source list"
  dr_detections :: "detection_row list"

type_synonym 'a detection_op = "(detector, 'a) beside"

definition MATCH_WINDOW_MS :: int where
  "MATCH_WINDOW_MS = 30 * 60 * 1000"

text \<open>An update: the message it carries, or the post of a channel.\<close>

record tg_message =
  tm_chat :: "string option"
  tm_text :: "text_units option"

record tg_update =
  tu_id :: "int option"
  tu_message :: "tg_message option"
  tu_channel_post :: "tg_message option"

section \<open>The chat of a store\<close>

definition assertAccess :: "auth_user \<Rightarrow> string \<Rightarrow> permission \<Rightarrow> store_row detection_op" where
  "assertAccess u storeId perm = inDb (assertStore u storeId perm)"

record detection_status =
  ds_bot_configured :: bool
  ds_verified :: bool
  ds_chat :: "string option"
  ds_code :: "text_units option"

definition of_store :: "string \<Rightarrow> tg_source \<Rightarrow> bool" where
  "of_store storeId x \<longleftrightarrow> ts_store x = storeId"

text \<open>\<open>botToken\<close> is the platform's setting.\<close>

definition detection_status :: "string option \<Rightarrow> auth_user \<Rightarrow> string \<Rightarrow> detection_status detection_op" where
  "detection_status botToken u storeId =
     bindM (assertAccess u storeId StoreRead) (\<lambda>_.
     bindM (ownM (\<lambda>x. find_by (of_store storeId) (dr_sources x))) (\<lambda>src.
     ret \<lparr>ds_bot_configured = (case botToken of None \<Rightarrow> False | Some t \<Rightarrow> t \<noteq> ''''),
       ds_verified = (case src of None \<Rightarrow> False | Some x \<Rightarrow> ts_verified x \<noteq> None),
       ds_chat = Option.bind src ts_chat,
       ds_code = (case src of None \<Rightarrow> None | Some x \<Rightarrow> if ts_verified x \<noteq> None then None else ts_code x)\<rparr>))"

definition beginVerify :: "auth_user \<Rightarrow> string \<Rightarrow> text_units detection_op" where
  "beginVerify u storeId =
     bindM (assertAccess u storeId StoreWrite) (\<lambda>_.
     bindM (inDb randomBase58) (\<lambda>r.
     let code = codes (''PAYKH-'' @ to_upper r) in
     bindM (inDb (prefixedId ''tgs'')) (\<lambda>i.
     bindM (ownM (\<lambda>x. exists_by (of_store storeId) (dr_sources x))) (\<lambda>known.
     seqM (writeM (dr_sources_update (if known
        then update_where (of_store storeId) (\<lambda>x. x\<lparr>ts_code := Some code, ts_chat := None, ts_verified := None\<rparr>)
        else (\<lambda>xs. xs @ [\<lparr>ts_id = i, ts_store = storeId, ts_chat = None, ts_code = Some code, ts_verified = None\<rparr>]))))
     (ret code)))))"

definition unlink :: "auth_user \<Rightarrow> string \<Rightarrow> unit detection_op" where
  "unlink u storeId =
     bindM (assertAccess u storeId StoreWrite) (\<lambda>_.
     writeM (dr_sources_update (delete_where (of_store storeId))))"

record detection_view =
  dv_id :: string
  dv_payment :: "string option"
  dv_amount :: "decimal option"
  dv_currency :: "currency option"
  dv_matches :: nat
  dv_confirmed :: bool
  dv_at :: int
  dv_text :: text_units

definition detection_view :: "detection_row \<Rightarrow> detection_view" where
  "detection_view d = \<lparr>dv_id = dn_id d, dv_payment = dn_payment d, dv_amount = dn_amount d, dv_currency = dn_currency d,
     dv_matches = dn_matches d, dv_confirmed = dn_confirmed d, dv_at = dn_created d, dv_text = take 140 (dn_text d)\<rparr>"

text \<open>The latest twenty. Rows are appended as they are created.\<close>

definition recent_detections :: "auth_user \<Rightarrow> string \<Rightarrow> detection_view list detection_op" where
  "recent_detections u storeId =
     bindM (assertAccess u storeId PaymentRead) (\<lambda>_.
     ownM (\<lambda>x. map detection_view (take 20 (rev (rows_where (\<lambda>d. dn_store d = storeId) (dr_detections x))))))"

section \<open>An alert\<close>

text \<open>\<open>/^PAYKH-[A-Z0-9]+$/\<close>.\<close>

definition verify_code :: "text_units \<Rightarrow> bool" where
  "verify_code t \<longleftrightarrow> take 6 t = codes ''PAYKH-'' \<and> drop 6 t \<noteq> [] \<and>
     list_all (\<lambda>c. digit_unit c \<or> 65 \<le> c \<and> c \<le> 90) (drop 6 t)"

text \<open>The hash of a text: 32 bits, printed in base 36.\<close>

definition hash_units :: "text_units \<Rightarrow> 32 word" where
  "hash_units t = foldl (\<lambda>h c. 31 * h + of_nat c) 0 t"

definition base36_digit :: "nat \<Rightarrow> char" where
  "base36_digit d = char_of (if d < 10 then 48 + d else 87 + d)"

function show_base36 :: "nat \<Rightarrow> string" where
  "show_base36 n = (if n < 36 then [base36_digit n] else show_base36 (n div 36) @ [base36_digit (n mod 36)])"
  by pat_completeness auto
termination by (relation "measure id") auto

declare show_base36.simps [simp del]

definition show_int :: "int \<Rightarrow> string" where
  "show_int i = (if i < 0 then ''-'' @ show_nat (nat (- i)) else show_nat (nat i))"

definition dedupe_key :: "tg_update \<Rightarrow> string \<Rightarrow> text_units \<Rightarrow> string" where
  "dedupe_key up chat t =
     (case tu_id up of Some i \<Rightarrow> ''tg:'' @ show_int i
      | None \<Rightarrow> ''tg:'' @ chat @ '':'' @ show_base36 (unat (hash_units t)))"

definition currency_of_alert :: "alert_currency \<Rightarrow> currency" where
  "currency_of_alert c = (case c of KhrAlert \<Rightarrow> KHR | UsdAlert \<Rightarrow> USD)"

text \<open>The open payments an alert may stand for.\<close>

definition alert_matches :: "string \<Rightarrow> text_units \<times> alert_currency \<Rightarrow> db \<Rightarrow> payment_row list" where
  "alert_matches storeId parsed s =
     filter (\<lambda>p. p_amount p = decimal_of_units (fst parsed))
       (rows_where (\<lambda>p. p_store p = storeId \<and> p_status p \<in> {Pending, Scanned} \<and>
          p_currency p = currency_of_alert (snd parsed) \<and> clock s - MATCH_WINDOW_MS \<le> p_created p) (payments s))"

definition bind_chat :: "string \<Rightarrow> text_units \<Rightarrow> unit detection_op" where
  "bind_chat chat code =
     bindM (ownM (\<lambda>x. find_by (\<lambda>y. ts_code y = Some code \<and> ts_verified y = None) (dr_sources x))) (\<lambda>pending.
     case pending of None \<Rightarrow> ret ()
     | Some x \<Rightarrow> bindM (inDb (getsM clock)) (\<lambda>now.
         writeM (dr_sources_update (update_where (\<lambda>y. ts_id y = ts_id x)
           (\<lambda>y. y\<lparr>ts_chat := Some chat, ts_verified := Some now, ts_code := None\<rparr>)))))"

definition record_alert :: "tg_update \<Rightarrow> string \<Rightarrow> text_units \<Rightarrow> tg_source \<Rightarrow> unit detection_op" where
  "record_alert up chat t source =
     (let parsed = parseBankAlert (take 2000 t) in
      bindM (inDb (getsM (\<lambda>s. case parsed of None \<Rightarrow> [] | Some a \<Rightarrow> alert_matches (ts_store source) a s))) (\<lambda>exact.
      bindM (inDb (prefixedId ''det'')) (\<lambda>i.
      bindM (inDb (getsM clock)) (\<lambda>now.
      let row = \<lparr>dn_id = i, dn_store = ts_store source,
            dn_payment = (case exact of [p] \<Rightarrow> Some (p_id p) | _ \<Rightarrow> None), dn_key = dedupe_key up chat t,
            dn_amount = map_option (\<lambda>a. decimal_of_units (fst a)) parsed,
            dn_currency = map_option (\<lambda>a. currency_of_alert (snd a)) parsed,
            dn_text = take 2000 t, dn_matches = length exact, dn_confirmed = False, dn_created = now\<rparr>
      in bindM (ownM (\<lambda>x. exists_by (\<lambda>d. dn_key d = dn_key row \<or> dn_id d = i) (dr_detections x))) (\<lambda>clash.
         if clash then ret () else writeM (dr_detections_update (\<lambda>ds. ds @ [row])))))))"

definition ingest :: "tg_update \<Rightarrow> unit detection_op" where
  "ingest up =
     (let msg = (case tu_message up of Some m \<Rightarrow> Some m | None \<Rightarrow> tu_channel_post up) in
      case (Option.bind msg tm_chat, Option.bind msg tm_text) of
        (Some chat, Some t) \<Rightarrow>
          if t = [] then ret ()
          else if verify_code (trim_units t) then bind_chat chat (trim_units t)
          else bindM (ownM (\<lambda>x. find_by (\<lambda>y. ts_chat y = Some chat \<and> ts_verified y \<noteq> None) (dr_sources x))) (\<lambda>source.
            case source of None \<Rightarrow> ret () | Some x \<Rightarrow> record_alert up chat t x)
      | _ \<Rightarrow> ret ())"

text \<open>The webhook: nothing is read without the secret, and the caller learns nothing.\<close>

definition webhook :: "string option \<Rightarrow> string option \<Rightarrow> tg_update \<Rightarrow> unit detection_op" where
  "webhook expected secret up =
     (if (case expected of None \<Rightarrow> True | Some e \<Rightarrow> e = '''' \<or> secret \<noteq> Some e) then ret ()
      else catchM (ingest up) (\<lambda>_. ret ()))"

section \<open>The cashier\<close>

definition confirm :: "env \<Rightarrow> auth_user \<Rightarrow> string \<Rightarrow> string detection_op" where
  "confirm en u i =
     bindM (ownM (\<lambda>x. find_by (\<lambda>d. dn_id d = i) (dr_detections x))) (\<lambda>det.
     bindM (someM (paymentNotFound ''Detection not found'') det) (\<lambda>det.
     bindM (assertAccess u (dn_store det) PaymentWrite) (\<lambda>_.
     bindM (someM (invalidRequest ''This detection is not matched to a payment'') (given (dn_payment det))) (\<lambda>paymentId.
     bindM (inDb (transition en paymentId Paid (''telegram detection '' @ dn_id det @ '' confirmed by '' @ user_id u))) (\<lambda>_.
     bindM (ownM (\<lambda>x. exists_by (\<lambda>d. dn_id d = dn_id det) (dr_detections x))) (\<lambda>there.
     seqM (guardM there P2025)
     (seqM (writeM (dr_detections_update (update_where (\<lambda>d. dn_id d = dn_id det) (\<lambda>d. d\<lparr>dn_confirmed := True\<rparr>))))
       (ret paymentId))))))))"

datatype parse_hint = Unreadable | MatchesOne | MatchesNone | MatchesSeveral

record parse_report =
  rp_parsed :: bool
  rp_amount :: "text_units option"
  rp_currency :: "currency option"
  rp_would_match :: nat
  rp_hint :: parse_hint

definition testParse :: "auth_user \<Rightarrow> string \<Rightarrow> text_units \<Rightarrow> parse_report detection_op" where
  "testParse u storeId t =
     bindM (assertAccess u storeId PaymentRead) (\<lambda>_.
     let parsed = parseBankAlert t in
     bindM (inDb (getsM (\<lambda>s. case parsed of None \<Rightarrow> 0 | Some a \<Rightarrow> length (alert_matches storeId a s)))) (\<lambda>n.
     ret \<lparr>rp_parsed = parsed \<noteq> None, rp_amount = map_option fst parsed, rp_currency = map_option (\<lambda>a. currency_of_alert (snd a)) parsed,
       rp_would_match = n, rp_hint = (if parsed = None then Unreadable else if n = 1 then MatchesOne
         else if n = 0 then MatchesNone else MatchesSeveral)\<rparr>))"

section \<open>A course of requests\<close>

datatype detection_request =
  AskStatus "string option" auth_user string | BeginVerify auth_user string | Unlink auth_user string
| AskRecent auth_user string | Telegram "string option" "string option" tg_update | TestParse auth_user string text_units
| Confirm env auth_user string

fun serve_detection :: "detection_request \<Rightarrow> detector attached \<Rightarrow> detector attached" where
  "serve_detection (AskStatus tok u st) s = snd (detection_status tok u st s)"
| "serve_detection (BeginVerify u st) s = snd (beginVerify u st s)"
| "serve_detection (Unlink u st) s = snd (unlink u st s)"
| "serve_detection (AskRecent u st) s = snd (recent_detections u st s)"
| "serve_detection (Telegram expected secret up) s = snd (webhook expected secret up s)"
| "serve_detection (TestParse u st t) s = snd (testParse u st t s)"
| "serve_detection (Confirm en u i) s = snd (confirm en u i s)"

fun calm_detection :: "detection_request \<Rightarrow> bool" where
  "calm_detection (Confirm en u i) \<longleftrightarrow> (\<forall>g \<in> meets en. concurrent g)"
| "calm_detection _ \<longleftrightarrow> True"

text \<open>The requests of this service in any order, and between them any course of the others on the database.\<close>

inductive detecting :: "(detector attached \<Rightarrow> detector attached) \<Rightarrow> bool" where
  idle: "detecting (\<lambda>s. s)"
| elsewhere: "detecting g \<Longrightarrow> concurrent f \<Longrightarrow> detecting (\<lambda>s. (g s)\<lparr>main_db := f (main_db (g s))\<rparr>)"
| asked: "detecting g \<Longrightarrow> calm_detection r \<Longrightarrow> detecting (\<lambda>s. serve_detection r (g s))"

section \<open>What the requests write\<close>

text \<open>Every request but a confirmation leaves the database as it was, but for the identifiers it draws.\<close>

definition only_draws :: "db \<Rightarrow> db \<Rightarrow> bool" where
  "only_draws s t \<longleftrightarrow> (\<exists>n \<ge> draws s. t = s\<lparr>draws := n\<rparr>)"

lemma only_draws_refl [simp]: "only_draws s s"
  unfolding only_draws_def by (intro exI [of _ "draws s"]) simp

lemma only_draws_Suc [simp]: "only_draws s (s\<lparr>draws := Suc (draws s)\<rparr>)" "only_draws s (s\<lparr>draws := Suc (Suc (draws s))\<rparr>)"
  unfolding only_draws_def by (intro exI [of _ "Suc (draws s)"], simp, intro exI [of _ "Suc (Suc (draws s))"], simp)

lemma bind_asserted [op_simps]: "bindM (assertAccess u st perm) f s =
    (case fst (assertStore u st perm (main_db s)) of Inl e \<Rightarrow> (Inl e, s) | Inr x \<Rightarrow> f x s)"
proof -
  have "snd (assertStore u st perm (main_db s)) = main_db s"
    by (simp add: assertStore_def op_simps split: option.split sum.split)
  then show ?thesis by (cases "assertStore u st perm (main_db s)") (auto simp: assertAccess_def op_simps split: sum.split)
qed

text \<open>What an alert in a bound chat records, or does not.\<close>

definition stands_for :: "db \<Rightarrow> detection_row \<Rightarrow> string \<Rightarrow> bool" where
  "stands_for s d i \<longleftrightarrow> (\<exists>a c. dn_amount d = Some a \<and> dn_currency d = Some c \<and> charge_is i (a, c, dn_store d) s)"

lemma alert_match_charge:
  assumes "keyed p_id (payments s)" and "alert_matches st a s = [p]"
  shows "charge_is (p_id p) (decimal_of_units (fst a), currency_of_alert (snd a), st) s"
proof -
  have "p \<in> set (alert_matches st a s)" using assms(2) by simp
  then have p: "p \<in> set (payments s)" "terms_of p = (decimal_of_units (fst a), currency_of_alert (snd a), st)"
    by (auto simp: alert_matches_def terms_of_def)
  then show ?thesis using keyed_find [OF assms(1) p(1)] by (simp add: charge_is_def)
qed

lemma record_alert_cases:
  assumes "record_alert up chat t source s = (r, u)" and "keyed p_id (payments (main_db s))"
  obtains (known) "r = Inr ()" and "only_draws (main_db s) (main_db u)" and "own u = own s"
    | (recorded) d where "r = Inr ()" and "only_draws (main_db s) (main_db u)"
      and "own u = dr_detections_update (\<lambda>ds. ds @ [d]) (own s)" and "dn_store d = ts_store source"
      and "dn_key d = dedupe_key up chat t" and "\<not> exists_by (\<lambda>e. dn_key e = dn_key d \<or> dn_id e = dn_id d) (dr_detections (own s))"
      and "\<And>i. dn_payment d = Some i \<Longrightarrow> stands_for (main_db s) d i \<and> dn_matches d = 1" and "\<not> dn_confirmed d"
proof -
  define i where "i = ''det_'' @ rnd (main_db s) (draws (main_db s))"
  define exact where "exact = (case parseBankAlert (take 2000 t) of None \<Rightarrow> [] | Some a \<Rightarrow> alert_matches (ts_store source) a (main_db s))"
  define d where "d = \<lparr>dn_id = i, dn_store = ts_store source, dn_payment = (case exact of [p] \<Rightarrow> Some (p_id p) | _ \<Rightarrow> None),
     dn_key = dedupe_key up chat t, dn_amount = map_option (\<lambda>a. decimal_of_units (fst a)) (parseBankAlert (take 2000 t)),
     dn_currency = map_option (\<lambda>a. currency_of_alert (snd a)) (parseBankAlert (take 2000 t)), dn_text = take 2000 t,
     dn_matches = length exact, dn_confirmed = False, dn_created = clock (main_db s)\<rparr>"
  let ?clash = "exists_by (\<lambda>e. dn_key e = dn_key d \<or> dn_id e = dn_id d) (dr_detections (own s))"
  let ?s = "s\<lparr>main_db := (main_db s)\<lparr>draws := Suc (draws (main_db s))\<rparr>\<rparr>"
  have run: "record_alert up chat t source s =
      (Inr (), if ?clash then ?s else ?s\<lparr>own := dr_detections_update (\<lambda>ds. ds @ [d]) (own s)\<rparr>)"
    by (simp add: record_alert_def op_simps prefixedId_def Let_def exact_def d_def i_def)
  have pays: "stands_for (main_db s) d j \<and> dn_matches d = 1" if "dn_payment d = Some j" for j
  proof -
    from that obtain p where p: "exact = [p]" "j = p_id p" by (auto simp: d_def split: list.splits)
    then obtain a where a: "parseBankAlert (take 2000 t) = Some a" "alert_matches (ts_store source) a (main_db s) = [p]"
      by (auto simp: exact_def split: option.splits)
    then show ?thesis using alert_match_charge [OF assms(2) a(2)] p by (simp add: stands_for_def d_def)
  qed
  show ?thesis
  proof (cases ?clash)
    case True
    then show ?thesis using known run assms(1) by simp
  next
    case False
    moreover have "dn_store d = ts_store source" "dn_key d = dedupe_key up chat t" "\<not> dn_confirmed d" by (simp_all add: d_def)
    moreover have "r = Inr ()" "only_draws (main_db s) (main_db u)" "own u = dr_detections_update (\<lambda>ds. ds @ [d]) (own s)"
      using run assms(1) False by simp_all
    ultimately show ?thesis using recorded [of d] pays by blast
  qed
qed

lemma bind_chat_cases: "bind_chat chat code s = (r, u) \<Longrightarrow>
    r = Inr () \<and> main_db u = main_db s \<and> dr_detections (own u) = dr_detections (own s)"
  by (auto simp: bind_chat_def op_simps split: option.splits)

lemma ingest_cases:
  assumes "ingest up s = (r, u)" and "keyed p_id (payments (main_db s))"
  obtains (other) "r = Inr ()" and "only_draws (main_db s) (main_db u)" and "dr_detections (own u) = dr_detections (own s)"
    | (recorded) chat source d where "r = Inr ()" and "only_draws (main_db s) (main_db u)"
      and "source \<in> set (dr_sources (own s))" and "ts_chat source = Some chat" and "ts_verified source \<noteq> None"
      and "own u = dr_detections_update (\<lambda>ds. ds @ [d]) (own s)" and "dn_store d = ts_store source"
      and "\<not> exists_by (\<lambda>e. dn_key e = dn_key d \<or> dn_id e = dn_id d) (dr_detections (own s))"
      and "\<And>i. dn_payment d = Some i \<Longrightarrow> stands_for (main_db s) d i \<and> dn_matches d = 1" and "\<not> dn_confirmed d"
proof -
  define msg where "msg = (case tu_message up of Some m \<Rightarrow> Some m | None \<Rightarrow> tu_channel_post up)"
  show ?thesis
  proof (cases "(Option.bind msg tm_chat, Option.bind msg tm_text)")
    case (Pair a b)
    show ?thesis
    proof (cases "\<exists>chat t. a = Some chat \<and> b = Some t \<and> t \<noteq> [] \<and> \<not> verify_code (trim_units t)")
      case False
      have "r = Inr () \<and> only_draws (main_db s) (main_db u) \<and> dr_detections (own u) = dr_detections (own s)"
      proof (cases "\<exists>chat t. a = Some chat \<and> b = Some t \<and> t \<noteq> []")
        case True
        with False Pair assms(1) obtain chat t where "bind_chat chat (trim_units t) s = (r, u)"
          by (auto simp: ingest_def msg_def [symmetric] Let_def)
        from bind_chat_cases [OF this] show ?thesis by simp
      next
        case none: False
        with Pair assms(1) show ?thesis
          by (cases a; cases b) (auto simp: ingest_def msg_def [symmetric] Let_def op_simps)
      qed
      then show ?thesis using other by blast
    next
      case True
      then obtain chat t where ct: "a = Some chat" "b = Some t" "t \<noteq> []" "\<not> verify_code (trim_units t)" by blast
      have run: "ingest up s = (case find_by (\<lambda>y. ts_chat y = Some chat \<and> ts_verified y \<noteq> None) (dr_sources (own s)) of
          None \<Rightarrow> (Inr (), s) | Some x \<Rightarrow> record_alert up chat t x s)"
        using Pair ct by (simp add: ingest_def msg_def [symmetric] Let_def op_simps split: option.split)
      show ?thesis
      proof (cases "find_by (\<lambda>y. ts_chat y = Some chat \<and> ts_verified y \<noteq> None) (dr_sources (own s))")
        case None
        then show ?thesis using run assms(1) other by simp
      next
        case (Some x)
        then have x: "x \<in> set (dr_sources (own s))" "ts_chat x = Some chat" "ts_verified x \<noteq> None"
          by (auto dest: find_by_SomeD)
        have "record_alert up chat t x s = (r, u)" using run assms(1) Some by simp
        then show ?thesis
        proof (cases rule: record_alert_cases [OF _ assms(2), consumes 1, case_names known recorded])
          case known
          then show ?thesis using other by simp
        next
          case (recorded d)
          then show ?thesis using x by (intro that(2) [of x chat d]) blast+
        qed
      qed
    qed
  qed
qed

lemma webhook_cases: "webhook expected secret up s = (r, u) \<Longrightarrow> keyed p_id (payments (main_db s)) \<Longrightarrow>
    u = s \<or> ingest up s = (Inr (), u)"
proof -
  assume w: "webhook expected secret up s = (r, u)" and k: "keyed p_id (payments (main_db s))"
  obtain r' u' where i: "ingest up s = (r', u')" by fastforce
  then have "r' = Inr ()" by (cases rule: ingest_cases [OF i k]) simp_all
  then show ?thesis using w i by (auto simp: webhook_def catchM_def op_simps split: if_splits)
qed

lemma other_requests:
  assumes "keyed p_id (payments (main_db s))" and "r = Confirm en u i \<Longrightarrow> False" and "\<And>en u i. r \<noteq> Confirm en u i"
  shows "only_draws (main_db s) (main_db (serve_detection r s))"
proof (cases r)
  case (Telegram e x up)
  obtain r' t where w: "webhook e x up s = (r', t)" by fastforce
  from webhook_cases [OF this assms(1)] have "only_draws (main_db s) (main_db t)"
  proof
    assume "ingest up s = (Inr (), t)"
    then show ?thesis by (cases rule: ingest_cases [OF _ assms(1), consumes 1, case_names other recorded]) simp_all
  qed simp
  then show ?thesis using w Telegram by simp
next
  case (BeginVerify u st)
  then show ?thesis by (simp add: beginVerify_def op_simps randomBase58_def prefixedId_def Let_def split: sum.split)
next
  case (TestParse u st t)
  then show ?thesis by (simp add: testParse_def op_simps Let_def split: sum.split)
qed (use assms(3) in \<open>simp_all add: detection_status_def unlink_def recent_detections_def op_simps split: sum.split\<close>)

section \<open>Detections stand for what they say\<close>

text \<open>
  A detection that is matched stands for a payment of its own store, with the amount and the currency of the alert, and
  was the only match; no update is recorded twice.
\<close>

definition detections_ok :: "detector attached \<Rightarrow> bool" where
  "detections_ok s \<longleftrightarrow> refunds_ok (main_db s) \<and>
     keyed dn_key (dr_detections (own s)) \<and> keyed dn_id (dr_detections (own s)) \<and>
     (\<forall>d \<in> set (dr_detections (own s)). \<forall>i. dn_payment d = Some i \<longrightarrow> stands_for (main_db s) d i \<and> dn_matches d = 1)"

lemma stands_for_kept: "stands_for s d i \<Longrightarrow> (\<And>a. charge_is i a s \<Longrightarrow> charge_is i a t) \<Longrightarrow> stands_for t d i"
  by (auto simp: stands_for_def)

text \<open>The database may change as any course of events changes it.\<close>

definition concurrently :: "db \<Rightarrow> db \<Rightarrow> bool" where
  "concurrently s t \<longleftrightarrow> (refunds_ok s \<longrightarrow> refunds_ok t) \<and> (\<forall>i a. charge_is i a s \<longrightarrow> charge_is i a t)"

lemma concurrently_concurrent: "concurrent f \<Longrightarrow> concurrently s (f s)"
  unfolding concurrently_def using charge_platform.concurrent_kept refund_platform.concurrent_kept by blast

lemma concurrently_draws: "only_draws s t \<Longrightarrow> concurrently s t"
  by (auto simp: only_draws_def concurrently_def intro: refunds.draws_later charge.draws_later)

lemma concurrently_stands: "concurrently s t \<Longrightarrow> stands_for s d i \<Longrightarrow> stands_for t d i"
  unfolding concurrently_def by (rule stands_for_kept) blast+

lemma detections_ok_main:
  "detections_ok s \<Longrightarrow> concurrently (main_db s) (main_db t) \<Longrightarrow> dr_detections (own t) = dr_detections (own s) \<Longrightarrow> detections_ok t"
  unfolding detections_ok_def using concurrently_stands [of "main_db s" "main_db t"] by (simp add: concurrently_def)

lemma detections_ok_appended:
  assumes "detections_ok s" and "only_draws (main_db s) (main_db t)" and "dr_detections (own t) = dr_detections (own s) @ [d]"
    and "\<not> exists_by (\<lambda>e. dn_key e = dn_key d \<or> dn_id e = dn_id d) (dr_detections (own s))"
    and "\<And>i. dn_payment d = Some i \<Longrightarrow> stands_for (main_db s) d i \<and> dn_matches d = 1"
  shows "detections_ok t"
proof -
  have "concurrently (main_db s) (main_db t)" by (rule concurrently_draws [OF assms(2)])
  then have "\<And>e i. stands_for (main_db s) e i \<Longrightarrow> stands_for (main_db t) e i" "refunds_ok (main_db t)"
    using assms(1) concurrently_stands by (blast, simp add: concurrently_def detections_ok_def)
  then show ?thesis using assms(1,3-5) unfolding detections_ok_def
    by (auto simp: keyed_append_one exists_by_iff)
qed

lemma confirm_cases:
  assumes "confirm en u i s = (r, t)"
  obtains (refused) "t = s" and "\<exists>e. r = Inl e"
    | (moved) d pid r' m where "find_by (\<lambda>d. dn_id d = i) (dr_detections (own s)) = Some d" and "dn_payment d = Some pid"
      and "\<exists>x. assertStore u (dn_store d) PaymentWrite (main_db s) = (Inr x, main_db s)"
      and "transition en pid Paid (''telegram detection '' @ dn_id d @ '' confirmed by '' @ user_id u) (main_db s) = (r', m)"
      and "main_db t = m" and "case r' of Inl e \<Rightarrow> r = Inl e \<and> own t = own s
        | Inr p \<Rightarrow> r = Inr pid \<and> own t = dr_detections_update (update_where (\<lambda>e. dn_id e = dn_id d) (\<lambda>e. e\<lparr>dn_confirmed := True\<rparr>)) (own s)"
proof (cases "find_by (\<lambda>d. dn_id d = i) (dr_detections (own s))")
  case None
  then show ?thesis using assms refused by (auto simp: confirm_def op_simps)
next
  case (Some d)
  have there: "exists_by (\<lambda>e. dn_id e = dn_id d) (dr_detections (own s))"
    using find_by_SomeD [OF Some] by (auto simp: exists_by_iff)
  have same: "assertStore u (dn_store d) PaymentWrite (main_db s) = (fst (assertStore u (dn_store d) PaymentWrite (main_db s)), main_db s)"
    by (simp add: assertStore_def op_simps split: option.split sum.split)
  show ?thesis
  proof (cases "\<exists>x pid. fst (assertStore u (dn_store d) PaymentWrite (main_db s)) = Inr x \<and> given (dn_payment d) = Some pid")
    case False
    have "t = s \<and> (\<exists>e. r = Inl e)"
      using assms Some False by (auto simp: confirm_def op_simps split: sum.splits option.splits)
    then show ?thesis using refused by blast
  next
    case True
    then obtain x pid where x: "fst (assertStore u (dn_store d) PaymentWrite (main_db s)) = Inr x" "given (dn_payment d) = Some pid" by blast
    then have pid: "dn_payment d = Some pid" by (auto simp: given_def split: option.splits if_splits)
    obtain r' m where tr: "transition en pid Paid (''telegram detection '' @ dn_id d @ '' confirmed by '' @ user_id u) (main_db s) = (r', m)"
      by fastforce
    have "main_db t = m \<and> (case r' of Inl e \<Rightarrow> r = Inl e \<and> own t = own s
        | Inr p \<Rightarrow> r = Inr pid \<and> own t = dr_detections_update (update_where (\<lambda>e. dn_id e = dn_id d) (\<lambda>e. e\<lparr>dn_confirmed := True\<rparr>)) (own s))"
      using assms Some x tr there by (cases r') (auto simp: confirm_def op_simps)
    then show ?thesis using moved [OF Some pid _ tr] same x(1) by metis
  qed
qed

lemma detecting_transition:
  assumes "\<forall>g \<in> meets en. concurrent g"
  shows "concurrent (\<lambda>s. snd (transition en i Paid reason s))"
proof -
  have "concurrent (\<lambda>s. run_request (MovePayment en i Paid reason) s)"
    by (rule served [OF quiet]) (simp add: assms)
  moreover have "run_request (MovePayment en i Paid reason) s = snd (transition en i Paid reason s)" for s
    by (simp add: run_request_def void_def bindM_def ret_def split: prod.split sum.split)
  ultimately show ?thesis by simp
qed

lemma questions:
  "serve_detection (AskStatus tok u st) s = s" "serve_detection (AskRecent u st) s = s" "serve_detection (TestParse u st t) s = s"
  by (simp_all add: detection_status_def recent_detections_def testParse_def op_simps Let_def split: sum.split)

lemma unlinked: "main_db (serve_detection (Unlink u st) s) = main_db s"
    "dr_detections (own (serve_detection (Unlink u st) s)) = dr_detections (own s)"
  by (simp_all add: unlink_def op_simps split: sum.split)

lemma detections_ok_confirmed:
  assumes "detections_ok s" and "main_db t = main_db s"
    and "own t = dr_detections_update (update_where (\<lambda>e. dn_id e = j) (\<lambda>e. e\<lparr>dn_confirmed := True\<rparr>)) (own s)"
  shows "detections_ok t"
proof -
  have rows: "dr_detections (own t) = update_where (\<lambda>e. dn_id e = j) (\<lambda>e. e\<lparr>dn_confirmed := True\<rparr>) (dr_detections (own s))"
    using assms(3) by simp
  have "\<forall>d \<in> set (dr_detections (own t)). \<exists>e \<in> set (dr_detections (own s)). dn_payment d = dn_payment e \<and>
      dn_amount d = dn_amount e \<and> dn_currency d = dn_currency e \<and> dn_store d = dn_store e \<and> dn_matches d = dn_matches e"
    unfolding rows update_where_def by auto
  then show ?thesis using assms(1,2) unfolding detections_ok_def stands_for_def
    by (auto simp: rows keyed_update_where)
qed

lemma detections_ok_own: "detections_ok s \<Longrightarrow> main_db t = main_db s \<Longrightarrow> own t = own s \<Longrightarrow> detections_ok t"
  by (simp add: detections_ok_def)

lemma served_detections_ok:
  assumes ok: "detections_ok s" and calm: "calm_detection r"
  shows "detections_ok (serve_detection r s)"
proof -
  have keyed: "keyed p_id (payments (main_db s))" using ok by (simp add: detections_ok_def refunds_ok_def)
  show ?thesis
  proof (cases r)
    case (Confirm en u i)
    obtain r' t where c: "confirm en u i s = (r', t)" by fastforce
    then show ?thesis
    proof (cases rule: confirm_cases)
      case refused
      then show ?thesis using ok c Confirm by simp
    next
      case (moved d pid r'' m)
      have "concurrent (\<lambda>s. snd (transition en pid Paid (''telegram detection '' @ dn_id d @ '' confirmed by '' @ user_id u) s))"
        using calm Confirm by (intro detecting_transition) simp
      from concurrently_concurrent [OF this, of "main_db s"] have main: "concurrently (main_db s) (main_db t)"
        using moved by simp
      have kept: "detections_ok (s\<lparr>main_db := main_db t\<rparr>)" using main by (intro detections_ok_main [OF ok]) simp_all
      have "own t = own s \<or> own t = dr_detections_update (update_where (\<lambda>e. dn_id e = dn_id d) (\<lambda>e. e\<lparr>dn_confirmed := True\<rparr>)) (own s)"
        using moved(6) by (auto split: sum.splits)
      then have "detections_ok t"
      proof
        assume "own t = own s"
        then show ?thesis using kept by (intro detections_ok_own [of "s\<lparr>main_db := main_db t\<rparr>" t]) simp_all
      next
        assume "own t = dr_detections_update (update_where (\<lambda>e. dn_id e = dn_id d) (\<lambda>e. e\<lparr>dn_confirmed := True\<rparr>)) (own s)"
        then show ?thesis using kept by (intro detections_ok_confirmed [of "s\<lparr>main_db := main_db t\<rparr>" t "dn_id d"]) simp_all
      qed
      then show ?thesis using c Confirm by simp
    qed
  next
    case (Telegram e x up)
    obtain r' t where w: "webhook e x up s = (r', t)" by fastforce
    from webhook_cases [OF this keyed] have "detections_ok t"
    proof
      assume "ingest up s = (Inr (), t)"
      then show ?thesis
      proof (cases rule: ingest_cases [OF _ keyed, consumes 1, case_names other recorded])
        case other
        show ?thesis by (rule detections_ok_main [OF ok concurrently_draws [OF other(2)] other(3)])
      next
        case (recorded chat source d)
        show ?thesis by (rule detections_ok_appended [OF ok recorded(2) _ recorded(8,9)]) (simp add: recorded(6))
      qed
    qed (use ok in simp)
    then show ?thesis using w Telegram by simp
  next
    case (BeginVerify u st)
    have "only_draws (main_db s) (main_db (serve_detection r s))" using BeginVerify by (intro other_requests keyed) simp_all
    moreover have "dr_detections (own (serve_detection r s)) = dr_detections (own s)" using BeginVerify
      by (simp add: beginVerify_def op_simps Let_def randomBase58_def prefixedId_def split: sum.split)
    ultimately show ?thesis by (intro detections_ok_main [OF ok] concurrently_draws)
  next
    case (Unlink u st)
    then show ?thesis using ok unlinked [of u st s] by (simp add: detections_ok_def)
  qed (use ok in \<open>simp_all add: questions [unfolded serve_detection.simps]\<close>)
qed

text \<open>C33: A detection says what its payment is: after any course of chats bound, messages received, confirmations and
  any other requests and jobs of the platform between and during them, every matched detection stands for a payment of
  its own store with exactly the amount and the currency read from the alert, the only one that matched, and no Telegram
  update is recorded twice.
\<close>

theorem detections_sound:
  assumes "detecting g" and "detections_ok s"
  shows "detections_ok (g s)"
  using assms
proof (induction)
  case (elsewhere g f)
  show ?case
  proof (rule detections_ok_main)
    show "detections_ok (g s)" by (rule elsewhere.IH [OF elsewhere.prems])
    show "concurrently (main_db (g s)) (main_db ((g s)\<lparr>main_db := f (main_db (g s))\<rparr>))"
      using concurrently_concurrent [OF elsewhere.hyps(2)] by simp
  qed simp
next
  case (asked g r)
  then show ?case using served_detections_ok by blast
qed simp

text \<open>Only a cashier's confirmation moves money: every other request of this service, a message to the bot whoever posts
  it among them, leaves every table of the database as it was.
\<close>

theorem only_confirm_moves:
  assumes "keyed p_id (payments (main_db s))"
  shows "(\<exists>en u i. r = Confirm en u i) \<or> (\<exists>n. main_db (serve_detection r s) = (main_db s)\<lparr>draws := n\<rparr>)"
  using other_requests [OF assms, of r] unfolding only_draws_def by blast


section \<open>Instances\<close>

definition seen_alert :: detection_row where
  "seen_alert = \<lparr>dn_id = ''det_1'', dn_store = ''store_1'', dn_payment = Some ''pay_1'', dn_key = ''tg:1'', dn_amount = Some 5,
     dn_currency = Some USD, dn_text = codes ''Received 5 USD'', dn_matches = 1, dn_confirmed = False, dn_created = 0\<rparr>"

definition bound_chat :: tg_source where
  "bound_chat = \<lparr>ts_id = ''tgs_1'', ts_store = ''store_1'', ts_chat = Some ''-100'', ts_code = None, ts_verified = Some 0\<rparr>"

definition watching :: "db \<Rightarrow> detector attached" where
  "watching s = \<lparr>main_db = s, own = \<lparr>dr_sources = [bound_chat], dr_detections = [seen_alert]\<rparr>\<rparr>"

definition second_alert :: detection_request where
  "second_alert = Telegram (Some ''secret'') (Some ''secret'') \<lparr>tu_id = Some 2,
     tu_message = Some \<lparr>tm_chat = Some ''-100'', tm_text = Some (codes ''Received 5 USD'')\<rparr>, tu_channel_post = None\<rparr>"

lemma watching_ok: "refunds_ok s \<Longrightarrow> charge_is ''pay_1'' (5, USD, ''store_1'') s \<Longrightarrow> detections_ok (watching s)"
  by (simp add: detections_ok_def watching_def keyed_def stands_for_def seen_alert_def)

lemma quiet_meets: "\<forall>g \<in> meets (sample_env id). concurrent g"
  using quiet by (simp add: meets_def sample_env_def id_def)

lemma watched_charge: "charge_is ''pay_1'' (5, USD, ''store_1'') pending_db" "charge_is ''pay_1'' (5, USD, ''store_1'') paid_db"
  by (simp_all add: charge_is_def terms_of_def pending_db_payment paid_db_payment pending_payment_def sample_payment_def)

theorem detections_sound_witness:
  "detections_ok (serve_detection second_alert ((serve_detection (Confirm (sample_env id) sample_user ''det_1'') (watching pending_db))
     \<lparr>main_db := busy (main_db (serve_detection (Confirm (sample_env id) sample_user ''det_1'') (watching pending_db)))\<rparr>))"
proof -
  have "detecting (\<lambda>s. serve_detection (Confirm (sample_env id) sample_user ''det_1'') s)"
    by (rule asked [OF idle]) (simp add: quiet_meets del: ball_simps)
  from asked [OF elsewhere [OF this busy_concurrent], of second_alert]
  have "detecting (\<lambda>s. serve_detection second_alert ((serve_detection (Confirm (sample_env id) sample_user ''det_1'') s)
     \<lparr>main_db := busy (main_db (serve_detection (Confirm (sample_env id) sample_user ''det_1'') s))\<rparr>))"
    by (simp add: second_alert_def)
  from detections_sound [OF this watching_ok [OF _ watched_charge(1)]] show ?thesis
    using pending_db_ok by (simp add: platform_ok_def)
qed

theorem only_confirm_moves_witness:
  "\<exists>n. main_db (serve_detection second_alert (watching pending_db)) = pending_db\<lparr>draws := n\<rparr>"
  using only_confirm_moves [of "watching pending_db" second_alert] pending_db_payment(3) by (auto simp: watching_def second_alert_def)

lemma det_found: "find_by (\<lambda>d. dn_id d = ''det_1'') [seen_alert] = Some seen_alert" "dn_payment seen_alert = Some ''pay_1''"
    "dn_store seen_alert = ''store_1''" "dn_id seen_alert = ''det_1''"
  by (simp_all add: seen_alert_def)

lemma sample_clerk: "assertStore sample_user ''store_1'' PaymentWrite paid_db = (Inr sample_store, paid_db)"
  by (simp add: assertStore_Inr paid_db_def pending_db_def quota_db_def sample_store_def sample_user_def requirePermission_def
      requireMembership_def roleForOrg_def)

lemma confirm_paid: "fst (confirm (sample_env id) sample_user ''det_1'' (watching paid_db)) = Inr ''pay_1''"
proof -
  have "transition (sample_env id) ''pay_1'' Paid r paid_db = (Inr (pending_payment\<lparr>p_status := Paid\<rparr>), paid_db)" for r
    by (rule transition_there) (simp_all add: paid_db_payment)
  then show ?thesis by (simp add: confirm_def op_simps watching_def det_found sample_clerk given_def exists_by_iff)
qed


end
