(* ===== verification/CanonicalJson.thy ===== *)
theory CanonicalJson
  imports TextUnits "HOL-Library.List_Lexorder"
begin

text \<open>
  The canonical JSON of \<open>apps/api/src/trustee/trustee-events.module.ts\<close>: the text of a value with the keys of its
  objects in order and no space, which is what the trustee signs. Two values have the same text exactly when they
  are the same but for the order of keys.
\<close>

section \<open>Values\<close>

text \<open>
  What JSON.parse and the literals of the code make. A number is the text JSON.stringify prints for it; \<open>Infinite\<close>
  is what JSON.parse makes of a number too large. The members of an object are in order of insertion.
\<close>

datatype js =
  Undefined | Null | Boolean bool | Number text_units | Infinite | Str text_units
| Arr "js list" | Obj "(text_units \<times> js) list"

section \<open>Strings\<close>

definition hex_unit :: "nat \<Rightarrow> nat" where
  "hex_unit d = (if d < 10 then 48 + d else 87 + d)"

definition hex4 :: "nat \<Rightarrow> text_units" where
  "hex4 c = [hex_unit (c div 4096 mod 16), hex_unit (c div 256 mod 16), hex_unit (c div 16 mod 16), hex_unit (c mod 16)]"

definition high_surrogate :: "nat \<Rightarrow> bool" where
  "high_surrogate c \<longleftrightarrow> 55296 \<le> c \<and> c \<le> 56319"

definition low_surrogate :: "nat \<Rightarrow> bool" where
  "low_surrogate c \<longleftrightarrow> 56320 \<le> c \<and> c \<le> 57343"

text \<open>JSON.stringify escapes quotes, backslashes, control units and surrogates that stand alone.\<close>

definition escape_unit :: "nat \<Rightarrow> text_units" where
  "escape_unit c =
     (if c = 34 then [92, 34] else if c = 92 then [92, 92] else if c = 8 then [92, 98] else if c = 9 then [92, 116]
      else if c = 10 then [92, 110] else if c = 12 then [92, 102] else if c = 13 then [92, 114]
      else if c < 32 \<or> high_surrogate c \<or> low_surrogate c then [92, 117] @ hex4 c else [c])"

fun escaped :: "text_units \<Rightarrow> text_units" where
  "escaped [] = []"
| "escaped [c] = escape_unit c"
| "escaped (c # d # t) =
     (if high_surrogate c \<and> low_surrogate d then c # d # escaped t else escape_unit c @ escaped (d # t))"

definition quoted :: "text_units \<Rightarrow> text_units" where
  "quoted s = [34] @ escaped s @ [34]"

section \<open>The canonical text\<close>

definition OPEN_BRACE :: nat where "OPEN_BRACE = 123"
definition CLOSE_BRACE :: nat where "CLOSE_BRACE = 125"
definition OPEN_BRACKET :: nat where "OPEN_BRACKET = 91"
definition CLOSE_BRACKET :: nat where "CLOSE_BRACKET = 93"
definition COLON :: nat where "COLON = 58"

text \<open>\<open>join(',')\<close>.\<close>

fun joined :: "text_units list \<Rightarrow> text_units" where
  "joined [] = []"
| "joined [x] = x"
| "joined (x # y # xs) = x @ 44 # joined (y # xs)"

definition member_text :: "text_units \<times> text_units \<Rightarrow> text_units" where
  "member_text m = quoted (fst m) @ COLON # snd m"

lemma member_size [termination_simp]: "(k, v) \<in> set ms \<Longrightarrow> size v < Suc (size_list (size_prod (\<lambda>x. 0) size) ms)"
  by (induction ms) auto

text \<open>A value that is undefined inside a template prints its name.\<close>

fun canonicalize :: "js \<Rightarrow> text_units" where
  "canonicalize Undefined = codes ''undefined''"
| "canonicalize Null = codes ''null''"
| "canonicalize (Boolean b) = codes (if b then ''true'' else ''false'')"
| "canonicalize (Number t) = t"
| "canonicalize Infinite = codes ''null''"
| "canonicalize (Str s) = quoted s"
| "canonicalize (Arr vs) = OPEN_BRACKET # joined (map canonicalize vs) @ [CLOSE_BRACKET]"
| "canonicalize (Obj ms) =
     OPEN_BRACE # joined (map member_text (sort_key fst (map (\<lambda>(k, v). (k, canonicalize v)) ms))) @ [CLOSE_BRACE]"

text \<open>The value that is left when the order of keys is forgotten.\<close>

fun normal :: "js \<Rightarrow> js" where
  "normal Infinite = Null"
| "normal (Arr vs) = Arr (map normal vs)"
| "normal (Obj ms) = Obj (sort_key fst (map (\<lambda>(k, v). (k, normal v)) ms))"
| "normal v = v"

text \<open>The values that JSON.parse and the code make: numbers print as numbers, no key occurs twice.\<close>

definition number_unit :: "nat \<Rightarrow> bool" where
  "number_unit c \<longleftrightarrow> digit_unit c \<or> c \<in> {43, 45, 46, 101}"

definition number_text :: "text_units \<Rightarrow> bool" where
  "number_text t \<longleftrightarrow> (case t of [] \<Rightarrow> False | c # _ \<Rightarrow> digit_unit c \<or> c = 45) \<and> list_all number_unit t"

fun proper_js :: "js \<Rightarrow> bool" where
  "proper_js (Number t) \<longleftrightarrow> number_text t"
| "proper_js (Arr vs) \<longleftrightarrow> (\<forall>v \<in> set vs. proper_js v)"
| "proper_js (Obj ms) \<longleftrightarrow> distinct (map fst ms) \<and> (\<forall>(k, v) \<in> set ms. proper_js v)"
| "proper_js _ \<longleftrightarrow> True"

section \<open>A string is read back\<close>

definition hex_value :: "nat \<Rightarrow> nat" where
  "hex_value u = (if u < 58 then u - 48 else u - 87)"

definition letter_value :: "nat \<Rightarrow> nat" where
  "letter_value e = (if e = 98 then 8 else if e = 116 then 9 else if e = 110 then 10 else if e = 102 then 12
     else if e = 114 then 13 else e)"

definition hex4_value :: "text_units \<Rightarrow> nat" where
  "hex4_value t = foldl (\<lambda>n u. 16 * n + hex_value u) 0 t"

text \<open>The string before the closing quote and what comes after it.\<close>

function unescaped :: "text_units \<Rightarrow> text_units \<times> text_units" where
  "unescaped [] = ([], [])"
| "unescaped (c # r) =
     (if c = 34 then ([], r)
      else if c \<noteq> 92 then apfst ((#) c) (unescaped r)
      else case r of [] \<Rightarrow> ([], [])
        | e # q \<Rightarrow> if e = 117 then apfst ((#) (hex4_value (take 4 q))) (unescaped (drop 4 q))
                  else apfst ((#) (letter_value e)) (unescaped q))"
  by pat_completeness auto
termination by (relation "measure length") auto

declare unescaped.simps(2) [simp del]

lemma unescaped_step:
  "unescaped (34 # r) = ([], r)"
  "c \<noteq> 34 \<Longrightarrow> c \<noteq> 92 \<Longrightarrow> unescaped (c # r) = apfst ((#) c) (unescaped r)"
  "e \<noteq> 117 \<Longrightarrow> unescaped (92 # e # q) = apfst ((#) (letter_value e)) (unescaped q)"
  "unescaped (92 # 117 # hex4 c @ q) = apfst ((#) (hex4_value (hex4 c))) (unescaped q)"
  by (simp_all add: unescaped.simps(2) hex4_def)

lemma hex4_round_trip: "c < 65536 \<Longrightarrow> hex4_value (hex4 c) = c"
proof -
  assume c: "c < 65536"
  have v: "hex_value (hex_unit d) = d" if "d < 16" for d using that by (auto simp: hex_value_def hex_unit_def)
  have small: "c div 4096 mod 16 < 16" "c div 256 mod 16 < 16" "c div 16 mod 16 < 16" "c mod 16 < 16" by simp_all
  have read: "hex4_value (hex4 c) = 16 * (16 * (16 * (c div 4096 mod 16) + c div 256 mod 16) + c div 16 mod 16) + c mod 16"
    unfolding hex4_value_def hex4_def by (simp only: foldl.simps v [OF small(1)] v [OF small(2)] v [OF small(3)] v [OF small(4)] mult_0_right add_0)
  have "c div 4096 < 16" using c by (intro div_less_iff_less_mult [THEN iffD2]) simp_all
  then have "c div 4096 mod 16 = c div 4096" by simp
  moreover have "16 * (c div 4096) + c div 256 mod 16 = c div 256" using div_mult2_eq [of c 256 16] by simp
  moreover have "16 * (c div 256) + c div 16 mod 16 = c div 16" using div_mult2_eq [of c 16 16] by simp
  moreover have "16 * (c div 16) + c mod 16 = c" by simp
  ultimately show ?thesis using read by metis
qed

lemma unescaped_unit: "unescaped (escape_unit c @ t) = apfst ((#) c) (unescaped t)"
proof (cases "c \<in> {34, 92, 8, 9, 10, 12, 13}")
  case True
  then show ?thesis by (auto simp: escape_unit_def letter_value_def unescaped_step)
next
  case False
  show ?thesis
  proof (cases "c < 32 \<or> high_surrogate c \<or> low_surrogate c")
    case True
    then have "c < 65536" by (auto simp: high_surrogate_def low_surrogate_def)
    then show ?thesis using True False by (simp add: escape_unit_def unescaped_step hex4_round_trip)
  next
    case plain: False
    then show ?thesis using False by (simp add: escape_unit_def unescaped_step)
  qed
qed

lemma unescaped_escaped: "unescaped (escaped s @ 34 # r) = (s, r)"
proof (induction s rule: escaped.induct)
  case (3 c d t)
  show ?case
  proof (cases "high_surrogate c \<and> low_surrogate d")
    case True
    then have "c \<noteq> 34" "c \<noteq> 92" "d \<noteq> 34" "d \<noteq> 92" by (auto simp: high_surrogate_def low_surrogate_def)
    with True 3(1) show ?thesis by (simp add: unescaped_step)
  next
    case False
    with 3(2) [OF False] show ?thesis by (auto simp: unescaped_unit)
  qed
qed (simp_all add: unescaped_unit unescaped_step)

lemma quoted_cancel: "quoted s @ r = quoted t @ q \<longleftrightarrow> s = t \<and> r = q"
proof
  assume "quoted s @ r = quoted t @ q"
  then have "unescaped (escaped s @ 34 # r) = unescaped (escaped t @ 34 # q)" by (simp add: quoted_def)
  then show "s = t \<and> r = q" by (simp add: unescaped_escaped)
qed simp

section \<open>A value is determined by its text\<close>

text \<open>The text of a value that is in normal order already.\<close>

fun ordered_text :: "js \<Rightarrow> text_units" where
  "ordered_text Undefined = codes ''undefined''"
| "ordered_text Null = codes ''null''"
| "ordered_text (Boolean b) = codes (if b then ''true'' else ''false'')"
| "ordered_text (Number t) = t"
| "ordered_text Infinite = codes ''null''"
| "ordered_text (Str s) = quoted s"
| "ordered_text (Arr vs) = OPEN_BRACKET # joined (map ordered_text vs) @ [CLOSE_BRACKET]"
| "ordered_text (Obj ms) = OPEN_BRACE # joined (map (\<lambda>(k, v). member_text (k, ordered_text v)) ms) @ [CLOSE_BRACE]"

lemma insort_key_apsnd: "insort_key fst (k, f v) (map (\<lambda>(k, v). (k, f v)) xs) = map (\<lambda>(k, v). (k, f v)) (insort_key fst (k, v) xs)"
  by (induction xs) auto

lemma sort_key_apsnd: "sort_key fst (map (\<lambda>(k, v). (k, f v)) ms) = map (\<lambda>(k, v). (k, f v)) (sort_key fst ms)"
  by (induction ms) (auto simp: insort_key_apsnd)

lemma canonicalize_written: "canonicalize v = ordered_text (normal v)"
proof (induction v)
  case (Obj ms)
  then have "map (\<lambda>(k, v). (k, canonicalize v)) ms = map (\<lambda>(k, v). (k, ordered_text v)) (map (\<lambda>(k, v). (k, normal v)) ms)" by fastforce
  then have "sort_key fst (map (\<lambda>(k, v). (k, canonicalize v)) ms) =
      map (\<lambda>(k, v). (k, ordered_text v)) (sort_key fst (map (\<lambda>(k, v). (k, normal v)) ms))"
    by (simp only: sort_key_apsnd)
  then show ?case by (simp add: o_def split_def)
qed (simp_all add: o_def cong: map_cong)

definition ended :: "text_units \<Rightarrow> bool" where
  "ended r \<longleftrightarrow> (case r of [] \<Rightarrow> True | c # _ \<Rightarrow> c \<in> {44, 93, 125})"

definition starts_value :: "text_units \<Rightarrow> bool" where
  "starts_value t \<longleftrightarrow> (case t of [] \<Rightarrow> False | c # _ \<Rightarrow> c \<notin> {44, 93, 125})"

definition joined_rest :: "text_units list \<Rightarrow> text_units" where
  "joined_rest xs = (if xs = [] then [] else 44 # joined xs)"

lemma joined_Cons: "joined (x # xs) = x @ joined_rest xs"
  by (cases xs) (simp_all add: joined_rest_def)

lemma joined_starts: "starts_value x \<Longrightarrow> starts_value (joined (x # xs) @ r)"
  unfolding joined_Cons by (cases x) (simp_all add: starts_value_def)

lemma ended_rest: "c \<in> {93, 125} \<Longrightarrow> ended (joined_rest xs @ c # r)"
  by (auto simp: joined_rest_def ended_def)

lemma joined_cancel:
  assumes "\<And>x y r q. x \<in> set xs \<Longrightarrow> y \<in> set ys \<Longrightarrow> ended r \<Longrightarrow> ended q \<Longrightarrow> p x @ r = p y @ q \<Longrightarrow> x = y \<and> r = q"
    and "\<And>x. x \<in> set xs \<union> set ys \<Longrightarrow> starts_value (p x)"
    and "c \<in> {93, 125}" and "joined (map p xs) @ c # r = joined (map p ys) @ c # q"
  shows "xs = ys \<and> r = q"
  using assms
proof (induction xs arbitrary: ys)
  case Nil
  have stop: "\<not> starts_value (c # t)" for t using Nil.prems(3) by (auto simp: starts_value_def)
  show ?case
  proof (cases ys)
    case (Cons y ys')
    then have "starts_value (joined (map p ys) @ c # q)" using Nil.prems(2) by (simp add: joined_starts)
    then show ?thesis using Nil.prems(4) stop [of r] by (metis append_Nil joined.simps(1) list.simps(8))
  qed (use Nil.prems(4) in simp)
next
  case (Cons x xs)
  have stop: "\<not> starts_value (c # t)" for t using Cons.prems(3) by (auto simp: starts_value_def)
  have first: "starts_value (joined (map p (x # xs)) @ c # r)" using Cons.prems(2) by (simp add: joined_starts)
  show ?case
  proof (cases ys)
    case Nil
    then show ?thesis using Cons.prems(4) first stop by simp
  next
    case ys: (Cons y ys')
    have "p x @ joined_rest (map p xs) @ c # r = p y @ joined_rest (map p ys') @ c # q"
      using Cons.prems(4) ys by (simp add: joined_Cons)
    moreover note ended_rest [OF Cons.prems(3), of "map p xs" r] ended_rest [OF Cons.prems(3), of "map p ys'" q]
    ultimately have eq: "x = y" "joined_rest (map p xs) @ c # r = joined_rest (map p ys') @ c # q"
      using Cons.prems(1) [of x y] ys by auto
    have "joined (map p xs) @ c # r = joined (map p ys') @ c # q"
      using eq(2) Cons.prems(3) by (auto simp: joined_rest_def split: if_splits)
    then have "xs = ys' \<and> r = q" using Cons.prems ys by (intro Cons.IH) auto
    then show ?thesis using eq(1) ys by simp
  qed
qed

lemma number_cancel:
  assumes "number_text s" and "number_text t" and "ended r" and "ended q" and "s @ r = t @ q"
  shows "s = t \<and> r = q"
proof -
  have w: "takeWhile number_unit (s @ r) = s" if "number_text s" "ended r" for s r
    using that by (cases r) (auto simp: number_text_def ended_def number_unit_def digit_unit_def list_all_iff takeWhile_eq_Nil_iff takeWhile_append)
  then have "s = t" using assms by metis
  then show ?thesis using assms(5) by simp
qed

text \<open>The first unit of a text tells what kind of value it is.\<close>

fun settled :: "js \<Rightarrow> bool" where
  "settled (Number t) \<longleftrightarrow> number_text t"
| "settled Infinite \<longleftrightarrow> False"
| "settled (Arr vs) \<longleftrightarrow> (\<forall>v \<in> set vs. settled v)"
| "settled (Obj ms) \<longleftrightarrow> (\<forall>(k, v) \<in> set ms. settled v)"
| "settled _ \<longleftrightarrow> True"

lemma settled_normal: "proper_js v \<Longrightarrow> settled (normal v)"
  by (induction v) fastforce+

fun kind_of :: "js \<Rightarrow> nat" where
  "kind_of Undefined = 117"
| "kind_of (Boolean b) = (if b then 116 else 102)"
| "kind_of (Number t) = 0"
| "kind_of (Str s) = 34"
| "kind_of (Arr vs) = 91"
| "kind_of (Obj ms) = 123"
| "kind_of _ = 110"

definition kind_unit :: "nat \<Rightarrow> nat" where
  "kind_unit c = (if digit_unit c \<or> c = 45 then 0 else c)"

lemma written_kind: "settled v \<Longrightarrow> \<exists>c t. ordered_text v = c # t \<and> kind_unit c = kind_of v"
  by (cases v) (auto simp: codes_def kind_unit_def digit_unit_def quoted_def OPEN_BRACKET_def OPEN_BRACE_def
      number_text_def split: list.splits)

lemma written_starts: "settled v \<Longrightarrow> starts_value (ordered_text v)"
  using written_kind [of v]
  by (cases v) (auto simp: starts_value_def kind_unit_def digit_unit_def split: if_splits)

lemma same_kind:
  assumes "settled v" and "settled w" and "ordered_text v @ r = ordered_text w @ q"
  shows "kind_of v = kind_of w"
  using written_kind [OF assms(1)] written_kind [OF assms(2)] assms(3) by auto

lemma member_cancel:
  assumes "member_text (k, x) @ r = member_text (l, y) @ q"
  shows "k = l \<and> x @ r = y @ q"
proof -
  have "quoted k @ COLON # x @ r = quoted l @ COLON # y @ q" using assms by (simp add: member_text_def)
  then show ?thesis by (simp add: quoted_cancel)
qed

lemma member_starts: "starts_value (member_text m)"
  by (simp add: member_text_def quoted_def starts_value_def)

lemma kind_number: "kind_of w = 0 \<Longrightarrow> \<exists>t. w = Number t"
  by (cases w) (simp_all split: if_splits)

lemma kind_string: "kind_of w = 34 \<Longrightarrow> \<exists>t. w = Str t"
  by (cases w) (simp_all split: if_splits)

lemma kind_array: "kind_of w = 91 \<Longrightarrow> \<exists>vs. w = Arr vs"
  by (cases w) (simp_all split: if_splits)

lemma kind_object: "kind_of w = 123 \<Longrightarrow> \<exists>ms. w = Obj ms"
  by (cases w) (simp_all split: if_splits)

lemma kind_undefined: "kind_of w = 117 \<Longrightarrow> w = Undefined"
  by (cases w) (simp_all split: if_splits)

lemma kind_null: "settled w \<Longrightarrow> kind_of w = 110 \<Longrightarrow> w = Null"
  by (cases w) (simp_all split: if_splits)

lemma kind_boolean: "kind_of w = (if b then 116 else 102) \<Longrightarrow> w = Boolean b"
  by (cases w) (simp_all split: if_splits)

lemmas kind_elims = kind_number kind_string kind_array kind_object kind_undefined kind_null kind_boolean

lemma written_cancel:
  assumes "settled v" and "settled w" and "ended r" and "ended q" and "ordered_text v @ r = ordered_text w @ q"
  shows "v = w \<and> r = q"
  using assms
proof (induction v arbitrary: w r q)
  case (Number t)
  obtain t' where w: "w = Number t'" using same_kind [OF Number.prems(1,2,5)] kind_elims(1) [of w] by auto
  then show ?case using number_cancel [of t t' r q] Number.prems by simp
next
  case (Str t)
  obtain t' where w: "w = Str t'" using same_kind [OF Str.prems(1,2,5)] kind_elims(2) [of w] by auto
  have "quoted t @ r = quoted t' @ q" using Str.prems(5) w by simp
  then show ?case using quoted_cancel w by simp
next
  case (Boolean b)
  have "w = Boolean b" using same_kind [OF Boolean.prems(1,2,5)] kind_elims(7) [of w b] by simp
  then show ?case using Boolean.prems(5) by simp
next
  case (Arr vs)
  obtain ws where w: "w = Arr ws" using same_kind [OF Arr.prems(1,2,5)] kind_elims(3) [of w] by auto
  have "vs = ws \<and> r = q"
  proof (rule joined_cancel [where p = ordered_text and c = CLOSE_BRACKET])
    fix x y r q assume "x \<in> set vs" "y \<in> set ws" "ended r" "ended q" "ordered_text x @ r = ordered_text y @ q"
    then show "x = y \<and> r = q" using Arr.IH [of x y r q] Arr.prems(1,2) w by simp
  next
    show "joined (map ordered_text vs) @ CLOSE_BRACKET # r = joined (map ordered_text ws) @ CLOSE_BRACKET # q"
      using Arr.prems(5) w by simp
  qed (use Arr.prems(1,2) w in \<open>auto simp: written_starts CLOSE_BRACKET_def\<close>)
  then show ?case using w by simp
next
  case (Obj ms)
  obtain ns where w: "w = Obj ns" using same_kind [OF Obj.prems(1,2,5)] kind_elims(4) [of w] by auto
  let ?p = "\<lambda>(k, v). member_text (k, ordered_text v)"
  have "ms = ns \<and> r = q"
  proof (rule joined_cancel [where p = ?p and c = CLOSE_BRACE])
    fix x y r q assume xy: "x \<in> set ms" "y \<in> set ns" "ended r" "ended q" "?p x @ r = ?p y @ q"
    obtain k v l u where p: "x = (k, v)" "y = (l, u)" by (cases x, cases y)
    have "k = l \<and> ordered_text v @ r = ordered_text u @ q" by (rule member_cancel) (use xy(5) p in simp)
    then have "k = l" "ordered_text v @ r = ordered_text u @ q" by simp_all
    moreover have "settled v" "settled u" using xy(1,2) p Obj.prems(1,2) w by auto
    ultimately show "x = y \<and> r = q" using Obj.IH [OF xy(1), of v u r q] xy(3,4) p by simp
  next
    show "joined (map ?p ms) @ CLOSE_BRACE # r = joined (map ?p ns) @ CLOSE_BRACE # q"
      using Obj.prems(5) w by simp
  qed (auto simp: member_starts CLOSE_BRACE_def)
  then show ?case using w by simp
next
  case Undefined
  have "w = Undefined" using same_kind [OF Undefined.prems(1,2,5)] kind_elims(5) [of w] by simp
  then show ?case using Undefined.prems(5) by simp
next
  case Null
  have "w = Null" using same_kind [OF Null.prems(1,2,5)] Null.prems(2) kind_elims(6) [of w] by simp
  then show ?case using Null.prems(5) by simp
qed simp

lemma same_text_normal:
  assumes "proper_js v" and "proper_js w" and "canonicalize v = canonicalize w"
  shows "normal v = normal w"
proof -
  have "ordered_text (normal v) @ [] = ordered_text (normal w) @ []" using assms(3) by (simp add: canonicalize_written)
  then show ?thesis using written_cancel settled_normal assms(1,2) by (metis ended_def list.simps(4))
qed

text \<open>C37: The canonical text says everything but the order of keys: two values that JSON can make have the same canonical
  text exactly when they differ only in the order of the members of their objects (and in the one point that JSON
  writes a number too large as null).
\<close>

theorem canonical_text_determines:
  assumes "proper_js v" and "proper_js w"
  shows "canonicalize v = canonicalize w \<longleftrightarrow> normal v = normal w"
  using same_text_normal [OF assms] by (auto simp: canonicalize_written)

text \<open>What it means that two objects are the same but for order: they have the same members.\<close>

lemma sort_key_eq_map_of:
  assumes "distinct (map fst xs)" and "distinct (map fst ys)"
  shows "sort_key fst xs = sort_key fst ys \<longleftrightarrow> map_of xs = map_of ys"
proof
  assume "sort_key fst xs = sort_key fst ys"
  then have "set xs = set ys" by (metis set_sort)
  then show "map_of xs = map_of ys" using assms by (simp add: map_of_inject_set)
next
  assume "map_of xs = map_of ys"
  then have same: "set (sort_key fst xs) = set (sort_key fst ys)" using assms by (simp add: map_of_inject_set)
  have d: "distinct (map fst (sort_key fst zs))" if "distinct (map fst zs)" for zs :: "('a \<times> 'b) list"
  proof -
    have "distinct zs" and "inj_on fst (set zs)" using that by (simp_all add: distinct_map)
    then show ?thesis by (simp add: distinct_map)
  qed
  have "inj_on fst (set (sort_key fst xs) \<union> set (sort_key fst ys))"
    using d [OF assms(1)] same by (simp add: distinct_map)
  then show "sort_key fst xs = sort_key fst ys"
    using map_sorted_distinct_set_unique [of fst "sort_key fst xs" "sort_key fst ys"] d assms same by simp
qed

lemma normal_objects:
  assumes "distinct (map fst ms)" and "distinct (map fst ns)"
  shows "normal (Obj ms) = normal (Obj ns) \<longleftrightarrow> (\<forall>k. map_option normal (map_of ms k) = map_option normal (map_of ns k))"
proof -
  let ?n = "\<lambda>ms. map (\<lambda>(k, v). (k, normal v)) ms"
  have "map fst (?n ms) = map fst ms" for ms :: "(text_units \<times> js) list" by (induction ms) auto
  then have "normal (Obj ms) = normal (Obj ns) \<longleftrightarrow> map_of (?n ms) = map_of (?n ns)"
    using sort_key_eq_map_of [of "?n ms" "?n ns"] assms by (simp only: normal.simps js.inject)
  moreover have "map_of (?n zs) k = map_option normal (map_of zs k)" for zs :: "(text_units \<times> js) list" and k by (simp add: map_of_map)
  ultimately show ?thesis by (simp only: fun_eq_iff)
qed

theorem canonical_text_determines_witness:
  "normal (Obj [(codes ''a'', Null), (codes ''n'', Number (codes ''5''))]) = normal (Obj [(codes ''n'', Number (codes ''5'')), (codes ''a'', Null)]) \<and>
   canonicalize (Number (codes ''5'')) \<noteq> canonicalize (Str (codes ''5''))"
proof -
  have p: "proper_js (Number (codes ''5''))" by (simp add: number_text_def number_unit_def digit_unit_def codes_def)
  then show ?thesis
    using canonical_text_determines [of "Number (codes ''5'')" "Str (codes ''5'')"]
    by (simp add: codes_def)
qed

end
