(* ===== verification/TrusteeEvents.thy ===== *)
theory TrusteeEvents
  imports CanonicalJson
begin

text \<open>
  \<open>apps/api/src/trustee/trustee-events.module.ts\<close>: the receiver of the events that the trustee delivers. A
  delivery is accepted when one of two signatures over a canonical subject verifies, and its event is stored once.
\<close>

section \<open>Configuration\<close>

definition holds_text :: "text_units \<Rightarrow> text_units \<Rightarrow> bool" where
  "holds_text w t \<longleftrightarrow> list_ex (\<lambda>i. take (length w) (drop i t) = w) [0..<Suc (length t)]"

text \<open>\<open>s.replace(/\\n/g, '\n')\<close>: a backslash and an n become the end of a line.\<close>

fun with_newlines :: "text_units \<Rightarrow> text_units" where
  "with_newlines (c # d # t) = (if c = 92 \<and> d = 110 then 10 # with_newlines t else c # with_newlines (d # t))"
| "with_newlines t = t"

text \<open>The key from the settings, else from the environment; \<open>decode\<close> reads base64 as UTF-8.\<close>

definition public_key :: "(text_units \<Rightarrow> text_units) \<Rightarrow> text_units option \<Rightarrow> text_units option \<Rightarrow> text_units option" where
  "public_key decode setting environment =
     (case (case setting of Some k \<Rightarrow> Some k | None \<Rightarrow> environment) of
        None \<Rightarrow> None
      | Some raw \<Rightarrow>
          if raw = [] then None
          else let s = trim_units raw in
            if holds_text (codes ''BEGIN'') s then Some (with_newlines s)
            else if holds_text (codes ''BEGIN'') (decode s) then Some (decode s) else Some s)"

text \<open>
  What the receiver is given: its key, the check of an Ed25519 signature (an exception counts as a refusal), SHA-256
  in hexadecimal, and JavaScript's \<open>Number(x)\<close>, as the text of a finite number, and \<open>String(x)\<close>.
\<close>

record receiver =
  rc_key :: "text_units option"
  rc_verify :: "text_units \<Rightarrow> text_units \<Rightarrow> text_units \<Rightarrow> bool"
  rc_sha256 :: "text_units \<Rightarrow> text_units"
  rc_number :: "js \<Rightarrow> text_units option"
  rc_string :: "js \<Rightarrow> text_units"

record event_headers =
  eh_signature :: "text_units option"
  eh_client :: "text_units option"
  eh_timestamp :: "text_units option"
  eh_nonce :: "text_units option"

record inbound_event =
  ie_id :: text_units
  ie_type :: text_units
  ie_payload :: js

datatype receiver_error = NotConfigured | BadRequest string | SignatureMismatch | Crash

datatype scheme = SchemeA | SchemeB

record accepted =
  ac_id :: text_units
  ac_type :: text_units
  ac_scheme :: scheme
  ac_duplicate :: bool

section \<open>Reading a body\<close>

text \<open>\<open>body.k\<close> on a value that is not null, and \<open>x?.k\<close>.\<close>

definition json_member :: "js \<Rightarrow> string \<Rightarrow> js" where
  "json_member v k = (case v of Obj ms \<Rightarrow> (case map_of ms (codes k) of Some x \<Rightarrow> x | None \<Rightarrow> Undefined) | _ \<Rightarrow> Undefined)"

definition truthy :: "js \<Rightarrow> bool" where
  "truthy v = (case v of Undefined \<Rightarrow> False | Null \<Rightarrow> False | Boolean b \<Rightarrow> b | Number t \<Rightarrow> t \<noteq> codes ''0''
     | Str s \<Rightarrow> s \<noteq> [] | _ \<Rightarrow> True)"

fun first_truthy :: "js list \<Rightarrow> js" where
  "first_truthy [] = Undefined"
| "first_truthy [v] = v"
| "first_truthy (v # w # vs) = (if truthy v then v else first_truthy (w # vs))"

definition header_or :: "text_units option \<Rightarrow> js \<Rightarrow> js" where
  "header_or h v = (case h of Some t \<Rightarrow> Str t | None \<Rightarrow> v)"

section \<open>The subjects that are signed\<close>

definition RECEIVER_PATH :: string where "RECEIVER_PATH = ''/api/v1/trustee/events''"

definition subject_b :: "js \<Rightarrow> js \<Rightarrow> js \<Rightarrow> js" where
  "subject_b eventType target payload =
     Obj [(codes ''eventType'', eventType), (codes ''targetPlatform'', target), (codes ''payload'', payload)]"

definition subject_a :: "js \<Rightarrow> js \<Rightarrow> js \<Rightarrow> text_units \<Rightarrow> js" where
  "subject_a client timestamp nonce bodyHash =
     Obj [(codes ''method'', Str (codes ''POST'')), (codes ''path'', Str (codes RECEIVER_PATH)), (codes ''clientId'', client),
       (codes ''timestamp'', timestamp), (codes ''nonce'', nonce), (codes ''bodyHash'', Str bodyHash)]"

text \<open>The timestamp of a header is a text and that of a body may be a number: both readings are tried.\<close>

definition timestamp_candidates :: "receiver \<Rightarrow> js \<Rightarrow> js list" where
  "timestamp_candidates R ts =
     (if ts = Undefined then [Undefined]
      else [ts] @ (case rc_number R ts of None \<Rightarrow> [] | Some n \<Rightarrow> if n \<noteq> rc_string R ts then [Number n] else []) @
        (case ts of Number n \<Rightarrow> [Str (rc_string R ts)] | Infinite \<Rightarrow> [Str (rc_string R ts)] | _ \<Rightarrow> []))"

definition body_signature :: "js \<Rightarrow> text_units" where
  "body_signature body = (case json_member body ''signature'' of Str s \<Rightarrow> s | _ \<Rightarrow> [])"

definition verifies_b :: "receiver \<Rightarrow> text_units \<Rightarrow> js \<Rightarrow> bool" where
  "verifies_b R pem body \<longleftrightarrow>
     body_signature body \<noteq> [] \<and> json_member body ''eventType'' \<noteq> Undefined \<and> json_member body ''payload'' \<noteq> Undefined \<and>
     rc_verify R pem (canonicalize (subject_b (json_member body ''eventType'') (json_member body ''targetPlatform'')
       (json_member body ''payload''))) (body_signature body)"

definition verifies_a :: "receiver \<Rightarrow> text_units \<Rightarrow> event_headers \<Rightarrow> js \<Rightarrow> bool" where
  "verifies_a R pem h body \<longleftrightarrow>
     (case eh_signature h of None \<Rightarrow> False | Some sig \<Rightarrow>
       sig \<noteq> [] \<and> json_member body ''payload'' \<noteq> Undefined \<and>
       list_ex (\<lambda>ts. rc_verify R pem (canonicalize (subject_a (header_or (eh_client h) (json_member body ''clientId'')) ts
           (header_or (eh_nonce h) (json_member body ''nonce'')) (rc_sha256 R (canonicalize (json_member body ''payload''))))) sig)
         (timestamp_candidates R (header_or (eh_timestamp h) (json_member body ''timestamp''))))"

definition verified_scheme :: "receiver \<Rightarrow> text_units \<Rightarrow> event_headers \<Rightarrow> js \<Rightarrow> scheme option" where
  "verified_scheme R pem h body =
     (if verifies_b R pem body then Some SchemeB else if verifies_a R pem h body then Some SchemeA else None)"

section \<open>A delivery\<close>

definition event_id :: "js \<Rightarrow> js" where
  "event_id body = first_truthy [json_member body ''id'', json_member body ''eventId'',
     json_member (json_member body ''payload'') ''id'', json_member body ''nonce'']"

definition event_type :: "js \<Rightarrow> js" where
  "event_type body = first_truthy [json_member body ''eventType'', json_member (json_member body ''payload'') ''type'']"

text \<open>\<open>body\<close> is what JSON.parse makes of the request, if anything. The table takes an id once and only strings.\<close>

definition ingest_event ::
    "receiver \<Rightarrow> js option \<Rightarrow> event_headers \<Rightarrow> inbound_event list \<Rightarrow> (receiver_error + accepted) \<times> inbound_event list" where
  "ingest_event R parsed h events =
     (case rc_key R of None \<Rightarrow> (Inl NotConfigured, events)
      | Some pem \<Rightarrow>
     (case parsed of None \<Rightarrow> (Inl (BadRequest ''body is not valid JSON''), events)
      | Some body \<Rightarrow>
          if body = Null then (Inl Crash, events)
          else case verified_scheme R pem h body of None \<Rightarrow> (Inl SignatureMismatch, events)
          | Some sch \<Rightarrow>
              if \<not> truthy (event_id body) \<or> \<not> truthy (event_type body)
              then (Inl (BadRequest ''event id and type are required''), events)
              else (case (event_id body, event_type body) of
                  (Str i, Str t) \<Rightarrow>
                    if i \<in> ie_id ` set events then (Inr \<lparr>ac_id = i, ac_type = t, ac_scheme = sch, ac_duplicate = True\<rparr>, events)
                    else (Inr \<lparr>ac_id = i, ac_type = t, ac_scheme = sch, ac_duplicate = False\<rparr>,
                      events @ [\<lparr>ie_id = i, ie_type = t, ie_payload = body\<rparr>])
                | _ \<Rightarrow> (Inl Crash, events))))"

section \<open>What an accepted delivery proves\<close>

text \<open>
  What the trustee has signed: events with scheme B, requests with scheme A, of which it hashed the payload.
\<close>

record signed_event =
  se_type :: js
  se_target :: js
  se_payload :: js

record signed_request =
  sq_client :: js
  sq_timestamp :: js
  sq_nonce :: js
  sq_payload :: js

definition event_subject :: "signed_event \<Rightarrow> js" where
  "event_subject e = subject_b (se_type e) (se_target e) (se_payload e)"

definition request_subject :: "receiver \<Rightarrow> signed_request \<Rightarrow> js" where
  "request_subject R q = subject_a (sq_client q) (sq_timestamp q) (sq_nonce q) (rc_sha256 R (canonicalize (sq_payload q)))"

definition proper_event :: "signed_event \<Rightarrow> bool" where
  "proper_event e \<longleftrightarrow> proper_js (se_type e) \<and> proper_js (se_target e) \<and> proper_js (se_payload e)"

definition proper_request :: "signed_request \<Rightarrow> bool" where
  "proper_request q \<longleftrightarrow> proper_js (sq_client q) \<and> proper_js (sq_timestamp q) \<and> proper_js (sq_nonce q) \<and> proper_js (sq_payload q)"

text \<open>Nothing verifies but what was signed, and a number prints as a number.\<close>

definition trusted :: "receiver \<Rightarrow> signed_event set \<Rightarrow> signed_request set \<Rightarrow> bool" where
  "trusted R es qs \<longleftrightarrow>
     (\<forall>pem m s. rc_verify R pem m s \<longrightarrow> m \<in> canonicalize ` (event_subject ` es \<union> request_subject R ` qs)) \<and>
     (\<forall>v n. rc_number R v = Some n \<longrightarrow> number_text n)"

text \<open>The payload that arrived and those that were signed are no collision of the hash.\<close>

definition no_collision :: "receiver \<Rightarrow> signed_request set \<Rightarrow> js \<Rightarrow> bool" where
  "no_collision R qs body \<longleftrightarrow> (\<forall>q \<in> qs. rc_sha256 R (canonicalize (json_member body ''payload'')) = rc_sha256 R (canonicalize (sq_payload q)) \<longrightarrow>
     canonicalize (json_member body ''payload'') = canonicalize (sq_payload q))"

lemma proper_member: "proper_js v \<Longrightarrow> proper_js (json_member v k)"
  by (cases v) (auto simp: json_member_def split: option.split dest: map_of_SomeD)

lemma proper_subjects:
  "proper_js (subject_b a b c) \<longleftrightarrow> proper_js a \<and> proper_js b \<and> proper_js c"
  "proper_js (subject_a a b c t) \<longleftrightarrow> proper_js a \<and> proper_js b \<and> proper_js c"
  by (simp_all add: subject_a_def subject_b_def codes_def)

lemma normal_subject_b:
  "normal (subject_b a b c) = normal (subject_b a' b' c') \<longleftrightarrow> normal a = normal a' \<and> normal b = normal b' \<and> normal c = normal c'"
  by (simp add: subject_b_def codes_def) auto

lemma normal_subject_a:
  "normal (subject_a a b c t) = normal (subject_a a' b' c' t') \<longleftrightarrow>
     normal a = normal a' \<and> normal b = normal b' \<and> normal c = normal c' \<and> t = t'"
  by (simp add: subject_a_def codes_def) auto

lemma normal_subjects_differ: "normal (subject_a a b c t) \<noteq> normal (subject_b a' b' c')"
  by (simp add: subject_a_def subject_b_def codes_def)

lemma trusted_verifies:
  assumes "trusted R es qs" and "\<forall>e \<in> es. proper_event e" and "\<forall>q \<in> qs. proper_request q"
    and "proper_js v" and "rc_verify R pem (canonicalize v) s"
  shows "(\<exists>e \<in> es. normal v = normal (event_subject e)) \<or> (\<exists>q \<in> qs. normal v = normal (request_subject R q))"
proof -
  have "canonicalize v \<in> canonicalize ` (event_subject ` es \<union> request_subject R ` qs)"
    using assms(1,5) unfolding trusted_def by blast
  then obtain w where w: "w \<in> event_subject ` es \<union> request_subject R ` qs" "canonicalize v = canonicalize w" by blast
  have "proper_js w" using w(1) assms(2,3)
    by (auto simp: event_subject_def request_subject_def proper_subjects proper_event_def proper_request_def)
  from same_text_normal [OF assms(4) this w(2)] show ?thesis using w(1) by auto
qed

lemma proper_timestamp:
  "trusted R es qs \<Longrightarrow> proper_js v \<Longrightarrow> ts \<in> set (timestamp_candidates R v) \<Longrightarrow> proper_js ts"
  by (cases v) (auto simp: timestamp_candidates_def trusted_def split: option.splits if_splits)

lemma proper_header: "proper_js v \<Longrightarrow> proper_js (header_or h v)"
  by (simp add: header_or_def split: option.split)

lemma verified_b:
  assumes "trusted R es qs" and "\<forall>e \<in> es. proper_event e" and "\<forall>q \<in> qs. proper_request q"
    and "proper_js body" and "verifies_b R pem body"
  shows "\<exists>e \<in> es. normal (se_type e) = normal (json_member body ''eventType'') \<and>
    normal (se_target e) = normal (json_member body ''targetPlatform'') \<and> normal (se_payload e) = normal (json_member body ''payload'')"
proof -
  let ?v = "subject_b (json_member body ''eventType'') (json_member body ''targetPlatform'') (json_member body ''payload'')"
  have "proper_js ?v" using assms(4) by (simp add: proper_subjects proper_member)
  moreover have "rc_verify R pem (canonicalize ?v) (body_signature body)" using assms(5) by (simp add: verifies_b_def)
  ultimately obtain e where "e \<in> es" "normal ?v = normal (event_subject e)"
    using trusted_verifies [OF assms(1-3)] normal_subjects_differ [THEN not_sym] unfolding request_subject_def by metis
  then show ?thesis unfolding event_subject_def by (auto simp: normal_subject_b)
qed

lemma verified_a:
  assumes "trusted R es qs" and "\<forall>e \<in> es. proper_event e" and "\<forall>q \<in> qs. proper_request q"
    and "proper_js body" and "no_collision R qs body" and "verifies_a R pem h body"
  shows "\<exists>q \<in> qs. normal (sq_payload q) = normal (json_member body ''payload'') \<and>
    normal (sq_nonce q) = normal (header_or (eh_nonce h) (json_member body ''nonce'')) \<and>
    normal (sq_client q) = normal (header_or (eh_client h) (json_member body ''clientId''))"
proof -
  let ?c = "header_or (eh_client h) (json_member body ''clientId'')" and ?n = "header_or (eh_nonce h) (json_member body ''nonce'')"
  let ?hash = "rc_sha256 R (canonicalize (json_member body ''payload''))"
  obtain ts sig where ts: "ts \<in> set (timestamp_candidates R (header_or (eh_timestamp h) (json_member body ''timestamp'')))"
      "rc_verify R pem (canonicalize (subject_a ?c ts ?n ?hash)) sig"
    using assms(6) by (auto simp: verifies_a_def list_ex_iff split: option.splits)
  have "proper_js (subject_a ?c ts ?n ?hash)"
    using assms(4) proper_timestamp [OF assms(1) _ ts(1)] by (simp add: proper_subjects proper_member proper_header)
  from trusted_verifies [OF assms(1-3) this ts(2)] obtain q where q: "q \<in> qs"
      "normal (subject_a ?c ts ?n ?hash) = normal (request_subject R q)"
    by (auto simp: event_subject_def normal_subjects_differ)
  then have same: "normal ?c = normal (sq_client q)" "normal ?n = normal (sq_nonce q)"
      "?hash = rc_sha256 R (canonicalize (sq_payload q))"
    by (simp_all add: request_subject_def normal_subject_a)
  then have "canonicalize (json_member body ''payload'') = canonicalize (sq_payload q)"
    using assms(5) q(1) by (simp add: no_collision_def)
  moreover have "proper_js (sq_payload q)" using assms(3) q(1) by (simp add: proper_request_def)
  ultimately have "normal (json_member body ''payload'') = normal (sq_payload q)"
    using same_text_normal proper_member [OF assms(4)] by blast
  then show ?thesis using same q(1) by metis
qed

lemma ingested:
  assumes "ingest_event R parsed h events = (Inr a, events')"
  shows "\<exists>pem body. rc_key R = Some pem \<and> parsed = Some body \<and> body \<noteq> Null \<and>
    verified_scheme R pem h body = Some (ac_scheme a) \<and> event_id body = Str (ac_id a) \<and> ac_id a \<noteq> [] \<and>
    event_type body = Str (ac_type a) \<and> ac_type a \<noteq> [] \<and> (ac_duplicate a \<longleftrightarrow> ac_id a \<in> ie_id ` set events) \<and>
    events' = (if ac_duplicate a then events else events @ [\<lparr>ie_id = ac_id a, ie_type = ac_type a, ie_payload = body\<rparr>])"
proof -
  obtain pem body sch where 1: "rc_key R = Some pem" "parsed = Some body" "body \<noteq> Null" "verified_scheme R pem h body = Some sch"
      "truthy (event_id body)" "truthy (event_type body)"
    using assms by (simp add: ingest_event_def split: option.splits if_splits)
  moreover from this assms obtain i t where 2: "event_id body = Str i" "event_type body = Str t"
    by (cases "event_id body"; cases "event_type body") (simp_all add: ingest_event_def)
  ultimately have "a = \<lparr>ac_id = i, ac_type = t, ac_scheme = sch, ac_duplicate = i \<in> ie_id ` set events\<rparr> \<and>
      events' = (if i \<in> ie_id ` set events then events else events @ [\<lparr>ie_id = i, ie_type = t, ie_payload = body\<rparr>])"
    using assms by (simp add: ingest_event_def del: image_iff split: if_splits)
  then show ?thesis using 1 2 by (simp add: truthy_def)
qed


section \<open>Once\<close>

definition with_member :: "string \<Rightarrow> js \<Rightarrow> js \<Rightarrow> js" where
  "with_member k v body = (case body of Obj ms \<Rightarrow> Obj ((codes k, v) # filter (\<lambda>m. fst m \<noteq> codes k) ms) | _ \<Rightarrow> body)"

text \<open>Both orders of delivering: the same id again changes nothing.\<close>

theorem redelivery_ignored:
  assumes "ingest_event R (Some body) h events = (Inr a, events')"
  shows "ingest_event R (Some body) h events' = (Inr (a\<lparr>ac_duplicate := True\<rparr>), events')"
proof -
  obtain pem where "rc_key R = Some pem" "body \<noteq> Null" "verified_scheme R pem h body = Some (ac_scheme a)"
      "event_id body = Str (ac_id a)" "ac_id a \<noteq> []" "event_type body = Str (ac_type a)" "ac_type a \<noteq> []" "ac_id a \<in> ie_id ` set events'"
    using ingested [OF assms] by (auto split: if_splits)
  then show ?thesis by (cases a) (simp add: ingest_event_def truthy_def)
qed

text \<open>
  The identifier is in neither subject, nor is the type of an event with scheme A: whoever repeats a delivery of the trustee may choose them.
\<close>

lemma json_member_with:
  "json_member (with_member k v (Obj ms)) k' = (if codes k' = codes k then v else json_member (Obj ms) k')"
proof -
  have "map_of (filter (\<lambda>m. fst m \<noteq> x) ms) y = map_of ms y" if "y \<noteq> x" for x y using that by (induction ms) auto
  then show ?thesis by (simp add: json_member_def with_member_def)
qed

lemma accepted_object:
  assumes "verified_scheme R pem h body = Some sch"
  shows "\<exists>ms. body = Obj ms"
proof -
  have "json_member body ''payload'' \<noteq> Undefined"
    using assms by (auto simp: verified_scheme_def verifies_a_def verifies_b_def split: if_splits option.splits)
  then show ?thesis by (cases body) (simp_all add: json_member_def)
qed

text \<open>The identifier of an event is not signed: a delivery that was accepted is accepted once more under any other
  identifier, and stored as another event.
\<close>

theorem replayed_under_new_id:
  assumes "ingest_event R (Some body) h events = (Inr a, events')" and "j \<noteq> []" and "j \<notin> ie_id ` set events'"
  shows "ingest_event R (Some (with_member ''id'' (Str j) body)) h events' =
    (Inr (a\<lparr>ac_id := j, ac_duplicate := False\<rparr>),
     events' @ [\<lparr>ie_id = j, ie_type = ac_type a, ie_payload = with_member ''id'' (Str j) body\<rparr>])"
proof -
  obtain pem where a: "rc_key R = Some pem" "verified_scheme R pem h body = Some (ac_scheme a)" "event_type body = Str (ac_type a)" "ac_type a \<noteq> []"
    using ingested [OF assms(1)] by auto
  from accepted_object [OF a(2)] obtain ms where ms: "body = Obj ms" by blast
  let ?new = "with_member ''id'' (Str j) body"
  have same: "json_member ?new k = json_member body k" if "codes k \<noteq> codes ''id''" for k
    using that ms by (simp add: json_member_with)
  have "verified_scheme R pem h ?new = verified_scheme R pem h body"
    unfolding verified_scheme_def verifies_a_def verifies_b_def body_signature_def by (simp add: same codes_def cong: option.case_cong)
  moreover have "event_type ?new = event_type body" by (simp add: event_type_def same codes_def)
  moreover have "event_id ?new = Str j" using ms assms(2) by (simp add: event_id_def json_member_with truthy_def)
  moreover have "?new \<noteq> Null" using ms by (simp add: with_member_def)
  ultimately show ?thesis using a assms(2,3) by (cases a) (simp add: ingest_event_def truthy_def)
qed

lemma retyped_event:
  assumes "ingest_event R (Some body) h events = (Inr a, events')" and "ac_scheme a = SchemeA" and "body_signature body = []" and "t \<noteq> []"
  shows "fst (ingest_event R (Some (with_member ''eventType'' (Str t) body)) h events) = Inr (a\<lparr>ac_type := t\<rparr>)"
proof -
  obtain pem where a: "rc_key R = Some pem" "verified_scheme R pem h body = Some (ac_scheme a)"
      "event_id body = Str (ac_id a)" "ac_id a \<noteq> []" "ac_duplicate a \<longleftrightarrow> ac_id a \<in> ie_id ` set events"
    using ingested [OF assms(1)] by auto
  from accepted_object [OF a(2)] obtain ms where ms: "body = Obj ms" by blast
  let ?new = "with_member ''eventType'' (Str t) body"
  have same: "json_member ?new k = json_member body k" if "codes k \<noteq> codes ''eventType''" for k
    using that ms by (simp add: json_member_with)
  have "verified_scheme R pem h ?new = Some SchemeA"
    using a(2) assms(2,3) unfolding verified_scheme_def verifies_a_def verifies_b_def body_signature_def
    by (simp add: same codes_def split: if_splits cong: option.case_cong)
  moreover have "event_id ?new = event_id body" by (simp add: event_id_def same codes_def)
  moreover have "event_type ?new = Str t" using ms assms(4) by (simp add: event_type_def json_member_with truthy_def)
  moreover have "?new \<noteq> Null" using ms by (simp add: with_member_def)
  ultimately show ?thesis using a assms(2,4) by (cases a) (simp add: ingest_event_def truthy_def)
qed

section \<open>Instances\<close>

definition paid_event :: signed_event where
  "paid_event = \<lparr>se_type = Str (codes ''mint''), se_target = Undefined, se_payload = Obj [(codes ''n'', Number (codes ''5'')), (codes ''a'', Null)]\<rparr>"

definition sample_receiver :: receiver where
  "sample_receiver = \<lparr>rc_key = Some (codes ''k''), rc_verify = (\<lambda>pem m s. m = canonicalize (event_subject paid_event)),
     rc_sha256 = id, rc_number = (\<lambda>v. None), rc_string = (\<lambda>v. [])\<rparr>"

text \<open>The members of the payload come in another order than the trustee wrote them.\<close>

definition sample_body :: js where
  "sample_body = Obj [(codes ''id'', Str (codes ''e1'')), (codes ''payload'', Obj [(codes ''a'', Null), (codes ''n'', Number (codes ''5''))]),
     (codes ''eventType'', Str (codes ''mint'')), (codes ''signature'', Str (codes ''s''))]"

definition no_headers :: event_headers where
  "no_headers = \<lparr>eh_signature = None, eh_client = None, eh_timestamp = None, eh_nonce = None\<rparr>"

definition sample_row :: "string \<Rightarrow> js \<Rightarrow> inbound_event" where
  "sample_row i body = \<lparr>ie_id = codes i, ie_type = codes ''mint'', ie_payload = body\<rparr>"

lemma sample_accepted:
  "ingest_event sample_receiver (Some sample_body) no_headers [] =
    (Inr \<lparr>ac_id = codes ''e1'', ac_type = codes ''mint'', ac_scheme = SchemeB, ac_duplicate = False\<rparr>, [sample_row ''e1'' sample_body])"
  by (simp add: ingest_event_def sample_receiver_def sample_body_def no_headers_def verified_scheme_def verifies_b_def body_signature_def
      json_member_def event_subject_def paid_event_def subject_b_def event_id_def event_type_def truthy_def sample_row_def codes_def)

lemma sample_trusted: "trusted sample_receiver {paid_event} {}" "proper_event paid_event" "proper_js sample_body"
  by (auto simp: trusted_def sample_receiver_def proper_event_def paid_event_def sample_body_def number_text_def number_unit_def
      digit_unit_def codes_def)


theorem redelivery_ignored_witness:
  "snd (ingest_event sample_receiver (Some sample_body) no_headers [sample_row ''e1'' sample_body]) = [sample_row ''e1'' sample_body]"
  using redelivery_ignored [OF sample_accepted] by simp

theorem replayed_under_new_id_witness:
  "length (snd (ingest_event sample_receiver (Some (with_member ''id'' (Str (codes ''e2'')) sample_body)) no_headers [sample_row ''e1'' sample_body])) = 2"
  using replayed_under_new_id [OF sample_accepted, of "codes ''e2''"] by (simp add: sample_row_def codes_def)

end
