(* ===== verification/FeatureFlags.thy ===== *)
theory FeatureFlags
  imports Access
begin

text \<open>
  \<open>apps/api/src/feature-flags/feature-flags.module.ts\<close>: flags with a row for the platform and one per
  organisation, and the cache that each process keeps of their values. The table is shared by the processes; what
  others do while a value is read is an argument. Labels, which are for display, are left out.
\<close>

section \<open>Flags\<close>

definition GLOBAL_SCOPE :: string where "GLOBAL_SCOPE = ''global''"

datatype resolution = Override | Gated

record flag_def =
  fd_key :: string
  fd_group :: string
  fd_default :: bool
  fd_resolution :: resolution

definition flag :: "string \<Rightarrow> string \<Rightarrow> bool \<Rightarrow> resolution \<Rightarrow> flag_def" where
  "flag key grp dflt res = \<lparr>fd_key = key, fd_group = grp, fd_default = dflt, fd_resolution = res\<rparr>"

definition DEFS :: "flag_def list" where
  "DEFS =
     [flag ''loyalty.enabled'' ''Product'' True Override, flag ''referral.enabled'' ''Product'' True Override,
      flag ''scratch.enabled'' ''Product'' True Override, flag ''rewards_catalog.enabled'' ''Product'' True Override,
      flag ''coupon.enabled'' ''Product'' False Override, flag ''giftcard.enabled'' ''Product'' False Override,
      flag ''cashback.enabled'' ''Product'' False Override, flag ''automatic_promotions.enabled'' ''Product'' False Override,
      flag ''paychain.enabled'' ''PayChain'' False Override, flag ''paychain.shadow_mode.enabled'' ''PayChain'' False Override,
      flag ''stablecoin.balance.enabled'' ''Stablecoin'' False Gated, flag ''stablecoin.transfer.enabled'' ''Stablecoin'' False Gated,
      flag ''stablecoin.redemption.enabled'' ''Stablecoin'' False Gated, flag ''stablecoin.conversion.enabled'' ''Stablecoin'' False Gated]"

definition DEF_BY_KEY :: "string \<Rightarrow> flag_def option" where
  "DEF_BY_KEY key = find_by (\<lambda>d. fd_key d = key) DEFS"

definition TENANT_SETTABLE :: "string list" where
  "TENANT_SETTABLE = map fd_key (filter (\<lambda>d. fd_resolution d = Override) DEFS)"

record flag_row =
  ff_key :: string
  ff_scope :: string
  ff_enabled :: bool
  ff_by :: "string option"

record flags_state =
  fl_rows :: "flag_row list"
  fl_cache :: "string \<rightharpoonup> bool \<times> int"

type_synonym 'a flags_op = "(flags_state, exn, 'a) op"

definition TTL_MS :: int where "TTL_MS = 10000"

section \<open>Reading a flag\<close>

definition cache_key :: "string \<Rightarrow> string option \<Rightarrow> string" where
  "cache_key key org = key @ '':'' @ (case org of None \<Rightarrow> GLOBAL_SCOPE | Some x \<Rightarrow> x)"

definition row_value :: "flag_row list \<Rightarrow> string \<Rightarrow> string \<Rightarrow> bool option" where
  "row_value rows key scope = map_option ff_enabled (find_by (\<lambda>r. ff_key r = key \<and> ff_scope r = scope) rows)"

definition or_else :: "'a option \<Rightarrow> 'a \<Rightarrow> 'a" where
  "or_else x d = (case x of None \<Rightarrow> d | Some v \<Rightarrow> v)"

text \<open>An organisation that is the empty string counts as none.\<close>

definition org_given :: "string option \<Rightarrow> string option" where
  "org_given org = (if org = Some '''' then None else org)"

definition resolve_flag :: "flag_row list \<Rightarrow> flag_def \<Rightarrow> string option \<Rightarrow> bool" where
  "resolve_flag rows d org =
     (let platform = row_value rows (fd_key d) GLOBAL_SCOPE;
          own = Option.bind (org_given org) (row_value rows (fd_key d))
      in case fd_resolution d of
           Gated \<Rightarrow> or_else platform (fd_default d) \<and> (org_given org = None \<or> or_else own (fd_default d))
         | Override \<Rightarrow> or_else own (or_else platform (fd_default d)))"

text \<open>\<open>others\<close> is what happens between the query and the write to the cache, which are at \<open>now\<close> and \<open>fin\<close>.\<close>

definition cached_value :: "int \<Rightarrow> (bool \<times> int) option \<Rightarrow> bool option" where
  "cached_value now c = (case c of None \<Rightarrow> None | Some (v, stamp) \<Rightarrow> if now - stamp < TTL_MS then Some v else None)"

definition isEnabled :: "(flags_state \<Rightarrow> flags_state) \<Rightarrow> int \<Rightarrow> int \<Rightarrow> string \<Rightarrow> string option \<Rightarrow> bool flags_op" where
  "isEnabled others now fin key org =
     bindM (someM (internal (''Unknown feature flag: '' @ key)) (DEF_BY_KEY key)) (\<lambda>d.
     bindM (getsM (\<lambda>s. cached_value now (fl_cache s (cache_key key org)))) (\<lambda>hit.
     case hit of Some v \<Rightarrow> ret v
     | None \<Rightarrow>
         bindM (getsM (\<lambda>s. resolve_flag (fl_rows s) d org)) (\<lambda>v.
         seqM (modifyM others)
         (seqM (modifyM (fl_cache_update (\<lambda>c. c(cache_key key org \<mapsto> (v, fin))))) (ret v)))))"

definition assertEnabled :: "(flags_state \<Rightarrow> flags_state) \<Rightarrow> int \<Rightarrow> int \<Rightarrow> string \<Rightarrow> string option \<Rightarrow> unit flags_op" where
  "assertEnabled others now fin key org =
     bindM (isEnabled others now fin key org) (\<lambda>v. guardM v (forbidden (''Feature not enabled: '' @ key)))"

section \<open>Setting a flag\<close>

definition resultM :: "'e + 'a \<Rightarrow> ('s, 'e, 'a) op" where
  "resultM r s = (r, s)"

lemma bindM_result_op [op_simps]: "bindM (resultM r) f s = (case r of Inl e \<Rightarrow> (Inl e, s) | Inr a \<Rightarrow> f a s)"
  by (simp add: resultM_def bindM_def split: sum.split)

definition assertPlatformAdmin :: "bool \<Rightarrow> unit flags_op" where
  "assertPlatformAdmin isAdmin = guardM isAdmin (forbidden ''Platform admin access required'')"

text \<open>The upsert, and the clearing of the cache of this process.\<close>

definition write_flag :: "string \<Rightarrow> string \<Rightarrow> bool \<Rightarrow> string \<Rightarrow> (string \<times> string \<times> bool) flags_op" where
  "write_flag key scope enabled by =
     (let here = (\<lambda>r. ff_key r = key \<and> ff_scope r = scope) in
      seqM (modifyM (fl_rows_update (\<lambda>rows. if exists_by here rows
        then update_where here (\<lambda>r. r\<lparr>ff_enabled := enabled, ff_by := Some by\<rparr>) rows
        else rows @ [\<lparr>ff_key = key, ff_scope = scope, ff_enabled = enabled, ff_by = Some by\<rparr>])))
      (seqM (modifyM (fl_cache_update (\<lambda>_. Map.empty))) (ret (key, scope, enabled))))"

text \<open>\<open>isAdmin\<close> is the column of the user who asks.\<close>

definition setPlatform :: "bool \<Rightarrow> auth_user \<Rightarrow> string \<Rightarrow> bool \<Rightarrow> (string \<times> string \<times> bool) flags_op" where
  "setPlatform isAdmin u key enabled =
     seqM (assertPlatformAdmin isAdmin)
     (seqM (guardM (DEF_BY_KEY key \<noteq> None) (invalidRequest (''Unknown feature flag: '' @ key)))
     (write_flag key GLOBAL_SCOPE enabled (user_id u)))"

definition setForOrg :: "auth_user \<Rightarrow> string \<Rightarrow> string \<Rightarrow> bool \<Rightarrow> (string \<times> string \<times> bool) flags_op" where
  "setForOrg u org key enabled =
     bindM (resultM (requireMembership u org)) (\<lambda>_.
     seqM (guardM (DEF_BY_KEY key \<noteq> None) (invalidRequest (''Unknown feature flag: '' @ key)))
     (seqM (guardM (List.member TENANT_SETTABLE key) (forbidden (key @ '' can only be set by a platform administrator'')))
     (write_flag key org enabled (user_id u))))"

section \<open>Lists\<close>

record platform_flag =
  pf_key :: string
  pf_group :: string
  pf_resolution :: resolution
  pf_enabled :: bool
  pf_from_db :: bool
  pf_tenant_settable :: bool

definition listPlatform :: "bool \<Rightarrow> platform_flag list flags_op" where
  "listPlatform isAdmin =
     seqM (assertPlatformAdmin isAdmin)
     (getsM (\<lambda>s. map (\<lambda>d. let row = row_value (fl_rows s) (fd_key d) GLOBAL_SCOPE in
        \<lparr>pf_key = fd_key d, pf_group = fd_group d, pf_resolution = fd_resolution d, pf_enabled = or_else row (fd_default d),
         pf_from_db = row \<noteq> None, pf_tenant_settable = (fd_resolution d = Override)\<rparr>) DEFS))"

record org_flag =
  of_key :: string
  of_group :: string
  of_enabled :: bool
  of_tenant_settable :: bool

text \<open>The flags are asked one after the other here; the code starts the reads together.\<close>

definition listForOrg :: "(flags_state \<Rightarrow> flags_state) \<Rightarrow> int \<Rightarrow> int \<Rightarrow> auth_user \<Rightarrow> string \<Rightarrow> org_flag list flags_op" where
  "listForOrg others now fin u org =
     bindM (resultM (requireMembership u org)) (\<lambda>_.
     foldM (\<lambda>fs d. bindM (isEnabled others now fin (fd_key d) (Some org)) (\<lambda>v.
       ret (fs @ [\<lparr>of_key = fd_key d, of_group = fd_group d, of_enabled = v, of_tenant_settable = (fd_resolution d = Override)\<rparr>])))
       [] DEFS)"

section \<open>How old a value may be\<close>

lemma isEnabled_cases:
  assumes "isEnabled others now fin key org s = (Inr v, t)"
  obtains (hit) stamp where "fl_cache s (cache_key key org) = Some (v, stamp)" and "now - stamp < TTL_MS" and "t = s"
    | (read) d where "DEF_BY_KEY key = Some d" and "v = resolve_flag (fl_rows s) d org"
        and "t = fl_cache_update (\<lambda>c. c(cache_key key org \<mapsto> (v, fin))) (others s)"
proof -
  obtain d where d: "DEF_BY_KEY key = Some d"
    using assms by (cases "DEF_BY_KEY key") (simp_all add: isEnabled_def op_simps)
  show thesis
  proof (cases "cached_value now (fl_cache s (cache_key key org))")
    case None
    then have "v = resolve_flag (fl_rows s) d org"
        "t = fl_cache_update (\<lambda>c. c(cache_key key org \<mapsto> (v, fin))) (others s)"
      using assms d by (auto simp: isEnabled_def op_simps)
    then show thesis using read d by blast
  next
    case (Some w)
    then have "w = v" "t = s" using assms d by (simp_all add: isEnabled_def op_simps)
    then show thesis using hit Some by (simp add: cached_value_def split: option.splits prod.splits if_splits)
  qed
qed

lemma DEFS_plain: "list_all (\<lambda>d. \<not> List.member (fd_key d) (CHR '':'')) DEFS"
  by code_simp

lemma DEF_BY_KEY_SomeD: "DEF_BY_KEY key = Some d \<Longrightarrow> d \<in> set DEFS \<and> fd_key d = key"
  unfolding DEF_BY_KEY_def by (drule find_by_SomeD) simp

text \<open>The keys of the cache are not confused.\<close>

lemma cache_key_inject:
  assumes "DEF_BY_KEY k = Some d" and "DEF_BY_KEY l = Some e" and "cache_key k x = cache_key l y"
  shows "k = l \<and> or_else x GLOBAL_SCOPE = or_else y GLOBAL_SCOPE"
proof -
  have "CHR '':'' \<notin> set k" "CHR '':'' \<notin> set l" using DEF_BY_KEY_SomeD [OF assms(1)] DEF_BY_KEY_SomeD [OF assms(2)] DEFS_plain by (auto simp: list_all_iff)
  then have "takeWhile (\<lambda>c. c \<noteq> CHR '':'') (k @ '':'' @ u) = k" "takeWhile (\<lambda>c. c \<noteq> CHR '':'') (l @ '':'' @ u) = l" for u
    by (simp_all add: takeWhile_append)
  moreover have "k @ '':'' @ or_else x GLOBAL_SCOPE = l @ '':'' @ or_else y GLOBAL_SCOPE"
    using assms(3) by (simp add: cache_key_def or_else_def)
  ultimately have "k = l" by metis
  then show ?thesis using \<open>k @ '':'' @ or_else x GLOBAL_SCOPE = l @ '':'' @ or_else y GLOBAL_SCOPE\<close> by simp
qed

lemma resolve_named_global: "resolve_flag rows d (Some GLOBAL_SCOPE) = resolve_flag rows d None"
proof -
  have "org_given (Some GLOBAL_SCOPE) = Some GLOBAL_SCOPE" by (simp add: org_given_def GLOBAL_SCOPE_def)
  then show ?thesis
    by (cases "row_value rows (fd_key d) GLOBAL_SCOPE") (simp_all add: resolve_flag_def org_given_def or_else_def split: resolution.split)
qed

lemma resolve_global: "or_else x GLOBAL_SCOPE = or_else y GLOBAL_SCOPE \<Longrightarrow> resolve_flag rows d x = resolve_flag rows d y"
  using resolve_named_global [of rows d] by (cases x; cases y) (simp_all add: or_else_def)

text \<open>
  A process and its time: \<open>H t\<close> is the table at time \<open>t\<close>, which any process may write at any moment. A read
  takes at most \<open>L\<close>; while it waits for the table the process serves others.
\<close>

inductive flags_course :: "(int \<Rightarrow> flag_row list) \<Rightarrow> int \<Rightarrow> int \<Rightarrow> flags_state \<Rightarrow> bool" for H L where
  started: "flags_course H L t \<lparr>fl_rows = H t, fl_cache = Map.empty\<rparr>"
| passed: "flags_course H L t s \<Longrightarrow> t \<le> t' \<Longrightarrow> flags_course H L t' (s\<lparr>fl_rows := H t'\<rparr>)"
| asked: "flags_course H L t s \<Longrightarrow> flags_course H L fin (others s) \<Longrightarrow> t \<le> fin \<Longrightarrow> fin \<le> t + L \<Longrightarrow>
    isEnabled others t fin key org s = (Inr v, s') \<Longrightarrow> s' \<noteq> s \<Longrightarrow> flags_course H L fin s'"
| platform_set: "flags_course H L t s \<Longrightarrow> t \<le> t' \<Longrightarrow> setPlatform adm u key b s = (Inr x, s') \<Longrightarrow> fl_rows s' = H t' \<Longrightarrow> flags_course H L t' s'"
| org_set: "flags_course H L t s \<Longrightarrow> t \<le> t' \<Longrightarrow> setForOrg u org key b s = (Inr x, s') \<Longrightarrow> fl_rows s' = H t' \<Longrightarrow> flags_course H L t' s'"

definition cache_current :: "(int \<Rightarrow> flag_row list) \<Rightarrow> int \<Rightarrow> int \<Rightarrow> flags_state \<Rightarrow> bool" where
  "cache_current H L t s \<longleftrightarrow> fl_rows s = H t \<and> (\<forall>key d org v stamp. DEF_BY_KEY key = Some d \<longrightarrow> fl_cache s (cache_key key org) = Some (v, stamp) \<longrightarrow>
     stamp \<le> t \<and> (\<exists>t'. stamp - L \<le> t' \<and> t' \<le> stamp \<and> v = resolve_flag (H t') d org))"

lemma written_cache:
  "setPlatform adm u key b s = (Inr x, s') \<Longrightarrow> fl_cache s' = Map.empty"
  "setForOrg u org key b s = (Inr x, s') \<Longrightarrow> fl_cache s' = Map.empty"
  by (auto simp: setPlatform_def setForOrg_def assertPlatformAdmin_def write_flag_def Let_def op_simps split: if_splits sum.splits)

lemma flags_course_current: "flags_course H L t s \<Longrightarrow> cache_current H L t s"
proof (induction rule: flags_course.induct)
  case (started t)
  then show ?case by (simp add: cache_current_def)
next
  case (passed t s t')
  then show ?case unfolding cache_current_def by fastforce
next
  case (asked t s fin others key org v s')
  from asked.hyps(5) show ?case
  proof (cases rule: isEnabled_cases)
    case (hit stamp)
    then show ?thesis using asked.hyps(6) by simp
  next
    case (read d)
    have now: "fl_rows s = H t" using asked.IH(1) by (simp add: cache_current_def)
    show ?thesis unfolding cache_current_def
    proof (intro conjI allI impI)
      show "fl_rows s' = H fin" using asked.IH(2) read(3) by (simp add: cache_current_def)
      fix k e o' w stamp
      assume e: "DEF_BY_KEY k = Some e" and c: "fl_cache s' (cache_key k o') = Some (w, stamp)"
      have "stamp \<le> fin \<and> (\<exists>t'. stamp - L \<le> t' \<and> t' \<le> stamp \<and> w = resolve_flag (H t') e o')"
      proof (cases "cache_key k o' = cache_key key org")
        case True
        then have "k = key" "or_else o' GLOBAL_SCOPE = or_else org GLOBAL_SCOPE" using cache_key_inject [OF e read(1)] by auto
        then have same: "resolve_flag rows e o' = resolve_flag rows d org" for rows
          using resolve_global [of o' org rows d] e read(1) by simp
        moreover have "w = v" "stamp = fin" using c read(3) True by auto
        ultimately show ?thesis using same [of "H t"] read(2) now asked.hyps(3,4) by (intro conjI exI [of _ t]) simp_all
      next
        case False
        then have "fl_cache (others s) (cache_key k o') = Some (w, stamp)" using c read(3) by simp
        then show ?thesis using asked.IH(2) e unfolding cache_current_def by blast
      qed
      then show "stamp \<le> fin" "\<exists>t'. stamp - L \<le> t' \<and> t' \<le> stamp \<and> w = resolve_flag (H t') e o'" by blast+
    qed
  qed
next
  case (platform_set t s t' adm u key b x s')
  then show ?case using written_cache(1) by (simp add: cache_current_def)
next
  case (org_set t s t' u org key b x s')
  then show ?case using written_cache(2) by (simp add: cache_current_def)
qed

text \<open>C39: A flag is at most ten seconds old: whatever processes write the table and whatever this one is asked
  meanwhile, the value that \<open>isEnabled\<close> answers at \<open>t\<close> is the value of the table at some moment in the ten
  seconds, and the longest time a read takes, before.
\<close>

theorem flag_staleness:
  assumes "flags_course H L t s" and "0 \<le> L" and "isEnabled others t fin key org s = (Inr v, s')"
  shows "\<exists>d t'. DEF_BY_KEY key = Some d \<and> t - TTL_MS - L < t' \<and> t' \<le> t \<and> v = resolve_flag (H t') d org"
  using assms(3)
proof (cases rule: isEnabled_cases)
  case (hit stamp)
  obtain d where d: "DEF_BY_KEY key = Some d"
    using assms(3) by (cases "DEF_BY_KEY key") (simp_all add: isEnabled_def op_simps)
  from flags_course_current [OF assms(1)] d hit(1) obtain t' where "stamp \<le> t" "stamp - L \<le> t'" "t' \<le> stamp" "v = resolve_flag (H t') d org"
    unfolding cache_current_def by blast
  then show ?thesis using d hit(2) by (intro exI [of _ d] exI [of _ t']) simp
next
  case (read d)
  have "fl_rows s = H t" using flags_course_current [OF assms(1)] by (simp add: cache_current_def)
  then show ?thesis using read assms(2) by (intro exI [of _ d] exI [of _ t]) (simp add: TTL_MS_def)
qed

section \<open>Gated flags\<close>

text \<open>What may happen to a process and the table: requests to it, writes of other processes, a restart.\<close>

inductive flags_used :: "(flags_state \<Rightarrow> flags_state) \<Rightarrow> bool" where
  unused: "flags_used (\<lambda>s. s)"
| by_platform: "flags_used g \<Longrightarrow> flags_used (\<lambda>s. snd (setPlatform adm u key b (g s)))"
| by_org: "flags_used g \<Longrightarrow> flags_used (\<lambda>s. snd (setForOrg u org key b (g s)))"
| read_flag: "flags_used g \<Longrightarrow> flags_used others \<Longrightarrow> flags_used (\<lambda>s. snd (isEnabled others now fin key org (g s)))"
| elsewhere_written: "flags_used g \<Longrightarrow> flags_used h \<Longrightarrow> flags_used (\<lambda>s. g s\<lparr>fl_rows := fl_rows (h (g s))\<rparr>)"
| restarted: "flags_used g \<Longrightarrow> flags_used (\<lambda>s. g s\<lparr>fl_cache := Map.empty\<rparr>)"

definition gated :: "string \<Rightarrow> bool" where
  "gated key \<longleftrightarrow> (\<exists>d. DEF_BY_KEY key = Some d \<and> fd_resolution d = Gated)"

definition tenant :: "string \<Rightarrow> bool" where
  "tenant org \<longleftrightarrow> org \<noteq> '''' \<and> org \<noteq> GLOBAL_SCOPE"

definition gated_off :: "flags_state \<Rightarrow> bool" where
  "gated_off s \<longleftrightarrow> (\<forall>r \<in> set (fl_rows s). gated (ff_key r) \<longrightarrow> ff_scope r = GLOBAL_SCOPE) \<and>
     (\<forall>key org v stamp. gated key \<longrightarrow> tenant org \<longrightarrow> fl_cache s (cache_key key (Some org)) = Some (v, stamp) \<longrightarrow> \<not> v)"

lemma gated_default: "DEF_BY_KEY key = Some d \<Longrightarrow> fd_resolution d = Gated \<Longrightarrow> \<not> fd_default d"
proof -
  have "list_all (\<lambda>d. fd_resolution d = Gated \<longrightarrow> \<not> fd_default d) DEFS" by code_simp
  then show "DEF_BY_KEY key = Some d \<Longrightarrow> fd_resolution d = Gated \<Longrightarrow> \<not> fd_default d"
    using DEF_BY_KEY_SomeD by (auto simp: list_all_iff)
qed

lemma gated_resolves:
  assumes "\<forall>r \<in> set rows. gated (ff_key r) \<longrightarrow> ff_scope r = GLOBAL_SCOPE" and "DEF_BY_KEY key = Some d" and "fd_resolution d = Gated"
    and "tenant org"
  shows "\<not> resolve_flag rows d (Some org)"
proof -
  have "gated (fd_key d)" using assms(2,3) DEF_BY_KEY_SomeD [OF assms(2)] by (simp add: gated_def)
  then have "row_value rows (fd_key d) org = None"
    using assms(1,4) by (cases "find_by (\<lambda>r. ff_key r = fd_key d \<and> ff_scope r = org) rows")
      (auto simp: row_value_def tenant_def dest: find_by_SomeD)
  then show ?thesis using assms(3,4) gated_default [OF assms(2,3)]
    by (simp add: resolve_flag_def org_given_def tenant_def or_else_def)
qed

lemma not_settable: "gated key \<Longrightarrow> \<not> List.member TENANT_SETTABLE key"
proof -
  assume "gated key"
  then obtain d where "DEF_BY_KEY key = Some d" "fd_resolution d = Gated" by (auto simp: gated_def)
  moreover have "list_all (\<lambda>d. fd_resolution d = Gated \<longrightarrow> \<not> List.member TENANT_SETTABLE (fd_key d)) DEFS" by code_simp
  ultimately show ?thesis using DEF_BY_KEY_SomeD [of key d] by (auto simp: list_all_iff)
qed

lemma gated_off_written:
  assumes "gated_off s" and "gated key \<longrightarrow> scope = GLOBAL_SCOPE"
  shows "gated_off (snd (write_flag key scope b by_user s))"
  using assms by (auto simp: gated_off_def write_flag_def op_simps Let_def update_where_def)

lemma gated_off_read:
  assumes "gated_off s" and "gated_off (others s)"
  shows "gated_off (snd (isEnabled others now fin key org s))"
proof (cases "fst (isEnabled others now fin key org s)")
  case (Inl e)
  then have "snd (isEnabled others now fin key org s) = s" by (simp add: isEnabled_def op_simps split: option.splits)
  then show ?thesis using assms(1) by simp
next
  case (Inr v)
  then obtain t where t: "isEnabled others now fin key org s = (Inr v, t)" by (cases "isEnabled others now fin key org s") simp
  then show ?thesis
  proof (cases rule: isEnabled_cases)
    case hit
    then show ?thesis using assms(1) t by simp
  next
    case (read d)
    have "gated_off t" unfolding gated_off_def
    proof (intro conjI allI impI)
      show "\<forall>r \<in> set (fl_rows t). gated (ff_key r) \<longrightarrow> ff_scope r = GLOBAL_SCOPE"
        using assms(2) read(3) by (simp add: gated_off_def)
      fix k o' w stamp
      assume k: "gated k" "tenant o'" "fl_cache t (cache_key k (Some o')) = Some (w, stamp)"
      from k(1) obtain e where e: "DEF_BY_KEY k = Some e" "fd_resolution e = Gated" by (auto simp: gated_def)
      show "\<not> w"
      proof (cases "cache_key k (Some o') = cache_key key org")
        case True
        then have "k = key" "or_else (Some o') GLOBAL_SCOPE = or_else org GLOBAL_SCOPE" using cache_key_inject [OF e(1) read(1)] by auto
        then have "resolve_flag (fl_rows s) d org = resolve_flag (fl_rows s) e (Some o')"
          using resolve_global [of "Some o'" org "fl_rows s" e] e(1) read(1) by simp
        then show ?thesis using gated_resolves [OF _ e k(2)] assms(1) read(2,3) k(3) True by (simp add: gated_off_def)
      next
        case False
        then have "fl_cache (others s) (cache_key k (Some o')) = Some (w, stamp)" using k(3) read(3) by simp
        then show ?thesis using assms(2) k(1,2) unfolding gated_off_def by blast
      qed
    qed
    then show ?thesis using t by simp
  qed
qed

lemma flags_used_off: "flags_used g \<Longrightarrow> gated_off s \<Longrightarrow> gated_off (g s)"
proof (induction arbitrary: s rule: flags_used.induct)
  case (by_platform g adm u key b)
  then show ?case using gated_off_written [of "g s" key GLOBAL_SCOPE b "user_id u"]
    by (simp add: setPlatform_def assertPlatformAdmin_def op_simps split: option.split)
next
  case (by_org g u org key b)
  then show ?case using gated_off_written [of "g s" key org b "user_id u"] not_settable [of key]
    by (auto simp: setForOrg_def op_simps split: option.split sum.split)
next
  case (read_flag g others now fin key org)
  then show ?case by (intro gated_off_read) simp_all
next
  case (elsewhere_written g h)
  then have "gated_off (g s)" "gated_off (h (g s))" by simp_all
  then show ?case unfolding gated_off_def by fastforce
next
  case (restarted g)
  then show ?case by (simp add: gated_off_def)
qed simp

text \<open>C38: A gated flag is never on for an organisation: an organisation may not set it and the platform sets only its own half,
  so from a table without rows of organisations for gated flags, whatever is asked and set, in whatever process,
  every stablecoin flag is answered off for every organisation.
\<close>

theorem gated_never_enabled:
  assumes "flags_used g" and "gated_off s" and "DEF_BY_KEY key = Some d" and "fd_resolution d = Gated" and "tenant org"
  shows "fst (isEnabled others now fin key (Some org) (g s)) = Inr False"
proof -
  have off: "gated_off (g s)" by (rule flags_used_off [OF assms(1,2)])
  have "\<exists>v t. isEnabled others now fin key (Some org) (g s) = (Inr v, t)"
    using assms(3) by (simp add: isEnabled_def op_simps split: option.split)
  then obtain v t where t: "isEnabled others now fin key (Some org) (g s) = (Inr v, t)" by blast
  then have "\<not> v"
  proof (cases rule: isEnabled_cases)
    case (hit stamp)
    have "gated key" using assms(3,4) by (simp add: gated_def)
    then show ?thesis using off hit(1) assms(5) unfolding gated_off_def by blast
  next
    case (read e)
    then show ?thesis using gated_resolves [OF _ assms(3-5)] off assms(3) by (simp add: gated_off_def)
  qed
  then show ?thesis using t by simp
qed

text \<open>The row of the platform does not stop an organisation that has switched an ordinary flag on.\<close>

lemma platform_row_overridden:
  assumes "DEF_BY_KEY key = Some d" and "fd_resolution d = Override" and "row_value rows key org = Some True" and "org \<noteq> ''''"
  shows "resolve_flag rows d (Some org)"
  using assms DEF_BY_KEY_SomeD [OF assms(1)] by (simp add: resolve_flag_def org_given_def or_else_def)

text \<open>Every member of an organisation may switch the flag that moves its points to PayChain.\<close>

lemma member_switches_paychain:
  assumes "requireMembership u org = Inr role"
  shows "fst (setForOrg u org ''paychain.enabled'' b s) = Inr (''paychain.enabled'', org, b)"
proof -
  have "List.member TENANT_SETTABLE ''paychain.enabled''" "DEF_BY_KEY ''paychain.enabled'' \<noteq> None" by code_simp+
  then show ?thesis using assms by (auto simp: setForOrg_def write_flag_def Let_def op_simps)
qed

section \<open>Instances\<close>

definition no_flags :: flags_state where
  "no_flags = \<lparr>fl_rows = [], fl_cache = Map.empty\<rparr>"

definition flags_admin :: auth_user where
  "flags_admin = \<lparr>user_id = ''adm'', user_email = ''a@p'', memberships = [\<lparr>m_org = ''org_1'', m_role = Owner\<rparr>]\<rparr>"

lemma stablecoin_known: "\<exists>d. DEF_BY_KEY ''stablecoin.transfer.enabled'' = Some d \<and> fd_resolution d = Gated"
proof -
  have "map_option fd_resolution (DEF_BY_KEY ''stablecoin.transfer.enabled'') = Some Gated" by code_simp
  then show ?thesis by auto
qed

theorem gated_never_enabled_witness:
  "fst (isEnabled id 0 0 ''stablecoin.transfer.enabled'' (Some ''org_1'')
     (snd (setPlatform True flags_admin ''stablecoin.transfer.enabled'' True
       (snd (setForOrg flags_admin ''org_1'' ''stablecoin.transfer.enabled'' True no_flags))))) = Inr False"
proof -
  have u: "flags_used (\<lambda>s. snd (setPlatform True flags_admin ''stablecoin.transfer.enabled'' True
      (snd (setForOrg flags_admin ''org_1'' ''stablecoin.transfer.enabled'' True s))))"
    by (rule by_platform [OF by_org [OF unused]])
  have "gated_off no_flags" by (simp add: gated_off_def no_flags_def)
  moreover have "tenant ''org_1''" by (simp add: tenant_def GLOBAL_SCOPE_def)
  ultimately show ?thesis using gated_never_enabled [OF u] stablecoin_known by blast
qed

theorem flag_staleness_witness:
  "\<exists>d t'. DEF_BY_KEY ''loyalty.enabled'' = Some d \<and> 5 - TTL_MS - 1 < t' \<and> t' \<le> (5::int) \<and> resolve_flag [] d (Some ''org_1'')"
proof -
  have "map_option fd_default (DEF_BY_KEY ''loyalty.enabled'') = Some True" "map_option fd_resolution (DEF_BY_KEY ''loyalty.enabled'') = Some Override"
    by code_simp+
  then obtain d where d: "DEF_BY_KEY ''loyalty.enabled'' = Some d" "fd_default d" "fd_resolution d = Override" by auto
  then have "isEnabled id 5 6 ''loyalty.enabled'' (Some ''org_1'') no_flags =
      (Inr True, fl_cache_update (\<lambda>c. c(cache_key ''loyalty.enabled'' (Some ''org_1'') \<mapsto> (True, 6))) no_flags)"
    by (simp add: isEnabled_def op_simps no_flags_def cached_value_def resolve_flag_def row_value_def org_given_def or_else_def)
  moreover have "flags_course (\<lambda>_. []) 1 5 no_flags"
    unfolding no_flags_def by (rule flags_course.started [where H = "\<lambda>_. []"])
  ultimately show ?thesis using flag_staleness [of "\<lambda>_. []" 1 5 no_flags id 6 "''loyalty.enabled''" "Some ''org_1''" True] by auto
qed

end
