(* ===== verification/Spec2Isabelle.thy ===== *)
theory Spec2Isabelle
  imports Khqr Reconcile GiftCards Awards Rewards Referrals Games Quota Hmac Delivery Settlement Risk Customers
    Payments Transitions Refunds Pricing Billing Accounts ApiKeys Ssrf DigitalValue
    System RateLimits Resilience Payouts Detection TrusteeEvents FeatureFlags
begin

text \<open>
  A formal model of the PayKH payment platform: the API service under \<open>apps/api/src\<close>, the
  packages \<open>packages/shared-types\<close> and \<open>packages/security\<close> it is built on.

  \<^bold>\<open>The program.\<close> A merchant's server, a checkout page or the dashboard calls the API. A
  payment is created as a KHQR code that a bank account pays; the worker and the bank's callbacks move it
  along a status machine; when it is captured, the platform counts it against the quota, redeems the
  coupon and the gift card it was priced with, awards loyalty points, rewards referrals, accrues commissions,
  issues scratch cards, scores the risk, mails a receipt, posts the double-entry journal and
  tells the merchant's webhooks. Refunds reserve an amount on the payment, settlements batch captured payments into daily
  statements, and reconciliation compares ledger, payments and balances. All of them meet in one
  PostgreSQL database.

  \<^bold>\<open>The state.\<close> \<open>Schema.db\<close> is the database as a record of tables, each the list of its rows
  in insertion order (\<open>apps/api/prisma/schema.prisma\<close>, the columns the services use), with the
  clock, the random strings still to be drawn (\<open>rnd\<close>, \<open>draws\<close>) and the \<open>outbox\<close>, the list of
  effects that leave the process: mails, queue jobs, published events, provider refunds. A handler
  (\<open>Prelude.op\<close>) maps a state to an error or a result and the new state. \<open>transaction\<close> undoes
  the writes of a failed body, as the database does; a failing handler outside one keeps what it wrote,
  as the code does. Money is an exact rational (\<open>Prisma.Decimal\<close>) with the rounding the code asks for
  written out in \<open>JsValue\<close>; the products that the code computes on JavaScript numbers are rounded to
  doubles by \<open>JsNumber\<close>. Code of other packages (SHA-256, HMAC, the payment provider, DNS, the network,
  the collation of the database) is an argument of the definitions that use it.

  \<^bold>\<open>Races.\<close> Where the code reads outside the transaction that writes, the writes that other requests commit in between
  are an argument (a function on states) of the definition: \<open>execute_racing\<close>, \<open>transition_tx\<close>,
  \<open>claimPrize\<close>. A theorem for all such functions that keep the property holds under every
  interleaving of that shape; a theorem with a concrete one is a race that goes wrong.

  \<^bold>\<open>The theories.\<close>
  \<^item> \<open>Prelude\<close>, \<open>Database\<close>: operations that may fail, preservation of an invariant by an operation
    (\<open>keeps\<close>, with the rules \<open>keeps_intros\<close>), tables and queries; the locale \<open>table\<close> states what the
    clients of a keyed table rely on and is interpreted for every table that has a key.
    \<open>JsValue\<close>, \<open>JsNumber\<close>: decimals, rounding, printing, doubles. \<open>Schema\<close>, \<open>Stores\<close>: rows and access checks.
  \<^item> \<open>SharedTypes\<close> (\<open>packages/shared-types\<close>, \<open>common/api-error.ts\<close>): the two status machines as step relations, error codes.
    \<open>Access\<close> (\<open>auth/rbac.ts\<close>, \<open>auth/abac.ts\<close>): who may do what. \<open>Amounts\<close> (\<open>payments/amount.util.ts\<close>): amounts and
    their text. \<open>Khqr\<close> (\<open>providers/khqr.util.ts\<close>): the code, its checksum and its parser.
  \<^item> \<open>Ledger\<close>, \<open>Reconcile\<close> (\<open>ledger\<close>): journals that balance, points balances as ledger positions, drift,
    backfills. \<open>Points\<close> states that the balances on the customers are what the ledger says (\<open>points_sound\<close>).
  \<^item> \<open>Loyalty\<close>, \<open>Awards\<close>, \<open>Expiry\<close>, \<open>Rewards\<close> (\<open>loyalty/loyalty.service.ts\<close>): awards, redemption, expiry, rewards.
    \<open>Segments\<close>, \<open>Campaigns\<close>, \<open>Referrals\<close>, \<open>Games\<close>, \<open>Coupons\<close>, \<open>GiftCards\<close>: the directories of the same names.
  \<^item> \<open>Idempotency\<close>: replay protection of the write APIs; its locale \<open>idempotent_run\<close> takes any work that leaves the
    records alone and is interpreted on redemption, payment and refund.
  \<^item> \<open>Hmac\<close> (\<open>packages/security/src/hmac.ts\<close>), \<open>Webhooks\<close>, \<open>Delivery\<close> (\<open>webhooks\<close>, \<open>worker/webhook-delivery.processor.ts\<close>):
    signatures, fan-out, attempts and retries. \<open>Quota\<close> (\<open>billing/quota.service.ts\<close>), \<open>Settlement\<close>, \<open>Risk\<close> (\<open>risk\<close>, \<open>receipts\<close>),
    \<open>Customers\<close> (\<open>customers\<close>, \<open>branches\<close>).
  \<^item> \<open>Payments\<close> (\<open>payments/payments.service.ts\<close>): the service itself. \<open>Transitions\<close>: its refinement of the status
    machine and who wins a race. \<open>Refunds\<close>: the bound on what is given back. \<open>Pricing\<close>: what a create charges. \<open>Billing\<close> (\<open>billing/billing.service.ts\<close>): the platform's own subscriptions,
    invoices and dunning.
  \<^item> \<open>Totp\<close> (\<open>packages/security/src/totp.ts\<close>), \<open>Identity\<close>, \<open>Auth\<close> (\<open>auth\<close>), \<open>Team\<close> (\<open>team\<close>), \<open>Accounts\<close>: users, sessions, second factors,
    members. They live in tables of their own, \<open>Identity.identity_db\<close>, because no payment touches them. \<open>Accounts.serve\<close> is a request of any
    of these services and \<open>later\<close> the states that any requests lead to.
  \<^item> \<open>ApiKeys\<close> (\<open>api-keys\<close>, \<open>auth/api-key.guard.ts\<close>, \<open>access\<close>): the keys of the public API. \<open>Ssrf\<close> (\<open>common/ssrf.ts\<close>): the
    guard of webhook URLs. \<open>DigitalValue\<close> (\<open>providers/mock-digital-value.provider.ts\<close>): the store of digital value.

  \<^item> \<open>Effects\<close>, \<open>Contracts\<close>, \<open>Maintenance\<close> (\<open>worker/maintenance.processor.ts\<close>), \<open>System\<close>: the platform as a whole. \<open>Effects\<close> and \<open>Contracts\<close> state, as
    locales, what an invariant asks of the writes of the payment, settlement and billing services; \<open>System\<close> interprets them for five invariants
    and proves them of every course of requests and worker jobs (\<open>concurrent\<close>), where each request meets, at the points
    it does not protect, any course of others.
  \<^item> \<open>RateLimits\<close> (\<open>ratelimit\<close>): the guards in front of the routes; what Redis does is the hypothesis \<open>redis_ok\<close>. \<open>Resilience\<close> (\<open>providers/resilience.ts\<close>):
    breaker, timeout and retries around a provider.
  \<^item> \<open>Attached\<close>: services with tables of their own beside the database (\<open>attached\<close>). \<open>Payouts\<close> (\<open>admin/payout.service.ts\<close>),
    \<open>BankAlerts\<close> and \<open>Detection\<close> (\<open>telegram\<close>): paying stores out, reading bank alerts, confirming what they report; \<open>Detection.detecting\<close>
    runs between the requests of that service any course of the platform. \<open>Separators\<close>: keys joined with a separator.
  \<^item> \<open>TextUnits\<close>: texts as UTF-16 code units. \<open>CanonicalJson\<close>, \<open>TrusteeEvents\<close> (\<open>trustee/trustee-events.module.ts\<close>): the JSON values, the text of
    them that the trustee signs, and the receiver of its events; \<open>TrusteeEvents.trusted\<close> is the hypothesis on Ed25519.
    \<open>FeatureFlags\<close> (\<open>feature-flags/feature-flags.module.ts\<close>): flags, their cache in each process, and who may set them.

  \<^bold>\<open>The lemmas.\<close> For each component: what every operation does on each outcome (lemmas named \<open>_cases\<close>), the invariant
  of its tables and that every operation keeps it (\<open>keeps_\<close>), and the properties, each with an instance
  on a concrete database.

  \<^bold>\<open>Bounds and termination.\<close> All definitions are total. The loops of the code over pages or retries are bounded by the
  data: the backfills by the length of the table, the draw of a prize by the number of prizes (each
  failed claim excludes one), the parsers by the text, the retries of a provider call by their number. A delivery job runs the six attempts of its
  queue policy.

  \<^bold>\<open>Not modelled.\<close> Controllers, modules and validation decorators (the requests are taken as validated), the React applications,
  documentation pages and client SDKs; the rendering of mails and messages; the clients of PayChain and the
  trustee, the bot of Telegram and the AI providers, whose behaviour is remote; reports of the administration and analytics pages; free-form metadata beyond the keys
  the services read. The password hash, encryption and the signature of session tokens, which
  Node provides, are arguments. \<close>

end
